(* ===== verification/SA_Prelude.thy ===== *)
theory SA_Prelude
  imports Main "HOL-Library.Word"
begin

text \<open>
  Shared vocabulary of the development. \<open>ordering\<close> is Rust's \<open>std::cmp::Ordering\<close>; the
  comparison interface \<open>total_cmp\<close> (what every \<open>Ord\<close> implementation promises and every
  client of \<open>sort_by\<close> and of a heap relies on) is stated once as a locale and interpreted on
  the comparisons of the standard library here, and on the program's own ones in the theories
  that define them. \<open>sort_by\<close>, \<open>dedup_by\<close> and \<open>retain\<close> are the vector operations the
  program uses. A fallible function returns \<open>'e + 'a\<close> with \<open>Inl\<close> for the error.
\<close>

named_theorems cmp_simps \<open>equations of the comparison functions\<close>

section \<open>Results\<close>

definition res_bind :: "'e + 'a \<Rightarrow> ('a \<Rightarrow> 'e + 'b) \<Rightarrow> 'e + 'b" where
  "res_bind r f = (case r of Inl e \<Rightarrow> Inl e | Inr v \<Rightarrow> f v)"

lemma res_bind_simps [simp]:
  "res_bind (Inl e) f = Inl e"
  "res_bind (Inr v) f = f v"
  by (simp_all add: res_bind_def)

lemma res_bind_Inr: "res_bind r f = Inr v \<longleftrightarrow> (\<exists>u. r = Inr u \<and> f u = Inr v)"
  by (cases r) simp_all

definition opt_or :: "'a option \<Rightarrow> 'a \<Rightarrow> 'a" where
  "opt_or m d = (case m of None \<Rightarrow> d | Some v \<Rightarrow> v)"

lemma opt_or_simps [simp]: "opt_or None d = d" "opt_or (Some v) d = v"
  by (simp_all add: opt_or_def)

section \<open>Orderings\<close>

datatype ordering = Less | Equal | Greater

fun ord_reverse :: "ordering \<Rightarrow> ordering" where
  "ord_reverse Less = Greater"
| "ord_reverse Equal = Equal"
| "ord_reverse Greater = Less"

text \<open>\<open>Ordering::then_with\<close>: the second comparison decides only between equals.\<close>

fun then_with :: "ordering \<Rightarrow> ordering \<Rightarrow> ordering" where
  "then_with Equal b = b"
| "then_with Less _ = Less"
| "then_with Greater _ = Greater"

lemma ord_reverse_reverse [simp]: "ord_reverse (ord_reverse a) = a"
  by (cases a) simp_all

lemma ord_reverse_eq_iff [simp]:
  "ord_reverse a = Equal \<longleftrightarrow> a = Equal"
  "ord_reverse a = Less \<longleftrightarrow> a = Greater"
  "ord_reverse a = Greater \<longleftrightarrow> a = Less"
  by (cases a; simp)+

lemma ord_reverse_then_with:
  "ord_reverse (then_with a b) = then_with (ord_reverse a) (ord_reverse b)"
  by (cases a) simp_all

definition cmp_lin :: "'a::linorder \<Rightarrow> 'a \<Rightarrow> ordering" where
  "cmp_lin a b = (if a < b then Less else if a = b then Equal else Greater)"

lemma cmp_lin_iff [cmp_simps]:
  "cmp_lin a b = Equal \<longleftrightarrow> a = b"
  "cmp_lin a b = Less \<longleftrightarrow> a < b"
  "cmp_lin a b = Greater \<longleftrightarrow> b < a"
  by (auto simp: cmp_lin_def)

lemma cmp_lin_swap: "cmp_lin b a = ord_reverse (cmp_lin a b)"
  by (auto simp: cmp_lin_def)

text \<open>
  What an implementation of \<open>Ord\<close> owes its clients: reflexivity, antisymmetry in the form
  "swapping the arguments reverses the answer", and transitivity of "not greater".
\<close>

locale total_cmp =
  fixes cmp :: "'a \<Rightarrow> 'a \<Rightarrow> ordering"
  assumes cmp_refl: "cmp x x = Equal"
    and cmp_swap: "cmp y x = ord_reverse (cmp x y)"
    and cmp_trans: "cmp x y \<noteq> Greater \<Longrightarrow> cmp y z \<noteq> Greater \<Longrightarrow> cmp x z \<noteq> Greater"
begin

lemma cmp_total: "cmp x y = Greater \<Longrightarrow> cmp y x = Less"
  using cmp_swap [of y x] by simp

lemma cmp_le_total: "cmp x y \<noteq> Greater \<or> cmp y x \<noteq> Greater"
  using cmp_swap [of y x] by (cases "cmp x y") auto

lemma cmp_equal_sym: "cmp x y = Equal \<Longrightarrow> cmp y x = Equal"
  using cmp_swap [of y x] by simp

lemma cmp_equal_trans: "cmp x y = Equal \<Longrightarrow> cmp y z = Equal \<Longrightarrow> cmp x z = Equal"
proof -
  assume xy: "cmp x y = Equal" and yz: "cmp y z = Equal"
  have "cmp x z \<noteq> Greater" using cmp_trans [of x y z] xy yz by simp
  moreover have "cmp z x \<noteq> Greater"
    using cmp_trans [of z y x] cmp_equal_sym [OF xy] cmp_equal_sym [OF yz] by simp
  ultimately show ?thesis using cmp_swap [of z x] by (cases "cmp x z") auto
qed

end

text \<open>A comparison whose \<open>Equal\<close> is equality, as \<open>Ord\<close> requires of a type with \<open>Eq\<close>.\<close>

locale strict_cmp = total_cmp +
  assumes cmp_eq: "cmp x y = Equal \<Longrightarrow> x = y"
begin

lemma cmp_eq_iff: "cmp x y = Equal \<longleftrightarrow> x = y"
  using cmp_eq cmp_refl by blast

end

interpretation lin: strict_cmp "cmp_lin :: 'a::linorder \<Rightarrow> 'a \<Rightarrow> ordering"
  by unfold_locales (auto simp: cmp_lin_def split: if_splits)

subsection \<open>Strings: byte-wise lexicographic comparison\<close>

definition char_cmp :: "char \<Rightarrow> char \<Rightarrow> ordering" where
  "char_cmp a b = cmp_lin (of_char a :: nat) (of_char b)"

fun list_cmp :: "('a \<Rightarrow> 'a \<Rightarrow> ordering) \<Rightarrow> 'a list \<Rightarrow> 'a list \<Rightarrow> ordering" where
  "list_cmp c [] [] = Equal"
| "list_cmp c [] (y # ys) = Less"
| "list_cmp c (x # xs) [] = Greater"
| "list_cmp c (x # xs) (y # ys) = then_with (c x y) (list_cmp c xs ys)"

definition str_cmp :: "string \<Rightarrow> string \<Rightarrow> ordering" where
  "str_cmp = list_cmp char_cmp"

text \<open>
  Combining a comparison with a second one: the lemma behind every lexicographic order of the
  development, for lists, pairs and the trigger order alike.
\<close>

lemma then_with_not_greater:
  "then_with a b \<noteq> Greater \<longleftrightarrow> a = Less \<or> (a = Equal \<and> b \<noteq> Greater)"
  by (cases a) simp_all

lemma then_with_equal [simp]: "then_with a b = Equal \<longleftrightarrow> a = Equal \<and> b = Equal"
  by (cases a) simp_all

lemma then_with_trans:
  assumes "total_cmp c"
    and "then_with (c x y) p \<noteq> Greater" and "then_with (c y z) q \<noteq> Greater"
    and "p \<noteq> Greater \<Longrightarrow> q \<noteq> Greater \<Longrightarrow> r \<noteq> Greater"
  shows "then_with (c x z) r \<noteq> Greater"
proof (cases "c x z")
  case Less
  then show ?thesis by simp
next
  case Greater
  have "c x y \<noteq> Greater" "c y z \<noteq> Greater"
    using assms(2,3) by (auto simp: then_with_not_greater)
  with Greater show ?thesis using total_cmp.cmp_trans [OF assms(1)] by blast
next
  case Equal
  then have zx: "c z x = Equal" using total_cmp.cmp_equal_sym [OF assms(1)] by blast
  have le: "c x y \<noteq> Greater" "c y z \<noteq> Greater"
    using assms(2,3) by (auto simp: then_with_not_greater)
  have "c z y \<noteq> Greater"
    using total_cmp.cmp_trans [OF assms(1), of z x y] zx le(1) by simp
  then have "c y z = Equal"
    using total_cmp.cmp_swap [OF assms(1), of z y] le(2) by (cases "c y z") auto
  moreover have "c y x \<noteq> Greater"
    using total_cmp.cmp_trans [OF assms(1), of y z x] zx le(2) by simp
  then have "c x y = Equal"
    using total_cmp.cmp_swap [OF assms(1), of y x] le(1) by (cases "c x y") auto
  ultimately show ?thesis
    using assms(2-4) Equal by (auto simp: then_with_not_greater)
qed

lemma list_cmp_refl: "(\<And>x. c x x = Equal) \<Longrightarrow> list_cmp c xs xs = Equal"
  by (induction xs) simp_all

lemma list_cmp_swap:
  assumes swap: "\<And>x y. c y x = ord_reverse (c x y)"
  shows "list_cmp c ys xs = ord_reverse (list_cmp c xs ys)"
proof (induction xs arbitrary: ys)
  case Nil
  show ?case by (cases ys) simp_all
next
  case IH: (Cons x xs)
  show ?case
  proof (cases ys)
    case Nil
    then show ?thesis by simp
  next
    case (Cons y ys')
    have "c y x = ord_reverse (c x y)" and "list_cmp c ys' xs = ord_reverse (list_cmp c xs ys')"
      by (rule swap, rule IH.IH)
    then show ?thesis
      unfolding Cons list_cmp.simps ord_reverse_then_with by (rule arg_cong2)
  qed
qed

lemma list_cmp_trans:
  assumes "total_cmp c"
  shows "list_cmp c xs ys \<noteq> Greater \<Longrightarrow> list_cmp c ys zs \<noteq> Greater \<Longrightarrow> list_cmp c xs zs \<noteq> Greater"
proof (induction xs arbitrary: ys zs)
  case Nil
  then show ?case by (cases zs) simp_all
next
  case (Cons x xs)
  then obtain y ys' where ys: "ys = y # ys'" by (cases ys) auto
  with Cons.prems obtain z zs' where zs: "zs = z # zs'" by (cases zs) auto
  have "then_with (c x z) (list_cmp c xs zs') \<noteq> Greater"
  proof (rule then_with_trans [OF assms])
    show "then_with (c x y) (list_cmp c xs ys') \<noteq> Greater"
      and "then_with (c y z) (list_cmp c ys' zs') \<noteq> Greater"
      using Cons.prems by (simp_all add: ys zs)
  qed (rule Cons.IH)
  then show ?case by (simp add: zs)
qed

text \<open>Comparing by a key, and by one key after another (\<open>Ordering::then_with\<close>).\<close>

lemma total_cmp_on: "total_cmp c \<Longrightarrow> total_cmp (\<lambda>x y. c (f x) (f y))"
  unfolding total_cmp_def by blast

lemma total_cmp_then:
  assumes c: "total_cmp c" and d: "total_cmp d"
  shows "total_cmp (\<lambda>x y. then_with (c x y) (d x y))"
proof
  fix x y z
  show "then_with (c x x) (d x x) = Equal"
    using c d by (simp add: total_cmp_def)
  show "then_with (c y x) (d y x) = ord_reverse (then_with (c x y) (d x y))"
    using c d unfolding total_cmp_def ord_reverse_then_with by metis
  assume "then_with (c x y) (d x y) \<noteq> Greater" "then_with (c y z) (d y z) \<noteq> Greater"
  then show "then_with (c x z) (d x z) \<noteq> Greater"
    by (rule then_with_trans [OF c]) (rule total_cmp.cmp_trans [OF d])
qed

lemma total_cmp_list:
  assumes "total_cmp c"
  shows "total_cmp (list_cmp c)"
proof (rule total_cmp.intro)
  fix xs ys zs :: "'a list"
  show "list_cmp c xs xs = Equal"
    by (rule list_cmp_refl) (rule total_cmp.cmp_refl [OF assms])
  show "list_cmp c ys xs = ord_reverse (list_cmp c xs ys)"
    by (rule list_cmp_swap) (rule total_cmp.cmp_swap [OF assms])
  show "list_cmp c xs ys \<noteq> Greater \<Longrightarrow> list_cmp c ys zs \<noteq> Greater \<Longrightarrow> list_cmp c xs zs \<noteq> Greater"
    by (rule list_cmp_trans [OF assms])
qed

lemma list_cmp_eq: "(\<And>x y. c x y = Equal \<Longrightarrow> x = y) \<Longrightarrow> list_cmp c xs ys = Equal \<Longrightarrow> xs = ys"
  by (induction c xs ys rule: list_cmp.induct) auto

interpretation chr: strict_cmp char_cmp
proof unfold_locales
  fix x y z :: char
  show "char_cmp x x = Equal" by (simp add: char_cmp_def lin.cmp_refl)
  show "char_cmp y x = ord_reverse (char_cmp x y)"
    unfolding char_cmp_def by (rule cmp_lin_swap)
  show "char_cmp x y \<noteq> Greater \<Longrightarrow> char_cmp y z \<noteq> Greater \<Longrightarrow> char_cmp x z \<noteq> Greater"
    unfolding char_cmp_def by (rule lin.cmp_trans)
  show "char_cmp x y = Equal \<Longrightarrow> x = y"
    by (simp add: char_cmp_def cmp_lin_iff)
qed

interpretation str: strict_cmp str_cmp
proof (intro strict_cmp.intro strict_cmp_axioms.intro)
  show "total_cmp str_cmp"
    unfolding str_cmp_def by (rule total_cmp_list) (rule chr.total_cmp_axioms)
  show "str_cmp x y = Equal \<Longrightarrow> x = y" for x y
    by (auto simp: str_cmp_def intro: list_cmp_eq chr.cmp_eq)
qed

section \<open>Vector operations\<close>

text \<open>
  \<open>slice::sort_by\<close> is a stable sort: insertion sort is the executable reference of any stable
  sort, equal elements keep their order.
\<close>

fun insert_by :: "('a \<Rightarrow> 'a \<Rightarrow> ordering) \<Rightarrow> 'a \<Rightarrow> 'a list \<Rightarrow> 'a list" where
  "insert_by c x [] = [x]"
| "insert_by c x (y # ys) = (if c x y = Greater then y # insert_by c x ys else x # y # ys)"

fun sort_by :: "('a \<Rightarrow> 'a \<Rightarrow> ordering) \<Rightarrow> 'a list \<Rightarrow> 'a list" where
  "sort_by c [] = []"
| "sort_by c (x # xs) = insert_by c x (sort_by c xs)"

text \<open>
  \<open>Vec::dedup_by(same)\<close>: each element is compared with the last one kept and dropped when
  they are the same; \<open>same\<close> gets the later element first.
\<close>

fun dedup_by :: "('a \<Rightarrow> 'a \<Rightarrow> bool) \<Rightarrow> 'a list \<Rightarrow> 'a list" where
  "dedup_by same [] = []"
| "dedup_by same [x] = [x]"
| "dedup_by same (x # y # xs) =
     (if same y x then dedup_by same (x # xs) else x # dedup_by same (y # xs))"

abbreviation retain :: "('a \<Rightarrow> bool) \<Rightarrow> 'a list \<Rightarrow> 'a list" where
  "retain \<equiv> filter"

lemma set_insert_by [simp]: "set (insert_by c x ys) = insert x (set ys)"
  by (induction ys) auto

lemma set_sort_by [simp]: "set (sort_by c xs) = set xs"
  by (induction xs) auto

lemma length_insert_by [simp]: "length (insert_by c x ys) = Suc (length ys)"
  by (induction ys) auto

lemma length_sort_by [simp]: "length (sort_by c xs) = length xs"
  by (induction xs) auto

lemma set_dedup_by_subset: "set (dedup_by same xs) \<subseteq> set xs"
  by (induction same xs rule: dedup_by.induct) auto

lemma dedup_by_head: "\<exists>ys. dedup_by same (x # xs) = x # ys"
proof (induction xs)
  case (Cons y xs)
  then show ?case by (cases "same y x") auto
qed simp

text \<open>An element that is dropped is the same as one that is kept.\<close>

lemma dedup_by_covers: "y \<in> set xs \<Longrightarrow> \<exists>x \<in> set (dedup_by same xs). x = y \<or> same y x"
proof (induction same xs rule: dedup_by.induct)
  case (3 same x z xs)
  show ?case
  proof (cases "same z x \<and> y = z")
    case True
    then show ?thesis using dedup_by_head [of same x xs] by auto
  next
    case False
    with 3 show ?thesis by (cases "same z x") auto
  qed
qed auto

definition sorted_by :: "('a \<Rightarrow> 'a \<Rightarrow> ordering) \<Rightarrow> 'a list \<Rightarrow> bool" where
  "sorted_by c xs = sorted_wrt (\<lambda>x y. c x y \<noteq> Greater) xs"

context total_cmp
begin

lemma sorted_by_insert_by: "sorted_by cmp ys \<Longrightarrow> sorted_by cmp (insert_by cmp x ys)"
proof (induction ys)
  case Nil
  then show ?case by (simp add: sorted_by_def)
next
  case (Cons y ys)
  show ?case
  proof (cases "cmp x y = Greater")
    case True
    then have "cmp y x \<noteq> Greater" using cmp_total by simp
    with True Cons show ?thesis by (auto simp: sorted_by_def)
  next
    case False
    then show ?thesis using Cons.prems cmp_trans by (fastforce simp: sorted_by_def)
  qed
qed

lemma sorted_by_sort_by: "sorted_by cmp (sort_by cmp xs)"
  by (induction xs) (simp_all add: sorted_by_insert_by, simp add: sorted_by_def)

text \<open>
  Sorting and removing neighbours: when elements that compare \<open>Equal\<close> are the same, the
  result is strictly increasing, so no two entries of it compare \<open>Equal\<close>.
\<close>

lemma strict_trans: "cmp x y = Less \<Longrightarrow> cmp y z \<noteq> Greater \<Longrightarrow> cmp x z = Less"
proof -
  assume xy: "cmp x y = Less" and yz: "cmp y z \<noteq> Greater"
  then have "cmp x z \<noteq> Greater" using cmp_trans [of x y z] by simp
  moreover have "cmp x z \<noteq> Equal"
  proof
    assume "cmp x z = Equal"
    then have "cmp z x \<noteq> Greater" using cmp_equal_sym by simp
    with yz have "cmp y x \<noteq> Greater" using cmp_trans [of y z x] by simp
    then show False using cmp_swap [of y x] xy by simp
  qed
  ultimately show ?thesis by (cases "cmp x z") auto
qed

lemma dedup_sorted_strict:
  assumes "\<And>x y. cmp x y = Equal \<Longrightarrow> same y x"
  shows "sorted_by cmp xs \<Longrightarrow> sorted_wrt (\<lambda>x y. cmp x y = Less) (dedup_by same xs)"
  using assms
proof (induction same xs rule: dedup_by.induct)
  case (3 s x y xs)
  have srt: "sorted_by cmp (y # xs)" "sorted_by cmp (x # xs)" and xy: "cmp x y \<noteq> Greater"
    using "3.prems"(1) by (auto simp: sorted_by_def)
  show ?case
  proof (cases "s y x")
    case True
    with "3.IH"(1) srt "3.prems"(2) show ?thesis by simp
  next
    case False
    with "3.prems"(2) xy have less: "cmp x y = Less" by (cases "cmp x y") auto
    have "cmp x z = Less" if "z \<in> set (dedup_by s (y # xs))" for z
    proof -
      have "z \<in> set (y # xs)" using that set_dedup_by_subset by fast
      then have "cmp y z \<noteq> Greater" using srt(1) cmp_refl by (auto simp: sorted_by_def)
      with less show ?thesis by (rule strict_trans)
    qed
    with False "3.IH"(2) srt "3.prems"(2) show ?thesis by auto
  qed
qed auto

end

section \<open>Walks with a stack and a set of visited items\<close>

text \<open>
  The loops that pop an item, skip it when it has been visited and otherwise push what it leads
  to: they end because each item of a finite set is expanded once.
\<close>

lemma stack_walk_induct [consumes 1, case_names Nil Visited Outside Expand]:
  assumes fin: "finite D"
    and Nil: "\<And>vis. P [] vis"
    and Visited: "\<And>i st vis. i \<in> vis \<Longrightarrow> P st vis \<Longrightarrow> P (i # st) vis"
    and Outside: "\<And>i st vis. i \<notin> vis \<Longrightarrow> i \<notin> D \<Longrightarrow> P st (insert i vis) \<Longrightarrow> P (i # st) vis"
    and Expand: "\<And>i st vis. i \<notin> vis \<Longrightarrow> i \<in> D \<Longrightarrow> (\<And>st'. P st' (insert i vis)) \<Longrightarrow> P (i # st) vis"
  shows "P st vis"
proof (induction "(st, vis)" arbitrary: st vis
    rule: wf_induct [OF wf_measures [of "[\<lambda>(st, vis). card (D - vis), \<lambda>(st, vis). length st]"]])
  case 1
  show ?case
  proof (cases st)
    case Nil
    then show ?thesis using assms(2) by simp
  next
    case (Cons i st')
    have small: "card (D - insert i vis) < card (D - vis)" if "i \<notin> vis" "i \<in> D"
      using that fin by (intro psubset_card_mono) auto
    have ih: "P st2 vis2"
      if "card (D - vis2) < card (D - vis) \<or> card (D - vis2) = card (D - vis) \<and> length st2 < length st" for st2 vis2
      using 1 that by (auto simp: measures_def)
    show ?thesis unfolding Cons
    proof (cases "i \<in> vis")
      case True
      with Cons show "P (i # st') vis" by (intro Visited ih) simp_all
    next
      case new: False
      show "P (i # st') vis"
      proof (cases "i \<in> D")
        case True
        with new small show ?thesis by (intro Expand ih) simp_all
      next
        case False
        then have "D - insert i vis = D - vis" by blast
        with new False Cons show ?thesis by (intro Outside ih) simp_all
      qed
    qed
  qed
qed

end
