(* ===== verification/Broadcast.thy ===== *)
theory Broadcast
  imports SA_Prelude "HOL-Library.Multiset"
begin

text \<open>
  How messages for all clients reach them (\<open>broadcast\<close> in \<open>src/bin/server/webclient.rs\<close> and the
  operations that call it). An operation computes its messages under a lock, releases the lock
  and then broadcasts them one by one; a broadcast starts one task for each client that is logged
  in, and these tasks send in no particular order. So what a client gets is every message once,
  but in any order, also among the messages of one operation. A component whose messages follow
  its state (locale \<open>followed\<close>) is shown as it is by a client that got them all in the order in
  which their locked sections ran.
\<close>

section \<open>Broadcasting\<close>

type_synonym client_id = nat

text \<open>\<open>ca_queued\<close>: for every section that has released its lock the messages not yet broadcast;
  \<open>ca_flying\<close>: the tasks that have not sent their message; \<open>ca_got\<close>: what each client was sent.\<close>

record 'm casts =
  ca_logged_in :: "client_id list"
  ca_queued :: "'m list list"
  ca_flying :: "(client_id \<times> 'm) list"
  ca_got :: "client_id \<Rightarrow> 'm list"

definition quiet_casts :: "client_id list \<Rightarrow> 'm casts" where
  "quiet_casts cs = \<lparr>ca_logged_in = cs, ca_queued = [], ca_flying = [], ca_got = (\<lambda>_. [])\<rparr>"

definition hand_over :: "'m list \<Rightarrow> 'm casts \<Rightarrow> 'm casts" where
  "hand_over ms b = b\<lparr>ca_queued := ca_queued b @ [ms]\<rparr>"

definition spawn_sends :: "'m \<Rightarrow> 'm casts \<Rightarrow> 'm casts" where
  "spawn_sends m b = b\<lparr>ca_flying := ca_flying b @ map (\<lambda>c. (c, m)) (ca_logged_in b)\<rparr>"

definition send_one :: "client_id \<times> 'm \<Rightarrow> 'm casts \<Rightarrow> 'm casts" where
  "send_one cm b = b\<lparr>ca_flying := remove1 cm (ca_flying b),
     ca_got := (ca_got b)(fst cm := ca_got b (fst cm) @ [snd cm])\<rparr>"

inductive cast_step :: "'m casts \<Rightarrow> 'm casts \<Rightarrow> bool" where
  cast_next: "i < length (ca_queued b) \<Longrightarrow> ca_queued b ! i = m # ms
    \<Longrightarrow> cast_step b (spawn_sends m (b\<lparr>ca_queued := (ca_queued b)[i := ms]\<rparr>))"
| cast_send: "cm \<in> set (ca_flying b) \<Longrightarrow> cast_step b (send_one cm b)"

text \<open>What a client will still be sent.\<close>

definition pending :: "client_id \<Rightarrow> 'm casts \<Rightarrow> 'm list" where
  "pending c b = map snd (filter (\<lambda>cm. fst cm = c) (ca_flying b)) @ concat (ca_queued b)"

section \<open>Every message arrives once\<close>

lemma mset_concat_update:
  "i < length xss \<Longrightarrow> xss ! i = m # ms \<Longrightarrow> mset (concat xss) = add_mset m (mset (concat (xss[i := ms])))"
proof (induction xss arbitrary: i)
  case (Cons xs xss)
  then show ?case by (cases i) auto
qed simp

lemma pending_spawn:
  "distinct (ca_logged_in b) \<Longrightarrow> c \<in> set (ca_logged_in b) \<Longrightarrow>
   mset (pending c (spawn_sends m b)) = add_mset m (mset (pending c b))"
proof -
  assume d: "distinct (ca_logged_in b)" "c \<in> set (ca_logged_in b)"
  then have "filter (\<lambda>x. x = c) (ca_logged_in b) = [c]"
  proof (induction "ca_logged_in b" arbitrary: b)
    case (Cons x xs)
    have "filter (\<lambda>y. y = c) xs = (if c \<in> set xs then [c] else [])" if "distinct xs" for xs
      using that by (induction xs) auto
    then show ?case using Cons.prems Cons.hyps(2) [symmetric] by auto
  qed simp
  then show "mset (pending c (spawn_sends m b)) = add_mset m (mset (pending c b))"
    by (simp add: pending_def spawn_sends_def filter_map comp_def)
qed

lemma pending_send:
  assumes "cm \<in> set (ca_flying b)"
  shows "mset (ca_got (send_one cm b) c) + mset (pending c (send_one cm b)) = mset (ca_got b c) + mset (pending c b)"
proof -
  obtain xs ys where f: "ca_flying b = xs @ cm # ys" "cm \<notin> set xs"
    using split_list_first [OF assms] by blast
  then show ?thesis
    by (cases cm) (auto simp: pending_def send_one_def remove1_append)
qed

lemma cast_logged_in: "cast_step b b' \<Longrightarrow> ca_logged_in b' = ca_logged_in b"
  by (induction rule: cast_step.induct) (simp_all add: spawn_sends_def send_one_def)

lemma cast_accounted:
  "cast_step b b' \<Longrightarrow> distinct (ca_logged_in b) \<Longrightarrow> c \<in> set (ca_logged_in b) \<Longrightarrow>
   mset (ca_got b' c) + mset (pending c b') = mset (ca_got b c) + mset (pending c b)"
proof (induction rule: cast_step.induct)
  case (cast_next i b m ms)
  have "ca_got (spawn_sends m (b\<lparr>ca_queued := (ca_queued b)[i := ms]\<rparr>)) c = ca_got b c"
    by (simp add: spawn_sends_def)
  moreover have "mset (pending c b) = add_mset m (mset (pending c (b\<lparr>ca_queued := (ca_queued b)[i := ms]\<rparr>)))"
    using mset_concat_update [OF cast_next(1,2)] by (simp add: pending_def)
  ultimately show ?case
    using pending_spawn [of "b\<lparr>ca_queued := (ca_queued b)[i := ms]\<rparr>" c m] cast_next(3,4) by simp
qed (rule pending_send)

lemma all_in_order:
  assumes "mset got + mset rest = mset new"
    and "rest = []" and "new = got @ later"
  shows "got = new"
proof -
  have "size (mset got) = size (mset new)" using assms(1,2) by simp
  with assms(3) show ?thesis by simp
qed

section \<open>Sections and broadcasts together\<close>

text \<open>
  The runs of a component: its locked sections (\<open>step\<close>, with \<open>log\<close> the messages in the order of
  the sections) interleave with the broadcasts of their messages and the tasks these start. The
  clients \<open>cs\<close> are logged in from the state \<open>s0\<close> on, in which no section has messages left to
  broadcast, and their connections stay up (a send that fails closes its connection).
\<close>

inductive spread ::
  "('s \<Rightarrow> 's \<Rightarrow> bool) \<Rightarrow> ('s \<Rightarrow> 'm list) \<Rightarrow> client_id list \<Rightarrow> 's \<Rightarrow> 's \<Rightarrow> 'm casts \<Rightarrow> bool"
  for step log cs s0 where
  spread_start: "spread step log cs s0 s0 (quiet_casts cs)"
| spread_section: "spread step log cs s0 s b \<Longrightarrow> step s t
    \<Longrightarrow> spread step log cs s0 t (hand_over (drop (length (log s)) (log t)) b)"
| spread_cast: "spread step log cs s0 s b \<Longrightarrow> cast_step b b' \<Longrightarrow> spread step log cs s0 s b'"

text \<open>
  The contract of a component whose messages follow its state: a client that shows a state
  (\<open>fits\<close>) and applies the messages of a section shows the state after the section.
\<close>

locale followed =
  fixes step :: "'s \<Rightarrow> 's \<Rightarrow> bool" and log :: "'s \<Rightarrow> 'm list"
    and app :: "'m \<Rightarrow> 'v \<Rightarrow> 'v" and fits :: "'v \<Rightarrow> 's \<Rightarrow> bool"
  assumes follows: "fits v s \<Longrightarrow> step s t \<Longrightarrow> \<exists>ms. log t = log s @ ms \<and> fits (fold app ms v) t"
begin

lemma spread_followed:
  assumes "spread step log cs s0 s b" and "fits v s0" and "distinct cs"
  shows "ca_logged_in b = cs \<and> (\<exists>new. log s = log s0 @ new \<and> fits (fold app new v) s
    \<and> (\<forall>c \<in> set cs. mset (ca_got b c) + mset (pending c b) = mset new))"
  using assms
proof (induction rule: spread.induct)
  case spread_start
  then show ?case by (simp add: quiet_casts_def pending_def)
next
  case (spread_section s b t)
  then obtain new where new: "log s = log s0 @ new" "fits (fold app new v) s"
    "\<forall>c \<in> set cs. mset (ca_got b c) + mset (pending c b) = mset new" by blast
  from follows [OF new(2) spread_section(2)] obtain ms where
    "log t = log s @ ms" "fits (fold app ms (fold app new v)) t" by blast
  with new spread_section show ?case
    by (intro conjI exI [of _ "new @ ms"]) (simp_all add: hand_over_def pending_def)
next
  case (spread_cast s b b')
  then obtain new where new: "ca_logged_in b = cs" "log s = log s0 @ new" "fits (fold app new v) s"
    "\<forall>c \<in> set cs. mset (ca_got b c) + mset (pending c b) = mset new" by blast
  with spread_cast(2,5) show ?case
    using cast_accounted [OF spread_cast(2)] cast_logged_in [OF spread_cast(2)]
    by (intro conjI exI [of _ new]) simp_all
qed

text \<open>Every order is possible: for the messages of any run of sections and any arrangement of them
  there is a run in which a client is sent them in that arrangement.\<close>

lemma sections_only:
  assumes "step\<^sup>*\<^sup>* s0 s" and "fits v s0"
  shows "\<exists>b new. log s = log s0 @ new \<and> fits (fold app new v) s \<and> spread step log cs s0 s b
    \<and> ca_logged_in b = cs \<and> ca_flying b = [] \<and> concat (ca_queued b) = new \<and> ca_got b = (\<lambda>_. [])"
  using assms(1)
proof (induction rule: rtranclp_induct)
  case base
  have "spread step log cs s0 s0 (quiet_casts cs)" by (rule spread_start)
  then show ?case using assms(2)
    by (intro exI [of _ "quiet_casts cs"] exI [of _ "[]"]) (simp add: quiet_casts_def)
next
  case (step s t)
  then obtain b new where b: "log s = log s0 @ new" "fits (fold app new v) s" "spread step log cs s0 s b"
    "ca_logged_in b = cs" "ca_flying b = []" "concat (ca_queued b) = new" "ca_got b = (\<lambda>_. [])" by blast
  from follows [OF b(2) step(2)] obtain ms where
    "log t = log s @ ms" "fits (fold app ms (fold app new v)) t" by blast
  moreover from spread_section [OF b(3) step(2)] this
  have "spread step log cs s0 t (hand_over ms b)" by simp
  ultimately show ?case using b
    by (intro exI [of _ "hand_over ms b"] exI [of _ "new @ ms"]) (simp add: hand_over_def)
qed

lemma spawn_all:
  assumes "spread step log cs s0 s b" and "ca_logged_in b = [c]"
  shows "\<exists>b'. spread step log cs s0 s b' \<and> concat (ca_queued b') = [] \<and> ca_got b' = ca_got b
    \<and> mset (ca_flying b') = mset (ca_flying b) + mset (map (Pair c) (concat (ca_queued b)))"
  using assms
proof (induction "length (concat (ca_queued b))" arbitrary: b)
  case 0
  then show ?case by (intro exI [of _ b]) simp
next
  case (Suc n)
  then obtain xs where "xs \<in> set (ca_queued b)" "xs \<noteq> []"
    by (metis concat_eq_Nil_conv length_0_conv nat.distinct(1))
  then obtain i m ms where i: "i < length (ca_queued b)" "ca_queued b ! i = m # ms"
    by (metis in_set_conv_nth neq_Nil_conv)
  let ?b = "spawn_sends m (b\<lparr>ca_queued := (ca_queued b)[i := ms]\<rparr>)"
  note q = mset_concat_update [OF i]
  have "length (concat (ca_queued b)) = Suc (length (concat ((ca_queued b)[i := ms])))"
    using arg_cong [OF q, of size] by simp
  with Suc(2) have "n = length (concat (ca_queued ?b))" by (simp add: spawn_sends_def)
  moreover have "spread step log cs s0 s ?b" by (rule spread_cast [OF Suc(3) cast_next [OF i]])
  moreover have "ca_logged_in ?b = [c]" using Suc(4) by (simp add: spawn_sends_def)
  ultimately obtain b' where b': "spread step log cs s0 s b'" "concat (ca_queued b') = []" "ca_got b' = ca_got ?b"
    "mset (ca_flying b') = mset (ca_flying ?b) + mset (map (Pair c) (concat (ca_queued ?b)))"
    using Suc(1) by blast
  moreover have "mset (map (Pair c) (concat (ca_queued b)))
      = add_mset (c, m) (mset (map (Pair c) (concat ((ca_queued b)[i := ms]))))"
    by (simp only: mset_map q image_mset_add_mset)
  ultimately show ?case using Suc(4)
    by (intro exI [of _ b']) (simp add: spawn_sends_def del: mset_map)
qed

lemma send_any:
  assumes "spread step log cs s0 s b" and "mset (ca_flying b) = mset (map (Pair c) p)"
  shows "\<exists>b'. spread step log cs s0 s b' \<and> ca_flying b' = [] \<and> ca_queued b' = ca_queued b
    \<and> ca_got b' c = ca_got b c @ p"
  using assms
proof (induction p arbitrary: b)
  case Nil
  then show ?case by (intro exI [of _ b]) simp
next
  case (Cons m p)
  have m: "(c, m) \<in> set (ca_flying b)"
    using arg_cong [OF Cons.prems(2), of set_mset] by simp
  let ?b = "send_one (c, m) b"
  have "spread step log cs s0 s ?b" by (rule spread_cast [OF Cons.prems(1) cast_send [OF m]])
  moreover have "mset (ca_flying ?b) = mset (map (Pair c) p)"
    using Cons.prems(2) by (simp add: send_one_def)
  ultimately obtain b' where "spread step log cs s0 s b'" "ca_flying b' = []" "ca_queued b' = ca_queued ?b"
    "ca_got b' c = ca_got ?b c @ p" using Cons.IH by blast
  then show ?case by (intro exI [of _ b']) (simp add: send_one_def)
qed

lemma any_order:
  assumes "step\<^sup>*\<^sup>* s0 s" and "fits v s0" and "log s = log s0 @ new" and "mset p = mset new"
  shows "\<exists>b. spread step log [c] s0 s b \<and> pending c b = [] \<and> ca_got b c = p"
proof -
  obtain b1 where b1: "spread step log [c] s0 s b1" "ca_logged_in b1 = [c]" "ca_flying b1 = []"
    "concat (ca_queued b1) = new" "ca_got b1 = (\<lambda>_. [])"
    using sections_only [OF assms(1,2), of "[c]"] assms(3) by auto
  from spawn_all [OF b1(1,2)] obtain b2 where b2: "spread step log [c] s0 s b2" "concat (ca_queued b2) = []"
    "ca_got b2 = ca_got b1" "mset (ca_flying b2) = mset (map (Pair c) new)"
    using b1(3,4) by auto
  then have "mset (ca_flying b2) = mset (map (Pair c) p)" using assms(4) by simp
  from send_any [OF b2(1) this] b1(5) b2 show ?thesis by (auto simp: pending_def)
qed

end

end
