(* ===== verification/Rust_Strings.thy ===== *)
theory Rust_Strings
  imports SA_Prelude
begin

text \<open>
  The operations of Rust's \<open>str\<close> that the program uses, on strings as lists of bytes
  (\<open>char\<close>): \<open>strip_prefix\<close>, \<open>strip_suffix\<close>, \<open>split_once\<close>, \<open>rsplit_once\<close>, \<open>split\<close> by a
  character, \<open>contains\<close>. UTF-8 is self-synchronising, so searching bytes finds exactly the
  occurrences a search by characters finds. The lemmas say what a split returns (the parts
  put together again, and that the first occurrence is the one found) and when a piece of
  text is left alone by a search.
\<close>

fun strip_prefix :: "string \<Rightarrow> string \<Rightarrow> string option" where
  "strip_prefix [] s = Some s"
| "strip_prefix (p # ps) [] = None"
| "strip_prefix (p # ps) (c # cs) = (if p = c then strip_prefix ps cs else None)"

definition strip_suffix :: "string \<Rightarrow> string \<Rightarrow> string option" where
  "strip_suffix p s = map_option rev (strip_prefix (rev p) (rev s))"

definition starts_with :: "string \<Rightarrow> string \<Rightarrow> bool" where
  "starts_with p s = (strip_prefix p s \<noteq> None)"

definition ends_with :: "string \<Rightarrow> string \<Rightarrow> bool" where
  "ends_with p s = (strip_suffix p s \<noteq> None)"

fun split_once :: "string \<Rightarrow> string \<Rightarrow> (string \<times> string) option" where
  "split_once d [] = (if d = [] then Some ([], []) else None)"
| "split_once d (c # cs) =
     (case strip_prefix d (c # cs) of
        Some r \<Rightarrow> Some ([], r)
      | None \<Rightarrow> map_option (\<lambda>(a, b). (c # a, b)) (split_once d cs))"

definition rsplit_once :: "string \<Rightarrow> string \<Rightarrow> (string \<times> string) option" where
  "rsplit_once d s = map_option (\<lambda>(a, b). (rev b, rev a)) (split_once (rev d) (rev s))"

definition contains_str :: "string \<Rightarrow> string \<Rightarrow> bool" where
  "contains_str d s = (split_once d s \<noteq> None)"

fun split_char :: "char \<Rightarrow> string \<Rightarrow> string list" where
  "split_char d [] = [[]]"
| "split_char d (c # cs) =
     (if c = d then [] # split_char d cs
      else case split_char d cs of [] \<Rightarrow> [[c]] | p # ps \<Rightarrow> (c # p) # ps)"

text \<open>The number of characters: the bytes that do not continue one.\<close>

definition char_count :: "string \<Rightarrow> nat" where
  "char_count s = length (filter (\<lambda>c. (of_char c :: nat) div 64 \<noteq> 2) s)"

section \<open>What a strip returns\<close>

lemma strip_prefix_Some_iff: "strip_prefix p s = Some r \<longleftrightarrow> s = p @ r"
  by (induction p s rule: strip_prefix.induct) auto

lemma strip_prefix_append [simp]: "strip_prefix p (p @ r) = Some r"
  by (simp add: strip_prefix_Some_iff)

lemma strip_prefix_same [simp]: "strip_prefix p p = Some []"
  by (simp add: strip_prefix_Some_iff)

lemma strip_suffix_Some_iff: "strip_suffix p s = Some r \<longleftrightarrow> s = r @ p"
proof -
  have "strip_suffix p s = Some r \<longleftrightarrow> rev s = rev p @ rev r"
    by (auto simp: strip_suffix_def strip_prefix_Some_iff rev_swap)
  also have "\<dots> \<longleftrightarrow> s = r @ p"
    by (metis rev_append rev_rev_ident)
  finally show ?thesis .
qed

section \<open>What a split returns\<close>

lemma split_once_empty_delim [simp]: "split_once [] s = Some ([], s)"
  by (cases s) simp_all

lemma split_once_Some: "split_once d s = Some (a, b) \<Longrightarrow> s = a @ d @ b"
proof (induction s arbitrary: a)
  case (Cons c cs)
  then show ?case by (auto simp: strip_prefix_Some_iff split: option.splits)
qed (simp split: if_splits)

lemma split_once_here: "split_once d (d @ b) = Some ([], b)"
proof (cases "d @ b")
  case (Cons c cs)
  have "strip_prefix d (c # cs) = Some b" using Cons by (simp add: strip_prefix_Some_iff)
  with Cons show ?thesis by simp
qed simp

text \<open>The first occurrence is found: whatever the string is, the part before the found
  delimiter is no longer than the part before any occurrence.\<close>

lemma split_once_exists: "\<exists>a' b'. split_once d (a @ d @ b) = Some (a', b') \<and> length a' \<le> length a"
proof (induction a)
  case Nil
  then show ?case by (simp add: split_once_here)
next
  case (Cons c cs)
  then show ?case by (auto split: option.splits)
qed

lemma split_once_None_iff: "split_once d s = None \<longleftrightarrow> (\<nexists>a b. s = a @ d @ b)"
proof
  show "split_once d s = None \<Longrightarrow> \<nexists>a b. s = a @ d @ b"
    using split_once_exists by (metis option.distinct(1))
  show "\<nexists>a b. s = a @ d @ b \<Longrightarrow> split_once d s = None"
    using split_once_Some by (metis option.exhaust surj_pair)
qed

lemma split_once_first:
  "split_once d s = Some (a, b) \<Longrightarrow> s = a' @ d @ b' \<Longrightarrow> length a \<le> length a'"
  using split_once_exists [of d a' b'] by auto

lemma split_once_length:
  "split_once d s = Some (a, b) \<Longrightarrow> length s = length a + length d + length b"
  using split_once_Some by fastforce

text \<open>
  \<open>clean d s\<close>: in \<open>s\<close> followed by the delimiter \<open>d\<close>, the first occurrence of \<open>d\<close> is the
  one that follows. Then it is so whatever comes after.
\<close>

definition clean :: "string \<Rightarrow> string \<Rightarrow> bool" where
  "clean d s = (split_once d (s @ d) = Some (s, []))"

lemma clean_split_once: "clean d s \<Longrightarrow> split_once d (s @ d @ r) = Some (s, r)"
proof -
  assume c: "clean d s"
  obtain a b where ab: "split_once d (s @ d @ r) = Some (a, b)" and le: "length a \<le> length s"
    using split_once_exists by blast
  have eq: "s @ d @ r = a @ d @ b" using split_once_Some [OF ab] .
  have "s @ d = a @ d @ take (length s - length a) b"
    using arg_cong [OF eq, of "take (length s + length d)"] le by simp
  then have "length s \<le> length a"
    using c split_once_first unfolding clean_def by blast
  with le eq have "a = s" by (metis append_eq_append_conv le_antisym)
  with ab eq show ?thesis by simp
qed

lemma split_char_nonempty [simp]: "split_char d s \<noteq> []"
  by (induction s) (auto split: list.splits)

text \<open>Splitting and joining: the pieces have no separator, and put together with it they are
  the string again.\<close>

fun join_char :: "char \<Rightarrow> string list \<Rightarrow> string" where
  "join_char d [] = []"
| "join_char d [p] = p"
| "join_char d (p # ps) = p @ d # join_char d ps"

lemma join_char_Cons_Cons: "ps \<noteq> [] \<Longrightarrow> join_char d ((c # p) # ps) = c # join_char d (p # ps)"
  by (cases ps) simp_all

lemma join_split_char: "join_char d (split_char d s) = s"
proof (induction s)
  case (Cons c cs)
  obtain p ps where ps: "split_char d cs = p # ps" by (cases "split_char d cs") simp_all
  with Cons show ?case by (cases ps) auto
qed simp

lemma split_char_no_sep: "p \<in> set (split_char d s) \<Longrightarrow> d \<notin> set p"
  by (induction s arbitrary: p) (auto split: if_splits list.splits)

lemma split_char_join:
  "ps \<noteq> [] \<Longrightarrow> \<forall>p \<in> set ps. d \<notin> set p \<Longrightarrow> split_char d (join_char d ps) = ps"
proof (induction d ps rule: join_char.induct)
  case (2 d p)
  then have "d \<notin> set p" by simp
  then show ?case by (induction p) auto
next
  case (3 d p q ps)
  then have ih: "split_char d (join_char d (q # ps)) = q # ps" and "d \<notin> set p" by simp_all
  then have "split_char d (p @ d # join_char d (q # ps)) = p # q # ps"
    by (induction p) auto
  then show ?case by simp
qed simp

section \<open>Printed integers\<close>

text \<open>\<open>write!\<close> of an integer.\<close>

fun show_nat :: "nat \<Rightarrow> string" where
  "show_nat n = (if n < 10 then [] else show_nat (n div 10)) @ [char_of (48 + n mod 10)]"

declare show_nat.simps [simp del]

definition show_int :: "int \<Rightarrow> string" where
  "show_int i = (if i < 0 then CHR ''-'' # show_nat (nat (- i)) else show_nat (nat i))"

text \<open>Printing is injective, and gives digits.\<close>

lemma show_nat_inject: "show_nat m = show_nat n \<Longrightarrow> m = n"
proof (induction m arbitrary: n rule: less_induct)
  case (less m)
  have digit: "a mod 10 = b mod 10" if "(char_of (48 + a mod 10) :: char) = char_of (48 + b mod 10)" for a b :: nat
  proof -
    have "48 + a mod 10 = of_char (char_of (48 + a mod 10) :: char)"
      and "48 + b mod 10 = of_char (char_of (48 + b mod 10) :: char)" by simp_all
    with that show ?thesis by (metis add_left_cancel)
  qed
  have ne: "show_nat k \<noteq> []" for k by (subst show_nat.simps) simp
  from less.prems have eq: "(if m < 10 then [] else show_nat (m div 10)) @ [char_of (48 + m mod 10) :: char]
      = (if n < 10 then [] else show_nat (n div 10)) @ [char_of (48 + n mod 10)]"
    by (simp add: show_nat.simps [of m] show_nat.simps [of n])
  then have init: "(if m < 10 then [] else show_nat (m div 10)) = (if n < 10 then [] else show_nat (n div 10))"
    and last: "m mod 10 = n mod 10" using digit by auto
  show ?case
  proof (cases "m < 10")
    case True
    then have "n < 10" using init ne [of "n div 10"] by (simp split: if_splits)
    with True last show ?thesis by simp
  next
    case False
    then have "\<not> n < 10" "show_nat (m div 10) = show_nat (n div 10)"
      using init ne by (auto split: if_splits)
    moreover have "m div 10 < m" using False by simp
    ultimately have "m div 10 = n div 10" using less.IH by blast
    with last show ?thesis by (metis mult_div_mod_eq)
  qed
qed

lemma show_nat_digits: "c \<in> set (show_nat n) \<Longrightarrow> c \<noteq> CHR ''.'' \<and> c \<noteq> CHR ''-''"
proof (induction n rule: less_induct)
  case (less n)
  have code: "of_char (char_of (48 + n mod 10) :: char) = 48 + n mod 10" by simp
  have "(char_of (48 + n mod 10) :: char) \<noteq> CHR ''.''"
  proof
    assume eq: "(char_of (48 + n mod 10) :: char) = CHR ''.''"
    from code show False unfolding eq by simp
  qed
  moreover have "(char_of (48 + n mod 10) :: char) \<noteq> CHR ''-''"
  proof
    assume eq: "(char_of (48 + n mod 10) :: char) = CHR ''-''"
    from code show False unfolding eq by simp
  qed
  ultimately have "c \<noteq> CHR ''.'' \<and> c \<noteq> CHR ''-''" if "c = char_of (48 + n mod 10)" using that by simp
  with less.prems less.IH [of "n div 10"] show ?case
    by (cases "n < 10") (auto simp: show_nat.simps [of n])
qed

end
