(* ===== verification/Json.thy ===== *)
theory Json
  imports Complex_Main Rust_Strings
begin

text \<open>
  JSON values as the program sees them (\<open>serde_json::Value\<close>). A number is represented by the
  view the program takes of it (\<open>NumEnum\<close> of \<open>ordered_json.rs\<close>): a signed 64-bit integer when
  it fits, an unsigned one when it does not, a float otherwise. An object is the list of its
  entries in insertion order, because the crate is built with \<open>preserve_order\<close>: iteration is
  in that order, \<open>insert\<close> overwrites in place or appends, \<open>remove\<close> moves the last entry into
  the gap, and equality ignores the order. Floats are rationals extended by the infinities and
  NaN (the two zeros, which Rust's \<open>==\<close> and \<open>partial_cmp\<close> do not tell apart, are one value).
\<close>

section \<open>Floats\<close>

datatype f64 = F64_NegInf | F64_Fin rat | F64_PosInf | F64_NaN

fun f64_is_nan :: "f64 \<Rightarrow> bool" where
  "f64_is_nan F64_NaN = True"
| "f64_is_nan _ = False"

fun f64_is_finite :: "f64 \<Rightarrow> bool" where
  "f64_is_finite (F64_Fin _) = True"
| "f64_is_finite _ = False"

fun f64_rank :: "f64 \<Rightarrow> nat \<times> rat" where
  "f64_rank F64_NegInf = (0, 0)"
| "f64_rank (F64_Fin q) = (1, q)"
| "f64_rank F64_PosInf = (2, 0)"
| "f64_rank F64_NaN = (3, 0)"

text \<open>\<open>f64::partial_cmp\<close>: numbers and infinities in their order, nothing for NaN.\<close>

definition f64_partial_cmp :: "f64 \<Rightarrow> f64 \<Rightarrow> ordering option" where
  "f64_partial_cmp a b =
     (if f64_is_nan a \<or> f64_is_nan b then None
      else Some (then_with (cmp_lin (fst (f64_rank a)) (fst (f64_rank b)))
                           (cmp_lin (snd (f64_rank a)) (snd (f64_rank b)))))"

section \<open>Values\<close>

datatype num_enum = F64 f64 | U64 nat | I64 int

datatype json =
    JNull
  | JBool bool
  | JNumber num_enum
  | JString string
  | JArray "json list"
  | JObject "(string \<times> json) list"

type_synonym value_map = "(string \<times> json) list"

definition i64_max :: int where "i64_max = 2 ^ 63 - 1"

definition i64_min :: int where "i64_min = - (2 ^ 63)"

definition num_of_u64 :: "nat \<Rightarrow> num_enum" where
  "num_of_u64 n = (if int n \<le> i64_max then I64 (int n) else U64 n)"

fun num_as_i64 :: "num_enum \<Rightarrow> int option" where
  "num_as_i64 (I64 i) = Some i"
| "num_as_i64 (U64 n) = (if int n \<le> i64_max then Some (int n) else None)"
| "num_as_i64 (F64 _) = None"

fun num_as_u64 :: "num_enum \<Rightarrow> nat option" where
  "num_as_u64 (I64 i) = (if 0 \<le> i then Some (nat i) else None)"
| "num_as_u64 (U64 n) = Some n"
| "num_as_u64 (F64 _) = None"

lemma num_as_u64_of_u64 [simp]: "num_as_u64 (num_of_u64 n) = Some n"
  by (simp add: num_of_u64_def)

fun as_i64 :: "json \<Rightarrow> int option" where
  "as_i64 (JNumber n) = num_as_i64 n"
| "as_i64 _ = None"

fun as_u64 :: "json \<Rightarrow> nat option" where
  "as_u64 (JNumber n) = num_as_u64 n"
| "as_u64 _ = None"

fun as_str :: "json \<Rightarrow> string option" where
  "as_str (JString s) = Some s"
| "as_str _ = None"

fun as_bool :: "json \<Rightarrow> bool option" where
  "as_bool (JBool b) = Some b"
| "as_bool _ = None"

fun as_number :: "json \<Rightarrow> num_enum option" where
  "as_number (JNumber n) = Some n"
| "as_number _ = None"

fun as_object :: "json \<Rightarrow> value_map option" where
  "as_object (JObject m) = Some m"
| "as_object _ = None"

section \<open>Objects as insertion-ordered maps\<close>

definition obj_get :: "string \<Rightarrow> value_map \<Rightarrow> json option" where
  "obj_get k m = map_of m k"

fun obj_insert :: "string \<Rightarrow> json \<Rightarrow> value_map \<Rightarrow> value_map" where
  "obj_insert k v [] = [(k, v)]"
| "obj_insert k v ((k', v') # m) = (if k = k' then (k, v) # m else (k', v') # obj_insert k v m)"

fun obj_remove :: "string \<Rightarrow> value_map \<Rightarrow> value_map" where
  "obj_remove k [] = []"
| "obj_remove k ((k', v') # m) =
     (if k = k' then (if m = [] then [] else last m # butlast m) else (k', v') # obj_remove k m)"

definition obj_wf :: "value_map \<Rightarrow> bool" where
  "obj_wf m = distinct (map fst m)"

text \<open>The laws of a mutable map that the clients of an object rely on.\<close>

locale mutable_map =
  fixes get :: "'k \<Rightarrow> 'm \<Rightarrow> 'v option"
    and ins :: "'k \<Rightarrow> 'v \<Rightarrow> 'm \<Rightarrow> 'm"
    and del :: "'k \<Rightarrow> 'm \<Rightarrow> 'm"
    and invar :: "'m \<Rightarrow> bool"
  assumes get_ins: "get k' (ins k v m) = (if k' = k then Some v else get k' m)"
    and get_del: "invar m \<Longrightarrow> get k' (del k m) = (if k' = k then None else get k' m)"
    and invar_ins: "invar m \<Longrightarrow> invar (ins k v m)"
    and invar_del: "invar m \<Longrightarrow> invar (del k m)"
begin

lemma get_fold_ins:
  "get k (fold (\<lambda>(k, v). ins k v) kvs m)
     = (case map_of (rev kvs) k of Some v \<Rightarrow> Some v | None \<Rightarrow> get k m)"
  by (induction kvs arbitrary: m) (auto simp: get_ins map_add_def split: option.splits)

lemma invar_fold_ins: "invar m \<Longrightarrow> invar (fold (\<lambda>(k, v). ins k v) kvs m)"
  by (induction kvs arbitrary: m) (auto simp: invar_ins)

end

lemma set_last_butlast: "m \<noteq> [] \<Longrightarrow> insert (last m) (set (butlast m)) = set m"
  by (metis append_butlast_last_id list.simps(15) rotate1.simps(2) set_rotate1)

lemma obj_remove_set:
  "obj_wf m \<Longrightarrow> set (obj_remove k m) = {kv \<in> set m. fst kv \<noteq> k} \<and> obj_wf (obj_remove k m)"
proof (induction k m rule: obj_remove.induct)
  case (2 k k' v' m)
  show ?case
  proof (cases "k = k'")
    case True
    have "\<forall>kv \<in> set m. fst kv \<noteq> k" using "2.prems" True by (force simp: obj_wf_def)
    moreover have "distinct (map fst (last m # butlast m))" if "m \<noteq> []"
    proof -
      have "distinct (map fst (butlast m @ [last m]))" using "2.prems" that by (simp add: obj_wf_def)
      then show ?thesis by auto
    qed
    ultimately show ?thesis
      using True set_last_butlast [of m] "2.prems" by (auto simp: obj_wf_def)
  next
    case False
    with 2 have ih: "set (obj_remove k m) = {kv \<in> set m. fst kv \<noteq> k}" "obj_wf (obj_remove k m)"
      by (simp_all add: obj_wf_def)
    have "k' \<notin> fst ` set (obj_remove k m)" using "2.prems" ih(1) by (auto simp: obj_wf_def)
    with False ih show ?thesis by (auto simp: obj_wf_def)
  qed
qed (simp add: obj_wf_def)

lemma obj_insert_keys: "set (map fst (obj_insert k v m)) = insert k (set (map fst m))"
  by (induction k v m rule: obj_insert.induct) auto

interpretation obj: mutable_map obj_get obj_insert obj_remove obj_wf
proof
  fix k k' :: string and v :: json and m :: value_map
  show "obj_get k' (obj_insert k v m) = (if k' = k then Some v else obj_get k' m)"
    unfolding obj_get_def by (induction m) auto
  show "obj_wf m \<Longrightarrow> obj_wf (obj_insert k v m)"
    unfolding obj_wf_def
    by (induction k v m rule: obj_insert.induct) (auto simp: obj_insert_keys simp del: set_map)
  assume wf: "obj_wf m"
  then show "obj_wf (obj_remove k m)" using obj_remove_set by blast
  then have d: "distinct (map fst (obj_remove k m))" "distinct (map fst m)"
    using wf by (simp_all add: obj_wf_def)
  have "obj_get k' (obj_remove k m) = Some x \<longleftrightarrow> k' \<noteq> k \<and> obj_get k' m = Some x" for x
    using obj_remove_set [OF wf, of k] d by (auto simp: obj_get_def map_of_eq_Some_iff)
  then show "obj_get k' (obj_remove k m) = (if k' = k then None else obj_get k' m)"
    by (metis not_Some_eq)
qed

section \<open>Equality\<close>

text \<open>\<open>Value::eq\<close>: like structural equality, but objects are compared as maps.\<close>

fun json_eq :: "json \<Rightarrow> json \<Rightarrow> bool"
  and json_eq_list :: "json list \<Rightarrow> json list \<Rightarrow> bool"
  and json_eq_entries :: "(string \<times> json) list \<Rightarrow> value_map \<Rightarrow> bool"
where
  "json_eq JNull JNull = True"
| "json_eq (JBool a) (JBool b) = (a = b)"
| "json_eq (JNumber a) (JNumber b) = (a = b)"
| "json_eq (JString a) (JString b) = (a = b)"
| "json_eq (JArray a) (JArray b) = json_eq_list a b"
| "json_eq (JObject a) (JObject b) = (length a = length b \<and> json_eq_entries a b)"
| "json_eq _ _ = False"
| "json_eq_list [] [] = True"
| "json_eq_list (a # as) (b # bs) = (json_eq a b \<and> json_eq_list as bs)"
| "json_eq_list _ _ = False"
| "json_eq_entries [] m = True"
| "json_eq_entries ((k, v) # kvs) m =
     ((case map_of m k of Some v' \<Rightarrow> json_eq v v' | None \<Rightarrow> False) \<and> json_eq_entries kvs m)"

definition value_map_eq :: "value_map \<Rightarrow> value_map \<Rightarrow> bool" where
  "value_map_eq a b = json_eq (JObject a) (JObject b)"

text \<open>Values whose objects have distinct keys at every level: what a parsed or constructed
  value satisfies.\<close>

fun json_wf :: "json \<Rightarrow> bool"
  and json_wf_list :: "json list \<Rightarrow> bool"
  and json_wf_entries :: "(string \<times> json) list \<Rightarrow> bool"
where
  "json_wf (JArray a) = json_wf_list a"
| "json_wf (JObject a) = (distinct (map fst a) \<and> json_wf_entries a)"
| "json_wf _ = True"
| "json_wf_list [] = True"
| "json_wf_list (a # as) = (json_wf a \<and> json_wf_list as)"
| "json_wf_entries [] = True"
| "json_wf_entries ((k, v) # kvs) = (json_wf v \<and> json_wf_entries kvs)"

lemma json_eq_refl_aux:
  "json_wf v \<Longrightarrow> json_eq v v"
  "json_wf_list vs \<Longrightarrow> json_eq_list vs vs"
  "json_wf_entries kvs \<Longrightarrow> distinct (map fst m) \<Longrightarrow> set kvs \<subseteq> set m \<Longrightarrow> json_eq_entries kvs m"
proof (induction v and vs and kvs arbitrary: and and m
    rule: json_wf_json_wf_list_json_wf_entries.induct)
  case (7 k v kvs)
  then have kv: "map_of m k = Some v" by (intro map_of_is_SomeI) simp_all
  from 7 show ?case by (simp add: kv del: map_of_eq_Some_iff)
qed auto

lemmas json_eq_refl = json_eq_refl_aux(1)

end
