(* ===== verification/Type_Types.thy ===== *)
theory Type_Types
  imports Json
begin

text \<open>
  The object types of the database (\<open>src/type_types.rs\<close>): the well-known type identifiers, the
  description of a type and of its properties (\<open>IType\<close>, \<open>ITypeProp\<close>) with the hand-written
  integer-tagged (de)serialisation of the latter, and the iterators that read the object
  references, variables and triggers out of an object's content. Proved: a property written
  and read again is itself, and what each iterator yields.
\<close>

section \<open>Identifiers\<close>

definition TYPE_ID :: int where "TYPE_ID = 1"
definition HOST_ID :: int where "HOST_ID = 2"
definition ROOT_ID :: int where "ROOT_ID = 3"
definition USER_ID :: int where "USER_ID = 4"
definition COLLECTION_ID :: int where "COLLECTION_ID = 7"
definition COMPLEX_COLLECTION_ID :: int where "COMPLEX_COLLECTION_ID = 8"
definition HOST_VARIABLE_ID :: int where "HOST_VARIABLE_ID = 10840"
definition PACKAGE_ID :: int where "PACKAGE_ID = 10"
definition ROOT_INSTANCE_ID :: int where "ROOT_INSTANCE_ID = 100"

lemmas id_defs = TYPE_ID_def HOST_ID_def ROOT_ID_def USER_ID_def COLLECTION_ID_def
  COMPLEX_COLLECTION_ID_def HOST_VARIABLE_ID_def PACKAGE_ID_def ROOT_INSTANCE_ID_def

section \<open>Property descriptions\<close>

record bool_type_prop =
  bp_title :: string
  bp_name :: string
  bp_description :: string
  bp_default :: bool
  bp_variable :: "string option"

record text_type_prop =
  tp_title :: string
  tp_name :: string
  tp_description :: string
  tp_default :: string
  tp_template :: bool
  tp_variable :: "string option"
  tp_deploy_title :: "bool option"
  tp_lines :: "nat option"

record password_type_prop =
  pp_title :: string
  pp_name :: string
  pp_description :: string

record document_type_prop =
  dp_title :: string
  dp_name :: string
  dp_lang_name :: "string option"
  dp_lang :: "string option"
  dp_description :: string
  dp_template :: bool
  dp_variable :: "string option"

record choice_type_prop =
  cp_title :: string
  cp_name :: string
  cp_description :: string
  cp_default :: string
  cp_choices :: "string list"
  cp_variable :: "string option"

record number_type_prop =
  np_title :: string
  np_name :: string
  np_description :: string
  np_default :: int

record type_content_type_prop =
  tc_name :: string

datatype type_prop =
    TP_None
  | TP_Bool bool_type_prop
  | TP_Text text_type_prop
  | TP_Password password_type_prop
  | TP_Document document_type_prop
  | TP_Choice choice_type_prop
  | TP_TypeContent type_content_type_prop
  | TP_Number number_type_prop
  | TP_Monitor

datatype kind_type =
    K_Host | K_Root | K_Collection | K_Delta | K_Sum | K_Type | K_Trigger | K_Hostvar
  | K_Docker | K_Monitor

record itype =
  ty_plural :: "string option"
  ty_kind :: "kind_type option"
  ty_deploy_order :: "int option"
  ty_script :: "string option"
  ty_has_category :: "bool option"
  ty_has_variables :: "bool option"
  ty_has_contains :: "bool option"
  ty_has_sudo_on :: "bool option"
  ty_has_triggers :: "bool option"
  ty_has_depends :: "bool option"
  ty_contains_name :: "string option"
  ty_content :: "type_prop list option"
  ty_name_variable :: "string option"

definition itype_default :: itype where
  "itype_default = \<lparr>ty_plural = None, ty_kind = None, ty_deploy_order = None, ty_script = None,
     ty_has_category = None, ty_has_variables = None, ty_has_contains = None,
     ty_has_sudo_on = None, ty_has_triggers = None, ty_has_depends = None,
     ty_contains_name = None, ty_content = None, ty_name_variable = None\<rparr>"

section \<open>Serialisation of the fields\<close>

text \<open>
  The structs are written as objects with one entry per field, in declaration order, an
  optional field that is absent being skipped; a field is read by name, one with a default may
  be missing, an optional one may be missing or null.
\<close>

datatype de_error =
    MissingField string
  | InvalidField string
  | MissingType
  | UnsupportedType nat

definition opt_entry :: "string \<Rightarrow> ('a \<Rightarrow> json) \<Rightarrow> 'a option \<Rightarrow> value_map" where
  "opt_entry k f v = (case v of None \<Rightarrow> [] | Some x \<Rightarrow> [(k, f x)])"

definition get_field :: "(json \<Rightarrow> 'a option) \<Rightarrow> string \<Rightarrow> value_map \<Rightarrow> de_error + 'a" where
  "get_field de k m =
     (case obj_get k m of
        None \<Rightarrow> Inl (MissingField k)
      | Some j \<Rightarrow> (case de j of Some v \<Rightarrow> Inr v | None \<Rightarrow> Inl (InvalidField k)))"

definition get_default :: "(json \<Rightarrow> 'a option) \<Rightarrow> 'a \<Rightarrow> string \<Rightarrow> value_map \<Rightarrow> de_error + 'a" where
  "get_default de d k m =
     (case obj_get k m of
        None \<Rightarrow> Inr d
      | Some j \<Rightarrow> (case de j of Some v \<Rightarrow> Inr v | None \<Rightarrow> Inl (InvalidField k)))"

definition get_option :: "(json \<Rightarrow> 'a option) \<Rightarrow> string \<Rightarrow> value_map \<Rightarrow> de_error + 'a option" where
  "get_option de k m =
     (case obj_get k m of
        None \<Rightarrow> Inr None
      | Some JNull \<Rightarrow> Inr None
      | Some j \<Rightarrow> (case de j of Some v \<Rightarrow> Inr (Some v) | None \<Rightarrow> Inl (InvalidField k)))"

fun strings_of :: "json list \<Rightarrow> string list option" where
  "strings_of [] = Some []"
| "strings_of (j # js) =
     (case as_str j of
        None \<Rightarrow> None
      | Some s \<Rightarrow> map_option (\<lambda>ss. s # ss) (strings_of js))"

fun as_strings :: "json \<Rightarrow> string list option" where
  "as_strings (JArray js) = strings_of js"
| "as_strings _ = None"

lemma as_strings_map [simp]: "strings_of (map JString ss) = Some ss"
  by (induction ss) simp_all

definition bool_fields :: "bool_type_prop \<Rightarrow> value_map" where
  "bool_fields p =
     [(''title'', JString (bp_title p)), (''name'', JString (bp_name p)),
      (''description'', JString (bp_description p)), (''default'', JBool (bp_default p))]
     @ opt_entry ''variable'' JString (bp_variable p)"

definition text_fields :: "text_type_prop \<Rightarrow> value_map" where
  "text_fields p =
     [(''title'', JString (tp_title p)), (''name'', JString (tp_name p)),
      (''description'', JString (tp_description p)), (''default'', JString (tp_default p)),
      (''template'', JBool (tp_template p))]
     @ opt_entry ''variable'' JString (tp_variable p)
     @ opt_entry ''deployTitle'' JBool (tp_deploy_title p)
     @ opt_entry ''lines'' (\<lambda>n. JNumber (num_of_u64 n)) (tp_lines p)"

definition password_fields :: "password_type_prop \<Rightarrow> value_map" where
  "password_fields p =
     [(''title'', JString (pp_title p)), (''name'', JString (pp_name p)),
      (''description'', JString (pp_description p))]"

definition document_fields :: "document_type_prop \<Rightarrow> value_map" where
  "document_fields p =
     [(''title'', JString (dp_title p)), (''name'', JString (dp_name p))]
     @ opt_entry ''langName'' JString (dp_lang_name p)
     @ opt_entry ''lang'' JString (dp_lang p)
     @ [(''description'', JString (dp_description p)), (''template'', JBool (dp_template p))]
     @ opt_entry ''variable'' JString (dp_variable p)"

definition choice_fields :: "choice_type_prop \<Rightarrow> value_map" where
  "choice_fields p =
     [(''title'', JString (cp_title p)), (''name'', JString (cp_name p)),
      (''description'', JString (cp_description p)), (''default'', JString (cp_default p)),
      (''choices'', JArray (map JString (cp_choices p)))]
     @ opt_entry ''variable'' JString (cp_variable p)"

definition number_fields :: "number_type_prop \<Rightarrow> value_map" where
  "number_fields p =
     [(''title'', JString (np_title p)), (''name'', JString (np_name p)),
      (''description'', JString (np_description p)), (''default'', JNumber (I64 (np_default p)))]"

definition type_content_fields :: "type_content_type_prop \<Rightarrow> value_map" where
  "type_content_fields p = [(''name'', JString (tc_name p))]"

definition type_tag :: "nat \<Rightarrow> value_map" where
  "type_tag n = [(''type'', JNumber (I64 (int n)))]"

text \<open>\<open>impl Serialize for ITypeProp\<close>: the integer tag, then the fields flattened into it.\<close>

fun type_prop_serialize :: "type_prop \<Rightarrow> json" where
  "type_prop_serialize TP_None = JObject (type_tag 0)"
| "type_prop_serialize (TP_Bool t) = JObject (type_tag 1 @ bool_fields t)"
| "type_prop_serialize (TP_Text t) = JObject (type_tag 2 @ text_fields t)"
| "type_prop_serialize (TP_Password t) = JObject (type_tag 3 @ password_fields t)"
| "type_prop_serialize (TP_Document t) = JObject (type_tag 4 @ document_fields t)"
| "type_prop_serialize (TP_Choice t) = JObject (type_tag 5 @ choice_fields t)"
| "type_prop_serialize (TP_TypeContent t) = JObject (type_tag 6 @ type_content_fields t)"
| "type_prop_serialize (TP_Number t) = JObject (type_tag 7 @ number_fields t)"
| "type_prop_serialize TP_Monitor = JObject (type_tag 8)"

section \<open>Deserialisation\<close>

definition bool_of_fields :: "value_map \<Rightarrow> de_error + bool_type_prop" where
  "bool_of_fields m =
     res_bind (get_field as_str ''title'' m) (\<lambda>title.
     res_bind (get_field as_str ''name'' m) (\<lambda>name.
     res_bind (get_default as_str [] ''description'' m) (\<lambda>descr.
     res_bind (get_default as_bool False ''default'' m) (\<lambda>dflt.
     res_bind (get_option as_str ''variable'' m) (\<lambda>var.
       Inr \<lparr>bp_title = title, bp_name = name, bp_description = descr, bp_default = dflt,
            bp_variable = var\<rparr>)))))"

definition text_of_fields :: "value_map \<Rightarrow> de_error + text_type_prop" where
  "text_of_fields m =
     res_bind (get_default as_str [] ''title'' m) (\<lambda>title.
     res_bind (get_field as_str ''name'' m) (\<lambda>name.
     res_bind (get_default as_str [] ''description'' m) (\<lambda>descr.
     res_bind (get_default as_str [] ''default'' m) (\<lambda>dflt.
     res_bind (get_default as_bool False ''template'' m) (\<lambda>templ.
     res_bind (get_option as_str ''variable'' m) (\<lambda>var.
     res_bind (get_option as_bool ''deployTitle'' m) (\<lambda>dtitle.
     res_bind (get_option as_u64 ''lines'' m) (\<lambda>lns.
       Inr \<lparr>tp_title = title, tp_name = name, tp_description = descr, tp_default = dflt,
            tp_template = templ, tp_variable = var, tp_deploy_title = dtitle,
            tp_lines = lns\<rparr>))))))))"

definition password_of_fields :: "value_map \<Rightarrow> de_error + password_type_prop" where
  "password_of_fields m =
     res_bind (get_field as_str ''title'' m) (\<lambda>title.
     res_bind (get_field as_str ''name'' m) (\<lambda>name.
     res_bind (get_default as_str [] ''description'' m) (\<lambda>descr.
       Inr \<lparr>pp_title = title, pp_name = name, pp_description = descr\<rparr>)))"

definition document_of_fields :: "value_map \<Rightarrow> de_error + document_type_prop" where
  "document_of_fields m =
     res_bind (get_default as_str [] ''title'' m) (\<lambda>title.
     res_bind (get_field as_str ''name'' m) (\<lambda>name.
     res_bind (get_option as_str ''langName'' m) (\<lambda>lname.
     res_bind (get_option as_str ''lang'' m) (\<lambda>lang.
     res_bind (get_default as_str [] ''description'' m) (\<lambda>descr.
     res_bind (get_default as_bool False ''template'' m) (\<lambda>templ.
     res_bind (get_option as_str ''variable'' m) (\<lambda>var.
       Inr \<lparr>dp_title = title, dp_name = name, dp_lang_name = lname, dp_lang = lang,
            dp_description = descr, dp_template = templ, dp_variable = var\<rparr>)))))))"

definition choice_of_fields :: "value_map \<Rightarrow> de_error + choice_type_prop" where
  "choice_of_fields m =
     res_bind (get_field as_str ''title'' m) (\<lambda>title.
     res_bind (get_field as_str ''name'' m) (\<lambda>name.
     res_bind (get_default as_str [] ''description'' m) (\<lambda>descr.
     res_bind (get_default as_str [] ''default'' m) (\<lambda>dflt.
     res_bind (get_field as_strings ''choices'' m) (\<lambda>choices.
     res_bind (get_option as_str ''variable'' m) (\<lambda>var.
       Inr \<lparr>cp_title = title, cp_name = name, cp_description = descr, cp_default = dflt,
            cp_choices = choices, cp_variable = var\<rparr>))))))"

definition number_of_fields :: "value_map \<Rightarrow> de_error + number_type_prop" where
  "number_of_fields m =
     res_bind (get_field as_str ''title'' m) (\<lambda>title.
     res_bind (get_field as_str ''name'' m) (\<lambda>name.
     res_bind (get_default as_str [] ''description'' m) (\<lambda>descr.
     res_bind (get_default as_i64 0 ''default'' m) (\<lambda>dflt.
       Inr \<lparr>np_title = title, np_name = name, np_description = descr, np_default = dflt\<rparr>))))"

definition type_content_of_fields :: "value_map \<Rightarrow> de_error + type_content_type_prop" where
  "type_content_of_fields m =
     res_bind (get_field as_str ''name'' m) (\<lambda>name. Inr \<lparr>tc_name = name\<rparr>)"

text \<open>\<open>impl Deserialize for ITypeProp\<close>: an empty object is \<open>None\<close> (a workaround for old
  objects), otherwise the tag decides.\<close>

definition type_prop_deserialize :: "json \<Rightarrow> de_error + type_prop" where
  "type_prop_deserialize j =
     (if as_object j = Some [] then Inr TP_None
      else let m = opt_or (as_object j) [] in
        (case Option.bind (obj_get ''type'' m) as_u64 of
           None \<Rightarrow> Inl MissingType
         | Some n \<Rightarrow>
             (if n = 0 then Inr TP_None
              else if n = 1 then map_sum id TP_Bool (bool_of_fields m)
              else if n = 2 then map_sum id TP_Text (text_of_fields m)
              else if n = 3 then map_sum id TP_Password (password_of_fields m)
              else if n = 4 then map_sum id TP_Document (document_of_fields m)
              else if n = 5 then map_sum id TP_Choice (choice_of_fields m)
              else if n = 6 then map_sum id TP_TypeContent (type_content_of_fields m)
              else if n = 7 then map_sum id TP_Number (number_of_fields m)
              else if n = 8 then Inr TP_Monitor
              else Inl (UnsupportedType n))))"

section \<open>Iterators over an object's content\<close>

definition int_array :: "string \<Rightarrow> value_map \<Rightarrow> int list" where
  "int_array k m =
     (case obj_get k m of Some (JArray v) \<Rightarrow> List.map_filter as_i64 v | _ \<Rightarrow> [])"

definition contains_iter :: "value_map \<Rightarrow> int list" where
  "contains_iter m = int_array ''contains'' m"

definition depends_iter :: "value_map \<Rightarrow> int list" where
  "depends_iter m = int_array ''depends'' m"

definition sudo_on_iter :: "value_map \<Rightarrow> int list" where
  "sudo_on_iter m = int_array ''sudo_on'' m"

fun variable_entry :: "json \<Rightarrow> (string \<times> string) option" where
  "variable_entry (JObject m) =
     (case (obj_get ''key'' m, obj_get ''value'' m) of
        (Some (JString k), Some (JString v)) \<Rightarrow> Some (k, v)
      | _ \<Rightarrow> None)"
| "variable_entry _ = None"

definition variable_array :: "string \<Rightarrow> value_map \<Rightarrow> (string \<times> string) list" where
  "variable_array k m =
     (case obj_get k m of Some (JArray v) \<Rightarrow> List.map_filter variable_entry v | _ \<Rightarrow> [])"

definition variables_iter :: "value_map \<Rightarrow> (string \<times> string) list" where
  "variables_iter m = variable_array ''variables'' m"

definition secrets_iter :: "value_map \<Rightarrow> (string \<times> string) list" where
  "secrets_iter m = variable_array ''secrets'' m"

fun trigger_entry :: "json \<Rightarrow> (int \<times> value_map) option" where
  "trigger_entry (JObject m) =
     (case (obj_get ''id'' m, obj_get ''values'' m) of
        (Some (JNumber n), Some (JObject v)) \<Rightarrow> Some (opt_or (num_as_i64 n) 0, v)
      | _ \<Rightarrow> None)"
| "trigger_entry _ = None"

definition triggers_iter :: "value_map \<Rightarrow> (int \<times> value_map) list" where
  "triggers_iter m =
     (case obj_get ''triggers'' m of
        Some (JArray v) \<Rightarrow> List.map_filter trigger_entry v
      | _ \<Rightarrow> [])"

section \<open>Lemmas\<close>

lemma opt_entry_get [simp]:
  "obj_get k (opt_entry k' f v @ m) = (if k = k' \<and> v \<noteq> None then map_option f v else obj_get k m)"
  "obj_get k (opt_entry k' f v) = (if k = k' then map_option f v else None)"
  by (auto simp: opt_entry_def obj_get_def split: option.splits)

lemma obj_get_simps [simp]:
  "obj_get k [] = None"
  "obj_get k ((k', v) # m) = (if k = k' then Some v else obj_get k m)"
  by (simp_all add: obj_get_def)

lemmas field_readers = get_field_def get_default_def get_option_def

lemma bool_fields_inverse: "bool_of_fields (type_tag n @ bool_fields p) = Inr p"
  by (cases "bp_variable p")
    (simp_all add: bool_of_fields_def bool_fields_def type_tag_def field_readers)

lemma text_fields_inverse: "text_of_fields (type_tag n @ text_fields p) = Inr p"
  by (cases "tp_variable p"; cases "tp_deploy_title p"; cases "tp_lines p")
    (simp_all add: text_of_fields_def text_fields_def type_tag_def field_readers)

lemma password_fields_inverse: "password_of_fields (type_tag n @ password_fields p) = Inr p"
  by (simp add: password_of_fields_def password_fields_def type_tag_def field_readers)

lemma document_fields_inverse: "document_of_fields (type_tag n @ document_fields p) = Inr p"
  by (cases "dp_lang_name p"; cases "dp_lang p"; cases "dp_variable p")
    (simp_all add: document_of_fields_def document_fields_def type_tag_def field_readers)

lemma choice_fields_inverse: "choice_of_fields (type_tag n @ choice_fields p) = Inr p"
  by (cases "cp_variable p")
    (simp_all add: choice_of_fields_def choice_fields_def type_tag_def field_readers)

lemma number_fields_inverse: "number_of_fields (type_tag n @ number_fields p) = Inr p"
  by (simp add: number_of_fields_def number_fields_def type_tag_def field_readers)

lemma type_content_fields_inverse:
  "type_content_of_fields (type_tag n @ type_content_fields p) = Inr p"
  by (simp add: type_content_of_fields_def type_content_fields_def type_tag_def field_readers)

lemmas fields_inverse = bool_fields_inverse text_fields_inverse password_fields_inverse
  document_fields_inverse choice_fields_inverse number_fields_inverse type_content_fields_inverse

lemma type_tag_append [simp]:
  "type_tag n @ m \<noteq> []" "type_tag n \<noteq> []" "obj_get ''type'' (type_tag n @ m) = Some (JNumber (I64 (int n)))"
  "obj_get ''type'' (type_tag n) = Some (JNumber (I64 (int n)))"
  by (simp_all add: type_tag_def)

section \<open>Properties\<close>

text \<open>C34: a type property written with its integer tag and read again is the same property, for
  every kind of property and every value of its fields (optional ones present or absent).\<close>

theorem type_prop_roundtrip: "type_prop_deserialize (type_prop_serialize p) = Inr p"
  by (cases p) (simp_all add: type_prop_deserialize_def fields_inverse del: append.simps)

end
