(* ===== verification/Deploy_Types.thy ===== *)
theory Deploy_Types
  imports Type_Types
begin

text \<open>
  The data of a deployment: the states and objects sent to the browser
  (\<open>src/action_types.rs\<close>), the object as the deployment reads it from the database, and the
  node of the dependency graph (\<open>src/bin/server/deployment.rs\<close>). A node reference is its index
  in the arena, which is what the address comparison of \<open>CmpRef\<close> tells apart. The fields
  \<open>in_count\<close> and \<open>type_order\<close> of a node are 0 until the host is sorted; they are kept as
  columns of the sort's state (theory \<open>Topsort\<close>).
\<close>

datatype deployment_status =
    Done | BuildingTree | InvilidTree | ComputingChanges | ReviewChanges | Deploying | Stopping

datatype object_status = OS_Normal | OS_Deplying | OS_Success | OS_Failure

datatype object_action = OA_Add | OA_Modify | OA_Remove | OA_Trigger

record deployment_trigger =
  tr_type_id :: int
  tr_script :: string
  tr_content :: value_map
  tr_title :: string

record deployment_object =
  do_index :: nat
  do_host :: int
  do_host_name :: string
  do_title :: string
  do_name :: string
  do_enabled :: bool
  do_status :: object_status
  do_action :: object_action
  do_script :: string
  do_prev_script :: "string option"
  do_next_content :: "value_map option"
  do_prev_content :: "value_map option"
  do_id :: "int option"
  do_type_id :: int
  do_type_name :: string
  do_triggers :: "deployment_trigger list"
  do_deployment_order :: int

text \<open>What is stored for a deployed object (\<open>IDeployContent\<close>).\<close>

record deploy_content =
  dc_script :: "string option"
  dc_content :: "value_map option"
  dc_triggers :: "deployment_trigger list"
  dc_deployment_order :: int
  dc_type_name :: string
  dc_object :: int

record object =
  o_type :: int
  o_content :: value_map
  o_name :: string

type_synonym node_ref = nat

record dag_base =
  b_prev :: "node_ref list"
  b_next :: "node_ref list"
  b_id :: int

datatype dag_node =
    Sentinal (node_base: dag_base) (sent_name: string)
  | Normal (node_base: dag_base) (n_name: string) (n_triggers: "deployment_trigger list")
      (n_title: string) (n_script: "string option") (n_content: value_map) (n_type_id: int)

type_synonym arena = "dag_node list"

type_synonym node_pair = "node_ref \<times> node_ref"

fun base_mut :: "(dag_base \<Rightarrow> dag_base) \<Rightarrow> dag_node \<Rightarrow> dag_node" where
  "base_mut f (Sentinal b n) = Sentinal (f b) n"
| "base_mut f (Normal b n tr ti sc co ty) = Normal (f b) n tr ti sc co ty"

definition nprev :: "arena \<Rightarrow> node_ref \<Rightarrow> node_ref list" where
  "nprev g n = (if n < length g then b_prev (node_base (g ! n)) else [])"

definition nnext :: "arena \<Rightarrow> node_ref \<Rightarrow> node_ref list" where
  "nnext g n = (if n < length g then b_next (node_base (g ! n)) else [])"

definition nid :: "arena \<Rightarrow> node_ref \<Rightarrow> int" where
  "nid g n = (if n < length g then b_id (node_base (g ! n)) else 0)"

text \<open>
  The two edge lists mirror each other: \<open>n\<close> is listed as often in \<open>prev\<close> of \<open>m\<close> as \<open>m\<close> in
  \<open>next\<close> of \<open>n\<close>, and every reference is a node of the arena.
\<close>

definition links_ok :: "arena \<Rightarrow> bool" where
  "links_ok g =
     ((\<forall>n m. count_list (nprev g m) n = count_list (nnext g n) m)
      \<and> (\<forall>n. \<forall>m \<in> set (nprev g n). m < length g))"

text \<open>Adding an edge: the four pushes of the visitor come in pairs like this one.\<close>

definition add_edge :: "node_ref \<Rightarrow> node_ref \<Rightarrow> arena \<Rightarrow> arena" where
  "add_edge a b g =
     (let g1 = g[b := base_mut (\<lambda>x. x\<lparr>b_prev := b_prev x @ [a]\<rparr>) (g ! b)]
      in g1[a := base_mut (\<lambda>x. x\<lparr>b_next := b_next x @ [b]\<rparr>) (g1 ! a)])"

lemma node_base_base_mut [simp]: "node_base (base_mut f n) = f (node_base n)"
  by (cases n) simp_all

lemma length_add_edge [simp]: "length (add_edge a b g) = length g"
  by (simp add: add_edge_def Let_def)

lemma nprev_add_edge:
  "a < length g \<Longrightarrow> b < length g \<Longrightarrow>
   nprev (add_edge a b g) n = (if n = b then nprev g n @ [a] else nprev g n)"
  by (auto simp: nprev_def add_edge_def Let_def nth_list_update)

lemma nnext_add_edge:
  "a < length g \<Longrightarrow> b < length g \<Longrightarrow>
   nnext (add_edge a b g) n = (if n = a then nnext g n @ [b] else nnext g n)"
  by (auto simp: nnext_def add_edge_def Let_def nth_list_update)

lemma links_ok_add_edge:
  "links_ok g \<Longrightarrow> a < length g \<Longrightarrow> b < length g \<Longrightarrow> links_ok (add_edge a b g)"
  by (auto simp: links_ok_def nprev_add_edge nnext_add_edge)

lemma links_ok_next_prev: "links_ok g \<Longrightarrow> m \<in> set (nnext g n) \<longleftrightarrow> n \<in> set (nprev g m)"
  unfolding links_ok_def by (metis count_list_0_iff)

lemma links_ok_prev_less: "links_ok g \<Longrightarrow> n \<in> set (nprev g m) \<Longrightarrow> n < length g"
  by (auto simp: links_ok_def)

lemma links_ok_next_less: "links_ok g \<Longrightarrow> m \<in> set (nnext g n) \<Longrightarrow> m < length g"
  using links_ok_next_prev [of g m n] by (auto simp: nprev_def split: if_splits)

lemma links_ok_count: "links_ok g \<Longrightarrow> count_list (nnext g n) m = count_list (nprev g m) n"
  by (simp add: links_ok_def)

end
