(* ===== verification/Deployment.thy ===== *)
theory Deployment
  imports Deploy_Types Rust_Strings Broadcast
begin

text \<open>
  The deployment the server keeps and its browser clients mirror
  (\<open>src/bin/server/deployment.rs\<close>): the methods of \<open>Deployment\<close>, the locked sections of the
  operations (\<open>setup_deployment\<close>, \<open>perform_deploy\<close>, \<open>stop\<close>, \<open>cancel\<close>, \<open>toggle_object\<close>) and the
  state machine they form when several clients use them at once. A locked section queues
  actions for the clients, and takes them before it releases the lock; they are broadcast after
  that (theory \<open>Broadcast\<close>), so those of several sections, and of one, may reach a client in any
  order. The world lists the actions taken, in the order of the locked sections.
\<close>

section \<open>The deployment and its methods\<close>

datatype server_action =
    AddDeploymentLog string
  | SetDeploymentStatus deployment_status
  | SetDeploymentObjectStatus nat object_status
  | SetDeploymentMessage string
  | SetDeploymentObjects "deployment_object list"
  | ClearDeploymentLog
  | ToggleDeploymentObject "nat option" bool

type_synonym run_token = nat

record deployment =
  dp_status :: deployment_status
  dp_message :: string
  dp_objects :: "deployment_object list"
  dp_log :: "string list"
  dp_actions :: "server_action list"
  dp_token :: "run_token option"

definition deployment_default :: deployment where
  "deployment_default =
     \<lparr>dp_status = Done, dp_message = '''', dp_objects = [], dp_log = [], dp_actions = [],
      dp_token = None\<rparr>"

definition queue_action :: "server_action \<Rightarrow> deployment \<Rightarrow> deployment" where
  "queue_action a d = d\<lparr>dp_actions := dp_actions d @ [a]\<rparr>"

definition add_log :: "string \<Rightarrow> deployment \<Rightarrow> deployment" where
  "add_log line d = queue_action (AddDeploymentLog line) (d\<lparr>dp_log := dp_log d @ [line]\<rparr>)"

text \<open>\<open>format!("{:=^1$}", name, 100)\<close>: centred in a field of 100 characters.\<close>

definition centre :: "char \<Rightarrow> nat \<Rightarrow> string \<Rightarrow> string" where
  "centre c width s =
     (let pad = width - char_count s; left = pad div 2
      in replicate left c @ s @ replicate (pad - left) c)"

definition crlf :: string where "crlf = [CHR 0x0D, CHR 0x0A]"

definition escape_code :: "string \<Rightarrow> string" where "escape_code s = CHR 0x1B # s"

definition add_header :: "string \<Rightarrow> bool \<Rightarrow> deployment \<Rightarrow> deployment" where
  "add_header name big d =
     add_log (crlf @ escape_code ''[91m'' @ centre (if big then CHR ''='' else CHR ''-'') 100 name
              @ escape_code ''[0m'' @ crlf) d"

definition set_status :: "deployment_status \<Rightarrow> deployment \<Rightarrow> deployment" where
  "set_status s d = queue_action (SetDeploymentStatus s) (d\<lparr>dp_status := s\<rparr>)"

definition set_object_status :: "nat \<Rightarrow> object_status \<Rightarrow> deployment \<Rightarrow> deployment" where
  "set_object_status i s d =
     queue_action (SetDeploymentObjectStatus i s)
       (if i < length (dp_objects d)
        then d\<lparr>dp_objects := (dp_objects d)[i := (dp_objects d ! i)\<lparr>do_status := s\<rparr>]\<rparr> else d)"

definition set_message :: "string \<Rightarrow> deployment \<Rightarrow> deployment" where
  "set_message m d = queue_action (SetDeploymentMessage m) (d\<lparr>dp_message := m\<rparr>)"

definition set_deploment_objects :: "deployment_object list \<Rightarrow> deployment \<Rightarrow> deployment" where
  "set_deploment_objects obs d = queue_action (SetDeploymentObjects obs) (d\<lparr>dp_objects := obs\<rparr>)"

definition clear_log :: "deployment \<Rightarrow> deployment" where
  "clear_log d = queue_action ClearDeploymentLog (d\<lparr>dp_log := []\<rparr>)"

definition take_actions :: "deployment \<Rightarrow> server_action list \<times> deployment" where
  "take_actions d = (dp_actions d, d\<lparr>dp_actions := []\<rparr>)"

section \<open>The world and the locked sections\<close>

record world =
  w_dep :: deployment
  w_sent :: "server_action list"
  w_cancelled :: "run_token set"

text \<open>
  \<open>w_sent\<close> lists the actions that were taken under the lock to be broadcast, in the order of the
  locked sections; their broadcasting and delivery are steps of their own (section "The mirror").
  \<open>mut_deployment\<close>: on an error of the closure the actions stay queued; broadcasting a value
  that serialises never fails.
\<close>

definition mut_deployment :: "(deployment \<Rightarrow> ('e + 'a) \<times> deployment) \<Rightarrow> world \<Rightarrow> ('e + 'a) \<times> world" where
  "mut_deployment f w =
     (case f (w_dep w) of
        (Inl e, d) \<Rightarrow> (Inl e, w\<lparr>w_dep := d\<rparr>)
      | (Inr v, d) \<Rightarrow>
          (case take_actions d of
             (acts, d') \<Rightarrow> (Inr v, w\<lparr>w_dep := d', w_sent := w_sent w @ acts\<rparr>)))"

definition update_deployment :: "(deployment \<Rightarrow> deployment) \<Rightarrow> world \<Rightarrow> world" where
  "update_deployment f w = snd (mut_deployment (\<lambda>d. (Inr () :: unit + unit, f d)) w)"

text \<open>The first section of \<open>setup_deployment\<close>; the value tells whether it goes on.\<close>

definition setup_begin :: "bool \<Rightarrow> deployment \<Rightarrow> bool \<times> deployment" where
  "setup_begin cancel d =
     (if dp_status d \<noteq> Done \<and> (\<not> cancel \<or> dp_status d \<noteq> ReviewChanges) then (False, d)
      else (True, clear_log (set_message '''' (set_status BuildingTree d))))"

definition setup_failed :: "string \<Rightarrow> deployment \<Rightarrow> deployment" where
  "setup_failed message d = set_message message (set_status InvilidTree d)"

definition nothing_to_deploy :: string where
  "nothing_to_deploy = ''Everything up to date, nothing to deploy!''"

definition setup_done :: "deployment_object list \<Rightarrow> deployment \<Rightarrow> deployment" where
  "setup_done obs d =
     set_deploment_objects obs
       (if obs = [] then set_message nothing_to_deploy (set_status Done d)
        else set_message '''' (set_status ReviewChanges d))"

text \<open>The first and last sections of \<open>perform_deploy\<close>.\<close>

definition deploy_begin :: "run_token \<Rightarrow> deployment \<Rightarrow> deployment_object list option \<times> deployment" where
  "deploy_begin rt d =
     (if dp_status d \<noteq> ReviewChanges then (None, d)
      else (let d1 = add_log (''Deployment started'' @ crlf) (set_status Deploying (d\<lparr>dp_token := Some rt\<rparr>))
            in (Some (dp_objects d1), d1)))"

definition deploy_end :: "deployment \<Rightarrow> deployment" where
  "deploy_end d = set_status Done (add_log ''Done'' d)"

definition stop :: "world \<Rightarrow> world" where
  "stop w =
     (let d = w_dep w;
          w1 = (case dp_token d of None \<Rightarrow> w | Some t \<Rightarrow> w\<lparr>w_cancelled := insert t (w_cancelled w)\<rparr>)
      in if dp_status d \<noteq> Deploying then w1
         else update_deployment (\<lambda>d. add_log ''Stopping (could take a bit)'' (set_status Stopping d)) w1)"

definition cancel :: "world \<Rightarrow> world" where
  "cancel w =
     (if dp_status (w_dep w) \<noteq> ReviewChanges then w
      else update_deployment (\<lambda>d. set_message '''' (set_deploment_objects [] (set_status Done d))) w)"

definition toggle_object :: "nat option \<Rightarrow> bool \<Rightarrow> world \<Rightarrow> world" where
  "toggle_object index enabled w =
     (let d = w_dep w
      in if dp_status d \<noteq> ReviewChanges then w
         else (case index of
           Some i \<Rightarrow>
             if i < length (dp_objects d)
             then w\<lparr>w_dep := d\<lparr>dp_objects := (dp_objects d)[i := (dp_objects d ! i)\<lparr>do_enabled := enabled\<rparr>]\<rparr>,
                    w_sent := w_sent w @ [ToggleDeploymentObject index enabled]\<rparr>
             else w
         | None \<Rightarrow>
             w\<lparr>w_dep := d\<lparr>dp_objects := map (\<lambda>ob. ob\<lparr>do_enabled := enabled\<rparr>) (dp_objects d)\<rparr>,
               w_sent := w_sent w @ [ToggleDeploymentObject index enabled]\<rparr>))"

section \<open>What a browser client shows\<close>

text \<open>
  A client starts from a copy of the deployment and applies the actions it is sent; this is the
  specification the actions are to implement.
\<close>

record view =
  v_status :: deployment_status
  v_message :: string
  v_objects :: "deployment_object list"
  v_log :: "string list"

definition view_of :: "deployment \<Rightarrow> view" where
  "view_of d = \<lparr>v_status = dp_status d, v_message = dp_message d, v_objects = dp_objects d,
                v_log = dp_log d\<rparr>"

fun apply_action :: "server_action \<Rightarrow> view \<Rightarrow> view" where
  "apply_action (AddDeploymentLog line) v = v\<lparr>v_log := v_log v @ [line]\<rparr>"
| "apply_action (SetDeploymentStatus s) v = v\<lparr>v_status := s\<rparr>"
| "apply_action (SetDeploymentObjectStatus i s) v =
     (if i < length (v_objects v)
      then v\<lparr>v_objects := (v_objects v)[i := (v_objects v ! i)\<lparr>do_status := s\<rparr>]\<rparr> else v)"
| "apply_action (SetDeploymentMessage m) v = v\<lparr>v_message := m\<rparr>"
| "apply_action (SetDeploymentObjects obs) v = v\<lparr>v_objects := obs\<rparr>"
| "apply_action ClearDeploymentLog v = v\<lparr>v_log := []\<rparr>"
| "apply_action (ToggleDeploymentObject None e) v =
     v\<lparr>v_objects := map (\<lambda>ob. ob\<lparr>do_enabled := e\<rparr>) (v_objects v)\<rparr>"
| "apply_action (ToggleDeploymentObject (Some i) e) v =
     (if i < length (v_objects v)
      then v\<lparr>v_objects := (v_objects v)[i := (v_objects v ! i)\<lparr>do_enabled := e\<rparr>]\<rparr> else v)"

text \<open>
  The contract every method of \<open>Deployment\<close> keeps: replaying the queued actions on the view
  from which they were queued gives the view of the deployment.
\<close>

locale mirrored =
  fixes op :: "deployment \<Rightarrow> deployment"
  assumes queues: "\<exists>acts. dp_actions (op d) = dp_actions d @ acts
      \<and> fold apply_action acts (view_of d) = view_of (op d)"
begin

lemma update_mirrored:
  assumes "dp_actions (w_dep w) = []"
  shows "\<exists>acts. w_sent (update_deployment op w) = w_sent w @ acts
    \<and> fold apply_action acts (view_of (w_dep w)) = view_of (w_dep (update_deployment op w))
    \<and> dp_actions (w_dep (update_deployment op w)) = []
    \<and> w_cancelled (update_deployment op w) = w_cancelled w"
  using queues [of "w_dep w"] assms
  by (auto simp: update_deployment_def mut_deployment_def take_actions_def view_of_def)

end

lemma mirrored_comp:
  assumes "mirrored f" and "mirrored g"
  shows "mirrored (\<lambda>d. f (g d))"
proof
  fix d
  obtain a where a: "dp_actions (g d) = dp_actions d @ a"
    "fold apply_action a (view_of d) = view_of (g d)"
    using mirrored.queues [OF assms(2)] by blast
  obtain b where b: "dp_actions (f (g d)) = dp_actions (g d) @ b"
    "fold apply_action b (view_of (g d)) = view_of (f (g d))"
    using mirrored.queues [OF assms(1)] by blast
  show "\<exists>acts. dp_actions (f (g d)) = dp_actions d @ acts
      \<and> fold apply_action acts (view_of d) = view_of (f (g d))"
    using a b by (intro exI [of _ "a @ b"]) simp
qed

lemmas method_defs = add_log_def set_status_def set_object_status_def set_message_def
  set_deploment_objects_def clear_log_def queue_action_def

interpretation log: mirrored "add_log line"
  by unfold_locales (simp add: method_defs view_of_def)

interpretation status: mirrored "set_status s"
  by unfold_locales (simp add: method_defs view_of_def)

interpretation object_status: mirrored "set_object_status i s"
  by unfold_locales (simp add: method_defs view_of_def)

interpretation message: mirrored "set_message m"
  by unfold_locales (simp add: method_defs view_of_def)

interpretation deploment_objects: mirrored "set_deploment_objects obs"
  by unfold_locales (simp add: method_defs view_of_def)

interpretation cleared: mirrored clear_log
  by unfold_locales (simp add: method_defs view_of_def)

interpretation header: mirrored "add_header name big"
  unfolding add_header_def by unfold_locales (simp add: method_defs view_of_def)

interpretation failed: mirrored "setup_failed m"
  unfolding setup_failed_def
  by (rule mirrored_comp [OF message.mirrored_axioms status.mirrored_axioms])

interpretation finished: mirrored "setup_done obs"
  unfolding setup_done_def by unfold_locales (simp add: method_defs view_of_def)

interpretation ended: mirrored deploy_end
  unfolding deploy_end_def
  by (rule mirrored_comp [OF status.mirrored_axioms log.mirrored_axioms])

section \<open>The state machine\<close>

text \<open>
  Client requests run as tasks at once. \<open>sy_setups\<close> counts the tasks between the first and the
  last section of \<open>setup_deployment\<close>, \<open>sy_running\<close> lists those between the first and the last
  section of \<open>perform_deploy\<close>, each with the objects it took; \<open>abort\<close> is such a task returning
  early on an error (a failing query).
\<close>

record sys =
  sy_world :: world
  sy_setups :: nat
  sy_running :: "(run_token \<times> deployment_object list) list"

abbreviation sy_dep :: "sys \<Rightarrow> deployment" where
  "sy_dep s \<equiv> w_dep (sy_world s)"

abbreviation on_world :: "(world \<Rightarrow> world) \<Rightarrow> sys \<Rightarrow> sys" where
  "on_world f s \<equiv> s\<lparr>sy_world := f (sy_world s)\<rparr>"

definition begin_setup :: "bool \<Rightarrow> sys \<Rightarrow> sys" where
  "begin_setup c s =
     (case setup_begin c (sy_dep s) of
        (go, d) \<Rightarrow> (on_world (update_deployment (\<lambda>_. d)) s)
                    \<lparr>sy_setups := sy_setups s + (if go then 1 else 0)\<rparr>)"

definition begin_deploy :: "run_token \<Rightarrow> sys \<Rightarrow> sys" where
  "begin_deploy rt s =
     (case deploy_begin rt (sy_dep s) of
        (None, d) \<Rightarrow> on_world (update_deployment (\<lambda>_. d)) s
      | (Some obs, d) \<Rightarrow> (on_world (update_deployment (\<lambda>_. d)) s)
                    \<lparr>sy_running := (rt, obs) # sy_running s\<rparr>)"

text \<open>The sections inside \<open>perform_deploy\<close>.\<close>

datatype deploy_section = LogLine string | Header string bool | ObjectStatus nat object_status

fun run_section :: "deploy_section \<Rightarrow> deployment \<Rightarrow> deployment" where
  "run_section (LogLine line) = add_log line"
| "run_section (Header name big) = add_header name big"
| "run_section (ObjectStatus i st) = set_object_status i st"

inductive sys_step :: "sys \<Rightarrow> sys \<Rightarrow> bool" where
  step_setup: "sys_step s (begin_setup c s)"
| step_setup_failed: "0 < sy_setups s \<Longrightarrow>
    sys_step s ((on_world (update_deployment (setup_failed m)) s)\<lparr>sy_setups := sy_setups s - 1\<rparr>)"
| step_setup_done: "0 < sy_setups s \<Longrightarrow>
    sys_step s ((on_world (update_deployment (setup_done obs)) s)\<lparr>sy_setups := sy_setups s - 1\<rparr>)"
| step_deploy: "sys_step s (begin_deploy rt s)"
| step_section: "(rt, obs) \<in> set (sy_running s) \<Longrightarrow>
    sys_step s (on_world (update_deployment (run_section sec)) s)"
| step_deploy_end: "(rt, obs) \<in> set (sy_running s) \<Longrightarrow>
    sys_step s ((on_world (update_deployment deploy_end) s)
      \<lparr>sy_running := remove1 (rt, obs) (sy_running s)\<rparr>)"
| step_deploy_abort: "(rt, obs) \<in> set (sy_running s) \<Longrightarrow>
    sys_step s (s\<lparr>sy_running := remove1 (rt, obs) (sy_running s)\<rparr>)"
| step_stop: "sys_step s (on_world stop s)"
| step_cancel: "sys_step s (on_world cancel s)"
| step_toggle: "sys_step s (on_world (toggle_object i e) s)"

definition sys_init :: sys where
  "sys_init = \<lparr>sy_world = \<lparr>w_dep = deployment_default, w_sent = [], w_cancelled = {}\<rparr>,
     sy_setups = 0, sy_running = []\<rparr>"

inductive reachable :: "sys \<Rightarrow> bool" where
  reach_init: "reachable sys_init"
| reach_step: "reachable s \<Longrightarrow> sys_step s t \<Longrightarrow> reachable t"

text \<open>The objects of a plan, their progress left out.\<close>

definition plan_of :: "deployment_object list \<Rightarrow> deployment_object list" where
  "plan_of obs = map (\<lambda>ob. ob\<lparr>do_status := OS_Normal\<rparr>) obs"

fun status_ok :: "deployment_status \<Rightarrow> sys \<Rightarrow> bool" where
  "status_ok Done s = (sy_setups s = 0 \<and> sy_running s = [])"
| "status_ok ReviewChanges s = (sy_setups s = 0 \<and> sy_running s = [])"
| "status_ok InvilidTree s = (sy_setups s = 0 \<and> sy_running s = [])"
| "status_ok BuildingTree s = (sy_setups s = 1 \<and> sy_running s = [])"
| "status_ok ComputingChanges s = False"
| "status_ok _ s =
     (sy_setups s = 0
      \<and> (\<exists>rt. dp_token (sy_dep s) = Some rt
          \<and> (dp_status (sy_dep s) = Stopping \<longrightarrow> rt \<in> w_cancelled (sy_world s))
          \<and> (sy_running s = []
             \<or> (\<exists>obs. sy_running s = [(rt, obs)] \<and> plan_of (dp_objects (sy_dep s)) = plan_of obs))))"

definition sys_ok :: "sys \<Rightarrow> bool" where
  "sys_ok s = (dp_actions (sy_dep s) = [] \<and> status_ok (dp_status (sy_dep s)) s)"

lemmas update_defs = update_deployment_def mut_deployment_def take_actions_def

lemma update_deployment_simps [simp]:
  "dp_status (w_dep (update_deployment f w)) = dp_status (f (w_dep w))"
  "dp_message (w_dep (update_deployment f w)) = dp_message (f (w_dep w))"
  "dp_objects (w_dep (update_deployment f w)) = dp_objects (f (w_dep w))"
  "dp_token (w_dep (update_deployment f w)) = dp_token (f (w_dep w))"
  "dp_actions (w_dep (update_deployment f w)) = []"
  "w_cancelled (update_deployment f w) = w_cancelled w"
  by (simp_all add: update_defs)

lemma plan_of_status [simp]:
  "plan_of (obs[i := (obs ! i)\<lparr>do_status := st\<rparr>]) = plan_of obs"
  by (cases "i < length obs")
    (simp_all add: plan_of_def map_update list_update_same_conv list_update_beyond)

lemma run_section_simps [simp]:
  "dp_status (run_section sec d) = dp_status d"
  "dp_token (run_section sec d) = dp_token d"
  "plan_of (dp_objects (run_section sec d)) = plan_of (dp_objects d)"
  by (cases sec; simp add: method_defs add_header_def)+

lemma stop_simps [simp]:
  "dp_status (w_dep (stop w)) = (if dp_status (w_dep w) = Deploying then Stopping else dp_status (w_dep w))"
  "dp_objects (w_dep (stop w)) = dp_objects (w_dep w)"
  "dp_token (w_dep (stop w)) = dp_token (w_dep w)"
  "dp_actions (w_dep w) = [] \<Longrightarrow> dp_actions (w_dep (stop w)) = []"
  "w_cancelled (stop w) = w_cancelled w \<union> set_option (dp_token (w_dep w))"
  by (cases "dp_token (w_dep w)"; simp add: stop_def Let_def method_defs)+

lemma sys_ok_step: "sys_step s t \<Longrightarrow> sys_ok s \<Longrightarrow> sys_ok t"
proof (induction rule: sys_step.induct)
  case (step_setup s c)
  then show ?case
    by (cases "dp_status (sy_dep s)"; cases c)
      (auto simp: sys_ok_def begin_setup_def setup_begin_def method_defs)
next
  case (step_setup_failed s m)
  then show ?case
    by (cases "dp_status (sy_dep s)") (auto simp: sys_ok_def setup_failed_def method_defs)
next
  case (step_setup_done s obs)
  then show ?case
    by (cases "dp_status (sy_dep s)"; cases "obs = []")
      (auto simp: sys_ok_def setup_done_def method_defs)
next
  case (step_section rt obs s sec)
  then show ?case by (cases "dp_status (sy_dep s)") (auto simp: sys_ok_def)
next
  case (step_deploy s rt)
  then show ?case
    by (cases "dp_status (sy_dep s)")
      (auto simp: sys_ok_def begin_deploy_def deploy_begin_def Let_def method_defs)
next
  case (step_deploy_end rt obs s)
  then show ?case
    by (cases "dp_status (sy_dep s)") (auto simp: sys_ok_def deploy_end_def method_defs)
next
  case (step_deploy_abort rt obs s)
  then show ?case by (cases "dp_status (sy_dep s)") (auto simp: sys_ok_def)
next
  case (step_stop s)
  then show ?case by (cases "dp_status (sy_dep s)") (auto simp: sys_ok_def)
next
  case (step_cancel s)
  then show ?case
    by (cases "dp_status (sy_dep s)") (auto simp: sys_ok_def cancel_def method_defs)
next
  case (step_toggle s i e)
  then show ?case
    by (cases "dp_status (sy_dep s)"; cases i) (auto simp: sys_ok_def toggle_object_def Let_def)
qed

lemma reachable_ok: "reachable s \<Longrightarrow> sys_ok s"
proof (induction rule: reachable.induct)
  case reach_init
  then show ?case by (simp add: sys_ok_def sys_init_def deployment_default_def)
qed (rule sys_ok_step)

section \<open>The mirror\<close>

text \<open>The actions a locked section takes replay what it did.\<close>

definition followed_by :: "world \<Rightarrow> world \<Rightarrow> bool" where
  "followed_by w w' =
     (\<exists>acts. w_sent w' = w_sent w @ acts
       \<and> fold apply_action acts (view_of (w_dep w)) = view_of (w_dep w'))"

lemma mirror_update:
  "mirrored f \<Longrightarrow> dp_actions (w_dep w) = [] \<Longrightarrow> followed_by w (update_deployment f w)"
  using mirrored.update_mirrored [of f w] by (auto simp: followed_by_def)

text \<open>A section that is given the deployment it computes, instead of the function.\<close>

lemma update_const:
  "update_deployment (\<lambda>_. f (w_dep w)) w = update_deployment f w"
  by (simp add: update_deployment_def mut_deployment_def)

lemma mirror_const:
  "mirrored f \<Longrightarrow> dp_actions (w_dep w) = [] \<Longrightarrow> followed_by w (update_deployment (\<lambda>_. f (w_dep w)) w)"
  unfolding update_const by (rule mirror_update)

lemma mirrored_setup_begin: "mirrored (\<lambda>d. snd (setup_begin c d))"
  by unfold_locales (simp add: setup_begin_def method_defs view_of_def)

lemma mirrored_deploy_begin: "mirrored (\<lambda>d. snd (deploy_begin rt d))"
  by unfold_locales (simp add: deploy_begin_def method_defs view_of_def Let_def)

lemma mirrored_section: "mirrored (run_section sec)"
  by (cases sec) (simp_all add: log.mirrored_axioms header.mirrored_axioms object_status.mirrored_axioms)

lemma mirror_refl [simp]: "followed_by w w"
  by (simp add: followed_by_def)

lemma mirror_stop: "dp_actions (w_dep w) = [] \<Longrightarrow> followed_by w (stop w)"
  by (cases "dp_token (w_dep w)")
    (auto simp: stop_def Let_def followed_by_def update_defs method_defs view_of_def)

lemma mirror_cancel: "dp_actions (w_dep w) = [] \<Longrightarrow> followed_by w (cancel w)"
  by (auto simp: cancel_def followed_by_def update_defs method_defs view_of_def)

lemma mirror_toggle: "followed_by w (toggle_object i e w)"
  by (cases i) (auto simp: toggle_object_def Let_def followed_by_def view_of_def)

lemma mirror_step: "sys_step s t \<Longrightarrow> sys_ok s \<Longrightarrow> followed_by (sy_world s) (sy_world t)"
proof (induction rule: sys_step.induct)
  case (step_setup s c)
  then show ?case
    using mirror_const [OF mirrored_setup_begin [of c], of "sy_world s"]
    by (cases "setup_begin c (sy_dep s)") (simp add: begin_setup_def sys_ok_def)
next
  case (step_deploy s rt)
  then show ?case
    using mirror_const [OF mirrored_deploy_begin [of rt], of "sy_world s"]
    by (cases "deploy_begin rt (sy_dep s)")
      (simp add: begin_deploy_def sys_ok_def split: option.splits)
qed (simp_all add: sys_ok_def mirror_stop mirror_cancel mirror_toggle
  mirror_update [OF failed.mirrored_axioms] mirror_update [OF finished.mirrored_axioms]
  mirror_update [OF mirrored_section] mirror_update [OF ended.mirrored_axioms])

text \<open>The messages of the deployment, as the clients are sent them.\<close>

abbreviation sys_sent :: "sys \<Rightarrow> server_action list" where
  "sys_sent s \<equiv> w_sent (sy_world s)"

interpretation mirror: followed sys_step sys_sent apply_action
  "\<lambda>v s. sys_ok s \<and> v = view_of (sy_dep s)"
  by unfold_locales (use mirror_step sys_ok_step in \<open>fastforce simp: followed_by_def\<close>)

section \<open>An object to show\<close>

definition demo_object :: deployment_object where
  "demo_object = \<lparr>do_index = 0, do_host = 5, do_host_name = ''h'', do_title = ''file'', do_name = ''.6'',
     do_enabled = True, do_status = OS_Normal, do_action = OA_Add, do_script = ''s'',
     do_prev_script = None, do_next_content = Some [], do_prev_content = None, do_id = Some 6,
     do_type_id = 9, do_type_name = ''File'', do_triggers = [], do_deployment_order = 0\<rparr>"

section \<open>Properties\<close>

text \<open>C10: deployments are exclusive. However the requests of the clients interleave, at most one
  task builds a plan or carries one out. A plan is being built exactly in the status
  \<open>BuildingTree\<close>; while a deployment runs the status is \<open>Deploying\<close> or \<open>Stopping\<close>, the plan it
  carries out is the one the clients see, and \<open>Stopping\<close> means that its token is cancelled.\<close>

theorem deployment_exclusive:
  assumes "reachable s"
  shows "sy_setups s + length (sy_running s) \<le> 1
    \<and> (0 < sy_setups s \<longleftrightarrow> dp_status (sy_dep s) = BuildingTree)
    \<and> (\<forall>(rt, obs) \<in> set (sy_running s).
      dp_status (sy_dep s) \<in> {Deploying, Stopping} \<and> dp_token (sy_dep s) = Some rt
      \<and> plan_of (dp_objects (sy_dep s)) = plan_of obs
      \<and> (dp_status (sy_dep s) = Stopping \<longrightarrow> rt \<in> w_cancelled (sy_world s)))"
  using reachable_ok [OF assms] by (cases "dp_status (sy_dep s)") (auto simp: sys_ok_def)

lemma reach_deploying:
  "reachable (begin_deploy 7 ((on_world (update_deployment (setup_done [ob])) (begin_setup False sys_init))
     \<lparr>sy_setups := 0\<rparr>))"
proof -
  let ?s = "begin_setup False sys_init"
  have r1: "reachable ?s" by (rule reach_step [OF reach_init step_setup])
  have "sy_setups ?s = 1" by (simp add: begin_setup_def setup_begin_def sys_init_def deployment_default_def)
  then have "reachable ((on_world (update_deployment (setup_done [ob])) ?s)\<lparr>sy_setups := 0\<rparr>)"
    using reach_step [OF r1 step_setup_done [of ?s "[ob]"]] by simp
  then show ?thesis by (rule reach_step) (rule step_deploy)
qed

theorem deployment_exclusive_witness:
  "\<exists>s. reachable s \<and> sy_running s \<noteq> [] \<and> length (sy_running s) \<le> 1"
proof -
  obtain ob :: deployment_object where True by simp
  let ?s = "begin_deploy 7 ((on_world (update_deployment (setup_done [ob])) (begin_setup False sys_init))
     \<lparr>sy_setups := 0\<rparr>)"
  have "sy_running ?s \<noteq> []"
    by (simp add: begin_deploy_def deploy_begin_def setup_done_def method_defs Let_def)
  moreover have "length (sy_running ?s) \<le> 1"
    using deployment_exclusive [OF reach_deploying [of ob]] by linarith
  ultimately show ?thesis using reach_deploying by blast
qed

text \<open>C11: what the clients are sent. However the requests, the broadcasts of the sections that
  released the lock and the tasks that send to the clients interleave: the actions taken since a
  client logged in (when none of before was left to broadcast), replayed in the order of the locked sections on the deployment it started
  from, give the server's deployment (status, message, objects and log); the client is sent each
  of them exactly once, in some order; and once it was sent all of them in that order, it shows
  the deployment as it is. Nothing makes the order that of the sections
  (\<open>reordered_client_stale\<close>).\<close>

theorem clients_mirror:
  assumes "reachable s0" and "spread sys_step sys_sent cs s0 s b" and "distinct cs" and "c \<in> set cs"
  shows "\<exists>new. sys_sent s = sys_sent s0 @ new
    \<and> fold apply_action new (view_of (sy_dep s0)) = view_of (sy_dep s)
    \<and> mset (ca_got b c) + mset (pending c b) = mset new
    \<and> (pending c b = [] \<and> (\<exists>later. new = ca_got b c @ later)
        \<longrightarrow> fold apply_action (ca_got b c) (view_of (sy_dep s0)) = view_of (sy_dep s))"
proof -
  obtain new where new: "sys_sent s = sys_sent s0 @ new"
    "fold apply_action new (view_of (sy_dep s0)) = view_of (sy_dep s)"
    "mset (ca_got b c) + mset (pending c b) = mset new"
    using mirror.spread_followed [OF assms(2) _ assms(3)] reachable_ok [OF assms(1)] assms(4) by blast
  then show ?thesis using all_in_order [OF new(3)] by auto
qed

text \<open>A deployment of one object under review, which two clients see.\<close>

definition review_start :: sys where
  "review_start = \<lparr>sy_world = \<lparr>w_dep = \<lparr>dp_status = ReviewChanges, dp_message = '''',
       dp_objects = [demo_object], dp_log = [], dp_actions = [], dp_token = None\<rparr>,
     w_sent = [SetDeploymentStatus BuildingTree, SetDeploymentMessage '''', ClearDeploymentLog,
       SetDeploymentStatus ReviewChanges, SetDeploymentMessage '''', SetDeploymentObjects [demo_object]],
     w_cancelled = {}\<rparr>, sy_setups = 0, sy_running = []\<rparr>"

lemma review_reachable: "reachable review_start"
proof -
  let ?s = "begin_setup False sys_init"
  have r1: "reachable ?s" by (rule reach_step [OF reach_init step_setup])
  have "sy_setups ?s = 1" by (simp add: begin_setup_def setup_begin_def sys_init_def deployment_default_def)
  then have "reachable ((on_world (update_deployment (setup_done [demo_object])) ?s)\<lparr>sy_setups := 0\<rparr>)"
    using reach_step [OF r1 step_setup_done [of ?s "[demo_object]"]] by simp
  moreover have "(on_world (update_deployment (setup_done [demo_object])) ?s)\<lparr>sy_setups := 0\<rparr> = review_start"
    by (simp add: review_start_def begin_setup_def setup_begin_def sys_init_def deployment_default_def
        setup_done_def update_defs method_defs)
  ultimately show ?thesis by simp
qed

text \<open>One client disables the object and another enables it again.\<close>

abbreviation set_first :: "bool \<Rightarrow> sys \<Rightarrow> sys" where
  "set_first e \<equiv> on_world (toggle_object (Some 0) e)"

abbreviation first_set :: "bool \<Rightarrow> server_action" where
  "first_set e \<equiv> ToggleDeploymentObject (Some 0) e"

definition toggled :: "sys" where
  "toggled = set_first True (set_first False review_start)"

lemma toggled_sent: "sys_sent toggled = sys_sent review_start @ [first_set False, first_set True]"
  by (simp add: toggled_def review_start_def toggle_object_def Let_def)

lemma toggled_reached: "sys_step\<^sup>*\<^sup>* review_start toggled"
proof -
  have "sys_step review_start (set_first False review_start)" by (rule step_toggle)
  moreover have "sys_step (set_first False review_start) toggled" unfolding toggled_def by (rule step_toggle)
  ultimately show ?thesis by (rule rtranclp_trans [OF r_into_rtranclp r_into_rtranclp])
qed

lemma toggled_any_order:
  "mset p = mset [first_set False, first_set True] \<Longrightarrow>
   \<exists>b. spread sys_step sys_sent [c] review_start toggled b \<and> pending c b = [] \<and> ca_got b c = p"
proof -
  assume p: "mset p = mset [first_set False, first_set True]"
  have "sys_ok review_start \<and> view_of (sy_dep review_start) = view_of (sy_dep review_start)"
    using reachable_ok [OF review_reachable] by simp
  from mirror.any_order [OF toggled_reached this toggled_sent p] show ?thesis .
qed

theorem clients_mirror_witness:
  "\<exists>b. spread sys_step sys_sent [0] review_start toggled b \<and> ca_got b 0 = [first_set False, first_set True]
    \<and> fold apply_action (ca_got b 0) (view_of (sy_dep review_start)) = view_of (sy_dep toggled)"
proof -
  obtain b where b: "spread sys_step sys_sent [0] review_start toggled b" "pending 0 b = []"
    "ca_got b 0 = [first_set False, first_set True]"
    using toggled_any_order [of "[first_set False, first_set True]" 0] by blast
  have "distinct [0 :: nat]" "0 \<in> set [0 :: nat]" by simp_all
  from clients_mirror [OF review_reachable b(1) this] obtain new where
    n: "sys_sent toggled = sys_sent review_start @ new"
      "pending 0 b = [] \<and> (\<exists>later. new = ca_got b 0 @ later)
        \<longrightarrow> fold apply_action (ca_got b 0) (view_of (sy_dep review_start)) = view_of (sy_dep toggled)"
    by (elim exE conjE) (rule that)
  have "new = [first_set False, first_set True]"
    using n(1) unfolding toggled_sent by (simp only: same_append_eq)
  then have "pending 0 b = [] \<and> (\<exists>later. new = ca_got b 0 @ later)" using b by simp
  with n(2) b show ?thesis by blast
qed

text \<open>Further result: the order matters. Two clients toggle the same object, the second after the first; the
  two tasks that tell a third client send in the other order, and that client, which was sent
  everything and has nothing to come, shows the object as disabled while the server has it
  enabled, and will deploy it.\<close>

theorem reordered_client_stale:
  "\<exists>s0 s b. reachable s0 \<and> spread sys_step sys_sent [0] s0 s b \<and> pending 0 b = []
    \<and> map do_enabled (v_objects (fold apply_action (ca_got b 0) (view_of (sy_dep s0)))) = [False]
    \<and> map do_enabled (dp_objects (sy_dep s)) = [True]"
proof -
  obtain b where b: "spread sys_step sys_sent [0] review_start toggled b" "pending 0 b = []"
    "ca_got b 0 = [first_set True, first_set False]"
    using toggled_any_order [of "[first_set True, first_set False]" 0] by auto
  have "map do_enabled (v_objects (fold apply_action (ca_got b 0) (view_of (sy_dep review_start)))) = [False]"
    unfolding b(3) by (simp add: review_start_def view_of_def)
  moreover have "map do_enabled (dp_objects (sy_dep toggled)) = [True]"
    by (simp add: toggled_def review_start_def toggle_object_def Let_def demo_object_def)
  ultimately show ?thesis using b(1,2)
    by (intro exI [of _ review_start] exI [of _ toggled] exI [of _ b] conjI review_reachable)
qed

text \<open>Further result: an invalid tree is a dead end. Once a setup has failed the status stays \<open>InvilidTree\<close>
  whatever the clients ask for: no later setup, deployment or cancel leaves it, although the
  browser offers to set up again there.\<close>

theorem invalid_tree_stuck:
  assumes "reachable s" and "dp_status (sy_dep s) = InvilidTree" and "sys_step\<^sup>*\<^sup>* s t"
  shows "dp_status (sy_dep t) = InvilidTree"
proof -
  have "reachable t \<and> dp_status (sy_dep t) = InvilidTree"
    using assms(3)
  proof (induction rule: rtranclp_induct)
    case base
    then show ?case using assms(1,2) by simp
  next
    case (step t u)
    then have r: "reachable u" and idle: "sy_setups t = 0" "sy_running t = []"
      using reach_step reachable_ok [of t] by (auto simp: sys_ok_def)
    from step(2) idle step.IH have "dp_status (sy_dep u) = InvilidTree"
      by (cases rule: sys_step.cases)
        (auto simp: begin_setup_def setup_begin_def begin_deploy_def deploy_begin_def cancel_def
          toggle_object_def Let_def)
    with r show ?case by simp
  qed
  then show ?thesis by simp
qed

text \<open>Further result: a deployment that returns early on an error leaves the status \<open>Deploying\<close> or
  \<open>Stopping\<close> with no task behind it, and no request of a client ever changes that.\<close>

theorem aborted_deploy_stuck:
  assumes "reachable s" and "dp_status (sy_dep s) \<in> {Deploying, Stopping}" and "sy_running s = []"
    and "sys_step\<^sup>*\<^sup>* s t"
  shows "dp_status (sy_dep t) \<in> {Deploying, Stopping} \<and> sy_running t = []"
proof -
  have "reachable t \<and> dp_status (sy_dep t) \<in> {Deploying, Stopping} \<and> sy_running t = []"
    using assms(4)
  proof (induction rule: rtranclp_induct)
    case base
    then show ?case using assms(1-3) by simp
  next
    case (step t u)
    then have r: "reachable u" and idle: "sy_setups t = 0" "sy_running t = []"
      using reach_step reachable_ok [of t] by (auto simp: sys_ok_def)
    from step(2) idle step.IH have "dp_status (sy_dep u) \<in> {Deploying, Stopping} \<and> sy_running u = []"
      by (cases rule: sys_step.cases)
        (auto simp: begin_setup_def setup_begin_def begin_deploy_def deploy_begin_def cancel_def
          toggle_object_def Let_def)
    with r show ?case by simp
  qed
  then show ?thesis by simp
qed

text \<open>Witnesses of the two dead ends.\<close>

theorem invalid_tree_stuck_witness:
  "\<exists>s. reachable s \<and> dp_status (sy_dep (on_world cancel s)) = InvilidTree"
proof -
  let ?s = "begin_setup False sys_init"
  let ?t = "(on_world (update_deployment (setup_failed ''x'')) ?s)\<lparr>sy_setups := 0\<rparr>"
  have r1: "reachable ?s" by (rule reach_step [OF reach_init step_setup])
  have "sy_setups ?s = 1" by (simp add: begin_setup_def setup_begin_def sys_init_def deployment_default_def)
  then have r: "reachable ?t" using reach_step [OF r1 step_setup_failed [of ?s "''x''"]] by simp
  have "dp_status (sy_dep ?t) = InvilidTree" by (simp add: setup_failed_def method_defs)
  moreover have "sys_step\<^sup>*\<^sup>* ?t (on_world cancel ?t)" by (rule r_into_rtranclp) (rule step_cancel)
  ultimately have "dp_status (sy_dep (on_world cancel ?t)) = InvilidTree"
    by (rule invalid_tree_stuck [OF r])
  with r show ?thesis by blast
qed

theorem aborted_deploy_stuck_witness:
  "\<exists>s. reachable s \<and> dp_status (sy_dep (on_world cancel s)) \<in> {Deploying, Stopping}
     \<and> sy_running (on_world cancel s) = []"
proof -
  obtain ob :: deployment_object where True by simp
  let ?s = "begin_deploy 7 ((on_world (update_deployment (setup_done [ob])) (begin_setup False sys_init))
     \<lparr>sy_setups := 0\<rparr>)"
  let ?t = "?s\<lparr>sy_running := remove1 (7, [ob]) (sy_running ?s)\<rparr>"
  have run: "sy_running ?s = [(7, [ob])]" "dp_status (sy_dep ?s) = Deploying"
    by (simp_all add: begin_deploy_def deploy_begin_def setup_done_def method_defs Let_def
        begin_setup_def setup_begin_def sys_init_def)
  then have r: "reachable ?t"
    using reach_step [OF reach_deploying [of ob] step_deploy_abort [of 7 "[ob]" ?s]] by simp
  have "dp_status (sy_dep ?t) \<in> {Deploying, Stopping}" "sy_running ?t = []" using run by simp_all
  moreover have "sys_step\<^sup>*\<^sup>* ?t (on_world cancel ?t)" by (rule r_into_rtranclp) (rule step_cancel)
  ultimately have "dp_status (sy_dep (on_world cancel ?t)) \<in> {Deploying, Stopping}
      \<and> sy_running (on_world cancel ?t) = []"
    by (rule aborted_deploy_stuck [OF r])
  with r show ?thesis by blast
qed

end
