(* ===== verification/Topsort.thy ===== *)
theory Topsort
  imports Deploy_Types "HOL-Library.Multiset"
begin

text \<open>
  The order in which the objects of a host are deployed (\<open>setup_deployment_host\<close> in
  \<open>src/bin/server/deployment.rs\<close>): all nodes reachable backwards from the selected ones are
  collected with the number of their predecessors, then a priority queue hands out nodes whose
  predecessors are all done, highest (type order, id) first. The queue is Rust's \<open>BinaryHeap\<close>;
  its contract is the locale \<open>max_heap\<close>, everything about the sort is proved under that
  contract (so for whatever the heap does between equal keys) and the contract is interpreted
  on an executable queue. The subtraction \<open>in_count -= 1\<close> on a \<open>usize\<close> would panic at zero;
  the panic is a value of the model and proved never to happen.
\<close>

section \<open>Collecting the nodes to sort\<close>

type_synonym in_counts = "node_ref \<Rightarrow> nat"

fun scan_prev ::
  "node_ref \<Rightarrow> node_ref list \<Rightarrow> in_counts \<times> node_ref list \<times> node_ref list
    \<Rightarrow> in_counts \<times> node_ref list \<times> node_ref list" where
  "scan_prev n [] s = s"
| "scan_prev n (p # ps) (inc, seen, st) =
     scan_prev n ps
       (inc(n := inc n + 1),
        if p \<in> set seen then seen else p # seen,
        if p \<in> set seen then st else p # st)"

lemma scan_prev_result:
  "\<exists>new. scan_prev n ps (inc, seen, st) = (inc(n := inc n + length ps), new @ seen, new @ st)
     \<and> distinct new \<and> set new = set ps - set seen"
proof (induction ps arbitrary: inc seen st)
  case (Cons p ps)
  obtain new where new:
    "scan_prev n ps (inc(n := inc n + 1), if p \<in> set seen then seen else p # seen,
        if p \<in> set seen then st else p # st)
      = ((inc(n := inc n + 1))(n := (inc(n := inc n + 1)) n + length ps),
         new @ (if p \<in> set seen then seen else p # seen),
         new @ (if p \<in> set seen then st else p # st))"
    "distinct new" "set new = set ps - set (if p \<in> set seen then seen else p # seen)"
    using Cons.IH by blast
  show ?case
  proof (cases "p \<in> set seen")
    case True
    have "set new = set (p # ps) - set seen" using new(3) True by auto
    with new(1,2) True show ?thesis by (intro exI [of _ new]) (simp add: fun_eq_iff)
  next
    case False
    have "distinct (new @ [p])" "set (new @ [p]) = set (p # ps) - set seen"
      using new(2,3) False by auto
    with new(1) False show ?thesis by (intro exI [of _ "new @ [p]"]) (simp add: fun_eq_iff)
  qed
qed simp

definition all_prevs :: "arena \<Rightarrow> node_ref set" where
  "all_prevs g = (\<Union>n < length g. set (nprev g n))"

lemma finite_all_prevs [simp]: "finite (all_prevs g)"
  by (simp add: all_prevs_def)

lemma nprev_subset_all: "set (nprev g n) \<subseteq> all_prevs g"
  by (cases "n < length g") (auto simp: all_prevs_def nprev_def)

text \<open>
  \<open>while let Some(node) = to_visit.pop()\<close>: the stack's top is the head of the list.
\<close>

function collect ::
  "arena \<Rightarrow> node_ref list \<Rightarrow> in_counts \<Rightarrow> node_ref list \<Rightarrow> in_counts \<times> node_ref list" where
  "collect g [] inc seen = (inc, seen)"
| "collect g (n # st) inc seen =
     (case scan_prev n (nprev g n) (inc, seen, st) of
        (inc', seen', st') \<Rightarrow> collect g st' inc' seen')"
  by pat_completeness auto
termination
proof (relation "inv_image (less_than <*lex*> less_than)
    (\<lambda>(g, st, inc, seen). (card (all_prevs g - set seen), length st))", goal_cases)
  case (2 g n st inc seen inc' y seen' st')
  obtain new where new: "seen' = new @ seen" "st' = new @ st" "distinct new"
    "set new = set (nprev g n) - set seen"
    using scan_prev_result [of n "nprev g n" inc seen st] 2 by auto
  show ?case
  proof (cases "new = []")
    case True
    with new show ?thesis by simp
  next
    case False
    then obtain p where "p \<in> set new" by (cases new) auto
    with new(4) nprev_subset_all have "p \<in> all_prevs g - set seen" "p \<in> set new" by auto
    then have "all_prevs g - set seen' \<subset> all_prevs g - set seen" using new(1) by auto
    then have "card (all_prevs g - set seen') < card (all_prevs g - set seen)"
      by (intro psubset_card_mono) auto
    then show ?thesis by simp
  qed
qed (simp add: wf_inv_image wf_lex_prod)

text \<open>What has been popped and what is on the stack, while collecting.\<close>

definition collecting ::
  "arena \<Rightarrow> node_ref list \<Rightarrow> node_ref list \<Rightarrow> in_counts \<Rightarrow> node_ref list \<Rightarrow> bool" where
  "collecting g start st inc seen =
     (distinct seen \<and> distinct st \<and> set start \<subseteq> set seen \<and> set st \<subseteq> set seen
      \<and> (\<forall>m. inc m = (if m \<in> set seen \<and> m \<notin> set st then length (nprev g m) else 0))
      \<and> (\<forall>m \<in> set seen. m \<in> set st \<or> set (nprev g m) \<subseteq> set seen)
      \<and> (\<forall>m \<in> set seen. \<exists>s \<in> set start. (m, s) \<in> {(p, n). p \<in> set (nprev g n)}\<^sup>*))"

lemma collecting_step:
  assumes inv: "collecting g start (n # st) inc seen"
    and scan: "scan_prev n (nprev g n) (inc, seen, st) = (inc', seen', st')"
  shows "collecting g start st' inc' seen'"
proof -
  obtain new where new: "seen' = new @ seen" "st' = new @ st" "distinct new"
    "set new = set (nprev g n) - set seen" "inc' = inc(n := inc n + length (nprev g n))"
    using scan_prev_result [of n "nprev g n" inc seen st] scan by auto
  have n: "n \<in> set seen" "n \<notin> set st" "n \<notin> set new" "inc n = 0"
    using inv new(4) by (auto simp: collecting_def)
  obtain s where s: "s \<in> set start" "(n, s) \<in> {(p, n). p \<in> set (nprev g n)}\<^sup>*"
    using inv n(1) by (auto simp: collecting_def)
  have "\<exists>s \<in> set start. (m, s) \<in> {(p, n). p \<in> set (nprev g n)}\<^sup>*" if "m \<in> set new" for m
  proof -
    have "(m, n) \<in> {(p, n). p \<in> set (nprev g n)}" using that new(4) by simp
    with s show ?thesis by (meson converse_rtrancl_into_rtrancl)
  qed
  moreover have "inc' m = (if m \<in> set seen' \<and> m \<notin> set st' then length (nprev g m) else 0)" for m
    using inv n new by (auto simp: collecting_def)
  ultimately show ?thesis
    using inv n new unfolding collecting_def by auto
qed

lemma collect_result:
  "collecting g start st inc seen \<Longrightarrow> collect g st inc seen = (inc', seen') \<Longrightarrow>
   collecting g start [] inc' seen'"
proof (induction g st inc seen rule: collect.induct)
  case (2 g n st inc seen)
  obtain inc1 seen1 st1 where s: "scan_prev n (nprev g n) (inc, seen, st) = (inc1, seen1, st1)"
    by (metis prod_cases3)
  with "2.prems" collecting_step show ?case by (intro "2.IH" [OF s [symmetric] refl]) auto
qed auto

section \<open>The heap\<close>

type_synonym heap_element = "node_ref \<times> (int \<times> int)"

definition o_cmp :: "int \<times> int \<Rightarrow> int \<times> int \<Rightarrow> ordering" where
  "o_cmp a b = then_with (cmp_lin (fst a) (fst b)) (cmp_lin (snd a) (snd b))"

interpretation okey: strict_cmp o_cmp
proof
  fix x y z :: "int \<times> int"
  show "o_cmp x x = Equal" by (simp add: o_cmp_def cmp_lin_def)
  show "o_cmp y x = ord_reverse (o_cmp x y)" by (auto simp: o_cmp_def cmp_lin_def)
  show "o_cmp x y \<noteq> Greater \<Longrightarrow> o_cmp y z \<noteq> Greater \<Longrightarrow> o_cmp x z \<noteq> Greater"
    unfolding o_cmp_def
    by (erule (1) then_with_trans [OF lin.total_cmp_axioms], erule (1) lin.cmp_trans)
  show "o_cmp x y = Equal \<Longrightarrow> x = y" by (auto simp: o_cmp_def cmp_lin_def prod_eq_iff split: if_splits)
qed

text \<open>The contract of a maximum heap: a multiset of elements, and \<open>pop\<close> removes a greatest one.\<close>

locale max_heap =
  fixes pop :: "'q \<Rightarrow> (heap_element \<times> 'q) option"
    and push :: "heap_element \<Rightarrow> 'q \<Rightarrow> 'q"
    and new_heap :: 'q
    and elems :: "'q \<Rightarrow> heap_element multiset"
  assumes elems_new: "elems new_heap = {#}"
    and elems_push: "elems (push x q) = add_mset x (elems q)"
    and pop_None: "pop q = None \<longleftrightarrow> elems q = {#}"
    and pop_Some: "pop q = Some (x, q') \<Longrightarrow>
      elems q = add_mset x (elems q') \<and> (\<forall>y \<in># elems q. o_cmp (snd y) (snd x) \<noteq> Greater)"
begin

lemma elems_fold_push:
  "elems (fold (\<lambda>n q. if P n then push (n, key n) q else q) ns q)
     = mset (map (\<lambda>n. (n, key n)) (filter P ns)) + elems q"
  by (induction ns arbitrary: q) (auto simp: elems_push)

end

text \<open>An executable heap: a list, \<open>pop\<close> takes its first greatest element.\<close>

fun heap_max :: "heap_element list \<Rightarrow> heap_element option" where
  "heap_max [] = None"
| "heap_max (x # xs) =
     (case heap_max xs of
        None \<Rightarrow> Some x
      | Some y \<Rightarrow> if o_cmp (snd y) (snd x) = Greater then Some y else Some x)"

definition heap_pop :: "heap_element list \<Rightarrow> (heap_element \<times> heap_element list) option" where
  "heap_pop q = map_option (\<lambda>x. (x, remove1 x q)) (heap_max q)"

definition heap_push :: "heap_element \<Rightarrow> heap_element list \<Rightarrow> heap_element list" where
  "heap_push x q = q @ [x]"

lemma heap_max_None: "heap_max q = None \<longleftrightarrow> q = []"
  by (cases q) (auto split: option.splits)

lemma heap_max_Some:
  "heap_max q = Some x \<Longrightarrow> x \<in> set q \<and> (\<forall>y \<in> set q. o_cmp (snd y) (snd x) \<noteq> Greater)"
proof (induction q arbitrary: x)
  case (Cons a q)
  show ?case
  proof (cases "heap_max q")
    case None
    with Cons.prems show ?thesis by (simp add: heap_max_None okey.cmp_refl)
  next
    case (Some y)
    note ih = Cons.IH [OF Some]
    show ?thesis
    proof (cases "o_cmp (snd y) (snd a) = Greater")
      case True
      then have "o_cmp (snd a) (snd y) \<noteq> Greater" using okey.cmp_total by simp
      with True Some ih Cons.prems show ?thesis by simp
    next
      case False
      then have "\<forall>z \<in> set q. o_cmp (snd z) (snd a) \<noteq> Greater" using ih okey.cmp_trans by blast
      with False Some Cons.prems show ?thesis by (simp add: okey.cmp_refl)
    qed
  qed
qed simp

interpretation heap: max_heap heap_pop heap_push "[]" mset
proof
  fix x :: heap_element and q q' :: "heap_element list"
  show "mset ([] :: heap_element list) = {#}" by simp
  show "mset (heap_push x q) = add_mset x (mset q)" by (simp add: heap_push_def)
  show "heap_pop q = None \<longleftrightarrow> mset q = {#}" by (simp add: heap_pop_def heap_max_None)
  assume "heap_pop q = Some (x, q')"
  then show "mset q = add_mset x (mset q') \<and> (\<forall>y \<in># mset q. o_cmp (snd y) (snd x) \<noteq> Greater)"
    using heap_max_Some [of q x] by (auto simp: heap_pop_def)
qed

section \<open>The sort\<close>

datatype 'e sort_error = InCountUnderflow | EmitError 'e

text \<open>
  The inner loop over the successors of a node that has been taken: those still to be sorted
  lose one open predecessor and join the queue when none is left.
\<close>

fun release ::
  "(heap_element \<Rightarrow> 'q \<Rightarrow> 'q) \<Rightarrow> (node_ref \<Rightarrow> int \<times> int) \<Rightarrow> node_ref list \<Rightarrow> node_ref list
    \<Rightarrow> in_counts \<Rightarrow> 'q \<Rightarrow> 'e sort_error + in_counts \<times> 'q" where
  "release push key seen [] inc q = Inr (inc, q)"
| "release push key seen (m # ms) inc q =
     (if m \<notin> set seen then release push key seen ms inc q
      else if inc m = 0 then Inl InCountUnderflow
      else release push key seen ms (inc(m := inc m - 1))
             (if inc m - 1 = 0 then push (m, key m) q else q))"

text \<open>
  The outer loop; \<open>emit\<close> is the rest of its body, which turns the node into a deployment
  object (theory \<open>Host_Diff\<close>) and may fail.
\<close>

partial_function (option) topsort_loop ::
  "('q \<Rightarrow> (heap_element \<times> 'q) option) \<Rightarrow> (heap_element \<Rightarrow> 'q \<Rightarrow> 'q) \<Rightarrow> arena
    \<Rightarrow> (node_ref \<Rightarrow> int \<times> int) \<Rightarrow> (node_ref \<Rightarrow> 'a \<Rightarrow> 'e + 'a)
    \<Rightarrow> 'q \<Rightarrow> in_counts \<Rightarrow> node_ref list \<Rightarrow> 'a \<Rightarrow> ('e sort_error + 'a \<times> node_ref list) option"
where
  "topsort_loop pop push g key emit q inc seen acc =
     (case pop q of
        None \<Rightarrow> Some (Inr (acc, seen))
      | Some (v, q1) \<Rightarrow>
          (case release push key (remove1 (fst v) seen) (nnext g (fst v)) inc q1 of
             Inl e \<Rightarrow> Some (Inl e)
           | Inr (inc2, q2) \<Rightarrow>
               (case emit (fst v) acc of
                  Inl e \<Rightarrow> Some (Inl (EmitError e))
                | Inr acc' \<Rightarrow>
                    topsort_loop pop push g key emit q2 inc2 (remove1 (fst v) seen) acc')))"

declare topsort_loop.simps [code]

definition topsort ::
  "('q \<Rightarrow> (heap_element \<times> 'q) option) \<Rightarrow> (heap_element \<Rightarrow> 'q \<Rightarrow> 'q) \<Rightarrow> 'q \<Rightarrow> arena
    \<Rightarrow> (node_ref \<Rightarrow> int \<times> int) \<Rightarrow> (node_ref \<Rightarrow> 'a \<Rightarrow> 'e + 'a)
    \<Rightarrow> node_ref list \<Rightarrow> 'a \<Rightarrow> ('e sort_error + 'a \<times> node_ref list) option"
where
  "topsort pop push new_heap g key emit start acc =
     (case collect g (rev start) (\<lambda>_. 0) start of
        (inc, seen) \<Rightarrow>
          topsort_loop pop push g key emit
            (fold (\<lambda>n q. if inc n = 0 then push (n, key n) q else q) seen new_heap)
            inc seen acc)"

text \<open>Emitting a list of nodes in order, the first error winning.\<close>

fun emit_all :: "(node_ref \<Rightarrow> 'a \<Rightarrow> 'e + 'a) \<Rightarrow> node_ref list \<Rightarrow> 'a \<Rightarrow> 'e + 'a" where
  "emit_all emit [] acc = Inr acc"
| "emit_all emit (n # ns) acc = res_bind (emit n acc) (emit_all emit ns)"

text \<open>
  The specification: \<open>order\<close> lists nodes of \<open>seen\<close>, each after all its predecessors of
  \<open>seen\<close>, and at every point the node taken has the greatest key of those that could be
  taken; what is left over are nodes each of which has a predecessor left over.
\<close>

definition ready :: "arena \<Rightarrow> node_ref set \<Rightarrow> node_ref set \<Rightarrow> node_ref \<Rightarrow> bool" where
  "ready g todo done n = (n \<in> todo \<and> n \<notin> done \<and> set (nprev g n) \<inter> todo \<subseteq> done)"

definition topological ::
  "arena \<Rightarrow> (node_ref \<Rightarrow> int \<times> int) \<Rightarrow> node_ref set \<Rightarrow> node_ref list \<Rightarrow> node_ref set \<Rightarrow> bool" where
  "topological g key todo order left_over =
     (distinct order \<and> set order \<union> left_over = todo \<and> set order \<inter> left_over = {}
      \<and> (\<forall>xs n ys. order = xs @ n # ys \<longrightarrow>
           ready g todo (set xs) n
           \<and> (\<forall>m. ready g todo (set xs) m \<longrightarrow> o_cmp (key m) (key n) \<noteq> Greater))
      \<and> (\<forall>m \<in> left_over. set (nprev g m) \<inter> left_over \<noteq> {}))"

section \<open>Correctness under the heap contract\<close>

definition open_prevs :: "arena \<Rightarrow> node_ref list \<Rightarrow> node_ref \<Rightarrow> nat" where
  "open_prevs g seen m = length (filter (\<lambda>p. p \<in> set seen) (nprev g m))"

lemma open_prevs_remove:
  "distinct seen \<Longrightarrow> n \<in> set seen \<Longrightarrow>
   open_prevs g seen m = open_prevs g (remove1 n seen) m + count_list (nprev g m) n"
proof -
  assume d: "distinct seen" "n \<in> set seen"
  have "length (filter (\<lambda>p. p \<in> set seen) ps)
      = length (filter (\<lambda>p. p \<in> set (remove1 n seen)) ps) + count_list ps n" for ps
    using d by (induction ps) (auto simp: set_remove1_eq)
  then show ?thesis by (simp add: open_prevs_def)
qed

lemma open_prevs_0: "open_prevs g seen m = 0 \<longleftrightarrow> set (nprev g m) \<inter> set seen = {}"
  by (auto simp: open_prevs_def filter_empty_conv)

lemma topological_split:
  "topological g key todo order lo \<Longrightarrow> order = xs @ n # ys \<Longrightarrow>
   ready g todo (set xs) n \<and> (\<forall>m. ready g todo (set xs) m \<longrightarrow> o_cmp (key m) (key n) \<noteq> Greater)"
  unfolding topological_def by blast

lemma topological_step:
  assumes n: "ready g todo {} n" and max: "\<forall>m. ready g todo {} m \<longrightarrow> o_cmp (key m) (key n) \<noteq> Greater"
    and top: "topological g key (todo - {n}) order lo"
  shows "topological g key todo (n # order) lo"
proof -
  have shift: "ready g (todo - {n}) D m \<longleftrightarrow> ready g todo (insert n D) m" for D m
    by (auto simp: ready_def)
  have "ready g todo (set xs) m \<and> (\<forall>k. ready g todo (set xs) k \<longrightarrow> o_cmp (key k) (key m) \<noteq> Greater)"
    if "n # order = xs @ m # ys" for xs m ys
  proof (cases xs)
    case Nil
    with that n max show ?thesis by simp
  next
    case (Cons x xs')
    with that have "x = n" "order = xs' @ m # ys" by simp_all
    with topological_split [OF top, of xs' m ys] Cons show ?thesis by (simp add: shift)
  qed
  with top n show ?thesis unfolding topological_def by (auto simp: ready_def)
qed

context max_heap
begin

definition heap_has :: "(node_ref \<Rightarrow> int \<times> int) \<Rightarrow> node_ref list \<Rightarrow> in_counts \<Rightarrow> 'q \<Rightarrow> bool" where
  "heap_has key seen inc q =
     (elems q = mset (map (\<lambda>n. (n, key n)) (filter (\<lambda>n. inc n = 0) seen)))"

lemma release_result:
  assumes "distinct seen"
  shows "\<forall>m \<in> set seen. count_list ms m \<le> inc m \<Longrightarrow> heap_has key seen inc q \<Longrightarrow>
   \<exists>inc' q'. release push key seen ms inc q = (Inr (inc', q') :: 'e sort_error + _) \<and> heap_has key seen inc' q'
     \<and> (\<forall>m \<in> set seen. inc' m = inc m - count_list ms m)"
proof (induction ms arbitrary: inc q)
  case Nil
  then show ?case by simp
next
  case (Cons a ms)
  show ?case
  proof (cases "a \<in> set seen")
    case False
    have "\<forall>m \<in> set seen. count_list ms m \<le> inc m"
      using Cons.prems(1) False by (auto split: if_splits)
    from Cons.IH [OF this Cons.prems(2)] False show ?thesis by (auto split: if_splits)
  next
    case True
    let ?inc = "inc(a := inc a - 1)" and ?q = "if inc a - 1 = 0 then push (a, key a) q else q"
    have pos: "inc a > 0" using Cons.prems(1) True by fastforce
    have le: "\<forall>m \<in> set seen. count_list ms m \<le> ?inc m"
      using Cons.prems(1) by (force split: if_splits)
    have split: "mset (filter (\<lambda>n. ?inc n = 0) seen)
        = (if inc a - 1 = 0 then {#a#} else {#}) + mset (filter (\<lambda>n. inc n = 0) seen)"
    proof -
      have "mset (filter (\<lambda>n. ?inc n = 0) xs)
          = (if inc a - 1 = 0 \<and> a \<in> set xs then {#a#} else {#}) + mset (filter (\<lambda>n. inc n = 0) xs)"
        if "distinct xs" for xs
        using that pos by (induction xs) auto
      then show ?thesis using assms True by simp
    qed
    have "heap_has key seen ?inc ?q"
      using Cons.prems(2) unfolding heap_has_def mset_map split by (simp add: elems_push)
    from Cons.IH [OF le this] obtain inc' q' where
      "release push key seen ms ?inc ?q = (Inr (inc', q') :: 'e sort_error + _)" "heap_has key seen inc' q'"
      "\<forall>m \<in> set seen. inc' m = ?inc m - count_list ms m" by blast
    with True pos show ?thesis by (intro exI [of _ inc'] exI [of _ q']) auto
  qed
qed

lemma heap_has_pop:
  assumes "distinct seen" and "heap_has key seen inc q" and "elems q = add_mset v (elems q1)"
  shows "fst v \<in> set seen \<and> inc (fst v) = 0 \<and> v = (fst v, key (fst v))
    \<and> heap_has key (remove1 (fst v) seen) inc q1"
proof -
  have "v \<in># elems q" using assms(3) by simp
  then have n: "fst v \<in> set seen" "inc (fst v) = 0" "v = (fst v, key (fst v))"
    using assms(2) by (auto simp: heap_has_def)
  let ?f = "filter (\<lambda>m. inc m = 0)"
  have f: "?f (remove1 (fst v) seen) = remove1 (fst v) (?f seen)"
    using n(2) by (simp add: filter_remove1)
  have mem: "fst v \<in># mset (?f seen)" using n by simp
  have "add_mset v (elems q1) = image_mset (\<lambda>n. (n, key n)) (add_mset (fst v) (mset (?f seen) - {#fst v#}))"
    using assms(2,3) mem by (simp add: heap_has_def)
  then have "elems q1 = image_mset (\<lambda>n. (n, key n)) (mset (?f seen) - {#fst v#})"
    using n(3) by simp
  then show ?thesis using n f by (simp add: heap_has_def)
qed

lemma topsort_loop_result:
  assumes links: "links_ok g"
  shows "distinct seen \<Longrightarrow> \<forall>m \<in> set seen. inc m = open_prevs g seen m \<Longrightarrow>
    heap_has key seen inc q \<Longrightarrow>
    \<exists>order rest. distinct rest
      \<and> topological g key (set seen) order (set rest)
      \<and> (\<forall>emit acc. topsort_loop pop push g key emit q inc seen acc
           = Some (case emit_all emit order acc of
               Inl e \<Rightarrow> Inl (EmitError (e :: 'e)) | Inr (a :: 'a) \<Rightarrow> Inr (a, rest)))"
proof (induction "length seen" arbitrary: seen inc q rule: less_induct)
  case less
  show ?case
  proof (cases "pop q")
    case None
    then have "filter (\<lambda>n. inc n = 0) seen = []"
      using pop_None less.prems(3) by (simp add: heap_has_def)
    then have "\<forall>m \<in> set seen. open_prevs g seen m \<noteq> 0"
      using less.prems(2) by (auto simp: filter_empty_conv)
    then have "topological g key (set seen) [] (set seen)"
      by (auto simp: topological_def open_prevs_0)
    moreover have "topsort_loop pop push g key emit q inc seen acc = Some (Inr (acc, seen))"
      for emit :: "nat \<Rightarrow> 'a \<Rightarrow> 'e + 'a" and acc
      using None by (subst topsort_loop.simps) simp
    ultimately show ?thesis
      using less.prems(1) by (intro exI [where x = "[] :: nat list"] exI [where x = seen]) simp
  next
    case (Some vq)
    obtain v q1 where vq: "vq = (v, q1)" by (cases vq)
    define n where "n = fst v"
    define seen1 where "seen1 = remove1 n seen"
    have pop: "elems q = add_mset v (elems q1)" "\<forall>y \<in># elems q. o_cmp (snd y) (snd v) \<noteq> Greater"
      using pop_Some Some vq by simp_all
    have n: "n \<in> set seen" "inc n = 0" "v = (n, key n)" and h1: "heap_has key seen1 inc q1"
      using heap_has_pop [OF less.prems(1,3) pop(1)] by (simp_all add: n_def seen1_def)
    have d1: "distinct seen1" and s1: "set seen1 = set seen - {n}"
      using less.prems(1) by (simp_all add: seen1_def)
    have max: "o_cmp (key m) (key n) \<noteq> Greater" if "ready g (set seen) {} m" for m
    proof -
      have "m \<in> set seen" "inc m = 0"
        using that less.prems(2) open_prevs_0 [of g seen m] by (auto simp: ready_def)
      then have "(m, key m) \<in># elems q" using less.prems(3) by (auto simp: heap_has_def)
      with pop(2) n(3) show ?thesis by fastforce
    qed
    have ready: "ready g (set seen) {} n"
      using n less.prems(2) open_prevs_0 [of g seen n] by (auto simp: ready_def)
    have cnt: "inc m = open_prevs g seen1 m + count_list (nnext g n) m" if "m \<in> set seen1" for m
      using that less.prems(1,2) n(1) s1 open_prevs_remove [of seen n g m] links_ok_count [OF links]
      by (simp add: seen1_def)
    then have le: "\<forall>m \<in> set seen1. count_list (nnext g n) m \<le> inc m" by simp
    obtain inc2 q2 where rel:
      "release push key seen1 (nnext g n) inc q1 = (Inr (inc2, q2) :: 'e sort_error + _)"
      "heap_has key seen1 inc2 q2" "\<forall>m \<in> set seen1. inc2 m = inc m - count_list (nnext g n) m"
      using release_result [OF d1 le h1] by blast
    have "length seen1 < length seen"
      using n(1) length_pos_if_in_set [of n seen] by (simp add: seen1_def length_remove1)
    moreover have "\<forall>m \<in> set seen1. inc2 m = open_prevs g seen1 m" using rel(3) cnt by simp
    ultimately obtain order rest where ih: "distinct rest"
      "topological g key (set seen1) order (set rest)"
      "\<forall>emit acc. topsort_loop pop push g key emit q2 inc2 seen1 acc
           = Some (case emit_all emit order acc of
               Inl e \<Rightarrow> Inl (EmitError (e :: 'e)) | Inr (a :: 'a) \<Rightarrow> Inr (a, rest))"
      using less.hyps [of seen1 inc2 q2] d1 rel(2) by blast
    have "topological g key (set seen) (n # order) (set rest)"
      using topological_step [OF ready] max ih(2) s1 by simp
    moreover have "topsort_loop pop push g key emit q inc seen acc
        = Some (case emit_all emit (n # order) acc of
            Inl e \<Rightarrow> Inl (EmitError (e :: 'e)) | Inr (a :: 'a) \<Rightarrow> Inr (a, rest))" for emit acc
      using Some vq rel(1) ih(3)
      by (subst topsort_loop.simps) (simp add: n_def seen1_def split: sum.splits)
    ultimately show ?thesis using ih(1) by blast
  qed
qed

text \<open>
  The whole sort: the nodes sorted are exactly those from which a selected node can be reached
  along the edges, and they come in topological order.
\<close>

lemma topsort_result:
  assumes links: "links_ok g" and d: "distinct start"
  shows "\<exists>todo order rest.
    set todo = {m. \<exists>s \<in> set start. (m, s) \<in> {(p, n). p \<in> set (nprev g n)}\<^sup>*}
    \<and> distinct rest
    \<and> topological g key (set todo) order (set rest)
    \<and> (\<forall>emit acc. topsort pop push new_heap g key emit start acc
         = Some (case emit_all emit order acc of
             Inl e \<Rightarrow> Inl (EmitError (e :: 'e)) | Inr (a :: 'a) \<Rightarrow> Inr (a, rest)))"
proof -
  obtain inc seen where c: "collect g (rev start) (\<lambda>_. 0) start = (inc, seen)"
    by (cases "collect g (rev start) (\<lambda>_. 0) start")
  have "collecting g start (rev start) (\<lambda>_. 0) start"
    using d by (auto simp: collecting_def)
  then have fin: "collecting g start [] inc seen" using c by (rule collect_result)
  let ?E = "{(p, n). p \<in> set (nprev g n)}"
  have closed: "m \<in> set seen" if "(m, s) \<in> ?E\<^sup>*" "s \<in> set seen" for m s
    using that
  proof (induction rule: converse_rtrancl_induct)
    case (step y z)
    then have "z \<in> set seen" by simp
    with step.hyps(1) fin show ?case by (auto simp: collecting_def)
  qed
  have todo: "set seen = {m. \<exists>s \<in> set start. (m, s) \<in> ?E\<^sup>*}"
    using fin closed by (auto simp: collecting_def)
  have inc: "\<forall>m \<in> set seen. inc m = open_prevs g seen m"
  proof
    fix m assume m: "m \<in> set seen"
    then have "set (nprev g m) \<subseteq> set seen" using fin by (auto simp: collecting_def)
    then have "filter (\<lambda>p. p \<in> set seen) (nprev g m) = nprev g m" by (auto simp: filter_id_conv)
    with m fin show "inc m = open_prevs g seen m" by (simp add: collecting_def open_prevs_def)
  qed
  let ?q = "fold (\<lambda>n q. if inc n = 0 then push (n, key n) q else q) seen new_heap"
  have "heap_has key seen inc ?q"
    by (simp add: heap_has_def elems_fold_push elems_new)
  moreover have "distinct seen" using fin by (simp add: collecting_def)
  ultimately obtain order rest where r: "distinct rest"
    "topological g key (set seen) order (set rest)"
    "\<forall>emit acc. topsort_loop pop push g key emit ?q inc seen acc
       = Some (case emit_all emit order acc of
           Inl e \<Rightarrow> Inl (EmitError (e :: 'e)) | Inr (a :: 'a) \<Rightarrow> Inr (a, rest))"
    using topsort_loop_result [OF links] inc by blast
  show ?thesis
    using todo r c by (intro exI [of _ seen] exI [of _ order] exI [of _ rest]) (simp add: topsort_def)
qed

end

section \<open>What topological order gives\<close>

text \<open>Left-over nodes mean a cycle among them; without cycles everything is sorted.\<close>

lemma left_over_cycle:
  assumes fin: "finite lo" and ne: "lo \<noteq> {}"
    and prev: "\<forall>m \<in> lo. set (nprev g m) \<inter> lo \<noteq> {}"
  shows "\<exists>n \<in> lo. (n, n) \<in> {(p, m). p \<in> set (nprev g m)}\<^sup>+"
proof (rule ccontr)
  let ?E = "{(p, m). p \<in> set (nprev g m)}"
  let ?R = "?E \<inter> lo \<times> lo"
  assume "\<not> (\<exists>n \<in> lo. (n, n) \<in> ?E\<^sup>+)"
  moreover have "n \<in> lo \<and> (n, n) \<in> ?E\<^sup>+" if n: "(n, n) \<in> ?R\<^sup>+" for n
  proof
    obtain z where "(n, z) \<in> ?R" using tranclD [OF n] by blast
    then show "n \<in> lo" by blast
    show "(n, n) \<in> ?E\<^sup>+" using n by (rule trancl_mono) blast
  qed
  ultimately have "acyclic ?R" unfolding acyclic_def by blast
  moreover have "finite ?R" using fin by (intro finite_Int) auto
  ultimately have wf: "wf ?R" by (intro finite_acyclic_wf)
  obtain m0 where "m0 \<in> lo" using ne by blast
  then obtain m where "m \<in> lo" "\<And>p. (p, m) \<in> ?R \<Longrightarrow> p \<notin> lo"
    using wfE_min [OF wf, of m0 lo] by blast
  then show False using prev by blast
qed

text \<open>A predecessor still to be sorted comes first.\<close>

lemma topological_before:
  assumes "topological g key todo order lo" and "order = xs @ n # ys"
    and "p \<in> set (nprev g n)" and "p \<in> todo"
  shows "p \<in> set xs"
  using topological_split [OF assms(1,2)] assms(3,4) by (auto simp: ready_def)

section \<open>Properties\<close>

text \<open>C1: the deployment order is a topological order. Sorting the nodes from which a selected
  node can be reached never underflows a predecessor count and always returns; it emits
  distinct nodes, each after every predecessor it has among the nodes to sort and each with
  the greatest (type order, id) key of those that could be emitted at that point, and each
  node left over has a predecessor left over.\<close>

theorem topsort_topological:
  assumes "links_ok g" and "distinct start"
  shows "\<exists>todo order rest.
    set todo = {m. \<exists>s \<in> set start. (m, s) \<in> {(p, n). p \<in> set (nprev g n)}\<^sup>*}
    \<and> topological g key (set todo) order (set rest)
    \<and> (\<forall>emit acc. topsort heap_pop heap_push [] g key emit start acc
         = Some (case emit_all emit order acc of
             Inl e \<Rightarrow> Inl (EmitError (e :: 'e)) | Inr (a :: 'a) \<Rightarrow> Inr (a, rest)))"
  using heap.topsort_result [OF assms] by blast

theorem topsort_topological_witness:
  "\<exists>todo order rest.
    set todo = {m. \<exists>s \<in> set [1 :: nat]. (m, s) \<in> {(p, n). p \<in> set (nprev
        (add_edge 0 1 [Sentinal \<lparr>b_prev = [], b_next = [], b_id = 5\<rparr> [],
                       Sentinal \<lparr>b_prev = [], b_next = [], b_id = 6\<rparr> []]) n)}\<^sup>*}
    \<and> topological (add_edge 0 1 [Sentinal \<lparr>b_prev = [], b_next = [], b_id = 5\<rparr> [],
                       Sentinal \<lparr>b_prev = [], b_next = [], b_id = 6\<rparr> []])
        (\<lambda>n. (0, int n)) (set todo) order (set rest)"
proof -
  let ?g = "[Sentinal \<lparr>b_prev = [], b_next = [], b_id = 5\<rparr> [],
             Sentinal \<lparr>b_prev = [], b_next = [], b_id = 6\<rparr> []]"
  have "links_ok ?g"
    by (auto simp: links_ok_def nprev_def nnext_def nth_Cons split: nat.splits)
  then have "links_ok (add_edge 0 1 ?g)" by (rule links_ok_add_edge) simp_all
  moreover have "distinct [1 :: nat]" by simp
  ultimately show ?thesis
    using topsort_topological [of "add_edge 0 1 ?g" "[1]" "\<lambda>n. (0, int n)"] by blast
qed

text \<open>C3: when no node to be sorted lies on a cycle of dependencies, every one of them is
  emitted: the result of the sort is that of emitting all nodes in order, and nothing is left
  over.\<close>

theorem topsort_complete:
  assumes "links_ok g" and "distinct start"
    and "\<And>n. (n, n) \<notin> {(p, m). p \<in> set (nprev g m)}\<^sup>+"
  shows "\<exists>order. distinct order
    \<and> set order = {m. \<exists>s \<in> set start. (m, s) \<in> {(p, n). p \<in> set (nprev g n)}\<^sup>*}
    \<and> (\<forall>emit acc. topsort heap_pop heap_push [] g key emit start acc
         = Some (case emit_all emit order acc of
             Inl e \<Rightarrow> Inl (EmitError (e :: 'e)) | Inr (a :: 'a) \<Rightarrow> Inr (a, [])))"
proof -
  obtain todo order rest where r:
    "set todo = {m. \<exists>s \<in> set start. (m, s) \<in> {(p, n). p \<in> set (nprev g n)}\<^sup>*}"
    "topological g key (set todo) order (set rest)"
    "\<forall>emit acc. topsort heap_pop heap_push [] g key emit start acc
         = Some (case emit_all emit order acc of
             Inl e \<Rightarrow> Inl (EmitError (e :: 'e)) | Inr (a :: 'a) \<Rightarrow> Inr (a, rest))"
    using heap.topsort_result [OF assms(1,2)] by blast
  have "rest = []"
    using left_over_cycle [of "set rest" g] r(2) assms(3) by (auto simp: topological_def)
  with r show ?thesis by (intro exI [of _ order]) (auto simp: topological_def)
qed

theorem topsort_complete_witness:
  "\<exists>order. distinct order
    \<and> set order = {m. \<exists>s \<in> set [0 :: nat]. (m, s) \<in> {(p, n). p \<in> set (nprev
        [Sentinal \<lparr>b_prev = [], b_next = [], b_id = 5\<rparr> []] n)}\<^sup>*}"
proof -
  let ?g = "[Sentinal \<lparr>b_prev = [], b_next = [], b_id = 5\<rparr> []]"
  have e: "nprev ?g n = []" for n by (simp add: nprev_def)
  have "links_ok ?g" by (simp add: links_ok_def nprev_def nnext_def)
  then show ?thesis
    using topsort_complete [of ?g "[0]" "\<lambda>n. (0, 0)"] by (auto simp: e)
qed

end
