(* ===== verification/Cycle_Search.thy ===== *)
theory Cycle_Search
  imports Topsort
begin

text \<open>
  What happens when nodes are left over by the sort (\<open>setup_deployment_host\<close> in
  \<open>src/bin/server/deployment.rs\<close>): from each of them a breadth-first search along \<open>next\<close>,
  with two stacks as its queue and a map of back pointers, looks for a way back to itself,
  and one of the cycles found is reported. Proved: the searches end, the back pointers always
  lead back (the \<open>Internal error\<close> is unreachable), what is reported is a cycle, a cycle is
  found whenever the seed lies on one, so \<open>No cycle found\<close> is unreachable as well. The choice
  among the cycles replaces the one kept by a strictly longer one, so it is a longest one that
  is reported, although the source calls it the shortest.
\<close>

type_synonym back_map = "node_ref \<rightharpoonup> node_ref"

datatype cycle_error = InternalError | NoCycleFound

text \<open>The edges out of a node: a way back to the seed ends the search, new nodes are queued.\<close>

fun scan_next ::
  "node_ref \<Rightarrow> node_ref \<Rightarrow> node_ref list \<Rightarrow> back_map \<Rightarrow> node_ref list
    \<Rightarrow> bool \<times> back_map \<times> node_ref list" where
  "scan_next seed n [] bk s2 = (False, bk, s2)"
| "scan_next seed n (m # ms) bk s2 =
     (if m = seed then (True, bk, s2)
      else if bk m = None then scan_next seed n ms (bk(m \<mapsto> n)) (m # s2)
      else scan_next seed n ms bk s2)"

text \<open>The loop over the queue \<open>s1\<close>, refilled from \<open>s2\<close>; the tops are the heads of the lists.
  The result is the node at which the cycle closes, with the back pointers.\<close>

partial_function (option) bfs_loop ::
  "arena \<Rightarrow> node_ref \<Rightarrow> back_map \<Rightarrow> node_ref list \<Rightarrow> node_ref list
    \<Rightarrow> (back_map \<times> node_ref) option option" where
  "bfs_loop g seed bk s1 s2 =
     (case (if s1 = [] then (rev s2, []) else (s1, s2)) of
        (t, t2) \<Rightarrow>
          (case t of
             [] \<Rightarrow> Some None
           | n # t1 \<Rightarrow>
               (case scan_next seed n (nnext g n) bk t2 of
                  (cycle_found, bk', t2') \<Rightarrow>
                    if cycle_found then Some (Some (bk', n))
                    else bfs_loop g seed bk' t1 t2')))"

declare bfs_loop.simps [code]

definition bfs_init :: "arena \<Rightarrow> node_ref \<Rightarrow> back_map \<times> node_ref list" where
  "bfs_init g seed =
     fold (\<lambda>n (bk, s2). (bk(n \<mapsto> seed), n # s2)) (nnext g seed) (Map.empty, [])"

text \<open>Following the back pointers from the closing node to the seed.\<close>

partial_function (option) walk_back ::
  "back_map \<Rightarrow> node_ref \<Rightarrow> node_ref \<Rightarrow> node_ref list \<Rightarrow> (cycle_error + node_ref list) option" where
  "walk_back bk seed n cycle =
     (if n = seed then Some (Inr (cycle @ [seed]))
      else case bk n of
             None \<Rightarrow> Some (Inl InternalError)
           | Some m \<Rightarrow> walk_back bk seed m (cycle @ [n]))"

declare walk_back.simps [code]

definition seed_cycle :: "arena \<Rightarrow> node_ref \<Rightarrow> (cycle_error + node_ref list option) option" where
  "seed_cycle g seed =
     (case bfs_init g seed of
        (bk, s2) \<Rightarrow>
          (case bfs_loop g seed bk [] s2 of
             None \<Rightarrow> None
           | Some None \<Rightarrow> Some (Inr None)
           | Some (Some (bk', n)) \<Rightarrow>
               map_option (map_sum id Some) (walk_back bk' seed n [seed])))"

text \<open>\<open>if !shortest_cycle.map(|v| v.len() >= cycle.len()).unwrap_or_default()\<close>.\<close>

definition keep_cycle :: "node_ref list option \<Rightarrow> node_ref list \<Rightarrow> node_ref list option" where
  "keep_cycle shortest cycle =
     (if \<not> (case shortest of None \<Rightarrow> False | Some v \<Rightarrow> length v \<ge> length cycle)
      then Some cycle else shortest)"

fun search_seeds ::
  "arena \<Rightarrow> node_ref list \<Rightarrow> node_ref list option \<Rightarrow> (cycle_error + node_ref list option) option" where
  "search_seeds g [] shortest = Some (Inr shortest)"
| "search_seeds g (seed # seeds) shortest =
     (case seed_cycle g seed of
        None \<Rightarrow> None
      | Some (Inl e) \<Rightarrow> Some (Inl e)
      | Some (Inr None) \<Rightarrow> search_seeds g seeds shortest
      | Some (Inr (Some c)) \<Rightarrow> search_seeds g seeds (keep_cycle shortest c))"

definition find_cycle :: "arena \<Rightarrow> node_ref list \<Rightarrow> (cycle_error + node_ref list) option" where
  "find_cycle g seen =
     map_option (\<lambda>r. case r of
         Inl e \<Rightarrow> Inl e
       | Inr None \<Rightarrow> Inl NoCycleFound
       | Inr (Some c) \<Rightarrow> Inr c) (search_seeds g seen None)"

section \<open>Cycles and back pointers\<close>

text \<open>
  A reported cycle: it starts and ends with the same node and each node is a successor of the
  one after it (the back pointers list the cycle against the direction of the edges).
\<close>

definition is_cycle :: "arena \<Rightarrow> node_ref list \<Rightarrow> bool" where
  "is_cycle g c =
     (2 \<le> length c \<and> hd c = last c \<and> successively (\<lambda>x y. x \<in> set (nnext g y)) c)"

inductive back_chain :: "arena \<Rightarrow> back_map \<Rightarrow> node_ref \<Rightarrow> node_ref \<Rightarrow> bool"
  for g :: arena and bk :: back_map and seed :: node_ref where
  chain_seed: "bk n = Some seed \<Longrightarrow> n \<in> set (nnext g seed) \<Longrightarrow> back_chain g bk seed n"
| chain_step: "bk n = Some m \<Longrightarrow> n \<in> set (nnext g m) \<Longrightarrow> back_chain g bk seed m \<Longrightarrow>
    back_chain g bk seed n"

lemma back_chain_dom: "back_chain g bk seed n \<Longrightarrow> bk n \<noteq> None"
  by (induction rule: back_chain.induct) simp_all

lemma back_chain_upd:
  "back_chain g bk seed n \<Longrightarrow> bk m = None \<Longrightarrow> back_chain g (bk(m \<mapsto> x)) seed n"
proof (induction rule: back_chain.induct)
  case (chain_seed n)
  then show ?case by (intro back_chain.chain_seed) auto
next
  case (chain_step n k)
  then show ?case by (intro back_chain.chain_step [of _ n k]) auto
qed

text \<open>The walk returns, and what it appends is a path along back pointers.\<close>

lemma walk_back_result:
  assumes "back_chain g bk seed n"
  shows "cyc \<noteq> [] \<Longrightarrow> successively (\<lambda>x y. x \<in> set (nnext g y)) (cyc @ [n]) \<Longrightarrow>
    \<exists>c. walk_back bk seed n cyc = Some (Inr c) \<and> hd c = hd cyc \<and> last c = seed
      \<and> length cyc < length c \<and> successively (\<lambda>x y. x \<in> set (nnext g y)) c"
  using assms
proof (induction arbitrary: cyc rule: back_chain.induct)
  case (chain_seed n)
  show ?case
  proof (cases "n = seed")
    case True
    with chain_seed.prems show ?thesis
      by (subst walk_back.simps) simp
  next
    case False
    have "walk_back bk seed n cyc = Some (Inr ((cyc @ [n]) @ [seed]))"
      using False chain_seed.hyps by (simp add: walk_back.simps)
    with chain_seed show ?thesis by (simp add: successively_append_iff)
  qed
next
  case (chain_step n m)
  show ?case
  proof (cases "n = seed")
    case True
    with chain_step.prems show ?thesis
      by (subst walk_back.simps) simp
  next
    case False
    have "successively (\<lambda>x y. x \<in> set (nnext g y)) ((cyc @ [n]) @ [m])"
      using chain_step.prems(2) chain_step.hyps(2) by (subst successively_append_iff) simp
    then obtain c where "walk_back bk seed m (cyc @ [n]) = Some (Inr c)" "hd c = hd (cyc @ [n])"
      "last c = seed" "length (cyc @ [n]) < length c" "successively (\<lambda>x y. x \<in> set (nnext g y)) c"
      using chain_step.IH [of "cyc @ [n]"] by auto
    with False chain_step.hyps(1) chain_step.prems(1) show ?thesis
      by (intro exI [of _ c]) (subst walk_back.simps, simp)
  qed
qed

section \<open>The search\<close>

definition all_nexts :: "arena \<Rightarrow> node_ref set" where
  "all_nexts g = (\<Union>n < length g. set (nnext g n))"

lemma finite_all_nexts [simp]: "finite (all_nexts g)"
  by (simp add: all_nexts_def)

lemma nnext_subset_all: "set (nnext g n) \<subseteq> all_nexts g"
  by (cases "n < length g") (auto simp: all_nexts_def nnext_def)

text \<open>
  The invariant of the search: back pointers lead to the seed, queued nodes have one, the
  seed's successors have one, and a node with a bk pointer that is no longer queued has been
  scanned without finding the seed.
\<close>

definition bfs_inv :: "arena \<Rightarrow> node_ref \<Rightarrow> back_map \<Rightarrow> node_ref set \<Rightarrow> bool" where
  "bfs_inv g seed bk queued =
     ((\<forall>n \<in> dom bk. back_chain g bk seed n) \<and> queued \<subseteq> dom bk
      \<and> set (nnext g seed) \<subseteq> dom bk \<and> dom bk \<subseteq> all_nexts g
      \<and> (\<forall>n \<in> dom bk - queued. set (nnext g n) \<subseteq> dom bk \<and> seed \<notin> set (nnext g n)))"

lemma scan_next_found:
  "scan_next seed n ms bk s2 = (True, bk', s2') \<Longrightarrow> seed \<in> set ms"
  by (induction seed n ms bk s2 rule: scan_next.induct) (auto split: if_splits)

lemma scan_next_chains:
  assumes "scan_next seed n ms bk s2 = (b, bk', s2')"
    and "\<forall>k \<in> dom bk. back_chain g bk seed k" and "set ms \<subseteq> set (nnext g n)"
    and "n \<in> dom bk"
  shows "(\<forall>k \<in> dom bk'. back_chain g bk' seed k) \<and> dom bk \<subseteq> dom bk'"
  using assms
proof (induction seed n ms bk s2 rule: scan_next.induct)
  case (2 seed n m ms bk s2)
  show ?case
  proof (cases "m \<noteq> seed \<and> bk m = None")
    case True
    let ?bk = "bk(m \<mapsto> n)"
    have up: "back_chain g ?bk seed k" if "k \<in> dom bk" for k
      using that "2.prems"(2) True by (auto intro: back_chain_upd)
    have "back_chain g ?bk seed m"
      by (rule back_chain.chain_step [of _ m n]) (use "2.prems"(3,4) up in auto)
    with up have chains: "\<forall>k \<in> dom ?bk. back_chain g ?bk seed k"
      unfolding dom_fun_upd by simp
    have ne: "m \<noteq> seed" "bk m = None" using True by simp_all
    have scan: "scan_next seed n ms ?bk (m # s2) = (b, bk', s2')" using "2.prems"(1) True by simp
    have "set ms \<subseteq> set (nnext g n)" "n \<in> dom ?bk" using "2.prems"(3,4) by auto
    from "2.IH"(1) [OF ne scan chains this]
    have r: "\<forall>k \<in> dom bk'. back_chain g bk' seed k" "dom ?bk \<subseteq> dom bk'" by blast+
    have "dom bk \<subseteq> dom ?bk" by auto
    with r show ?thesis by blast
  next
    case False
    show ?thesis
    proof (cases "m = seed")
      case True
      with "2.prems" show ?thesis by auto
    next
      case ne: False
      with False have some: "bk m \<noteq> None" by simp
      with ne have s: "scan_next seed n ms bk s2 = (b, bk', s2')" using "2.prems"(1) by auto
      have "set ms \<subseteq> set (nnext g n)" using "2.prems"(3) by simp
      from "2.IH"(2) [OF ne some s "2.prems"(2) this "2.prems"(4)] show ?thesis .
    qed
  qed
qed auto

lemma scan_next_new:
  "scan_next seed n ms bk s2 = (b, bk', s2') \<Longrightarrow>
   \<exists>new. s2' = new @ s2 \<and> distinct new \<and> set new = dom bk' - dom bk
     \<and> dom bk' \<subseteq> dom bk \<union> set ms
     \<and> (\<not> b \<longrightarrow> set ms \<subseteq> dom bk' \<and> seed \<notin> set ms) \<and> dom bk \<subseteq> dom bk'"
proof (induction seed n ms bk s2 rule: scan_next.induct)
  case (2 seed n m ms bk s2)
  show ?case
  proof (cases "m \<noteq> seed \<and> bk m = None")
    case True
    then have ne: "m \<noteq> seed" "bk m = None" by simp_all
    have dom: "dom (bk(m \<mapsto> n)) = insert m (dom bk)" by simp
    have "scan_next seed n ms (bk(m \<mapsto> n)) (m # s2) = (b, bk', s2')" using "2.prems" ne by simp
    from "2.IH"(1) [OF ne this, unfolded dom]
    obtain new where new: "s2' = new @ m # s2" "distinct new"
      "set new = dom bk' - insert m (dom bk)" "dom bk' \<subseteq> insert m (dom bk) \<union> set ms"
      "\<not> b \<longrightarrow> set ms \<subseteq> dom bk' \<and> seed \<notin> set ms" "insert m (dom bk) \<subseteq> dom bk'"
      by blast
    have "m \<notin> dom bk" using ne by auto
    then have "distinct (new @ [m])" "set (new @ [m]) = dom bk' - dom bk"
      using new(2,3,6) by auto
    with new ne show ?thesis by (intro exI [of _ "new @ [m]"]) auto
  next
    case False
    show ?thesis
    proof (cases "m = seed")
      case True
      with "2.prems" show ?thesis by auto
    next
      case ne: False
      with False "2.prems" have s: "scan_next seed n ms bk s2 = (b, bk', s2')"
        and m: "m \<in> dom bk" by auto
      from "2.IH"(2) [OF ne _ s] ne False obtain new where "s2' = new @ s2" "distinct new"
        "set new = dom bk' - dom bk" "dom bk' \<subseteq> dom bk \<union> set ms"
        "\<not> b \<longrightarrow> set ms \<subseteq> dom bk' \<and> seed \<notin> set ms" "dom bk \<subseteq> dom bk'" by auto
      with m ne show ?thesis by (intro exI [of _ new]) auto
    qed
  qed
qed auto

lemma bfs_inv_init:
  assumes "bfs_init g seed = (bk, s2)"
  shows "bfs_inv g seed bk (set s2)"
proof -
  have "fold (\<lambda>n (bk, s2). (bk(n \<mapsto> seed), n # s2)) ns (b, s)
      = (\<lambda>n. if n \<in> set ns then Some seed else b n, rev ns @ s)" for ns and b :: back_map and s
    by (induction ns arbitrary: b s) (auto simp: fun_eq_iff)
  with assms have b: "bk = (\<lambda>n. if n \<in> set (nnext g seed) then Some seed else None)"
    "s2 = rev (nnext g seed)"
    by (simp_all add: bfs_init_def)
  then have "dom bk = set (nnext g seed)" by (auto simp: domIff split: if_splits)
  moreover have "back_chain g bk seed n" if "n \<in> set (nnext g seed)" for n
    using that b(1) by (intro chain_seed) simp_all
  ultimately show ?thesis
    using b(2) nnext_subset_all by (auto simp: bfs_inv_def)
qed

lemma bfs_inv_step:
  assumes inv: "bfs_inv g seed bk (insert n Q)"
    and scan: "scan_next seed n (nnext g n) bk s2 = (False, bk', s2')"
    and Q: "set s2 \<subseteq> Q"
  shows "bfs_inv g seed bk' (Q \<union> set s2')"
proof -
  obtain new where new: "s2' = new @ s2" "set new = dom bk' - dom bk"
    "dom bk' \<subseteq> dom bk \<union> set (nnext g n)" "set (nnext g n) \<subseteq> dom bk'"
    "seed \<notin> set (nnext g n)" "dom bk \<subseteq> dom bk'"
    using scan_next_new [OF scan] by auto
  have "\<forall>k \<in> dom bk'. back_chain g bk' seed k"
    using scan_next_chains [OF scan, of g] inv by (auto simp: bfs_inv_def)
  moreover have "set (nnext g k) \<subseteq> dom bk' \<and> seed \<notin> set (nnext g k)"
    if "k \<in> dom bk' - (Q \<union> set s2')" for k
  proof (cases "k = n")
    case True
    with new show ?thesis by simp
  next
    case False
    have "k \<in> dom bk - insert n Q" using that new(1,2) False by auto
    then have "set (nnext g k) \<subseteq> dom bk \<and> seed \<notin> set (nnext g k)"
      using inv by (auto simp: bfs_inv_def)
    with new(6) show ?thesis by blast
  qed
  moreover have sub: "Q \<subseteq> dom bk" "set (nnext g seed) \<subseteq> dom bk" "dom bk \<subseteq> all_nexts g"
    using inv unfolding bfs_inv_def insert_subset by blast+
  moreover have "set s2' \<subseteq> dom bk'"
    using new(1,2) Q sub(1) new(6) by (metis Diff_subset Un_subset_iff set_append subset_trans)
  then have "Q \<union> set s2' \<subseteq> dom bk'" "set (nnext g seed) \<subseteq> dom bk'"
    using sub new(6) by (metis Un_least subset_trans)+
  moreover have "dom bk' \<subseteq> all_nexts g"
    using sub(3) new(3) nnext_subset_all [of g n] by (metis Un_least subset_trans)
  ultimately show ?thesis by (simp add: bfs_inv_def)
qed

text \<open>The search ends, and says what it found.\<close>

lemma bfs_loop_result:
  "bfs_inv g seed bk (set s1 \<union> set s2) \<Longrightarrow>
   (\<exists>bk' n. bfs_loop g seed bk s1 s2 = Some (Some (bk', n))
      \<and> back_chain g bk' seed n \<and> seed \<in> set (nnext g n))
   \<or> (bfs_loop g seed bk s1 s2 = Some None
      \<and> (\<exists>bk'. bfs_inv g seed bk' {}))"
proof (induction "card (all_nexts g - dom bk) + length s1 + length s2"
    arbitrary: bk s1 s2 rule: less_induct)
  case less
  obtain t t2 where t: "(if s1 = [] then (rev s2, []) else (s1, s2)) = (t, t2)"
    by (cases "if s1 = [] then (rev s2, []) else (s1, s2)")
  have q: "set t \<union> set t2 = set s1 \<union> set s2" "length t + length t2 = length s1 + length s2"
    using t by (auto split: if_splits)
  show ?case
  proof (cases t)
    case Nil
    with t have "s1 = []" "s2 = []" by (auto split: if_splits)
    with less.prems show ?thesis by (intro disjI2) (subst bfs_loop.simps, auto)
  next
    case (Cons n t1)
    have inv: "bfs_inv g seed bk (insert n (set t1 \<union> set t2))"
      using less.prems q(1) Cons by (simp add: Un_assoc)
    then have n: "n \<in> dom bk" by (auto simp: bfs_inv_def)
    obtain b bk' t2' where scan: "scan_next seed n (nnext g n) bk t2 = (b, bk', t2')"
      by (metis prod_cases3)
    have eq: "bfs_loop g seed bk s1 s2 =
        (if b then Some (Some (bk', n)) else bfs_loop g seed bk' t1 t2')"
      using t Cons scan by (subst bfs_loop.simps) simp
    show ?thesis
    proof (cases b)
      case True
      have "\<forall>k \<in> dom bk'. back_chain g bk' seed k" "dom bk \<subseteq> dom bk'"
        using scan_next_chains [OF scan, of g] inv n by (auto simp: bfs_inv_def)
      then have "back_chain g bk' seed n" using n by blast
      moreover have "seed \<in> set (nnext g n)" using scan_next_found [of seed n "nnext g n" bk t2] scan True by simp
      ultimately show ?thesis using eq True by simp
    next
      case False
      obtain new where new: "t2' = new @ t2" "distinct new" "set new = dom bk' - dom bk"
        "dom bk' \<subseteq> dom bk \<union> set (nnext g n)" "dom bk \<subseteq> dom bk'"
        using scan_next_new [OF scan] by auto
      have inv': "bfs_inv g seed bk' (set t1 \<union> set t2')"
        using bfs_inv_step [OF inv, of t2 bk' t2'] scan False new(1) by (simp add: Un_ac)
      have "all_nexts g - dom bk = (all_nexts g - dom bk') \<union> set new"
        using new(3-5) nnext_subset_all [of g n] by blast
      moreover have "(all_nexts g - dom bk') \<inter> set new = {}" using new(3) by blast
      ultimately have "card (all_nexts g - dom bk) = card (all_nexts g - dom bk') + length new"
        using new(2) by (simp add: card_Un_disjoint distinct_card)
      then have "card (all_nexts g - dom bk') + length t1 + length t2'
          < card (all_nexts g - dom bk) + length s1 + length s2"
        using new(1) q(2) Cons by simp
      from less.hyps [OF this inv'] show ?thesis using eq False by simp
    qed
  qed
qed

lemma seed_cycle_result:
  "(\<exists>c. seed_cycle g seed = Some (Inr (Some c)) \<and> is_cycle g c)
   \<or> (seed_cycle g seed = Some (Inr None)
      \<and> (seed, seed) \<notin> {(n, m). m \<in> set (nnext g n)}\<^sup>+)"
proof -
  obtain bk s2 where init: "bfs_init g seed = (bk, s2)" by (cases "bfs_init g seed")
  have "bfs_inv g seed bk (set [] \<union> set s2)" using bfs_inv_init [OF init] by simp
  from bfs_loop_result [OF this] show ?thesis
  proof (elim disjE exE conjE)
    fix bk' n
    assume bfs: "bfs_loop g seed bk [] s2 = Some (Some (bk', n))"
      and chain: "back_chain g bk' seed n" and close: "seed \<in> set (nnext g n)"
    obtain c where "walk_back bk' seed n [seed] = Some (Inr c)" "hd c = seed" "last c = seed"
      "1 < length c" "successively (\<lambda>x y. x \<in> set (nnext g y)) c"
      using walk_back_result [OF chain, of "[seed]"] close by auto
    then show ?thesis using init bfs by (simp add: seed_cycle_def is_cycle_def)
  next
    fix bk'
    let ?E = "{(n, m). m \<in> set (nnext g n)}"
    assume bfs: "bfs_loop g seed bk [] s2 = Some None" and inv: "bfs_inv g seed bk' {}"
    have "m \<in> dom bk'" if "(seed, m) \<in> ?E\<^sup>+" for m
      using that
    proof (induction rule: trancl_induct)
      case (base y)
      then show ?case using inv by (auto simp: bfs_inv_def)
    next
      case (step y z)
      then have "set (nnext g y) \<subseteq> dom bk'" using inv by (auto simp: bfs_inv_def)
      with step.hyps(2) show ?case by auto
    qed
    note reach = this
    have no_seed: "seed \<notin> set (nnext g n)" if "n \<in> dom bk'" for n
      using inv that by (auto simp: bfs_inv_def)
    have "(seed, seed) \<notin> ?E\<^sup>+"
    proof
      assume cyc: "(seed, seed) \<in> ?E\<^sup>+"
      from cyc have "\<exists>y \<in> dom bk'. (y, seed) \<in> ?E"
      proof (cases rule: tranclE)
        case base
        with reach [OF cyc] show ?thesis by blast
      next
        case (step y)
        with reach [OF step(1)] show ?thesis by blast
      qed
      with no_seed show False by blast
    qed
    then show ?thesis using init bfs by (simp add: seed_cycle_def)
  qed
qed

text \<open>Over all seeds: the result is a cycle of one of them, at least as long as any other.\<close>

definition longest :: "arena \<Rightarrow> node_ref list option \<Rightarrow> node_ref list \<Rightarrow> node_ref list option \<Rightarrow> bool" where
  "longest g shortest seeds r =
     ((\<forall>c. shortest = Some c \<longrightarrow> (\<exists>d. r = Some d \<and> length c \<le> length d))
      \<and> (\<forall>s c. s \<in> set seeds \<and> seed_cycle g s = Some (Inr (Some c))
            \<longrightarrow> (\<exists>d. r = Some d \<and> length c \<le> length d)))"

lemma longest_keep:
  assumes l: "longest g (keep_cycle shortest c) seeds r"
    and c: "seed_cycle g s = Some (Inr (Some c))"
  shows "longest g shortest (s # seeds) r"
proof -
  obtain k where k: "keep_cycle shortest c = Some k" "length c \<le> length k"
    "\<forall>d. shortest = Some d \<longrightarrow> length d \<le> length k"
  proof (cases shortest)
    case None
    then show ?thesis using that [of c] by (simp add: keep_cycle_def)
  next
    case (Some a)
    then show ?thesis using that [of a] that [of c]
      by (cases "length c \<le> length a") (simp_all add: keep_cycle_def)
  qed
  obtain e where e: "r = Some e" "length k \<le> length e" using l k(1) by (auto simp: longest_def)
  show ?thesis unfolding longest_def
  proof (intro conjI allI impI)
    fix d assume "shortest = Some d"
    then have "length d \<le> length e" using k(3) e(2) by (metis le_trans)
    then show "\<exists>d'. r = Some d' \<and> length d \<le> length d'" using e(1) by simp
  next
    fix s' d
    assume s': "s' \<in> set (s # seeds) \<and> seed_cycle g s' = Some (Inr (Some d))"
    show "\<exists>d'. r = Some d' \<and> length d \<le> length d'"
    proof (cases "s' = s")
      case True
      then have "d = c" using s' c by simp
      then show ?thesis using k(2) e by simp
    next
      case False
      then have "s' \<in> set seeds" using s' by simp
      then show ?thesis using s' l unfolding longest_def by blast
    qed
  qed
qed

lemma search_seeds_result:
  "(\<forall>c. shortest = Some c \<longrightarrow> is_cycle g c) \<Longrightarrow>
   \<exists>r. search_seeds g seeds shortest = Some (Inr r)
     \<and> (\<forall>c. r = Some c \<longrightarrow> is_cycle g c)
     \<and> longest g shortest seeds r"
proof (induction seeds arbitrary: shortest)
  case (Cons s seeds)
  show ?case
  proof (cases "\<exists>c. seed_cycle g s = Some (Inr (Some c))")
    case True
    then obtain c where c: "seed_cycle g s = Some (Inr (Some c))" "is_cycle g c"
      using seed_cycle_result [of g s] by auto
    have "\<forall>d. keep_cycle shortest c = Some d \<longrightarrow> is_cycle g d"
      using c(2) Cons.prems by (auto simp: keep_cycle_def)
    from Cons.IH [OF this] obtain r where r:
      "search_seeds g seeds (keep_cycle shortest c) = Some (Inr r)"
      "\<forall>c. r = Some c \<longrightarrow> is_cycle g c" "longest g (keep_cycle shortest c) seeds r"
      by blast
    have "longest g shortest (s # seeds) r" by (rule longest_keep [OF r(3) c(1)])
    with r(1,2) c(1) show ?thesis by simp
  next
    case False
    then have none: "seed_cycle g s = Some (Inr None)" using seed_cycle_result [of g s] by auto
    from Cons.IH [OF Cons.prems] obtain r where r: "search_seeds g seeds shortest = Some (Inr r)"
      "\<forall>c. r = Some c \<longrightarrow> is_cycle g c" "longest g shortest seeds r"
      by blast
    have "longest g shortest (s # seeds) r" 
      unfolding longest_def
    proof (intro conjI allI impI)
      fix d assume "shortest = Some d"
      then show "\<exists>d'. r = Some d' \<and> length d \<le> length d'"
        using r(3) by (simp add: longest_def)
    next
      fix s' d assume s': "s' \<in> set (s # seeds) \<and> seed_cycle g s' = Some (Inr (Some d))"
      then have "s' \<in> set seeds" using none by auto
      then show "\<exists>d'. r = Some d' \<and> length d \<le> length d'"
        using r(3) s' unfolding longest_def by blast
    qed
    with none r show ?thesis by simp
  qed
qed (simp add: longest_def)

lemma trancl_next_prev:
  assumes "links_ok g"
  shows "{(n, m). m \<in> set (nnext g n)} = {(p, m). p \<in> set (nprev g m)}"
  using links_ok_next_prev [OF assms] by auto

section \<open>Properties\<close>

lemma find_cycle_left_over:
  assumes "links_ok g" and "seen \<noteq> []"
    and "\<forall>m \<in> set seen. set (nprev g m) \<inter> set seen \<noteq> {}"
  shows "\<exists>c. find_cycle g seen = Some (Inr c) \<and> is_cycle g c"
proof -
  obtain n where n: "n \<in> set seen" "(n, n) \<in> {(n, m). m \<in> set (nnext g n)}\<^sup>+"
    using left_over_cycle [of "set seen" g] assms trancl_next_prev [OF assms(1)] by auto
  then obtain c where c: "seed_cycle g n = Some (Inr (Some c))"
    using seed_cycle_result [of g n] by auto
  obtain r where r: "search_seeds g seen None = Some (Inr r)" "\<forall>c. r = Some c \<longrightarrow> is_cycle g c"
    "longest g None seen r"
    using search_seeds_result [of None g seen] by auto
  then obtain d where "r = Some d" using n(1) c unfolding longest_def by blast
  with r show ?thesis by (auto simp: find_cycle_def)
qed

text \<open>C4: when nodes are left over by the sort, the search for a cycle returns one: it ends, the
  back pointers never lead nowhere, a cycle exists and is found, and what is reported starts
  and ends with the same node and follows dependency edges.\<close>

theorem left_over_cycle_reported:
  assumes "links_ok g" and "seen \<noteq> []"
    and "\<forall>m \<in> set seen. set (nprev g m) \<inter> set seen \<noteq> {}"
  shows "\<exists>c. find_cycle g seen = Some (Inr c) \<and> is_cycle g c"
  using assms by (rule find_cycle_left_over)

theorem left_over_cycle_reported_witness:
  "\<exists>c. find_cycle [Sentinal \<lparr>b_prev = [1], b_next = [1], b_id = 5\<rparr> [],
                   Sentinal \<lparr>b_prev = [0], b_next = [0], b_id = 6\<rparr> []] [0, 1] = Some (Inr c)
     \<and> is_cycle [Sentinal \<lparr>b_prev = [1], b_next = [1], b_id = 5\<rparr> [],
                   Sentinal \<lparr>b_prev = [0], b_next = [0], b_id = 6\<rparr> []] c"
proof (rule left_over_cycle_reported)
  show "links_ok [Sentinal \<lparr>b_prev = [1], b_next = [1], b_id = 5\<rparr> [],
                  Sentinal \<lparr>b_prev = [0], b_next = [0], b_id = 6\<rparr> []]"
    by (auto simp: links_ok_def nprev_def nnext_def nth_Cons split: nat.splits)
qed (simp_all add: nprev_def)

text \<open>Further result: of the cycles found the one reported is a longest one: it is at least as long as the
  cycle found from any left-over node.\<close>

theorem reported_cycle_longest:
  assumes "find_cycle g seen = Some (Inr c)" and "s \<in> set seen"
    and "seed_cycle g s = Some (Inr (Some d))"
  shows "length d \<le> length c"
proof -
  obtain r where r: "search_seeds g seen None = Some (Inr r)"
    "longest g None seen r"
    using search_seeds_result [of None g seen] by auto
  then obtain e where "r = Some e" "length d \<le> length e"
    using assms(2,3) unfolding longest_def by blast
  with r(1) assms(1) show ?thesis by (simp add: find_cycle_def)
qed

text \<open>The concrete case: of a cycle of two nodes and one of three, the longer is reported.\<close>

definition two_cycles :: arena where
  "two_cycles =
     [Sentinal \<lparr>b_prev = [1], b_next = [1], b_id = 10\<rparr> [],
      Sentinal \<lparr>b_prev = [0], b_next = [0], b_id = 11\<rparr> [],
      Sentinal \<lparr>b_prev = [4], b_next = [3], b_id = 12\<rparr> [],
      Sentinal \<lparr>b_prev = [2], b_next = [4], b_id = 13\<rparr> [],
      Sentinal \<lparr>b_prev = [3], b_next = [2], b_id = 14\<rparr> []]"

lemma seed_cycle_two: "seed_cycle two_cycles 0 = Some (Inr (Some [0, 1, 0]))"
  by (simp add: seed_cycle_def bfs_init_def two_cycles_def nnext_def bfs_loop.simps walk_back.simps)

lemma seed_cycle_three: "seed_cycle two_cycles 2 = Some (Inr (Some [2, 4, 3, 2]))"
  by (simp add: seed_cycle_def bfs_init_def two_cycles_def nnext_def bfs_loop.simps walk_back.simps)

lemma find_two_cycles: "find_cycle two_cycles [0, 2] = Some (Inr [2, 4, 3, 2])"
  by (simp add: find_cycle_def seed_cycle_two seed_cycle_three keep_cycle_def)

theorem reported_cycle_longest_witness:
  "length [0, 1, 0 :: nat] \<le> length [2, 4, 3, 2 :: nat]
   \<and> find_cycle two_cycles [0, 2] = Some (Inr [2, 4, 3, 2])"
  using reported_cycle_longest [OF find_two_cycles, of 0] seed_cycle_two find_two_cycles by simp

end
