(* ===== verification/Ordered_Json.thy ===== *)
theory Ordered_Json
  imports Json
begin

text \<open>
  The order on JSON values that the deployment uses to sort trigger contents
  (\<open>src/bin/server/ordered_json.rs\<close>). The source promises a total order; that is proved by
  flattening a value into a list of tokens whose lexicographic order is \<open>json_cmp\<close>. The
  order tells objects apart by the order of their entries while \<open>==\<close> does not, so it is
  finer than equality.
\<close>

section \<open>The comparison\<close>

fun to_rank :: "json \<Rightarrow> nat" where
  "to_rank JNull = 0"
| "to_rank (JBool _) = 1"
| "to_rank (JNumber _) = 2"
| "to_rank (JString _) = 3"
| "to_rank (JArray _) = 4"
| "to_rank (JObject _) = 5"

fun no_rank :: "num_enum \<Rightarrow> nat" where
  "no_rank (F64 _) = 0"
| "no_rank (U64 _) = 1"
| "no_rank (I64 _) = 2"

fun num_cmp :: "num_enum \<Rightarrow> num_enum \<Rightarrow> ordering" where
  "num_cmp (F64 l) (F64 r) =
     (case f64_partial_cmp l r of
        Some c \<Rightarrow> c
      | None \<Rightarrow> cmp_lin (f64_is_nan l) (f64_is_nan r))"
| "num_cmp (U64 l) (U64 r) = cmp_lin l r"
| "num_cmp (I64 l) (I64 r) = cmp_lin l r"
| "num_cmp l r = cmp_lin (no_rank l) (no_rank r)"

fun json_cmp :: "json \<Rightarrow> json \<Rightarrow> ordering"
  and vec_json_cmp :: "json list \<Rightarrow> json list \<Rightarrow> ordering"
  and map_json_cmp :: "value_map \<Rightarrow> value_map \<Rightarrow> ordering"
where
  "json_cmp (JBool l) (JBool r) = cmp_lin l r"
| "json_cmp (JNumber l) (JNumber r) = num_cmp l r"
| "json_cmp (JString l) (JString r) = str_cmp l r"
| "json_cmp (JArray l) (JArray r) = vec_json_cmp l r"
| "json_cmp (JObject l) (JObject r) = map_json_cmp l r"
| "json_cmp l r = cmp_lin (to_rank l) (to_rank r)"
| "vec_json_cmp (l # ls) (r # rs) = then_with (json_cmp l r) (vec_json_cmp ls rs)"
| "vec_json_cmp ls rs = cmp_lin (length ls) (length rs)"
| "map_json_cmp ((lk, lv) # ls) ((rk, rv) # rs) =
     then_with (str_cmp lk rk) (then_with (json_cmp lv rv) (map_json_cmp ls rs))"
| "map_json_cmp ls rs = cmp_lin (length ls) (length rs)"

section \<open>Tokens\<close>

datatype token =
    T_End
  | T_Null
  | T_Bool bool
  | T_Num num_enum
  | T_Str string
  | T_Arr
  | T_Obj

fun tok_rank :: "token \<Rightarrow> nat" where
  "tok_rank T_End = 0"
| "tok_rank T_Null = 1"
| "tok_rank (T_Bool _) = 2"
| "tok_rank (T_Num _) = 3"
| "tok_rank (T_Str _) = 4"
| "tok_rank T_Arr = 5"
| "tok_rank T_Obj = 6"

fun tok_cmp :: "token \<Rightarrow> token \<Rightarrow> ordering" where
  "tok_cmp (T_Bool a) (T_Bool b) = cmp_lin a b"
| "tok_cmp (T_Num a) (T_Num b) = num_cmp a b"
| "tok_cmp (T_Str a) (T_Str b) = str_cmp a b"
| "tok_cmp a b = cmp_lin (tok_rank a) (tok_rank b)"

fun enc :: "json \<Rightarrow> token list"
  and enc_list :: "json list \<Rightarrow> token list"
  and enc_map :: "value_map \<Rightarrow> token list"
where
  "enc JNull = [T_Null]"
| "enc (JBool b) = [T_Bool b]"
| "enc (JNumber n) = [T_Num n]"
| "enc (JString s) = [T_Str s]"
| "enc (JArray a) = T_Arr # enc_list a"
| "enc (JObject m) = T_Obj # enc_map m"
| "enc_list [] = [T_End]"
| "enc_list (v # vs) = enc v @ enc_list vs"
| "enc_map [] = [T_End]"
| "enc_map ((k, v) # m) = T_Str k # enc v @ enc_map m"

section \<open>The number order\<close>

text \<open>Numbers ordered by constructor rank, then by value: the key that shows it.\<close>

definition num_key :: "num_enum \<Rightarrow> nat \<times> nat \<times> rat \<times> nat \<times> int" where
  "num_key n = (case n of
      F64 f \<Rightarrow> (0, fst (f64_rank f), snd (f64_rank f), 0, 0)
    | U64 u \<Rightarrow> (1, 0, 0, u, 0)
    | I64 i \<Rightarrow> (2, 0, 0, 0, i))"

definition key_cmp ::
  "nat \<times> nat \<times> rat \<times> nat \<times> int \<Rightarrow> nat \<times> nat \<times> rat \<times> nat \<times> int \<Rightarrow> ordering" where
  "key_cmp = (\<lambda>(a, b, c, d, e) (a', b', c', d', e').
     then_with (cmp_lin a a') (then_with (cmp_lin b b') (then_with (cmp_lin c c')
       (then_with (cmp_lin d d') (cmp_lin e e')))))"

lemma cmp_lin_same [simp]: "cmp_lin a a = Equal"
  by (simp add: cmp_lin_def)

lemma num_cmp_key: "num_cmp a b = key_cmp (num_key a) (num_key b)"
proof (cases a)
  case (F64 f)
  then show ?thesis
  proof (cases b)
    case (F64 g)
    then show ?thesis
      using \<open>a = F64 f\<close>
      by (cases f; cases g) (auto simp: num_key_def key_cmp_def f64_partial_cmp_def cmp_lin_def)
  qed (simp_all add: num_key_def key_cmp_def cmp_lin_def)
qed (cases b; simp add: num_key_def key_cmp_def cmp_lin_def)+

lemmas cmp_lin_then_trans = then_with_trans [OF lin.total_cmp_axioms]

lemma key_cmp_trans: "key_cmp x y \<noteq> Greater \<Longrightarrow> key_cmp y z \<noteq> Greater \<Longrightarrow> key_cmp x z \<noteq> Greater"
proof (cases x; cases y; cases z)
  fix a b c d e a' b' c' d' e' a'' b'' c'' d'' e''
  assume xyz: "x = (a, b, c, d, e)" "y = (a', b', c', d', e')" "z = (a'', b'', c'', d'', e'')"
  assume "key_cmp x y \<noteq> Greater" "key_cmp y z \<noteq> Greater"
  then show "key_cmp x z \<noteq> Greater"
    unfolding xyz key_cmp_def prod.case
    by - ((erule (1) cmp_lin_then_trans)+, erule (1) lin.cmp_trans)
qed

lemma num_key_inj: "num_key a = num_key b \<Longrightarrow> a = b"
proof (cases a; cases b)
  fix f g
  assume "num_key a = num_key b" "a = F64 f" "b = F64 g"
  then show ?thesis by (cases f; cases g) (auto simp: num_key_def)
qed (auto simp: num_key_def)

lemma key_cmp_swap: "key_cmp y x = ord_reverse (key_cmp x y)"
  by (cases x; cases y) (auto simp: key_cmp_def cmp_lin_def)

lemma key_cmp_eq: "key_cmp x y = Equal \<Longrightarrow> x = y"
  by (cases x; cases y) (auto simp: key_cmp_def cmp_lin_iff)

interpretation num: strict_cmp num_cmp
proof
  fix x y z :: num_enum
  show "num_cmp x x = Equal"
    by (simp add: num_cmp_key key_cmp_def split: prod.splits)
  show "num_cmp y x = ord_reverse (num_cmp x y)"
    unfolding num_cmp_key by (rule key_cmp_swap)
  show "num_cmp x y \<noteq> Greater \<Longrightarrow> num_cmp y z \<noteq> Greater \<Longrightarrow> num_cmp x z \<noteq> Greater"
    unfolding num_cmp_key by (rule key_cmp_trans)
  show "num_cmp x y = Equal \<Longrightarrow> x = y"
    unfolding num_cmp_key by (intro num_key_inj key_cmp_eq)
qed

section \<open>The token order\<close>

lemma tok_cmp_rank: "tok_rank a \<noteq> tok_rank b \<Longrightarrow> tok_cmp a b = cmp_lin (tok_rank a) (tok_rank b)"
  by (cases a; cases b) simp_all

lemma tok_cmp_le_rank: "tok_cmp a b \<noteq> Greater \<Longrightarrow> tok_rank a \<le> tok_rank b"
  by (cases "tok_rank a = tok_rank b") (auto simp: tok_cmp_rank cmp_lin_def split: if_splits)

lemma tok_cmp_same_rank_trans:
  assumes "tok_rank x = tok_rank y" and "tok_rank y = tok_rank z"
    and "tok_cmp x y \<noteq> Greater" and "tok_cmp y z \<noteq> Greater"
  shows "tok_cmp x z \<noteq> Greater"
proof (cases x)
  case (T_Bool a)
  with assms obtain b c where "y = T_Bool b" "z = T_Bool c" by (cases y; cases z) simp_all
  with T_Bool assms(3,4) lin.cmp_trans [of a b c] show ?thesis by simp
next
  case (T_Num a)
  with assms obtain b c where "y = T_Num b" "z = T_Num c" by (cases y; cases z) simp_all
  with T_Num assms(3,4) num.cmp_trans [of a b c] show ?thesis by simp
next
  case (T_Str a)
  with assms obtain b c where "y = T_Str b" "z = T_Str c" by (cases y; cases z) simp_all
  with T_Str assms(3,4) str.cmp_trans [of a b c] show ?thesis by simp
qed (use assms in \<open>cases z; simp\<close>)+

lemma tok_cmp_swap: "tok_cmp y x = ord_reverse (tok_cmp x y)"
proof (cases "tok_rank x = tok_rank y")
  case False
  then show ?thesis by (simp add: tok_cmp_rank cmp_lin_def)
next
  case True
  show ?thesis
  proof (cases x)
    case (T_Bool a)
    with True obtain b where "y = T_Bool b" by (cases y) simp_all
    with T_Bool cmp_lin_swap [of b a] show ?thesis by simp
  next
    case (T_Num a)
    with True obtain b where "y = T_Num b" by (cases y) simp_all
    with T_Num num.cmp_swap [of b a] show ?thesis by simp
  next
    case (T_Str a)
    with True obtain b where "y = T_Str b" by (cases y) simp_all
    with T_Str str.cmp_swap [of b a] show ?thesis by simp
  qed (use True in \<open>cases y; simp\<close>)+
qed

interpretation tok: strict_cmp tok_cmp
proof
  fix x y z :: token
  show "tok_cmp x x = Equal"
    by (cases x) (simp_all add: num.cmp_refl str.cmp_refl)
  show "tok_cmp y x = ord_reverse (tok_cmp x y)"
    by (rule tok_cmp_swap)
  show "tok_cmp x y \<noteq> Greater \<Longrightarrow> tok_cmp y z \<noteq> Greater \<Longrightarrow> tok_cmp x z \<noteq> Greater"
  proof -
    assume le: "tok_cmp x y \<noteq> Greater" "tok_cmp y z \<noteq> Greater"
    then have r: "tok_rank x \<le> tok_rank y" "tok_rank y \<le> tok_rank z" by (simp_all add: tok_cmp_le_rank)
    show ?thesis
    proof (cases "tok_rank x = tok_rank z")
      case True
      with r le show ?thesis by (intro tok_cmp_same_rank_trans [of x y z]) simp_all
    next
      case False
      with r show ?thesis by (simp add: tok_cmp_rank cmp_lin_def)
    qed
  qed
  show "tok_cmp x y = Equal \<Longrightarrow> x = y"
    by (cases x; cases y; simp add: cmp_lin_def num.cmp_eq str.cmp_eq split: if_splits)
qed

interpretation toks: total_cmp "list_cmp tok_cmp"
  by (rule total_cmp_list) (rule tok.total_cmp_axioms)

section \<open>The JSON order is the token order\<close>

lemma enc_nonempty: "\<exists>t ts. enc v = t # ts \<and> tok_rank t = Suc (to_rank v)"
  by (cases v) simp_all

lemma then_with_assoc: "then_with (then_with a b) c = then_with a (then_with b c)"
  by (cases a) simp_all

lemma enc_differ:
  "to_rank a \<noteq> to_rank b \<Longrightarrow>
   list_cmp tok_cmp (enc a @ xs) (enc b @ ys) = cmp_lin (to_rank a) (to_rank b)"
proof -
  assume ne: "to_rank a \<noteq> to_rank b"
  obtain t ts u us where e: "enc a = t # ts" "tok_rank t = Suc (to_rank a)"
    "enc b = u # us" "tok_rank u = Suc (to_rank b)"
    using enc_nonempty by metis
  then have "tok_cmp t u = cmp_lin (to_rank a) (to_rank b)"
    using ne by (simp add: tok_cmp_rank cmp_lin_def)
  then show ?thesis using e ne by (auto simp: cmp_lin_def)
qed

lemma enc_end:
  "list_cmp tok_cmp (T_End # xs) (enc v @ ys) = Less"
  "list_cmp tok_cmp (enc v @ ys) (T_End # xs) = Greater"
  by (cases v; simp add: cmp_lin_def)+

lemma to_rank_0 [simp]: "to_rank v = 0 \<longleftrightarrow> v = JNull" "0 = to_rank v \<longleftrightarrow> v = JNull"
  by (cases v; simp)+

lemma enc_null:
  "list_cmp tok_cmp (T_Null # xs) (enc v @ ys)
     = (if v = JNull then list_cmp tok_cmp xs ys else Less)"
  "list_cmp tok_cmp (enc v @ ys) (T_Null # xs)
     = (if v = JNull then list_cmp tok_cmp ys xs else Greater)"
  by (cases v; simp add: cmp_lin_def)+

lemma enc_list_end:
  "vs \<noteq> [] \<Longrightarrow> list_cmp tok_cmp (T_End # xs) (enc_list vs @ ys) = Less"
  "vs \<noteq> [] \<Longrightarrow> list_cmp tok_cmp (enc_list vs @ ys) (T_End # xs) = Greater"
  by (cases vs; simp add: enc_end)+

lemma enc_map_end:
  "m \<noteq> [] \<Longrightarrow> list_cmp tok_cmp (T_End # xs) (enc_map m @ ys) = Less"
  "m \<noteq> [] \<Longrightarrow> list_cmp tok_cmp (enc_map m @ ys) (T_End # xs) = Greater"
  by (cases m; auto simp: cmp_lin_def)+

lemma enc_cmp:
  "list_cmp tok_cmp (enc a @ xs) (enc b @ ys) = then_with (json_cmp a b) (list_cmp tok_cmp xs ys)"
  "list_cmp tok_cmp (enc_list as @ xs) (enc_list bs @ ys)
     = then_with (vec_json_cmp as bs) (list_cmp tok_cmp xs ys)"
  "list_cmp tok_cmp (enc_map m @ xs) (enc_map n @ ys)
     = then_with (map_json_cmp m n) (list_cmp tok_cmp xs ys)"
proof (induction a b and as bs and m n arbitrary: xs ys and xs ys and xs ys
    rule: json_cmp_vec_json_cmp_map_json_cmp.induct)
qed (simp_all add: then_with_assoc enc_end enc_null enc_list_end enc_map_end cmp_lin_def)

lemma json_cmp_tokens: "json_cmp a b = list_cmp tok_cmp (enc a) (enc b)"
  using enc_cmp(1) [of a "[]" b "[]"] by (cases "json_cmp a b") simp_all

lemma json_cmp_eq_aux:
  "json_cmp a b = Equal \<Longrightarrow> a = b"
  "vec_json_cmp as bs = Equal \<Longrightarrow> as = bs"
  "map_json_cmp m n = Equal \<Longrightarrow> m = n"
  by (induction a b and as bs and m n rule: json_cmp_vec_json_cmp_map_json_cmp.induct)
    (auto simp: cmp_lin_def num.cmp_eq_iff str.cmp_eq_iff split: if_splits)

interpretation json: strict_cmp json_cmp
proof
  fix x y z :: json
  show "json_cmp x x = Equal" unfolding json_cmp_tokens by (rule toks.cmp_refl)
  show "json_cmp y x = ord_reverse (json_cmp x y)"
    unfolding json_cmp_tokens by (rule toks.cmp_swap)
  show "json_cmp x y \<noteq> Greater \<Longrightarrow> json_cmp y z \<noteq> Greater \<Longrightarrow> json_cmp x z \<noteq> Greater"
    unfolding json_cmp_tokens by (rule toks.cmp_trans)
  show "json_cmp x y = Equal \<Longrightarrow> x = y" by (rule json_cmp_eq_aux)
qed

section \<open>Properties\<close>

text \<open>C33: \<open>json_cmp\<close> is a total order on JSON values: a value compares equal to itself and to
  nothing else, swapping the arguments reverses the answer, and the order is transitive.\<close>

theorem json_cmp_total_order:
  "(json_cmp a b = Equal \<longleftrightarrow> a = b)
   \<and> json_cmp b a = ord_reverse (json_cmp a b)
   \<and> (json_cmp a b \<noteq> Greater \<and> json_cmp b c \<noteq> Greater \<longrightarrow> json_cmp a c \<noteq> Greater)"
  using json.cmp_eq_iff json.cmp_swap json.cmp_trans by blast

theorem json_cmp_total_order_witness:
  "json_cmp (JArray [JNull]) (JArray [JNull, JBool True]) = Less
   \<and> json_cmp (JArray [JNull]) (JObject []) \<noteq> Greater"
  using json_cmp_total_order [of "JArray [JNull]" "JArray [JNull, JBool True]" "JObject []"]
  by (simp add: cmp_lin_def)

text \<open>The order is finer than equality: two objects with the same entries in another order
  are \<open>==\<close> and yet compare unequal, while values that compare equal are \<open>==\<close>.\<close>

theorem json_cmp_finer_than_eq:
  "(\<exists>a b. json_wf a \<and> json_wf b \<and> json_eq a b \<and> json_cmp a b = Less)
   \<and> (\<forall>a b. json_wf a \<and> json_cmp a b = Equal \<longrightarrow> json_eq a b)"
proof
  let ?a = "JObject [(''a'', JNull), (''b'', JNull)]"
  let ?b = "JObject [(''b'', JNull), (''a'', JNull)]"
  have "json_wf ?a \<and> json_wf ?b \<and> json_eq ?a ?b \<and> json_cmp ?a ?b = Less"
    by (simp add: str_cmp_def char_cmp_def cmp_lin_def)
  then show "\<exists>a b. json_wf a \<and> json_wf b \<and> json_eq a b \<and> json_cmp a b = Less" by blast
  show "\<forall>a b. json_wf a \<and> json_cmp a b = Equal \<longrightarrow> json_eq a b"
    using json.cmp_eq json_eq_refl by blast
qed

theorem json_cmp_finer_than_eq_witness:
  "json_eq (JArray [JNull]) (JArray [JNull])"
  using json_cmp_finer_than_eq json.cmp_refl [of "JArray [JNull]"] by auto

end
