(* ===== verification/Host_Diff.thy ===== *)
theory Host_Diff
  imports Topsort Cycle_Search Ordered_Json
begin

text \<open>
  What is to be deployed on one host (the second half of \<open>setup_deployment_host\<close> in
  \<open>src/bin/server/deployment.rs\<close>): which nodes of the dependency graph are selected, how a node
  becomes a deployment object, how the objects are compared with what was deployed before,
  what is removed, and which triggers fire. The rows of the table \<open>deployments\<close> are a list of
  (name, old content) pairs with distinct names, the content of the hash map \<open>old_content\<close>.
\<close>

section \<open>Selecting the nodes\<close>

record host_env =
  he_objects :: "int \<rightharpoonup> object"
  he_types :: "int \<rightharpoonup> itype"
  he_host :: int
  he_host_object :: object
  he_redeploy :: bool

definition host_full :: "int option \<Rightarrow> int \<Rightarrow> bool" where
  "host_full deploy_id host_id = (case deploy_id of None \<Rightarrow> True | Some v \<Rightarrow> v = host_id)"

fun selected :: "int option \<Rightarrow> int \<Rightarrow> arena \<Rightarrow> node_pair \<Rightarrow> bool" where
  "selected None host_id g (node, sentinal) = True"
| "selected (Some d) host_id g (node, sentinal) =
     (case g ! node of
        Sentinal _ _ \<Rightarrow> False
      | Normal _ _ _ _ _ _ type_id \<Rightarrow>
          host_full (Some d) host_id \<or> b_id (node_base (g ! sentinal)) = d \<or> type_id = d)"

definition select_nodes ::
  "int option \<Rightarrow> int \<Rightarrow> arena \<Rightarrow> (string \<times> node_pair) list \<Rightarrow> node_ref list" where
  "select_nodes deploy_id host_id g nodes =
     map (snd \<circ> snd) (filter (selected deploy_id host_id g \<circ> snd) nodes)"

text \<open>The key of a node in the priority queue: the deploy order of its object's type, and its id.\<close>

definition type_order :: "host_env \<Rightarrow> int \<Rightarrow> int" where
  "type_order env i =
     opt_or (Option.bind (Option.bind (he_objects env i) (\<lambda>v. he_types env (o_type v)))
              ty_deploy_order) 0"

definition node_key :: "host_env \<Rightarrow> arena \<Rightarrow> node_ref \<Rightarrow> int \<times> int" where
  "node_key env g n = (type_order env (nid g n), nid g n)"

section \<open>Emitting a node\<close>

record old_content =
  oc_content :: deploy_content
  oc_type :: int
  oc_title :: string

type_synonym old_rows = "(string \<times> old_content) list"

text \<open>\<open>HashMap::insert\<close> and \<open>HashMap::remove\<close> on the rows.\<close>

definition rows_remove :: "string \<Rightarrow> old_rows \<Rightarrow> old_rows" where
  "rows_remove k rows = filter (\<lambda>r. fst r \<noteq> k) rows"

definition rows_insert :: "string \<Rightarrow> old_content \<Rightarrow> old_rows \<Rightarrow> old_rows" where
  "rows_insert k v rows = (k, v) # rows_remove k rows"

datatype host_error = MissingType | MissingScript

record emit_state =
  es_old :: old_rows
  es_out :: "deployment_object list"

definition new_object ::
  "host_env \<Rightarrow> dag_base \<Rightarrow> string \<Rightarrow> deployment_trigger list \<Rightarrow> string \<Rightarrow> string \<Rightarrow> value_map
    \<Rightarrow> int \<Rightarrow> string \<Rightarrow> deployment_object" where
  "new_object env base name triggers title script content type_id type_name =
     \<lparr>do_index = 0, do_host = he_host env, do_host_name = o_name (he_host_object env),
      do_title = title, do_name = name, do_enabled = True, do_status = OS_Normal,
      do_action = OA_Add, do_script = script, do_prev_script = Some '''',
      do_next_content = Some content, do_prev_content = None, do_id = Some (b_id base),
      do_type_id = type_id, do_type_name = type_name, do_triggers = triggers,
      do_deployment_order = type_order env (b_id base)\<rparr>"

definition with_old :: "bool \<Rightarrow> old_content option \<Rightarrow> deployment_object \<Rightarrow> deployment_object" where
  "with_old redeploy old ob =
     (case old of
        Some v \<Rightarrow>
          if redeploy then ob
          else ob\<lparr>do_prev_content := dc_content (oc_content v),
                  do_prev_script := dc_script (oc_content v), do_action := OA_Modify\<rparr>
      | None \<Rightarrow> ob)"

fun emit_dag_node :: "host_env \<Rightarrow> dag_node \<Rightarrow> emit_state \<Rightarrow> host_error + emit_state" where
  "emit_dag_node env (Sentinal base name) st = Inr st"
| "emit_dag_node env (Normal base name triggers title script content type_id) st =
     (if he_objects env (b_id base) = None then Inr st
      else case he_types env type_id of
        None \<Rightarrow> Inl MissingType
      | Some type_content \<Rightarrow>
          (case he_objects env type_id of
             None \<Rightarrow> Inl MissingType
           | Some type_object \<Rightarrow>
               if ty_kind type_content \<in> {Some K_Host, Some K_Root, Some K_Collection, Some K_Hostvar}
               then Inr st
               else case script of
                 None \<Rightarrow> Inl MissingScript
               | Some s \<Rightarrow>
                   Inr (st\<lparr>es_old := rows_remove name (es_old st),
                           es_out := es_out st
                             @ [with_old (he_redeploy env) (map_of (es_old st) name)
                                  (new_object env base name triggers title s content type_id
                                     (o_name type_object))]\<rparr>)))"

definition emit_node :: "host_env \<Rightarrow> arena \<Rightarrow> node_ref \<Rightarrow> emit_state \<Rightarrow> host_error + emit_state" where
  "emit_node env g n st = emit_dag_node env (g ! n) st"

section \<open>Comparing with what is deployed\<close>

text \<open>\<open>Option<ValueMap>\<close> is compared with \<open>==\<close>.\<close>

fun content_eq :: "value_map option \<Rightarrow> value_map option \<Rightarrow> bool" where
  "content_eq None None = True"
| "content_eq (Some a) (Some b) = value_map_eq a b"
| "content_eq _ _ = False"

definition deb_packages :: "value_map \<Rightarrow> bool" where
  "deb_packages content =
     (case obj_get ''debPackages'' content of
        None \<Rightarrow> True
      | Some v \<Rightarrow> opt_or (as_bool v) False)"

definition changed :: "deployment_object \<Rightarrow> bool" where
  "changed ob =
     (\<not> content_eq (do_next_content ob) (do_prev_content ob)
      \<or> Some (do_script ob) \<noteq> do_prev_script ob)"

definition row_cmp :: "string \<times> old_content \<Rightarrow> string \<times> old_content \<Rightarrow> ordering" where
  "row_cmp l r =
     then_with
       (cmp_lin (dc_deployment_order (oc_content (snd l))) (dc_deployment_order (oc_content (snd r))))
       (str_cmp (fst l) (fst r))"

definition removal_object :: "host_env \<Rightarrow> string \<times> old_content \<Rightarrow> string \<Rightarrow> deployment_object" where
  "removal_object env row script =
     (let c = oc_content (snd row)
      in \<lparr>do_index = 0, do_host = he_host env, do_host_name = o_name (he_host_object env),
          do_title = oc_title (snd row), do_name = fst row, do_enabled = True,
          do_status = OS_Normal, do_action = OA_Remove, do_script = script,
          do_prev_script = None, do_next_content = None, do_prev_content = dc_content c,
          do_id = Some (dc_object c), do_type_id = oc_type (snd row),
          do_type_name = dc_type_name c, do_triggers = dc_triggers c,
          do_deployment_order = dc_deployment_order c\<rparr>)"

fun removals :: "host_env \<Rightarrow> old_rows \<Rightarrow> host_error + deployment_object list" where
  "removals env [] = Inr []"
| "removals env (row # rows) =
     (case dc_script (oc_content (snd row)) of
        None \<Rightarrow> Inl MissingScript
      | Some s \<Rightarrow> res_bind (removals env rows) (\<lambda>obs. Inr (removal_object env row s # obs)))"

definition host_objects ::
  "host_env \<Rightarrow> bool \<Rightarrow> emit_state \<Rightarrow> host_error + deployment_object list" where
  "host_objects env full st =
     (let obs = (if deb_packages (o_content (he_host_object env)) then es_out st
                 else retain (\<lambda>ob. do_type_id ob \<noteq> PACKAGE_ID) (es_out st));
          obs = retain changed obs
      in if full
         then res_bind (removals env (sort_by row_cmp (es_old st))) (\<lambda>rem. Inr (obs @ rem))
         else Inr obs)"

section \<open>Triggers\<close>

definition trigger_cmp :: "deployment_trigger \<Rightarrow> deployment_trigger \<Rightarrow> ordering" where
  "trigger_cmp l r =
     then_with (then_with (cmp_lin (tr_type_id l) (tr_type_id r)) (str_cmp (tr_script l) (tr_script r)))
       (map_json_cmp (tr_content l) (tr_content r))"

definition same_trigger :: "deployment_trigger \<Rightarrow> deployment_trigger \<Rightarrow> bool" where
  "same_trigger l r =
     (tr_type_id l = tr_type_id r \<and> tr_script l = tr_script r
      \<and> value_map_eq (tr_content l) (tr_content r))"

definition collect_triggers :: "deployment_object list \<Rightarrow> deployment_trigger list" where
  "collect_triggers obs = dedup_by same_trigger (sort_by trigger_cmp (concat (map do_triggers obs)))"

definition trigger_object :: "host_env \<Rightarrow> deployment_trigger \<Rightarrow> deployment_object" where
  "trigger_object env t =
     \<lparr>do_index = 0, do_host = he_host env, do_host_name = o_name (he_host_object env),
      do_title = tr_title t, do_name = '''', do_enabled = True, do_status = OS_Normal,
      do_action = OA_Trigger, do_script = tr_script t, do_prev_script = None,
      do_next_content = Some (tr_content t), do_prev_content = None, do_id = None,
      do_type_id = tr_type_id t,
      do_type_name = (case he_objects env (tr_type_id t) of Some v \<Rightarrow> o_name v | None \<Rightarrow> ''''),
      do_triggers = [], do_deployment_order = 0\<rparr>"

definition host_deployment ::
  "host_env \<Rightarrow> bool \<Rightarrow> emit_state \<Rightarrow> host_error + deployment_object list" where
  "host_deployment env full st =
     res_bind (host_objects env full st)
       (\<lambda>obs. Inr (obs @ map (trigger_object env) (collect_triggers obs)))"

section \<open>What the nodes of a host become\<close>

text \<open>
  The specification of the emission: which nodes become objects (\<open>node_emits\<close>), which ones make
  the sort fail (\<open>\<not> node_ok\<close>), and the object a node becomes given the rows of the host.
\<close>

definition silent_kind :: "kind_type option \<Rightarrow> bool" where
  "silent_kind k = (k \<in> {Some K_Host, Some K_Root, Some K_Collection, Some K_Hostvar})"

fun node_emits :: "host_env \<Rightarrow> dag_node \<Rightarrow> bool" where
  "node_emits env (Sentinal base name) = False"
| "node_emits env (Normal base name triggers title script content type_id) =
     (he_objects env (b_id base) \<noteq> None
      \<and> (case he_types env type_id of None \<Rightarrow> True | Some tc \<Rightarrow> \<not> silent_kind (ty_kind tc)))"

fun node_ok :: "host_env \<Rightarrow> dag_node \<Rightarrow> bool" where
  "node_ok env (Sentinal base name) = True"
| "node_ok env (Normal base name triggers title script content type_id) =
     (he_objects env (b_id base) \<noteq> None \<longrightarrow>
        he_types env type_id \<noteq> None \<and> he_objects env type_id \<noteq> None
        \<and> (node_emits env (Normal base name triggers title script content type_id)
             \<longrightarrow> script \<noteq> None))"

fun node_object :: "host_env \<Rightarrow> (string \<rightharpoonup> old_content) \<Rightarrow> dag_node \<Rightarrow> deployment_object" where
  "node_object env old (Normal base name triggers title script content type_id) =
     with_old (he_redeploy env) (old name)
       (new_object env base name triggers title (opt_or script '''') content type_id
          (case he_objects env type_id of Some v \<Rightarrow> o_name v | None \<Rightarrow> ''''))"
| "node_object env old (Sentinal base name) =
     new_object env base name [] '''' '''' [] 0 ''''"

lemma emit_dag_node_object:
  "node_ok env nd \<Longrightarrow> node_emits env nd \<Longrightarrow>
   emit_dag_node env nd st =
     Inr (st\<lparr>es_old := rows_remove (n_name nd) (es_old st),
            es_out := es_out st @ [node_object env (map_of (es_old st)) nd]\<rparr>)"
  by (cases nd) (auto simp: silent_kind_def opt_or_def split: option.splits)

lemma emit_dag_node_skip:
  "node_ok env nd \<Longrightarrow> \<not> node_emits env nd \<Longrightarrow> emit_dag_node env nd st = Inr st"
  by (cases nd) (auto simp: silent_kind_def split: option.splits)

lemma emit_dag_node_error: "\<not> node_ok env nd \<Longrightarrow> \<exists>e. emit_dag_node env nd st = Inl e"
  by (cases nd) (auto simp: silent_kind_def split: option.splits)

lemma map_of_rows_remove: "map_of (rows_remove k rows) k' = (if k' = k then None else map_of rows k')"
  by (induction rows) (auto simp: rows_remove_def)

definition emitted :: "host_env \<Rightarrow> arena \<Rightarrow> node_ref list \<Rightarrow> dag_node list" where
  "emitted env g ns = filter (node_emits env) (map ((!) g) ns)"

lemma emitted_Cons:
  "emitted env g (n # ns) = (if node_emits env (g ! n) then [g ! n] else []) @ emitted env g ns"
  by (simp add: emitted_def)

text \<open>Emitting a list of nodes whose names differ.\<close>

lemma emit_all_ok:
  "\<forall>n \<in> set ns. node_ok env (g ! n) \<Longrightarrow> distinct (map n_name (emitted env g ns)) \<Longrightarrow>
   emit_all (emit_node env g) ns st =
     Inr (st\<lparr>es_old := filter (\<lambda>r. fst r \<notin> n_name ` set (emitted env g ns)) (es_old st),
            es_out := es_out st @ map (node_object env (map_of (es_old st))) (emitted env g ns)\<rparr>)"
proof (induction ns arbitrary: st)
  case (Cons n ns)
  let ?nd = "g ! n"
  show ?case
  proof (cases "node_emits env ?nd")
    case False
    with Cons.prems have "emit_node env g n st = Inr st"
      by (simp add: emit_node_def emit_dag_node_skip)
    with False Cons show ?thesis by (simp add: emitted_Cons)
  next
    case True
    let ?st = "st\<lparr>es_old := rows_remove (n_name ?nd) (es_old st),
                 es_out := es_out st @ [node_object env (map_of (es_old st)) ?nd]\<rparr>"
    have step: "emit_node env g n st = Inr ?st"
      using True Cons.prems by (simp add: emit_node_def emit_dag_node_object)
    have d: "n_name ?nd \<notin> n_name ` set (emitted env g ns)"
      "distinct (map n_name (emitted env g ns))"
      using Cons.prems(2) True by (simp_all add: emitted_Cons)
    have same: "node_object env (map_of (rows_remove (n_name ?nd) (es_old st))) nd
        = node_object env (map_of (es_old st)) nd" if "nd \<in> set (emitted env g ns)" for nd
    proof -
      have "n_name nd \<noteq> n_name ?nd" using d(1) that by (metis image_eqI)
      moreover have "node_emits env nd" using that by (auto simp: emitted_def)
      ultimately show ?thesis by (cases nd) (simp_all add: map_of_rows_remove)
    qed
    have filt: "filter (\<lambda>r. fst r \<notin> n_name ` set (emitted env g ns)) (rows_remove (n_name ?nd) (es_old st))
        = filter (\<lambda>r. fst r \<notin> insert (n_name ?nd) (n_name ` set (emitted env g ns))) (es_old st)"
      unfolding rows_remove_def filter_filter by (rule filter_cong) auto
    show ?thesis
      using step Cons.IH [of ?st] Cons.prems(1) d(2) True filt same
      by (simp add: emitted_Cons)
  qed
qed (simp add: emitted_def)

lemma emit_all_error:
  "n \<in> set ns \<Longrightarrow> \<not> node_ok env (g ! n) \<Longrightarrow> \<exists>e. emit_all (emit_node env g) ns st = Inl e"
proof (induction ns arbitrary: st)
  case (Cons m ns)
  show ?case
  proof (cases "node_ok env (g ! m)")
    case False
    then show ?thesis using emit_dag_node_error [of env "g ! m" st]
      by (auto simp: emit_node_def)
  next
    case True
    with Cons.prems have n: "n \<in> set ns" by auto
    show ?thesis
    proof (cases "emit_node env g m st")
      case (Inl e)
      then show ?thesis by simp
    next
      case (Inr st')
      with Cons.IH [OF n Cons.prems(2), of st'] show ?thesis by simp
    qed
  qed
qed simp

section \<open>Triggers fire once\<close>

lemma total_cmp_map_json: "total_cmp map_json_cmp"
  using total_cmp_on [OF json.total_cmp_axioms, of JObject] by simp

interpretation trig: total_cmp trigger_cmp
proof -
  have "total_cmp (\<lambda>l r. then_with
      (then_with (cmp_lin (tr_type_id l) (tr_type_id r)) (str_cmp (tr_script l) (tr_script r)))
      (map_json_cmp (tr_content l) (tr_content r)))"
    by (intro total_cmp_then total_cmp_on [OF lin.total_cmp_axioms, of tr_type_id]
        total_cmp_on [OF str.total_cmp_axioms, of tr_script]
        total_cmp_on [OF total_cmp_map_json, of tr_content])
  then show "total_cmp trigger_cmp" by (simp add: trigger_cmp_def [abs_def])
qed

definition triggers_wf :: "deployment_object list \<Rightarrow> bool" where
  "triggers_wf obs = (\<forall>t \<in> set (concat (map do_triggers obs)). json_wf (JObject (tr_content t)))"

lemma trigger_cmp_Equal:
  "trigger_cmp l r = Equal \<Longrightarrow>
   tr_type_id l = tr_type_id r \<and> tr_script l = tr_script r \<and> tr_content l = tr_content r"
  unfolding trigger_cmp_def
  by (cases "cmp_lin (tr_type_id l) (tr_type_id r)"; cases "str_cmp (tr_script l) (tr_script r)")
    (simp_all add: cmp_lin_iff str.cmp_eq json_cmp_eq_aux(3))

lemma trigger_cmp_same:
  "(tr_type_id l, tr_script l, tr_content l) = (tr_type_id r, tr_script r, tr_content r) \<Longrightarrow>
   trigger_cmp l r = Equal"
  using trig.cmp_refl [of l] by (simp add: trigger_cmp_def)

lemma strict_triggers_distinct:
  "sorted_wrt (\<lambda>x y. trigger_cmp x y = Less) ts \<Longrightarrow>
   distinct (map (\<lambda>t. (tr_type_id t, tr_script t, tr_content t)) ts)"
proof (induction ts)
  case (Cons t ts)
  have "trigger_cmp t u = Less" if "u \<in> set ts" for u using Cons.prems that by simp
  then have "(tr_type_id t, tr_script t, tr_content t) \<noteq> (tr_type_id u, tr_script u, tr_content u)"
    if "u \<in> set ts" for u using trigger_cmp_same [of t u] that by fastforce
  then have "(tr_type_id t, tr_script t, tr_content t)
      \<notin> (\<lambda>t. (tr_type_id t, tr_script t, tr_content t)) ` set ts" by fast
  with Cons show ?case by simp
qed simp

text \<open>C5: every trigger of a deployed object fires. The trigger objects come from triggers of
  the deployed objects, and for each of those one fires with its type, its script and content
  equal to its own; and when the contents
  of the triggers are well formed (no object has a key twice, as in anything read from JSON), no
  two that fire have the same type, the same script and contents that are identical, entry by
  entry in the same order. Contents that are equal but list their entries in another order can
  fire twice.\<close>

theorem triggers_fire_once:
  "set (collect_triggers obs) \<subseteq> set (concat (map do_triggers obs))
   \<and> (\<forall>t \<in> set (concat (map do_triggers obs)).
        \<exists>u \<in> set (collect_triggers obs). tr_type_id u = tr_type_id t \<and> tr_script u = tr_script t
          \<and> (tr_content u = tr_content t \<or> value_map_eq (tr_content t) (tr_content u)))
   \<and> (triggers_wf obs \<longrightarrow>
        distinct (map (\<lambda>t. (tr_type_id t, tr_script t, tr_content t)) (collect_triggers obs)))"
proof (intro conjI impI ballI)
  let ?ts = "concat (map do_triggers obs)"
  show "set (collect_triggers obs) \<subseteq> set ?ts"
    using set_dedup_by_subset [of same_trigger "sort_by trigger_cmp ?ts"]
    by (simp add: collect_triggers_def)
  fix t assume "t \<in> set ?ts"
  then have "\<exists>u \<in> set (collect_triggers obs). u = t \<or> same_trigger t u"
    unfolding collect_triggers_def by (intro dedup_by_covers) simp
  then show "\<exists>u \<in> set (collect_triggers obs). tr_type_id u = tr_type_id t \<and> tr_script u = tr_script t
      \<and> (tr_content u = tr_content t \<or> value_map_eq (tr_content t) (tr_content u))"
    by (auto simp: same_trigger_def)
next
  let ?ts = "concat (map do_triggers obs)"
  assume wf: "triggers_wf obs"
  let ?same = "\<lambda>y x. trigger_cmp x y = Equal \<or> same_trigger y x"
  have "dedup_by same_trigger xs = dedup_by ?same xs" if "set xs \<subseteq> set ?ts" for xs
    using that
  proof (induction same_trigger xs rule: dedup_by.induct)
    case (3 x y xs)
    have "?same y x \<longleftrightarrow> same_trigger y x"
    proof -
      have "same_trigger y x" if "trigger_cmp x y = Equal"
        using trigger_cmp_Equal [OF that] "3.prems" wf
        by (auto simp: same_trigger_def triggers_wf_def value_map_eq_def
            intro!: json_eq_refl simp del: json_eq.simps)
      then show ?thesis by blast
    qed
    with 3 show ?case by simp
  qed simp_all
  then have "collect_triggers obs = dedup_by ?same (sort_by trigger_cmp ?ts)"
    unfolding collect_triggers_def by simp
  moreover have "sorted_wrt (\<lambda>x y. trigger_cmp x y = Less) (dedup_by ?same (sort_by trigger_cmp ?ts))"
    by (rule trig.dedup_sorted_strict [OF _ trig.sorted_by_sort_by]) simp
  ultimately have "sorted_wrt (\<lambda>x y. trigger_cmp x y = Less) (collect_triggers obs)" by simp
  then show "distinct (map (\<lambda>t. (tr_type_id t, tr_script t, tr_content t)) (collect_triggers obs))"
    by (rule strict_triggers_distinct)
qed

theorem triggers_fire_once_witness:
  "\<exists>u \<in> set (collect_triggers
      [trigger_object \<lparr>he_objects = Map.empty, he_types = Map.empty, he_host = 1,
          he_host_object = \<lparr>o_type = 2, o_content = [], o_name = ''h''\<rparr>, he_redeploy = False\<rparr>
        \<lparr>tr_type_id = 7, tr_script = ''s'', tr_content = [], tr_title = ''t''\<rparr>
        \<lparr>do_triggers := [\<lparr>tr_type_id = 7, tr_script = ''s'', tr_content = [], tr_title = ''t''\<rparr>,
                        \<lparr>tr_type_id = 7, tr_script = ''s'', tr_content = [], tr_title = ''u''\<rparr>]\<rparr>]).
     tr_type_id u = 7 \<and> tr_script u = ''s''"
  using triggers_fire_once [THEN conjunct2, THEN conjunct1, THEN bspec,
      of "\<lparr>tr_type_id = 7, tr_script = ''s'', tr_content = [], tr_title = ''u''\<rparr>"
        "[trigger_object \<lparr>he_objects = Map.empty, he_types = Map.empty, he_host = 1,
          he_host_object = \<lparr>o_type = 2, o_content = [], o_name = ''h''\<rparr>, he_redeploy = False\<rparr>
        \<lparr>tr_type_id = 7, tr_script = ''s'', tr_content = [], tr_title = ''t''\<rparr>
        \<lparr>do_triggers := [\<lparr>tr_type_id = 7, tr_script = ''s'', tr_content = [], tr_title = ''t''\<rparr>,
                        \<lparr>tr_type_id = 7, tr_script = ''s'', tr_content = [], tr_title = ''u''\<rparr>]\<rparr>]"]
  by auto

section \<open>The plan of a host\<close>

lemma removals_ok:
  "\<forall>r \<in> set rows. dc_script (oc_content (snd r)) \<noteq> None \<Longrightarrow>
   removals env rows = Inr (map (\<lambda>r. removal_object env r (the (dc_script (oc_content (snd r))))) rows)"
  by (induction rows) auto

lemma removal_object_simps [simp]:
  "do_name (removal_object env r s) = fst r"
  "do_action (removal_object env r s) = OA_Remove"
  "do_next_content (removal_object env r s) = None"
  "do_host (removal_object env r s) = he_host env"
  "do_script (removal_object env r s) = s"
  "do_triggers (removal_object env r s) = dc_triggers (oc_content (snd r))"
  "do_deployment_order (removal_object env r s) = dc_deployment_order (oc_content (snd r))"
  by (simp_all add: removal_object_def Let_def)

lemma with_old_simps [simp]:
  "do_name (with_old rd old ob) = do_name ob"
  "do_next_content (with_old rd old ob) = do_next_content ob"
  "do_script (with_old rd old ob) = do_script ob"
  "do_type_id (with_old rd old ob) = do_type_id ob"
  "do_id (with_old rd old ob) = do_id ob"
  "do_host (with_old rd old ob) = do_host ob"
  "do_enabled (with_old rd old ob) = do_enabled ob"
  "do_triggers (with_old rd old ob) = do_triggers ob"
  by (simp_all add: with_old_def split: option.splits)

lemma node_object_simps [simp]:
  "node_emits env nd \<Longrightarrow> do_name (node_object env old nd) = n_name nd"
  "node_emits env nd \<Longrightarrow> do_next_content (node_object env old nd) = Some (n_content nd)"
  "node_emits env nd \<Longrightarrow> do_type_id (node_object env old nd) = n_type_id nd"
  "node_emits env nd \<Longrightarrow> do_script (node_object env old nd) = opt_or (n_script nd) ''''"
  "node_emits env nd \<Longrightarrow> do_triggers (node_object env old nd) = n_triggers nd"
  "do_host (node_object env old nd) = he_host env"
  "do_enabled (node_object env old nd)"
  by (cases nd; simp add: new_object_def)+

lemma node_object_prev:
  assumes "node_emits env nd" and "\<not> he_redeploy env"
  shows "do_prev_content (node_object env old nd)
           = Option.bind (old (n_name nd)) (\<lambda>v. dc_content (oc_content v))"
    and "do_prev_script (node_object env old nd)
           = (case old (n_name nd) of None \<Rightarrow> Some '''' | Some v \<Rightarrow> dc_script (oc_content v))"
    and "do_action (node_object env old nd)
           = (if old (n_name nd) = None then OA_Add else OA_Modify)"
  using assms by (cases nd; simp add: new_object_def with_old_def split: option.splits)+

text \<open>A row that already records what a node wants to deploy.\<close>

definition up_to_date :: "old_content \<Rightarrow> dag_node \<Rightarrow> bool" where
  "up_to_date v nd =
     (content_eq (Some (n_content nd)) (dc_content (oc_content v))
      \<and> Some (opt_or (n_script nd) '''') = dc_script (oc_content v))"

lemma changed_node_object:
  assumes "node_emits env nd" and "\<not> he_redeploy env"
  shows "changed (node_object env old nd) \<longleftrightarrow>
    (case old (n_name nd) of None \<Rightarrow> True | Some v \<Rightarrow> \<not> up_to_date v nd)"
  using assms by (auto simp: changed_def node_object_prev up_to_date_def split: option.splits)

lemma in_emitted: "nd \<in> set (emitted env g ns) \<longleftrightarrow> node_emits env nd \<and> nd \<in> (!) g ` set ns"
  by (auto simp: emitted_def)

text \<open>Packages are left out on a host without packages; on a redeployment every node counts as new.\<close>

definition wanted :: "host_env \<Rightarrow> dag_node \<Rightarrow> bool" where
  "wanted env nd = (deb_packages (o_content (he_host_object env)) \<or> n_type_id nd \<noteq> PACKAGE_ID)"

lemma node_object_redeploy:
  assumes "node_emits env nd" and "he_redeploy env"
  shows "do_action (node_object env old nd) = OA_Add" and "changed (node_object env old nd)"
  using assms by (cases nd; simp add: new_object_def with_old_def changed_def split: option.splits)+

lemma node_object_plan:
  assumes "node_emits env nd"
  shows "do_action (node_object env old nd)
      = (if he_redeploy env \<or> old (n_name nd) = None then OA_Add else OA_Modify)"
    and "changed (node_object env old nd) \<longleftrightarrow>
      (he_redeploy env \<or> (case old (n_name nd) of None \<Rightarrow> True | Some v \<Rightarrow> \<not> up_to_date v nd))"
  using assms by (cases "he_redeploy env"; simp add: node_object_redeploy node_object_prev changed_node_object)+

text \<open>The objects of a host, given what its nodes became.\<close>

lemma removals_error:
  "r \<in> set rows \<Longrightarrow> dc_script (oc_content (snd r)) = None \<Longrightarrow> removals env rows = Inl MissingScript"
  by (induction rows) (auto split: option.splits)

lemma host_objects_full:
  "host_objects env True st =
    (if \<exists>r \<in> set (es_old st). dc_script (oc_content (snd r)) = None then Inl MissingScript
     else Inr (filter changed (if deb_packages (o_content (he_host_object env)) then es_out st
                 else filter (\<lambda>ob. do_type_id ob \<noteq> PACKAGE_ID) (es_out st))
         @ map (\<lambda>r. removal_object env r (the (dc_script (oc_content (snd r)))))
             (sort_by row_cmp (es_old st))))"
proof (cases "\<exists>r \<in> set (es_old st). dc_script (oc_content (snd r)) = None")
  case True
  then obtain r where "r \<in> set (sort_by row_cmp (es_old st))" "dc_script (oc_content (snd r)) = None"
    by auto
  from removals_error [OF this] show ?thesis using True by (simp add: host_objects_def)
next
  case False
  then show ?thesis using removals_ok [of "sort_by row_cmp (es_old st)" env] by (simp add: host_objects_def)
qed

text \<open>C2: the plan of a host is exactly the difference between what its graph asks for and what
  was deployed. When every node can be emitted and no two have the same name, and the rows have
  distinct names, the plan of a whole host fails exactly when a row to be removed has no script;
  otherwise the objects planned are: an addition for each node without a row, a modification for
  each node whose row has another content or script, and a removal for each row without a node,
  and nothing else. On a redeployment every node is an addition, with or without a row; on a host
  whose \<open>debPackages\<close> is not true the nodes that are packages are left out, and their rows are
  not removed either.\<close>

theorem host_plan_exact:
  assumes "\<forall>n \<in> set order. node_ok env (g ! n)"
    and "distinct (map n_name (emitted env g order))" and "distinct (map fst rows)"
  shows "\<exists>st. emit_all (emit_node env g) order \<lparr>es_old = rows, es_out = []\<rparr> = Inr st
    \<and> (if \<exists>(k, v) \<in> set rows. k \<notin> n_name ` set (emitted env g order) \<and> dc_script (oc_content v) = None
       then host_objects env True st = Inl MissingScript
       else \<exists>obs. host_objects env True st = Inr obs
         \<and> (\<lambda>ob. (do_name ob, do_action ob)) ` set obs =
             {(n_name nd, OA_Add) | nd. nd \<in> set (emitted env g order) \<and> wanted env nd
                   \<and> (he_redeploy env \<or> map_of rows (n_name nd) = None)}
             \<union> {(n_name nd, OA_Modify) | nd. nd \<in> set (emitted env g order) \<and> wanted env nd
                   \<and> \<not> he_redeploy env \<and> (\<exists>v. map_of rows (n_name nd) = Some v \<and> \<not> up_to_date v nd)}
             \<union> {(k, OA_Remove) | k. k \<in> fst ` set rows - n_name ` set (emitted env g order)})"
proof -
  let ?nds = "emitted env g order"
  let ?st = "\<lparr>es_old = filter (\<lambda>r. fst r \<notin> n_name ` set ?nds) rows,
      es_out = map (node_object env (map_of rows)) ?nds\<rparr>"
  let ?out = "if deb_packages (o_content (he_host_object env)) then es_out ?st
                 else filter (\<lambda>ob. do_type_id ob \<noteq> PACKAGE_ID) (es_out ?st)"
  let ?rem = "map (\<lambda>r. removal_object env r (the (dc_script (oc_content (snd r)))))
             (sort_by row_cmp (es_old ?st))"
  let ?na = "\<lambda>ob. (do_name ob, do_action ob)"
  let ?fails = "\<exists>(k, v) \<in> set rows. k \<notin> n_name ` set ?nds \<and> dc_script (oc_content v) = None"
  have emit: "emit_all (emit_node env g) order \<lparr>es_old = rows, es_out = []\<rparr> = Inr ?st"
    using emit_all_ok [OF assms(1,2), of "\<lparr>es_old = rows, es_out = []\<rparr>"] by simp
  have "(\<exists>r \<in> set (es_old ?st). dc_script (oc_content (snd r)) = None) \<longleftrightarrow> ?fails" by force
  then have obs: "host_objects env True ?st
      = (if ?fails then Inl MissingScript else Inr (filter changed ?out @ ?rem))"
    unfolding host_objects_full [of env ?st] by (simp only:)
  have act: "?na (node_object env (map_of rows) nd)
      = (n_name nd, if he_redeploy env \<or> map_of rows (n_name nd) = None then OA_Add else OA_Modify)"
    and chg: "changed (node_object env (map_of rows) nd) \<longleftrightarrow>
      (he_redeploy env \<or> (case map_of rows (n_name nd) of None \<Rightarrow> True | Some v \<Rightarrow> \<not> up_to_date v nd))"
    if "nd \<in> set ?nds" for nd
    using that by (simp_all add: in_emitted node_object_plan)
  let ?keep = "{nd \<in> set ?nds. wanted env nd
      \<and> (he_redeploy env \<or> (case map_of rows (n_name nd) of None \<Rightarrow> True | Some v \<Rightarrow> \<not> up_to_date v nd))}"
  have "set (filter changed ?out) = node_object env (map_of rows) ` ?keep"
    using chg by (auto simp: wanted_def in_emitted)
  then have "?na ` set (filter changed ?out) =
      (\<lambda>nd. (n_name nd, if he_redeploy env \<or> map_of rows (n_name nd) = None then OA_Add else OA_Modify)) ` ?keep"
    using act by (simp add: image_image cong: image_cong_simp)
  also have "\<dots> =
        {(n_name nd, OA_Add) | nd. nd \<in> set ?nds \<and> wanted env nd
              \<and> (he_redeploy env \<or> map_of rows (n_name nd) = None)}
        \<union> {(n_name nd, OA_Modify) | nd. nd \<in> set ?nds \<and> wanted env nd
              \<and> \<not> he_redeploy env \<and> (\<exists>v. map_of rows (n_name nd) = Some v \<and> \<not> up_to_date v nd)}"
    by (cases "he_redeploy env") (auto split: option.splits)
  finally have new: "?na ` set (filter changed ?out) =
        {(n_name nd, OA_Add) | nd. nd \<in> set ?nds \<and> wanted env nd
              \<and> (he_redeploy env \<or> map_of rows (n_name nd) = None)}
        \<union> {(n_name nd, OA_Modify) | nd. nd \<in> set ?nds \<and> wanted env nd
              \<and> \<not> he_redeploy env \<and> (\<exists>v. map_of rows (n_name nd) = Some v \<and> \<not> up_to_date v nd)}" .
  have rem: "?na ` set ?rem = {(k, OA_Remove) | k. k \<in> fst ` set rows - n_name ` set ?nds}"
    by (auto simp: image_image)
  have all: "?na ` set (filter changed ?out @ ?rem) =
             {(n_name nd, OA_Add) | nd. nd \<in> set ?nds \<and> wanted env nd
                   \<and> (he_redeploy env \<or> map_of rows (n_name nd) = None)}
             \<union> {(n_name nd, OA_Modify) | nd. nd \<in> set ?nds \<and> wanted env nd
                   \<and> \<not> he_redeploy env \<and> (\<exists>v. map_of rows (n_name nd) = Some v \<and> \<not> up_to_date v nd)}
             \<union> {(k, OA_Remove) | k. k \<in> fst ` set rows - n_name ` set ?nds}"
    by (simp only: set_append image_Un new rem)
  show ?thesis
  proof (cases ?fails)
    case True
    with obs have "host_objects env True ?st = Inl MissingScript" by (simp only: if_True)
    with True emit show ?thesis by (intro exI [of _ ?st] conjI) (simp_all only: if_True)
  next
    case False
    with obs have "host_objects env True ?st = Inr (filter changed ?out @ ?rem)" by (simp only: if_False)
    with all have "\<exists>obs. host_objects env True ?st = Inr obs \<and> ?na ` set obs =
             {(n_name nd, OA_Add) | nd. nd \<in> set ?nds \<and> wanted env nd
                   \<and> (he_redeploy env \<or> map_of rows (n_name nd) = None)}
             \<union> {(n_name nd, OA_Modify) | nd. nd \<in> set ?nds \<and> wanted env nd
                   \<and> \<not> he_redeploy env \<and> (\<exists>v. map_of rows (n_name nd) = Some v \<and> \<not> up_to_date v nd)}
             \<union> {(k, OA_Remove) | k. k \<in> fst ` set rows - n_name ` set ?nds}" by blast
    with False emit show ?thesis by (intro exI [of _ ?st] conjI) (simp_all only: if_False)
  qed
qed

text \<open>A host with one object, one row that is out of date and one row to remove.\<close>

definition demo_host :: object where
  "demo_host = \<lparr>o_type = HOST_ID, o_content = [(''debPackages'', JBool True)], o_name = ''h''\<rparr>"

definition demo_env :: host_env where
  "demo_env = \<lparr>he_objects = [6 \<mapsto> \<lparr>o_type = 9, o_content = [], o_name = ''file''\<rparr>,
                            9 \<mapsto> \<lparr>o_type = TYPE_ID, o_content = [], o_name = ''File''\<rparr>],
     he_types = [9 \<mapsto> itype_default\<lparr>ty_kind := Some K_Delta\<rparr>],
     he_host = 5, he_host_object = demo_host, he_redeploy = False\<rparr>"

definition demo_arena :: arena where
  "demo_arena = [Normal \<lparr>b_prev = [], b_next = [], b_id = 6\<rparr> ''.6'' [] ''file'' (Some ''new'')
                   [(''name'', JString ''file'')] 9]"

definition demo_old :: "string \<Rightarrow> old_content" where
  "demo_old s = \<lparr>oc_content = \<lparr>dc_script = Some s, dc_content = Some [], dc_triggers = [],
      dc_deployment_order = 0, dc_type_name = ''File'', dc_object = 6\<rparr>, oc_type = 9, oc_title = ''file''\<rparr>"

theorem host_plan_exact_witness:
  "\<exists>st obs. emit_all (emit_node demo_env demo_arena) [0]
       \<lparr>es_old = [(''.6'', demo_old ''old''), (''.7'', demo_old ''old'')], es_out = []\<rparr> = Inr st
    \<and> host_objects demo_env True st = Inr obs
    \<and> (\<lambda>ob. (do_name ob, do_action ob)) ` set obs = {(''.6'', OA_Modify), (''.7'', OA_Remove)}"
proof -
  have em: "emitted demo_env demo_arena [0] = [demo_arena ! 0]"
    by (simp add: emitted_def demo_arena_def demo_env_def silent_kind_def)
  let ?rows = "[(''.6'', demo_old ''old''), (''.7'', demo_old ''old'')]"
  have "\<forall>n \<in> set [0]. node_ok demo_env (demo_arena ! n)" "distinct (map n_name (emitted demo_env demo_arena [0]))"
    "distinct (map fst ?rows)"
    by (simp_all add: em, simp_all add: demo_arena_def demo_env_def)
  note p = host_plan_exact [OF this]
  have "deb_packages (o_content (he_host_object demo_env))" "\<not> he_redeploy demo_env"
    and some: "dc_script (oc_content (demo_old ''old'')) = Some ''old''"
    by (simp_all add: demo_env_def demo_host_def demo_old_def deb_packages_def obj_get_def opt_or_def)
  then have w: "wanted demo_env nd" and red: "\<not> he_redeploy demo_env" for nd by (simp_all add: wanted_def)
  have nd: "n_name (demo_arena ! 0) = ''.6''" by (simp add: demo_arena_def)
  have old: "\<not> up_to_date (demo_old ''old'') (demo_arena ! 0)"
    by (simp add: demo_arena_def up_to_date_def demo_old_def opt_or_def)
  have rem: "{(k, OA_Remove) |k. k \<in> fst ` set ?rows - n_name ` set [demo_arena ! 0]} = {(''.7'', OA_Remove)}"
    by (auto simp: nd)
  from p show ?thesis
    unfolding em rem by (simp add: w red nd old some insert_commute)
qed

end
