(* ===== verification/Perform_Deploy.thy ===== *)
theory Perform_Deploy
  imports Deployment Host_Diff
begin

text \<open>
  Carrying out a plan (\<open>perform_deploy\<close>, \<open>deploy_single\<close> and \<open>set_deployment\<close> in
  \<open>src/bin/server/deployment.rs\<close>) and the table \<open>deployments\<close> it maintains. What happens outside
  the program is a parameter: the messages a host sends for a job and which of the timers and
  the cancellation comes first, whether a host is connected, and whether the task has been
  cancelled when an object is reached (all indexed by the object the loop is at).
\<close>

section \<open>The table of deployed objects\<close>

text \<open>Rows are keyed by host and name (the unique index \<open>deployments_host_name\<close>).\<close>

type_synonym table = "((int \<times> string) \<times> old_content) list"

definition select_host :: "int \<Rightarrow> table \<Rightarrow> old_rows" where
  "select_host h t = map (\<lambda>((_, n), c). (n, c)) (filter (\<lambda>((h', _), _). h' = h) t)"

definition delete_row :: "int \<Rightarrow> string \<Rightarrow> table \<Rightarrow> table" where
  "delete_row h n t = filter (\<lambda>r. fst r \<noteq> (h, n)) t"

definition replace_row :: "int \<Rightarrow> string \<Rightarrow> old_content \<Rightarrow> table \<Rightarrow> table" where
  "replace_row h n c t = delete_row h n t @ [((h, n), c)]"

datatype deploy_error =
    CommandFailed string | CommandCode "int option" | HostWentAway | UnexpectedMessage
  | ExpectedString | BadData | JobError string | SingleTimeout | SingleCancelled
  | UnhandledKind "kind_type option" | MissingId | TypesError string

definition set_deployment :: "deployment_object \<Rightarrow> int \<Rightarrow> table \<Rightarrow> deploy_error + table" where
  "set_deployment ob type_id t =
     (case do_next_content ob of
        Some content \<Rightarrow>
          (case do_id ob of
             None \<Rightarrow> Inl MissingId
           | Some i \<Rightarrow>
               Inr (replace_row (do_host ob) (do_name ob)
                 \<lparr>oc_content = \<lparr>dc_script = Some (do_script ob), dc_content = Some content,
                     dc_triggers = do_triggers ob, dc_deployment_order = do_deployment_order ob,
                     dc_type_name = do_type_name ob, dc_object = i\<rparr>,
                  oc_type = type_id, oc_title = do_title ob\<rparr> t))
      | None \<Rightarrow> Inr (delete_row (do_host ob) (do_name ob) t))"

section \<open>One job on a host\<close>

datatype host_message = HM_Failure string | HM_Success "int option" | HM_Data json | HM_Other

datatype race = R_Job | R_Timeout | R_Cancel_Job | R_Cancel_Timeout | R_Cancel_Cancelled

record job =
  jb_messages :: "(string + host_message) list"
  jb_race :: race

text \<open>The lines logged, and the result. \<open>decode\<close> is base64 followed by UTF-8.\<close>

fun deploy_single_inner ::
  "(string \<Rightarrow> string option) \<Rightarrow> (string + host_message) list \<Rightarrow> string list \<times> (deploy_error + unit)" where
  "deploy_single_inner decode [] = ([], Inl HostWentAway)"
| "deploy_single_inner decode (Inl e # ms) = ([], Inl (JobError e))"
| "deploy_single_inner decode (Inr (HM_Failure f) # ms) = ([], Inl (CommandFailed f))"
| "deploy_single_inner decode (Inr (HM_Success code) # ms) =
     ([], if code = Some 0 then Inr () else Inl (CommandCode code))"
| "deploy_single_inner decode (Inr (HM_Data v) # ms) =
     (case as_str v of
        None \<Rightarrow> ([], Inl ExpectedString)
      | Some s \<Rightarrow>
          (case decode s of
             None \<Rightarrow> ([], Inl BadData)
           | Some line \<Rightarrow>
               (case deploy_single_inner decode ms of (lines, r) \<Rightarrow> (line # lines, r))))"
| "deploy_single_inner decode (Inr HM_Other # ms) = ([], Inl UnexpectedMessage)"

definition deploy_single ::
  "(string \<Rightarrow> string option) \<Rightarrow> job option \<Rightarrow> string list \<times> (deploy_error + unit)" where
  "deploy_single decode host_client =
     (case host_client of
        None \<Rightarrow> ([], Inr ())
      | Some j \<Rightarrow>
          (case deploy_single_inner decode (jb_messages j) of
             (lines, r) \<Rightarrow>
               (lines, case jb_race j of
                  R_Job \<Rightarrow> r
                | R_Timeout \<Rightarrow> Inl SingleTimeout
                | R_Cancel_Job \<Rightarrow> r
                | R_Cancel_Timeout \<Rightarrow> Inl SingleTimeout
                | R_Cancel_Cancelled \<Rightarrow> Inl SingleCancelled)))"

section \<open>The loop over the objects\<close>

record deploy_env =
  de_types :: "int \<rightharpoonup> itype"
  de_mark_only :: bool
  de_host_up :: "nat \<Rightarrow> bool"
  de_cancelled :: "nat \<Rightarrow> bool"
  de_job :: "nat \<Rightarrow> string \<Rightarrow> json \<Rightarrow> job"
  de_decode :: "string \<Rightarrow> string option"
  de_show :: "deploy_error \<Rightarrow> string"

record perform_state =
  ps_world :: world
  ps_rows :: table
  ps_bad_host :: bool
  ps_cur_host :: int
  ps_host_objects :: "int \<rightharpoonup> value_map"

type_synonym indexed = "nat \<times> deployment_object"

definition on_dep :: "(deployment \<Rightarrow> deployment) \<Rightarrow> perform_state \<Rightarrow> perform_state" where
  "on_dep f ps = ps\<lparr>ps_world := update_deployment f (ps_world ps)\<rparr>"

definition add_lines :: "string list \<Rightarrow> perform_state \<Rightarrow> perform_state" where
  "add_lines ls ps = fold (\<lambda>l. on_dep (add_log l)) ls ps"

text \<open>\<open>host_objects.entry(type).or_default().insert(name, ..)\<close> for the rows of a host.\<close>

fun load_host_objects :: "old_rows \<Rightarrow> (int \<rightharpoonup> value_map) \<Rightarrow> int \<rightharpoonup> value_map" where
  "load_host_objects [] m = m"
| "load_host_objects ((n, c) # rows) m =
     load_host_objects rows
       (m(oc_type c \<mapsto> obj_insert n (JObject (opt_or (dc_content (oc_content c)) []))
                         (opt_or (m (oc_type c)) [])))"

definition enter_host :: "deployment_object \<Rightarrow> perform_state \<Rightarrow> perform_state" where
  "enter_host ob ps =
     (if do_host ob \<noteq> ps_cur_host ps
      then (on_dep (add_header (do_host_name ob) True) ps)
             \<lparr>ps_bad_host := False, ps_cur_host := do_host ob,
              ps_host_objects := load_host_objects (select_host (do_host ob) (ps_rows ps)) Map.empty\<rparr>
      else ps)"

definition host_down :: "nat \<Rightarrow> deployment_object \<Rightarrow> perform_state \<Rightarrow> perform_state" where
  "host_down i ob ps =
     (on_dep (\<lambda>d. set_object_status i OS_Failure
                (add_log (''Host '' @ do_host_name ob @ '' is down'' @ crlf) d)) ps)
       \<lparr>ps_bad_host := True\<rparr>"

text \<open>The objects deployed together with the first one of a \<open>Sum\<close> type, and what is left.\<close>

fun take_sum :: "int \<Rightarrow> int \<Rightarrow> string \<Rightarrow> indexed list \<Rightarrow> indexed list \<times> indexed list" where
  "take_sum ty h s [] = ([], [])"
| "take_sum ty h s ((i, ob) # its) =
     (if \<not> do_enabled ob then take_sum ty h s its
      else if do_type_id ob \<noteq> ty \<or> do_host ob \<noteq> h \<or> do_script ob \<noteq> s then ([], (i, ob) # its)
      else (case take_sum ty h s its of (grp, rest) \<Rightarrow> ((i, ob) # grp, rest)))"

definition sum_object :: "deployment_object \<Rightarrow> value_map \<Rightarrow> value_map" where
  "sum_object ob m =
     (let m1 = (if do_prev_content ob \<noteq> None then obj_remove (do_name ob) m else m)
      in case do_next_content ob of
           None \<Rightarrow> m1
         | Some c \<Rightarrow> if c \<noteq> [] then obj_insert (do_name ob) (JObject c) m1 else m1)"

fun nonempty_object :: "json \<Rightarrow> bool" where
  "nonempty_object (JObject m) = (m \<noteq> [])"
| "nonempty_object _ = False"

definition sum_objects :: "indexed list \<Rightarrow> value_map \<Rightarrow> value_map" where
  "sum_objects grp m = fold (sum_object \<circ> snd) grp (retain (nonempty_object \<circ> snd) m)"

definition mark_group :: "object_status \<Rightarrow> indexed list \<Rightarrow> deployment \<Rightarrow> deployment" where
  "mark_group st grp = fold (\<lambda>io. set_object_status (fst io) st) grp"

text \<open>Recording the objects of a group; the first error ends the deployment.\<close>

fun record_group :: "int \<Rightarrow> indexed list \<Rightarrow> perform_state \<Rightarrow> deploy_error option \<times> perform_state" where
  "record_group ty [] ps = (None, ps)"
| "record_group ty ((i, ob) # grp) ps =
     (case set_deployment ob ty (ps_rows ps) of
        Inl e \<Rightarrow> (Some e, ps)
      | Inr t \<Rightarrow> record_group ty grp (ps\<lparr>ps_rows := t\<rparr>))"

definition host_client :: "deploy_env \<Rightarrow> nat \<Rightarrow> string \<Rightarrow> json \<Rightarrow> job option" where
  "host_client env i script content =
     (if de_mark_only env then None else Some (de_job env i script content))"

definition run_sum ::
  "deploy_env \<Rightarrow> nat \<Rightarrow> deployment_object \<Rightarrow> indexed list \<Rightarrow> value_map \<Rightarrow> perform_state
    \<Rightarrow> deploy_error option \<times> perform_state" where
  "run_sum env i ob grp objs ps =
     (let ps1 = on_dep (mark_group OS_Deplying grp) ps
      in case deploy_single (de_decode env)
              (host_client env i (do_script ob) (JObject [(''objects'', JObject objs)])) of
           (ls, Inl e) \<Rightarrow>
             (None, (on_dep (\<lambda>d. add_log (de_show env e) (mark_group OS_Failure grp d)) (add_lines ls ps1))
                      \<lparr>ps_bad_host := True\<rparr>)
         | (ls, Inr _) \<Rightarrow>
             record_group (do_type_id ob) grp (on_dep (mark_group OS_Success grp) (add_lines ls ps1)))"

fun opt_json :: "value_map option \<Rightarrow> json" where
  "opt_json None = JNull"
| "opt_json (Some m) = JObject m"

definition run_job ::
  "deploy_env \<Rightarrow> nat \<Rightarrow> deployment_object \<Rightarrow> kind_type option \<Rightarrow> string list \<times> (deploy_error + unit)" where
  "run_job env i ob kind =
     (if kind = Some K_Trigger
      then deploy_single (de_decode env)
             (host_client env i (do_script ob) (opt_json (do_next_content ob)))
      else if kind = None \<or> kind = Some K_Delta
      then deploy_single (de_decode env)
             (host_client env i (do_script ob)
               (JObject [(''old'', opt_json (do_prev_content ob)), (''new'', opt_json (do_next_content ob))]))
      else ([], Inl (UnhandledKind kind)))"

definition run_object ::
  "deploy_env \<Rightarrow> nat \<Rightarrow> deployment_object \<Rightarrow> kind_type option \<Rightarrow> perform_state
    \<Rightarrow> deploy_error option \<times> perform_state" where
  "run_object env i ob kind ps =
     (let ps1 = on_dep (\<lambda>d. set_object_status i OS_Deplying
                  (add_header (do_title ob @ '' ('' @ do_type_name ob @ '')'') False d)) ps
      in case run_job env i ob kind of
           (ls, Inl e) \<Rightarrow>
             (let ps2 = on_dep (add_log (de_show env e)) (add_lines ls ps1);
                  ps3 = (if kind \<noteq> Some K_Trigger then ps2\<lparr>ps_bad_host := True\<rparr> else ps2)
              in (None, on_dep (set_object_status i OS_Failure) ps3))
         | (ls, Inr _) \<Rightarrow>
             (let ps2 = add_lines ls ps1
              in if kind \<noteq> Some K_Trigger \<and> kind \<noteq> None
                 then (case set_deployment ob (do_type_id ob) (ps_rows ps2) of
                         Inl e \<Rightarrow> (Some e, ps2)
                       | Inr t \<Rightarrow> (None, on_dep (set_object_status i OS_Success) (ps2\<lparr>ps_rows := t\<rparr>)))
                 else (None, on_dep (set_object_status i OS_Success) ps2)))"

definition kind_of :: "deploy_env \<Rightarrow> deployment_object \<Rightarrow> kind_type option" where
  "kind_of env ob = Option.bind (de_types env (do_type_id ob)) ty_kind"

lemma take_sum_length: "length (snd (take_sum ty h s its)) \<le> length its"
  by (induction ty h s its rule: take_sum.induct) (auto split: prod.splits)

function perform_loop ::
  "deploy_env \<Rightarrow> indexed list \<Rightarrow> perform_state \<Rightarrow> deploy_error option \<times> perform_state" where
  "perform_loop env [] ps = (None, ps)"
| "perform_loop env ((i, ob) # its) ps =
     (if \<not> do_enabled ob then perform_loop env its ps
      else let ps1 = enter_host ob ps
        in if ps_bad_host ps1
           then perform_loop env its (on_dep (set_object_status i OS_Failure) ps1)
           else if \<not> de_mark_only env \<and> \<not> de_host_up env i
           then perform_loop env its (host_down i ob ps1)
           else if kind_of env ob = Some K_Sum
           then let tk = take_sum (do_type_id ob) (ps_cur_host ps1) (do_script ob) its;
                    grp = (i, ob) # fst tk;
                    objs = sum_objects grp (opt_or (ps_host_objects ps1 (do_type_id ob)) []);
                    ps2 = ps1\<lparr>ps_host_objects := (ps_host_objects ps1)(do_type_id ob \<mapsto> objs)\<rparr>
                in if de_cancelled env i then (None, ps2)
                   else (case run_sum env i ob grp objs ps2 of
                           (Some e, ps3) \<Rightarrow> (Some e, ps3)
                         | (None, ps3) \<Rightarrow> perform_loop env (snd tk) ps3)
           else if de_cancelled env i then (None, ps1)
           else (case run_object env i ob (kind_of env ob) ps1 of
                   (Some e, ps2) \<Rightarrow> (Some e, ps2)
                 | (None, ps2) \<Rightarrow> perform_loop env its ps2))"
  by pat_completeness auto

termination
  by (relation "measure (\<lambda>(env, its, ps). length its)")
    (auto simp: less_Suc_eq_le intro: take_sum_length order.trans [OF take_sum_length])

definition perform_deploy ::
  "deploy_env \<Rightarrow> (string + (int \<rightharpoonup> itype)) \<Rightarrow> run_token \<Rightarrow> world \<times> table
    \<Rightarrow> deploy_error option \<times> world \<times> table" where
  "perform_deploy env types rt wt =
     (case deploy_begin rt (w_dep (fst wt)) of
        (None, d) \<Rightarrow> (None, update_deployment (\<lambda>_. d) (fst wt), snd wt)
      | (Some obs, d) \<Rightarrow>
          (let w1 = update_deployment (\<lambda>_. d) (fst wt)
           in case types of
                Inl e \<Rightarrow> (Some (TypesError e), w1, snd wt)
              | Inr ts \<Rightarrow>
                  (case perform_loop (env\<lparr>de_types := ts\<rparr>) (List.enumerate 0 obs)
                          \<lparr>ps_world = w1, ps_rows = snd wt, ps_bad_host = False, ps_cur_host = - 1,
                           ps_host_objects = Map.empty\<rparr> of
                     (Some e, ps) \<Rightarrow> (Some e, ps_world ps, ps_rows ps)
                   | (None, ps) \<Rightarrow> (None, update_deployment deploy_end (ps_world ps), ps_rows ps))))"

section \<open>Only what succeeded is recorded\<close>

definition statuses :: "deployment \<Rightarrow> object_status list" where
  "statuses d = map do_status (dp_objects d)"

abbreviation osts :: "perform_state \<Rightarrow> object_status list" where
  "osts ps \<equiv> statuses (w_dep (ps_world ps))"

lemma statuses_simps [simp]:
  "statuses (add_log l d) = statuses d"
  "statuses (add_header n b d) = statuses d"
  "statuses (set_object_status i s d) = (statuses d)[i := s]"
  by (auto simp: statuses_def method_defs add_header_def map_update list_update_beyond)

lemma statuses_update_deployment [simp]:
  "statuses (w_dep (update_deployment f w)) = statuses (f (w_dep w))"
  by (simp add: statuses_def)

lemma statuses_mark_group:
  "length (statuses (mark_group st grp d)) = length (statuses d)
   \<and> (\<forall>j < length (statuses d). statuses (mark_group st grp d) ! j
        = (if j \<in> fst ` set grp then st else statuses d ! j))"
proof (induction grp arbitrary: d)
  case Nil
  then show ?case by (simp add: mark_group_def)
next
  case (Cons io grp)
  have "mark_group st (io # grp) d = mark_group st grp (set_object_status (fst io) st d)"
    by (simp add: mark_group_def)
  with Cons.IH [of "set_object_status (fst io) st d"] show ?case
    by (auto simp: nth_list_update)
qed

lemma on_dep_simps [simp]:
  "osts (on_dep f ps) = statuses (f (w_dep (ps_world ps)))"
  "ps_rows (on_dep f ps) = ps_rows ps"
  "ps_bad_host (on_dep f ps) = ps_bad_host ps"
  "ps_cur_host (on_dep f ps) = ps_cur_host ps"
  "ps_host_objects (on_dep f ps) = ps_host_objects ps"
  by (simp_all add: on_dep_def)

lemma add_lines_simps [simp]:
  "osts (add_lines ls ps) = osts ps"
  "ps_rows (add_lines ls ps) = ps_rows ps"
  "ps_bad_host (add_lines ls ps) = ps_bad_host ps"
  "ps_cur_host (add_lines ls ps) = ps_cur_host ps"
  unfolding add_lines_def by (induction ls arbitrary: ps) simp_all

lemma enter_host_simps [simp]:
  "osts (enter_host ob ps) = osts ps"
  "ps_rows (enter_host ob ps) = ps_rows ps"
  "ps_cur_host (enter_host ob ps) = do_host ob"
  by (simp_all add: enter_host_def)

definition recorded_kind :: "kind_type option \<Rightarrow> bool" where
  "recorded_kind k = (k \<noteq> None \<and> k \<noteq> Some K_Trigger)"

definition store :: "deployment_object \<Rightarrow> table \<Rightarrow> table" where
  "store ob t = (case set_deployment ob (do_type_id ob) t of Inl e \<Rightarrow> t | Inr t' \<Rightarrow> t')"

text \<open>The rows after recording the objects that succeeded, in order.\<close>

definition record_all :: "deploy_env \<Rightarrow> object_status list \<Rightarrow> indexed list \<Rightarrow> table \<Rightarrow> table" where
  "record_all env sts its t =
     fold (\<lambda>(i, ob) t. if sts ! i = OS_Success \<and> recorded_kind (kind_of env ob) then store ob t else t)
       its t"

lemma record_all_simps [simp]:
  "record_all env sts [] t = t"
  "record_all env sts ((i, ob) # its) t =
     record_all env sts its
       (if sts ! i = OS_Success \<and> recorded_kind (kind_of env ob) then store ob t else t)"
  "record_all env sts (xs @ ys) t = record_all env sts ys (record_all env sts xs t)"
  by (simp_all add: record_all_def)

lemma record_all_cong:
  "\<forall>i \<in> fst ` set its. sts ! i = sts' ! i \<Longrightarrow> record_all env sts its t = record_all env sts' its t"
  by (induction its arbitrary: t) auto

lemma record_all_none:
  "\<forall>i \<in> fst ` set its. sts ! i \<noteq> OS_Success \<Longrightarrow> record_all env sts its t = t"
  by (induction its arbitrary: t) auto

lemma take_sum_split:
  "\<exists>pre. its = pre @ snd (take_sum ty h s its)
     \<and> fst (take_sum ty h s its) = filter (\<lambda>io. do_enabled (snd io)) pre
     \<and> (\<forall>io \<in> set (fst (take_sum ty h s its)).
          do_type_id (snd io) = ty \<and> do_host (snd io) = h \<and> do_script (snd io) = s)"
proof (induction ty h s its rule: take_sum.induct)
  case (1 ty h s)
  then show ?case by simp
next
  case (2 ty h s i ob its)
  show ?case
  proof (cases "\<not> do_enabled ob")
    case True
    then show ?thesis using "2.IH"(1) by (metis (no_types, lifting) append_Cons filter.simps(2) snd_conv take_sum.simps(2))
  next
    case en: False
    show ?thesis
    proof (cases "do_type_id ob \<noteq> ty \<or> do_host ob \<noteq> h \<or> do_script ob \<noteq> s")
      case True
      with en show ?thesis by (intro exI [of _ "[]"]) simp
    next
      case False
      from "2.IH"(2) [OF en False] obtain pre where
        "its = pre @ snd (take_sum ty h s its)"
        "fst (take_sum ty h s its) = filter (\<lambda>io. do_enabled (snd io)) pre"
        "\<forall>io \<in> set (fst (take_sum ty h s its)).
          do_type_id (snd io) = ty \<and> do_host (snd io) = h \<and> do_script (snd io) = s" by blast
      with en False show ?thesis
        by (intro exI [of _ "(i, ob) # pre"]) (auto split: prod.splits)
    qed
  qed
qed

lemma record_group_rows:
  "record_group ty grp ps = (None, ps') \<Longrightarrow> \<forall>io \<in> set grp. do_type_id (snd io) = ty \<Longrightarrow>
   ps_rows ps' = fold (\<lambda>io. store (snd io)) grp (ps_rows ps) \<and> ps_world ps' = ps_world ps"
  by (induction ty grp ps rule: record_group.induct) (auto simp: store_def split: sum.splits)

lemma record_all_group:
  "(\<forall>io \<in> set pre. sts ! fst io = OS_Success \<longleftrightarrow> do_enabled (snd io)) \<Longrightarrow>
   \<forall>io \<in> set pre. do_enabled (snd io) \<longrightarrow> recorded_kind (kind_of env (snd io)) \<Longrightarrow>
   record_all env sts pre t = fold (\<lambda>io. store (snd io)) (filter (\<lambda>io. do_enabled (snd io)) pre) t"
  by (induction pre arbitrary: t) auto

text \<open>
  What a part of the loop does to the world: only the statuses of \<open>its\<close> change, and the rows
  change by recording exactly what succeeded.
\<close>

definition fresh :: "indexed list \<Rightarrow> perform_state \<Rightarrow> bool" where
  "fresh its ps =
     (distinct (map fst its)
      \<and> (\<forall>i \<in> fst ` set its. i < length (osts ps) \<and> osts ps ! i \<noteq> OS_Success))"

definition records :: "deploy_env \<Rightarrow> indexed list \<Rightarrow> perform_state \<Rightarrow> perform_state \<Rightarrow> bool" where
  "records env its ps ps' =
     (length (osts ps') = length (osts ps)
      \<and> (\<forall>j < length (osts ps). j \<notin> fst ` set its \<longrightarrow> osts ps' ! j = osts ps ! j)
      \<and> ps_rows ps' = record_all env (osts ps') its (ps_rows ps))"

lemma records_refl: "fresh its ps \<Longrightarrow> osts ps' = osts ps \<Longrightarrow> ps_rows ps' = ps_rows ps \<Longrightarrow> records env its ps ps'"
  by (auto simp: records_def fresh_def record_all_none)

lemma records_trans:
  assumes "fresh (xs @ ys) ps" and "records env xs ps ps1" and "records env ys ps1 ps'"
  shows "records env (xs @ ys) ps ps'"
proof -
  have disj: "fst ` set xs \<inter> fst ` set ys = {}" using assms(1) by (auto simp: fresh_def)
  have same: "\<forall>i \<in> fst ` set xs. osts ps1 ! i = osts ps' ! i"
  proof
    fix i assume i: "i \<in> fst ` set xs"
    then have "i < length (osts ps1)" "i \<notin> fst ` set ys"
      using disj assms(1,2) unfolding fresh_def records_def by (auto simp del: disjoint_iff)
    with assms(3) show "osts ps1 ! i = osts ps' ! i" unfolding records_def by simp
  qed
  have "record_all env (osts ps1) xs (ps_rows ps) = record_all env (osts ps') xs (ps_rows ps)"
    by (rule record_all_cong) (rule same)
  with assms(2,3) show ?thesis by (simp add: records_def image_Un)
qed

lemma fresh_rest:
  assumes "fresh (xs @ ys) ps" and "records env xs ps ps1"
  shows "fresh ys ps1"
proof -
  have disj: "fst ` set xs \<inter> fst ` set ys = {}" using assms(1) by (auto simp: fresh_def)
  have "i < length (osts ps1) \<and> osts ps1 ! i \<noteq> OS_Success" if i: "i \<in> fst ` set ys" for i
  proof -
    have "i \<notin> fst ` set xs" using disj i by blast
    moreover have "i < length (osts ps)" "osts ps ! i \<noteq> OS_Success"
      using i assms(1) unfolding fresh_def by auto
    ultimately show ?thesis using assms(2) unfolding records_def by simp
  qed
  with assms(1) show ?thesis by (simp add: fresh_def)
qed

lemma records_one:
  assumes "fresh [(i, ob)] ps" and "osts ps' = (osts ps)[i := st]"
    and "ps_rows ps' =
      (if st = OS_Success \<and> recorded_kind (kind_of env ob) then store ob (ps_rows ps) else ps_rows ps)"
  shows "records env [(i, ob)] ps ps'"
  using assms by (auto simp: records_def fresh_def)

lemma run_object_records:
  assumes "run_object env i ob (kind_of env ob) ps = (None, ps')" and "fresh [(i, ob)] ps"
  shows "records env [(i, ob)] ps ps'"
proof -
  obtain ls r where job: "run_job env i ob (kind_of env ob) = (ls, r)"
    by (cases "run_job env i ob (kind_of env ob)")
  show ?thesis
  proof (cases r)
    case (Inl e)
    show ?thesis
      by (rule records_one [OF assms(2), where st = OS_Failure])
        (use assms(1) job Inl in \<open>auto simp: run_object_def Let_def\<close>)
  next
    case (Inr u)
    show ?thesis
      by (rule records_one [OF assms(2), where st = OS_Success])
        (use assms(1) job Inr in \<open>auto simp: run_object_def Let_def recorded_kind_def store_def
          split: sum.splits if_splits\<close>)
  qed
qed

lemma fresh_enter [simp]: "fresh its (enter_host ob ps) = fresh its ps"
  by (simp add: fresh_def)

lemma records_enter [simp]: "records env its (enter_host ob ps) ps' = records env its ps ps'"
  by (simp add: records_def)

lemma fresh_host_objects [simp]: "fresh its (ps\<lparr>ps_host_objects := m\<rparr>) = fresh its ps"
  by (simp add: fresh_def)

lemma records_host_objects [simp]:
  "records env its (ps\<lparr>ps_host_objects := m\<rparr>) ps' = records env its ps ps'"
  by (simp add: records_def)

lemma mark_group_twice:
  "length (statuses (mark_group st grp (w_dep (ps_world (add_lines ls (on_dep (mark_group st' grp) ps))))))
     = length (osts ps)
   \<and> (\<forall>j < length (osts ps).
        statuses (mark_group st grp (w_dep (ps_world (add_lines ls (on_dep (mark_group st' grp) ps))))) ! j
        = (if j \<in> fst ` set grp then st else osts ps ! j))"
  using statuses_mark_group [of st grp "w_dep (ps_world (add_lines ls (on_dep (mark_group st' grp) ps)))"]
    statuses_mark_group [of st' grp "w_dep (ps_world ps)"] by simp

lemma run_sum_records:
  assumes run: "run_sum env i ob grp objs ps = (None, ps')"
    and grp: "grp = filter (\<lambda>io. do_enabled (snd io)) ((i, ob) # pre)"
    and fresh: "fresh ((i, ob) # pre) ps" and en: "do_enabled ob"
    and ty: "\<forall>io \<in> set pre. do_enabled (snd io) \<longrightarrow> do_type_id (snd io) = do_type_id ob"
    and kind: "kind_of env ob = Some K_Sum"
  shows "records env ((i, ob) # pre) ps ps'"
proof -
  let ?all = "(i, ob) # pre"
  have sub: "fst ` set grp \<subseteq> fst ` set ?all" unfolding grp by auto
  have fr: "j < length (osts ps) \<and> osts ps ! j \<noteq> OS_Success" if "j \<in> fst ` set ?all" for j
    using fresh that unfolding fresh_def by blast
  have in_grp: "fst io \<in> fst ` set grp \<longleftrightarrow> do_enabled (snd io)" if "io \<in> set ?all" for io
  proof
    assume "fst io \<in> fst ` set grp"
    then obtain io' where "io' \<in> set grp" "fst io' = fst io" by fastforce
    then have io': "io' \<in> set ?all" "do_enabled (snd io')" "fst io' = fst io"
      unfolding grp by (auto split: if_splits)
    have "distinct (map fst ?all)" using fresh by (simp add: fresh_def)
    then have "io' = io" using io'(1,3) that by (metis eq_key_imp_eq_value prod.collapse)
    with io'(2) show "do_enabled (snd io)" by simp
  qed (use that grp in auto)
  obtain ls r where job: "deploy_single (de_decode env)
      (host_client env i (do_script ob) (JObject [(''objects'', JObject objs)])) = (ls, r)"
    by (cases "deploy_single (de_decode env)
      (host_client env i (do_script ob) (JObject [(''objects'', JObject objs)]))")
  let ?ps1 = "add_lines ls (on_dep (mark_group OS_Deplying grp) ps)"
  have mark: "length (statuses (mark_group st grp (w_dep (ps_world ?ps1)))) = length (osts ps)"
    "\<forall>j < length (osts ps). statuses (mark_group st grp (w_dep (ps_world ?ps1))) ! j
       = (if j \<in> fst ` set grp then st else osts ps ! j)" for st
    using mark_group_twice [of st grp ls OS_Deplying ps] by simp_all
  show ?thesis
  proof (cases r)
    case (Inl e)
    with run job have ps': "osts ps' = statuses (mark_group OS_Failure grp (w_dep (ps_world ?ps1)))"
      "ps_rows ps' = ps_rows ps"
      unfolding run_sum_def by (auto simp: Let_def)
    have "osts ps' ! j \<noteq> OS_Success" if "j \<in> fst ` set ?all" for j
      using fr [OF that] mark(2) [of OS_Failure] unfolding ps'(1) by simp
    then have "record_all env (osts ps') ?all (ps_rows ps) = ps_rows ps"
      by (intro record_all_none) blast
    moreover have "osts ps' ! j = osts ps ! j" if "j < length (osts ps)" "j \<notin> fst ` set ?all" for j
      using that sub mark(2) [of OS_Failure] unfolding ps'(1) by auto
    ultimately show ?thesis using mark(1) [of OS_Failure] ps' by (simp add: records_def)
  next
    case (Inr u)
    let ?ps2 = "on_dep (mark_group OS_Success grp) ?ps1"
    from run job Inr have rec: "record_group (do_type_id ob) grp ?ps2 = (None, ps')"
      unfolding run_sum_def by (simp add: Let_def)
    have tys: "\<forall>io \<in> set grp. do_type_id (snd io) = do_type_id ob" using ty grp by auto
    from record_group_rows [OF rec tys] have ps': "osts ps' = osts ?ps2"
      "ps_rows ps' = fold (\<lambda>io. store (snd io)) grp (ps_rows ps)" by simp_all
    have st: "osts ps' ! j = (if j \<in> fst ` set grp then OS_Success else osts ps ! j)"
      if "j < length (osts ps)" for j
      using mark(2) [of OS_Success] that unfolding ps'(1) by simp
    have "\<forall>io \<in> set ?all. osts ps' ! fst io = OS_Success \<longleftrightarrow> do_enabled (snd io)"
    proof
      fix io assume io: "io \<in> set ?all"
      then have "fst io \<in> fst ` set ?all" by (rule imageI)
      from st fr [OF this] in_grp [OF io] show "osts ps' ! fst io = OS_Success \<longleftrightarrow> do_enabled (snd io)"
        by simp
    qed
    moreover have "\<forall>io \<in> set ?all. do_enabled (snd io) \<longrightarrow> recorded_kind (kind_of env (snd io))"
      using ty kind by (auto simp: kind_of_def recorded_kind_def)
    ultimately have "record_all env (osts ps') ?all (ps_rows ps) = fold (\<lambda>io. store (snd io)) grp (ps_rows ps)"
      unfolding grp by (rule record_all_group)
    moreover have "osts ps' ! j = osts ps ! j" if "j < length (osts ps)" "j \<notin> fst ` set ?all" for j
      using st that sub by auto
    ultimately show ?thesis using mark(1) [of OS_Success] ps' by (simp add: records_def)
  qed
qed

lemma perform_loop_records:
  "perform_loop env its ps = (None, ps') \<Longrightarrow> fresh its ps \<Longrightarrow> records env its ps ps'"
proof (induction env its ps rule: perform_loop.induct)
  case (1 env ps)
  then show ?case by (simp add: records_def)
next
  case (2 env i ob its ps)
  let ?ps1 = "enter_host ob ps"
  have fr: "fresh ([(i, ob)] @ its) ps" using "2.prems"(2) by simp
  then have fr1: "fresh [(i, ob)] ps" by (simp add: fresh_def)
  have go: "records env ((i, ob) # its) ps ps'"
    if "records env [(i, ob)] ps q" and "fresh its q \<Longrightarrow> records env its q ps'" for q
    using records_trans [OF fr that(1)] that(2) fresh_rest [OF fr that(1)] by simp
  show ?case
  proof (cases "do_enabled ob")
    case False
    have "records env [(i, ob)] ps ps" by (rule records_refl [OF fr1]) simp_all
    then show ?thesis
      by (rule go) (rule "2.IH"(1) [OF False]; use "2.prems"(1) False in simp)
  next
    case en: True
    show ?thesis
    proof (cases "ps_bad_host ?ps1")
      case bad: True
      have "records env [(i, ob)] ps (on_dep (set_object_status i OS_Failure) ?ps1)"
        by (rule records_one [OF fr1, where st = OS_Failure]) simp_all
      then show ?thesis
        by (rule go) (rule "2.IH"(2); use "2.prems"(1) en bad in simp)
    next
      case good: False
      show ?thesis
      proof (cases "\<not> de_mark_only env \<and> \<not> de_host_up env i")
        case down: True
        have "records env [(i, ob)] ps (host_down i ob ?ps1)"
          by (rule records_one [OF fr1, where st = OS_Failure]) (simp_all add: host_down_def)
        then show ?thesis
          by (rule go) (rule "2.IH"(3); use "2.prems"(1) en good down in simp)
      next
        case up: False
        show ?thesis
        proof (cases "kind_of env ob = Some K_Sum")
          case sum: True
          let ?tk = "take_sum (do_type_id ob) (ps_cur_host ?ps1) (do_script ob) its"
          let ?objs = "sum_objects ((i, ob) # fst ?tk) (opt_or (ps_host_objects ?ps1 (do_type_id ob)) [])"
          let ?ps2 = "?ps1\<lparr>ps_host_objects := (ps_host_objects ?ps1)(do_type_id ob \<mapsto> ?objs)\<rparr>"
          show ?thesis
          proof (cases "de_cancelled env i")
            case True
            with "2.prems"(1) en good up sum have "ps' = ?ps2" by (simp add: Let_def)
            then show ?thesis using records_refl [OF "2.prems"(2), of ?ps2] by simp
          next
            case False
            obtain pre where pre: "its = pre @ snd ?tk"
              "fst ?tk = filter (\<lambda>io. do_enabled (snd io)) pre"
              "\<forall>io \<in> set (fst ?tk). do_type_id (snd io) = do_type_id ob"
              using take_sum_split [of its "do_type_id ob" "ps_cur_host ?ps1" "do_script ob"] by blast
            obtain e ps3 where run: "run_sum env i ob ((i, ob) # fst ?tk) ?objs ?ps2 = (e, ps3)"
              by (cases "run_sum env i ob ((i, ob) # fst ?tk) ?objs ?ps2")
            have e: "e = None" and rest: "perform_loop env (snd ?tk) ps3 = (None, ps')"
              using "2.prems"(1) en good up sum False run
              by (auto simp: Let_def split: option.splits)
            have fr2: "fresh (((i, ob) # pre) @ snd ?tk) ps" using "2.prems"(2) pre(1) by simp
            then have fr3: "fresh ((i, ob) # pre) ?ps2" by (simp add: fresh_def)
            have "records env ((i, ob) # pre) ?ps2 ps3"
              by (rule run_sum_records [OF run [unfolded e] _ fr3 en]) (use pre(2,3) sum en in auto)
            then have r1: "records env ((i, ob) # pre) ps ps3" by simp
            have "records env (snd ?tk) ps3 ps'"
              by (rule "2.IH"(4) [OF _ refl good up sum refl refl refl refl False run [symmetric] e
                    rest fresh_rest [OF fr2 r1]]) (use en in simp)
            from records_trans [OF fr2 r1 this] pre(1) show ?thesis by simp
          qed
        next
          case single: False
          show ?thesis
          proof (cases "de_cancelled env i")
            case True
            with "2.prems"(1) en good up single have "ps' = ?ps1" by (simp add: Let_def)
            then show ?thesis using records_refl [OF "2.prems"(2), of ?ps1] by simp
          next
            case False
            obtain e q where run: "run_object env i ob (kind_of env ob) ?ps1 = (e, q)"
              by (cases "run_object env i ob (kind_of env ob) ?ps1")
            have e: "e = None" and rest: "perform_loop env its q = (None, ps')"
              using "2.prems"(1) en good up single False run
              by (auto simp: Let_def split: option.splits)
            have "records env [(i, ob)] ps q"
              using run_object_records [OF run [unfolded e]] fr1 by simp
            then show ?thesis
              by (rule go) (rule "2.IH"(5) [OF _ refl good up single False run [symmetric] e rest];
                use en in simp)
          qed
        qed
      qed
    qed
  qed
qed

section \<open>When a deployment stops early\<close>

text \<open>The only object that can make the loop fail is one to be recorded that has no id.\<close>

definition unrecordable :: "deploy_env \<Rightarrow> deployment_object \<Rightarrow> bool" where
  "unrecordable env ob =
     (do_enabled ob \<and> recorded_kind (kind_of env ob) \<and> do_next_content ob \<noteq> None \<and> do_id ob = None)"

lemma set_deployment_error:
  "set_deployment ob ty t = Inl e \<Longrightarrow> e = MissingId \<and> do_next_content ob \<noteq> None \<and> do_id ob = None"
  by (auto simp: set_deployment_def split: option.splits)

lemma record_group_error:
  "record_group ty grp ps = (Some e, ps') \<Longrightarrow>
   e = MissingId \<and> (\<exists>io \<in> set grp. do_next_content (snd io) \<noteq> None \<and> do_id (snd io) = None)"
  by (induction ty grp ps rule: record_group.induct)
    (auto dest: set_deployment_error split: sum.splits)

lemma run_object_error:
  "run_object env i ob k ps = (Some e, ps') \<Longrightarrow>
   e = MissingId \<and> recorded_kind k \<and> do_next_content ob \<noteq> None \<and> do_id ob = None"
  by (auto simp: run_object_def Let_def recorded_kind_def dest: set_deployment_error
      split: prod.splits sum.splits if_splits)

lemma run_sum_error:
  "run_sum env i ob grp objs ps = (Some e, ps') \<Longrightarrow> \<exists>q. record_group (do_type_id ob) grp q = (Some e, ps')"
  by (auto simp: run_sum_def Let_def split: prod.splits sum.splits)

lemma perform_loop_error:
  "perform_loop env its ps = (Some e, ps') \<Longrightarrow> e = MissingId \<and> (\<exists>io \<in> set its. unrecordable env (snd io))"
proof (induction env its ps rule: perform_loop.induct)
  case (1 env ps)
  then show ?case by simp
next
  case (2 env i ob its ps)
  let ?ps1 = "enter_host ob ps"
  show ?case
  proof (cases "do_enabled ob")
    case False
    with 2 show ?thesis by auto
  next
    case en: True
    show ?thesis
    proof (cases "ps_bad_host ?ps1 \<or> (\<not> de_mark_only env \<and> \<not> de_host_up env i)")
      case True
      show ?thesis
      proof (cases "ps_bad_host ?ps1")
        case bad: True
        have "perform_loop env its (on_dep (set_object_status i OS_Failure) ?ps1) = (Some e, ps')"
          using "2.prems" en bad by simp
        from "2.IH"(2) [OF _ refl bad this] en show ?thesis by auto
      next
        case good: False
        with True have down: "\<not> de_mark_only env \<and> \<not> de_host_up env i" by simp
        have "perform_loop env its (host_down i ob ?ps1) = (Some e, ps')"
          using "2.prems" en good down by simp
        from "2.IH"(3) [OF _ refl good down this] en show ?thesis by auto
      qed
    next
      case False
      then have good: "\<not> ps_bad_host ?ps1" and up: "\<not> (\<not> de_mark_only env \<and> \<not> de_host_up env i)"
        by simp_all
      have run_on: "\<not> de_cancelled env i"
        using "2.prems" en good up by (auto simp: Let_def split: if_splits)
      show ?thesis
      proof (cases "kind_of env ob = Some K_Sum")
        case sum: True
        let ?tk = "take_sum (do_type_id ob) (ps_cur_host ?ps1) (do_script ob) its"
        let ?objs = "sum_objects ((i, ob) # fst ?tk) (opt_or (ps_host_objects ?ps1 (do_type_id ob)) [])"
        let ?ps2 = "?ps1\<lparr>ps_host_objects := (ps_host_objects ?ps1)(do_type_id ob \<mapsto> ?objs)\<rparr>"
        obtain pre where pre: "its = pre @ snd ?tk" "fst ?tk = filter (\<lambda>io. do_enabled (snd io)) pre"
          "\<forall>io \<in> set (fst ?tk). do_type_id (snd io) = do_type_id ob"
          using take_sum_split [of its "do_type_id ob" "ps_cur_host ?ps1" "do_script ob"] by blast
        have grp: "io \<in> set ((i, ob) # its) \<and> do_enabled (snd io) \<and> recorded_kind (kind_of env (snd io))"
          if "io \<in> set ((i, ob) # fst ?tk)" for io
        proof -
          have "io \<in> set ((i, ob) # its)" using that pre(1,2) by (metis filter_is_subset
                in_mono list.set_intros(2) set_ConsD list.set_intros(1) UnI1 set_append)
          moreover have "do_enabled (snd io)" using that en pre(2) by auto
          moreover have "do_type_id (snd io) = do_type_id ob" using that pre(3) by auto
          ultimately show ?thesis using sum by (simp add: kind_of_def recorded_kind_def)
        qed
        obtain r ps3 where run: "run_sum env i ob ((i, ob) # fst ?tk) ?objs ?ps2 = (r, ps3)"
          by (cases "run_sum env i ob ((i, ob) # fst ?tk) ?objs ?ps2")
        show ?thesis
        proof (cases r)
          case None
          then have "perform_loop env (snd ?tk) ps3 = (Some e, ps')"
            using "2.prems" en good up sum run run_on by (simp add: Let_def)
          from "2.IH"(4) [OF _ refl good up sum refl refl refl refl run_on run [symmetric] None this]
          have "e = MissingId \<and> (\<exists>io \<in> set (snd ?tk). unrecordable env (snd io))"
            using en by simp
          then show ?thesis using pre(1) by (metis UnI2 list.set_intros(2) set_append)
        next
          case (Some e')
          then have e': "e' = e" "ps3 = ps'"
            using "2.prems" en good up sum run run_on by (simp_all add: Let_def)
          obtain q where "record_group (do_type_id ob) ((i, ob) # fst ?tk) q = (Some e, ps3)"
            using run_sum_error run Some e'(1) by blast
          from record_group_error [OF this] obtain io where
            "e = MissingId" "io \<in> set ((i, ob) # fst ?tk)" "do_next_content (snd io) \<noteq> None"
            "do_id (snd io) = None" by blast
          with grp show ?thesis unfolding unrecordable_def by blast
        qed
      next
        case single: False
        obtain r q where run: "run_object env i ob (kind_of env ob) ?ps1 = (r, q)"
          by (cases "run_object env i ob (kind_of env ob) ?ps1")
        show ?thesis
        proof (cases r)
          case None
          then have "perform_loop env its q = (Some e, ps')"
            using "2.prems" en good up single run run_on by (simp add: Let_def)
          from "2.IH"(5) [OF _ refl good up single run_on run [symmetric] None this] en
          show ?thesis by auto
        next
          case (Some e')
          then have "e' = e" using "2.prems" en good up single run run_on by (simp add: Let_def)
          with run_object_error [of env i ob "kind_of env ob" ?ps1 e' q] run Some en
          show ?thesis by (auto simp: unrecordable_def)
        qed
      qed
    qed
  qed
qed

section \<open>No object is left in progress\<close>

definition calm :: "perform_state \<Rightarrow> bool" where
  "calm ps = (OS_Deplying \<notin> set (osts ps))"

lemma not_in_update: "x \<notin> set xs \<Longrightarrow> x \<noteq> y \<Longrightarrow> x \<notin> set (xs[i := y])"
  using set_update_subset_insert [of xs i y] by auto

lemma not_in_updates: "x \<notin> set xs \<Longrightarrow> x \<noteq> y \<Longrightarrow> x \<notin> set (xs[i := z, i := y])"
  by (simp add: not_in_update)

lemma run_object_calm:
  "run_object env i ob k ps = (None, q) \<Longrightarrow> calm ps \<Longrightarrow> calm q"
  by (auto simp: run_object_def Let_def calm_def not_in_update
      split: prod.splits sum.splits if_splits)

lemma record_group_osts: "record_group ty grp ps = (r, q) \<Longrightarrow> osts q = osts ps"
  by (induction ty grp ps rule: record_group.induct) (auto split: sum.splits)

lemma mark_group_calm:
  assumes "OS_Deplying \<notin> set (statuses d)" and "st \<noteq> OS_Deplying"
    and same: "statuses d' = statuses (mark_group OS_Deplying grp d)"
  shows "OS_Deplying \<notin> set (statuses (mark_group st grp d'))"
proof -
  note m1 = statuses_mark_group [of OS_Deplying grp d] and m2 = statuses_mark_group [of st grp d']
  have "statuses (mark_group st grp d') ! j \<noteq> OS_Deplying"
    if "j < length (statuses (mark_group st grp d'))" for j
  proof (cases "j \<in> fst ` set grp")
    case True
    then show ?thesis using m2 that assms(2) by simp
  next
    case False
    then have "statuses (mark_group st grp d') ! j = statuses d ! j" "j < length (statuses d)"
      using m1 m2 that same by simp_all
    then show ?thesis using assms(1) by (metis nth_mem)
  qed
  then show ?thesis by (metis in_set_conv_nth)
qed

lemma run_sum_calm:
  assumes "run_sum env i ob grp objs ps = (None, q)" and "calm ps"
  shows "calm q"
proof -
  obtain ls r where run: "deploy_single (de_decode env)
      (host_client env i (do_script ob) (JObject [(''objects'', JObject objs)])) = (ls, r)" by fastforce
  let ?ps1 = "on_dep (mark_group OS_Deplying grp) ps"
  have lines: "OS_Deplying \<notin> set (osts (on_dep (mark_group st grp) (add_lines ls ?ps1)))"
    if "st \<noteq> OS_Deplying" for st
    using mark_group_calm [of "w_dep (ps_world ps)" st] assms(2) that by (simp add: calm_def)
  show ?thesis
  proof (cases r)
    case (Inl e)
    with assms(1) run lines [of OS_Failure] show ?thesis
      by (auto simp: run_sum_def Let_def calm_def)
  next
    case (Inr u)
    with assms(1) run have "record_group (do_type_id ob) grp (on_dep (mark_group OS_Success grp) (add_lines ls ?ps1)) = (None, q)"
      by (simp add: run_sum_def Let_def)
    from record_group_osts [OF this] lines [of OS_Success] show ?thesis by (simp add: calm_def)
  qed
qed

lemma perform_loop_calm: "perform_loop env its ps = (None, ps') \<Longrightarrow> calm ps \<Longrightarrow> calm ps'"
proof (induction env its ps rule: perform_loop.induct)
  case (1 env ps)
  then show ?case by simp
next
  case (2 env i ob its ps)
  let ?ps1 = "enter_host ob ps"
  have c1: "calm ?ps1" using "2.prems"(2) by (simp add: calm_def)
  show ?case
  proof (cases "do_enabled ob")
    case False
    with 2 show ?thesis by auto
  next
    case en: True
    show ?thesis
    proof (cases "ps_bad_host ?ps1")
      case bad: True
      have "perform_loop env its (on_dep (set_object_status i OS_Failure) ?ps1) = (None, ps')"
        using "2.prems" en bad by simp
      from "2.IH"(2) [OF _ refl bad this] en c1 show ?thesis by (simp add: calm_def not_in_update)
    next
      case good: False
      show ?thesis
      proof (cases "\<not> de_mark_only env \<and> \<not> de_host_up env i")
        case down: True
        have "perform_loop env its (host_down i ob ?ps1) = (None, ps')"
          using "2.prems" en good down by simp
        moreover have "calm (host_down i ob ?ps1)"
          using c1 by (simp add: host_down_def calm_def not_in_update on_dep_def)
        ultimately show ?thesis using "2.IH"(3) [OF _ refl good down] en by simp
      next
        case up: False
        show ?thesis
        proof (cases "de_cancelled env i")
          case True
          then have "ps' = ?ps1 \<or> (\<exists>objs. ps' = ?ps1\<lparr>ps_host_objects := objs\<rparr>)"
            using "2.prems"(1) en good up by (auto simp: Let_def split: if_splits)
          with c1 show ?thesis by (auto simp: calm_def)
        next
          case run_on: False
          show ?thesis
          proof (cases "kind_of env ob = Some K_Sum")
            case sum: True
            let ?tk = "take_sum (do_type_id ob) (ps_cur_host ?ps1) (do_script ob) its"
            let ?objs = "sum_objects ((i, ob) # fst ?tk) (opt_or (ps_host_objects ?ps1 (do_type_id ob)) [])"
            let ?ps2 = "?ps1\<lparr>ps_host_objects := (ps_host_objects ?ps1)(do_type_id ob \<mapsto> ?objs)\<rparr>"
            obtain r ps3 where run: "run_sum env i ob ((i, ob) # fst ?tk) ?objs ?ps2 = (r, ps3)" by fastforce
            then have r: "r = None" and rest: "perform_loop env (snd ?tk) ps3 = (None, ps')"
              using "2.prems"(1) en good up sum run_on by (auto simp: Let_def split: option.splits)
            have "calm ps3" using run_sum_calm [OF run [unfolded r]] c1 by (simp add: calm_def)
            from "2.IH"(4) [OF _ refl good up sum refl refl refl refl run_on run [symmetric] r rest this] en
            show ?thesis by simp
          next
            case single: False
            obtain r q where run: "run_object env i ob (kind_of env ob) ?ps1 = (r, q)" by fastforce
            then have r: "r = None" and rest: "perform_loop env its q = (None, ps')"
              using "2.prems"(1) en good up single run_on by (auto simp: Let_def split: option.splits)
            from "2.IH"(5) [OF _ refl good up single run_on run [symmetric] r rest
                run_object_calm [OF run [unfolded r] c1]] en
            show ?thesis by simp
          qed
        qed
      qed
    qed
  qed
qed

section \<open>Properties\<close>

lemma fresh_enumerate:
  assumes "\<forall>ob \<in> set (dp_objects (w_dep (ps_world ps))). do_status ob \<noteq> OS_Success"
  shows "fresh (List.enumerate 0 (dp_objects (w_dep (ps_world ps)))) ps"
  using assms by (auto simp: fresh_def statuses_def in_set_enumerate_eq)

lemma only_success:
  assumes "perform_deploy env (Inr ts) rt (w, t) = (None, w', t')"
    and "dp_status (w_dep w) = ReviewChanges"
    and "\<forall>ob \<in> set (dp_objects (w_dep w)). do_status ob \<noteq> OS_Success"
  shows "dp_status (w_dep w') = Done
    \<and> t' = record_all (env\<lparr>de_types := ts\<rparr>) (statuses (w_dep w'))
             (List.enumerate 0 (dp_objects (w_dep w))) t"
proof -
  let ?w1 = "update_deployment (\<lambda>_. snd (deploy_begin rt (w_dep w))) w"
  let ?ps = "\<lparr>ps_world = ?w1, ps_rows = t, ps_bad_host = False, ps_cur_host = - 1,
              ps_host_objects = Map.empty\<rparr>"
  let ?its = "List.enumerate 0 (dp_objects (w_dep w))"
  have started: "fst (deploy_begin rt (w_dep w)) = Some (dp_objects (w_dep w))"
    "dp_objects (snd (deploy_begin rt (w_dep w))) = dp_objects (w_dep w)"
    using assms(2) by (simp_all add: deploy_begin_def Let_def method_defs)
  obtain ps where ps: "perform_loop (env\<lparr>de_types := ts\<rparr>) ?its ?ps = (None, ps)"
    "w' = update_deployment deploy_end (ps_world ps)" "t' = ps_rows ps"
    using assms(1) started(1) unfolding perform_deploy_def
    by (cases "deploy_begin rt (w_dep w)") (auto simp: Let_def split: prod.splits option.splits)
  have "fresh ?its ?ps"
    using fresh_enumerate [of ?ps] assms(3) started(2) by simp
  from perform_loop_records [OF ps(1) this]
  have "ps_rows ps = record_all (env\<lparr>de_types := ts\<rparr>) (osts ps) ?its t" by (simp add: records_def)
  moreover have "statuses (w_dep w') = osts ps"
    unfolding ps(2) by (simp add: deploy_end_def statuses_def method_defs)
  ultimately show ?thesis
    using ps(2,3) by (simp add: deploy_end_def method_defs)
qed

text \<open>C9: only what a host reported as done is recorded. When a deployment has run to its end the
  status is \<open>Done\<close>, and the table of deployed objects is the old one changed by exactly the
  objects whose final status is \<open>Success\<close> (and whose type is recorded at all), in order:
  an object that failed, was skipped, disabled or never reached leaves no trace.\<close>

theorem only_success_recorded:
  assumes "perform_deploy env (Inr ts) rt (w, t) = (None, w', t')"
    and "dp_status (w_dep w) = ReviewChanges"
    and "\<forall>ob \<in> set (dp_objects (w_dep w)). do_status ob \<noteq> OS_Success"
  shows "dp_status (w_dep w') = Done
    \<and> t' = record_all (env\<lparr>de_types := ts\<rparr>) (statuses (w_dep w'))
             (List.enumerate 0 (dp_objects (w_dep w))) t"
  using assms by (rule only_success)

text \<open>C29: a deployment under review whose objects can be recorded (it has no enabled object that
  would have to be recorded and has no id, which a trigger whose type is not of kind trigger
  is), and of which none is marked as in progress, runs to its end: without an error, in status
  \<open>Done\<close>, and with no object in progress, whatever hosts are down, whatever jobs answer and
  wherever it is cancelled.\<close>

theorem deploy_completes:
  assumes "\<forall>ob \<in> set (dp_objects (w_dep w)). \<not> unrecordable (env\<lparr>de_types := ts\<rparr>) ob"
    and "dp_status (w_dep w) = ReviewChanges" and "OS_Deplying \<notin> do_status ` set (dp_objects (w_dep w))"
  shows "\<exists>w' t'. perform_deploy env (Inr ts) rt (w, t) = (None, w', t')
    \<and> dp_status (w_dep w') = Done \<and> OS_Deplying \<notin> do_status ` set (dp_objects (w_dep w'))"
proof -
  let ?obs = "dp_objects (w_dep w)"
  obtain d where start: "deploy_begin rt (w_dep w) = (Some ?obs, d)" "dp_objects d = ?obs"
    using assms(2) by (simp add: deploy_begin_def Let_def method_defs)
  let ?ps = "\<lparr>ps_world = update_deployment (\<lambda>_. d) w, ps_rows = t, ps_bad_host = False,
        ps_cur_host = - 1, ps_host_objects = Map.empty\<rparr>"
  obtain e ps where loop: "perform_loop (env\<lparr>de_types := ts\<rparr>) (List.enumerate 0 ?obs) ?ps = (e, ps)"
    by fastforce
  have in_obs: "snd io \<in> set ?obs" if "io \<in> set (List.enumerate 0 ?obs)" for io
    using that nth_mem [of "fst io" ?obs] by (simp add: in_set_enumerate_eq)
  have "e = None"
    using perform_loop_error [of "env\<lparr>de_types := ts\<rparr>" "List.enumerate 0 ?obs" ?ps _ ps] loop in_obs assms(1)
    by (cases e) blast+
  moreover have "calm ?ps" using assms(3) start(2) by (simp add: calm_def statuses_def)
  ultimately have c: "calm ps" "e = None" using perform_loop_calm [of _ _ ?ps ps] loop by simp_all
  have "perform_deploy env (Inr ts) rt (w, t) = (None, update_deployment deploy_end (ps_world ps), ps_rows ps)"
    using start loop c(2) by (simp add: perform_deploy_def Let_def)
  moreover have "dp_status (deploy_end (w_dep (ps_world ps))) = Done"
    "dp_objects (deploy_end (w_dep (ps_world ps))) = dp_objects (w_dep (ps_world ps))"
    by (simp_all add: deploy_end_def method_defs)
  ultimately show ?thesis using c(1) by (simp add: calm_def statuses_def)
qed

text \<open>Witnesses: a plan with one object of a recorded type, marked as deployed.\<close>

definition demo_world :: world where
  "demo_world = \<lparr>w_dep = deployment_default\<lparr>dp_status := ReviewChanges, dp_objects := [demo_object]\<rparr>,
     w_sent = [], w_cancelled = {}\<rparr>"

definition demo_types :: "int \<rightharpoonup> itype" where
  "demo_types = [9 \<mapsto> itype_default\<lparr>ty_kind := Some K_Delta\<rparr>]"

definition demo_deploy_env :: deploy_env where
  "demo_deploy_env = \<lparr>de_types = Map.empty, de_mark_only = True, de_host_up = (\<lambda>_. False),
     de_cancelled = (\<lambda>_. False), de_job = (\<lambda>_ _ _. \<lparr>jb_messages = [], jb_race = R_Job\<rparr>),
     de_decode = Some, de_show = (\<lambda>_. [])\<rparr>"

theorem deploy_completes_witness:
  "\<exists>w' t'. perform_deploy demo_deploy_env (Inr demo_types) 1 (demo_world, []) = (None, w', t')
     \<and> dp_status (w_dep w') = Done \<and> OS_Deplying \<notin> do_status ` set (dp_objects (w_dep w'))"
  by (rule deploy_completes) (simp_all add: demo_world_def demo_object_def unrecordable_def)

theorem only_success_recorded_witness:
  "\<exists>w' t'. perform_deploy demo_deploy_env (Inr demo_types) 1 (demo_world, []) = (None, w', t')
    \<and> dp_status (w_dep w') = Done
    \<and> t' = record_all (demo_deploy_env\<lparr>de_types := demo_types\<rparr>) (statuses (w_dep w'))
             (List.enumerate 0 [demo_object]) []"
proof -
  obtain r w' t' where run: "perform_deploy demo_deploy_env (Inr demo_types) 1 (demo_world, []) = (r, w', t')"
    by (cases "perform_deploy demo_deploy_env (Inr demo_types) 1 (demo_world, [])") auto
  have "fst (perform_deploy demo_deploy_env (Inr demo_types) 1 (demo_world, [])) = None"
    by (simp add: perform_deploy_def deploy_begin_def demo_world_def Let_def method_defs
        deployment_default_def demo_deploy_env_def demo_object_def demo_types_def kind_of_def
        enter_host_def run_object_def run_job_def host_client_def deploy_single_def
        set_deployment_def on_dep_def add_lines_def)
  with run have r: "r = None" by simp
  have "dp_status (w_dep demo_world) = ReviewChanges" "dp_objects (w_dep demo_world) = [demo_object]"
    by (simp_all add: demo_world_def)
  with only_success_recorded [OF run [unfolded r]] run r show ?thesis
    by (auto simp: demo_object_def)
qed

end
