(* ===== verification/Convergence.thy ===== *)
theory Convergence
  imports Perform_Deploy
begin

text \<open>
  Deployment as a whole: planning a host (\<open>Host_Diff\<close>) and recording what was deployed
  (\<open>Perform_Deploy\<close>) fit together. After a deployment of the plan of a host in which every
  recorded object succeeded, planning the host again finds nothing to do.
\<close>

section \<open>Recording, seen by one host\<close>

definition row_of :: "deployment_object \<Rightarrow> old_content option" where
  "row_of ob =
     (case (do_next_content ob, do_id ob) of
        (Some content, Some i) \<Rightarrow>
          Some \<lparr>oc_content = \<lparr>dc_script = Some (do_script ob), dc_content = Some content,
                  dc_triggers = do_triggers ob, dc_deployment_order = do_deployment_order ob,
                  dc_type_name = do_type_name ob, dc_object = i\<rparr>,
                oc_type = do_type_id ob, oc_title = do_title ob\<rparr>
      | _ \<Rightarrow> None)"

definition recordable :: "deployment_object \<Rightarrow> bool" where
  "recordable ob = (do_next_content ob = None \<or> do_id ob \<noteq> None)"

definition store_row :: "deployment_object \<Rightarrow> old_rows \<Rightarrow> old_rows" where
  "store_row ob rows =
     rows_remove (do_name ob) rows
       @ (case row_of ob of None \<Rightarrow> [] | Some c \<Rightarrow> [(do_name ob, c)])"

lemma select_host_delete:
  "select_host h (delete_row h' n t) = (if h' = h then rows_remove n (select_host h t) else select_host h t)"
  by (induction t) (auto simp: select_host_def delete_row_def rows_remove_def)

lemma select_host_append: "select_host h (t @ u) = select_host h t @ select_host h u"
  by (simp add: select_host_def)

lemma select_host_store:
  "recordable ob \<Longrightarrow>
   select_host h (store ob t) =
     (if do_host ob = h then store_row ob (select_host h t) else select_host h t)"
  by (auto simp: store_def set_deployment_def replace_row_def recordable_def store_row_def row_of_def
      select_host_delete select_host_append split: option.splits)
    (simp_all add: select_host_def)

lemma select_host_fold_store:
  "\<forall>ob \<in> set obs. recordable ob \<Longrightarrow>
   select_host h (fold store obs t)
     = fold store_row (filter (\<lambda>ob. do_host ob = h) obs) (select_host h t)"
  by (induction obs arbitrary: t) (auto simp: select_host_store)

lemma map_of_store_row:
  "map_of (store_row ob rows) k = (if k = do_name ob then row_of ob else map_of rows k)"
  by (cases "row_of ob") (auto simp: store_row_def map_add_def map_of_rows_remove split: option.splits)

lemma map_of_fold_store_row:
  "distinct (map do_name obs) \<Longrightarrow>
   map_of (fold store_row obs rows) k =
     (case map_of (map (\<lambda>ob. (do_name ob, row_of ob)) obs) k of
        Some r \<Rightarrow> r | None \<Rightarrow> map_of rows k)"
proof (induction obs arbitrary: rows)
  case (Cons ob obs)
  then have "map_of (map (\<lambda>ob. (do_name ob, row_of ob)) obs) (do_name ob) = None"
    by (auto simp: map_of_eq_None_iff)
  with Cons show ?case by (auto simp: map_of_store_row split: option.splits)
qed simp

section \<open>Planning again\<close>

lemma mset_insert_by: "mset (insert_by c x xs) = add_mset x (mset xs)"
  by (induction xs) auto

lemma mset_sort_by: "mset (sort_by c xs) = mset xs"
  by (induction xs) (simp_all add: mset_insert_by)

lemma distinct_sort_by_map: "distinct (map f (sort_by c xs)) \<longleftrightarrow> distinct (map f xs)"
  by (metis mset_map mset_sort_by mset_eq_imp_distinct_iff)

text \<open>The objects planned for a host, apart from its triggers.\<close>

definition planned :: "host_env \<Rightarrow> arena \<Rightarrow> node_ref list \<Rightarrow> old_rows \<Rightarrow> deployment_object list" where
  "planned env g order rows =
     filter changed
       (filter (\<lambda>ob. deb_packages (o_content (he_host_object env)) \<or> do_type_id ob \<noteq> PACKAGE_ID)
          (map (node_object env (map_of rows)) (emitted env g order)))
     @ map (\<lambda>r. removal_object env r (the (dc_script (oc_content (snd r)))))
         (sort_by row_cmp (filter (\<lambda>r. fst r \<notin> n_name ` set (emitted env g order)) rows))"

lemma planned_result:
  assumes "\<forall>n \<in> set order. node_ok env (g ! n)" and "distinct (map n_name (emitted env g order))"
    and "\<forall>r \<in> set rows. fst r \<notin> n_name ` set (emitted env g order)
           \<longrightarrow> dc_script (oc_content (snd r)) \<noteq> None"
  shows "\<exists>st. emit_all (emit_node env g) order \<lparr>es_old = rows, es_out = []\<rparr> = Inr st
    \<and> host_deployment env True st
        = Inr (planned env g order rows
               @ map (trigger_object env) (collect_triggers (planned env g order rows)))"
proof -
  let ?nds = "emitted env g order"
  let ?st = "\<lparr>es_old = filter (\<lambda>r. fst r \<notin> n_name ` set ?nds) rows,
      es_out = map (node_object env (map_of rows)) ?nds\<rparr>"
  have emit: "emit_all (emit_node env g) order \<lparr>es_old = rows, es_out = []\<rparr> = Inr ?st"
    using emit_all_ok [OF assms(1,2), of "\<lparr>es_old = rows, es_out = []\<rparr>"] by simp
  have "host_objects env True ?st = Inr (planned env g order rows)"
    using removals_ok [of "sort_by row_cmp (es_old ?st)" env] assms(3)
    by (simp add: host_objects_def planned_def filter_id_conv)
  then have "host_deployment env True ?st
      = Inr (planned env g order rows
             @ map (trigger_object env) (collect_triggers (planned env g order rows)))"
    unfolding host_deployment_def by (simp only: res_bind_simps)
  with emit show ?thesis by blast
qed

lemma planned_names:
  assumes "distinct (map n_name (emitted env g order))" and "distinct (map fst rows)"
  shows "distinct (map do_name (planned env g order rows))"
proof -
  let ?nds = "emitted env g order"
  have names: "map do_name (map (node_object env (map_of rows)) ?nds) = map n_name ?nds"
    by (simp add: in_emitted)
  have "distinct (map do_name (filter P (filter Q (map (node_object env (map_of rows)) ?nds))))" for P Q
    using assms(1) unfolding names [symmetric] by (intro distinct_map_filter)
  moreover have "distinct (map fst (sort_by row_cmp (filter (\<lambda>r. fst r \<notin> n_name ` set ?nds) rows)))"
    unfolding distinct_sort_by_map using assms(2) by (rule distinct_map_filter)
  ultimately show ?thesis
    by (auto simp: planned_def o_def in_emitted)
qed

text \<open>The rows after recording the plan: each node of the host that is not a filtered package is
  recorded as it is wanted, and nothing but nodes is left.\<close>

lemma rows_after:
  assumes names: "distinct (map n_name (emitted env g order))" and rows: "distinct (map fst rows)"
    and nd: "nd \<in> set (emitted env g order)"
    and deb: "deb_packages (o_content (he_host_object env)) \<or> n_type_id nd \<noteq> PACKAGE_ID"
    and wf: "json_wf (JObject (n_content nd))"
  shows "\<exists>v. map_of (fold store_row (planned env g order rows) rows) (n_name nd) = Some v
    \<and> up_to_date v nd"
proof -
  let ?obs = "planned env g order rows"
  let ?ob = "node_object env (map_of rows) nd"
  have em: "node_emits env nd" using nd by (simp add: in_emitted)
  have after: "map_of (fold store_row ?obs rows) (n_name nd) =
     (case map_of (map (\<lambda>ob. (do_name ob, row_of ob)) ?obs) (n_name nd) of
        Some r \<Rightarrow> r | None \<Rightarrow> map_of rows (n_name nd))"
    by (rule map_of_fold_store_row [OF planned_names [OF names rows]])
  have d: "distinct (map fst (map (\<lambda>ob. (do_name ob, row_of ob)) ?obs))"
    using planned_names [OF names rows] by (simp add: o_def)
  show ?thesis
  proof (cases "changed ?ob")
    case True
    then have "?ob \<in> set ?obs" using nd deb em by (auto simp: planned_def)
    then have "(do_name ?ob, row_of ?ob) \<in> set (map (\<lambda>ob. (do_name ob, row_of ob)) ?obs)" by auto
    from map_of_is_SomeI [OF d this] after em
    have "map_of (fold store_row ?obs rows) (n_name nd) = row_of ?ob" by simp
    moreover have "\<exists>v. row_of ?ob = Some v \<and> up_to_date v nd"
    proof -
      have "do_id ?ob \<noteq> None" using em by (cases nd) (auto simp: new_object_def)
      then show ?thesis
        using em wf json_eq_refl [OF wf] by (auto simp: row_of_def up_to_date_def value_map_eq_def)
    qed
    ultimately show ?thesis by simp
  next
    case False
    have none: "n_name nd \<notin> do_name ` set ?obs"
    proof
      assume "n_name nd \<in> do_name ` set ?obs"
      then obtain nd' where nd': "nd' \<in> set (emitted env g order)" "n_name nd' = n_name nd"
        "changed (node_object env (map_of rows) nd')"
        using nd by (auto simp: planned_def in_emitted)
      then have "nd' = nd" using names nd by (meson distinct_map inj_onD)
      with nd'(3) False show False by simp
    qed
    then have "map_of (map (\<lambda>ob. (do_name ob, row_of ob)) ?obs) (n_name nd) = None"
      by (auto simp: map_of_eq_None_iff)
    with after have same: "map_of (fold store_row ?obs rows) (n_name nd) = map_of rows (n_name nd)" by simp
    have "\<not> he_redeploy env"
      using False em by (cases nd) (auto simp: changed_def with_old_def new_object_def split: option.splits)
    from changed_node_object [OF em this] False
    obtain v where "map_of rows (n_name nd) = Some v" "up_to_date v nd" by (auto split: option.splits)
    with same show ?thesis by simp
  qed
qed

lemma rows_after_names:
  assumes names: "distinct (map n_name (emitted env g order))" and rows: "distinct (map fst rows)"
    and k: "k \<in> fst ` set (fold store_row (planned env g order rows) rows)"
  shows "k \<in> n_name ` set (emitted env g order)"
proof (rule ccontr)
  let ?obs = "planned env g order rows"
  assume nk: "k \<notin> n_name ` set (emitted env g order)"
  have d: "distinct (map fst (map (\<lambda>ob. (do_name ob, row_of ob)) ?obs))"
    using planned_names [OF names rows] by (simp add: o_def)
  have "map_of (fold store_row ?obs rows) k \<noteq> None" using k by (simp add: map_of_eq_None_iff)
  then have "(case map_of (map (\<lambda>ob. (do_name ob, row_of ob)) ?obs) k of
        Some r \<Rightarrow> r | None \<Rightarrow> map_of rows k) \<noteq> None"
    unfolding map_of_fold_store_row [OF planned_names [OF names rows]] .
  moreover have "\<exists>r \<in> set rows. fst r = k" if "map_of rows k \<noteq> None"
    using that by (metis map_of_eq_None_iff imageE)
  moreover have "map_of (map (\<lambda>ob. (do_name ob, row_of ob)) ?obs) k = Some None"
    if r: "r \<in> set rows" "fst r = k" for r
  proof -
    let ?ob = "removal_object env r (the (dc_script (oc_content (snd r))))"
    have "?ob \<in> set ?obs" using r nk by (auto simp: planned_def)
    moreover have "row_of ?ob = None" by (simp add: row_of_def)
    ultimately have "(k, None) \<in> set (map (\<lambda>ob. (do_name ob, row_of ob)) ?obs)"
      using r(2) by (force simp: image_iff)
    then show ?thesis by (rule map_of_is_SomeI [OF d])
  qed
  moreover have "map_of rows k \<noteq> None"
    if "map_of (map (\<lambda>ob. (do_name ob, row_of ob)) ?obs) k = Some (Some v)" for v
  proof -
    from map_of_SomeD [OF that] obtain ob where "ob \<in> set ?obs" "do_name ob = k" "row_of ob = Some v"
      by auto
    with nk show ?thesis by (auto simp: planned_def in_emitted row_of_def)
  qed
  ultimately show False by (fastforce split: option.splits)
qed

text \<open>Planning again after recording the plan: the plan is empty.\<close>

lemma planned_after:
  assumes names: "distinct (map n_name (emitted env g order))" and rows: "distinct (map fst rows)"
    and wf: "\<forall>nd \<in> set (emitted env g order). json_wf (JObject (n_content nd))"
  shows "planned (env\<lparr>he_redeploy := False\<rparr>) g order (fold store_row (planned env g order rows) rows) = []"
proof -
  let ?env = "env\<lparr>he_redeploy := False\<rparr>"
  let ?rows = "fold store_row (planned env g order rows) rows"
  have em_nd: "node_emits ?env nd = node_emits env nd" for nd by (cases nd) simp_all
  then have "node_emits ?env = node_emits env" by (rule ext)
  then have em: "emitted ?env g order = emitted env g order" by (simp add: emitted_def)
  have old: "\<not> changed (node_object ?env (map_of ?rows) nd)"
    if nd: "nd \<in> set (emitted env g order)"
      and deb: "deb_packages (o_content (he_host_object env)) \<or> n_type_id nd \<noteq> PACKAGE_ID" for nd
  proof -
    obtain v where "map_of ?rows (n_name nd) = Some v" "up_to_date v nd"
      using rows_after [OF names rows nd deb] wf nd by blast
    moreover have "node_emits ?env nd" using nd em_nd by (simp add: in_emitted)
    ultimately show ?thesis by (simp add: changed_node_object)
  qed
  have "filter changed
      (filter (\<lambda>ob. deb_packages (o_content (he_host_object env)) \<or> do_type_id ob \<noteq> PACKAGE_ID)
        (map (node_object ?env (map_of ?rows)) (emitted env g order))) = []"
    unfolding filter_empty_conv
  proof
    fix ob
    assume "ob \<in> set (filter (\<lambda>ob. deb_packages (o_content (he_host_object env)) \<or> do_type_id ob \<noteq> PACKAGE_ID)
        (map (node_object ?env (map_of ?rows)) (emitted env g order)))"
    then obtain nd where nd: "nd \<in> set (emitted env g order)" "ob = node_object ?env (map_of ?rows) nd"
      "deb_packages (o_content (he_host_object env)) \<or> do_type_id ob \<noteq> PACKAGE_ID" by auto
    moreover have "do_type_id ob = n_type_id nd" using nd(1,2) em_nd by (simp add: in_emitted)
    ultimately show "\<not> changed ob" using old [OF nd(1)] by simp
  qed
  moreover have "filter (\<lambda>r. fst r \<notin> n_name ` set (emitted env g order)) ?rows = []"
    unfolding filter_empty_conv using rows_after_names [OF names rows] by blast
  ultimately show ?thesis by (simp add: planned_def em)
qed

section \<open>Convergence\<close>

definition reindexed :: "deployment_object \<Rightarrow> deployment_object" where
  "reindexed ob = ob\<lparr>do_index := 0, do_enabled := True\<rparr>"

lemma reindexed_simps [simp]:
  "store_row (reindexed ob) rows = store_row ob rows"
  "recordable (reindexed ob) = recordable ob"
  "do_host (reindexed ob) = do_host ob"
  "do_action (reindexed ob) = do_action ob"
  by (simp_all add: reindexed_def store_row_def row_of_def recordable_def split: option.splits)

lemma fold_reindexed: "fold store_row (map reindexed obs) rows = fold store_row obs rows"
  by (induction obs arbitrary: rows) simp_all

lemma select_host_store_other: "do_host ob \<noteq> h \<Longrightarrow> select_host h (store ob t) = select_host h t"
proof (cases "recordable ob")
  case False
  then show ?thesis by (auto simp: store_def set_deployment_def recordable_def split: option.splits)
qed (simp add: select_host_store)

text \<open>A plan was carried out on a host: its recorded objects, and only they, all succeeded.\<close>

definition carried_out ::
  "deploy_env \<Rightarrow> int \<Rightarrow> object_status list \<Rightarrow> deployment_object list \<Rightarrow> bool" where
  "carried_out env h sts obs =
     (\<forall>(i, ob) \<in> set (List.enumerate 0 obs). do_host ob = h \<longrightarrow>
        (if do_action ob = OA_Trigger then \<not> recorded_kind (kind_of env ob)
         else sts ! i = OS_Success \<and> recorded_kind (kind_of env ob)))"

lemma select_host_record_all:
  "\<forall>(i, ob) \<in> set its. do_host ob = h \<longrightarrow> recordable ob \<or> do_action ob = OA_Trigger \<Longrightarrow>
   \<forall>(i, ob) \<in> set its. do_host ob = h \<longrightarrow>
        (if do_action ob = OA_Trigger then \<not> recorded_kind (kind_of env ob)
         else sts ! i = OS_Success \<and> recorded_kind (kind_of env ob)) \<Longrightarrow>
   select_host h (record_all env sts its t)
     = fold store_row (filter (\<lambda>ob. do_host ob = h \<and> do_action ob \<noteq> OA_Trigger) (map snd its))
         (select_host h t)"
proof (induction its arbitrary: t)
  case (Cons io its)
  obtain i ob where io: "io = (i, ob)" by (cases io)
  show ?case
  proof (cases "do_host ob = h")
    case False
    with Cons io show ?thesis by (simp add: select_host_store_other)
  next
    case True
    with Cons io show ?thesis by (cases "do_action ob = OA_Trigger") (simp_all add: select_host_store)
  qed
qed simp

lemma planned_objects:
  assumes "ob \<in> set (planned env g order rows)"
  shows "recordable ob \<and> do_host ob = he_host env \<and> do_action ob \<noteq> OA_Trigger"
proof -
  have "recordable (node_object env old nd) \<and> do_action (node_object env old nd) \<noteq> OA_Trigger" for old nd
    by (cases nd) (auto simp: recordable_def new_object_def with_old_def split: option.splits)
  with assms show ?thesis by (auto simp: planned_def recordable_def)
qed

lemma select_host_distinct: "distinct (map fst t) \<Longrightarrow> distinct (map fst (select_host h t))"
proof (induction t)
  case (Cons r t)
  obtain h' n c where r: "r = ((h', n), c)" by (cases r) auto
  have sel: "select_host h (r # t) = (if h' = h then [(n, c)] else []) @ select_host h t"
    using r by (simp add: select_host_def)
  have "n \<notin> fst ` set (select_host h t)" if "h' = h"
    using Cons.prems that r by (force simp: select_host_def)
  with Cons show ?case by (simp add: sel)
qed (simp add: select_host_def)

lemma in_enumerate: "io \<in> set (List.enumerate 0 xs) \<Longrightarrow> snd io \<in> set xs"
  using nth_mem [of "fst io" xs] by (simp add: in_set_enumerate_eq)

lemma removals_scripts:
  "removals env rows = Inr obs \<Longrightarrow> \<forall>r \<in> set rows. dc_script (oc_content (snd r)) \<noteq> None"
  by (induction rows arbitrary: obs) (auto simp: res_bind_Inr split: option.splits)

lemma planned_unique:
  assumes names: "distinct (map n_name (emitted env g order))"
    and emit: "emit_all (emit_node env g) order \<lparr>es_old = rows, es_out = []\<rparr> = Inr st"
    and plan: "host_deployment env True st = Inr pl"
  shows "(\<forall>n \<in> set order. node_ok env (g ! n))
    \<and> pl = planned env g order rows
         @ map (trigger_object env) (collect_triggers (planned env g order rows))"
proof -
  have ok: "\<forall>n \<in> set order. node_ok env (g ! n)"
    using emit emit_all_error [of _ order env g "\<lparr>es_old = rows, es_out = []\<rparr>"] by fastforce
  have st: "st = \<lparr>es_old = filter (\<lambda>r. fst r \<notin> n_name ` set (emitted env g order)) rows,
      es_out = map (node_object env (map_of rows)) (emitted env g order)\<rparr>"
    using emit emit_all_ok [OF ok names, of "\<lparr>es_old = rows, es_out = []\<rparr>"] by simp
  have "\<exists>obs. removals env (sort_by row_cmp (es_old st)) = Inr obs"
    using plan by (auto simp: host_deployment_def host_objects_def Let_def res_bind_Inr)
  then have "\<forall>r \<in> set (es_old st). dc_script (oc_content (snd r)) \<noteq> None"
    using removals_scripts by fastforce
  then have "\<forall>r \<in> set rows. fst r \<notin> n_name ` set (emitted env g order)
      \<longrightarrow> dc_script (oc_content (snd r)) \<noteq> None" by (auto simp: st)
  from planned_result [OF ok names this] emit plan ok show ?thesis by auto
qed

text \<open>C8: deploying converges. Take a plan a host was given, with or without redeployment, as it is
  shown to the clients (among the objects of other hosts, with its indices and switches), and
  a deployment that ran to its end in which every object of the host to be recorded succeeded.
  Then setting up a deployment of the same graph for that host again finds nothing to deploy,
  and no trigger to fire.\<close>

theorem deploy_converges:
  assumes names: "distinct (map n_name (emitted env g order))"
    and wf: "\<forall>nd \<in> set (emitted env g order). json_wf (JObject (n_content nd))"
    and keys: "distinct (map fst t)"
    and emit: "emit_all (emit_node env g) order
        \<lparr>es_old = select_host (he_host env) t, es_out = []\<rparr> = Inr st0"
    and plan: "host_deployment env True st0 = Inr pl"
    and shown: "map reindexed (filter (\<lambda>ob. do_host ob = he_host env) (dp_objects (w_dep w))) = pl"
    and start: "dp_status (w_dep w) = ReviewChanges"
      "\<forall>ob \<in> set (dp_objects (w_dep w)). do_status ob \<noteq> OS_Success"
    and run: "perform_deploy denv (Inr ts) rt (w, t) = (None, w', t')"
    and succ: "carried_out (denv\<lparr>de_types := ts\<rparr>) (he_host env) (statuses (w_dep w')) (dp_objects (w_dep w))"
  shows "\<exists>st. emit_all (emit_node (env\<lparr>he_redeploy := False\<rparr>) g) order
        \<lparr>es_old = select_host (he_host env) t', es_out = []\<rparr> = Inr st
    \<and> host_deployment (env\<lparr>he_redeploy := False\<rparr>) True st = Inr []"
proof -
  let ?h = "he_host env" and ?obs = "dp_objects (w_dep w)"
  let ?env = "env\<lparr>he_redeploy := False\<rparr>"
  let ?rows = "select_host ?h t"
  let ?mine = "filter (\<lambda>ob. do_host ob = ?h \<and> do_action ob \<noteq> OA_Trigger) ?obs"
  have ok: "\<forall>n \<in> set order. node_ok env (g ! n)"
    and pl: "pl = planned env g order ?rows
        @ map (trigger_object env) (collect_triggers (planned env g order ?rows))"
    using planned_unique [OF names emit plan] by blast+
  have "map reindexed ?mine = filter (\<lambda>ob. do_action ob \<noteq> OA_Trigger) pl"
    unfolding shown [symmetric] filter_map by (simp add: o_def conj_commute)
  also have "\<dots> = planned env g order ?rows"
    unfolding pl using planned_objects [of _ env g order ?rows]
    by (simp add: filter_id_conv filter_empty_conv trigger_object_def)
  finally have plan: "map reindexed ?mine = planned env g order ?rows" .
  have rows: "distinct (map fst ?rows)"
    using keys by (rule select_host_distinct)
  have rec: "recordable ob" if "ob \<in> set ?mine" for ob
  proof -
    have "reindexed ob \<in> set (planned env g order ?rows)" unfolding plan [symmetric] using that by auto
    then show ?thesis using planned_objects [of "reindexed ob"] by simp
  qed
  have t': "t' = record_all (denv\<lparr>de_types := ts\<rparr>) (statuses (w_dep w')) (List.enumerate 0 ?obs) t"
    using only_success [OF run start] by simp
  have "select_host ?h t' = fold store_row ?mine ?rows"
  proof -
    have "snd io \<in> set ?obs" if "io \<in> set (List.enumerate 0 ?obs)" for io
      using that by (rule in_enumerate)
    then have "\<forall>(i, ob) \<in> set (List.enumerate 0 ?obs). do_host ob = ?h \<longrightarrow>
        recordable ob \<or> do_action ob = OA_Trigger"
      using rec by fastforce
    from select_host_record_all [OF this succ [unfolded carried_out_def], of t]
    show ?thesis unfolding t' by simp
  qed
  also have "\<dots> = fold store_row (map reindexed ?mine) ?rows"
    by (rule fold_reindexed [symmetric])
  also have "\<dots> = fold store_row (planned env g order ?rows) ?rows" unfolding plan ..
  finally have after: "select_host ?h t' = fold store_row (planned env g order ?rows) ?rows" .
  have em_nd: "node_emits ?env nd = node_emits env nd" "node_ok ?env nd = node_ok env nd" for nd
    by (cases nd; simp)+
  then have "node_emits ?env = node_emits env" by blast
  then have em: "emitted ?env g order = emitted env g order" by (simp add: emitted_def)
  let ?rows' = "fold store_row (planned env g order ?rows) ?rows"
  have "\<forall>n \<in> set order. node_ok ?env (g ! n)" using ok em_nd(2) by simp
  moreover have "distinct (map n_name (emitted ?env g order))" unfolding em by (rule names)
  moreover have "\<forall>r \<in> set ?rows'. fst r \<notin> n_name ` set (emitted ?env g order)
      \<longrightarrow> dc_script (oc_content (snd r)) \<noteq> None"
    unfolding em using rows_after_names [OF names rows] by blast
  ultimately obtain st where
    "emit_all (emit_node ?env g) order \<lparr>es_old = ?rows', es_out = []\<rparr> = Inr st"
    "host_deployment ?env True st = Inr (planned ?env g order ?rows'
        @ map (trigger_object ?env) (collect_triggers (planned ?env g order ?rows')))"
    using planned_result [of order ?env g ?rows'] by blast
  then show ?thesis
    unfolding after planned_after [OF names rows wf] by (auto simp: collect_triggers_def)
qed

text \<open>The witness: one object with an outdated row, marked as deployed.\<close>

definition demo_table :: table where
  "demo_table = [((5, ''.6''), demo_old ''old''), ((4, ''.6''), demo_old ''x'')]"

definition demo_plan :: "deployment_object list" where
  "demo_plan = [node_object demo_env (map_of [(''.6'', demo_old ''old'')]) (demo_arena ! 0)]"

definition demo_review :: world where
  "demo_review = \<lparr>w_dep = deployment_default\<lparr>dp_status := ReviewChanges, dp_objects := demo_plan\<rparr>,
     w_sent = [], w_cancelled = {}\<rparr>"

theorem deploy_converges_witness:
  "\<exists>w' t'. perform_deploy demo_deploy_env (Inr demo_types) 1 (demo_review, demo_table) = (None, w', t')
    \<and> (\<exists>st. emit_all (emit_node (demo_env\<lparr>he_redeploy := False\<rparr>) demo_arena) [0]
          \<lparr>es_old = select_host (he_host demo_env) t', es_out = []\<rparr> = Inr st
        \<and> host_deployment (demo_env\<lparr>he_redeploy := False\<rparr>) True st = Inr [])"
proof -
  let ?nd = "demo_arena ! 0"
  have nd: "node_emits demo_env ?nd" "node_ok demo_env ?nd"
    by (simp_all add: demo_arena_def demo_env_def silent_kind_def)
  have em: "emitted demo_env demo_arena [0] = [?nd]" using nd by (simp add: emitted_def)
  have sel: "select_host (he_host demo_env) demo_table = [(''.6'', demo_old ''old'')]"
    by (simp add: select_host_def demo_table_def demo_env_def)
  obtain b where b: "demo_plan = [b]" by (simp add: demo_plan_def)
  then have b_def: "b = node_object demo_env (map_of [(''.6'', demo_old ''old'')]) (demo_arena ! 0)"
    by (simp add: demo_plan_def)
  have ob: "do_action b = OA_Modify" "do_host b = 5" "do_enabled b"
    "do_status b = OS_Normal" "do_type_id b = 9" "do_index b = 0"
    "do_triggers b = []" "changed b" "reindexed b = b"
    "do_name b = ''.6''" "do_id b = Some 6"
    "do_next_content b = Some [(''name'', JString ''file'')]"
    unfolding b_def
    by (simp_all add: demo_arena_def demo_env_def demo_host_def with_old_def new_object_def
        demo_old_def changed_def value_map_eq_def reindexed_def)
  let ?st = "\<lparr>es_old = [], es_out = demo_plan\<rparr>"
  have emit: "emit_all (emit_node demo_env demo_arena) [0]
      \<lparr>es_old = select_host (he_host demo_env) demo_table, es_out = []\<rparr> = Inr ?st"
    using emit_all_ok [of "[0]" demo_env demo_arena "\<lparr>es_old = [(''.6'', demo_old ''old'')], es_out = []\<rparr>"]
      nd em unfolding sel by (simp add: demo_plan_def demo_arena_def)
  have deb: "deb_packages (o_content (he_host_object demo_env))"
    by (simp add: deb_packages_def demo_env_def demo_host_def obj_get_def opt_or_def)
  have plan: "host_deployment demo_env True ?st = Inr demo_plan"
    using deb ob(7,8) by (simp add: b host_deployment_def host_objects_def collect_triggers_def)
  have run: "fst (perform_deploy demo_deploy_env (Inr demo_types) 1 (demo_review, demo_table)) = None"
    "statuses (w_dep (fst (snd (perform_deploy demo_deploy_env (Inr demo_types) 1 (demo_review, demo_table))))) ! 0
       = OS_Success"
    using ob by (simp_all add: perform_deploy_def deploy_begin_def demo_review_def Let_def method_defs
        deployment_default_def demo_deploy_env_def demo_types_def kind_of_def b
        enter_host_def run_object_def run_job_def host_client_def deploy_single_def
        set_deployment_def on_dep_def add_lines_def deploy_end_def statuses_def add_header_def)
  obtain r w' t' where pd: "perform_deploy demo_deploy_env (Inr demo_types) 1 (demo_review, demo_table) = (r, w', t')"
    by (cases "perform_deploy demo_deploy_env (Inr demo_types) 1 (demo_review, demo_table)") auto
  have r: "r = None" using run(1) pd by simp
  have succ: "carried_out (demo_deploy_env\<lparr>de_types := demo_types\<rparr>) (he_host demo_env)
      (statuses (w_dep w')) (dp_objects (w_dep demo_review))"
    using run(2) pd ob
    by (simp add: b carried_out_def demo_review_def kind_of_def demo_types_def recorded_kind_def)
  have "\<exists>st. emit_all (emit_node (demo_env\<lparr>he_redeploy := False\<rparr>) demo_arena) [0]
          \<lparr>es_old = select_host (he_host demo_env) t', es_out = []\<rparr> = Inr st
        \<and> host_deployment (demo_env\<lparr>he_redeploy := False\<rparr>) True st = Inr []"
  proof (rule deploy_converges [OF _ _ _ emit plan _ _ _ pd [unfolded r] succ])
    show "distinct (map n_name (emitted demo_env demo_arena [0]))" by (simp add: em)
    show "\<forall>nd \<in> set (emitted demo_env demo_arena [0]). json_wf (JObject (n_content nd))"
      by (simp add: em) (simp add: demo_arena_def)
    show "distinct (map fst demo_table)" by (simp add: demo_table_def)
    show "map reindexed (filter (\<lambda>ob. do_host ob = he_host demo_env) (dp_objects (w_dep demo_review))) = demo_plan"
      using ob by (simp add: b demo_review_def) (simp add: demo_env_def)
    show "dp_status (w_dep demo_review) = ReviewChanges" by (simp add: demo_review_def)
    show "\<forall>ob \<in> set (dp_objects (w_dep demo_review)). do_status ob \<noteq> OS_Success"
      using ob by (simp add: b demo_review_def)
  qed
  with pd r show ?thesis by blast
qed

end
