(* ===== verification/Variables.thy ===== *)
theory Variables
  imports Rust_Strings
begin

text \<open>
  The scoped variable store of the deployment visitor (\<open>src/bin/server/variabels.rs\<close>): a map
  from names to values and a stack of undo frames. \<open>add_str\<close> writes a variable and records
  its previous value in the topmost frame, \<open>push\<close> opens a frame and \<open>pop\<close> undoes every
  write of the topmost one, in reverse order. The lemmas lead to the theorem that a frame is
  transparent: whatever is added between a \<open>push\<close> and its \<open>pop\<close>, the store afterwards is
  the store before.
\<close>

type_synonym vars_map = "string \<rightharpoonup> string"

type_synonym stack_entry = "string \<times> string option"

text \<open>The stack is the Rust vector, so its last element is the top.\<close>

record variables =
  vmap :: vars_map
  vstack :: "stack_entry list list"

datatype vars_error = JsonNotSupported | EmptyStack

definition variables_default :: variables where
  "variables_default = \<lparr>vmap = Map.empty, vstack = [[]]\<rparr>"

text \<open>
  \<open>Variables::add_str\<close>. The map is written before the stack is looked at, so a call on an
  empty stack returns the error and still leaves the new value in the map; the state after
  an error is therefore part of the result.
\<close>

definition add_str :: "string \<Rightarrow> string \<Rightarrow> variables \<Rightarrow> (vars_error + unit) \<times> variables" where
  "add_str k v s =
     (if strip_prefix ''json:'' v \<noteq> None then (Inl JsonNotSupported, s)
      else let ov = vmap s k; s1 = s\<lparr>vmap := (vmap s)(k \<mapsto> v)\<rparr>
           in if vstack s = [] then (Inl EmptyStack, s1)
              else (Inr (), s1\<lparr>vstack := butlast (vstack s) @ [last (vstack s) @ [(k, ov)]]\<rparr>))"

definition add_bool :: "string \<Rightarrow> bool \<Rightarrow> variables \<Rightarrow> (vars_error + unit) \<times> variables" where
  "add_bool k v = add_str k (if v then ''true'' else ''false'')"

definition has_vars :: "variables \<Rightarrow> bool" where
  "has_vars s = (if vstack s = [] then False else last (vstack s) \<noteq> [])"

definition vars_push :: "variables \<Rightarrow> variables" where
  "vars_push s = s\<lparr>vstack := vstack s @ [[]]\<rparr>"

text \<open>One step of the undo loop, and \<open>Variables::pop\<close> itself: the frame is reversed first.\<close>

definition undo :: "stack_entry \<Rightarrow> vars_map \<Rightarrow> vars_map" where
  "undo e m = m(fst e := snd e)"

definition vars_pop :: "variables \<Rightarrow> (vars_error + unit) \<times> variables" where
  "vars_pop s =
     (if vstack s = [] then (Inl EmptyStack, s)
      else (Inr (), \<lparr>vmap = fold undo (rev (last (vstack s))) (vmap s),
                     vstack = butlast (vstack s)\<rparr>))"

section \<open>Operations between a push and its pop\<close>

datatype var_op = AddStr string string | AddBool string bool

fun run_var_op :: "var_op \<Rightarrow> variables \<Rightarrow> variables" where
  "run_var_op (AddStr k v) s = snd (add_str k v s)"
| "run_var_op (AddBool k b) s = snd (add_bool k b s)"

definition run_var_ops :: "var_op list \<Rightarrow> variables \<Rightarrow> variables" where
  "run_var_ops ops s = fold run_var_op ops s"

text \<open>
  The invariant of an open frame: undoing the topmost frame now gives back the map the frame
  started with, and the frames below it are untouched.
\<close>

definition frame_of :: "variables \<Rightarrow> variables \<Rightarrow> bool" where
  "frame_of s0 s =
     (vstack s \<noteq> [] \<and> butlast (vstack s) = vstack s0
      \<and> fold undo (rev (last (vstack s))) (vmap s) = vmap s0)"

lemma frame_of_push: "frame_of s (vars_push s)"
  by (simp add: frame_of_def vars_push_def)

lemma undo_same: "undo (k, m k) (m(k \<mapsto> v)) = m"
  by (auto simp: undo_def)

lemma frame_of_add_str: "frame_of s0 s \<Longrightarrow> frame_of s0 (snd (add_str k v s))"
  by (auto simp: frame_of_def add_str_def undo_same Let_def)

lemma frame_of_run: "frame_of s0 s \<Longrightarrow> frame_of s0 (run_var_op oper s)"
  by (cases oper) (simp_all add: frame_of_add_str add_bool_def)

lemma frame_of_runs: "frame_of s0 s \<Longrightarrow> frame_of s0 (run_var_ops ops s)"
  unfolding run_var_ops_def
  by (induction ops arbitrary: s) (simp_all add: frame_of_run)

lemma frame_of_pop: "frame_of s0 s \<Longrightarrow> vars_pop s = (Inr (), s0)"
  by (auto simp: frame_of_def vars_pop_def)

lemma frame_trans: "frame_of s0 s \<Longrightarrow> vstack s \<noteq> []"
  by (simp add: frame_of_def)

section \<open>Properties\<close>

text \<open>Further result: scopes are transparent. Whatever sequence of variables is added after a \<open>push\<close>
  (successfully or not, overwriting outer variables or the same variable repeatedly),
  \<open>pop\<close> succeeds and gives back exactly the store and the stack of before.\<close>

theorem push_pop_restores:
  "vars_pop (run_var_ops ops (vars_push s)) = (Inr (), s)"
  by (intro frame_of_pop frame_of_runs frame_of_push)

end
