(* ===== verification/Mustache.thy ===== *)
theory Mustache
  imports Rust_Strings
begin

text \<open>
  The template renderer (\<open>src/bin/server/mustache.rs\<close>): \<open>{{name}}\<close> and \<open>{{{name}}}\<close> are
  replaced by the value of a variable, \<open>{{=<% %>=}}\<close> changes the delimiters. The loop of
  \<open>render\<close> is a \<open>partial_function\<close>: it need not end, and \<open>None\<close> is "does not return".
  Proved: rendering a well-formed template is substitution (\<open>render_segments\<close>), every
  template whose delimiter changes name a non-empty start delimiter is rendered in finitely
  many steps (\<open>render_returns\<close>), and the template \<open>{{= =}}\<close>, which sets both delimiters to
  the empty string, makes the loop run forever (\<open>render_empty_delims_diverges\<close>).
\<close>

type_synonym lookup = "string \<Rightarrow> string option"

datatype mustache_error =
    Unbalanced
  | MissingEqDelim
  | MissingSpaceDelim
  | UnknownVariable string

text \<open>
  \<open>inner_variables.get(var).or_else(|| outer_variables...get(var))\<close>.
\<close>

definition lookup2 :: "(string \<rightharpoonup> string) option \<Rightarrow> (string \<rightharpoonup> string) \<Rightarrow> lookup" where
  "lookup2 outer inner var =
     (case inner var of Some v \<Rightarrow> Some v
      | None \<Rightarrow> (case outer of Some m \<Rightarrow> m var | None \<Rightarrow> None))"

text \<open>The variable after a start delimiter: triple braces end in \<open>}}}\<close>, whatever the
  current delimiters are.\<close>

definition take_var :: "string \<Rightarrow> string \<Rightarrow> (string \<times> string) option" where
  "take_var ed after =
     (case strip_prefix ''{'' after of
        Some a \<Rightarrow> split_once ''}}}'' a
      | None \<Rightarrow> split_once ed after)"

text \<open>A delimiter change: the text after \<open>=\<close> gives the two new delimiters and the rest.\<close>

definition take_delims ::
  "string \<Rightarrow> string \<Rightarrow> mustache_error + (string \<times> string \<times> string)" where
  "take_delims ed after =
     (case split_once ed after of
        None \<Rightarrow> Inl Unbalanced
      | Some (mid, rest) \<Rightarrow>
          (case strip_suffix ''='' mid of
             None \<Rightarrow> Inl MissingEqDelim
           | Some mid' \<Rightarrow>
               (case split_once '' '' mid' of
                  None \<Rightarrow> Inl MissingSpaceDelim
                | Some (sd, ed') \<Rightarrow> Inr (sd, ed', rest))))"

partial_function (option) render_loop ::
  "lookup \<Rightarrow> bool \<Rightarrow> string \<Rightarrow> string \<Rightarrow> string \<Rightarrow> string \<Rightarrow> (mustache_error + string) option" where
  "render_loop look allow_unknown sd ed template res =
     (case split_once sd template of
        None \<Rightarrow> Some (Inr (res @ template))
      | Some (before, after) \<Rightarrow>
          (case strip_prefix ''='' after of
             Some after' \<Rightarrow>
               (case take_delims ed after' of
                  Inl e \<Rightarrow> Some (Inl e)
                | Inr (sd', ed', rest) \<Rightarrow>
                    render_loop look allow_unknown sd' ed' rest (res @ before))
           | None \<Rightarrow>
               (case take_var ed after of
                  None \<Rightarrow> Some (Inl Unbalanced)
                | Some (var, rest) \<Rightarrow>
                    (case look var of
                       Some v \<Rightarrow> render_loop look allow_unknown sd ed rest (res @ before @ v)
                     | None \<Rightarrow>
                         if allow_unknown
                         then render_loop look allow_unknown sd ed rest (res @ before)
                         else Some (Inl (UnknownVariable var))))))"

declare render_loop.simps [code]

definition render ::
  "string \<Rightarrow> (string \<rightharpoonup> string) option \<Rightarrow> (string \<rightharpoonup> string) \<Rightarrow> bool \<Rightarrow> (mustache_error + string) option" where
  "render template outer inner allow_unknown =
     (if \<not> contains_str ''{{'' template then Some (Inr template)
      else render_loop (lookup2 outer inner) allow_unknown ''{{'' ''}}'' template [])"

section \<open>Rendering is substitution\<close>

text \<open>
  The reference: a template as a list of segments, its concrete syntax and its meaning.
\<close>

datatype seg = Lit string | Ref string | RawRef string

fun seg_text :: "seg \<Rightarrow> string" where
  "seg_text (Lit s) = s"
| "seg_text (Ref v) = ''{{'' @ v @ ''}}''"
| "seg_text (RawRef v) = ''{{{'' @ v @ ''}}}''"

fun seg_ok :: "seg \<Rightarrow> bool" where
  "seg_ok (Lit s) = (split_once ''{{'' s = None \<and> (s = [] \<or> last s \<noteq> CHR ''{''))"
| "seg_ok (Ref v) = (clean ''}}'' v \<and> \<not> starts_with ''='' v \<and> \<not> starts_with ''{'' v)"
| "seg_ok (RawRef v) = clean ''}}}'' v"

fun subst_seg :: "lookup \<Rightarrow> bool \<Rightarrow> seg \<Rightarrow> mustache_error + string" where
  "subst_seg look allow (Lit s) = Inr s"
| "subst_seg look allow (Ref v) =
     (case look v of Some x \<Rightarrow> Inr x
      | None \<Rightarrow> if allow then Inr [] else Inl (UnknownVariable v))"
| "subst_seg look allow (RawRef v) =
     (case look v of Some x \<Rightarrow> Inr x
      | None \<Rightarrow> if allow then Inr [] else Inl (UnknownVariable v))"

fun subst_segs :: "lookup \<Rightarrow> bool \<Rightarrow> seg list \<Rightarrow> mustache_error + string" where
  "subst_segs look allow [] = Inr []"
| "subst_segs look allow (s # ss) =
     res_bind (subst_seg look allow s) (\<lambda>x. map_sum id (\<lambda>y. x @ y) (subst_segs look allow ss))"

definition print_segs :: "seg list \<Rightarrow> string" where
  "print_segs segs = concat (map seg_text segs)"

text \<open>A literal without \<open>{{\<close> that does not end in a brace is passed over by the search.\<close>

lemma split_once_lit:
  "split_once ''{{'' s = None \<Longrightarrow> s = [] \<or> last s \<noteq> CHR ''{'' \<Longrightarrow>
   split_once ''{{'' (s @ r) = map_option (\<lambda>(a, b). (s @ a, b)) (split_once ''{{'' r)"
proof (induction s)
  case Nil
  then show ?case by (simp add: option.map_ident prod.case_eq_if)
next
  case (Cons c cs)
  then have ih: "split_once ''{{'' (cs @ r) = map_option (\<lambda>(a, b). (cs @ a, b)) (split_once ''{{'' r)"
    by (auto split: if_splits option.splits)
  have "strip_prefix ''{{'' (c # cs @ r) = None"
    using Cons.prems by (cases cs) (auto split: if_splits option.splits)
  with ih show ?case by (cases "split_once ''{{'' r") auto
qed

lemma render_loop_lit:
  assumes "split_once ''{{'' s = None" and "s = [] \<or> last s \<noteq> CHR ''{''"
  shows "render_loop look allow ''{{'' ed (s @ r) res = render_loop look allow ''{{'' ed r (res @ s)"
proof -
  note lit = split_once_lit [OF assms, of r]
  show ?thesis
    by (subst (1 2) render_loop.simps) (simp add: lit split: option.splits sum.splits)
qed

lemma take_var_ref:
  assumes "clean ''}}'' v" and "\<not> starts_with ''{'' v"
  shows "take_var ''}}'' (v @ ''}}'' @ r) = Some (v, r)"
proof -
  have "strip_prefix ''{'' (v @ ''}}'' @ r) = None"
    using assms(2) by (cases v) (auto simp: starts_with_def split: if_splits)
  then show ?thesis using clean_split_once [OF assms(1)] by (simp add: take_var_def)
qed

lemma render_loop_ref:
  assumes "clean ''}}'' v" and "\<not> starts_with ''='' v" and "\<not> starts_with ''{'' v"
  shows "render_loop look allow ''{{'' ''}}'' (''{{'' @ v @ ''}}'' @ r) res =
    (case subst_seg look allow (Ref v) of
       Inl e \<Rightarrow> Some (Inl e)
     | Inr x \<Rightarrow> render_loop look allow ''{{'' ''}}'' r (res @ x))"
proof -
  have "strip_prefix ''='' (v @ ''}}'' @ r) = None"
    using assms(2) by (cases v) (auto simp: starts_with_def split: if_splits)
  then show ?thesis
    using take_var_ref [OF assms(1,3), of r] split_once_here [of "''{{''" "v @ ''}}'' @ r"]
    by (subst render_loop.simps) (simp del: split_once.simps split: option.splits)
qed

lemma render_loop_raw:
  assumes "clean ''}}}'' v"
  shows "render_loop look allow ''{{'' ''}}'' (''{{{'' @ v @ ''}}}'' @ r) res =
    (case subst_seg look allow (RawRef v) of
       Inl e \<Rightarrow> Some (Inl e)
     | Inr x \<Rightarrow> render_loop look allow ''{{'' ''}}'' r (res @ x))"
proof -
  have "take_var ''}}'' (''{'' @ v @ ''}}}'' @ r) = Some (v, r)"
    using clean_split_once [OF assms] by (simp add: take_var_def)
  then show ?thesis
    using split_once_here [of "''{{''" "''{'' @ v @ ''}}}'' @ r"]
    by (subst render_loop.simps) (simp del: split_once.simps split: option.splits)
qed

lemma render_loop_seg:
  assumes "seg_ok s"
  shows "render_loop look allow ''{{'' ''}}'' (seg_text s @ r) res =
    (case subst_seg look allow s of
       Inl e \<Rightarrow> Some (Inl e)
     | Inr x \<Rightarrow> render_loop look allow ''{{'' ''}}'' r (res @ x))"
  using assms
  by (cases s) (simp_all add: render_loop_lit render_loop_ref [simplified] render_loop_raw [simplified])

lemma render_loop_segments:
  "\<forall>s \<in> set segs. seg_ok s \<Longrightarrow>
   render_loop look allow ''{{'' ''}}'' (print_segs segs) res
     = Some (map_sum id (\<lambda>x. res @ x) (subst_segs look allow segs))"
proof (induction segs arbitrary: res)
  case Nil
  show ?case by (subst render_loop.simps) (simp add: print_segs_def)
next
  case (Cons s ss)
  have "print_segs (s # ss) = seg_text s @ print_segs ss" by (simp add: print_segs_def)
  then show ?case
    using Cons
    by (cases "subst_segs look allow ss") (simp_all add: render_loop_seg split: sum.splits)
qed

text \<open>Without \<open>{{\<close> in the text there is nothing to substitute: the early return agrees with
  the loop.\<close>

lemma render_eq_loop:
  "render template outer inner allow
     = render_loop (lookup2 outer inner) allow ''{{'' ''}}'' template []"
proof (cases "split_once ''{{'' template")
  case None
  then show ?thesis by (subst render_loop.simps) (simp add: render_def contains_str_def)
qed (simp add: render_def contains_str_def)

section \<open>Termination\<close>

text \<open>
  Every iteration consumes at least the start delimiter, so the loop can only go on for ever
  once a delimiter change has set an empty one. Whether that happens is seen from the template
  alone: values are never scanned again. \<open>starts_nonempty\<close> follows the delimiters through the
  template.
\<close>

lemma contains_str_iff: "contains_str d s \<longleftrightarrow> (\<exists>a b. s = a @ d @ b)"
  using split_once_None_iff by (auto simp: contains_str_def)

lemma take_delims_rest:
  assumes "take_delims ed after = Inr (sd', ed', rest)"
  shows "\<exists>a. after = a @ rest" and "sd' = [] \<Longrightarrow> \<exists>b. after = '' '' @ b"
proof -
  obtain mid mid' where s: "split_once ed after = Some (mid, rest)"
    and m: "strip_suffix ''='' mid = Some mid'" and d: "split_once '' '' mid' = Some (sd', ed')"
    using assms by (auto simp: take_delims_def split: option.splits)
  have after: "after = mid @ ed @ rest" using split_once_Some [OF s] .
  then show "\<exists>a. after = a @ rest" by auto
  have "mid = (sd' @ '' '' @ ed') @ ''=''"
    using m split_once_Some [OF d] by (simp add: strip_suffix_Some_iff)
  then show "sd' = [] \<Longrightarrow> \<exists>b. after = '' '' @ b" using after by auto
qed

lemma take_var_rest: "take_var ed after = Some (var, rest) \<Longrightarrow> \<exists>a. after = a @ rest"
proof (cases "strip_prefix ''{'' after")
  case None
  assume "take_var ed after = Some (var, rest)"
  then have "after = var @ ed @ rest" using None split_once_Some by (auto simp: take_var_def)
  then show ?thesis by auto
next
  case (Some a)
  assume "take_var ed after = Some (var, rest)"
  then have "split_once ''}}}'' a = Some (var, rest)" using Some by (simp add: take_var_def)
  then have "a = var @ ''}}}'' @ rest" by (rule split_once_Some)
  with Some show ?thesis by (auto simp: strip_prefix_Some_iff)
qed

lemma rest_shorter:
  assumes "sd \<noteq> []" and "split_once sd t = Some (before, after)"
  shows "length after < length t"
    and "strip_prefix ''='' after = Some after' \<Longrightarrow> take_delims ed after' = Inr (sd', ed', rest) \<Longrightarrow> length rest < length t"
    and "take_var ed after = Some (v, rest) \<Longrightarrow> length rest < length t"
proof -
  have t: "t = before @ sd @ after" using split_once_Some [OF assms(2)] .
  then show a: "length after < length t" using assms(1) by simp
  show "length rest < length t"
    if "strip_prefix ''='' after = Some after'" "take_delims ed after' = Inr (sd', ed', rest)"
    using a that take_delims_rest(1) [OF that(2)] by (auto simp: strip_prefix_Some_iff)
  show "length rest < length t" if "take_var ed after = Some (v, rest)"
    using a take_var_rest [OF that] by auto
qed

function starts_nonempty :: "string \<Rightarrow> string \<Rightarrow> string \<Rightarrow> bool" where
  "starts_nonempty sd ed t =
     (if sd = [] then False
      else case split_once sd t of
        None \<Rightarrow> True
      | Some (before, after) \<Rightarrow>
          (case strip_prefix ''='' after of
             Some after' \<Rightarrow>
               (case take_delims ed after' of
                  Inl e \<Rightarrow> True
                | Inr (sd', ed', rest) \<Rightarrow> starts_nonempty sd' ed' rest)
           | None \<Rightarrow>
               (case take_var ed after of
                  None \<Rightarrow> True
                | Some (v, rest) \<Rightarrow> starts_nonempty sd ed rest)))"
  by pat_completeness auto

termination
  by (relation "measure (\<lambda>(sd, ed, t). length t)") (auto dest: rest_shorter)

declare starts_nonempty.simps [simp del]

definition safe_template :: "string \<Rightarrow> bool" where
  "safe_template t = starts_nonempty ''{{'' ''}}'' t"

lemma starts_nonempty_next:
  assumes "starts_nonempty sd ed t" and "split_once sd t = Some (before, after)"
  shows "strip_prefix ''='' after = Some after' \<Longrightarrow> take_delims ed after' = Inr (sd', ed', rest)
      \<Longrightarrow> starts_nonempty sd' ed' rest \<and> length rest < length t"
    and "strip_prefix ''='' after = None \<Longrightarrow> take_var ed after = Some (v, rest)
      \<Longrightarrow> starts_nonempty sd ed rest \<and> length rest < length t"
proof -
  have "sd \<noteq> []" using assms(1) starts_nonempty.simps [of "[]" ed t] by auto
  with assms show "strip_prefix ''='' after = Some after' \<Longrightarrow> take_delims ed after' = Inr (sd', ed', rest)
      \<Longrightarrow> starts_nonempty sd' ed' rest \<and> length rest < length t"
    and "strip_prefix ''='' after = None \<Longrightarrow> take_var ed after = Some (v, rest)
      \<Longrightarrow> starts_nonempty sd ed rest \<and> length rest < length t"
    by (simp_all add: starts_nonempty.simps [of sd ed t] rest_shorter)
qed

lemma render_loop_returns:
  "starts_nonempty sd ed t \<Longrightarrow> \<exists>r. render_loop look allow sd ed t res = Some r"
proof (induction t arbitrary: sd ed res rule: length_induct)
  case (1 t)
  have IH: "starts_nonempty sd' ed' rest \<and> length rest < length t
      \<Longrightarrow> \<exists>r. render_loop look allow sd' ed' rest res' = Some r" for sd' ed' rest res'
    using "1.IH" by blast
  show ?case
  proof (cases "split_once sd t")
    case None
    then show ?thesis by (subst render_loop.simps) simp
  next
    case (Some ba)
    obtain before after where ba: "split_once sd t = Some (before, after)" using Some by (cases ba) simp
    note follow = starts_nonempty_next [OF "1.prems" ba]
    show ?thesis
    proof (cases "strip_prefix ''='' after")
      case None
      then have "\<exists>r. render_loop look allow sd ed rest res' = Some r"
        if "take_var ed after = Some (v, rest)" for v rest res'
        using that IH follow(2) by blast
      then show ?thesis using ba None
        by (subst render_loop.simps) (auto split: option.splits)
    next
      case (Some after')
      then have "\<exists>r. render_loop look allow sd' ed' rest res' = Some r"
        if "take_delims ed after' = Inr (sd', ed', rest)" for sd' ed' rest res'
        using that IH follow(1) by blast
      then show ?thesis using ba Some
        by (subst render_loop.simps) (auto split: sum.splits)
    qed
  qed
qed

lemma render_safe: "safe_template v \<Longrightarrow> \<exists>r. render v outer inner allow = Some r"
  unfolding safe_template_def render_eq_loop by (rule render_loop_returns)

text \<open>A template without \<open>{{\<close> is safe, whatever else it contains, and so is one without \<open>{{=\<close>,
  which changes no delimiters at all. Changes to other delimiters are safe too, unless the text
  after the equals sign starts with a space.\<close>

lemma safe_plain: "\<not> contains_str ''{{'' t \<Longrightarrow> safe_template t"
  by (cases "split_once ''{{'' t") (simp_all add: safe_template_def starts_nonempty.simps contains_str_def)

lemma not_contains_suffix: "\<not> contains_str d (a @ b) \<Longrightarrow> \<not> contains_str d b"
  by (metis append.assoc contains_str_iff)

lemma safe_no_change: "\<not> contains_str ''{{='' t \<Longrightarrow> safe_template t"
  unfolding safe_template_def
proof (induction t rule: length_induct)
  case (1 t)
  show ?case
  proof (cases "split_once ''{{'' t")
    case (Some ba)
    obtain before after where ba: "split_once ''{{'' t = Some (before, after)" using Some by (cases ba) simp
    have t: "t = before @ ''{{'' @ after" using split_once_Some [OF ba] .
    have "strip_prefix ''='' after = None"
    proof (rule ccontr)
      assume "strip_prefix ''='' after \<noteq> None"
      then obtain a where "after = ''='' @ a" by (auto simp: strip_prefix_Some_iff)
      with t have "t = before @ ''{{='' @ a" by simp
      with 1 show False using contains_str_iff by blast
    qed
    moreover have "starts_nonempty ''{{'' ''}}'' rest" if tv: "take_var ''}}'' after = Some (v, rest)" for v rest
    proof -
      obtain a where "after = a @ rest" using take_var_rest [OF tv] by blast
      with t 1(2) have "\<not> contains_str ''{{='' rest"
        using not_contains_suffix [of "''{{=''" "before @ ''{{'' @ a" rest] by simp
      moreover have "length rest < length t" using rest_shorter(3) [OF _ ba tv] by simp
      ultimately show ?thesis using 1 by blast
    qed
    ultimately show ?thesis using ba
      by (subst starts_nonempty.simps) (auto split: option.splits)
  next
    case None
    then show ?thesis by (subst starts_nonempty.simps) simp
  qed
qed

lemma safe_no_empty: "\<not> contains_str ''= '' t \<Longrightarrow> safe_template t"
proof -
  have "sd \<noteq> [] \<Longrightarrow> \<not> contains_str ''= '' t \<Longrightarrow> starts_nonempty sd ed t" for sd ed
  proof (induction t arbitrary: sd ed rule: length_induct)
    case (1 t)
    show ?case
    proof (cases "split_once sd t")
      case (Some ba)
      obtain before after where ba: "split_once sd t = Some (before, after)" using Some by (cases ba) simp
      have t: "t = before @ sd @ after" using split_once_Some [OF ba] .
      have ok: "\<not> contains_str ''= '' after"
        using "1.prems"(2) not_contains_suffix [of _ "before @ sd"] t by simp
      have var: "starts_nonempty sd ed rest" if "take_var ed after = Some (v, rest)" for v rest
        using 1 ok take_var_rest [OF that] not_contains_suffix rest_shorter(3) [OF "1.prems"(1) ba that] by blast
      have chg: "starts_nonempty sd' ed' rest"
        if s: "strip_prefix ''='' after = Some after'" "take_delims ed after' = Inr (sd', ed', rest)" for after' sd' ed' rest
      proof -
        have after: "after = ''='' @ after'" using s(1) by (simp add: strip_prefix_Some_iff)
        have "sd' \<noteq> []"
        proof
          assume "sd' = []"
          then obtain b where "after' = '' '' @ b" using take_delims_rest(2) [OF s(2)] by blast
          then have "after = [] @ ''= '' @ b" using after by simp
          with ok show False using contains_str_iff by blast
        qed
        moreover obtain a where "after' = a @ rest" using take_delims_rest(1) [OF s(2)] by blast
        then have "\<not> contains_str ''= '' rest" using ok after not_contains_suffix [of _ "''='' @ a" rest] by simp
        moreover have "length rest < length t" using rest_shorter(2) [OF "1.prems"(1) ba s] .
        ultimately show ?thesis using 1 by blast
      qed
      show ?thesis using ba "1.prems"(1) var chg
        by (subst starts_nonempty.simps) (auto split: option.splits sum.splits)
    next
      case None
      then show ?thesis using "1.prems"(1) by (subst starts_nonempty.simps) simp
    qed
  qed
  then show "\<not> contains_str ''= '' t \<Longrightarrow> safe_template t" by (simp add: safe_template_def)
qed

section \<open>Divergence on empty delimiters\<close>

text \<open>
  With both delimiters empty an iteration consumes nothing: the search for the empty start
  delimiter succeeds at once, the variable is the empty string, and the template is the same.
\<close>

lemma render_loop_empty_delims:
  assumes "strip_prefix ''='' t = None" and "strip_prefix ''{'' t = None"
  shows "render_loop look True [] [] t res = None"
proof -
  have False if ret: "render_loop look True [] [] t res = Some r" for res r
  proof -
    have "\<not> (look' = look \<and> allow' \<and> sd = [] \<and> ed = [] \<and> tm = t)"
      if "render_loop look' allow' sd ed tm res' = Some r'" for look' allow' sd ed tm res' r'
    proof (rule render_loop.raw_induct [where P =
          "\<lambda>look' allow' sd ed tm res' r'.
             \<not> (look' = look \<and> allow' \<and> sd = [] \<and> ed = [] \<and> tm = t)", OF _ that], goal_cases)
      case (1 f look' allow' sd ed tm res' r')
      show ?case
      proof
        assume eq: "look' = look \<and> allow' \<and> sd = [] \<and> ed = [] \<and> tm = t"
        have tv: "take_var [] t = Some ([], t)" using assms(2) by (simp add: take_var_def)
        have "\<exists>res''. f look True [] [] t res'' = Some r'"
          using "1"(2) eq assms(1) tv by (auto split: option.splits)
        then show False using "1"(1) by blast
      qed
    qed
    then show ?thesis using ret by blast
  qed
  then show ?thesis by (cases "render_loop look True [] [] t res") auto
qed

section \<open>Properties\<close>

text \<open>C31: rendering a template built from literal text, \<open>{{name}}\<close> and \<open>{{{name}}}\<close> is
  substitution: the result is the concatenation of the literals and the variables' values
  (inner variables first, then outer ones), an unknown variable being the empty text when
  unknown variables are allowed and an error naming the first one otherwise.\<close>

theorem render_segments:
  assumes "\<forall>s \<in> set segs. seg_ok s"
  shows "render (print_segs segs) outer inner allow
    = Some (subst_segs (lookup2 outer inner) allow segs)"
  using render_loop_segments [OF assms, of "lookup2 outer inner" allow "[]"]
  by (cases "subst_segs (lookup2 outer inner) allow segs") (simp_all add: render_eq_loop)

theorem render_segments_witness:
  "render ''Hello {{{a}}} {{b}}!'' None [''a'' \<mapsto> ''AA'', ''b'' \<mapsto> ''BB''] True
     = Some (Inr ''Hello AA BB!'')"
  using render_segments [of "[Lit ''Hello '', RawRef ''a'', Lit '' '', Ref ''b'', Lit ''!'']"
      None "[''a'' \<mapsto> ''AA'', ''b'' \<mapsto> ''BB'']" True]
  by (simp add: clean_def starts_with_def print_segs_def lookup2_def)

text \<open>C32: rendering returns (a text or an error, never an endless loop) for every template
  that does not set an empty start delimiter while its delimiters are followed, with any
  variables, with any other delimiter changes, and whatever text lies between.\<close>

theorem render_returns:
  assumes "starts_nonempty ''{{'' ''}}'' template"
  shows "\<exists>r. render template outer inner allow = Some r"
  unfolding render_eq_loop by (rule render_loop_returns [OF assms])

theorem render_returns_witness:
  "\<exists>r. render ''a = {{b}}; Hello {{{a}}} {{=<% %>=}} <%b%> {{= =}} <%={{ }}=%> x = {{c}}'' None Map.empty True = Some r"
  by (rule render_returns) code_simp

text \<open>Further result: a template that sets both delimiters to the empty string makes rendering loop
  forever when unknown variables are allowed, whatever text follows (unless it starts with an
  equals sign or a brace) and whatever the variables are.\<close>

theorem render_empty_delims_diverges:
  assumes "strip_prefix ''='' rest = None" and "strip_prefix ''{'' rest = None"
  shows "render (''{{= =}}'' @ rest) outer inner True = None"
proof -
  have "take_delims ''}}'' ('' =}}'' @ rest) = Inr ([], [], rest)"
    by (simp add: take_delims_def strip_suffix_def split: option.splits)
  then show ?thesis
    using render_loop_empty_delims [OF assms]
    by (subst render_eq_loop, subst render_loop.simps) simp
qed

theorem render_empty_delims_diverges_witness:
  "render ''{{= =}}hello'' None Map.empty True = None"
  using render_empty_delims_diverges [of "''hello''" None Map.empty] by simp

end
