(* ===== verification/Visit_Content.thy ===== *)
theory Visit_Content
  imports Deploy_Types Variables Mustache
begin

text \<open>
  How the content of an object becomes what is deployed (\<open>Visitor\<close> in
  \<open>src/bin/server/deployment.rs\<close>, the operations that do not walk the graph): templates and
  variables, the fields of an object read by its type, triggers, and the name of a node. A
  visitor operation changes the visitor's state, returns a value or an error, and may fail to
  return when a template makes the renderer loop; \<open>vs_vars\<close> is the \<open>vars\<close> argument.
\<close>

section \<open>The visitor\<close>

datatype visit_err =
    MonitorDeprecated | VarsErr vars_error | MissingTriggerType | MissingTriggerScript
  | NumLenFailed | MissingObject int int string | MissingTypeFor int int | MissingTypeObject
  | SelfMember string string | VisitContext string string int int visit_err

datatype visit_error =
    TemplateError string string mustache_error
  | AddVariableError string string vars_error
  | NameVariableError string vars_error
  | TriggerError int value_map visit_err
  | ChildError visit_err
  | CyclicDependency
  | VisitingError int visit_err
  | HostCycle string

record visit_env =
  ve_objects :: "int \<rightharpoonup> object"
  ve_types :: "int \<rightharpoonup> itype"

record vst =
  vs_errors :: "visit_error list"
  vs_tops :: "int \<rightharpoonup> node_pair option"
  vs_visiting :: "int set"
  vs_arena :: arena
  vs_nodes :: "(string \<times> node_pair) list"
  vs_host :: int
  vs_outer :: variables
  vs_vars :: variables

type_synonym 'a vm = "vst \<Rightarrow> ((visit_err + 'a) \<times> vst) option"

definition vret :: "'a \<Rightarrow> 'a vm" where
  "vret v s = Some (Inr v, s)"

definition vfail :: "visit_err \<Rightarrow> 'a vm" where
  "vfail e s = Some (Inl e, s)"

definition vbind :: "'a vm \<Rightarrow> ('a \<Rightarrow> 'b vm) \<Rightarrow> 'b vm" where
  "vbind m f s =
     (case m s of
        None \<Rightarrow> None
      | Some (Inl e, s') \<Rightarrow> Some (Inl e, s')
      | Some (Inr v, s') \<Rightarrow> f v s')"

text \<open>Running something and looking at whether it failed (a \<open>match\<close> on the result).\<close>

definition vcatch :: "'a vm \<Rightarrow> (visit_err + 'a \<Rightarrow> 'b vm) \<Rightarrow> 'b vm" where
  "vcatch m h s = (case m s of None \<Rightarrow> None | Some (r, s') \<Rightarrow> h r s')"

definition vupd :: "(vst \<Rightarrow> vst) \<Rightarrow> unit vm" where
  "vupd f s = Some (Inr (), f s)"

definition vget :: "(vst \<Rightarrow> 'a vm) \<Rightarrow> 'a vm" where
  "vget f s = f s s"

fun vfold :: "('b \<Rightarrow> 'a \<Rightarrow> 'a vm) \<Rightarrow> 'b list \<Rightarrow> 'a \<Rightarrow> 'a vm" where
  "vfold f [] a = vret a"
| "vfold f (x # xs) a = vbind (f x a) (vfold f xs)"

definition report :: "visit_error \<Rightarrow> unit vm" where
  "report e = vupd (\<lambda>s. s\<lparr>vs_errors := vs_errors s @ [e]\<rparr>)"

text \<open>A vector operation on \<open>vars\<close>, its error passed on by \<open>?\<close> or given to \<open>h\<close>.\<close>

definition on_vars :: "(variables \<Rightarrow> (vars_error + unit) \<times> variables) \<Rightarrow> (vars_error \<Rightarrow> unit vm) \<Rightarrow> unit vm" where
  "on_vars f h s =
     (case f (vs_vars s) of
        (Inl e, v) \<Rightarrow> h e (s\<lparr>vs_vars := v\<rparr>)
      | (Inr _, v) \<Rightarrow> Some (Inr (), s\<lparr>vs_vars := v\<rparr>))"

definition try_vars :: "(variables \<Rightarrow> (vars_error + unit) \<times> variables) \<Rightarrow> unit vm" where
  "try_vars f = on_vars f (\<lambda>e. vfail (VarsErr e))"

section \<open>Templates and variables\<close>

definition template :: "string \<Rightarrow> string \<Rightarrow> string \<Rightarrow> string vm" where
  "template name v deployment_title s =
     (case render v (Some (vmap (vs_outer s))) (vmap (vs_vars s)) True of
        None \<Rightarrow> None
      | Some (Inr r) \<Rightarrow> Some (Inr r, s)
      | Some (Inl e) \<Rightarrow>
          vbind (report (TemplateError name deployment_title e)) (\<lambda>_. vret '''') s)"

definition add_variable :: "string \<Rightarrow> string \<times> string \<Rightarrow> unit \<Rightarrow> unit vm" where
  "add_variable obj_name kv _ =
     vbind (template (fst kv) (snd kv) obj_name)
       (\<lambda>v. on_vars (add_str (fst kv) v) (\<lambda>e. report (AddVariableError (fst kv) obj_name e)))"

definition add_variabels :: "object \<Rightarrow> unit vm" where
  "add_variabels obj =
     vbind (vfold (add_variable (o_name obj)) (variables_iter (o_content obj)) ())
       (vfold (add_variable (o_name obj)) (secrets_iter (o_content obj)))"

section \<open>Content\<close>

text \<open>\<open>if let Some(variable) = variable && !variable.is_empty()\<close>.\<close>

definition set_variable :: "string option \<Rightarrow> (string \<Rightarrow> variables \<Rightarrow> (vars_error + unit) \<times> variables) \<Rightarrow> unit vm" where
  "set_variable variable f =
     (case variable of
        None \<Rightarrow> vret ()
      | Some k \<Rightarrow> if k = '''' then vret () else try_vars (f k))"

definition str_field :: "string \<Rightarrow> string \<Rightarrow> value_map \<Rightarrow> string" where
  "str_field name d content = opt_or (Option.bind (obj_get name content) as_str) d"

definition maybe_template :: "bool \<Rightarrow> string \<Rightarrow> string \<Rightarrow> string \<Rightarrow> string vm" where
  "maybe_template is_template name v title = (if is_template then template name v title else vret v)"

fun visit_item :: "value_map \<Rightarrow> type_prop \<Rightarrow> string \<times> value_map \<Rightarrow> (string \<times> value_map) vm" where
  "visit_item obj_content TP_None (title, content) = vret (title, content)"
| "visit_item obj_content TP_Monitor (title, content) = vfail MonitorDeprecated"
| "visit_item obj_content (TP_Bool p) (title, content) =
     (let v = opt_or (Option.bind (obj_get (bp_name p) obj_content) as_bool) (bp_default p)
      in vbind (set_variable (bp_variable p) (\<lambda>k. add_bool k v))
           (\<lambda>_. vret (title, obj_insert (bp_name p) (JBool v) content)))"
| "visit_item obj_content (TP_Text p) (title, content) =
     vbind (maybe_template (tp_template p) (tp_name p) (str_field (tp_name p) (tp_default p) obj_content) title)
       (\<lambda>v. vbind (set_variable (tp_variable p) (\<lambda>k. add_str k v))
          (\<lambda>_. vret (if opt_or (tp_deploy_title p) False then v else title,
                     obj_insert (tp_name p) (JString v) content)))"
| "visit_item obj_content (TP_Password p) (title, content) =
     vret (title, obj_insert (pp_name p) (JString (str_field (pp_name p) '''' obj_content)) content)"
| "visit_item obj_content (TP_Document p) (title, content) =
     vbind (maybe_template (dp_template p) (dp_name p) (str_field (dp_name p) '''' obj_content) title)
       (\<lambda>v. vbind (set_variable (dp_variable p) (\<lambda>k. add_str k v))
          (\<lambda>_. vret (title, obj_insert (dp_name p) (JString v) content)))"
| "visit_item obj_content (TP_Choice p) (title, content) =
     (let v = str_field (cp_name p) (cp_default p) obj_content
      in vbind (set_variable (cp_variable p) (\<lambda>k. add_str k v))
           (\<lambda>_. vret (title, obj_insert (cp_name p) (JString v) content)))"
| "visit_item obj_content (TP_TypeContent p) (title, content) = vret (title, content)"
| "visit_item obj_content (TP_Number p) (title, content) =
     (let v = (case Option.bind (obj_get (np_name p) obj_content) as_number of
                 Some n \<Rightarrow> n | None \<Rightarrow> I64 (np_default p))
      in vret (title, obj_insert (np_name p) (JNumber v) content))"

record visit_content_result =
  vc_content :: value_map
  vc_title :: string
  vc_script :: "string option"

definition visit_content :: "string \<Rightarrow> value_map \<Rightarrow> itype \<Rightarrow> visit_content_result vm" where
  "visit_content title obj_content ty =
     vbind (vfold (visit_item obj_content) (opt_or (ty_content ty) []) (title, []))
       (\<lambda>(title, content).
          case ty_script ty of
            None \<Rightarrow> vret \<lparr>vc_content = content, vc_title = title, vc_script = None\<rparr>
          | Some v \<Rightarrow> vbind (template ''script'' v title)
              (\<lambda>s. vret \<lparr>vc_content = content, vc_title = title, vc_script = Some s\<rparr>))"

section \<open>Triggers\<close>

definition visit_trigger :: "visit_env \<Rightarrow> int \<Rightarrow> value_map \<Rightarrow> deployment_trigger vm" where
  "visit_trigger env i values =
     (case ve_types env i of
        None \<Rightarrow> vfail MissingTriggerType
      | Some type_content \<Rightarrow>
          vbind (visit_content ''trigger'' values type_content)
            (\<lambda>v. case vc_script v of
                   None \<Rightarrow> vfail MissingTriggerScript
                 | Some script \<Rightarrow>
                     vret \<lparr>tr_type_id = i, tr_script = script, tr_content = vc_content v,
                           tr_title = vc_title v\<rparr>))"

fun push_trigger :: "deployment_trigger \<Rightarrow> dag_node \<Rightarrow> dag_node" where
  "push_trigger t (Normal b n trs ti sc co ty) = Normal b n (trs @ [t]) ti sc co ty"
| "push_trigger t (Sentinal b n) = Sentinal b n"

definition on_node :: "node_ref \<Rightarrow> (dag_node \<Rightarrow> dag_node) \<Rightarrow> vst \<Rightarrow> vst" where
  "on_node n f s = s\<lparr>vs_arena := (vs_arena s)[n := f (vs_arena s ! n)]\<rparr>"

definition visit_triggers :: "visit_env \<Rightarrow> value_map \<Rightarrow> node_ref \<Rightarrow> unit vm" where
  "visit_triggers env obj node =
     vfold (\<lambda>(i, values) _.
         vcatch (visit_trigger env i values)
           (\<lambda>r. case r of
              Inr t \<Rightarrow> vupd (on_node node (push_trigger t))
            | Inl e \<Rightarrow> report (TriggerError i values e)))
       (triggers_iter obj) ()"

section \<open>The name of a node\<close>

text \<open>\<open>num_len\<close>, arm by arm.\<close>

definition num_len :: "int \<Rightarrow> nat" where
  "num_len n =
     (if 0 \<le> n then
       (if n < 10 then 1
        else if n < 100 then 2
        else if n < 1000 then 3
        else if n < 10000 then 4
        else if n < 100000 then 5
        else if n < 1000000 then 6
        else if n < 10000000 then 7
        else if n < 100000000 then 8
        else if n < 1000000000 then 9
        else if n < 10000000000 then 10
        else if n < 100000000000 then 11
        else if n < 1000000000000 then 12
        else if n < 10000000000000 then 13
        else if n < 100000000000000 then 14
        else if n < 1000000000000000 then 15
        else if n < 10000000000000000 then 16
        else if n < 100000000000000000 then 17
        else if n < 1000000000000000000 then 18
        else 19)
      else
       (if - 9 \<le> n then 2
        else if - 99 \<le> n then 3
        else if - 999 \<le> n then 4
        else if - 9999 \<le> n then 5
        else if - 99999 \<le> n then 6
        else if - 999999 \<le> n then 7
        else if - 9999999 \<le> n then 8
        else if - 99999999 \<le> n then 9
        else if - 999999999 \<le> n then 10
        else if - 9999999999 \<le> n then 11
        else if - 99999999999 \<le> n then 12
        else if - 999999999999 \<le> n then 13
        else if - 9999999999999 \<le> n then 14
        else if - 99999999999999 \<le> n then 15
        else if - 999999999999999 \<le> n then 16
        else if - 9999999999999999 \<le> n then 17
        else if - 99999999999999999 \<le> n then 18
        else if - 999999999999999999 \<le> n then 19
        else 20))"

text \<open>
  The buffer of \<open>l\<close> zero bytes is written from its start; writing more than it holds is an
  error, what is not written stays zero.
\<close>

definition name_length :: "int list \<Rightarrow> int \<Rightarrow> nat" where
  "name_length prefix i =
     sum_list (map (\<lambda>v. num_len v + 1) prefix) + num_len i + (if prefix = [] then 1 else 0)"

definition name_text :: "int list \<Rightarrow> int \<Rightarrow> string" where
  "name_text prefix i =
     (if prefix = [] then ''.'' else concat (map (\<lambda>v. show_int v @ ''.'') prefix)) @ show_int i"

definition node_name :: "int list \<Rightarrow> int \<Rightarrow> string option" where
  "node_name prefix i =
     (let l = name_length prefix i; t = name_text prefix i
      in if length t \<le> l then Some (t @ replicate (l - length t) (CHR 0x00)) else None)"

section \<open>The buffer is filled exactly\<close>

lemma digits: "10 ^ k \<le> n \<Longrightarrow> n < 10 ^ Suc k \<Longrightarrow> length (show_nat n) = Suc k"
proof (induction k arbitrary: n)
  case 0
  then show ?case by (simp add: show_nat.simps [of n])
next
  case (Suc k)
  then have "10 ^ k \<le> n div 10" "n div 10 < 10 ^ Suc k" by (simp_all add: less_eq_div_iff_mult_less_eq)
  then have "length (show_nat (n div 10)) = Suc k" by (rule Suc.IH)
  moreover have "\<not> n < 10"
    using Suc.prems(1) power_increasing [of 1 "Suc k" "10 :: nat"] by (simp only: power_one_right) linarith
  ultimately show ?case by (simp add: show_nat.simps [of n])
qed

lemma digit_interval: "0 < n \<Longrightarrow> n < 10 ^ m \<Longrightarrow> \<exists>k < m. 10 ^ k \<le> n \<and> n < (10 :: nat) ^ Suc k"
proof (induction m)
  case (Suc m)
  then show ?case by (cases "n < 10 ^ m") (auto simp: not_less intro: less_SucI)
qed simp

text \<open>The arms of \<open>num_len\<close> for an interval of numbers of the same length.\<close>

lemma num_len_interval:
  assumes "k < 19" and "10 ^ k \<le> n" and "n < (10 :: int) ^ Suc k"
  shows "num_len n = Suc k" and "num_len (- n) = Suc (Suc k)"
proof -
  from assms(1) have "k \<in> {0, 1, 2, 3, 4, 5, 6, 7, 8, 9, 10, 11, 12, 13, 14, 15, 16, 17, 18}"
    unfolding insert_iff empty_iff by presburger
  with assms(2,3) show "num_len n = Suc k" and "num_len (- n) = Suc (Suc k)"
    unfolding insert_iff empty_iff
    by (elim disjE; simp add: num_len_def)+
qed

lemma num_len_show: "\<bar>i\<bar> < 10 ^ 19 \<Longrightarrow> num_len i = length (show_int i)"
proof (cases "i = 0")
  case True
  then show ?thesis by (simp add: num_len_def show_int_def show_nat.simps [of 0])
next
  case False
  assume i: "\<bar>i\<bar> < 10 ^ 19"
  let ?n = "nat \<bar>i\<bar>"
  have "?n < 10 ^ 19" using i by (simp add: nat_less_iff)
  with False obtain k where k: "k < 19" "10 ^ k \<le> ?n" "?n < 10 ^ Suc k"
    using digit_interval [of ?n 19] by auto
  have len: "length (show_nat ?n) = Suc k" by (rule digits [OF k(2,3)])
  have "int (10 ^ k) \<le> int ?n" "int ?n < int (10 ^ Suc k)" using k(2,3) by (simp_all only: of_nat_le_iff of_nat_less_iff)
  then have b: "10 ^ k \<le> \<bar>i\<bar>" "\<bar>i\<bar> < 10 ^ Suc k" by simp_all
  from num_len_interval [OF k(1) b] len False show ?thesis
    by (cases "0 \<le> i") (simp_all add: show_int_def abs_if)
qed

lemma name_length_text:
  assumes "\<forall>v \<in> set (i # prefix). \<bar>v\<bar> < 10 ^ 19"
  shows "name_length prefix i = length (name_text prefix i)"
proof -
  have "sum_list (map (\<lambda>v. num_len v + 1) xs) = length (concat (map (\<lambda>v. show_int v @ ''.'') xs))"
    if "\<forall>v \<in> set xs. \<bar>v\<bar> < 10 ^ 19" for xs
    using that by (induction xs) (simp_all add: num_len_show)
  with assms show ?thesis by (auto simp: name_length_def name_text_def num_len_show)
qed

text \<open>Printing a number is injective, and so is the name of a node.\<close>

lemma show_int_digits: "CHR ''.'' \<notin> set (show_int i)"
  using show_nat_digits by (auto simp: show_int_def)

lemma show_int_inject: "show_int i = show_int j \<Longrightarrow> i = j"
proof -
  assume eq: "show_int i = show_int j"
  have minus: "CHR ''-'' # xs \<noteq> show_nat n" for xs n
    using show_nat_digits [of "CHR ''-''" n] by (metis list.set_intros(1))
  show "i = j"
  proof (cases "i < 0"; cases "j < 0")
    assume "i < 0" "j < 0"
    then have "nat (- i) = nat (- j)" using eq show_nat_inject by (simp add: show_int_def)
    with \<open>i < 0\<close> \<open>j < 0\<close> show ?thesis by simp
  next
    assume "\<not> i < 0" "\<not> j < 0"
    then have "nat i = nat j" using eq show_nat_inject by (simp add: show_int_def)
    with \<open>\<not> i < 0\<close> \<open>\<not> j < 0\<close> show ?thesis by simp
  qed (use eq minus in \<open>simp_all add: show_int_def, metis\<close>)
qed

definition name_parts :: "int list \<Rightarrow> int \<Rightarrow> string list" where
  "name_parts prefix i = (if prefix = [] then [[]] else map show_int prefix) @ [show_int i]"

lemma name_text_parts: "name_text prefix i = join_char (CHR ''.'') (name_parts prefix i)"
proof -
  have "join_char (CHR ''.'') (map show_int xs @ [show_int i])
      = concat (map (\<lambda>v. show_int v @ ''.'') xs) @ show_int i" for xs
  proof (induction xs)
    case (Cons v xs)
    have "map show_int xs @ [show_int i] \<noteq> []" by simp
    then obtain p ps where "map show_int xs @ [show_int i] = p # ps" by (cases "map show_int xs @ [show_int i]") auto
    with Cons show ?case by simp
  qed simp
  then show ?thesis by (simp add: name_text_def name_parts_def)
qed

lemma name_text_inject: "name_text p i = name_text q j \<Longrightarrow> p = q \<and> i = j"
proof -
  assume "name_text p i = name_text q j"
  moreover have "split_char (CHR ''.'') (name_text p i) = name_parts p i" for p i
    unfolding name_text_parts
    by (rule split_char_join) (auto simp: name_parts_def show_int_digits split: if_splits)
  ultimately have parts: "name_parts p i = name_parts q j" by metis
  have ne: "show_int v \<noteq> []" for v
    by (simp add: show_int_def, subst show_nat.simps, simp)
  from parts have i: "show_int i = show_int j"
    and init: "(if p = [] then [[]] else map show_int p) = (if q = [] then [[]] else map show_int q)"
    by (simp_all add: name_parts_def)
  have "inj show_int" by (rule injI) (rule show_int_inject)
  moreover have "p = [] \<longleftrightarrow> q = []"
    using init ne ne [symmetric] by (cases p; cases q) auto
  ultimately have "p = q" using init by (auto simp: inj_map_eq_map split: if_splits)
  with show_int_inject [OF i] show ?thesis by simp
qed

section \<open>Properties\<close>

text \<open>C30: the name of a node fills its buffer exactly. For 64-bit ids the length computed by
  \<open>num_len\<close> is that of the text written, so writing never fails and leaves no zero byte, and
  two nodes have the same name only if they have the same id and the same prefix.\<close>

theorem node_name_exact:
  assumes "\<forall>v \<in> set (i # prefix). - (2 ^ 63) \<le> v \<and> v < 2 ^ 63"
    and "\<forall>v \<in> set (j # prefix'). - (2 ^ 63) \<le> v \<and> v < 2 ^ 63"
  shows "node_name prefix i = Some (name_text prefix i)
    \<and> (node_name prefix i = node_name prefix' j \<longrightarrow> prefix = prefix' \<and> i = j)"
proof -
  have "node_name p k = Some (name_text p k)"
    if "\<forall>v \<in> set (k # p). - (2 ^ 63) \<le> v \<and> v < 2 ^ 63" for p k
  proof -
    have "\<forall>v \<in> set (k # p). \<bar>v\<bar> < 10 ^ 19"
    proof
      fix v assume "v \<in> set (k # p)"
      with that have "- (2 ^ 63) \<le> v" "v < 2 ^ 63" by blast+
      then show "\<bar>v\<bar> < 10 ^ 19" by simp
    qed
    from name_length_text [OF this] show ?thesis by (simp add: node_name_def Let_def)
  qed
  with assms name_text_inject show ?thesis by auto
qed

theorem node_name_exact_witness:
  "node_name [12, -3] 9223372036854775807 = Some ''12.-3.9223372036854775807''
   \<and> node_name [] 7 = Some ''.7''"
  using node_name_exact [of 9223372036854775807 "[12, -3]" 7 "[]"]
    node_name_exact [of 7 "[]" 7 "[]"]
  by (simp add: name_text_def show_int_def show_nat.simps char_of_def bit_0)

end
