(* ===== verification/Visitor.thy ===== *)
theory Visitor
  imports Visit_Content
begin

text \<open>
  The walk that builds the dependency graph of a host (\<open>visit\<close>, \<open>visit_inner\<close>, \<open>visit_top\<close>,
  \<open>handle_contains\<close>, \<open>handle_depends\<close> in \<open>src/bin/server/deployment.rs\<close>). \<open>visit\<close> and
  \<open>visit_top\<close> call each other; the model counts the depth of the calls down from a bound and
  theorem \<open>visit_top_returns\<close> gives a bound that is always enough. What is pushed to and popped
  from \<open>path\<close> and \<open>prefix\<close> around the children is passed as an argument.
\<close>

section \<open>The walk\<close>

definition add_edges :: "node_ref \<Rightarrow> node_ref \<Rightarrow> node_pair \<Rightarrow> vst \<Rightarrow> vst" where
  "add_edges node sentinal p s =
     s\<lparr>vs_arena := add_edge (snd p) sentinal (add_edge node (fst p) (vs_arena s))\<rparr>"

definition handle_contains ::
  "(int \<Rightarrow> node_pair vm) \<Rightarrow> value_map \<Rightarrow> node_ref \<Rightarrow> node_ref \<Rightarrow> unit vm" where
  "handle_contains vis contains node sentinal =
     vfold (\<lambda>child _.
         vcatch (vis child)
           (\<lambda>r. case r of
              Inr p \<Rightarrow> vupd (add_edges node sentinal p)
            | Inl e \<Rightarrow> report (ChildError e)))
       (contains_iter contains) ()"

definition handle_depends :: "(int \<Rightarrow> node_pair option vm) \<Rightarrow> value_map \<Rightarrow> node_ref \<Rightarrow> unit vm" where
  "handle_depends vtop deps node =
     vfold (\<lambda>dep _.
         vbind (vtop dep)
           (\<lambda>r. case r of
              None \<Rightarrow> vret ()
            | Some p \<Rightarrow> vupd (\<lambda>s. s\<lparr>vs_arena := add_edge (snd p) node (vs_arena s)\<rparr>)))
       (depends_iter deps) ()"

definition flag :: "bool option \<Rightarrow> bool" where
  "flag b = opt_or b False"

text \<open>\<open>node_arena.alloc\<close> of the two nodes of an object, linked.\<close>

definition new_nodes ::
  "int \<Rightarrow> string \<Rightarrow> visit_content_result \<Rightarrow> value_map \<Rightarrow> int \<Rightarrow> vst \<Rightarrow> vst" where
  "new_nodes i name v content type_id s =
     (let sentinal = length (vs_arena s); node = Suc sentinal; base = \<lparr>b_prev = [], b_next = [], b_id = i\<rparr>
      in s\<lparr>vs_arena := add_edge node sentinal
             (vs_arena s @ [Sentinal base (vc_title v),
                            Normal base name [] (vc_title v) (vc_script v) content type_id]),
           vs_nodes := (name, (node, sentinal)) # vs_nodes s\<rparr>)"

text \<open>The entries added to the content of every object.\<close>

definition sudo_content :: "itype \<Rightarrow> object \<Rightarrow> int \<Rightarrow> value_map \<Rightarrow> value_map" where
  "sudo_content ty obj host content =
     (let c = (if flag (ty_has_sudo_on ty)
               then obj_insert ''sudoOn''
                 (JBool (case obj_get ''sudoOn'' (o_content obj) of
                           Some (JArray v) \<Rightarrow> list_ex (\<lambda>x. as_i64 x = Some host) v
                         | _ \<Rightarrow> False)) content
               else content)
      in obj_insert ''name'' (JString (o_name obj)) c)"

definition set_name_variable :: "itype \<Rightarrow> object \<Rightarrow> unit vm" where
  "set_name_variable ty obj =
     (case ty_name_variable ty of
        None \<Rightarrow> vret ()
      | Some nv \<Rightarrow>
          if nv = '''' then vret ()
          else on_vars (add_str nv (o_name obj)) (\<lambda>e. report (NameVariableError nv e)))"

text \<open>What follows the allocation: the triggers, then the objects contained.\<close>

definition visit_children ::
  "(int list \<Rightarrow> int list \<Rightarrow> int \<Rightarrow> node_pair vm) \<Rightarrow> visit_env \<Rightarrow> int \<Rightarrow> int list \<Rightarrow> int list
    \<Rightarrow> object \<Rightarrow> itype \<Rightarrow> object \<Rightarrow> node_ref \<Rightarrow> node_ref \<Rightarrow> unit vm" where
  "visit_children vis env i path prefix obj ty type_obj node sentinal =
     vbind (if flag (ty_has_triggers ty) then visit_triggers env (o_content obj) node else vret ())
       (\<lambda>_. vbind (visit_triggers env (o_content type_obj) node)
       (\<lambda>_. vget (\<lambda>s.
          let path' = path @ [i]; prefix' = (if has_vars (vs_vars s) then prefix @ [i] else prefix)
          in vbind (if flag (ty_has_contains ty)
                    then handle_contains (vis path' prefix') (o_content obj) node sentinal else vret ())
               (\<lambda>_. handle_contains (vis path' prefix') (o_content type_obj) node sentinal))))"

definition visit_inner ::
  "(int list \<Rightarrow> int list \<Rightarrow> int \<Rightarrow> node_pair vm) \<Rightarrow> visit_env \<Rightarrow> int \<Rightarrow> int list \<Rightarrow> int list
    \<Rightarrow> string \<Rightarrow> object \<Rightarrow> itype \<Rightarrow> object \<Rightarrow> node_pair vm" where
  "visit_inner vis env i path prefix name obj ty type_obj =
     vbind (if flag (ty_has_variables ty) then add_variabels obj else vret ())
       (\<lambda>_. vbind (set_name_variable ty obj)
       (\<lambda>_. vbind (visit_content (o_name obj) (o_content obj) ty)
       (\<lambda>v. vget (\<lambda>s.
          let sentinal = length (vs_arena s); node = Suc sentinal
          in vbind (vupd (new_nodes i name v (sudo_content ty obj (vs_host s) (vc_content v)) (o_type obj)))
               (\<lambda>_. vbind (visit_children vis env i path prefix obj ty type_obj node sentinal)
               (\<lambda>_. vret (sentinal, node)))))))"

definition parent_name :: "visit_env \<Rightarrow> int list \<Rightarrow> string" where
  "parent_name env path =
     (if path = [] then ''root''
      else case ve_objects env (last path) of Some v \<Rightarrow> o_name v | None \<Rightarrow> ''root'')"

text \<open>The body of \<open>visit\<close> after the checks.\<close>

definition visit_object ::
  "(int list \<Rightarrow> int list \<Rightarrow> int \<Rightarrow> node_pair vm) \<Rightarrow> (int \<Rightarrow> node_pair option vm) \<Rightarrow> visit_env
    \<Rightarrow> int \<Rightarrow> int list \<Rightarrow> int list \<Rightarrow> string \<Rightarrow> object \<Rightarrow> itype \<Rightarrow> object \<Rightarrow> node_pair vm" where
  "visit_object vis vtop env i path prefix name obj ty type_obj =
     vbind (vupd (\<lambda>s. s\<lparr>vs_vars := vars_push (vs_vars s)\<rparr>))
       (\<lambda>_. vcatch (visit_inner vis env i path prefix name obj ty type_obj)
       (\<lambda>res. vbind (try_vars vars_pop)
       (\<lambda>_. case res of
          Inl e \<Rightarrow> vfail (VisitContext name (o_name obj) (o_type obj) i e)
        | Inr (sentinal, node) \<Rightarrow>
            vbind (if flag (ty_has_depends ty) then handle_depends vtop (o_content obj) node else vret ())
              (\<lambda>_. vbind (handle_depends vtop (o_content type_obj) node)
              (\<lambda>_. vret (node, sentinal))))))"

definition visit_checks ::
  "(int list \<Rightarrow> int list \<Rightarrow> int \<Rightarrow> node_pair vm) \<Rightarrow> (int \<Rightarrow> node_pair option vm) \<Rightarrow> visit_env
    \<Rightarrow> int \<Rightarrow> int list \<Rightarrow> int list \<Rightarrow> node_pair vm" where
  "visit_checks vis vtop env i path prefix =
     (case node_name prefix i of
        None \<Rightarrow> vfail NumLenFailed
      | Some name \<Rightarrow> vget (\<lambda>s.
          case map_of (vs_nodes s) name of
            Some v \<Rightarrow> vret v
          | None \<Rightarrow>
              (case ve_objects env i of
                 None \<Rightarrow> vfail (MissingObject i (vs_host s) (parent_name env path))
               | Some obj \<Rightarrow>
                   (case ve_types env (o_type obj) of
                      None \<Rightarrow> vfail (MissingTypeFor (o_type obj) i)
                    | Some ty \<Rightarrow>
                        (case ve_objects env (o_type obj) of
                           None \<Rightarrow> vfail MissingTypeObject
                         | Some type_obj \<Rightarrow>
                             if i \<in> set path
                             then vfail (SelfMember (parent_name env path) (o_name obj))
                             else visit_object vis vtop env i path prefix name obj ty type_obj)))))"

text \<open>The body of \<open>visit_top\<close>.\<close>

definition finish_top :: "int \<Rightarrow> node_pair option \<Rightarrow> node_pair option vm" where
  "finish_top i c =
     vbind (vupd (\<lambda>s. s\<lparr>vs_tops := (vs_tops s)(i \<mapsto> c), vs_visiting := vs_visiting s - {i}\<rparr>))
       (\<lambda>_. vret c)"

definition top_body :: "node_pair vm \<Rightarrow> int \<Rightarrow> node_pair option vm" where
  "top_body vis i = vget (\<lambda>s.
     case vs_tops s i of
       Some v \<Rightarrow> vret v
     | None \<Rightarrow>
         if i \<in> vs_visiting s then vbind (report CyclicDependency) (\<lambda>_. vret None)
         else vbind (vupd (\<lambda>s. s\<lparr>vs_visiting := insert i (vs_visiting s), vs_vars := variables_default\<rparr>))
           (\<lambda>_. vcatch vis
           (\<lambda>r. vbind (vupd (\<lambda>s'. s'\<lparr>vs_vars := vs_vars s\<rparr>))
           (\<lambda>_. case r of
              Inr v \<Rightarrow> finish_top i (Some v)
            | Inl e \<Rightarrow> vbind (report (VisitingError i e)) (\<lambda>_. finish_top i None)))))"

fun visit :: "nat \<Rightarrow> visit_env \<Rightarrow> int list \<Rightarrow> int list \<Rightarrow> int \<Rightarrow> node_pair vm"
  and visit_top :: "nat \<Rightarrow> visit_env \<Rightarrow> int \<Rightarrow> node_pair option vm"
where
  "visit 0 env path prefix i = (\<lambda>s. None)"
| "visit (Suc f) env path prefix i =
     visit_checks (\<lambda>path' prefix' j. visit f env path' prefix' j) (\<lambda>j. visit_top f env j) env i path prefix"
| "visit_top 0 env i = (\<lambda>s. None)"
| "visit_top (Suc f) env i = top_body (visit f env [] [] i) i"

section \<open>The invariant\<close>

text \<open>
  The nodes of the host being set up start at \<open>b\<close> in the arena. The edges mirror each other and
  stay within those nodes; every cached pair is an object's node with its sentinal, under the
  node's name; and every node of an object is cached, so names are unique.
\<close>

definition node_at :: "nat \<Rightarrow> arena \<Rightarrow> string \<Rightarrow> node_ref \<Rightarrow> bool" where
  "node_at b g name n =
     (b \<le> n \<and> n < length g \<and> (case g ! n of Normal _ nm _ _ _ _ _ \<Rightarrow> nm = name | Sentinal _ _ \<Rightarrow> False))"

definition sentinal_at :: "nat \<Rightarrow> arena \<Rightarrow> node_ref \<Rightarrow> bool" where
  "sentinal_at b g n =
     (b \<le> n \<and> n < length g \<and> (case g ! n of Normal _ _ _ _ _ _ _ \<Rightarrow> False | Sentinal _ _ \<Rightarrow> True))"

definition pair_ok :: "nat \<Rightarrow> arena \<Rightarrow> node_pair \<Rightarrow> bool" where
  "pair_ok b g p = ((\<exists>name. node_at b g name (fst p)) \<and> sentinal_at b g (snd p))"

definition vinv :: "nat \<Rightarrow> vst \<Rightarrow> bool" where
  "vinv b s =
     (links_ok (vs_arena s) \<and> b \<le> length (vs_arena s)
      \<and> (\<forall>n \<ge> b. \<forall>m \<in> set (nprev (vs_arena s) n). b \<le> m)
      \<and> distinct (map fst (vs_nodes s))
      \<and> (\<forall>(name, p) \<in> set (vs_nodes s). node_at b (vs_arena s) name (fst p)
            \<and> sentinal_at b (vs_arena s) (snd p) \<and> fst p = Suc (snd p))
      \<and> (\<forall>i p. vs_tops s i = Some (Some p) \<longrightarrow> pair_ok b (vs_arena s) p)
      \<and> (\<forall>n name. node_at b (vs_arena s) name n \<longrightarrow> (\<exists>sn. (name, (n, sn)) \<in> set (vs_nodes s))))"

text \<open>What never changes about a node, and how one state extends another.\<close>

fun node_tag :: "dag_node \<Rightarrow> int \<times> string option \<times> int" where
  "node_tag (Sentinal base name) = (b_id base, None, 0)"
| "node_tag (Normal base name trs ti sc co ty) = (b_id base, Some name, ty)"

definition extends :: "vst \<Rightarrow> vst \<Rightarrow> bool" where
  "extends s s' =
     (length (vs_arena s) \<le> length (vs_arena s')
      \<and> (\<forall>n < length (vs_arena s). node_tag (vs_arena s' ! n) = node_tag (vs_arena s ! n))
      \<and> vs_visiting s' = vs_visiting s \<and> vs_outer s' = vs_outer s)"

definition step_ok :: "nat \<Rightarrow> vst \<Rightarrow> vst \<Rightarrow> bool" where
  "step_ok b s s' =
     ((\<forall>v0. frame_of v0 (vs_vars s) \<longrightarrow> frame_of v0 (vs_vars s'))
      \<and> (vinv b s \<longrightarrow> vinv b s' \<and> extends s s'))"

lemma step_ok_refl [intro, simp]: "step_ok b s s"
  by (simp add: step_ok_def extends_def)

lemma step_ok_trans: "step_ok b s s1 \<Longrightarrow> step_ok b s1 s2 \<Longrightarrow> step_ok b s s2"
  by (auto simp: step_ok_def extends_def)

lemma node_at_tag: "node_at b g name n \<longleftrightarrow> b \<le> n \<and> n < length g \<and> fst (snd (node_tag (g ! n))) = Some name"
  by (cases "g ! n") (auto simp: node_at_def)

lemma sentinal_at_tag: "sentinal_at b g n \<longleftrightarrow> b \<le> n \<and> n < length g \<and> fst (snd (node_tag (g ! n))) = None"
  by (cases "g ! n") (auto simp: sentinal_at_def)

lemma pair_ok_extends: "pair_ok b (vs_arena s) p \<Longrightarrow> extends s s' \<Longrightarrow> pair_ok b (vs_arena s') p"
  by (auto simp: pair_ok_def node_at_tag sentinal_at_tag extends_def)

lemma node_tag_base_mut [simp]: "b_id (f (node_base nd)) = b_id (node_base nd) \<Longrightarrow> node_tag (base_mut f nd) = node_tag nd"
  by (cases nd) simp_all

lemma node_tag_add_edge [simp]:
  "x < length g \<Longrightarrow> y < length g \<Longrightarrow> node_tag (add_edge x y g ! n) = node_tag (g ! n)"
  by (simp add: add_edge_def Let_def nth_list_update)

text \<open>Operations that touch neither the graph nor the caches.\<close>

definition quiet :: "vst \<Rightarrow> vst \<Rightarrow> bool" where
  "quiet s s' =
     (vs_arena s' = vs_arena s \<and> vs_nodes s' = vs_nodes s \<and> vs_tops s' = vs_tops s
      \<and> vs_visiting s' = vs_visiting s \<and> vs_outer s' = vs_outer s
      \<and> (\<forall>v0. frame_of v0 (vs_vars s) \<longrightarrow> frame_of v0 (vs_vars s')))"

lemma quiet_step_ok: "quiet s s' \<Longrightarrow> step_ok b s s'"
  by (simp add: quiet_def step_ok_def vinv_def extends_def)

text \<open>An operation that keeps to the contract wherever it is started in \<open>F\<close>.\<close>

definition keeps :: "(vst \<Rightarrow> vst \<Rightarrow> bool) \<Rightarrow> (vst \<Rightarrow> bool) \<Rightarrow> 'a vm \<Rightarrow> bool" where
  "keeps R F m = (\<forall>s r s'. F s \<longrightarrow> m s = Some (r, s') \<longrightarrow> R s s')"

definition stable :: "(vst \<Rightarrow> vst \<Rightarrow> bool) \<Rightarrow> (vst \<Rightarrow> bool) \<Rightarrow> bool" where
  "stable R F = (\<forall>s s'. F s \<longrightarrow> R s s' \<longrightarrow> F s')"

lemma vbind_SomeE:
  assumes "vbind m f s = Some (r, s')"
  obtains (err) e where "m s = Some (Inl e, s')" "r = Inl e"
    | (ok) v s1 where "m s = Some (Inr v, s1)" "f v s1 = Some (r, s')"
  using assms by (auto simp: vbind_def split: option.splits prod.splits sum.splits)

lemma vcatch_SomeE:
  assumes "vcatch m h s = Some (r, s')"
  obtains x s1 where "m s = Some (x, s1)" "h x s1 = Some (r, s')"
  using assms by (auto simp: vcatch_def split: option.splits prod.splits)

lemma frame_add_bool: "frame_of v0 v \<Longrightarrow> frame_of v0 (snd (add_bool k x v))"
  by (simp add: add_bool_def frame_of_add_str)

text \<open>
  The relations a walk of operations keeps to: everything about sequencing, loops, templates
  and variables is proved once for any of them.
\<close>

locale step_relation =
  fixes R :: "vst \<Rightarrow> vst \<Rightarrow> bool"
  assumes R_refl: "R s s"
    and R_trans: "R s s1 \<Longrightarrow> R s1 s2 \<Longrightarrow> R s s2"
    and R_quiet: "quiet s s' \<Longrightarrow> R s s'"
begin

lemma keepsI: "(\<And>s r s'. F s \<Longrightarrow> m s = Some (r, s') \<Longrightarrow> R s s') \<Longrightarrow> keeps R F m"
  by (simp add: keeps_def)

lemma keepsD: "keeps R F m \<Longrightarrow> F s \<Longrightarrow> m s = Some (r, s') \<Longrightarrow> R s s'"
  by (simp add: keeps_def)

lemma keeps_ret [simp]: "keeps R F (vret v)"
  by (simp add: keeps_def vret_def R_refl)

lemma keeps_fail [simp]: "keeps R F (vfail e)"
  by (simp add: keeps_def vfail_def R_refl)

lemma keeps_bind:
  assumes "stable R F" and "keeps R F m" and "\<And>v. keeps R F (f v)"
  shows "keeps R F (vbind m f)"
proof (rule keepsI)
  fix s r s'
  assume F: "F s" and "vbind m f s = Some (r, s')"
  from this(2) show "R s s'"
  proof (cases rule: vbind_SomeE)
    case (err e)
    then show ?thesis using keepsD [OF assms(2) F] by blast
  next
    case (ok v s1)
    then have "R s s1" using keepsD [OF assms(2) F] by blast
    moreover from this have "F s1" using F assms(1) unfolding stable_def by blast
    ultimately show ?thesis using keepsD [OF assms(3)] ok(2) R_trans by blast
  qed
qed

lemma keeps_catch:
  assumes "stable R F" and "keeps R F m" and "\<And>x. keeps R F (h x)"
  shows "keeps R F (vcatch m h)"
proof (rule keepsI)
  fix s r s'
  assume F: "F s" and "vcatch m h s = Some (r, s')"
  then obtain x s1 where m: "m s = Some (x, s1)" "h x s1 = Some (r, s')" by (elim vcatch_SomeE)
  have "R s s1" by (rule keepsD [OF assms(2) F m(1)])
  moreover from this have "F s1" using F assms(1) unfolding stable_def by blast
  ultimately show "R s s'" using keepsD [OF assms(3)] m(2) R_trans by blast
qed

lemma keeps_get: "(\<And>s. F s \<Longrightarrow> keeps R (\<lambda>t. t = s) (f s)) \<Longrightarrow> keeps R F (vget f)"
  by (auto simp: keeps_def vget_def)

lemma keeps_get_all: "(\<And>s. keeps R F (f s)) \<Longrightarrow> keeps R F (vget f)"
  by (auto simp: keeps_def vget_def)

lemma keeps_upd: "(\<And>s. F s \<Longrightarrow> R s (f s)) \<Longrightarrow> keeps R F (vupd f)"
  by (auto simp: keeps_def vupd_def)

lemma keeps_fold:
  assumes "stable R F" and "\<And>x a. x \<in> set xs \<Longrightarrow> keeps R F (f x a)"
  shows "keeps R F (vfold f xs a)"
  using assms(2)
proof (induction xs arbitrary: a)
  case (Cons x xs)
  then show ?case by (simp add: keeps_bind [OF assms(1)])
qed simp

lemma keeps_report [simp]: "keeps R F (report e)"
  unfolding report_def by (rule keeps_upd) (simp add: R_quiet quiet_def)

lemma stable_True [simp]: "stable R (\<lambda>_. True)"
  by (simp add: stable_def)

lemma keeps_weaken: "keeps R (\<lambda>_. True) m \<Longrightarrow> keeps R F m"
  by (simp add: keeps_def)

lemma keeps_on_vars:
  assumes "\<And>v0 v. frame_of v0 v \<Longrightarrow> frame_of v0 (snd (f v))" and "\<And>e. keeps R (\<lambda>_. True) (h e)"
  shows "keeps R F (on_vars f h)"
proof (rule keepsI)
  fix s r s'
  assume run: "on_vars f h s = Some (r, s')"
  let ?s1 = "s\<lparr>vs_vars := snd (f (vs_vars s))\<rparr>"
  have s1: "R s ?s1" using assms(1) by (intro R_quiet) (simp add: quiet_def)
  show "R s s'"
  proof (cases "f (vs_vars s)")
    case (Pair x v)
    show ?thesis
    proof (cases x)
      case (Inl e)
      with run Pair have "h e ?s1 = Some (r, s')" by (simp add: on_vars_def)
      with s1 show ?thesis using keepsD [OF assms(2) TrueI] R_trans by blast
    next
      case (Inr u)
      with run Pair s1 show ?thesis by (simp add: on_vars_def)
    qed
  qed
qed

lemma keeps_set_variable:
  "(\<And>k v0 v. frame_of v0 v \<Longrightarrow> frame_of v0 (snd (f k v))) \<Longrightarrow> keeps R F (set_variable variable f)"
  unfolding set_variable_def try_vars_def
  by (auto split: option.splits intro!: keeps_on_vars)

lemma keeps_template [simp]: "keeps R F (template name v title)"
proof (rule keepsI)
  fix s r s'
  assume "template name v title s = Some (r, s')"
  then have "s' = s \<or> (\<exists>e. s' = s\<lparr>vs_errors := vs_errors s @ [e]\<rparr>)"
    by (auto simp: template_def vbind_def report_def vupd_def vret_def split: option.splits sum.splits)
  then show "R s s'" by (auto intro!: R_quiet simp: quiet_def)
qed

lemma keeps_maybe_template [simp]: "keeps R F (maybe_template t name v title)"
  by (simp add: maybe_template_def)

lemma keeps_add_variabels [simp]: "keeps R F (add_variabels obj)"
  unfolding add_variabels_def
  by (rule keeps_weaken)
    (auto intro!: keeps_bind keeps_fold keeps_on_vars simp: add_variable_def frame_of_add_str)

lemma keeps_visit_item: "keeps R (\<lambda>_. True) (visit_item obj item tc)"
  by (cases tc; cases item)
    (auto intro!: keeps_bind keeps_set_variable simp: frame_of_add_str frame_add_bool Let_def)

lemma keeps_visit_content [simp]: "keeps R F (visit_content title obj ty)"
  unfolding visit_content_def
  by (rule keeps_weaken)
    (auto intro!: keeps_bind keeps_fold keeps_visit_item split: prod.splits option.splits)

lemma keeps_visit_trigger [simp]: "keeps R F (visit_trigger env i values)"
  unfolding visit_trigger_def
  by (rule keeps_weaken) (auto intro!: keeps_bind split: option.splits)

lemma keeps_set_name_variable [simp]: "keeps R F (set_name_variable ty obj)"
  unfolding set_name_variable_def
  by (rule keeps_weaken) (auto intro!: keeps_on_vars simp: frame_of_add_str split: option.splits)

end

interpretation quiet: step_relation quiet
  by unfold_locales (auto simp: quiet_def)

interpretation ok: step_relation "step_ok b" for b
  by unfold_locales (auto intro: step_ok_trans quiet_step_ok)

section \<open>The graph operations\<close>

definition has_pair :: "nat \<Rightarrow> node_pair \<Rightarrow> vst \<Rightarrow> bool" where
  "has_pair b p s = (vinv b s \<and> pair_ok b (vs_arena s) p)"

lemma stable_has_pair [simp]: "stable (step_ok b) (has_pair b p)"
  by (auto simp: stable_def has_pair_def step_ok_def pair_ok_extends)

lemma stable_vinv [simp]: "stable (step_ok b) (vinv b)"
  by (simp add: stable_def step_ok_def)

text \<open>Changing the arena without touching a tag or an edge outside the host.\<close>

lemma arena_step:
  assumes v: "vinv b s" and len: "length g = length (vs_arena s)" and links: "links_ok g"
    and tag: "\<And>n. n < length g \<Longrightarrow> node_tag (g ! n) = node_tag (vs_arena s ! n)"
    and prev: "\<And>n m. b \<le> n \<Longrightarrow> m \<in> set (nprev g n) \<Longrightarrow> b \<le> m"
  shows "step_ok b s (s\<lparr>vs_arena := g\<rparr>)"
proof -
  have na: "node_at b g name n \<longleftrightarrow> node_at b (vs_arena s) name n" for name n
    using len tag by (auto simp: node_at_tag)
  have sa: "sentinal_at b g n \<longleftrightarrow> sentinal_at b (vs_arena s) n" for n
    using len tag by (auto simp: sentinal_at_tag)
  have "vinv b (s\<lparr>vs_arena := g\<rparr>)"
    unfolding vinv_def pair_ok_def
  proof (intro conjI)
    show "\<forall>n\<ge>b. \<forall>m\<in>set (nprev (vs_arena (s\<lparr>vs_arena := g\<rparr>)) n). b \<le> m" using prev by simp
    show "b \<le> length (vs_arena (s\<lparr>vs_arena := g\<rparr>))" using v len by (simp add: vinv_def)
  qed (use v links in \<open>simp_all add: na sa vinv_def pair_ok_def del: length_list_update\<close>)
  moreover have "extends s (s\<lparr>vs_arena := g\<rparr>)" using len tag by (simp add: extends_def)
  ultimately show ?thesis by (simp add: step_ok_def)
qed

lemma add_edge_step:
  assumes v: "vinv b s" and x: "b \<le> x" "x < length (vs_arena s)" and y: "b \<le> y" "y < length (vs_arena s)"
  shows "step_ok b s (s\<lparr>vs_arena := add_edge x y (vs_arena s)\<rparr>)"
proof (rule arena_step [OF v])
  show "links_ok (add_edge x y (vs_arena s))"
    using v x y by (simp add: vinv_def links_ok_add_edge)
  show "b \<le> m" if "b \<le> n" "m \<in> set (nprev (add_edge x y (vs_arena s)) n)" for n m
    using v that x y by (auto simp: vinv_def nprev_add_edge split: if_splits)
qed (use x y in simp_all)

lemma node_base_push_trigger [simp]: "node_base (push_trigger t nd) = node_base nd"
  by (cases nd) simp_all

lemma node_tag_push_trigger [simp]: "node_tag (push_trigger t nd) = node_tag nd"
  by (cases nd) simp_all

lemma push_trigger_step:
  assumes v: "vinv b s"
  shows "step_ok b s (on_node n (push_trigger t) s)"
proof -
  let ?g = "(vs_arena s)[n := push_trigger t (vs_arena s ! n)]"
  have edges: "nprev ?g = nprev (vs_arena s)" "nnext ?g = nnext (vs_arena s)"
    by (cases "n < length (vs_arena s)";
        auto simp: fun_eq_iff nprev_def nnext_def nth_list_update list_update_beyond)+
  have "step_ok b s (s\<lparr>vs_arena := ?g\<rparr>)"
  proof (rule arena_step [OF v])
    show "links_ok ?g" using v by (simp add: links_ok_def edges vinv_def)
    show "node_tag (?g ! k) = node_tag (vs_arena s ! k)" if "k < length ?g" for k
      using that by (cases "n < length (vs_arena s)") (simp_all add: nth_list_update list_update_beyond)
    show "b \<le> m" if "b \<le> k" "m \<in> set (nprev ?g k)" for k m using v that by (auto simp: edges vinv_def)
  qed simp
  then show ?thesis by (simp add: on_node_def)
qed

lemma keeps_visit_triggers: "keeps (step_ok b) (vinv b) (visit_triggers env obj node)"
  unfolding visit_triggers_def
  by (rule ok.keeps_fold [OF stable_vinv])
    (auto intro!: ok.keeps_catch ok.keeps_upd push_trigger_step split: sum.splits)

lemma add_edges_step:
  assumes "has_pair b (node, sentinal) s" and "has_pair b p s"
  shows "step_ok b s (add_edges node sentinal p s)"
proof -
  have b: "b \<le> node" "node < length (vs_arena s)" "b \<le> sentinal" "sentinal < length (vs_arena s)"
    "b \<le> fst p" "fst p < length (vs_arena s)" "b \<le> snd p" "snd p < length (vs_arena s)"
    using assms by (auto simp: has_pair_def pair_ok_def node_at_def sentinal_at_def)
  have v: "vinv b s" using assms by (simp add: has_pair_def)
  let ?s1 = "s\<lparr>vs_arena := add_edge node (fst p) (vs_arena s)\<rparr>"
  have s1: "step_ok b s ?s1" by (rule add_edge_step [OF v b(1,2,5,6)])
  with v have "vinv b ?s1" by (simp add: step_ok_def)
  then have "step_ok b ?s1 (?s1\<lparr>vs_arena := add_edge (snd p) sentinal (vs_arena ?s1)\<rparr>)"
    using b by (intro add_edge_step) simp_all
  with s1 show ?thesis using step_ok_trans by (fastforce simp: add_edges_def)
qed

text \<open>Two fresh nodes.\<close>

lemma nprev_append: "nprev (g @ h) n = (if n < length g then nprev g n else nprev h (n - length g))"
  by (auto simp: nprev_def nth_append)

lemma nnext_append: "nnext (g @ h) n = (if n < length g then nnext g n else nnext h (n - length g))"
  by (auto simp: nnext_def nth_append)

lemma new_nodes_step:
  assumes v: "vinv b s" and fresh: "name \<notin> fst ` set (vs_nodes s)"
  shows "step_ok b s (new_nodes i name vc content ty s)
    \<and> has_pair b (Suc (length (vs_arena s)), length (vs_arena s)) (new_nodes i name vc content ty s)"
proof -
  let ?n = "length (vs_arena s)"
  let ?base = "\<lparr>b_prev = [], b_next = [], b_id = i\<rparr>"
  let ?new = "[Sentinal ?base (vc_title vc), Normal ?base name [] (vc_title vc) (vc_script vc) content ty]"
  let ?h = "vs_arena s @ ?new"
  let ?g = "add_edge (Suc ?n) ?n ?h"
  let ?s = "new_nodes i name vc content ty s"
  have s': "?s = s\<lparr>vs_arena := ?g, vs_nodes := (name, (Suc ?n, ?n)) # vs_nodes s\<rparr>"
    by (simp add: new_nodes_def Let_def)
  have new: "nprev ?new k = []" "nnext ?new k = []" for k
    by (cases k; simp add: nprev_def nnext_def nth_Cons split: nat.splits)+
  have lo: "links_ok (vs_arena s)" and b: "b \<le> ?n" using v by (simp_all add: vinv_def)
  have "links_ok ?h"
    unfolding links_ok_def
  proof (intro conjI allI ballI)
    fix m k
    have far: "count_list (nprev (vs_arena s) k) m = 0" if "?n \<le> m"
      using links_ok_prev_less [OF lo, of m k] that by (auto simp: count_list_0_iff)
    have far': "count_list (nnext (vs_arena s) m) k = 0" if "?n \<le> k"
      using links_ok_next_less [OF lo, of k m] that by (auto simp: count_list_0_iff)
    show "count_list (nprev ?h k) m = count_list (nnext ?h m) k"
      using links_ok_count [OF lo, of m k] far far' by (auto simp: nprev_append nnext_append new not_less)
  next
    fix k m assume "m \<in> set (nprev ?h k)"
    then show "m < length ?h"
      using links_ok_prev_less [OF lo, of m k] by (auto simp: nprev_append new split: if_splits)
  qed
  then have links: "links_ok ?g" by (rule links_ok_add_edge) simp_all
  have tag: "node_tag (?g ! k) = (if k < ?n then node_tag (vs_arena s ! k)
      else if k = ?n then (i, None, 0) else (i, Some name, ty))" if "k < ?n + 2" for k
    using that by (auto simp: nth_append nth_Cons split: nat.splits)
  have len: "length ?g = ?n + 2" by simp
  have na: "node_at b ?g nm k \<longleftrightarrow> node_at b (vs_arena s) nm k \<or> (k = Suc ?n \<and> nm = name)" for nm k
    using tag [of k] b unfolding node_at_tag len by (auto simp: less_Suc_eq)
  have sa: "sentinal_at b ?g k \<longleftrightarrow> sentinal_at b (vs_arena s) k \<or> k = ?n" for k
    using tag [of k] b unfolding sentinal_at_tag len by (auto simp: less_Suc_eq)
  have po: "pair_ok b ?g p" if "pair_ok b (vs_arena s) p" for p
    using that by (auto simp: pair_ok_def na sa)
  have prev: "b \<le> m" if "b \<le> k" "m \<in> set (nprev ?g k)" for k m
  proof -
    have "nprev ?g k = (if k = ?n then nprev ?h k @ [Suc ?n] else nprev ?h k)"
      by (simp add: nprev_add_edge)
    with that v b show ?thesis by (auto simp: nprev_append new vinv_def split: if_splits)
  qed
  have "vinv b ?s"
    unfolding vinv_def
  proof (intro conjI)
    have arena: "vs_arena ?s = ?g" and nodes: "vs_nodes ?s = (name, (Suc ?n, ?n)) # vs_nodes s"
      and tops: "vs_tops ?s = vs_tops s" by (simp_all add: s')
    show "links_ok (vs_arena ?s)" unfolding arena by (rule links)
    show "b \<le> length (vs_arena ?s)" unfolding arena len using b by simp
    show "\<forall>n\<ge>b. \<forall>m\<in>set (nprev (vs_arena ?s) n). b \<le> m" unfolding arena using prev by blast
    show "distinct (map fst (vs_nodes ?s))" unfolding nodes using v fresh by (simp add: vinv_def)
    show "\<forall>(nm, p)\<in>set (vs_nodes ?s). node_at b (vs_arena ?s) nm (fst p) \<and> sentinal_at b (vs_arena ?s) (snd p)
        \<and> fst p = Suc (snd p)"
      unfolding nodes arena na sa using v by (auto simp: vinv_def)
    show "\<forall>i p. vs_tops ?s i = Some (Some p) \<longrightarrow> pair_ok b (vs_arena ?s) p"
      unfolding tops arena using v po unfolding vinv_def by blast
    show "\<forall>n nm. node_at b (vs_arena ?s) nm n \<longrightarrow> (\<exists>sn. (nm, n, sn) \<in> set (vs_nodes ?s))"
      unfolding nodes arena na using v unfolding vinv_def by fastforce
  qed
  moreover have "extends s ?s" using tag by (simp add: s' extends_def)
  moreover have "pair_ok b (vs_arena ?s) (Suc ?n, ?n)"
    unfolding pair_ok_def fst_conv snd_conv by (simp add: s' na sa) blast
  ultimately show ?thesis by (simp add: step_ok_def has_pair_def s')
qed

section \<open>What a visit leaves behind\<close>

text \<open>The contracts of \<open>visit\<close> and \<open>visit_top\<close>, which they assume of each other.\<close>

definition vis_spec :: "nat \<Rightarrow> node_pair vm \<Rightarrow> bool" where
  "vis_spec b m =
     (\<forall>s r s'. vinv b s \<longrightarrow> m s = Some (r, s') \<longrightarrow>
        step_ok b s s' \<and> vs_vars s' = vs_vars s \<and> (\<forall>p. r = Inr p \<longrightarrow> pair_ok b (vs_arena s') p))"

definition top_spec :: "nat \<Rightarrow> node_pair option vm \<Rightarrow> bool" where
  "top_spec b m =
     (\<forall>s r s'. vinv b s \<longrightarrow> m s = Some (r, s') \<longrightarrow>
        step_ok b s s' \<and> vs_vars s' = vs_vars s
        \<and> (\<exists>c. r = Inr c \<and> (\<forall>p. c = Some p \<longrightarrow> pair_ok b (vs_arena s') p)))"

lemma keeps_handle_contains:
  assumes "\<And>j. vis_spec b (vis j)"
  shows "keeps (step_ok b) (has_pair b (node, sentinal)) (handle_contains vis contains node sentinal)"
  unfolding handle_contains_def
proof (rule ok.keeps_fold [OF stable_has_pair])
  fix child a
  let ?h = "\<lambda>r. case r of Inr p \<Rightarrow> vupd (add_edges node sentinal p) | Inl e \<Rightarrow> report (ChildError e)"
  show "keeps (step_ok b) (has_pair b (node, sentinal)) (vcatch (vis child) ?h)"
  proof (rule ok.keepsI)
    fix s r s'
    assume F: "has_pair b (node, sentinal) s" and "vcatch (vis child) ?h s = Some (r, s')"
    then obtain x s1 where x: "vis child s = Some (x, s1)" and h: "?h x s1 = Some (r, s')"
      by (elim vcatch_SomeE)
    have v: "vinv b s" using F by (simp add: has_pair_def)
    have s1: "step_ok b s s1" and pair: "\<And>p. x = Inr p \<Longrightarrow> pair_ok b (vs_arena s1) p"
      using assms [of child] v x unfolding vis_spec_def by blast+
    have F1: "has_pair b (node, sentinal) s1" using stable_has_pair F s1 unfolding stable_def by blast
    show "step_ok b s s'"
    proof (cases x)
      case (Inl e)
      with h have "report (ChildError e) s1 = Some (r, s')" by simp
      then show ?thesis using ok.keepsD [OF ok.keeps_report TrueI] s1 step_ok_trans by blast
    next
      case (Inr p)
      then have "has_pair b p s1" using pair F1 by (simp add: has_pair_def)
      from add_edges_step [OF F1 this] have "step_ok b s1 s'" using h Inr by (simp add: vupd_def)
      with s1 show ?thesis by (rule step_ok_trans)
    qed
  qed
qed

lemma handle_depends_result:
  assumes top: "\<And>j. top_spec b (vtop j)"
  shows "has_pair b (node, sn) s \<Longrightarrow> handle_depends vtop deps node s = Some (r, s') \<Longrightarrow>
    step_ok b s s' \<and> vs_vars s' = vs_vars s \<and> r = Inr ()"
proof -
  let ?f = "\<lambda>dep _. vbind (vtop dep)
           (\<lambda>r. case r of None \<Rightarrow> vret ()
            | Some p \<Rightarrow> vupd (\<lambda>s. s\<lparr>vs_arena := add_edge (snd p) node (vs_arena s)\<rparr>))"
  have one: "step_ok b s s' \<and> vs_vars s' = vs_vars s \<and> r = Inr ()"
    if F: "has_pair b (node, sn) s" and run: "?f dep () s = Some (r, s')" for dep s r s'
    using run
  proof (cases rule: vbind_SomeE)
    case (err e)
    with top [of dep] F show ?thesis unfolding top_spec_def has_pair_def by blast
  next
    case (ok c s1)
    then have s1: "step_ok b s s1" "vs_vars s1 = vs_vars s" "\<And>p. c = Some p \<Longrightarrow> pair_ok b (vs_arena s1) p"
      using top [of dep] F unfolding top_spec_def has_pair_def by blast+
    show ?thesis
    proof (cases c)
      case None
      with ok s1 show ?thesis by (simp add: vret_def)
    next
      case (Some p)
      have F1: "has_pair b (node, sn) s1" using stable_has_pair F s1(1) unfolding stable_def by blast
      have "step_ok b s1 (s1\<lparr>vs_arena := add_edge (snd p) node (vs_arena s1)\<rparr>)"
        using F1 s1(3) [OF Some]
        by (intro add_edge_step) (auto simp: has_pair_def pair_ok_def node_at_def sentinal_at_def)
      with ok Some s1 show ?thesis using step_ok_trans by (fastforce simp: vupd_def)
    qed
  qed
  have all: "step_ok b s s' \<and> vs_vars s' = vs_vars s \<and> r = Inr ()"
    if "has_pair b (node, sn) s" "vfold ?f xs () s = Some (r, s')" for xs s r s'
    using that
  proof (induction xs arbitrary: s)
    case Nil
    then show ?case by (simp add: vret_def)
  next
    case (Cons x xs)
    have "vbind (?f x ()) (vfold ?f xs) s = Some (r, s')" using Cons.prems(2) by simp
    then show ?case
    proof (cases rule: vbind_SomeE)
      case (err e)
      with one [OF Cons.prems(1) err(1)] show ?thesis by simp
    next
      case (ok v s1)
      have s1: "step_ok b s s1" "vs_vars s1 = vs_vars s" using one [OF Cons.prems(1) ok(1)] by simp_all
      then have "has_pair b (node, sn) s1" using stable_has_pair Cons.prems(1) unfolding stable_def by blast
      from Cons.IH [OF this] ok(2) s1 show ?thesis using step_ok_trans by fastforce
    qed
  qed
  assume "has_pair b (node, sn) s" "handle_depends vtop deps node s = Some (r, s')"
  then show ?thesis unfolding handle_depends_def by (rule all)
qed

lemma keeps_visit_children:
  assumes "\<And>p q j. vis_spec b (vis p q j)"
  shows "keeps (step_ok b) (has_pair b (node, sentinal)) (visit_children vis env i path prefix obj ty type_obj node sentinal)"
proof -
  have trig: "keeps (step_ok b) (has_pair b (node, sentinal)) (visit_triggers env x node)" for x
    using keeps_visit_triggers by (simp add: keeps_def has_pair_def)
  show ?thesis
    unfolding visit_children_def
    by (auto intro!: ok.keeps_bind ok.keeps_get_all trig keeps_handle_contains assms simp: Let_def)
qed

lemma visit_inner_result:
  assumes vis: "\<And>p q j. vis_spec b (vis p q j)" and v: "vinv b s"
    and fresh: "name \<notin> fst ` set (vs_nodes s)"
    and run: "visit_inner vis env i path prefix name obj ty type_obj s = Some (r, s')"
  shows "step_ok b s s' \<and> (\<forall>sn n. r = Inr (sn, n) \<longrightarrow> pair_ok b (vs_arena s') (n, sn))"
  using run unfolding visit_inner_def
proof (elim vbind_SomeE)
  let ?vars = "if flag (ty_has_variables ty) then add_variabels obj else vret ()"
  have q1: "quiet s s1" if "?vars s = Some (x, s1)" for x s1
    by (rule quiet.keepsD [of "\<lambda>_. True" ?vars]) (use that in simp_all)
  have q2: "quiet s s2" if "?vars s = Some (x, s1)" "set_name_variable ty obj s1 = Some (y, s2)" for x s1 y s2
    by (rule quiet.R_trans [OF q1 [OF that(1)] quiet.keepsD [OF quiet.keeps_set_name_variable TrueI that(2)]])
  have q3: "quiet s s3"
    if "?vars s = Some (x, s1)" "set_name_variable ty obj s1 = Some (y, s2)"
      "visit_content (o_name obj) (o_content obj) ty s2 = Some (z, s3)" for x s1 y s2 z s3
    by (rule quiet.R_trans [OF q2 [OF that(1,2)] quiet.keepsD [OF quiet.keeps_visit_content TrueI that(3)]])
  {
    fix e
    assume "?vars s = Some (Inl e, s')" "r = Inl e"
    then show ?thesis using q1 quiet_step_ok by simp
  next
    fix x s1 e
    assume "?vars s = Some (Inr x, s1)" "set_name_variable ty obj s1 = Some (Inl e, s')" "r = Inl e"
    then show ?thesis using q2 quiet_step_ok by simp
  next
    fix x s1 y s2 e
    assume "?vars s = Some (Inr x, s1)" "set_name_variable ty obj s1 = Some (Inr y, s2)"
      "visit_content (o_name obj) (o_content obj) ty s2 = Some (Inl e, s')" "r = Inl e"
    then show ?thesis using q3 quiet_step_ok by simp
  next
    fix x s1 y s2 vc and t :: vst
    let ?sn = "length (vs_arena t)"
    let ?new = "new_nodes i name vc (sudo_content ty obj (vs_host t) (vc_content vc)) (o_type obj)"
    let ?t1 = "?new t"
    let ?kids = "visit_children vis env i path prefix obj ty type_obj (Suc ?sn) ?sn"
    assume run: "?vars s = Some (Inr x, s1)" "set_name_variable ty obj s1 = Some (Inr y, s2)"
      "visit_content (o_name obj) (o_content obj) ty s2 = Some (Inr vc, t)"
      "vget (\<lambda>s. let sentinal = length (vs_arena s); node = Suc sentinal
          in vbind (vupd (new_nodes i name vc (sudo_content ty obj (vs_host s) (vc_content vc)) (o_type obj)))
               (\<lambda>_. vbind (visit_children vis env i path prefix obj ty type_obj node sentinal)
               (\<lambda>_. vret (sentinal, node)))) t = Some (r, s')"
    have q: "quiet s t" by (rule q3 [OF run(1-3)])
    have t: "vinv b t" "name \<notin> fst ` set (vs_nodes t)"
      using q v fresh quiet_step_ok [OF q, of b] by (simp_all add: step_ok_def quiet_def)
    note new = new_nodes_step [OF t, of i vc "sudo_content ty obj (vs_host t) (vc_content vc)" "o_type obj"]
    have st1: "step_ok b s ?t1" using quiet_step_ok [OF q] new step_ok_trans by blast
    have kids: "vbind ?kids (\<lambda>_. vret (?sn, Suc ?sn)) ?t1 = Some (r, s')"
      using run(4) by (simp add: vget_def Let_def vbind_def vupd_def)
    then have "step_ok b ?t1 s' \<and> (\<forall>sn n. r = Inr (sn, n) \<longrightarrow> sn = ?sn \<and> n = Suc ?sn)"
    proof (cases rule: vbind_SomeE)
      case (err e)
      then show ?thesis
        using ok.keepsD [OF keeps_visit_children [of b vis, OF vis] conjunct2 [OF new] err(1)] by simp
    next
      case (ok u t2)
      then show ?thesis
        using ok.keepsD [OF keeps_visit_children [of b vis, OF vis] conjunct2 [OF new] ok(1)]
        by (auto simp: vret_def)
    qed
    moreover from this have "has_pair b (Suc ?sn, ?sn) s'"
      using new stable_has_pair unfolding stable_def by blast
    ultimately show ?thesis using st1 step_ok_trans by (auto simp: has_pair_def)
  }
qed

lemma vinv_vars [simp]: "vinv b (s\<lparr>vs_vars := v\<rparr>) = vinv b s"
  by (simp add: vinv_def)

lemma extends_vars [simp]:
  "extends (s\<lparr>vs_vars := v\<rparr>) s' = extends s s'"
  "extends s (s'\<lparr>vs_vars := v\<rparr>) = extends s s'"
  by (simp_all add: extends_def)

lemma visit_object_spec:
  assumes vis: "\<And>p q j. vis_spec b (vis p q j)" and top: "\<And>j. top_spec b (vtop j)"
    and v: "vinv b s" and fresh: "name \<notin> fst ` set (vs_nodes s)"
    and run: "visit_object vis vtop env i path prefix name obj ty type_obj s = Some (r, s')"
  shows "step_ok b s s' \<and> vs_vars s' = vs_vars s \<and> (\<forall>p. r = Inr p \<longrightarrow> pair_ok b (vs_arena s') p)"
proof -
  let ?s0 = "s\<lparr>vs_vars := vars_push (vs_vars s)\<rparr>"
  let ?rest = "\<lambda>res. vbind (try_vars vars_pop)
       (\<lambda>_. case res of
          Inl e \<Rightarrow> vfail (VisitContext name (o_name obj) (o_type obj) i e)
        | Inr (sentinal, node) \<Rightarrow>
            vbind (if flag (ty_has_depends ty) then handle_depends vtop (o_content obj) node else vret ())
              (\<lambda>_. vbind (handle_depends vtop (o_content type_obj) node)
              (\<lambda>_. vret (node, sentinal))))"
  have "vcatch (visit_inner vis env i path prefix name obj ty type_obj) ?rest ?s0 = Some (r, s')"
    using run by (simp add: visit_object_def vbind_def vupd_def)
  then obtain x s1 where inner: "visit_inner vis env i path prefix name obj ty type_obj ?s0 = Some (x, s1)"
    and rest: "?rest x s1 = Some (r, s')" by (elim vcatch_SomeE)
  have v0: "vinv b ?s0" and fresh0: "name \<notin> fst ` set (vs_nodes ?s0)"
    using v fresh by (simp_all add: vinv_def)
  have s1: "step_ok b ?s0 s1" and pair: "\<And>sn n. x = Inr (sn, n) \<Longrightarrow> pair_ok b (vs_arena s1) (n, sn)"
    using visit_inner_result [of b vis, OF vis v0 fresh0 inner] by blast+
  have "frame_of (vs_vars s) (vs_vars s1)"
    using s1 frame_of_push [of "vs_vars s"] by (simp add: step_ok_def)
  then have pop: "vars_pop (vs_vars s1) = (Inr (), vs_vars s)" by (rule frame_of_pop)
  let ?s2 = "s1\<lparr>vs_vars := vs_vars s\<rparr>"
  have "vinv b s1" "extends ?s0 s1" using s1 v0 unfolding step_ok_def by blast+
  then have ex2: "vinv b ?s2 \<and> extends s ?s2" by simp
  then have s2: "step_ok b s ?s2" by (simp add: step_ok_def)
  have "try_vars vars_pop s1 = Some (Inr (), ?s2)" using pop by (simp add: try_vars_def on_vars_def)
  then have popped: "vbind (try_vars vars_pop) g s1 = g () ?s2" for g :: "unit \<Rightarrow> node_pair vm"
    by (simp add: vbind_def)
  have after: "(case x of
          Inl e \<Rightarrow> vfail (VisitContext name (o_name obj) (o_type obj) i e)
        | Inr (sentinal, node) \<Rightarrow>
            vbind (if flag (ty_has_depends ty) then handle_depends vtop (o_content obj) node else vret ())
              (\<lambda>_. vbind (handle_depends vtop (o_content type_obj) node)
              (\<lambda>_. vret (node, sentinal)))) ?s2 = Some (r, s')"
    using rest unfolding popped .
  show ?thesis
  proof (cases x)
    case (Inl e)
    with after s2 show ?thesis by (auto simp: vfail_def)
  next
    case (Inr p)
    obtain sn n where p: "p = (sn, n)" by (cases p)
    have F: "has_pair b (n, sn) ?s2" using pair Inr p ex2 by (simp add: has_pair_def)
    let ?d1 = "if flag (ty_has_depends ty) then handle_depends vtop (o_content obj) n else vret ()"
    have after: "vbind ?d1 (\<lambda>_. vbind (handle_depends vtop (o_content type_obj) n) (\<lambda>_. vret (n, sn))) ?s2
        = Some (r, s')" using after Inr p by simp
    have d1: "step_ok b ?s2 t \<and> vs_vars t = vs_vars ?s2 \<and> y = Inr ()" if "?d1 ?s2 = Some (y, t)" for y t
      using handle_depends_result [of b vtop, OF top F] that by (auto simp: vret_def split: if_splits)
    from after show ?thesis
    proof (cases rule: vbind_SomeE)
      case (err e)
      with d1 show ?thesis by blast
    next
      case (ok y t)
      with d1 have t: "step_ok b ?s2 t" "vs_vars t = vs_vars s" by auto
      then have Ft: "has_pair b (n, sn) t" using stable_has_pair F unfolding stable_def by blast
      from ok(2) show ?thesis
      proof (cases rule: vbind_SomeE)
        case (err e)
        with handle_depends_result [of b vtop, OF top Ft] show ?thesis by blast
      next
        case (ok z u)
        with handle_depends_result [of b vtop, OF top Ft ok(1)] have u: "step_ok b t u" "vs_vars u = vs_vars s"
          using t by simp_all
        then have "has_pair b (n, sn) u" using stable_has_pair Ft unfolding stable_def by blast
        then have "pair_ok b (vs_arena u) (n, sn)" by (simp add: has_pair_def)
        moreover have "r = Inr (n, sn)" "s' = u" using ok(2) by (auto simp: vret_def)
        moreover have "step_ok b s u" using s2 t(1) u(1) by (metis step_ok_trans)
        ultimately show ?thesis using u(2) by simp
      qed
    qed
  qed
qed

lemma visit_checks_spec:
  assumes vis: "\<And>p q j. vis_spec b (vis p q j)" and top: "\<And>j. top_spec b (vtop j)"
  shows "vis_spec b (visit_checks vis vtop env i path prefix)"
  unfolding vis_spec_def
proof (intro allI impI)
  fix s r s'
  assume v: "vinv b s" and run: "visit_checks vis vtop env i path prefix s = Some (r, s')"
  show "step_ok b s s' \<and> vs_vars s' = vs_vars s \<and> (\<forall>p. r = Inr p \<longrightarrow> pair_ok b (vs_arena s') p)"
  proof (cases "\<exists>name obj ty tobj. node_name prefix i = Some name \<and> map_of (vs_nodes s) name = None
      \<and> ve_objects env i = Some obj \<and> ve_types env (o_type obj) = Some ty
      \<and> ve_objects env (o_type obj) = Some tobj \<and> i \<notin> set path")
    case True
    then obtain name obj ty tobj where c: "node_name prefix i = Some name" "map_of (vs_nodes s) name = None"
      "ve_objects env i = Some obj" "ve_types env (o_type obj) = Some ty"
      "ve_objects env (o_type obj) = Some tobj" "i \<notin> set path" by blast
    with run have "visit_object vis vtop env i path prefix name obj ty tobj s = Some (r, s')"
      by (simp add: visit_checks_def vget_def)
    moreover have "name \<notin> fst ` set (vs_nodes s)" using c(2) by (simp add: map_of_eq_None_iff)
    ultimately show ?thesis using visit_object_spec [of b vis vtop, OF vis top v] by blast
  next
    case False
    then have s': "s' = s" and r: "\<forall>p. r = Inr p \<longrightarrow> (\<exists>name. map_of (vs_nodes s) name = Some p)"
      using run by (auto simp: visit_checks_def vget_def vret_def vfail_def split: option.splits if_splits)
    have "pair_ok b (vs_arena s) p" if "map_of (vs_nodes s) name = Some p" for name p
      using v map_of_SomeD [OF that] by (fastforce simp: vinv_def pair_ok_def)
    with r s' show ?thesis by auto
  qed
qed

lemma vinv_updates [simp]:
  "vinv b (s\<lparr>vs_errors := e\<rparr>) = vinv b s"
  "vinv b (s\<lparr>vs_visiting := V\<rparr>) = vinv b s"
  by (simp_all add: vinv_def)

lemma top_body_spec:
  assumes vis: "vis_spec b vis"
  shows "top_spec b (top_body vis i)"
  unfolding top_spec_def
proof (intro allI impI)
  fix s r s'
  assume v: "vinv b s" and run: "top_body vis i s = Some (r, s')"
  show "step_ok b s s' \<and> vs_vars s' = vs_vars s
      \<and> (\<exists>c. r = Inr c \<and> (\<forall>p. c = Some p \<longrightarrow> pair_ok b (vs_arena s') p))"
  proof (cases "vs_tops s i")
    case (Some c)
    then have "r = Inr c" "s' = s" using run by (auto simp: top_body_def vget_def vret_def)
    then show ?thesis using v Some by (auto simp: vinv_def)
  next
    case None
    show ?thesis
    proof (cases "i \<in> vs_visiting s")
      case True
      with None run have "r = Inr None" "s' = s\<lparr>vs_errors := vs_errors s @ [CyclicDependency]\<rparr>"
        by (auto simp: top_body_def vget_def vret_def vbind_def report_def vupd_def)
      moreover have "step_ok b s (s\<lparr>vs_errors := vs_errors s @ [CyclicDependency]\<rparr>)"
        by (rule quiet_step_ok) (simp add: quiet_def)
      ultimately show ?thesis by simp
    next
      case False
      let ?s0 = "s\<lparr>vs_visiting := insert i (vs_visiting s), vs_vars := variables_default\<rparr>"
      obtain x s1 where x: "vis ?s0 = Some (x, s1)"
        using run None False
        by (auto simp: top_body_def vget_def vcatch_def vbind_def vupd_def split: option.splits)
      have v0: "vinv b ?s0" using v by simp
      have s1: "step_ok b ?s0 s1" and pair: "\<And>p. x = Inr p \<Longrightarrow> pair_ok b (vs_arena s1) p"
        using vis v0 x unfolding vis_spec_def by blast+
      have v1: "vinv b s1" and ext1: "extends ?s0 s1" using s1 v0 unfolding step_ok_def by blast+
      define c where "c = (case x of Inr p \<Rightarrow> Some p | Inl e \<Rightarrow> None)"
      define errs where "errs = (case x of Inr p \<Rightarrow> vs_errors s1 | Inl e \<Rightarrow> vs_errors s1 @ [VisitingError i e])"
      have res: "r = Inr c" "s' = s1\<lparr>vs_vars := vs_vars s, vs_errors := errs,
          vs_tops := (vs_tops s1)(i \<mapsto> c), vs_visiting := vs_visiting s1 - {i}\<rparr>"
        using run None False x
        by (cases x; simp add: top_body_def vget_def vcatch_def vbind_def vupd_def vret_def
            finish_top_def report_def c_def errs_def)+
      have cpair: "pair_ok b (vs_arena s1) p" if "c = Some p" for p
        using pair that by (simp add: c_def split: sum.splits)
      have "vinv b s'" unfolding res(2) using v1 cpair by (simp add: vinv_def)
      moreover have "extends s s'" unfolding res(2) using ext1 False by (auto simp: extends_def)
      ultimately have "step_ok b s s'" by (simp add: step_ok_def res(2))
      then show ?thesis using res cpair by simp
    qed
  qed
qed

lemma visit_specs: "vis_spec b (visit f env path prefix i)" "top_spec b (visit_top f env i)"
proof (induction f arbitrary: path prefix i)
  case 0
  {
    case 1
    then show ?case by (simp add: vis_spec_def)
  next
    case 2
    then show ?case by (simp add: top_spec_def)
  }
next
  case (Suc f)
  {
    case 1
    show ?case unfolding visit.simps by (rule visit_checks_spec) (rule Suc)+
  next
    case 2
    show ?case unfolding visit_top.simps by (rule top_body_spec) (rule Suc)
  }
qed

section \<open>Properties\<close>

text \<open>The names of the object nodes of the host.\<close>

definition object_nodes :: "nat \<Rightarrow> arena \<Rightarrow> node_ref list" where
  "object_nodes b g = filter (\<lambda>n. \<exists>name. node_at b g name n) [0 ..< length g]"

text \<open>C27: visiting an object keeps the graph sound. Whatever the objects and types are, a visit that
  returns leaves the variables as they were, mirrors every edge in both nodes, links only nodes
  of this host, keeps every cached pair a node with its sentinal, and gives no two object nodes
  the same name; the pair it returns is such a pair.\<close>

theorem visit_top_sound:
  assumes "vinv b s" and "visit_top f env i s = Some (r, s')"
  shows "vinv b s' \<and> vs_vars s' = vs_vars s \<and> vs_visiting s' = vs_visiting s
    \<and> links_ok (vs_arena s')
    \<and> distinct (map (\<lambda>n. n_name (vs_arena s' ! n)) (object_nodes b (vs_arena s')))
    \<and> (\<exists>c. r = Inr c \<and> (\<forall>p. c = Some p \<longrightarrow> pair_ok b (vs_arena s') p))"
proof -
  have st: "step_ok b s s'" and rest: "vs_vars s' = vs_vars s"
    "\<exists>c. r = Inr c \<and> (\<forall>p. c = Some p \<longrightarrow> pair_ok b (vs_arena s') p)"
    using visit_specs(2) [of b f env i] assms unfolding top_spec_def by blast+
  then have v: "vinv b s'" and ext: "extends s s'" using assms(1) unfolding step_ok_def by blast+
  have cached: "\<exists>sn. (nm, (n, sn)) \<in> set (vs_nodes s')" if "node_at b (vs_arena s') nm n" for n nm
    using v that by (simp add: vinv_def)
  have "n = m"
    if n: "node_at b (vs_arena s') nm n" and m: "node_at b (vs_arena s') nm' m"
      and eq: "n_name (vs_arena s' ! n) = n_name (vs_arena s' ! m)" for n m nm nm'
  proof -
    have "nm = nm'" using n m eq by (cases "vs_arena s' ! n"; cases "vs_arena s' ! m") (auto simp: node_at_def)
    moreover obtain sn sm where "(nm, (n, sn)) \<in> set (vs_nodes s')" "(nm', (m, sm)) \<in> set (vs_nodes s')"
      using cached [OF n] cached [OF m] by blast
    moreover have "distinct (map fst (vs_nodes s'))" using v by (simp add: vinv_def)
    ultimately have "(n, sn) = (m, sm)" by (metis eq_key_imp_eq_value)
    then show ?thesis by simp
  qed
  then have "inj_on (\<lambda>n. n_name (vs_arena s' ! n)) (set (object_nodes b (vs_arena s')))"
    unfolding object_nodes_def by (intro inj_onI) (simp, blast)
  then have "distinct (map (\<lambda>n. n_name (vs_arena s' ! n)) (object_nodes b (vs_arena s')))"
    by (simp add: distinct_map object_nodes_def)
  moreover have "links_ok (vs_arena s')" using v unfolding vinv_def by blast
  moreover have "vs_visiting s' = vs_visiting s" using ext by (simp add: extends_def)
  ultimately show ?thesis using v rest by blast
qed

section \<open>The walk ends\<close>

text \<open>
  Templates that cannot make the renderer loop (theorem \<open>render_returns\<close>), wherever they occur:
  in variables, in the fields of objects and triggers, in the defaults and scripts of types.
\<close>

definition content_safe :: "value_map \<Rightarrow> bool" where
  "content_safe c = (\<forall>k s. obj_get k c = Some (JString s) \<longrightarrow> safe_template s)"

definition object_safe :: "value_map \<Rightarrow> bool" where
  "object_safe c =
     (content_safe c \<and> (\<forall>kv \<in> set (variables_iter c) \<union> set (secrets_iter c). safe_template (snd kv))
      \<and> (\<forall>iv \<in> set (triggers_iter c). content_safe (snd iv)))"

fun item_safe :: "type_prop \<Rightarrow> bool" where
  "item_safe (TP_Text p) = safe_template (tp_default p)"
| "item_safe _ = True"

definition type_safe :: "itype \<Rightarrow> bool" where
  "type_safe ty = ((\<forall>s. ty_script ty = Some s \<longrightarrow> safe_template s) \<and> (\<forall>item \<in> set (opt_or (ty_content ty) []). item_safe item))"

definition env_safe :: "visit_env \<Rightarrow> bool" where
  "env_safe env =
     ((\<forall>i obj. ve_objects env i = Some obj \<longrightarrow> object_safe (o_content obj))
      \<and> (\<forall>i ty. ve_types env i = Some ty \<longrightarrow> type_safe ty))"

definition runs :: "int set \<Rightarrow> 'a vm \<Rightarrow> bool" where
  "runs W m = (\<forall>s. vs_visiting s = W \<longrightarrow> (\<exists>r s'. m s = Some (r, s') \<and> vs_visiting s' = W))"

lemma runs_ret [simp]: "runs W (vret v)"
  by (simp add: runs_def vret_def)

lemma runs_fail [simp]: "runs W (vfail e)"
  by (simp add: runs_def vfail_def)

lemma runs_bind: "runs W m \<Longrightarrow> (\<And>v. runs W (f v)) \<Longrightarrow> runs W (vbind m f)"
  unfolding runs_def vbind_def by (fastforce split: sum.splits)

lemma runs_catch: "runs W m \<Longrightarrow> (\<And>v. runs W (h v)) \<Longrightarrow> runs W (vcatch m h)"
  unfolding runs_def vcatch_def by fastforce

lemma runs_get: "(\<And>s. runs W (f s)) \<Longrightarrow> runs W (vget f)"
  by (simp add: runs_def vget_def)

lemma runs_upd: "(\<And>s. vs_visiting (f s) = vs_visiting s) \<Longrightarrow> runs W (vupd f)"
  by (simp add: runs_def vupd_def)

lemma runs_report [simp]: "runs W (report e)"
  unfolding report_def by (rule runs_upd) simp

lemma runs_fold: "(\<And>x a. x \<in> set xs \<Longrightarrow> runs W (f x a)) \<Longrightarrow> runs W (vfold f xs a)"
  by (induction xs arbitrary: a) (simp_all add: runs_bind)

lemma runs_on_vars: "(\<And>e. runs W (h e)) \<Longrightarrow> runs W (on_vars f h)"
  unfolding runs_def on_vars_def by (auto split: prod.splits sum.splits)

lemma runs_template: "safe_template v \<Longrightarrow> runs W (template name v title)"
  unfolding runs_def
proof (intro allI impI)
  fix s :: vst assume "safe_template v" and W: "vs_visiting s = W"
  then obtain r where "render v (Some (vmap (vs_outer s))) (vmap (vs_vars s)) True = Some r"
    using render_safe by blast
  with W show "\<exists>r s'. template name v title s = Some (r, s') \<and> vs_visiting s' = W"
    by (cases r) (simp_all add: template_def vbind_def report_def vupd_def vret_def)
qed

lemma str_field_safe: "content_safe c \<Longrightarrow> safe_template d \<Longrightarrow> safe_template (str_field name d c)"
proof -
  assume c: "content_safe c" and d: "safe_template d"
  show ?thesis
  proof (cases "obj_get name c")
    case None
    then show ?thesis using d by (simp add: str_field_def opt_or_def)
  next
    case (Some j)
    then show ?thesis using c d by (cases j) (auto simp: str_field_def opt_or_def content_safe_def)
  qed
qed

lemma safe_empty [simp]: "safe_template ''''"
  by (simp add: safe_plain contains_str_def)

lemma runs_set_variable [simp]: "runs W (set_variable variable f)"
  by (simp add: set_variable_def try_vars_def runs_on_vars split: option.splits)

lemma runs_maybe: "safe_template v \<Longrightarrow> runs W (maybe_template t name v title)"
  by (simp add: maybe_template_def runs_template)

lemma runs_visit_item: "content_safe c \<Longrightarrow> item_safe item \<Longrightarrow> runs W (visit_item c item tc)"
  by (cases tc; cases item) (auto intro!: runs_bind runs_maybe str_field_safe simp: Let_def)

lemma runs_visit_content: "content_safe c \<Longrightarrow> type_safe ty \<Longrightarrow> runs W (visit_content title c ty)"
  unfolding visit_content_def type_safe_def
  by (auto intro!: runs_bind runs_fold runs_visit_item runs_template split: prod.splits option.splits)

lemma runs_add_variabels: "object_safe (o_content obj) \<Longrightarrow> runs W (add_variabels obj)"
  unfolding add_variabels_def object_safe_def
  by (force intro!: runs_bind runs_fold runs_template runs_on_vars simp: add_variable_def)

lemma runs_visit_triggers:
  assumes env: "env_safe env" and c: "object_safe c"
  shows "runs W (visit_triggers env c node)"
  unfolding visit_triggers_def
proof (rule runs_fold)
  fix iv a assume iv: "iv \<in> set (triggers_iter c)"
  obtain i vals where pair [simp]: "iv = (i, vals)" by (cases iv)
  have "content_safe vals" using iv c by (force simp: object_safe_def)
  then have "runs W (visit_trigger env i vals)"
    using env unfolding visit_trigger_def env_safe_def
    by (auto intro!: runs_bind runs_visit_content split: option.splits)
  then show "runs W ((case iv of (i, vals) \<Rightarrow> \<lambda>_. vcatch (visit_trigger env i vals)
      (\<lambda>r. case r of Inr t \<Rightarrow> vupd (on_node node (push_trigger t)) | Inl e \<Rightarrow> report (TriggerError i vals e))) a)"
    by (auto intro!: runs_catch runs_upd simp: on_node_def split: sum.splits)
qed

lemma runs_handle_contains: "(\<And>j. runs W (vis j)) \<Longrightarrow> runs W (handle_contains vis c node sentinal)"
  unfolding handle_contains_def
  by (auto intro!: runs_fold runs_catch runs_upd simp: add_edges_def split: sum.splits)

lemma runs_handle_depends: "(\<And>j. runs W (vtop j)) \<Longrightarrow> runs W (handle_depends vtop c node)"
  unfolding handle_depends_def
  by (auto intro!: runs_fold runs_bind runs_upd split: option.splits)

lemma runs_visit_object:
  assumes env: "env_safe env" and obj: "ve_objects env i = Some obj" "ve_objects env (o_type obj) = Some tobj"
    and ty: "ve_types env (o_type obj) = Some ty"
    and vis: "\<And>q j. runs W (vis (path @ [i]) q j)" and top: "\<And>j. runs W (vtop j)"
  shows "runs W (visit_object vis vtop env i path prefix name obj ty tobj)"
proof -
  have safe: "object_safe (o_content obj)" "object_safe (o_content tobj)" "type_safe ty" "content_safe (o_content obj)"
    using env obj ty by (auto simp: env_safe_def object_safe_def)
  have name: "runs W (set_name_variable ty obj)"
    by (simp add: set_name_variable_def runs_on_vars split: option.splits)
  have kids: "runs W (visit_children vis env i path prefix obj ty tobj n sn)" for n sn
    unfolding visit_children_def
    by (auto intro!: runs_bind runs_get runs_visit_triggers env safe runs_handle_contains vis simp: Let_def)
  have "runs W (visit_inner vis env i path prefix name obj ty tobj)"
    unfolding visit_inner_def
    by (auto intro!: runs_bind runs_get runs_upd runs_add_variabels runs_visit_content kids name safe
        simp: Let_def new_nodes_def)
  then show ?thesis
    unfolding visit_object_def
    by (auto intro!: runs_bind runs_catch runs_upd runs_on_vars runs_handle_depends top
        simp: try_vars_def split: sum.splits prod.splits)
qed

lemma runs_visit_missing: "ve_objects env i = None \<Longrightarrow> runs W (visit (Suc f) env path prefix i)"
  by (auto intro!: runs_get simp: visit_checks_def split: option.splits)

lemma runs_visit:
  assumes env: "env_safe env" and fin: "finite (dom (ve_objects env))"
  defines "N \<equiv> card (dom (ve_objects env))"
  shows "distinct path \<Longrightarrow> set path \<subseteq> dom (ve_objects env) \<Longrightarrow>
      card (dom (ve_objects env) - W) * (N + 2) + (N - length path) + 3 \<le> f \<Longrightarrow>
      runs W (visit f env path prefix i)"
    and "card (dom (ve_objects env) - W) * (N + 2) + 2 \<le> f \<Longrightarrow> runs W (visit_top f env i)"
proof (induction f arbitrary: W path prefix i)
  case 0
  {
    case 1
    then show ?case by simp
  next
    case 2
    then show ?case by simp
  }
next
  case (Suc f)
  let ?D = "dom (ve_objects env)"
  {
    case 1
    have top: "runs W (visit_top f env j)" for j by (rule Suc.IH(2)) (use "1"(3) in simp)
    have vis: "runs W (visit f env (path @ [i]) q j)" if "i \<in> ?D" "i \<notin> set path" for q j
    proof (rule Suc.IH(1))
      show "distinct (path @ [i])" "set (path @ [i]) \<subseteq> ?D" using "1"(1,2) that by simp_all
      then have "length (path @ [i]) \<le> N"
        unfolding N_def using distinct_card [of "path @ [i]"] card_mono [OF fin] by metis
      then show "card (?D - W) * (N + 2) + (N - length (path @ [i])) + 3 \<le> f" using "1"(3) by simp
    qed
    show ?case unfolding visit.simps visit_checks_def
      by (auto intro!: runs_get runs_visit_object env vis top split: option.splits)
  next
    case 2
    show ?case
      unfolding runs_def
    proof (intro allI impI)
      fix s :: vst assume W: "vs_visiting s = W"
      show "\<exists>r s'. visit_top (Suc f) env i s = Some (r, s') \<and> vs_visiting s' = W"
      proof (cases "vs_tops s i \<noteq> None \<or> i \<in> W")
        case True
        then show ?thesis using W
          by (cases "vs_tops s i") (auto simp: top_body_def vget_def vret_def vbind_def report_def vupd_def)
      next
        case False
        let ?W = "insert i W"
        have run: "runs ?W (visit f env [] [] i)"
        proof (cases "i \<in> ?D")
          case True
          then have "card (?D - W) = Suc (card (?D - ?W))"
            using False fin by (metis Diff_insert card_Suc_Diff1 DiffI finite_Diff)
          with "2" have "card (?D - ?W) * (N + 2) + (N - length ([] :: int list)) + 3 \<le> f" by simp
          then show ?thesis by (intro Suc.IH(1)) simp_all
        next
          case missing: False
          obtain g where "f = Suc g" using "2" by (cases f) simp_all
          then show ?thesis using runs_visit_missing missing by (simp add: domIff)
        qed
        let ?s = "s\<lparr>vs_visiting := insert i (vs_visiting s), vs_vars := variables_default\<rparr>"
        have "vs_visiting ?s = ?W" using W by simp
        then obtain x s1 where x: "visit f env [] [] i ?s = Some (x, s1)" "vs_visiting s1 = ?W"
          using run unfolding runs_def by blast
        with False W show ?thesis
          by (cases x) (simp_all add: top_body_def vget_def vcatch_def vbind_def vupd_def vret_def
            finish_top_def report_def)
      qed
    qed
  }
qed

text \<open>C28: the walk ends. For any finite set of objects, contained in and depending on each other
  however they like, in which no template (a script, a text field or its default, a variable or
  a secret) sets an empty start delimiter, visiting an object returns within a depth of \<open>n * (n + 2) + 2\<close> calls, \<open>n\<close> being the number of objects.\<close>

theorem visit_top_returns:
  assumes "env_safe env" and "finite (dom (ve_objects env))" and "vs_visiting s = {}"
    and "card (dom (ve_objects env)) * (card (dom (ve_objects env)) + 2) + 2 \<le> f"
  shows "\<exists>r s'. visit_top f env i s = Some (r, s') \<and> vs_visiting s' = {}"
  using runs_visit(2) [OF assms(1,2), of "{}" f i] assms(3,4) unfolding runs_def by simp

section \<open>Witnesses\<close>

text \<open>Two objects that contain each other, both of the type of object 1.\<close>

definition plain_type :: itype where
  "plain_type = itype_default\<lparr>ty_script := Some ''x = 1'', ty_has_contains := Some True\<rparr>"

definition walk_env :: visit_env where
  "walk_env =
     \<lparr>ve_objects = [1 \<mapsto> \<lparr>o_type = 0, o_content = [], o_name = ''Thing''\<rparr>,
        5 \<mapsto> \<lparr>o_type = 1, o_content = [(''contains'', JArray [JNumber (U64 6)])], o_name = ''a''\<rparr>,
        6 \<mapsto> \<lparr>o_type = 1, o_content = [(''contains'', JArray [JNumber (U64 5)])], o_name = ''b''\<rparr>],
      ve_types = [1 \<mapsto> plain_type]\<rparr>"

definition walk_start :: vst where
  "walk_start =
     \<lparr>vs_errors = [], vs_tops = Map.empty, vs_visiting = {}, vs_arena = [], vs_nodes = [],
      vs_host = 2, vs_outer = variables_default, vs_vars = variables_default\<rparr>"

lemma walk_start_vinv: "vinv 0 walk_start"
  by (simp add: vinv_def walk_start_def links_ok_def nprev_def nnext_def node_at_def)

lemma walk_run:
  "\<exists>r s' :: vst. visit_top 20 walk_env 5 walk_start = Some (r, s')
     \<and> map fst (vs_nodes s') = [''.6'', ''.5''] \<and> vs_errors s' = [] \<and> length (vs_arena s') = 4"
proof -
  have "(case visit_top 20 walk_env 5 walk_start of
      Some (_, s) \<Rightarrow> map fst (vs_nodes s) = [''.6'', ''.5''] \<and> vs_errors s = [] \<and> length (vs_arena s) = 4
    | None \<Rightarrow> False)"
    by code_simp
  then show ?thesis by (auto split: option.splits)
qed

theorem visit_top_sound_witness:
  "\<exists>c s'. visit_top 20 walk_env 5 walk_start = Some (Inr c, s') \<and> vinv 0 s'
     \<and> map fst (vs_nodes s') = [''.6'', ''.5'']
     \<and> distinct (map (\<lambda>n. n_name (vs_arena s' ! n)) (object_nodes 0 (vs_arena s')))"
proof -
  obtain r :: "visit_err + node_pair option" and s' :: vst where run: "visit_top 20 walk_env 5 walk_start = Some (r, s')"
    "map fst (vs_nodes s') = [''.6'', ''.5'']"
    using walk_run by (elim exE conjE) (rule that)
  from visit_top_sound [OF walk_start_vinv run(1)] run show ?thesis by auto
qed

lemma walk_env_safe: "env_safe walk_env"
proof -
  have s: "safe_template ''x = 1''" by code_simp
  have "variables_iter c = []" "secrets_iter c = []" "triggers_iter c = []"
    if "c = [] \<or> c = [(''contains'', JArray [JNumber (U64 n)])]" for c n
    using that by (auto simp: variables_iter_def secrets_iter_def triggers_iter_def variable_array_def)
  then have o: "object_safe c" if "c = [] \<or> c = [(''contains'', JArray [JNumber (U64 n)])]" for c n
    using that by (auto simp: object_safe_def content_safe_def split: if_splits)
  show ?thesis
    using s o by (auto simp: env_safe_def walk_env_def type_safe_def plain_type_def itype_default_def opt_or_def
        split: if_splits)
qed

theorem visit_top_returns_witness:
  "\<exists>r s'. visit_top 20 walk_env 5 walk_start = Some (r, s') \<and> vs_visiting s' = {}"
proof -
  have "dom (ve_objects walk_env) = {1, 5, 6}" by (auto simp: walk_env_def split: if_splits)
  then show ?thesis
    using visit_top_returns [OF walk_env_safe, of walk_start 20 5] by (simp add: walk_start_def)
qed

end
