(* ===== verification/Setup.thy ===== *)
theory Setup
  imports Visitor Host_Diff Deployment
begin

text \<open>
  Setting up a deployment (\<open>setup_deployment\<close>, \<open>setup_deployment_inner\<close>,
  \<open>setup_deployment_host\<close> and \<open>setup_deployment_object_types_and_hosts\<close> in
  \<open>src/bin/server/deployment.rs\<close>): objects, types and hosts are loaded, the variables of a host
  are collected, the graph of what it contains is built (theory \<open>Visitor\<close>), sorted (theories
  \<open>Topsort\<close> and \<open>Cycle_Search\<close>) and compared with what is deployed (theory \<open>Host_Diff\<close>). The
  database is a parameter: the rows of the newest objects, and those of \<open>deployments\<close> by host.
  So are the parser and the texts of the error messages.
\<close>

section \<open>Objects, types and hosts\<close>

record object_row =
  or_id :: int
  or_type :: int
  or_name :: string
  or_content :: string

record loaded =
  ld_objects :: "int \<rightharpoonup> object"
  ld_types :: "int \<rightharpoonup> itype"
  ld_hosts :: "int list"

record parser =
  pa_content :: "string \<Rightarrow> string + value_map"
  pa_type :: "string \<Rightarrow> string + itype"

definition load_kind :: "parser \<Rightarrow> object_row \<Rightarrow> loaded \<Rightarrow> string + loaded" where
  "load_kind pa r l =
     (if or_type r = HOST_ID then Inr (l\<lparr>ld_hosts := ld_hosts l @ [or_id r]\<rparr>)
      else if or_type r = TYPE_ID
      then res_bind (pa_type pa (or_content r)) (\<lambda>ty. Inr (l\<lparr>ld_types := (ld_types l)(or_id r \<mapsto> ty)\<rparr>))
      else Inr l)"

fun load_rows :: "parser \<Rightarrow> object_row list \<Rightarrow> loaded \<Rightarrow> string + loaded" where
  "load_rows pa [] l = Inr l"
| "load_rows pa (r # rs) l =
     res_bind (load_kind pa r l)
       (\<lambda>l1. res_bind (pa_content pa (or_content r))
         (\<lambda>c. load_rows pa rs
            (l1\<lparr>ld_objects := (ld_objects l1)(or_id r \<mapsto>
               \<lparr>o_type = or_type r, o_content = c, o_name = or_name r\<rparr>)\<rparr>)))"

definition object_types_and_hosts :: "parser \<Rightarrow> object_row list \<Rightarrow> string + loaded" where
  "object_types_and_hosts pa rows =
     load_rows pa rows \<lparr>ld_objects = Map.empty, ld_types = Map.empty, ld_hosts = []\<rparr>"

section \<open>The variables of a host\<close>

text \<open>
  Host variables come from what the host's object contains or depends on, through collections;
  \<open>to_visit\<close> is a stack whose top is the end of the Rust vector, here the head of the list.
\<close>

definition next_vars :: "object \<Rightarrow> int list" where
  "next_vars obj =
     (if o_type obj \<in> {HOST_ID, COLLECTION_ID, COMPLEX_COLLECTION_ID}
      then rev (contains_iter (o_content obj) @ depends_iter (o_content obj)) else [])"

partial_function (option) var_walk ::
  "visit_env \<Rightarrow> int list \<Rightarrow> int set \<Rightarrow> vst \<Rightarrow> ((visit_err + unit) \<times> vst) option"
where
  "var_walk env to_visit visited s =
     (case to_visit of
        [] \<Rightarrow> Some (Inr (), s)
      | i # st \<Rightarrow>
          if i \<in> visited then var_walk env st visited s
          else (case ve_objects env i of
             None \<Rightarrow> var_walk env st (insert i visited) s
           | Some obj \<Rightarrow>
               (case (if o_type obj = HOST_VARIABLE_ID then add_variabels obj s else vret () s) of
                  None \<Rightarrow> None
                | Some (Inl e, s') \<Rightarrow> Some (Inl e, s')
                | Some (Inr _, s') \<Rightarrow> var_walk env (next_vars obj @ st) (insert i visited) s')))"

declare var_walk.simps [code]

text \<open>\<open>std::mem::swap(&mut visitor.outer_vars, outer_vars)\<close>.\<close>

definition swap_outer :: "vst \<Rightarrow> vst" where
  "swap_outer s = s\<lparr>vs_outer := vs_vars s, vs_vars := vs_outer s\<rparr>"

definition host_graph :: "nat \<Rightarrow> visit_env \<Rightarrow> int \<Rightarrow> object \<Rightarrow> unit vm" where
  "host_graph f env host_id host_object =
     vbind (try_vars (add_str ''nodename'' (o_name host_object)))
       (\<lambda>_. vbind (var_walk env [host_id] {})
       (\<lambda>_. vbind (add_variabels host_object)
       (\<lambda>_. vbind (vupd swap_outer)
       (\<lambda>_. vbind (vfold (\<lambda>dep _. vbind (visit_top f env dep) (\<lambda>_. vret ()))
                   (contains_iter (o_content host_object)) ())
       (\<lambda>_. vupd swap_outer)))))"

section \<open>The plan of a host\<close>

datatype setup_error =
    MissingHost int | VisitFailed visit_err | Underflow | HostFailed host_error
  | CycleFailed cycle_error | MissingRoot | MissingRootType | RootContent visit_err
  | HostContext string int setup_error | LoadFailed string

fun node_label :: "dag_node \<Rightarrow> string" where
  "node_label (Sentinal base name) = ''Sent '' @ name"
| "node_label (Normal base name triggers title script content type_id) = title"

fun join_arrows :: "string list \<Rightarrow> string" where
  "join_arrows [] = ''''"
| "join_arrows [s] = s"
| "join_arrows (s # ss) = s @ '' -> '' @ join_arrows ss"

definition cycle_message :: "string \<Rightarrow> arena \<Rightarrow> node_ref list \<Rightarrow> string" where
  "cycle_message host_name g cycle =
     ''There is a cycle on host '' @ host_name @ '': '' @ join_arrows (map (\<lambda>n. node_label (g ! n)) cycle)"

text \<open>The error a cycle among the nodes left over adds.\<close>

definition cycle_errors :: "string \<Rightarrow> arena \<Rightarrow> node_ref list \<Rightarrow> (setup_error + visit_error list) option" where
  "cycle_errors host_name g seen =
     (if seen = [] then Some (Inr [])
      else case find_cycle g seen of
        None \<Rightarrow> None
      | Some (Inl e) \<Rightarrow> Some (Inl (CycleFailed e))
      | Some (Inr c) \<Rightarrow> Some (Inr [HostCycle (cycle_message host_name g c)]))"

definition sort_nodes ::
  "host_env \<Rightarrow> arena \<Rightarrow> node_ref list \<Rightarrow> old_rows \<Rightarrow> (setup_error + emit_state \<times> node_ref list) option" where
  "sort_nodes he g start rows =
     (case topsort heap_pop heap_push [] g (node_key he g) (emit_node he g) start
             \<lparr>es_old = rows, es_out = []\<rparr> of
        None \<Rightarrow> None
      | Some (Inl InCountUnderflow) \<Rightarrow> Some (Inl Underflow)
      | Some (Inl (EmitError e)) \<Rightarrow> Some (Inl (HostFailed e))
      | Some (Inr r) \<Rightarrow> Some (Inr r))"

definition plan_host ::
  "host_env \<Rightarrow> bool \<Rightarrow> arena \<Rightarrow> node_ref list \<Rightarrow> old_rows
    \<Rightarrow> (setup_error + deployment_object list \<times> visit_error list) option" where
  "plan_host he full g start rows =
     (if start = [] \<and> \<not> full then Some (Inr ([], []))
      else case sort_nodes he g start rows of
        None \<Rightarrow> None
      | Some (Inl e) \<Rightarrow> Some (Inl e)
      | Some (Inr (st, seen)) \<Rightarrow>
          (case cycle_errors (o_name (he_host_object he)) g seen of
             None \<Rightarrow> None
           | Some (Inl e) \<Rightarrow> Some (Inl e)
           | Some (Inr errs) \<Rightarrow>
               (case host_deployment he full st of
                  Inl e \<Rightarrow> Some (Inl (HostFailed e))
                | Inr obs \<Rightarrow> Some (Inr (obs, errs)))))"
definition env_of :: "visit_env \<Rightarrow> int \<Rightarrow> object \<Rightarrow> bool \<Rightarrow> host_env" where
  "env_of env host_id host_object redeploy =
     \<lparr>he_objects = ve_objects env, he_types = ve_types env, he_host = host_id,
      he_host_object = host_object, he_redeploy = redeploy\<rparr>"

record setup_args =
  sa_deploy_id :: "int option"
  sa_redeploy :: bool
  sa_rows :: "int \<Rightarrow> old_rows"

text \<open>\<open>setup_deployment_host\<close>; its value is what it adds to \<open>new_deployment_objects\<close>.\<close>

definition setup_host ::
  "nat \<Rightarrow> visit_env \<Rightarrow> setup_args \<Rightarrow> int \<Rightarrow> vst
    \<Rightarrow> ((setup_error + deployment_object list) \<times> vst) option" where
  "setup_host f env sa host_id s =
     (case ve_objects env host_id of
        None \<Rightarrow> Some (Inl (MissingHost host_id), s)
      | Some host_object \<Rightarrow>
          (case host_graph f env host_id host_object s of
             None \<Rightarrow> None
           | Some (Inl e, s1) \<Rightarrow> Some (Inl (VisitFailed e), s1)
           | Some (Inr _, s1) \<Rightarrow>
               if vs_errors s1 \<noteq> [] then Some (Inr [], s1)
               else (case plan_host (env_of env host_id host_object (sa_redeploy sa))
                        (host_full (sa_deploy_id sa) host_id) (vs_arena s1)
                        (select_nodes (sa_deploy_id sa) host_id (vs_arena s1) (vs_nodes s1))
                        (sa_rows sa host_id) of
                   None \<Rightarrow> None
                 | Some (Inl e) \<Rightarrow> Some (Inl e, s1)
                 | Some (Inr (obs, errs)) \<Rightarrow> Some (Inr obs, s1\<lparr>vs_errors := vs_errors s1 @ errs\<rparr>))))"

section \<open>All hosts\<close>

text \<open>What is cleared before each host; the errors are, too.\<close>

definition enter_setup :: "int \<Rightarrow> vst \<Rightarrow> vst" where
  "enter_setup host_id s =
     s\<lparr>vs_host := host_id, vs_nodes := [], vs_tops := Map.empty, vs_visiting := {}, vs_errors := [],
       vs_vars := vars_push (vs_vars s)\<rparr>"

definition object_name :: "visit_env \<Rightarrow> int \<Rightarrow> string" where
  "object_name env i = (case ve_objects env i of Some v \<Rightarrow> o_name v | None \<Rightarrow> ''Missing'')"

fun setup_hosts ::
  "nat \<Rightarrow> visit_env \<Rightarrow> setup_args \<Rightarrow> int list \<Rightarrow> deployment_object list \<Rightarrow> vst
    \<Rightarrow> ((setup_error + deployment_object list) \<times> vst) option" where
  "setup_hosts f env sa [] obs s = Some (Inr obs, s)"
| "setup_hosts f env sa (h # hs) obs s =
     (case setup_host f env sa h (enter_setup h s) of
        None \<Rightarrow> None
      | Some (r, s1) \<Rightarrow>
          (case vars_pop (vs_vars s1) of
             (Inl e, v) \<Rightarrow> Some (Inl (VisitFailed (VarsErr e)), s1\<lparr>vs_vars := v\<rparr>)
           | (Inr _, v) \<Rightarrow>
               (case r of
                  Inl e \<Rightarrow> Some (Inl (HostContext (object_name env h) h e), s1\<lparr>vs_vars := v\<rparr>)
                | Inr new \<Rightarrow> setup_hosts f env sa hs (obs @ new) (s1\<lparr>vs_vars := v\<rparr>))))"

definition setup_start :: vst where
  "setup_start =
     \<lparr>vs_errors = [], vs_tops = Map.empty, vs_visiting = {}, vs_arena = [], vs_nodes = [],
      vs_host = - 1, vs_outer = variables_default, vs_vars = variables_default\<rparr>"

definition root_variables :: "object \<Rightarrow> itype \<Rightarrow> unit vm" where
  "root_variables root_obj root_type =
     vbind (try_vars (add_str ''user'' ''root''))
       (\<lambda>_. vbind (try_vars (add_str ''editor'' ''vim''))
       (\<lambda>_. vbind (add_variabels root_obj)
       (\<lambda>_. vbind (visit_content ''root'' (o_content root_obj) root_type) (\<lambda>_. vret ()))))"

definition index_objects :: "deployment_object list \<Rightarrow> deployment_object list" where
  "index_objects obs = map (\<lambda>(i, ob). ob\<lparr>do_index := i\<rparr>) (List.enumerate 0 obs)"

text \<open>
  What \<open>setup_deployment_inner\<close> comes to: an error, the errors of the visitor, or the objects
  to deploy.
\<close>

datatype plan = Invalid "visit_error list" | Objects "deployment_object list"

definition setup_inner :: "nat \<Rightarrow> loaded \<Rightarrow> setup_args \<Rightarrow> (setup_error + plan) option" where
  "setup_inner f l sa =
     (let env = \<lparr>ve_objects = ld_objects l, ve_types = ld_types l\<rparr>
      in case ld_objects l ROOT_INSTANCE_ID of
           None \<Rightarrow> Some (Inl MissingRoot)
         | Some root_obj \<Rightarrow>
             (case ld_types l (o_type root_obj) of
                None \<Rightarrow> Some (Inl MissingRootType)
              | Some root_type \<Rightarrow>
                  (case root_variables root_obj root_type setup_start of
                     None \<Rightarrow> None
                   | Some (Inl e, s) \<Rightarrow> Some (Inl (RootContent e))
                   | Some (Inr _, s) \<Rightarrow>
                       (case setup_hosts f env sa (ld_hosts l) [] s of
                          None \<Rightarrow> None
                        | Some (Inl e, s1) \<Rightarrow> Some (Inl e)
                        | Some (Inr obs, s1) \<Rightarrow>
                            Some (Inr (if vs_errors s1 \<noteq> [] then Invalid (vs_errors s1)
                                       else Objects (index_objects obs)))))))"

section \<open>Setting up a deployment\<close>

record messages =
  ms_visit :: "visit_error list \<Rightarrow> string"
  ms_setup :: "setup_error \<Rightarrow> string"

text \<open>A bound on the depth of the visits, enough by theorem \<open>visit_top_returns\<close>.\<close>

definition visit_depth :: "object_row list \<Rightarrow> nat" where
  "visit_depth rows = length rows * (length rows + 2) + 2"

definition plan_world :: "messages \<Rightarrow> setup_error + plan \<Rightarrow> world \<Rightarrow> world" where
  "plan_world ms r =
     (case r of
        Inl e \<Rightarrow> update_deployment (setup_failed (ms_setup ms e))
      | Inr (Invalid errs) \<Rightarrow> update_deployment (setup_failed (ms_visit ms errs))
      | Inr (Objects obs) \<Rightarrow> update_deployment (setup_done obs))"

definition compute_plan ::
  "parser \<Rightarrow> string + object_row list \<Rightarrow> setup_args \<Rightarrow> (setup_error + plan) option" where
  "compute_plan pa query sa =
     (case query of
        Inl e \<Rightarrow> Some (Inl (LoadFailed e))
      | Inr rows \<Rightarrow>
          (case object_types_and_hosts pa rows of
             Inl e \<Rightarrow> Some (Inl (LoadFailed e))
           | Inr l \<Rightarrow> setup_inner (visit_depth rows) l sa))"

definition setup_deployment ::
  "parser \<Rightarrow> messages \<Rightarrow> string + object_row list \<Rightarrow> setup_args \<Rightarrow> bool \<Rightarrow> world \<Rightarrow> world option" where
  "setup_deployment pa ms query sa stop_review w =
     (case setup_begin stop_review (w_dep w) of
        (False, d) \<Rightarrow> Some (update_deployment (\<lambda>_. d) w)
      | (True, d) \<Rightarrow>
          map_option (\<lambda>r. plan_world ms r (update_deployment (\<lambda>_. d) w)) (compute_plan pa query sa))"

end
