(* ===== verification/Setup_Ends.thy ===== *)
theory Setup_Ends
  imports Setup
begin

text \<open>
  Setting up a deployment always ends (theory \<open>Setup\<close>): the walks of all hosts return, the graphs
  they leave are sound, so sorting never underflows and a cycle among the nodes left over is
  found, and every scope that was pushed is popped. What remains are the errors the objects
  themselves can cause.
\<close>

section \<open>The variables of a host\<close>

lemma runs_var_walk:
  assumes env: "env_safe env" and fin: "finite (dom (ve_objects env))"
  shows "runs W (var_walk env st vis)"
  using fin
proof (induction st vis rule: stack_walk_induct)
  case (Nil vis)
  then show ?case by (simp add: runs_def var_walk.simps)
next
  case (Visited i st vis)
  then show ?case by (simp add: runs_def var_walk.simps [of env "i # st"])
next
  case (Outside i st vis)
  then have "ve_objects env i = None" by blast
  with Outside show ?case by (simp add: runs_def var_walk.simps [of env "i # st"])
next
  case (Expand i st vis)
  then obtain obj where obj: "ve_objects env i = Some obj" by blast
  then have "runs W (add_variabels obj)" using env by (intro runs_add_variabels) (simp add: env_safe_def)
  then have "runs W (if o_type obj = HOST_VARIABLE_ID then add_variabels obj else vret ())" by simp
  then have "runs W (vbind (if o_type obj = HOST_VARIABLE_ID then add_variabels obj else vret ())
      (\<lambda>_. var_walk env (next_vars obj @ st) (insert i vis)))"
    by (rule runs_bind) (rule Expand)
  moreover have "var_walk env (i # st) vis = vbind
      (if o_type obj = HOST_VARIABLE_ID then add_variabels obj else vret ())
      (\<lambda>_. var_walk env (next_vars obj @ st) (insert i vis))"
    using Expand obj by (simp add: fun_eq_iff var_walk.simps [of env "i # st"] vbind_def)
  ultimately show ?case by simp
qed

text \<open>The errors of \<open>add_variabels\<close> are reported, not returned.\<close>

definition total :: "'a vm \<Rightarrow> bool" where
  "total m = (\<forall>s r s'. m s = Some (r, s') \<longrightarrow> (\<exists>v. r = Inr v))"

lemma total_bind: "total m \<Longrightarrow> (\<And>v. total (f v)) \<Longrightarrow> total (vbind m f)"
  unfolding total_def vbind_def by (fastforce split: option.splits sum.splits)

lemma total_fold: "(\<And>x a. total (f x a)) \<Longrightarrow> total (vfold f xs a)"
  by (induction xs arbitrary: a) (simp_all add: total_bind, simp add: total_def vret_def)

lemma total_template [simp]: "total (template name v title)"
  unfolding total_def template_def
  by (auto simp: vbind_def report_def vupd_def vret_def split: option.splits sum.splits)

lemma total_add_variabels [simp]: "total (add_variabels obj)"
proof -
  have "total (add_variable (o_name obj) kv a)" for kv a
    unfolding add_variable_def
    by (rule total_bind [OF total_template]) (auto simp: total_def on_vars_def report_def vupd_def split: prod.splits sum.splits)
  then show ?thesis unfolding add_variabels_def by (intro total_bind total_fold)
qed

lemma var_walk_step_ok:
  assumes "var_walk env st vis s = Some (r, s')"
  shows "step_ok b s s' \<and> r = Inr ()"
  using assms
proof (induction env st vis s "(r, s')" rule: var_walk.raw_induct [rotated, consumes 1, case_names walk])
  case (walk w env st vis s)
  show ?case
  proof (cases st)
    case Nil
    with walk(2) show ?thesis by simp
  next
    case (Cons i rest)
    let ?add = "\<lambda>obj. if o_type obj = HOST_VARIABLE_ID then add_variabels obj else vret ()"
    have ok: "step_ok b s s1 \<and> x = Inr ()" if "?add obj s = Some (x, s1)" for obj x s1
    proof -
      have "keeps (step_ok b) (\<lambda>_. True) (?add obj)" by simp
      moreover have "total (?add obj)" by (simp add: total_def vret_def) (use total_add_variabels in \<open>simp add: total_def\<close>)
      ultimately show ?thesis using that unfolding keeps_def total_def by fastforce
    qed
    show ?thesis
    proof (cases "i \<in> vis \<or> ve_objects env i = None")
      case True
      with walk Cons show ?thesis by (auto split: if_splits option.splits)
    next
      case False
      then obtain obj where obj: "ve_objects env i = Some obj" by blast
      with False Cons walk(2) obtain x s1 where x: "?add obj s = Some (x, s1)"
        by (auto split: option.splits if_splits)
      with ok have s1: "step_ok b s s1" "x = Inr ()" by blast+
      with False Cons walk(2) obj x have "w env (next_vars obj @ rest) (insert i vis) s1 = Some (r, s')"
        by (simp split: if_splits)
      with walk(1) s1(1) show ?thesis using step_ok_trans by blast
    qed
  qed
qed

section \<open>The graph of a host\<close>

lemma swap_outer_twice [simp]: "swap_outer (swap_outer s) = s"
  by (simp add: swap_outer_def)

lemma vinv_swap_outer [simp]: "vinv b (swap_outer s) = vinv b s"
  by (simp add: vinv_def swap_outer_def)

definition visit_contained :: "nat \<Rightarrow> visit_env \<Rightarrow> int list \<Rightarrow> unit vm" where
  "visit_contained f env ids = vfold (\<lambda>dep _. vbind (visit_top f env dep) (\<lambda>_. vret ())) ids ()"

lemma visit_contained_sound:
  assumes "vinv b s" and "visit_contained f env ids s = Some (r, s')"
  shows "r = Inr () \<and> vinv b s' \<and> vs_vars s' = vs_vars s \<and> vs_outer s' = vs_outer s
    \<and> vs_visiting s' = vs_visiting s"
  using assms
proof (induction ids arbitrary: s)
  case Nil
  then show ?case by (simp add: visit_contained_def vret_def)
next
  case (Cons i ids)
  from Cons.prems(2) obtain x s1 where x: "visit_top f env i s = Some (x, s1)"
    by (auto simp: visit_contained_def vbind_def split: option.splits)
  have "step_ok b s s1" "vs_vars s1 = vs_vars s" "\<exists>c. x = Inr c"
    using visit_specs(2) [of b f env i] Cons.prems(1) x unfolding top_spec_def by blast+
  moreover from this have "vinv b s1" "vs_outer s1 = vs_outer s" "vs_visiting s1 = vs_visiting s"
    using Cons.prems(1) by (simp_all add: step_ok_def extends_def)
  moreover from calculation have "visit_contained f env ids s1 = Some (r, s')"
    using Cons.prems(2) x by (auto simp: visit_contained_def vbind_def vret_def)
  ultimately show ?case using Cons.IH [of s1] by simp
qed

text \<open>What setting up the graph of a host keeps, and the only error it returns.\<close>

definition host_spec :: "nat \<Rightarrow> unit vm \<Rightarrow> bool" where
  "host_spec b m =
     (\<forall>s r s' v0. vinv b s \<longrightarrow> frame_of v0 (vs_vars s) \<longrightarrow> m s = Some (r, s') \<longrightarrow>
        vinv b s' \<and> frame_of v0 (vs_vars s') \<and> vs_visiting s' = vs_visiting s
        \<and> r \<in> {Inr (), Inl (VarsErr JsonNotSupported)})"

lemma host_spec_bind: "host_spec b m \<Longrightarrow> (\<And>v. host_spec b (f v)) \<Longrightarrow> host_spec b (vbind m f)"
  unfolding host_spec_def by (elim vbind_SomeE | intro allI impI)+ blast+

lemma host_spec_total:
  assumes "\<And>s r s'. m s = Some (r, s') \<Longrightarrow> step_ok b s s' \<and> r = Inr ()"
  shows "host_spec b m"
  using assms unfolding host_spec_def step_ok_def extends_def by blast

lemma host_spec_visits:
  "host_spec b (vbind (vupd swap_outer) (\<lambda>_. vbind (visit_contained f env ids) (\<lambda>_. vupd swap_outer)))"
  unfolding host_spec_def
proof (intro allI impI)
  fix s :: vst and r s' v0
  assume v: "vinv b s" and fr: "frame_of v0 (vs_vars s)"
    and run: "vbind (vupd swap_outer) (\<lambda>_. vbind (visit_contained f env ids) (\<lambda>_. vupd swap_outer)) s = Some (r, s')"
  from run obtain x s1 where x: "visit_contained f env ids (swap_outer s) = Some (x, s1)"
    by (auto simp: vbind_def vupd_def split: option.splits)
  have s1: "x = Inr ()" "vinv b s1" "vs_vars s1 = vs_outer s" "vs_outer s1 = vs_vars s" "vs_visiting s1 = vs_visiting s"
    using visit_contained_sound [OF _ x, of b] v
    by (simp_all only: vinv_swap_outer) (simp_all add: swap_outer_def)
  with run x have s': "s' = swap_outer s1" "r = Inr ()" by (simp_all add: vbind_def vupd_def)
  with s1 have "vinv b s'" by simp
  moreover have "vs_vars s' = vs_vars s" "vs_visiting s' = vs_visiting s"
    using s' s1 by (simp_all add: swap_outer_def)
  ultimately show "vinv b s' \<and> frame_of v0 (vs_vars s') \<and> vs_visiting s' = vs_visiting s
      \<and> r \<in> {Inr (), Inl (VarsErr JsonNotSupported)}"
    using fr s' by simp
qed

lemma host_spec_nodename: "host_spec b (try_vars (add_str k v))"
  unfolding host_spec_def
proof (intro allI impI)
  fix s :: vst and r s' v0
  assume v: "vinv b s" "frame_of v0 (vs_vars s)" and run: "try_vars (add_str k v) s = Some (r, s')"
  then have "s' = s\<lparr>vs_vars := snd (add_str k v (vs_vars s))\<rparr>" "r \<in> {Inr (), Inl (VarsErr JsonNotSupported)}"
    by (auto simp: try_vars_def on_vars_def add_str_def vfail_def frame_of_def Let_def split: if_splits)
  with v show "vinv b s' \<and> frame_of v0 (vs_vars s') \<and> vs_visiting s' = vs_visiting s
      \<and> r \<in> {Inr (), Inl (VarsErr JsonNotSupported)}"
    by (auto simp: vinv_def frame_of_add_str)
qed

lemma host_graph_split:
  "host_graph f env host_id host_object =
     vbind (try_vars (add_str ''nodename'' (o_name host_object)))
       (\<lambda>_. vbind (var_walk env [host_id] {})
       (\<lambda>_. vbind (add_variabels host_object)
       (\<lambda>_. vbind (vupd swap_outer)
       (\<lambda>_. vbind (visit_contained f env (contains_iter (o_content host_object)))
       (\<lambda>_. vupd swap_outer)))))"
  by (simp add: host_graph_def visit_contained_def)

lemma host_spec_graph: "host_spec b (host_graph f env host_id host_object)"
proof -
  have "host_spec b (var_walk env [host_id] {})"
    using var_walk_step_ok by (intro host_spec_total) blast
  moreover have "keeps (step_ok b) (\<lambda>_. True) (add_variabels host_object)" "total (add_variabels host_object)"
    by simp_all
  then have "host_spec b (add_variabels host_object)"
    unfolding keeps_def total_def by (intro host_spec_total) fastforce
  ultimately show ?thesis
    unfolding host_graph_split
    by (intro host_spec_bind [OF host_spec_nodename] host_spec_bind [of b "var_walk env [host_id] {}"]
        host_spec_bind [of b "add_variabels host_object"] host_spec_visits)
qed

lemma runs_host_graph:
  assumes env: "env_safe env" and fin: "finite (dom (ve_objects env))"
    and obj: "ve_objects env host_id = Some host_object"
    and f: "card (dom (ve_objects env)) * (card (dom (ve_objects env)) + 2) + 2 \<le> f"
  shows "runs {} (host_graph f env host_id host_object)"
proof -
  have "object_safe (o_content host_object)" using env obj by (simp add: env_safe_def)
  then show ?thesis
    unfolding host_graph_split visit_contained_def try_vars_def
    by (intro runs_bind runs_on_vars runs_fail runs_var_walk [OF env fin] runs_add_variabels runs_upd
        runs_fold runs_visit(2) [OF env fin] runs_ret) (use f in \<open>simp_all add: swap_outer_def\<close>)
qed

section \<open>The plan of a host\<close>

lemma select_nodes_distinct:
  assumes v: "vinv b s"
  shows "distinct (select_nodes deploy_id host_id (vs_arena s) (vs_nodes s))"
proof -
  have names: "distinct (map fst (vs_nodes s))" using v by (simp add: vinv_def)
  have cached: "node_at b (vs_arena s) name (fst p) \<and> fst p = Suc (snd p)"
      if "(name, p) \<in> set (vs_nodes s)" for name p
    using v that unfolding vinv_def by auto
  have "inj_on (snd \<circ> snd) (set (vs_nodes s))"
  proof (rule inj_onI)
    fix x y assume x: "x \<in> set (vs_nodes s)" and y: "y \<in> set (vs_nodes s)" and eq: "(snd \<circ> snd) x = (snd \<circ> snd) y"
    obtain nm p nm' p' where xy: "x = (nm, p)" "y = (nm', p')" by (cases x, cases y)
    then have "snd p = snd p'" using eq by simp
    moreover have at: "node_at b (vs_arena s) nm (fst p)" "node_at b (vs_arena s) nm' (fst p')"
      "fst p = Suc (snd p)" "fst p' = Suc (snd p')"
      using cached [of nm p] cached [of nm' p'] x y xy by blast+
    ultimately have "fst p = fst p'" by metis
    moreover from this have "nm = nm'" using at(1,2) by (auto simp: node_at_def split: dag_node.splits)
    moreover note \<open>snd p = snd p'\<close>
    ultimately show "x = y" using xy by (simp add: prod_eq_iff)
  qed
  then have "inj_on (snd \<circ> snd) (set (filter P (vs_nodes s)))" for P
    by (rule inj_on_subset) auto
  moreover have "distinct (filter P (vs_nodes s))" for P
    using names by (auto simp: distinct_map intro: distinct_filter)
  ultimately show ?thesis
    unfolding select_nodes_def by (simp add: distinct_map)
qed

lemma plan_host_result:
  assumes g: "links_ok g" and start: "distinct start"
  shows "\<exists>r. plan_host he full g start rows = Some r \<and> (\<forall>e. r = Inl e \<longrightarrow> e \<in> range HostFailed)"
proof -
  let ?st = "\<lparr>es_old = rows, es_out = []\<rparr>"
  obtain todo order rest where top: "topological g (node_key he g) (set todo) order (set rest)"
    and run: "\<forall>emit acc. topsort heap_pop heap_push [] g (node_key he g) emit start acc
       = Some (case emit_all emit order acc of
           Inl e \<Rightarrow> Inl (EmitError (e :: host_error)) | Inr (a :: emit_state) \<Rightarrow> Inr (a, rest))"
    using heap.topsort_result [OF g start, of "node_key he g"] by (elim exE conjE) (rule that)
  note t = top run [rule_format, of "emit_node he g" ?st]
  have cyc: "\<exists>es. cycle_errors name g rest = Some (Inr es)" for name
  proof (cases "rest = []")
    case False
    have "\<forall>m \<in> set rest. set (nprev g m) \<inter> set rest \<noteq> {}" using t(1) by (simp add: topological_def)
    from find_cycle_left_over [OF g False this] obtain c where "find_cycle g rest = Some (Inr c)" by blast
    with False show ?thesis by (simp add: cycle_errors_def)
  qed (simp add: cycle_errors_def)
  show ?thesis
  proof (cases "emit_all (emit_node he g) order ?st")
    case (Inl e)
    with t(2) show ?thesis by (simp add: plan_host_def sort_nodes_def)
  next
    case (Inr a)
    obtain es where "cycle_errors (o_name (he_host_object he)) g rest = Some (Inr es)" using cyc by blast
    with Inr t(2) show ?thesis
      by (cases "host_deployment he full a") (simp_all add: plan_host_def sort_nodes_def)
  qed
qed

text \<open>The errors a host can cause: its name or the rows and types of what is deployed on it.\<close>

definition host_fault :: "setup_error \<Rightarrow> bool" where
  "host_fault e = (e = VisitFailed (VarsErr JsonNotSupported) \<or> e \<in> range HostFailed)"

lemma setup_host_result:
  assumes env: "env_safe env" and fin: "finite (dom (ve_objects env))" and host: "host_id \<in> dom (ve_objects env)"
    and f: "card (dom (ve_objects env)) * (card (dom (ve_objects env)) + 2) + 2 \<le> f"
    and s: "vinv b s" "frame_of v0 (vs_vars s)" "vs_visiting s = {}"
  shows "\<exists>r s'. setup_host f env sa host_id s = Some (r, s')
    \<and> links_ok (vs_arena s') \<and> frame_of v0 (vs_vars s') \<and> vs_visiting s' = {}
    \<and> (\<forall>e. r = Inl e \<longrightarrow> host_fault e)"
proof -
  obtain obj where obj: "ve_objects env host_id = Some obj" using host by blast
  obtain x s1 where x: "host_graph f env host_id obj s = Some (x, s1)"
    using runs_host_graph [OF env fin obj f] s(3) unfolding runs_def by blast
  have s1: "vinv b s1" "frame_of v0 (vs_vars s1)" "vs_visiting s1 = {}" "x \<in> {Inr (), Inl (VarsErr JsonNotSupported)}"
    using host_spec_graph [of b f env host_id obj, unfolded host_spec_def, rule_format, OF s(1,2) x] s(3)
    by simp_all
  then have links: "links_ok (vs_arena s1)" by (simp add: vinv_def)
  obtain r where r: "plan_host (env_of env host_id obj (sa_redeploy sa)) (host_full (sa_deploy_id sa) host_id)
      (vs_arena s1) (select_nodes (sa_deploy_id sa) host_id (vs_arena s1) (vs_nodes s1)) (sa_rows sa host_id) = Some r"
    "\<forall>e. r = Inl e \<longrightarrow> e \<in> range HostFailed"
    using plan_host_result [OF links select_nodes_distinct [OF s1(1)]] by blast
  show ?thesis
  proof (cases x)
    case (Inl e)
    with obj x s1 links show ?thesis by (simp add: setup_host_def host_fault_def)
  next
    case (Inr u)
    with obj x s1 links r show ?thesis
      by (cases r) (auto simp: setup_host_def host_fault_def)
  qed
qed

lemma enter_setup_vinv:
  assumes "links_ok (vs_arena s)"
  shows "vinv (length (vs_arena s)) (enter_setup h s)" "frame_of (vs_vars s) (vs_vars (enter_setup h s))"
    "vs_visiting (enter_setup h s) = {}"
  using assms by (auto simp: vinv_def enter_setup_def frame_of_push node_at_def nprev_def)

lemma setup_hosts_result:
  assumes env: "env_safe env" and fin: "finite (dom (ve_objects env))" and hosts: "set hs \<subseteq> dom (ve_objects env)"
    and f: "card (dom (ve_objects env)) * (card (dom (ve_objects env)) + 2) + 2 \<le> f"
    and s: "links_ok (vs_arena s)"
  shows "\<exists>r s'. setup_hosts f env sa hs obs s = Some (r, s') \<and> vs_vars s' = vs_vars s
    \<and> (\<forall>e. r = Inl e \<longrightarrow> (\<exists>h \<in> set hs. \<exists>e'. e = HostContext (object_name env h) h e' \<and> host_fault e'))"
  using hosts s
proof (induction hs arbitrary: obs s)
  case (Cons h hs)
  obtain r s1 where r: "setup_host f env sa h (enter_setup h s) = Some (r, s1)" "links_ok (vs_arena s1)"
    "frame_of (vs_vars s) (vs_vars s1)" "\<forall>e. r = Inl e \<longrightarrow> host_fault e"
    using setup_host_result [OF env fin _ f enter_setup_vinv [OF Cons.prems(2)], of h] Cons.prems(1)
    by force
  have pop: "vars_pop (vs_vars s1) = (Inr (), vs_vars s)" by (rule frame_of_pop) (rule r(3))
  show ?case
  proof (cases r)
    case (Inl e)
    with r pop show ?thesis by auto
  next
    case (Inr new)
    have "set hs \<subseteq> dom (ve_objects env)" "links_ok (vs_arena (s1\<lparr>vs_vars := vs_vars s\<rparr>))"
      using Cons.prems(1) r(2) by simp_all
    from Cons.IH [OF this, of "obs @ new"] r(1) pop Inr show ?thesis by auto
  qed
qed simp

section \<open>All hosts\<close>

lemma load_rows_objects:
  "load_rows pa rows l0 = Inr l \<Longrightarrow>
     dom (ld_objects l) = dom (ld_objects l0) \<union> or_id ` set rows
     \<and> set (ld_hosts l) \<subseteq> set (ld_hosts l0) \<union> or_id ` set rows"
proof (induction rows arbitrary: l0)
  case (Cons r rows)
  then obtain l1 c where l: "load_kind pa r l0 = Inr l1"
    "load_rows pa rows (l1\<lparr>ld_objects := (ld_objects l1)(or_id r \<mapsto>
       \<lparr>o_type = or_type r, o_content = c, o_name = or_name r\<rparr>)\<rparr>) = Inr l"
    by (auto simp: res_bind_def split: sum.splits)
  have "ld_objects l1 = ld_objects l0" "set (ld_hosts l1) \<subseteq> insert (or_id r) (set (ld_hosts l0))"
    using l(1) by (auto simp: load_kind_def res_bind_def split: if_splits sum.splits)
  then show ?case using Cons.IH [OF l(2)] by auto
qed simp

lemma loaded_objects:
  assumes "object_types_and_hosts pa rows = Inr l"
  shows "finite (dom (ld_objects l))" "set (ld_hosts l) \<subseteq> dom (ld_objects l)"
    "card (dom (ld_objects l)) * (card (dom (ld_objects l)) + 2) + 2 \<le> visit_depth rows"
proof -
  have d: "dom (ld_objects l) = or_id ` set rows" "set (ld_hosts l) \<subseteq> or_id ` set rows"
    using load_rows_objects [OF assms [unfolded object_types_and_hosts_def]] by simp_all
  then show "finite (dom (ld_objects l))" "set (ld_hosts l) \<subseteq> dom (ld_objects l)" by simp_all
  have "card (dom (ld_objects l)) \<le> length rows"
    using d(1) card_image_le [of "set rows" or_id] card_length [of rows] by simp
  then show "card (dom (ld_objects l)) * (card (dom (ld_objects l)) + 2) + 2 \<le> visit_depth rows"
    unfolding visit_depth_def by (intro add_mono mult_mono) simp_all
qed

lemma root_variables_result:
  assumes obj: "object_safe (o_content root_obj)" and ty: "type_safe root_type"
  shows "\<exists>r s. root_variables root_obj root_type setup_start = Some (r, s) \<and> vs_arena s = []"
proof -
  have "content_safe (o_content root_obj)" using obj by (simp add: object_safe_def)
  then have "runs {} (root_variables root_obj root_type)"
    using obj ty unfolding root_variables_def try_vars_def
    by (intro runs_bind runs_on_vars runs_fail runs_add_variabels runs_visit_content runs_ret)
  moreover have "vs_visiting setup_start = {}" by (simp add: setup_start_def)
  ultimately obtain r s where run: "root_variables root_obj root_type setup_start = Some (r, s)"
    unfolding runs_def by blast
  have "keeps quiet (\<lambda>_. True) (root_variables root_obj root_type)"
    unfolding root_variables_def try_vars_def
    by (intro quiet.keeps_bind quiet.keeps_on_vars quiet.keeps_add_variabels quiet.keeps_visit_content
        quiet.keeps_ret quiet.keeps_fail quiet.stable_True frame_of_add_str)
  then have "quiet setup_start s" using run unfolding keeps_def by blast
  with run show ?thesis by (simp add: quiet_def setup_start_def)
qed

text \<open>The errors setting up can end with: every one is the fault of an object or a row.\<close>

definition setup_fault :: "loaded \<Rightarrow> setup_error \<Rightarrow> bool" where
  "setup_fault l e =
     (e = MissingRoot \<or> e = MissingRootType \<or> e \<in> range RootContent
      \<or> (\<exists>name e' h. h \<in> set (ld_hosts l) \<and> e = HostContext name h e' \<and> host_fault e'))"

lemma compute_plan_result:
  assumes load: "object_types_and_hosts pa rows = Inr l"
    and env: "env_safe \<lparr>ve_objects = ld_objects l, ve_types = ld_types l\<rparr>"
  shows "\<exists>r. compute_plan pa (Inr rows) sa = Some r \<and> (\<forall>e. r = Inl e \<longrightarrow> setup_fault l e)"
proof (cases "ld_objects l ROOT_INSTANCE_ID")
  case None
  with load show ?thesis by (simp add: compute_plan_def setup_inner_def setup_fault_def)
next
  case (Some root)
  note load' = loaded_objects [OF load]
  show ?thesis
  proof (cases "ld_types l (o_type root)")
    case None
    with Some load show ?thesis by (simp add: compute_plan_def setup_inner_def setup_fault_def)
  next
    case (Some ty)
    with \<open>ld_objects l ROOT_INSTANCE_ID = Some root\<close> env
    have "object_safe (o_content root)" "type_safe ty" by (simp_all add: env_safe_def)
    then obtain x s where x: "root_variables root ty setup_start = Some (x, s)" "vs_arena s = []"
      using root_variables_result by blast
    have "links_ok (vs_arena s)" using x(2) by (simp add: links_ok_def nprev_def nnext_def)
    then obtain r s1 where r: "setup_hosts (visit_depth rows) \<lparr>ve_objects = ld_objects l, ve_types = ld_types l\<rparr> sa
        (ld_hosts l) [] s = Some (r, s1)" "\<forall>e. r = Inl e \<longrightarrow> setup_fault l e"
      using setup_hosts_result [OF env, of "ld_hosts l" "visit_depth rows" s sa "[]"] load'
      unfolding setup_fault_def by (simp, blast)
    with x Some load \<open>ld_objects l ROOT_INSTANCE_ID = Some root\<close> show ?thesis
      by (cases x; cases r) (simp_all add: compute_plan_def setup_inner_def setup_fault_def)
  qed
qed

section \<open>Properties\<close>

text \<open>The status a plan leaves.\<close>

fun plan_status :: "setup_error + plan \<Rightarrow> deployment_status" where
  "plan_status (Inl e) = InvilidTree"
| "plan_status (Inr (Invalid errs)) = InvilidTree"
| "plan_status (Inr (Objects obs)) = (if obs = [] then Done else ReviewChanges)"

lemma plan_world_status: "dp_status (w_dep (plan_world ms r w)) = plan_status r"
  by (cases r rule: plan_status.cases)
    (simp_all add: plan_world_def update_deployment_def mut_deployment_def take_actions_def setup_failed_def
      setup_done_def method_defs)

text \<open>C6: setting up always ends. For any rows that parse and in which no template (a script, a
  text field or its default, a variable or a secret) sets an empty start delimiter, whatever
  contains or depends on whatever, a setup that starts returns: with
  status \<open>ReviewChanges\<close> when there is something to deploy, \<open>Done\<close> when there is not, and
  \<open>InvilidTree\<close> otherwise. It never fails for the sake of the algorithms: no predecessor count
  underflows, a cycle is found when nodes are left over, every pushed scope can be popped, no
  host is missing; what fails is a missing root, the content of the root, the name of a host, or
  the type or script of something deployed.\<close>

theorem setup_deployment_ends:
  assumes "object_types_and_hosts pa rows = Inr l"
    and "env_safe \<lparr>ve_objects = ld_objects l, ve_types = ld_types l\<rparr>"
    and "fst (setup_begin stop_review (w_dep w))"
  shows "\<exists>r w'. compute_plan pa (Inr rows) sa = Some r
    \<and> setup_deployment pa ms (Inr rows) sa stop_review w = Some w'
    \<and> dp_status (w_dep w') = plan_status r
    \<and> (\<forall>e. r = Inl e \<longrightarrow> setup_fault l e)"
proof -
  obtain r where r: "compute_plan pa (Inr rows) sa = Some r" "\<forall>e. r = Inl e \<longrightarrow> setup_fault l e"
    using compute_plan_result [OF assms(1,2)] by blast
  with assms(3) show ?thesis
    by (cases "setup_begin stop_review (w_dep w)") (auto simp: setup_deployment_def plan_world_status split: bool.splits)
qed

section \<open>Witness\<close>

text \<open>A root, its type, and a host on which something is deployed that nothing contains any more.\<close>

definition demo_parser :: parser where
  "demo_parser =
     \<lparr>pa_content = \<lambda>s. Inr (if s = ''host'' then [(''debPackages'', JBool True)] else []),
      pa_type = \<lambda>_. Inr plain_type\<rparr>"

definition demo_rows :: "object_row list" where
  "demo_rows =
     [\<lparr>or_id = ROOT_ID, or_type = TYPE_ID, or_name = ''Root'', or_content = ''''\<rparr>,
      \<lparr>or_id = ROOT_INSTANCE_ID, or_type = ROOT_ID, or_name = ''root'', or_content = ''''\<rparr>,
      \<lparr>or_id = 77, or_type = HOST_ID, or_name = ''web'', or_content = ''host''\<rparr>]"

definition demo_args :: setup_args where
  "demo_args = \<lparr>sa_deploy_id = None, sa_redeploy = False, sa_rows = \<lambda>_. [(''.6'', demo_old ''true'')]\<rparr>"

lemma demo_load:
  "object_types_and_hosts demo_parser demo_rows =
     Inr \<lparr>ld_objects = [ROOT_ID \<mapsto> \<lparr>o_type = TYPE_ID, o_content = [], o_name = ''Root''\<rparr>,
            ROOT_INSTANCE_ID \<mapsto> \<lparr>o_type = ROOT_ID, o_content = [], o_name = ''root''\<rparr>,
            77 \<mapsto> \<lparr>o_type = HOST_ID, o_content = [(''debPackages'', JBool True)], o_name = ''web''\<rparr>],
          ld_types = [ROOT_ID \<mapsto> plain_type], ld_hosts = [77]\<rparr>"
  by (simp add: object_types_and_hosts_def demo_rows_def demo_parser_def load_kind_def res_bind_def id_defs)

lemma demo_plan:
  "map_option plan_status (compute_plan demo_parser (Inr demo_rows) demo_args) = Some ReviewChanges"
  by code_simp

theorem setup_deployment_ends_witness:
  "\<exists>w'. setup_deployment demo_parser (\<lparr>ms_visit = \<lambda>_. ''errors'', ms_setup = \<lambda>_. ''error''\<rparr>) (Inr demo_rows) demo_args False
       \<lparr>w_dep = deployment_default, w_sent = [], w_cancelled = {}\<rparr> = Some w'
     \<and> dp_status (w_dep w') = ReviewChanges"
proof -
  have "safe_template ''x = 1''" by code_simp
  then have ty: "type_safe plain_type" by (auto simp: type_safe_def plain_type_def itype_default_def opt_or_def)
  have "object_safe []" "object_safe [(''debPackages'', JBool True)]"
    by (auto simp: object_safe_def content_safe_def variables_iter_def secrets_iter_def triggers_iter_def
        variable_array_def obj_get_def)
  with ty have env: "env_safe \<lparr>ve_objects = [ROOT_ID \<mapsto> \<lparr>o_type = TYPE_ID, o_content = [], o_name = ''Root''\<rparr>,
            ROOT_INSTANCE_ID \<mapsto> \<lparr>o_type = ROOT_ID, o_content = [], o_name = ''root''\<rparr>,
            77 \<mapsto> \<lparr>o_type = HOST_ID, o_content = [(''debPackages'', JBool True)], o_name = ''web''\<rparr>],
          ve_types = [ROOT_ID \<mapsto> plain_type]\<rparr>"
    by (auto simp: env_safe_def id_defs split: if_splits)
  let ?w = "\<lparr>w_dep = deployment_default, w_sent = [], w_cancelled = {}\<rparr>"
  have "fst (setup_begin False (w_dep ?w))" by (simp add: setup_begin_def deployment_default_def)
  from setup_deployment_ends [OF demo_load _ this, of demo_args "\<lparr>ms_visit = \<lambda>_. ''errors'', ms_setup = \<lambda>_. ''error''\<rparr>"] env demo_plan show ?thesis by auto
qed

section \<open>Errors of the last host only\<close>

text \<open>C7: whether the tree is invalid is decided by the last host alone. The errors the visitor
  collects are cleared before every host, so when no host fails outright the errors left at the
  end, which decide between an invalid tree and a plan, are those of the last host; a host
  before it whose objects could not be visited is left out of the plan in silence.\<close>

theorem last_host_decides:
  assumes "setup_hosts f env sa (hs @ [h]) obs s = Some (Inr obs', s')"
  shows "\<exists>s0 s1 new before. vs_errors s0 = [] \<and> setup_host f env sa h s0 = Some (Inr new, s1)
    \<and> vs_errors s' = vs_errors s1 \<and> obs' = obs @ before @ new"
  using assms
proof (induction hs arbitrary: obs s)
  case Nil
  then obtain new s1 where "setup_host f env sa h (enter_setup h s) = Some (Inr new, s1)"
    "vs_errors s' = vs_errors s1" "obs' = obs @ new"
    by (auto split: option.splits prod.splits sum.splits)
  moreover have "vs_errors (enter_setup h s) = []" by (simp add: enter_setup_def)
  ultimately show ?case by (intro exI [of _ "enter_setup h s"] exI [of _ s1] exI [of _ new] exI [of _ "[]"]) simp
next
  case (Cons h1 hs)
  then obtain new s1 v where "setup_hosts f env sa (hs @ [h]) (obs @ new) (s1\<lparr>vs_vars := v\<rparr>) = Some (Inr obs', s')"
    by (auto split: option.splits prod.splits sum.splits)
  from Cons.IH [OF this] obtain s0 s1' new' before where "vs_errors s0 = []"
    "setup_host f env sa h s0 = Some (Inr new', s1')" "vs_errors s' = vs_errors s1'"
    "obs' = (obs @ new) @ before @ new'" by blast
  then show ?case by (intro exI [of _ s0] exI [of _ s1'] exI [of _ new'] exI [of _ "new @ before"]) simp
qed

text \<open>The first of two hosts contains an object that is not there.\<close>

definition two_hosts :: visit_env where
  "two_hosts =
     \<lparr>ve_objects = [77 \<mapsto> \<lparr>o_type = HOST_ID, o_content = [(''contains'', JArray [JNumber (U64 99)])], o_name = ''web''\<rparr>,
        78 \<mapsto> \<lparr>o_type = HOST_ID, o_content = [], o_name = ''db''\<rparr>],
      ve_types = Map.empty\<rparr>"

definition run_hosts :: "int list \<Rightarrow> (deployment_object list \<times> visit_error list) option" where
  "run_hosts hs =
     (case setup_hosts 20 two_hosts demo_args hs [] setup_start of
        Some (Inr obs, s) \<Rightarrow> Some (obs, vs_errors s)
      | _ \<Rightarrow> None)"

lemma two_hosts_run:
  "map_option (map do_host \<circ> fst) (run_hosts [77, 78]) = Some [78]"
  "map_option (length \<circ> snd) (run_hosts [77, 78]) = Some 0"
  "map_option (length \<circ> snd) (run_hosts [77]) = Some 1"
  by code_simp+

theorem last_host_decides_witness:
  "\<exists>s0 s1 new obs. run_hosts [77, 78] = Some (obs, []) \<and> vs_errors s0 = []
     \<and> setup_host 20 two_hosts demo_args 78 s0 = Some (Inr new, s1) \<and> vs_errors s1 = []
     \<and> map_option (length \<circ> snd) (run_hosts [77]) = Some 1"
proof -
  obtain obs s' where run: "setup_hosts 20 two_hosts demo_args ([77] @ [78]) [] setup_start = Some (Inr obs, s')"
    "vs_errors s' = []"
    using two_hosts_run(2) by (auto simp: run_hosts_def split: option.splits prod.splits sum.splits)
  from last_host_decides [OF run(1)] run two_hosts_run(3) show ?thesis by (auto simp: run_hosts_def)
qed

end
