(* ===== verification/Crypt.thy ===== *)
theory Crypt
  imports "HOL-Library.Word"
begin

unbundle bit_operations_syntax

text \<open>
  The comparison of secrets (\<open>cost_time_compare\<close> in \<open>src/bin/server/crypt.rs\<close>), which password
  hashes and the status token go through. It looks at every byte whatever the bytes are and
  reads the result off the borrow of a wrapping subtraction; that it decides equality is
  proved on machine words. The \<open>crypt\<close> and \<open>totp\<close> libraries themselves are parameters of
  theory \<open>Auth\<close>.
\<close>

fun diff_sum :: "8 word list \<Rightarrow> 8 word list \<Rightarrow> 32 word \<Rightarrow> 32 word" where
  "diff_sum (l # ls) (r # rs) acc = diff_sum ls rs (acc OR ucast (l XOR r))"
| "diff_sum _ _ acc = acc"

definition cost_time_compare :: "8 word list \<Rightarrow> 8 word list \<Rightarrow> bool" where
  "cost_time_compare l r =
     (if length l \<noteq> length r then False
      else (1 AND drop_bit 8 (diff_sum l r 0 - 1)) \<noteq> 0)"

lemma or_eq_0_iff: "a OR b = 0 \<longleftrightarrow> a = 0 \<and> b = (0 :: 32 word)"
  by (auto simp: bit_eq_iff bit_or_iff)

lemma xor_eq_0_iff: "a XOR b = 0 \<longleftrightarrow> a = (b :: 8 word)"
  by (auto simp: bit_eq_iff bit_xor_iff)

lemma ucast_eq_0_iff: "(ucast (a :: 8 word) :: 32 word) = 0 \<longleftrightarrow> a = 0"
proof -
  have "unat (ucast a :: 32 word) = unat a" by (simp add: unsigned_ucast_eq take_bit_nat_eq_self_iff order_less_le_trans [OF unsigned_less])
  then show ?thesis by (metis unat_eq_zero)
qed

lemma diff_sum_zero: "length l = length r \<Longrightarrow> diff_sum l r acc = 0 \<longleftrightarrow> acc = 0 \<and> l = r"
  by (induction l r acc rule: diff_sum.induct)
    (auto simp: or_eq_0_iff ucast_eq_0_iff xor_eq_0_iff)

text \<open>The sum stays within a byte, so subtracting one borrows only from zero.\<close>

lemma byte_ucast: "take_bit 8 (ucast (a :: 8 word) :: 32 word) = ucast a"
  by (auto simp: bit_eq_iff bit_take_bit_iff bit_ucast_iff dest: bit_imp_le_length)

lemma diff_sum_byte: "take_bit 8 acc = acc \<Longrightarrow> take_bit 8 (diff_sum l r acc) = diff_sum l r acc"
proof (induction l r acc rule: diff_sum.induct)
  case (1 l ls r rs acc)
  then show ?case by (simp add: take_bit_or byte_ucast)
qed simp_all

lemma borrow:
  assumes "take_bit 8 w = (w :: 32 word)"
  shows "(1 AND drop_bit 8 (w - 1)) \<noteq> 0 \<longleftrightarrow> w = 0"
proof (cases "w = 0")
  case True
  have "(1 AND drop_bit 8 (- 1 :: 32 word)) = 1" by (simp add: one_and_eq mask_eq_exp_minus_1)
  with True show ?thesis by simp
next
  case False
  have "unat w < 256"
  proof -
    have "unat w = take_bit 8 (unat w)" using assms by (metis unsigned_take_bit_eq)
    then show ?thesis by (simp add: take_bit_nat_def)
  qed
  then have "unat (w - 1) < 2 ^ 8" using False by (simp add: unat_minus_one)
  then have "drop_bit 8 (w - 1) = 0"
    by (metis unat_drop_bit_eq drop_bit_nat_def div_less unat_eq_zero)
  with False show ?thesis by simp
qed

text \<open>Further result: comparing in constant time decides equality: for all byte strings.\<close>

theorem cost_time_compare_eq: "cost_time_compare l r = (l = r)"
proof (cases "length l = length r")
  case True
  have "take_bit 8 (diff_sum l r 0) = diff_sum l r 0" by (rule diff_sum_byte) simp
  with True show ?thesis by (simp add: cost_time_compare_def borrow diff_sum_zero)
qed (auto simp: cost_time_compare_def)

end
