(* ===== verification/Objects.thy ===== *)
theory Objects
  imports Type_Types Mustache
begin

text \<open>
  The versioned table of objects (\<open>src/bin/server/db.rs\<close>): a change writes a new version and
  moves the mark \<open>newest\<close>, a deletion takes the mark away, and neither overwrites the content of a
  row (only what a host that connects changes is written in place, see \<open>Host_Auth\<close>). The
  table is the list of its rows; the content of an object is stored as text, written and read
  by parameters (\<open>serde_json\<close>). Also here: the type tag of an object (\<open>ObjectType\<close> in
  \<open>src/action_types.rs\<close>) and the variables of a host as the server looks them up outside a
  deployment (\<open>get_host_variables\<close>).
\<close>

section \<open>Type tags\<close>

datatype object_type = OT_Id int | OT_Root | OT_Type

fun object_type_to_i64 :: "object_type \<Rightarrow> int" where
  "object_type_to_i64 (OT_Id v) = v"
| "object_type_to_i64 OT_Root = - 1"
| "object_type_to_i64 OT_Type = - 2"

definition object_type_of_i64 :: "int \<Rightarrow> object_type option" where
  "object_type_of_i64 v =
     (if v = - 1 then Some OT_Root
      else if v = - 2 then Some OT_Type
      else if 0 < v then Some (OT_Id v)
      else None)"

fun object_type_serialize :: "object_type \<Rightarrow> json" where
  "object_type_serialize (OT_Id v) = JNumber (I64 v)"
| "object_type_serialize OT_Root = JString ''root''"
| "object_type_serialize OT_Type = JString ''type''"

text \<open>\<open>str::parse::<i64>\<close>: an optional sign, at least one digit, and no overflow.\<close>

definition digit_value :: "char \<Rightarrow> int option" where
  "digit_value c =
     (let n = (of_char c :: nat) in if 48 \<le> n \<and> n \<le> 57 then Some (int n - 48) else None)"

fun parse_digits :: "string \<Rightarrow> int \<Rightarrow> int option" where
  "parse_digits [] acc = Some acc"
| "parse_digits (c # cs) acc =
     (case digit_value c of None \<Rightarrow> None | Some d \<Rightarrow> parse_digits cs (10 * acc + d))"

definition parse_unsigned :: "string \<Rightarrow> int option" where
  "parse_unsigned s = (if s = [] then None else parse_digits s 0)"

definition parse_i64 :: "string \<Rightarrow> int option" where
  "parse_i64 s =
     (let r = (case s of
          [] \<Rightarrow> None
        | c # cs \<Rightarrow>
            if c = CHR ''-'' then map_option uminus (parse_unsigned cs)
            else if c = CHR ''+'' then parse_unsigned cs
            else parse_unsigned s)
      in case r of
           None \<Rightarrow> None
         | Some v \<Rightarrow> if i64_min \<le> v \<and> v \<le> i64_max then Some v else None)"

fun object_type_deserialize :: "json \<Rightarrow> object_type option" where
  "object_type_deserialize (JString s) =
     (if s = ''root'' then Some OT_Root
      else if s = ''type'' then Some OT_Type
      else map_option OT_Id (parse_i64 s))"
| "object_type_deserialize (JNumber (I64 v)) = Some (OT_Id v)"
| "object_type_deserialize (JNumber (U64 v)) =
     (if int v \<le> i64_max then Some (OT_Id (int v)) else None)"
| "object_type_deserialize _ = None"

section \<open>The table\<close>

record obj_row =
  r_id :: int
  r_version :: int
  r_type :: int
  r_name :: string
  r_content :: string
  r_time :: int
  r_newest :: bool
  r_category :: "string option"
  r_comment :: string
  r_author :: "string option"

record objects_db =
  od_rows :: "obj_row list"
  od_next :: int

datatype db_error =
    UnableToFindRow | UniqueViolation | InvalidObjectType | BadContent string | MissingRootObject
  | RenderFailed mustache_error

record saved_object =
  no_type :: object_type
  no_name :: string
  no_content :: string
  no_category :: string
  no_comment :: string

definition rows_of :: "int \<Rightarrow> objects_db \<Rightarrow> obj_row list" where
  "rows_of i db = filter (\<lambda>r. r_id r = i) (od_rows db)"

definition max_version :: "int \<Rightarrow> objects_db \<Rightarrow> int option" where
  "max_version i db =
     (case map r_version (rows_of i db) of [] \<Rightarrow> None | v # vs \<Rightarrow> Some (fold max vs v))"

text \<open>\<open>UPDATE `objects` SET `newest`=false WHERE `id` = ?\<close>.\<close>

definition clear_newest :: "int \<Rightarrow> objects_db \<Rightarrow> objects_db" where
  "clear_newest i db =
     db\<lparr>od_rows := map (\<lambda>r. if r_id r = i then r\<lparr>r_newest := False\<rparr> else r) (od_rows db)\<rparr>"

text \<open>The insertion fails when the version exists (the unique index \<open>id_version\<close>).\<close>

definition insert_object ::
  "int \<Rightarrow> int \<Rightarrow> int \<Rightarrow> string \<Rightarrow> saved_object \<Rightarrow> objects_db \<Rightarrow> (db_error + unit) \<times> objects_db" where
  "insert_object now i version author ob db =
     (if list_ex (\<lambda>r. r_id r = i \<and> r_version r = version) (od_rows db) then (Inl UniqueViolation, db)
      else (Inr (), db\<lparr>od_rows := od_rows db @
        [\<lparr>r_id = i, r_version = version, r_type = object_type_to_i64 (no_type ob),
          r_name = no_name ob, r_content = no_content ob, r_time = now, r_newest = True,
          r_category = Some (no_category ob), r_comment = no_comment ob, r_author = Some author\<rparr>]\<rparr>))"

text \<open>The first half of \<open>change_object\<close>: the id and version to write.\<close>

definition next_version :: "int \<Rightarrow> objects_db \<Rightarrow> (db_error + int \<times> int) \<times> objects_db" where
  "next_version i db =
     (if i < 0 then (Inr (od_next db, 1), db\<lparr>od_next := od_next db + 1\<rparr>)
      else case max_version i db of
        None \<Rightarrow> (Inl UnableToFindRow, db)
      | Some v \<Rightarrow> (Inr (i, v + 1), clear_newest i db))"

definition change_object ::
  "int \<Rightarrow> int \<Rightarrow> saved_object option \<Rightarrow> string \<Rightarrow> objects_db \<Rightarrow> (db_error + int \<times> int) \<times> objects_db" where
  "change_object now i object author db =
     (case next_version i db of
        (Inl e, db1) \<Rightarrow> (Inl e, db1)
      | (Inr (i', version), db1) \<Rightarrow>
          (case object of
             None \<Rightarrow> (Inr (i', version), db1)
           | Some ob \<Rightarrow>
               (case insert_object now i' version author ob db1 of
                  (Inl e, db2) \<Rightarrow> (Inl e, db2)
                | (Inr _, db2) \<Rightarrow> (Inr (i', version), db2))))"

text \<open>The start of \<open>next_object_id\<close> when the server starts (the end of \<open>setup\<close>).\<close>

definition initial_next_id :: "obj_row list \<Rightarrow> int" where
  "initial_next_id rows =
     max 10000 (case map r_id rows of [] \<Rightarrow> 0 | v # vs \<Rightarrow> fold max vs v + 1)"

section \<open>Looking objects up\<close>

record 'c iobject =
  io_id :: int
  io_type :: object_type
  io_name :: string
  io_category :: string
  io_content :: 'c
  io_version :: int
  io_comment :: string
  io_author :: "string option"
  io_time :: int

definition row_object :: "(string \<Rightarrow> string + 'c) \<Rightarrow> obj_row \<Rightarrow> db_error + 'c iobject" where
  "row_object parse r =
     (case object_type_of_i64 (r_type r) of
        None \<Rightarrow> Inl InvalidObjectType
      | Some ty \<Rightarrow>
          (case parse (r_content r) of
             Inl e \<Rightarrow> Inl (BadContent e)
           | Inr c \<Rightarrow>
               Inr \<lparr>io_id = r_id r, io_type = ty, io_name = r_name r,
                    io_category = opt_or (r_category r) '''', io_content = c,
                    io_version = r_version r, io_comment = r_comment r,
                    io_author = r_author r, io_time = r_time r\<rparr>))"

definition fetch_optional ::
  "(string \<Rightarrow> string + 'c) \<Rightarrow> (obj_row \<Rightarrow> bool) \<Rightarrow> objects_db \<Rightarrow> db_error + 'c iobject option" where
  "fetch_optional parse p db =
     (case List.find p (od_rows db) of
        None \<Rightarrow> Inr None
      | Some r \<Rightarrow> map_sum id Some (row_object parse r))"

definition get_object_by_name_and_type ::
  "(string \<Rightarrow> string + 'c) \<Rightarrow> string \<Rightarrow> int \<Rightarrow> objects_db \<Rightarrow> db_error + 'c iobject option" where
  "get_object_by_name_and_type parse name ty =
     fetch_optional parse (\<lambda>r. r_type r = ty \<and> r_name r = name \<and> r_newest r)"

definition get_object_by_id_and_type ::
  "(string \<Rightarrow> string + 'c) \<Rightarrow> int \<Rightarrow> int \<Rightarrow> objects_db \<Rightarrow> db_error + 'c iobject option" where
  "get_object_by_id_and_type parse i ty =
     fetch_optional parse (\<lambda>r. r_type r = ty \<and> r_id r = i \<and> r_newest r)"

definition get_newest_object_by_id ::
  "(string \<Rightarrow> string + 'c) \<Rightarrow> int \<Rightarrow> objects_db \<Rightarrow> db_error + 'c iobject option" where
  "get_newest_object_by_id parse i = fetch_optional parse (\<lambda>r. r_id r = i \<and> r_newest r)"
section \<open>Variables of a host\<close>

definition raw_variables :: "value_map \<Rightarrow> (string \<rightharpoonup> string) \<Rightarrow> string \<rightharpoonup> string" where
  "raw_variables content vars = fold (\<lambda>(k, v) m. m(k \<mapsto> v)) (variables_iter content @ secrets_iter content) vars"

fun render_variables ::
  "(string \<times> string) list \<Rightarrow> (string \<rightharpoonup> string) \<Rightarrow> (db_error + (string \<rightharpoonup> string)) option" where
  "render_variables [] vars = Some (Inr vars)"
| "render_variables ((k, v) # kvs) vars =
     (case render v None vars True of
        None \<Rightarrow> None
      | Some (Inl e) \<Rightarrow> Some (Inl (RenderFailed e))
      | Some (Inr x) \<Rightarrow> render_variables kvs (vars(k \<mapsto> x)))"

definition get_root_variables ::
  "(string \<Rightarrow> string + value_map) \<Rightarrow> objects_db \<Rightarrow> db_error + (string \<rightharpoonup> string)" where
  "get_root_variables parse db =
     (case get_object_by_id_and_type parse ROOT_INSTANCE_ID ROOT_ID db of
        Inl e \<Rightarrow> Inl e
      | Inr None \<Rightarrow> Inl MissingRootObject
      | Inr (Some root_obj) \<Rightarrow> Inr (raw_variables (io_content root_obj) Map.empty))"

text \<open>What is pushed when an object is visited, the top of the stack first.\<close>

definition host_children :: "value_map iobject \<Rightarrow> int list" where
  "host_children ob =
     (if io_type ob \<in> {OT_Id COLLECTION_ID, OT_Id COMPLEX_COLLECTION_ID}
      then rev (depends_iter (io_content ob) @ contains_iter (io_content ob)) else [])"

definition host_own :: "value_map iobject \<Rightarrow> (string \<times> string) list" where
  "host_own ob =
     (if io_type ob = OT_Id HOST_VARIABLE_ID
      then variables_iter (io_content ob) @ secrets_iter (io_content ob) else [])"

partial_function (option) host_walk ::
  "(string \<Rightarrow> string + value_map) \<Rightarrow> objects_db \<Rightarrow> int list \<Rightarrow> int set \<Rightarrow> (string \<rightharpoonup> string)
    \<Rightarrow> (db_error + (string \<rightharpoonup> string)) option"
where
  "host_walk parse db to_visit visited vars =
     (case to_visit of
        [] \<Rightarrow> Some (Inr vars)
      | i # st \<Rightarrow>
          if i \<in> visited then host_walk parse db st visited vars
          else (case get_newest_object_by_id parse i db of
             Inl e \<Rightarrow> Some (Inl e)
           | Inr None \<Rightarrow> host_walk parse db st (insert i visited) vars
           | Inr (Some ob) \<Rightarrow>
               (case render_variables (host_own ob) vars of
                  None \<Rightarrow> None
                | Some (Inl e) \<Rightarrow> Some (Inl e)
                | Some (Inr vars') \<Rightarrow>
                    host_walk parse db (host_children ob @ st) (insert i visited) vars')))"

declare host_walk.simps [code]

definition get_host_variables ::
  "(string \<Rightarrow> string + value_map) \<Rightarrow> int \<Rightarrow> objects_db
    \<Rightarrow> (db_error + (string \<rightharpoonup> string) option) option" where
  "get_host_variables parse i db =
     (case get_object_by_id_and_type parse i HOST_ID db of
        Inl e \<Rightarrow> Some (Inl e)
      | Inr None \<Rightarrow> Some (Inr None)
      | Inr (Some host) \<Rightarrow>
          (case get_root_variables parse db of
             Inl e \<Rightarrow> Some (Inl e)
           | Inr root_vars \<Rightarrow>
               (case host_walk parse db (rev (contains_iter (io_content host))) {}
                       (root_vars(''nodename'' \<mapsto> io_name host)) of
                  None \<Rightarrow> None
                | Some (Inl e) \<Rightarrow> Some (Inl e)
                | Some (Inr vars) \<Rightarrow> Some (Inr (Some (raw_variables (io_content host) vars))))))"

section \<open>The invariant and the abstraction\<close>

text \<open>
  What the table stands for: the current row of each object. The invariant says that the index
  holds, that ids are below the counter and that only the highest version can be the newest.
\<close>

definition current :: "objects_db \<Rightarrow> int \<rightharpoonup> obj_row" where
  "current db i = List.find (\<lambda>r. r_id r = i \<and> r_newest r) (od_rows db)"

definition objects_ok :: "objects_db \<Rightarrow> bool" where
  "objects_ok db =
     (0 \<le> od_next db
      \<and> distinct (map (\<lambda>r. (r_id r, r_version r)) (od_rows db))
      \<and> (\<forall>r \<in> set (od_rows db). r_id r < od_next db)
      \<and> (\<forall>r \<in> set (od_rows db). \<forall>r' \<in> set (od_rows db).
            r_newest r \<longrightarrow> r_id r' = r_id r \<longrightarrow> r_version r' \<le> r_version r))"

text \<open>The rows without their mark: the history, which only grows.\<close>

definition history :: "objects_db \<Rightarrow> obj_row list" where
  "history db = map (\<lambda>r. r\<lparr>r_newest := False\<rparr>) (od_rows db)"

lemma fold_max: "fold max vs v = (if vs = [] then v else max v (Max (set vs)))" for v :: int
  by (induction vs arbitrary: v) (auto simp: max.assoc)

lemma max_version_Some:
  "max_version i db = Some v \<longleftrightarrow>
     (\<exists>r \<in> set (od_rows db). r_id r = i \<and> r_version r = v)
     \<and> (\<forall>r \<in> set (od_rows db). r_id r = i \<longrightarrow> r_version r \<le> v)"
proof -
  let ?vs = "map r_version (rows_of i db)"
  have m: "max_version i db = (if ?vs = [] then None else Some (Max (set ?vs)))"
    unfolding max_version_def by (cases ?vs) (auto simp: fold_max)
  have s: "v \<in> set ?vs \<longleftrightarrow> (\<exists>r \<in> set (od_rows db). r_id r = i \<and> r_version r = v)" for v
    by (auto simp: rows_of_def)
  show ?thesis
  proof (cases "?vs = []")
    case True
    then show ?thesis unfolding m by (auto simp: rows_of_def filter_empty_conv)
  next
    case False
    then have "set ?vs \<noteq> {}" by simp
    then have "Max (set ?vs) = v \<longleftrightarrow> v \<in> set ?vs \<and> (\<forall>a \<in> set ?vs. a \<le> v)"
      by (subst Max_eq_iff) auto
    also have "\<dots> \<longleftrightarrow> (\<exists>r \<in> set (od_rows db). r_id r = i \<and> r_version r = v)
        \<and> (\<forall>r \<in> set (od_rows db). r_id r = i \<longrightarrow> r_version r \<le> v)"
      unfolding s by (auto simp: rows_of_def)
    finally show ?thesis unfolding m if_not_P [OF False] option.inject .
  qed
qed

lemma max_version_None: "max_version i db = None \<longleftrightarrow> (\<forall>r \<in> set (od_rows db). r_id r \<noteq> i)"
proof -
  have "rows_of i db = [] \<longleftrightarrow> (\<forall>r \<in> set (od_rows db). r_id r \<noteq> i)"
    by (simp add: rows_of_def filter_empty_conv)
  then show ?thesis by (cases "rows_of i db") (simp_all add: max_version_def)
qed

lemma current_Some:
  assumes "objects_ok db"
  shows "current db i = Some r \<longleftrightarrow> r \<in> set (od_rows db) \<and> r_id r = i \<and> r_newest r"
proof
  assume "current db i = Some r"
  then show "r \<in> set (od_rows db) \<and> r_id r = i \<and> r_newest r"
    by (auto simp: current_def find_Some_iff)
next
  assume r: "r \<in> set (od_rows db) \<and> r_id r = i \<and> r_newest r"
  have "current db i \<noteq> None" using r by (auto simp: current_def find_None_iff)
  then obtain r' where r': "current db i = Some r'" by blast
  then have "r' \<in> set (od_rows db)" "r_id r' = i" "r_newest r'" by (auto simp: current_def find_Some_iff)
  with r assms have "r_version r = r_version r'"
    unfolding objects_ok_def by (intro antisym) auto
  with r \<open>r' \<in> set (od_rows db)\<close> \<open>r_id r' = i\<close> assms have "r = r'"
    unfolding objects_ok_def distinct_map by (auto dest!: inj_onD)
  with r' show "current db i = Some r" by simp
qed

lemma get_newest_current:
  "get_newest_object_by_id parse i db =
     (case current db i of None \<Rightarrow> Inr None | Some r \<Rightarrow> map_sum id Some (row_object parse r))"
  by (simp add: get_newest_object_by_id_def fetch_optional_def current_def)

text \<open>One change of the table.\<close>

definition new_row :: "int \<Rightarrow> int \<Rightarrow> int \<Rightarrow> string \<Rightarrow> saved_object \<Rightarrow> obj_row" where
  "new_row now i version author ob =
     \<lparr>r_id = i, r_version = version, r_type = object_type_to_i64 (no_type ob),
      r_name = no_name ob, r_content = no_content ob, r_time = now, r_newest = True,
      r_category = Some (no_category ob), r_comment = no_comment ob, r_author = Some author\<rparr>"

lemma find_cleared:
  "j \<noteq> i \<Longrightarrow> List.find (\<lambda>r. r_id r = j \<and> r_newest r)
       (map (\<lambda>r. if r_id r = i then r\<lparr>r_newest := False\<rparr> else r) rows)
     = List.find (\<lambda>r. r_id r = j \<and> r_newest r) (rows :: obj_row list)"
  by (induction rows) auto

lemma next_version_result:
  assumes ok: "objects_ok db" and run: "next_version i db = (Inr (i', v), db1)"
  shows "objects_ok db1" and "\<forall>r \<in> set (od_rows db1). r_id r = i' \<longrightarrow> r_version r < v \<and> \<not> r_newest r"
    and "i' < od_next db1" and "history db1 = history db"
    and "\<forall>j. j \<noteq> i' \<longrightarrow> current db1 j = current db j"
    and "i' = (if i < 0 then od_next db else i)"
proof -
  have "objects_ok db1 \<and> (\<forall>r \<in> set (od_rows db1). r_id r = i' \<longrightarrow> r_version r < v \<and> \<not> r_newest r)
    \<and> i' < od_next db1 \<and> history db1 = history db \<and> (\<forall>j. j \<noteq> i' \<longrightarrow> current db1 j = current db j)
    \<and> i' = (if i < 0 then od_next db else i)"
  proof (cases "i < 0")
    case True
    then show ?thesis
      using ok run
      by (fastforce simp: next_version_def objects_ok_def history_def current_def intro: less_imp_le)
  next
    case False
    then obtain m where m: "max_version i db = Some m" and r: "i' = i" "v = m + 1" "db1 = clear_newest i db"
      using run by (auto simp: next_version_def split: option.splits)
    have rows: "od_rows db1 = map (\<lambda>r. if r_id r = i then r\<lparr>r_newest := False\<rparr> else r) (od_rows db)"
      and nx: "od_next db1 = od_next db" unfolding r(3) by (simp_all add: clear_newest_def)
    have keys: "map (\<lambda>r. (r_id r, r_version r)) (od_rows db1) = map (\<lambda>r. (r_id r, r_version r)) (od_rows db)"
      unfolding rows by simp
    have "objects_ok db1"
      using ok unfolding objects_ok_def keys nx by (auto simp: rows)
    moreover have "\<forall>r \<in> set (od_rows db1). r_id r = i' \<longrightarrow> r_version r < v \<and> \<not> r_newest r"
      using m unfolding max_version_Some rows r(1,2) by auto
    moreover have "i' < od_next db1" using m ok unfolding max_version_Some nx r(1,2) by (auto simp: objects_ok_def)
    moreover have "history db1 = history db" unfolding history_def rows by simp
    moreover have "current db1 j = current db j" if "j \<noteq> i" for j
      unfolding current_def rows using find_cleared [OF that] by simp
    ultimately show ?thesis using False r(1) by simp
  qed
  then show "objects_ok db1" and "\<forall>r \<in> set (od_rows db1). r_id r = i' \<longrightarrow> r_version r < v \<and> \<not> r_newest r"
    and "i' < od_next db1" and "history db1 = history db"
    and "\<forall>j. j \<noteq> i' \<longrightarrow> current db1 j = current db j"
    and "i' = (if i < 0 then od_next db else i)" by blast+
qed

lemma find_snoc:
  "List.find P (xs @ [x]) = (case List.find P xs of None \<Rightarrow> if P x then Some x else None | Some y \<Rightarrow> Some y)"
  by (induction xs) auto

lemma insert_object_result:
  assumes ok: "objects_ok db" and fresh: "\<forall>r \<in> set (od_rows db). r_id r = i \<longrightarrow> r_version r < v \<and> \<not> r_newest r"
    and i: "i < od_next db"
  shows "insert_object now i v author ob db = (Inr (), db\<lparr>od_rows := od_rows db @ [new_row now i v author ob]\<rparr>)"
    and "objects_ok (db\<lparr>od_rows := od_rows db @ [new_row now i v author ob]\<rparr>)"
    and "current (db\<lparr>od_rows := od_rows db @ [new_row now i v author ob]\<rparr>)
      = (current db)(i \<mapsto> new_row now i v author ob)"
proof -
  let ?r = "new_row now i v author ob"
  have r: "r_id ?r = i" "r_version ?r = v" "r_newest ?r" by (simp_all add: new_row_def)
  have "\<not> list_ex (\<lambda>r. r_id r = i \<and> r_version r = v) (od_rows db)"
    using fresh by (auto simp: list_ex_iff)
  then show "insert_object now i v author ob db = (Inr (), db\<lparr>od_rows := od_rows db @ [?r]\<rparr>)"
    by (simp add: insert_object_def new_row_def)
  show "objects_ok (db\<lparr>od_rows := od_rows db @ [?r]\<rparr>)"
    using ok fresh i r by (fastforce simp: objects_ok_def intro: less_imp_le)
  have "List.find (\<lambda>r. r_id r = j \<and> r_newest r) (od_rows db @ [?r])
      = (if j = i then Some ?r else List.find (\<lambda>r. r_id r = j \<and> r_newest r) (od_rows db))" for j
  proof (cases "j = i")
    case True
    have "List.find (\<lambda>r. r_id r = i \<and> r_newest r) (od_rows db) = None"
      using fresh by (auto simp: find_None_iff)
    with True r show ?thesis by (simp add: find_snoc)
  next
    case False
    with r show ?thesis by (simp add: find_snoc split: option.splits)
  qed
  then show "current (db\<lparr>od_rows := od_rows db @ [?r]\<rparr>) = (current db)(i \<mapsto> ?r)"
    by (simp add: fun_eq_iff current_def)
qed

lemma change_object_effect:
  assumes ok: "objects_ok db" and run: "change_object now i object author db = (Inr (j, v), db')"
  shows "objects_ok db'
    \<and> current db' = (current db)(j := map_option (new_row now j v author) object)
    \<and> history db' = history db @ (case object of None \<Rightarrow> []
        | Some ob \<Rightarrow> [(new_row now j v author ob)\<lparr>r_newest := False\<rparr>])
    \<and> (if i < 0 then j = od_next db \<and> v = 1 \<and> (\<forall>r \<in> set (od_rows db). r_id r \<noteq> j)
       else j = i \<and> (\<exists>m. max_version i db = Some m \<and> v = m + 1))"
proof -
  obtain db1 where n: "next_version i db = (Inr (j, v), db1)"
    using run by (auto simp: change_object_def split: prod.splits sum.splits option.splits)
  note res = next_version_result [OF ok n]
  have none: "current db1 j = None" using res(2) by (auto simp: current_def find_None_iff)
  have cur: "current db1 = (current db)(j := None)" using none res(5) by (auto simp: fun_eq_iff)
  have v: "if i < 0 then j = od_next db \<and> v = 1 \<and> (\<forall>r \<in> set (od_rows db). r_id r \<noteq> j)
       else j = i \<and> (\<exists>m. max_version i db = Some m \<and> v = m + 1)"
    using n ok by (auto simp: next_version_def objects_ok_def split: if_splits option.splits)
  show ?thesis
  proof (cases object)
    case None
    then have "db' = db1" using run n by (simp add: change_object_def)
    with None res cur v show ?thesis by simp
  next
    case (Some ob)
    note ins = insert_object_result [OF res(1,2,3), of now author ob]
    have db': "db' = db1\<lparr>od_rows := od_rows db1 @ [new_row now j v author ob]\<rparr>"
      using run n Some ins(1) by (simp add: change_object_def)
    have "history db' = history db1 @ [(new_row now j v author ob)\<lparr>r_newest := False\<rparr>]"
      unfolding db' history_def by simp
    with Some ins(2,3) res(4) cur v show ?thesis unfolding db' by simp
  qed
qed

section \<open>Properties\<close>

text \<open>C38: what changing an object does to the table it stands for. A change that succeeds keeps
  the invariant, loses no row of the history, writes the next version, and changes the current
  row of that object only: to the new one, or to none for a deletion. A new object gets an id
  no row has.\<close>

theorem change_object_refines:
  assumes ok: "objects_ok db" and run: "change_object now i object author db = (Inr (j, v), db')"
  shows "objects_ok db'
    \<and> current db' = (current db)(j := map_option (new_row now j v author) object)
    \<and> history db' = history db @ (case object of None \<Rightarrow> []
        | Some ob \<Rightarrow> [(new_row now j v author ob)\<lparr>r_newest := False\<rparr>])
    \<and> (if i < 0 then j = od_next db \<and> v = 1 \<and> (\<forall>r \<in> set (od_rows db). r_id r \<noteq> j)
       else j = i \<and> (\<exists>m. max_version i db = Some m \<and> v = m + 1))"
  by (rule change_object_effect [OF ok run])

definition demo_row :: obj_row where
  "demo_row =
     \<lparr>r_id = 7, r_version = 3, r_type = 2, r_name = ''h'', r_content = ''{}'', r_time = 0,
      r_newest = True, r_category = None, r_comment = '''', r_author = None\<rparr>"

definition demo_db :: objects_db where
  "demo_db = \<lparr>od_rows = [demo_row], od_next = 10000\<rparr>"

definition demo_new :: saved_object where
  "demo_new =
     \<lparr>no_type = OT_Id 2, no_name = ''h2'', no_content = ''{}'', no_category = '''', no_comment = ''c''\<rparr>"

lemma demo_db_ok: "objects_ok demo_db"
  by (simp add: objects_ok_def demo_db_def demo_row_def)

lemma demo_change:
  "change_object 5 7 (Some demo_new) ''me'' demo_db
     = (Inr (7, 4), \<lparr>od_rows = [demo_row\<lparr>r_newest := False\<rparr>, new_row 5 7 4 ''me'' demo_new], od_next = 10000\<rparr>)"
  by (simp add: change_object_def next_version_def max_version_def rows_of_def clear_newest_def
      insert_object_def demo_db_def demo_row_def new_row_def)

theorem change_object_refines_witness:
  "\<exists>db'. change_object 5 7 (Some demo_new) ''me'' demo_db = (Inr (7, 4), db') \<and> objects_ok db'
     \<and> current db' 7 = Some (new_row 5 7 4 ''me'' demo_new)"
  using change_object_refines [OF demo_db_ok demo_change] demo_change by auto

text \<open>Further result: a change fails only for an unknown object, and then changes nothing: a new object is
  always written, and so is the next version of one that has a row, deleted or not.\<close>

theorem change_object_fails:
  assumes "objects_ok db"
  shows "(\<exists>r db'. change_object now i object author db = (Inr r, db'))
       \<and> (i < 0 \<or> (\<exists>r \<in> set (od_rows db). r_id r = i))
     \<or> change_object now i object author db = (Inl UnableToFindRow, db)
       \<and> 0 \<le> i \<and> (\<forall>r \<in> set (od_rows db). r_id r \<noteq> i)"
proof (cases "0 \<le> i \<and> (\<forall>r \<in> set (od_rows db). r_id r \<noteq> i)")
  case True
  then have "max_version i db = None" by (simp add: max_version_None)
  with True show ?thesis by (simp add: change_object_def next_version_def)
next
  case False
  then have "i < 0 \<or> max_version i db \<noteq> None" by (auto simp: max_version_None)
  then obtain j v db1 where n: "next_version i db = (Inr (j, v), db1)"
    by (cases "i < 0"; cases "max_version i db") (auto simp: next_version_def)
  note res = next_version_result [OF assms n]
  have "\<exists>r db'. change_object now i object author db = (Inr r, db')"
    using n insert_object_result(1) [OF res(1,2,3)]
    by (cases object) (simp_all add: change_object_def)
  with False show ?thesis by force
qed

theorem change_object_fails_witness:
  "change_object 5 8 (Some demo_new) ''me'' demo_db = (Inl UnableToFindRow, demo_db)"
  using change_object_fails [OF demo_db_ok, of 5 8 "Some demo_new" "''me''"]
  by (auto simp: demo_db_def demo_row_def)

text \<open>Further result: what is saved is what is looked up: after an object is written, looking it up by its id
  gives the object with the new version, whatever was there before; after a deletion it gives
  nothing.\<close>

theorem change_then_lookup:
  assumes "objects_ok db" and "change_object now i object author db = (Inr (j, v), db')"
    and "\<forall>ob. object = Some ob \<longrightarrow> parse (no_content ob) = Inr c
        \<and> object_type_of_i64 (object_type_to_i64 (no_type ob)) = Some (no_type ob)"
  shows "get_newest_object_by_id parse j db' = Inr (case object of
      None \<Rightarrow> None
    | Some ob \<Rightarrow> Some \<lparr>io_id = j, io_type = no_type ob, io_name = no_name ob,
        io_category = no_category ob, io_content = c, io_version = v, io_comment = no_comment ob,
        io_author = Some author, io_time = now\<rparr>)"
proof -
  have "current db' = (current db)(j := map_option (new_row now j v author) object)"
    using change_object_effect [OF assms(1,2)] by blast
  then show ?thesis
    using assms(3) by (auto simp: get_newest_current row_object_def new_row_def split: option.splits)
qed

theorem change_then_lookup_witness:
  "get_newest_object_by_id (\<lambda>s. Inr s) 7 (snd (change_object 5 7 (Some demo_new) ''me'' demo_db))
     = Inr (Some \<lparr>io_id = 7, io_type = OT_Id 2, io_name = ''h2'', io_category = '''', io_content = ''{}'',
         io_version = 4, io_comment = ''c'', io_author = Some ''me'', io_time = 5\<rparr>)"
  unfolding demo_change
  using change_then_lookup [OF demo_db_ok demo_change, of "\<lambda>s. Inr s" "''{}''"]
  by (simp add: demo_new_def object_type_of_i64_def)

text \<open>Further result: the tag of an object's type survives being sent to a client and back; as an integer in
  the database it survives for the two special types and positive ids, and only for them.\<close>

theorem object_type_roundtrip:
  "object_type_deserialize (object_type_serialize t) = Some t
   \<and> (object_type_of_i64 (object_type_to_i64 t) = Some t) = (case t of OT_Id v \<Rightarrow> 0 < v | _ \<Rightarrow> True)"
  by (cases t) (auto simp: object_type_of_i64_def)

text \<open>Templates that cannot make the renderer loop, as in theory \<open>Visitor\<close>.\<close>

lemma render_variables_returns:
  "\<forall>kv \<in> set kvs. safe_template (snd kv) \<Longrightarrow> \<exists>r. render_variables kvs vars = Some r"
proof (induction kvs arbitrary: vars)
  case (Cons kv kvs)
  obtain k v where kv: "kv = (k, v)" by (cases kv)
  have "\<exists>r. render v None vars True = Some r"
    by (rule render_safe) (use Cons.prems kv in auto)
  with Cons kv show ?case by (auto split: sum.splits)
qed simp

lemma host_walk_returns:
  assumes safe: "\<And>i ob. get_newest_object_by_id parse i db = Inr (Some ob) \<Longrightarrow>
      \<forall>kv \<in> set (host_own ob). safe_template (snd kv)"
  shows "\<exists>r. host_walk parse db st vis vars = Some r"
proof -
  let ?D = "r_id ` set (od_rows db)"
  have out: "get_newest_object_by_id parse i db = Inr None" if "i \<notin> ?D" for i
    using that by (auto simp: get_newest_object_by_id_def fetch_optional_def find_None_iff split: option.splits)
      (metis (mono_tags, lifting) find_Some_iff image_eqI nth_mem)
  have "finite ?D" by simp
  then have "\<forall>vars. \<exists>r. host_walk parse db st vis vars = Some r"
  proof (induction st vis rule: stack_walk_induct)
    case (Nil vis)
    then show ?case by (simp add: host_walk.simps)
  next
    case (Visited i st vis)
    then show ?case by (simp add: host_walk.simps [of parse db "i # st"])
  next
    case (Outside i st vis)
    then show ?case by (simp add: host_walk.simps [of parse db "i # st"] out)
  next
    case (Expand i st vis)
    show ?case
    proof
      fix vars
      show "\<exists>r. host_walk parse db (i # st) vis vars = Some r"
      proof (cases "get_newest_object_by_id parse i db")
        case (Inl e)
        with Expand show ?thesis by (simp add: host_walk.simps [of parse db "i # st"])
      next
        case (Inr found)
        show ?thesis
        proof (cases found)
          case None
          with Inr Expand show ?thesis by (simp add: host_walk.simps [of parse db "i # st"])
        next
          case (Some ob)
          obtain r where "render_variables (host_own ob) vars = Some r"
            using render_variables_returns safe Inr Some by blast
          with Inr Some Expand show ?thesis
            by (cases r) (simp_all add: host_walk.simps [of parse db "i # st"])
        qed
      qed
    qed
  qed
  then show ?thesis by blast
qed

text \<open>Further result: looking up the variables of a host always returns, however the collections contain or
  depend on each other, when no variable's template makes the renderer loop.\<close>

theorem get_host_variables_returns:
  assumes "\<And>j ob. get_newest_object_by_id parse j db = Inr (Some ob) \<Longrightarrow>
      \<forall>kv \<in> set (variables_iter (io_content ob) @ secrets_iter (io_content ob)).
        safe_template (snd kv)"
  shows "\<exists>r. get_host_variables parse i db = Some r"
proof -
  have "\<exists>r. host_walk parse db st vis vars = Some r" for st vis vars
    by (rule host_walk_returns) (use assms in \<open>auto simp: host_own_def\<close>)
  then show ?thesis
    unfolding get_host_variables_def by (auto split: sum.splits option.splits) (metis option.distinct(1))+
qed

theorem get_host_variables_returns_witness:
  "\<exists>r. get_host_variables (\<lambda>s. Inr [(''contains'', JArray [JNumber (I64 7)])]) 7 demo_db = Some r"
  by (rule get_host_variables_returns)
    (auto simp: demo_db_def demo_row_def get_newest_object_by_id_def fetch_optional_def row_object_def
      object_type_of_i64_def variables_iter_def secrets_iter_def variable_array_def split: if_splits)

end
