(* ===== verification/Auth.thy ===== *)
theory Auth
  imports Objects Crypt
begin

text \<open>
  Who a browser client is and what it may do: \<open>get_auth\<close> in \<open>src/bin/server/get_auth.rs\<close>, the
  password check of \<open>crypt.rs\<close>, and logging in and out with the limits on failed attempts
  (\<open>handle_login_inner\<close>, \<open>record_failed_login_attempt\<close> and the \<open>Logout\<close> request in
  \<open>src/bin/server/webclient.rs\<close>). The clock, the \<open>crypt\<close> library, the one time password
  library and the parser of user objects are parameters; instants and durations count
  nanoseconds.
\<close>

section \<open>Users, sessions and rights\<close>

record user_content =
  uc_sessions :: "string option"
  uc_admin :: bool
  uc_docker_pull :: bool
  uc_docker_push :: bool
  uc_docker_deploy :: bool
  uc_sslname :: "string option"
  uc_auth_days :: "string option"
  uc_password :: string
  uc_otp_base32 :: string

record auth_status =
  as_message :: "string option"
  as_auth :: bool
  as_user :: "string option"
  as_pwd :: bool
  as_otp :: bool
  as_admin :: bool
  as_docker_pull :: bool
  as_docker_push :: bool
  as_docker_deploy :: bool
  as_session :: "string option"
  as_sslname :: "string option"
  as_auth_days :: "int option"
  as_rate_limit_delay :: "int option"

definition auth_default :: auth_status where
  "auth_default =
     \<lparr>as_message = None, as_auth = False, as_user = None, as_pwd = False, as_otp = False,
      as_admin = False, as_docker_pull = False, as_docker_push = False, as_docker_deploy = False,
      as_session = None, as_sslname = None, as_auth_days = None, as_rate_limit_delay = None\<rparr>"

record session =
  se_sid :: string
  se_user :: string
  se_host :: string
  se_pwd :: "int option"
  se_otp :: "int option"

record auth_env =
  ae_users :: "(string \<times> string) list"
  ae_parse_user :: "string \<Rightarrow> string + user_content"
  ae_crypt :: "string \<Rightarrow> string \<Rightarrow> string option"
  ae_otp :: "string \<Rightarrow> string \<Rightarrow> string + bool"
  ae_now :: int
  ae_instant :: int

datatype auth_error =
    UserQuery db_error | CryptFailed | WrongHashSize | NulInString | OtpFailed string
  | InternalAuthError | MissingSession

definition get_user_content :: "auth_env \<Rightarrow> objects_db \<Rightarrow> string \<Rightarrow> auth_error + user_content option" where
  "get_user_content env db name =
     (case List.find (\<lambda>r. r_type r = USER_ID \<and> r_name r = name \<and> r_newest r) (od_rows db) of
        None \<Rightarrow> Inr None
      | Some r \<Rightarrow>
          (case ae_parse_user env (r_content r) of
             Inl e \<Rightarrow> Inl (UserQuery (BadContent e))
           | Inr c \<Rightarrow> Inr (Some c)))"

section \<open>get_auth\<close>

definition unexpired :: "int \<Rightarrow> int option \<Rightarrow> int \<Rightarrow> bool" where
  "unexpired now t seconds = (case t of None \<Rightarrow> False | Some v \<Rightarrow> v + seconds > now)"

text \<open>\<open>str::parse::<u32>\<close>: no sign but \<open>+\<close>, and no overflow.\<close>

definition parse_u32 :: "string \<Rightarrow> int option" where
  "parse_u32 s =
     (case parse_unsigned (case s of c # cs \<Rightarrow> if c = CHR ''+'' then cs else s | [] \<Rightarrow> s) of
        None \<Rightarrow> None
      | Some v \<Rightarrow> if v < 2 ^ 32 then Some v else None)"

text \<open>A session id with a colon is a token listed in the content of the user named before it.\<close>

definition token_auth :: "auth_env \<Rightarrow> objects_db \<Rightarrow> string \<Rightarrow> string \<Rightarrow> auth_error + auth_status" where
  "token_auth env db user sid =
     (case get_user_content env db user of
        Inl e \<Rightarrow> Inl e
      | Inr None \<Rightarrow> Inr auth_default
      | Inr (Some content) \<Rightarrow>
          Inr (if (case uc_sessions content of None \<Rightarrow> False
                   | Some v \<Rightarrow> list_ex (\<lambda>t. t = sid) (split_char (CHR '','') v))
               then auth_default\<lparr>as_auth := True, as_user := Some user, as_pwd := True, as_otp := True,
                      as_docker_pull := uc_docker_pull content, as_docker_push := uc_docker_push content,
                      as_session := Some sid\<rparr>
               else auth_default))"

definition docker_client_auth :: "auth_env \<Rightarrow> session \<Rightarrow> auth_status" where
  "docker_client_auth env row =
     (let pwd = unexpired (ae_now env) (se_pwd row) (60 * 60);
          otp = unexpired (ae_now env) (se_otp row) (60 * 60)
      in auth_default\<lparr>as_docker_pull := pwd \<and> otp, as_docker_push := pwd \<and> otp, as_auth := pwd \<and> otp,
           as_user := Some (se_user row), as_pwd := pwd, as_otp := otp, as_session := Some (se_sid row)\<rparr>)"

definition config_auth :: "auth_env \<Rightarrow> session \<Rightarrow> auth_status" where
  "config_auth env row =
     auth_default\<lparr>as_docker_pull := True, as_docker_push := True, as_docker_deploy := True,
       as_admin := True, as_auth := True,
       as_pwd := unexpired (ae_now env) (se_pwd row) (60 * 60),
       as_otp := unexpired (ae_now env) (se_otp row) (60 * 60), as_session := None,
       as_user := Some (se_user row)\<rparr>"

definition user_auth :: "auth_env \<Rightarrow> session \<Rightarrow> user_content \<Rightarrow> auth_status" where
  "user_auth env row content =
     (let auth_days = Option.bind (uc_auth_days content) parse_u32;
          pwd_expiration = (case auth_days of Some d \<Rightarrow> d * 60 * 60 * 24 | None \<Rightarrow> 12 * 60 * 60);
          otp_expiration = 64 * 24 * 60 * 60;
          pwd = unexpired (ae_now env) (se_pwd row) pwd_expiration;
          otp = unexpired (ae_now env) (se_otp row) (max otp_expiration pwd_expiration)
      in \<lparr>as_message = None, as_auth = pwd \<and> otp, as_user = Some (se_user row), as_pwd = pwd,
          as_otp = otp, as_admin = uc_admin content \<and> pwd \<and> otp,
          as_docker_pull = pwd \<and> otp
            \<and> (uc_admin content \<or> uc_docker_deploy content \<or> uc_docker_pull content),
          as_docker_push = pwd \<and> otp
            \<and> (uc_admin content \<or> uc_docker_deploy content \<or> uc_docker_push content),
          as_docker_deploy = pwd \<and> otp \<and> (uc_admin content \<or> uc_docker_deploy content),
          as_session = Some (se_sid row),
          as_sslname = (if pwd \<and> otp then uc_sslname content else None),
          as_auth_days = auth_days, as_rate_limit_delay = None\<rparr>)"

definition session_auth ::
  "auth_env \<Rightarrow> objects_db \<Rightarrow> string option \<Rightarrow> session \<Rightarrow> auth_error + auth_status" where
  "session_auth env db host row =
     (if host \<noteq> None \<and> host \<noteq> Some (se_host row) then Inr auth_default
      else if se_user row = ''docker_client'' then Inr (docker_client_auth env row)
      else if se_user row \<in> fst ` set (ae_users env) then Inr (config_auth env row)
      else case get_user_content env db (se_user row) of
        Inl e \<Rightarrow> Inl e
      | Inr None \<Rightarrow> Inr auth_default
      | Inr (Some content) \<Rightarrow> Inr (user_auth env row content))"

definition find_session :: "string \<Rightarrow> session list \<Rightarrow> session option" where
  "find_session sid = List.find (\<lambda>row. se_sid row = sid)"

definition get_auth ::
  "auth_env \<Rightarrow> objects_db \<Rightarrow> session list \<Rightarrow> string option \<Rightarrow> string option
    \<Rightarrow> auth_error + auth_status" where
  "get_auth env db sessions host sid =
     (case sid of
        None \<Rightarrow> Inr auth_default
      | Some s \<Rightarrow>
          (case split_once '':'' s of
             Some (user, _) \<Rightarrow> token_auth env db user s
           | None \<Rightarrow>
               (case find_session s sessions of
                  None \<Rightarrow> Inr auth_default
                | Some row \<Rightarrow> session_auth env db host row)))"

section \<open>Checking a password\<close>

definition bytes :: "string \<Rightarrow> 8 word list" where
  "bytes s = map of_char s"

text \<open>\<open>CString::new\<close> refuses a NUL; \<open>crypt\<close> hashes the password with the salt of the hash.\<close>

definition validate_password :: "auth_env \<Rightarrow> string \<Rightarrow> string \<Rightarrow> auth_error + bool" where
  "validate_password env provided hash =
     (if CHR 0x00 \<in> set provided \<or> CHR 0x00 \<in> set hash then Inl NulInString
      else case ae_crypt env provided hash of
        None \<Rightarrow> Inl CryptFailed
      | Some res \<Rightarrow>
          if length res \<noteq> length hash then Inl WrongHashSize
          else Inr (cost_time_compare (bytes res) (bytes hash)))"

definition validate_otp :: "auth_env \<Rightarrow> string \<Rightarrow> string \<Rightarrow> auth_error + bool" where
  "validate_otp env token_str secret = map_sum OtpFailed id (ae_otp env token_str secret)"

section \<open>Failed attempts\<close>

definition second :: int where "second = 10 ^ 9"

record login_attempts =
  la_next_allowed :: int
  la_delay :: int

type_synonym attempts = "string \<rightharpoonup> login_attempts"

definition record_failed :: "int \<Rightarrow> string \<Rightarrow> attempts \<Rightarrow> attempts" where
  "record_failed now ip attempts =
     (let entry = opt_or (attempts ip) \<lparr>la_next_allowed = now, la_delay = second\<rparr>
      in attempts(ip \<mapsto> \<lparr>la_next_allowed = now + la_delay entry,
                         la_delay = min (la_delay entry * 2) (300 * second)\<rparr>))"

definition purge :: "int \<Rightarrow> attempts \<Rightarrow> attempts" where
  "purge now attempts =
     (\<lambda>ip. case attempts ip of
        None \<Rightarrow> None
      | Some v \<Rightarrow> if la_next_allowed v + 3600 * second > now then Some v else None)"

text \<open>The whole seconds to wait, plus one.\<close>

definition rate_limit :: "int \<Rightarrow> string \<Rightarrow> attempts \<Rightarrow> int option" where
  "rate_limit now ip attempts =
     (case attempts ip of
        None \<Rightarrow> None
      | Some entry \<Rightarrow>
          if now < la_next_allowed entry then Some ((la_next_allowed entry - now) div second + 1)
          else None)"

section \<open>Logging in\<close>

record login =
  lo_user :: string
  lo_pwd :: string
  lo_otp :: "string option"

record auth_state =
  au_sessions :: "session list"
  au_attempts :: attempts
  au_failures :: "string \<rightharpoonup> nat"
  au_client :: auth_status
  au_sent :: "auth_status list"

definition send_status :: "auth_status \<Rightarrow> auth_state \<Rightarrow> auth_state" where
  "send_status a s = s\<lparr>au_sent := au_sent s @ [a]\<rparr>"

definition on_session :: "string \<Rightarrow> (session \<Rightarrow> session) \<Rightarrow> auth_state \<Rightarrow> auth_state" where
  "on_session sid f s =
     s\<lparr>au_sessions := map (\<lambda>row. if se_sid row = sid then f row else row) (au_sessions s)\<rparr>"

definition insert_session :: "session \<Rightarrow> auth_state \<Rightarrow> auth_state" where
  "insert_session row s = s\<lparr>au_sessions := au_sessions s @ [row]\<rparr>"

text \<open>What the credentials come to.\<close>

record creds =
  cr_found :: bool
  cr_pwd :: bool
  cr_otp :: bool
  cr_new_otp :: bool

fun config_creds :: "(string \<times> string) list \<Rightarrow> login \<Rightarrow> creds \<Rightarrow> creds" where
  "config_creds [] act c = c"
| "config_creds ((name, password) # us) act c =
     (if name = lo_user act
      then if password = lo_pwd act
           then c\<lparr>cr_found := True, cr_otp := True, cr_pwd := True, cr_new_otp := True\<rparr>
           else config_creds us act (c\<lparr>cr_found := True\<rparr>)
      else config_creds us act c)"

definition user_creds :: "auth_env \<Rightarrow> user_content \<Rightarrow> login \<Rightarrow> creds \<Rightarrow> auth_error + creds" where
  "user_creds env content act c =
     res_bind (validate_password env (lo_pwd act) (uc_password content))
       (\<lambda>pwd. case lo_otp act of
          Some t \<Rightarrow>
            if t \<noteq> ''''
            then res_bind (validate_otp env t (uc_otp_base32 content))
                   (\<lambda>otp. Inr (c\<lparr>cr_pwd := pwd, cr_otp := otp, cr_new_otp := True, cr_found := True\<rparr>))
            else Inr (c\<lparr>cr_pwd := pwd, cr_found := True\<rparr>)
        | None \<Rightarrow> Inr (c\<lparr>cr_pwd := pwd, cr_found := True\<rparr>))"

definition check_creds :: "auth_env \<Rightarrow> objects_db \<Rightarrow> login \<Rightarrow> auth_status \<Rightarrow> auth_error + creds" where
  "check_creds env db act auth =
     (let c = config_creds (ae_users env) act
            \<lparr>cr_found = False, cr_pwd = as_pwd auth, cr_otp = as_otp auth, cr_new_otp = False\<rparr>
      in if cr_found c then Inr c
         else case get_user_content env db (lo_user act) of
           Inl e \<Rightarrow> Inl e
         | Inr None \<Rightarrow> Inr c
         | Inr (Some content) \<Rightarrow> user_creds env content act c)"

definition refuse :: "string option \<Rightarrow> login \<Rightarrow> string \<Rightarrow> auth_status" where
  "refuse session act message =
     auth_default\<lparr>as_session := session, as_user := Some (lo_user act), as_message := Some message\<rparr>"

definition unknown_user :: "auth_env \<Rightarrow> string \<Rightarrow> string option \<Rightarrow> login \<Rightarrow> auth_state \<Rightarrow> auth_state" where
  "unknown_user env remote session act s =
     (let s1 = send_status (refuse session act ''Invalid user name'') s
      in s1\<lparr>au_client := auth_default, au_attempts := record_failed (ae_instant env) remote (au_attempts s1)\<rparr>)"

definition otp_submitted :: "login \<Rightarrow> bool" where
  "otp_submitted act = (case lo_otp act of None \<Rightarrow> False | Some t \<Rightarrow> t \<noteq> '''')"

text \<open>Five wrong one time passwords on a session take its password away.\<close>

definition count_otp_failure :: "string option \<Rightarrow> login \<Rightarrow> creds \<Rightarrow> auth_state \<Rightarrow> auth_state" where
  "count_otp_failure session act c s =
     (case session of
        None \<Rightarrow> s
      | Some sid \<Rightarrow>
          if cr_pwd c \<and> \<not> cr_otp c \<and> otp_submitted act
          then (let count = opt_or (au_failures s sid) 0 + 1
                in if count \<ge> 5
                   then on_session sid (\<lambda>row. row\<lparr>se_pwd := None\<rparr>) (s\<lparr>au_failures := (au_failures s)(sid := None)\<rparr>)
                   else s\<lparr>au_failures := (au_failures s)(sid \<mapsto> count)\<rparr>)
          else s)"

text \<open>A fresh one time password is kept when the password is right, too.\<close>

definition keep_otp ::
  "auth_env \<Rightarrow> string \<Rightarrow> string \<Rightarrow> string option \<Rightarrow> login \<Rightarrow> creds \<Rightarrow> auth_state \<Rightarrow> string option \<times> auth_state" where
  "keep_otp env remote fresh session act c s =
     (if cr_otp c \<and> cr_new_otp c \<and> cr_pwd c
      then case session of
             Some sid \<Rightarrow> (session, on_session sid (\<lambda>row. row\<lparr>se_otp := Some (ae_now env)\<rparr>) s)
           | None \<Rightarrow> (Some fresh, insert_session \<lparr>se_sid = fresh, se_user = lo_user act, se_host = remote,
                                  se_pwd = None, se_otp = Some (ae_now env)\<rparr> s)
      else (session, s))"

definition wrong_creds ::
  "auth_env \<Rightarrow> string \<Rightarrow> string \<Rightarrow> string option \<Rightarrow> login \<Rightarrow> creds \<Rightarrow> auth_state \<Rightarrow> auth_state" where
  "wrong_creds env remote fresh session act c s =
     (let s1 = (if \<not> cr_pwd c \<or> \<not> cr_otp c \<and> otp_submitted act
                then s\<lparr>au_attempts := record_failed (ae_instant env) remote (au_attempts s)\<rparr> else s)
      in case keep_otp env remote fresh session act c (count_otp_failure session act c s1) of
           (session', s2) \<Rightarrow>
             send_status ((refuse session' act ''Invalid password or one time password'')\<lparr>as_otp := cr_otp c\<rparr>)
               (s2\<lparr>au_client := auth_default\<lparr>as_session := session', as_otp := cr_otp c\<rparr>\<rparr>))"

definition right_creds ::
  "auth_env \<Rightarrow> objects_db \<Rightarrow> string \<Rightarrow> string \<Rightarrow> string option \<Rightarrow> login \<Rightarrow> creds \<Rightarrow> auth_state
    \<Rightarrow> (auth_error + unit) \<times> auth_state" where
  "right_creds env db remote fresh session act c s =
     (let s1 = s\<lparr>au_attempts := (au_attempts s)(remote := None)\<rparr>;
          now = ae_now env;
          s2 = (case session of
              Some sid \<Rightarrow>
                on_session sid (\<lambda>row. if cr_new_otp c then row\<lparr>se_pwd := Some now, se_otp := Some now\<rparr>
                                      else row\<lparr>se_pwd := Some now\<rparr>)
                  (s1\<lparr>au_failures := (au_failures s1)(sid := None)\<rparr>)
            | None \<Rightarrow> insert_session \<lparr>se_sid = fresh, se_user = lo_user act, se_host = remote,
                                    se_pwd = Some now, se_otp = Some now\<rparr> s1)
      in case get_auth env db (au_sessions s2) (Some remote) (Some (opt_or session fresh)) of
           Inl e \<Rightarrow> (Inl e, s2)
         | Inr auth \<Rightarrow>
             if \<not> as_auth auth then (Inl InternalAuthError, s2)
             else (Inr (), send_status auth (s2\<lparr>au_client := auth\<rparr>)))"

definition handle_login_inner ::
  "auth_env \<Rightarrow> objects_db \<Rightarrow> string \<Rightarrow> string \<Rightarrow> login \<Rightarrow> auth_state \<Rightarrow> (auth_error + unit) \<times> auth_state" where
  "handle_login_inner env db remote fresh act s =
     (let session = as_session (au_client s)
      in case (case session of
                 Some sid \<Rightarrow> get_auth env db (au_sessions s) (Some remote) (Some sid)
               | None \<Rightarrow> Inr auth_default) of
           Inl e \<Rightarrow> (Inl e, s)
         | Inr auth \<Rightarrow>
             (let s1 = s\<lparr>au_attempts := purge (ae_instant env) (au_attempts s)\<rparr>
              in case rate_limit (ae_instant env) remote (au_attempts s1) of
                   Some secs \<Rightarrow>
                     (Inr (), send_status ((refuse session act ''Too many failed login attempts from your IP.'')
                                \<lparr>as_rate_limit_delay := Some (secs mod 2 ^ 32)\<rparr>) s1)
                 | None \<Rightarrow>
                     (case check_creds env db act auth of
                        Inl e \<Rightarrow> (Inl e, s1)
                      | Inr c \<Rightarrow>
                          if \<not> cr_found c then (Inr (), unknown_user env remote session act s1)
                          else if \<not> cr_pwd c \<or> \<not> cr_otp c
                          then (Inr (), wrong_creds env remote fresh session act c s1)
                          else right_creds env db remote fresh session act c s1)))"

text \<open>The requests: an error of the login is answered, too.\<close>

definition handle_login ::
  "auth_env \<Rightarrow> objects_db \<Rightarrow> string \<Rightarrow> string \<Rightarrow> login \<Rightarrow> auth_state \<Rightarrow> auth_state" where
  "handle_login env db remote fresh act s =
     (case handle_login_inner env db remote fresh act s of
        (Inl e, s') \<Rightarrow> send_status (auth_default\<lparr>as_message := Some ''Internal error''\<rparr>) s'
      | (Inr _, s') \<Rightarrow> s')"

definition handle_request_auth_status ::
  "auth_env \<Rightarrow> objects_db \<Rightarrow> string \<Rightarrow> string option \<Rightarrow> auth_state \<Rightarrow> (auth_error + unit) \<times> auth_state" where
  "handle_request_auth_status env db remote sid s =
     (case get_auth env db (au_sessions s) (Some remote) sid of
        Inl e \<Rightarrow> (Inl e, s)
      | Inr auth \<Rightarrow> (Inr (), send_status auth (s\<lparr>au_client := auth\<rparr>)))"

text \<open>Logging out; the value tells whether the client was let through.\<close>

definition handle_logout ::
  "auth_env \<Rightarrow> objects_db \<Rightarrow> string \<Rightarrow> bool \<Rightarrow> bool \<Rightarrow> auth_state \<Rightarrow> (auth_error + bool) \<times> auth_state" where
  "handle_logout env db remote forget_pwd forget_otp s =
     (if \<not> as_auth (au_client s) then (Inr False, s)
      else case as_session (au_client s) of
        None \<Rightarrow> (Inl MissingSession, s)
      | Some sid \<Rightarrow>
          (let s1 = on_session sid (\<lambda>row. row\<lparr>se_pwd := (if forget_pwd then None else se_pwd row),
                        se_otp := (if forget_otp then None else se_otp row)\<rparr>) s
           in case get_auth env db (au_sessions s1) (Some remote) (Some sid) of
                Inl e \<Rightarrow> (Inl e, s1)
              | Inr auth \<Rightarrow> (Inr True, send_status auth (s1\<lparr>au_client := auth\<rparr>))))"

section \<open>Facts shared by the properties\<close>

lemma bytes_inject: "bytes s = bytes t \<Longrightarrow> s = t"
proof -
  have "inj (of_char :: char \<Rightarrow> 8 word)"
  proof (rule injI)
    fix c d assume "(of_char c :: 8 word) = of_char d"
    then have "unat (of_char c :: 8 word) = unat (of_char d :: 8 word)" by simp
    moreover have "unat (of_char c :: 8 word) = of_char c" for c
    proof -
      have "(of_char c :: nat) < 2 ^ 8" by simp
      then have "unat (of_nat (of_char c) :: 8 word) = of_char c"
        by (simp only: unsigned_of_nat take_bit_nat_eq_self_iff [THEN iffD2] len_bit0 len_num1)
          (simp add: take_bit_nat_eq_self_iff)
      then show ?thesis by (simp add: of_nat_of_char)
    qed
    ultimately show "c = d" by simp
  qed
  then show "bytes s = bytes t \<Longrightarrow> s = t" by (simp add: bytes_def inj_map_eq_map)
qed

lemma validate_password_iff:
  "validate_password env p h = Inr True \<longleftrightarrow>
     CHR 0x00 \<notin> set p \<and> CHR 0x00 \<notin> set h \<and> ae_crypt env p h = Some h"
  by (auto simp: validate_password_def cost_time_compare_eq dest: bytes_inject split: option.splits)

definition rights :: "auth_status \<Rightarrow> bool" where
  "rights a = (as_auth a \<or> as_admin a \<or> as_docker_pull a \<or> as_docker_push a \<or> as_docker_deploy a
               \<or> as_sslname a \<noteq> None)"

lemma rights_default [simp]: "\<not> rights auth_default"
  by (simp add: rights_def auth_default_def)

text \<open>How long the password of a user lasts.\<close>

definition pwd_life :: "user_content \<Rightarrow> int" where
  "pwd_life content =
     (case Option.bind (uc_auth_days content) parse_u32 of
        Some d \<Rightarrow> d * 60 * 60 * 24 | None \<Rightarrow> 12 * 60 * 60)"

lemma user_auth_fields:
  "as_pwd (user_auth env row content) = unexpired (ae_now env) (se_pwd row) (pwd_life content)"
  "as_otp (user_auth env row content)
     = unexpired (ae_now env) (se_otp row) (max (64 * 24 * 60 * 60) (pwd_life content))"
  "as_auth (user_auth env row content)
     = (as_pwd (user_auth env row content) \<and> as_otp (user_auth env row content))"
  "as_user (user_auth env row content) = Some (se_user row)"
  "as_admin (user_auth env row content)
     = (uc_admin content \<and> as_pwd (user_auth env row content) \<and> as_otp (user_auth env row content))"
  "rights (user_auth env row content) \<Longrightarrow> as_auth (user_auth env row content)"
  by (auto simp: user_auth_def pwd_life_def rights_def Let_def split: if_splits)

lemma find_distinct: "distinct (map f xs) \<Longrightarrow> x \<in> set xs \<Longrightarrow> List.find (\<lambda>y. f y = f x) xs = Some x"
  by (induction xs) (auto simp: image_iff)

lemma find_session_Some: "find_session sid ss = Some row \<Longrightarrow> row \<in> set ss \<and> se_sid row = sid"
  by (auto simp: find_session_def find_Some_iff)

section \<open>Properties\<close>

text \<open>C35: where rights come from. A client has rights only by a token listed in the content of its
  user, which never makes it an administrator, or by a session of its own host, and then, but
  for the users of the configuration file, only while both the password and the one time
  password entered in that session are fresh.\<close>

theorem get_auth_rights:
  assumes run: "get_auth env db ss host sid = Inr a" and r: "rights a"
  shows "(\<exists>s user rest content toks. sid = Some s \<and> split_once '':'' s = Some (user, rest)
          \<and> get_user_content env db user = Inr (Some content) \<and> uc_sessions content = Some toks
          \<and> s \<in> set (split_char (CHR '','') toks) \<and> \<not> as_admin a \<and> as_user a = Some user)
     \<or> (\<exists>row \<in> set ss. sid = Some (se_sid row) \<and> (host = None \<or> host = Some (se_host row))
          \<and> as_user a = Some (se_user row)
          \<and> (se_user row \<in> fst ` set (ae_users env)
             \<or> se_user row = ''docker_client'' \<and> unexpired (ae_now env) (se_pwd row) 3600
                 \<and> unexpired (ae_now env) (se_otp row) 3600 \<and> \<not> as_admin a
             \<or> (\<exists>content. get_user_content env db (se_user row) = Inr (Some content)
                 \<and> unexpired (ae_now env) (se_pwd row) (pwd_life content)
                 \<and> unexpired (ae_now env) (se_otp row) (max (64 * 24 * 60 * 60) (pwd_life content))
                 \<and> (as_admin a \<longrightarrow> uc_admin content))))"
proof -
  from run r obtain s where s: "sid = Some s" by (cases sid) (auto simp: get_auth_def)
  show ?thesis
  proof (cases "split_once '':'' s")
    case (Some ur)
    obtain user rest where ur: "ur = (user, rest)" by (cases ur)
    with run s Some have t: "token_auth env db user s = Inr a" by (simp add: get_auth_def)
    with r obtain content where content: "get_user_content env db user = Inr (Some content)"
      by (auto simp: token_auth_def split: sum.splits option.splits)
    with t r obtain toks where "uc_sessions content = Some toks" "s \<in> set (split_char (CHR '','') toks)"
      "\<not> as_admin a" "as_user a = Some user"
      by (auto simp: token_auth_def auth_default_def rights_def list_ex_iff split: if_splits option.splits)
    with s Some ur content show ?thesis by blast
  next
    case None
    with run s r obtain row where row: "find_session s ss = Some row" "session_auth env db host row = Inr a"
      by (auto simp: get_auth_def split: option.splits)
    note mem = find_session_Some [OF row(1)]
    have host: "host = None \<or> host = Some (se_host row)"
      using row(2) r by (auto simp: session_auth_def split: if_splits)
    consider "se_user row = ''docker_client''" "a = docker_client_auth env row"
      | "se_user row \<in> fst ` set (ae_users env)" "a = config_auth env row"
      | content where "get_user_content env db (se_user row) = Inr (Some content)" "a = user_auth env row content"
      using row(2) r host by (auto simp: session_auth_def split: if_splits sum.splits option.splits)
    then show ?thesis
    proof cases
      case 1
      then have "unexpired (ae_now env) (se_pwd row) 3600 \<and> unexpired (ae_now env) (se_otp row) 3600
          \<and> \<not> as_admin a \<and> as_user a = Some (se_user row)"
        using r by (simp add: docker_client_auth_def rights_def auth_default_def Let_def)
      with 1 mem host s show ?thesis by blast
    next
      case 2
      then have "as_user a = Some (se_user row)" by (simp add: config_auth_def)
      with 2 mem host s show ?thesis by blast
    next
      case 3
      with r have "unexpired (ae_now env) (se_pwd row) (pwd_life content)
          \<and> unexpired (ae_now env) (se_otp row) (max (64 * 24 * 60 * 60) (pwd_life content))
          \<and> (as_admin a \<longrightarrow> uc_admin content) \<and> as_user a = Some (se_user row)"
        using user_auth_fields [of env row content] by simp
      with 3 mem host s show ?thesis by blast
    qed
  qed
qed

text \<open>The witness: an administrator whose session is fresh.\<close>

definition demo_user :: user_content where
  "demo_user =
     \<lparr>uc_sessions = None, uc_admin = True, uc_docker_pull = False, uc_docker_push = False,
      uc_docker_deploy = False, uc_sslname = None, uc_auth_days = None, uc_password = ''h'',
      uc_otp_base32 = ''s''\<rparr>"

text \<open>A \<open>crypt\<close> that hashes the password \<open>pw\<close> to \<open>h\<close>; the one time password is \<open>123\<close>.\<close>

definition demo_auth_env :: auth_env where
  "demo_auth_env =
     \<lparr>ae_users = [(''root'', ''toor'')], ae_parse_user = (\<lambda>_. Inr demo_user),
      ae_crypt = (\<lambda>p _. if p = ''pw'' then Some ''h'' else Some ''x''),
      ae_otp = (\<lambda>t _. Inr (t = ''123'')), ae_now = 1000000, ae_instant = 0\<rparr>"

definition user_row :: "int \<Rightarrow> string \<Rightarrow> obj_row" where
  "user_row i name =
     \<lparr>r_id = i, r_version = 1, r_type = USER_ID, r_name = name, r_content = ''{}'', r_time = 0,
      r_newest = True, r_category = None, r_comment = '''', r_author = None\<rparr>"

definition auth_db :: objects_db where
  "auth_db = \<lparr>od_rows = [user_row 5 ''alice'', user_row 6 ''bob''], od_next = 10000\<rparr>"

definition demo_session :: "int option \<Rightarrow> session" where
  "demo_session pwd =
     \<lparr>se_sid = ''s1'', se_user = ''alice'', se_host = ''10.0.0.1'', se_pwd = pwd, se_otp = Some 999000\<rparr>"

lemma alice: "get_user_content demo_auth_env auth_db ''alice'' = Inr (Some demo_user)"
  and bob: "get_user_content demo_auth_env auth_db ''bob'' = Inr (Some demo_user)"
  by (simp_all add: get_user_content_def auth_db_def user_row_def demo_auth_env_def)

lemma demo_get_auth:
  "get_auth demo_auth_env auth_db [demo_session pwd] (Some ''10.0.0.1'') (Some ''s1'')
     = Inr (user_auth demo_auth_env (demo_session pwd) demo_user)"
  by (simp add: get_auth_def find_session_def session_auth_def demo_session_def
      get_user_content_def auth_db_def user_row_def demo_auth_env_def)

theorem get_auth_rights_witness:
  "rights (user_auth demo_auth_env (demo_session (Some 999000)) demo_user)
   \<and> ''alice'' \<notin> fst ` set (ae_users demo_auth_env) \<and> as_user (user_auth demo_auth_env (demo_session (Some 999000)) demo_user) = Some ''alice''"
proof -
  have r: "rights (user_auth demo_auth_env (demo_session (Some 999000)) demo_user)"
    by (simp add: rights_def user_auth_def unexpired_def demo_auth_env_def demo_session_def demo_user_def Let_def)
  have "as_user (user_auth demo_auth_env (demo_session (Some 999000)) demo_user) = Some ''alice''"
    using get_auth_rights [OF demo_get_auth r] by (auto simp: demo_session_def)
  with r show ?thesis by (simp add: demo_auth_env_def)
qed

text \<open>Further result: the session of a user of the configuration file never expires and cannot be ended. Once
  a session row names such a user, the client that shows its id is an administrator at any
  later time, however old the passwords are; and because the status carries no session,
  logging out fails and leaves the row.\<close>

theorem config_session_permanent:
  assumes "row \<in> set ss" and "se_sid row = sid" and "distinct (map se_sid ss)"
    and "CHR '':'' \<notin> set sid"
    and "se_user row \<in> fst ` set (ae_users env)" and "se_user row \<noteq> ''docker_client''"
  shows "\<exists>a. get_auth env db ss (Some (se_host row)) (Some sid) = Inr a \<and> as_auth a \<and> as_admin a
    \<and> (\<forall>s p t. au_client s = a \<longrightarrow>
         handle_logout env db (se_host row) p t s = (Inl MissingSession, s))"
proof -
  have "split_once '':'' sid = None"
    using assms(4) by (auto simp: split_once_None_iff)
  moreover have "find_session sid ss = Some row"
    using find_distinct [OF assms(3,1)] assms(2) by (simp add: find_session_def)
  ultimately have "get_auth env db ss (Some (se_host row)) (Some sid) = Inr (config_auth env row)"
    using assms(5,6) by (simp add: get_auth_def session_auth_def)
  then show ?thesis by (auto simp: config_auth_def auth_default_def handle_logout_def)
qed

theorem config_session_permanent_witness:
  "\<exists>a. get_auth demo_auth_env auth_db [(demo_session None)\<lparr>se_user := ''root''\<rparr>] (Some ''10.0.0.1'') (Some ''s1'') = Inr a
     \<and> as_admin a"
  using config_session_permanent [of "(demo_session None)\<lparr>se_user := ''root''\<rparr>"
      "[(demo_session None)\<lparr>se_user := ''root''\<rparr>]" "''s1''" demo_auth_env auth_db]
  by (auto simp: demo_session_def demo_auth_env_def)

text \<open>Repeated failures of one address.\<close>

lemma record_failed_run:
  "fold (\<lambda>t. record_failed t ip) (ts @ [t]) Map.empty ip
     = Some \<lparr>la_next_allowed = t + min (300 * second) (2 ^ length ts * second),
             la_delay = min (300 * second) (2 ^ Suc (length ts) * second)\<rparr>"
proof (induction ts arbitrary: t rule: rev_induct)
  case Nil
  then show ?case by (simp add: record_failed_def second_def opt_or_def)
next
  case (snoc u ts)
  have "min (min (300 * second) (2 ^ Suc n * second) * 2) (300 * second)
      = min (300 * second) (2 ^ Suc (Suc n) * second)" for n
    by (simp add: min_def second_def)
  with snoc [of u] show ?case by (simp add: record_failed_def opt_or_def)
qed

text \<open>Further result: failed attempts are slowed down exponentially: after \<open>n\<close> failures in a row the address
  is limited until \<open>min 300 (2 ^ (n - 1))\<close> seconds after the last one.\<close>

theorem failed_attempts_backoff:
  assumes "ts \<noteq> []"
  shows "rate_limit now ip (fold (\<lambda>t. record_failed t ip) ts Map.empty) = None
     \<longleftrightarrow> last ts + min (300 * second) (2 ^ (length ts - 1) * second) \<le> now"
proof -
  obtain us t where ts: "ts = us @ [t]" using assms by (metis rev_exhaust)
  show ?thesis unfolding ts rate_limit_def record_failed_run by (simp add: not_less)
qed

theorem failed_attempts_backoff_witness:
  "rate_limit (10 * second) ''10.0.0.1''
     (fold (\<lambda>t. record_failed t ''10.0.0.1'') [0, second, 3 * second, 7 * second] Map.empty) \<noteq> None"
  using failed_attempts_backoff [of "[0, second, 3 * second, 7 * second]" "10 * second" "''10.0.0.1''"]
  by (simp add: second_def)

text \<open>Further result: while an address is limited its logins come to nothing: no session, no failure count and
  no right of the client changes, whatever the credentials are; only the answer is sent.\<close>

theorem limited_login_inert:
  assumes "rate_limit (ae_instant env) remote (purge (ae_instant env) (au_attempts s)) = Some secs"
    and "handle_login_inner env db remote fresh act s = (Inr u, s')"
  shows "au_sessions s' = au_sessions s \<and> au_failures s' = au_failures s \<and> au_client s' = au_client s
    \<and> au_attempts s' = purge (ae_instant env) (au_attempts s)
    \<and> (\<exists>a. au_sent s' = au_sent s @ [a] \<and> \<not> rights a \<and> as_rate_limit_delay a = Some (secs mod 2 ^ 32))"
  using assms
  by (auto simp: handle_login_inner_def send_status_def refuse_def rights_def auth_default_def Let_def
      split: sum.splits option.splits)

definition demo_login :: "string \<Rightarrow> string \<Rightarrow> string option \<Rightarrow> login" where
  "demo_login user pwd otp = \<lparr>lo_user = user, lo_pwd = pwd, lo_otp = otp\<rparr>"

definition demo_auth_state :: "session list \<Rightarrow> string option \<Rightarrow> auth_state" where
  "demo_auth_state ss sid =
     \<lparr>au_sessions = ss, au_attempts = Map.empty, au_failures = Map.empty,
      au_client = auth_default\<lparr>as_session := sid\<rparr>, au_sent = []\<rparr>"

theorem limited_login_inert_witness:
  "au_sessions (snd (handle_login_inner demo_auth_env auth_db ''ip'' ''f'' (demo_login ''alice'' ''pw'' (Some ''123''))
     ((demo_auth_state [] None)\<lparr>au_attempts := [''ip'' \<mapsto> \<lparr>la_next_allowed = 5, la_delay = second\<rparr>]\<rparr>))) = []"
proof -
  let ?s = "(demo_auth_state [] None)\<lparr>au_attempts := [''ip'' \<mapsto> \<lparr>la_next_allowed = 5, la_delay = second\<rparr>]\<rparr>"
  have l: "rate_limit (ae_instant demo_auth_env) ''ip'' (purge (ae_instant demo_auth_env) (au_attempts ?s)) = Some 1"
    by (simp add: rate_limit_def purge_def demo_auth_env_def second_def)
  obtain s' where run: "handle_login_inner demo_auth_env auth_db ''ip'' ''f''
      (demo_login ''alice'' ''pw'' (Some ''123'')) ?s = (Inr (), s')"
    using l by (simp add: handle_login_inner_def demo_auth_state_def auth_default_def)
  from limited_login_inert [OF l run] run show ?thesis by (simp add: demo_auth_state_def)
qed

text \<open>
  The branch for wrong credentials would store a fresh one time password if the password were
  right, too; it is only reached when one of them is wrong.
\<close>

lemma keep_otp_dead: "\<not> cr_pwd c \<or> \<not> cr_otp c \<Longrightarrow> keep_otp env remote fresh session act c s = (session, s)"
  by (auto simp: keep_otp_def)

lemma config_creds_result:
  "config_creds us act c =
     (if (lo_user act, lo_pwd act) \<in> set us
      then c\<lparr>cr_found := True, cr_otp := True, cr_pwd := True, cr_new_otp := True\<rparr>
      else if lo_user act \<in> fst ` set us then c\<lparr>cr_found := True\<rparr> else c)"
  by (induction us act c rule: config_creds.induct) auto

text \<open>The status of the session a client shows.\<close>

definition shown_auth :: "auth_env \<Rightarrow> objects_db \<Rightarrow> string \<Rightarrow> auth_state \<Rightarrow> auth_error + auth_status" where
  "shown_auth env db remote s =
     (case as_session (au_client s) of
        Some sid \<Rightarrow> get_auth env db (au_sessions s) (Some remote) (Some sid)
      | None \<Rightarrow> Inr auth_default)"

lemma wrong_creds_client: "\<not> cr_pwd c \<or> \<not> cr_otp c \<Longrightarrow>
    \<not> as_auth (au_client (wrong_creds env remote fresh session act c s))"
  by (simp add: wrong_creds_def keep_otp_dead send_status_def auth_default_def Let_def)

text \<open>C36: a client becomes authorised by a login only with credentials: those of a user of the
  configuration file, or the password of a user's object together with that user's one time
  password or one entered earlier in the session shown; or it showed a session in which both
  were still fresh and named a user of the configuration file.\<close>

theorem login_needs_credentials:
  assumes run: "handle_login_inner env db remote fresh act s = (Inr u, s')"
    and before: "\<not> as_auth (au_client s)" and after: "as_auth (au_client s')"
  shows "(lo_user act, lo_pwd act) \<in> set (ae_users env)
     \<or> (\<exists>content. get_user_content env db (lo_user act) = Inr (Some content)
          \<and> ae_crypt env (lo_pwd act) (uc_password content) = Some (uc_password content)
          \<and> ((\<exists>t. lo_otp act = Some t \<and> t \<noteq> '''' \<and> ae_otp env t (uc_otp_base32 content) = Inr True)
             \<or> (\<exists>a. shown_auth env db remote s = Inr a \<and> as_otp a)))
     \<or> lo_user act \<in> fst ` set (ae_users env)
        \<and> (\<exists>a. shown_auth env db remote s = Inr a \<and> as_pwd a \<and> as_otp a)"
proof -
  obtain a where a: "shown_auth env db remote s = Inr a"
    using run by (auto simp: handle_login_inner_def shown_auth_def Let_def split: sum.splits)
  let ?s1 = "s\<lparr>au_attempts := purge (ae_instant env) (au_attempts s)\<rparr>"
  have unlimited: "rate_limit (ae_instant env) remote (au_attempts ?s1) = None"
    using run before after a
    by (auto simp: handle_login_inner_def shown_auth_def send_status_def Let_def split: option.splits)
  then obtain c where c: "check_creds env db act a = Inr c"
    using run a by (auto simp: handle_login_inner_def shown_auth_def Let_def split: sum.splits)
  have found: "cr_found c" and right: "cr_pwd c" "cr_otp c"
    using run after unlimited a c wrong_creds_client [of c env remote fresh "as_session (au_client s)" act ?s1]
    by (auto simp: handle_login_inner_def shown_auth_def Let_def unknown_user_def auth_default_def
        split: if_splits)
  let ?c = "\<lparr>cr_found = False, cr_pwd = as_pwd a, cr_otp = as_otp a, cr_new_otp = False\<rparr>"
  consider "(lo_user act, lo_pwd act) \<in> set (ae_users env)"
    | "(lo_user act, lo_pwd act) \<notin> set (ae_users env)" "lo_user act \<in> fst ` set (ae_users env)"
    | "lo_user act \<notin> fst ` set (ae_users env)" by blast
  then show ?thesis
  proof cases
    case 2
    then have "c = ?c\<lparr>cr_found := True\<rparr>" using c by (simp add: check_creds_def config_creds_result)
    with right a 2 show ?thesis by auto
  next
    case 3
    then have "(lo_user act, lo_pwd act) \<notin> set (ae_users env)" by force
    with 3 have "config_creds (ae_users env) act ?c = ?c" by (simp add: config_creds_result)
    with c found obtain content where content: "get_user_content env db (lo_user act) = Inr (Some content)"
      "user_creds env content act ?c = Inr c"
      by (auto simp: check_creds_def Let_def split: sum.splits option.splits)
    then have "validate_password env (lo_pwd act) (uc_password content) = Inr True"
      and "(\<exists>t. lo_otp act = Some t \<and> t \<noteq> '''' \<and> validate_otp env t (uc_otp_base32 content) = Inr True) \<or> as_otp a"
      using right by (auto simp: user_creds_def res_bind_Inr split: option.splits if_splits)
    moreover have "validate_otp env t x = Inr True \<longleftrightarrow> ae_otp env t x = Inr True" for t x
      by (cases "ae_otp env t x") (simp_all add: validate_otp_def)
    ultimately show ?thesis using content(1) a by (auto simp: validate_password_iff)
  qed blast
qed

theorem login_needs_credentials_witness:
  "\<exists>s'. handle_login_inner demo_auth_env auth_db ''10.0.0.1'' ''s2'' (demo_login ''alice'' ''pw'' (Some ''123''))
       (demo_auth_state [] None) = (Inr (), s')
     \<and> as_auth (au_client s') \<and> (\<exists>content. get_user_content demo_auth_env auth_db ''alice'' = Inr (Some content)
          \<and> ae_crypt demo_auth_env ''pw'' (uc_password content) = Some (uc_password content))"
proof -
  let ?s' = "snd (handle_login_inner demo_auth_env auth_db ''10.0.0.1'' ''s2'' (demo_login ''alice'' ''pw'' (Some ''123''))
       (demo_auth_state [] None))"
  have "fst (handle_login_inner demo_auth_env auth_db ''10.0.0.1'' ''s2'' (demo_login ''alice'' ''pw'' (Some ''123''))
       (demo_auth_state [] None)) = Inr ()" by code_simp
  then have run: "handle_login_inner demo_auth_env auth_db ''10.0.0.1'' ''s2'' (demo_login ''alice'' ''pw'' (Some ''123''))
       (demo_auth_state [] None) = (Inr (), ?s')" by (simp add: prod_eq_iff)
  moreover have "as_auth (au_client ?s')" by code_simp
  moreover  have "\<not> as_auth (au_client (demo_auth_state [] None))" by (simp add: demo_auth_state_def auth_default_def)
  ultimately show ?thesis
    using login_needs_credentials [of demo_auth_env auth_db "''10.0.0.1''" "''s2''"
        "demo_login ''alice'' ''pw'' (Some ''123'')" "demo_auth_state [] None" "()" ?s']
    by (auto simp: demo_login_def demo_auth_env_def shown_auth_def demo_auth_state_def auth_default_def)
qed

lemma get_auth_session:
  assumes "row \<in> set ss" and "distinct (map se_sid ss)" and "CHR '':'' \<notin> set (se_sid row)"
    and "host = None \<or> host = Some (se_host row)"
    and "se_user row \<noteq> ''docker_client''" and "se_user row \<notin> fst ` set (ae_users env)"
    and "get_user_content env db (se_user row) = Inr (Some content)"
  shows "get_auth env db ss host (Some (se_sid row)) = Inr (user_auth env row content)"
proof -
  have "split_once '':'' (se_sid row) = None" using assms(3) by (auto simp: split_once_None_iff)
  moreover have "find_session (se_sid row) ss = Some row"
    using find_distinct [OF assms(2,1)] by (simp add: find_session_def)
  ultimately show ?thesis using assms(4-7) by (auto simp: get_auth_def session_auth_def)
qed

text \<open>C37: a login does not check whose session is shown. With the session of one user, whose one
  time password is still fresh, the password of any other user authorises the client as the
  user of the session.\<close>

theorem session_user_not_checked:
  assumes row: "row \<in> set (au_sessions s)" and dist: "distinct (map se_sid (au_sessions s))"
    and sid: "CHR '':'' \<notin> set (se_sid row)" and shown: "as_session (au_client s) = Some (se_sid row)"
    and user: "se_user row \<noteq> ''docker_client''" "se_user row \<notin> fst ` set (ae_users env)"
      "get_user_content env db (se_user row) = Inr (Some content)" "0 < pwd_life content"
    and otp: "unexpired (ae_now env) (se_otp row) (max (64 * 24 * 60 * 60) (pwd_life content))"
    and other: "lo_user act \<notin> fst ` set (ae_users env)"
      "get_user_content env db (lo_user act) = Inr (Some content')"
      "validate_password env (lo_pwd act) (uc_password content') = Inr True" "lo_otp act = None"
    and free: "rate_limit (ae_instant env) (se_host row) (purge (ae_instant env) (au_attempts s)) = None"
  shows "\<exists>s'. handle_login_inner env db (se_host row) fresh act s = (Inr (), s')
    \<and> as_auth (au_client s') \<and> as_user (au_client s') = Some (se_user row)"
proof -
  let ?h = "se_host row" and ?c = "\<lparr>cr_found = False, cr_pwd = as_pwd (user_auth env row content),
      cr_otp = as_otp (user_auth env row content), cr_new_otp = False\<rparr>"
  let ?s1 = "s\<lparr>au_attempts := purge (ae_instant env) (au_attempts s)\<rparr>"
  have before: "get_auth env db (au_sessions s) (Some ?h) (Some (se_sid row)) = Inr (user_auth env row content)"
    by (rule get_auth_session [OF row dist sid _ user(1,2,3)]) simp
  have "(lo_user act, lo_pwd act) \<notin> set (ae_users env)" using other(1) by force
  then have "config_creds (ae_users env) act ?c = ?c" using other(1) by (simp add: config_creds_result)
  then have creds: "check_creds env db act (user_auth env row content)
      = Inr (?c\<lparr>cr_pwd := True, cr_found := True\<rparr>)"
    using other(2-4) by (simp add: check_creds_def user_creds_def Let_def)
  have o: "as_otp (user_auth env row content)" using otp by (simp add: user_auth_fields)
  let ?row = "row\<lparr>se_pwd := Some (ae_now env)\<rparr>"
  let ?ss = "map (\<lambda>r. if se_sid r = se_sid row then r\<lparr>se_pwd := Some (ae_now env)\<rparr> else r) (au_sessions s)"
  have "map se_sid ?ss = map se_sid (au_sessions s)" by simp
  then have "distinct (map se_sid ?ss)" using dist by metis
  moreover have "?row \<in> set ?ss" using row by force
  ultimately have "get_auth env db ?ss (Some ?h) (Some (se_sid ?row)) = Inr (user_auth env ?row content)"
    using sid user by (intro get_auth_session) simp_all
  moreover have "as_auth (user_auth env ?row content)" "as_user (user_auth env ?row content) = Some (se_user row)"
    using otp user(4) by (simp_all add: user_auth_fields, simp add: unexpired_def)
  ultimately have "\<exists>s'. right_creds env db ?h fresh (Some (se_sid row)) act (?c\<lparr>cr_pwd := True, cr_found := True\<rparr>) ?s1
      = (Inr (), s') \<and> as_auth (au_client s') \<and> as_user (au_client s') = Some (se_user row)"
    by (simp add: right_creds_def on_session_def send_status_def Let_def)
  then show ?thesis
    using shown before creds free o by (simp add: handle_login_inner_def Let_def)
qed

theorem session_user_not_checked_witness:
  "\<exists>s'. handle_login_inner demo_auth_env auth_db ''10.0.0.1'' ''s2'' (demo_login ''bob'' ''pw'' None)
       (demo_auth_state [demo_session None] (Some ''s1'')) = (Inr (), s')
     \<and> as_auth (au_client s') \<and> as_user (au_client s') = Some ''alice''"
proof -
  have "\<exists>s'. handle_login_inner demo_auth_env auth_db (se_host (demo_session None)) ''s2'' (demo_login ''bob'' ''pw'' None)
       (demo_auth_state [demo_session None] (Some ''s1'')) = (Inr (), s')
     \<and> as_auth (au_client s') \<and> as_user (au_client s') = Some (se_user (demo_session None))"
    by (rule session_user_not_checked [of _ _ _ _ demo_user _ demo_user])
      (simp_all add: demo_auth_state_def demo_session_def demo_login_def alice bob auth_default_def
        validate_password_iff, simp_all add: demo_auth_env_def demo_user_def pwd_life_def unexpired_def
        rate_limit_def purge_def)
  then show ?thesis by (simp add: demo_session_def)
qed

lemma count_otp_failure_on:
  assumes "cr_pwd c" "\<not> cr_otp c" "otp_submitted act"
  shows "au_failures (wrong_creds env remote fresh (Some sid) act c s) sid
      = (if opt_or (au_failures s sid) 0 + 1 \<ge> 5 then None else Some (opt_or (au_failures s sid) 0 + 1))"
    and "au_sessions (wrong_creds env remote fresh (Some sid) act c s)
      = (if opt_or (au_failures s sid) 0 + 1 \<ge> 5
         then map (\<lambda>row. if se_sid row = sid then row\<lparr>se_pwd := None\<rparr> else row) (au_sessions s)
         else au_sessions s)"
  using assms
  by (simp_all add: wrong_creds_def keep_otp_dead count_otp_failure_def send_status_def on_session_def Let_def)

text \<open>Further result: the limit on one time passwords. Of wrong one time passwords given with the right
  password on a session, the fifth takes the password of the session away, not one before it,
  and the count starts over.\<close>

theorem otp_limit:
  assumes "cr_pwd c" and "\<not> cr_otp c" and "otp_submitted act" and "au_failures s sid = None"
  shows "au_sessions ((wrong_creds env remote fresh (Some sid) act c ^^ 4) s) = au_sessions s
    \<and> (\<forall>row \<in> set (au_sessions ((wrong_creds env remote fresh (Some sid) act c ^^ 5) s)).
          se_sid row = sid \<longrightarrow> se_pwd row = None)
    \<and> au_failures ((wrong_creds env remote fresh (Some sid) act c ^^ 5) s) sid = None"
proof -
  let ?w = "wrong_creds env remote fresh (Some sid) act c"
  note step = count_otp_failure_on [OF assms(1-3), of env remote fresh]
  have upto: "opt_or (au_failures ((?w ^^ k) s) sid) 0 = k \<and> au_sessions ((?w ^^ k) s) = au_sessions s"
    if "k \<le> 4" for k
    using that
  proof (induction k)
    case 0
    then show ?case using assms(4) by simp
  next
    case (Suc k)
    then show ?case by (simp add: step)
  qed
  have five: "(?w ^^ 5) s = ?w ((?w ^^ 4) s)"
    using funpow.simps(2) [of 4 ?w] by (simp only: o_apply numeral_nat(3) flip: Suc_numeral)
  define s4 where "s4 = (?w ^^ 4) s"
  have s4: "opt_or (au_failures s4 sid) 0 = 4" "au_sessions s4 = au_sessions s"
    using upto [of 4] unfolding s4_def by simp_all
  have none: "au_failures ((?w ^^ 5) s) sid = None"
    and sessions: "au_sessions ((?w ^^ 5) s)
      = map (\<lambda>row. if se_sid row = sid then row\<lparr>se_pwd := None\<rparr> else row) (au_sessions s)"
    unfolding five s4_def [symmetric] step by (simp_all add: s4)
  have "au_sessions ((?w ^^ 4) s) = au_sessions s" using s4(2) unfolding s4_def .
  moreover have "\<forall>row \<in> set (au_sessions ((?w ^^ 5) s)). se_sid row = sid \<longrightarrow> se_pwd row = None"
  proof (intro ballI impI)
    fix row :: session assume "row \<in> set (au_sessions ((?w ^^ 5) s))" and sid: "se_sid row = sid"
    then obtain r where "row = (if se_sid r = sid then r\<lparr>se_pwd := None\<rparr> else r)"
      unfolding sessions set_map by (elim imageE) (rule that)
    with sid show "se_pwd row = None" by (cases "se_sid r = sid") simp_all
  qed
  ultimately show ?thesis using none by blast
qed

theorem otp_limit_witness:
  "au_failures ((wrong_creds demo_auth_env ''ip'' ''f'' (Some ''s1'') (demo_login ''alice'' ''pw'' (Some ''0''))
      \<lparr>cr_found = True, cr_pwd = True, cr_otp = False, cr_new_otp = True\<rparr> ^^ 5)
      (demo_auth_state [demo_session (Some 1)] (Some ''s1''))) ''s1'' = None"
  using otp_limit [of "\<lparr>cr_found = True, cr_pwd = True, cr_otp = False, cr_new_otp = True\<rparr>"
      "demo_login ''alice'' ''pw'' (Some ''0'')" "demo_auth_state [demo_session (Some 1)] (Some ''s1'')" "''s1''"
      demo_auth_env "''ip''" "''f''"]
  by (simp add: demo_login_def otp_submitted_def demo_auth_state_def)

end
