(* ===== verification/Finite_Float.thy ===== *)
theory Finite_Float
  imports Json
begin

text \<open>
  Finite floats (\<open>src/finite_float.rs\<close>), the type of every time and number sent to clients:
  conversions refuse the infinities and NaN. The type is a wrapper of any float, as in the code;
  that it holds a number is an invariant of the conversions (\<open>finite_ok\<close>), not of the type. The
  order of the type is modelled as it is written, each of \<open>partial_cmp\<close> and \<open>cmp\<close> in terms of the
  other, so as a partial function.
\<close>

section \<open>Conversions\<close>

datatype finite_f64 = FiniteF64 f64

fun deref :: "finite_f64 \<Rightarrow> f64" where
  "deref (FiniteF64 v) = v"

datatype not_finite_float = NotFiniteFloat

definition finite_try_from :: "f64 \<Rightarrow> not_finite_float + finite_f64" where
  "finite_try_from value = (if f64_is_finite value then Inr (FiniteF64 value) else Inl NotFiniteFloat)"

definition finite_default :: finite_f64 where
  "finite_default = FiniteF64 (F64_Fin 0)"

definition f64_to_finite :: "f64 \<Rightarrow> not_finite_float + finite_f64" where
  "f64_to_finite = finite_try_from"

definition opt_to_finite :: "f64 option \<Rightarrow> not_finite_float + finite_f64 option" where
  "opt_to_finite v = (case v of Some v \<Rightarrow> map_sum id Some (finite_try_from v) | None \<Rightarrow> Inr None)"

text \<open>Reading a number of a JSON document (\<open>f64::deserialize\<close> is a parameter).\<close>

definition finite_deserialize :: "(json \<Rightarrow> string + f64) \<Rightarrow> json \<Rightarrow> string + finite_f64" where
  "finite_deserialize de j =
     res_bind (de j) (\<lambda>v. if f64_is_finite v then Inr (FiniteF64 v) else Inl ''not finite'')"

definition finite_from_str :: "(string \<Rightarrow> f64 option) \<Rightarrow> string \<Rightarrow> not_finite_float + finite_f64" where
  "finite_from_str parse s = (case parse s of None \<Rightarrow> Inl NotFiniteFloat | Some v \<Rightarrow> finite_try_from v)"

definition finite_serialize :: "finite_f64 \<Rightarrow> json" where
  "finite_serialize v = JNumber (F64 (deref v))"

text \<open>The invariant: what is held is a number.\<close>

definition finite_ok :: "finite_f64 \<Rightarrow> bool" where
  "finite_ok f = (deref f \<notin> {F64_NegInf, F64_PosInf, F64_NaN})"

lemma is_finite_iff: "f64_is_finite v \<longleftrightarrow> v \<notin> {F64_NegInf, F64_PosInf, F64_NaN}"
  by (cases v) simp_all

lemma deref_eq: "deref f = v \<longleftrightarrow> f = FiniteF64 v"
  by (cases f) auto

lemma finite_try_from_iff: "finite_try_from v = Inr f \<longleftrightarrow> deref f = v \<and> finite_ok f"
  by (auto simp: finite_try_from_def finite_ok_def is_finite_iff deref_eq)

lemma finite_deserialize_iff:
  "finite_deserialize de j = Inr f \<longleftrightarrow> de j = Inr (deref f) \<and> finite_ok f"
  by (cases f; cases "de j") (auto simp: finite_deserialize_def finite_ok_def is_finite_iff)

text \<open>C40: a finite float holds a number, and exactly what it was made from: each of the conversions
  (from a float, from an optional float, from JSON, from text, and the default) gives a finite
  float just when what it starts from is there and is neither infinite nor NaN, and then that very
  value; an absent value stays absent; and writing a value and reading it again gives it back, for
  any reader of floats that reads what is written.\<close>

theorem finite_conversions:
  "(finite_try_from v = Inr f \<longleftrightarrow> deref f = v \<and> finite_ok f)
   \<and> (f64_to_finite v = Inr f \<longleftrightarrow> deref f = v \<and> finite_ok f)
   \<and> (opt_to_finite w = Inr g \<longleftrightarrow> map_option deref g = w \<and> list_all finite_ok (case g of None \<Rightarrow> [] | Some x \<Rightarrow> [x]))
   \<and> (finite_deserialize de j = Inr f \<longleftrightarrow> de j = Inr (deref f) \<and> finite_ok f)
   \<and> (finite_from_str parse s = Inr f \<longleftrightarrow> parse s = Some (deref f) \<and> finite_ok f)
   \<and> finite_ok finite_default \<and> deref finite_default = F64_Fin 0
   \<and> (if finite_ok f
      then finite_deserialize (\<lambda>j. case j of JNumber (F64 x) \<Rightarrow> Inr x | _ \<Rightarrow> Inl e) (finite_serialize f) = Inr f
      else finite_try_from (deref f) = Inl NotFiniteFloat)"
proof -
  have opt: "opt_to_finite w = Inr g \<longleftrightarrow> map_option deref g = w \<and> list_all finite_ok (case g of None \<Rightarrow> [] | Some x \<Rightarrow> [x])"
  proof (cases w)
    case None
    then show ?thesis by (cases g) (auto simp: opt_to_finite_def)
  next
    case (Some x)
    have "opt_to_finite w = Inr g \<longleftrightarrow> (\<exists>y. g = Some y \<and> finite_try_from x = Inr y)"
      unfolding Some by (cases "finite_try_from x") (auto simp: opt_to_finite_def)
    then show ?thesis unfolding finite_try_from_iff Some by (cases g) auto
  qed
  have str: "finite_from_str parse s = Inr f \<longleftrightarrow> parse s = Some (deref f) \<and> finite_ok f"
    by (cases "parse s") (auto simp: finite_from_str_def finite_try_from_iff)
  have "finite_ok finite_default \<and> deref finite_default = F64_Fin 0"
    by (simp add: finite_ok_def finite_default_def)
  moreover have "if finite_ok f
      then finite_deserialize (\<lambda>j. case j of JNumber (F64 x) \<Rightarrow> Inr x | _ \<Rightarrow> Inl e) (finite_serialize f) = Inr f
      else finite_try_from (deref f) = Inl NotFiniteFloat"
    by (cases f) (auto simp: finite_deserialize_iff finite_serialize_def finite_ok_def finite_try_from_def)
  ultimately show ?thesis
    using opt str by (simp only: f64_to_finite_def finite_try_from_iff finite_deserialize_iff)
qed

section \<open>The order\<close>

text \<open>
  \<open>partial_cmp\<close> is \<open>Some(self.cmp(other))\<close> and \<open>cmp\<close> is \<open>self.partial_cmp(other).unwrap()\<close>. The
  result is None when the call does not return; \<open>unwrap\<close> of an absent order would panic.
\<close>

datatype 'a outcome = Returns 'a | Panics

partial_function (option) finite_cmp :: "bool \<Rightarrow> finite_f64 \<Rightarrow> finite_f64 \<Rightarrow> ordering option outcome option" where
  "finite_cmp partial a b =
     (if partial then Option.bind (finite_cmp False a b) Some
      else Option.bind (finite_cmp True a b)
             (\<lambda>r. case r of
                Panics \<Rightarrow> Some Panics
              | Returns None \<Rightarrow> Some Panics
              | Returns (Some c) \<Rightarrow> Some (Returns (Some c))))"

text \<open>Comparing two finite floats never returns: the two halves of the order call each other.\<close>

theorem finite_cmp_diverges: "finite_cmp partial a b = None"
proof -
  have "finite_cmp partial a b = Some r \<Longrightarrow> False" for r
    by (erule finite_cmp.raw_induct [where P = "\<lambda>_ _ _ _. False", rotated])
      (auto split: if_splits Option.bind_splits)
  then show ?thesis by (cases "finite_cmp partial a b") auto
qed

end
