(* ===== verification/Messages.thy ===== *)
theory Messages
  imports Finite_Float
begin

text \<open>
  The messages of the hosts (\<open>src/bin/server/msg.rs\<close>): storing one and telling the clients, and
  listing the recent ones. Texts are cut to 1000 bytes by \<open>String::truncate\<close>, which panics when
  the cut is inside a character; the result is None then, the table keeps what was written.
\<close>

section \<open>Texts\<close>

definition continuation_byte :: "char \<Rightarrow> bool" where
  "continuation_byte c = ((of_char c :: nat) div 64 = 2)"

definition truncate_str :: "nat \<Rightarrow> string \<Rightarrow> string option" where
  "truncate_str n s =
     (if length s \<le> n then Some s
      else if continuation_byte (s ! n) then None
      else Some (take n s))"

section \<open>The table\<close>

record msg_row =
  m_id :: int
  m_host :: "int option"
  m_type :: "string option"
  m_subtype :: "string option"
  m_message :: "string option"
  m_url :: "string option"
  m_time :: "f64 option"
  m_dismissed :: bool
  m_dismissed_time :: "f64 option"

record imessage =
  im_id :: int
  im_host :: "int option"
  im_type :: string
  im_subtype :: "string option"
  im_message :: string
  im_full_message :: bool
  im_url :: "string option"
  im_time :: finite_f64
  im_dismissed :: bool

text \<open>\<open>WHERE NOT dismissed OR dismissedTime > ?\<close>, where a missing time is not greater.\<close>

definition recent :: "rat \<Rightarrow> msg_row \<Rightarrow> bool" where
  "recent now row =
     (\<not> m_dismissed row
      \<or> (case m_dismissed_time row of
           None \<Rightarrow> False
         | Some t \<Rightarrow> f64_partial_cmp t (F64_Fin (now - 60 * 60 * 24 * 2)) = Some Greater))"

definition row_time :: "f64 option \<Rightarrow> finite_f64" where
  "row_time t = (case opt_to_finite t of Inr (Some v) \<Rightarrow> v | _ \<Rightarrow> finite_default)"

definition row_message :: "msg_row \<Rightarrow> imessage option" where
  "row_message row =
     (let message = opt_or (m_message row) ''''
      in map_option (\<lambda>m.
           \<lparr>im_id = m_id row, im_host = m_host row, im_type = opt_or (m_type row) ''missing'',
            im_subtype = m_subtype row, im_message = m, im_full_message = (length message < 1000),
            im_url = m_url row, im_time = row_time (m_time row), im_dismissed = m_dismissed row\<rparr>)
         (truncate_str 1000 message))"

fun row_messages :: "msg_row list \<Rightarrow> imessage list option" where
  "row_messages [] = Some []"
| "row_messages (row # rows) =
     (case row_message row of
        None \<Rightarrow> None
      | Some m \<Rightarrow> map_option (\<lambda>ms. m # ms) (row_messages rows))"

definition get_resent :: "rat \<Rightarrow> msg_row list \<Rightarrow> imessage list option" where
  "get_resent now rows = row_messages (filter (recent now) rows)"

definition get_full_text :: "int \<Rightarrow> msg_row list \<Rightarrow> string option" where
  "get_full_text i rows = Option.bind (List.find (\<lambda>row. m_id row = i) rows) m_message"

definition get_count :: "msg_row list \<Rightarrow> nat" where
  "get_count rows = length (filter (\<lambda>row. \<not> m_dismissed row \<and> m_message row \<noteq> None) rows)"

definition set_dismissed :: "int list \<Rightarrow> bool \<Rightarrow> rat \<Rightarrow> msg_row list \<Rightarrow> msg_row list" where
  "set_dismissed ids dismissed now rows =
     map (\<lambda>row. if m_id row \<in> set ids
                then row\<lparr>m_dismissed := dismissed,
                       m_dismissed_time := (if dismissed then Some (F64_Fin now) else None)\<rparr>
                else row) rows"

section \<open>Emitting a message\<close>

record msg_state =
  mg_rows :: "msg_row list"
  mg_sent :: "imessage list"

definition last_id :: "msg_row list \<Rightarrow> int" where
  "last_id rows = fold max (map m_id rows) 0"

definition emit :: "rat \<Rightarrow> int \<Rightarrow> string \<Rightarrow> string \<Rightarrow> msg_state \<Rightarrow> unit option \<times> msg_state" where
  "emit now host ty message st =
     (let i = last_id (mg_rows st) + 1;
          row = \<lparr>m_id = i, m_host = Some host, m_type = Some ty, m_subtype = None,
                 m_message = Some message, m_url = None, m_time = Some (F64_Fin now),
                 m_dismissed = False, m_dismissed_time = None\<rparr>;
          st1 = st\<lparr>mg_rows := mg_rows st @ [row]\<rparr>
      in case truncate_str 1000 message of
           None \<Rightarrow> (None, st1)
         | Some m \<Rightarrow>
             (Some (), st1\<lparr>mg_sent := mg_sent st @
                [\<lparr>im_id = i, im_host = Some host, im_type = ty, im_subtype = None, im_message = m,
                  im_full_message = (length message < 1000), im_url = None,
                  im_time = row_time (Some (F64_Fin now)), im_dismissed = False\<rparr>]\<rparr>))"

section \<open>Properties\<close>

lemma truncate_str_prefix: "truncate_str n s = Some t \<Longrightarrow> t = take n s"
  by (auto simp: truncate_str_def split: if_splits)

lemma row_messages_Some:
  "row_messages rows = Some ms \<Longrightarrow> list_all2 (\<lambda>row m. row_message row = Some m) rows ms"
  by (induction rows arbitrary: ms) (auto split: option.splits)

lemma row_messages_None: "row_messages rows = None \<longleftrightarrow> (\<exists>row \<in> set rows. row_message row = None)"
  by (induction rows) (auto split: option.splits)

text \<open>Further result: the list of recent messages. When it is made, it has one message for each row that is
  not dismissed or was dismissed within two days, in their order, with the first 1000 bytes of
  the text, and a message marked as full has the whole text.\<close>

theorem get_resent_messages:
  assumes "get_resent now rows = Some ms"
  shows "map im_id ms = map m_id (filter (recent now) rows)
    \<and> list_all2 (\<lambda>row m. im_message m = take 1000 (opt_or (m_message row) '''')
         \<and> (im_full_message m \<longrightarrow> im_message m = opt_or (m_message row) ''''))
       (filter (recent now) rows) ms"
proof -
  have one: "im_id m = m_id row \<and> im_message m = take 1000 (opt_or (m_message row) '''')
      \<and> (im_full_message m \<longrightarrow> im_message m = opt_or (m_message row) '''')"
    if "row_message row = Some m" for row m
    using that by (auto simp: row_message_def Let_def dest!: truncate_str_prefix)
  have all: "list_all2 (\<lambda>row m. row_message row = Some m) (filter (recent now) rows) ms"
    using assms row_messages_Some unfolding get_resent_def by blast
  then have "list_all2 (\<lambda>row m. im_message m = take 1000 (opt_or (m_message row) '''')
         \<and> (im_full_message m \<longrightarrow> im_message m = opt_or (m_message row) ''''))
       (filter (recent now) rows) ms"
    by (rule list_all2_mono) (use one in blast)
  moreover from all have "map im_id ms = map m_id (filter (recent now) rows)"
    by (induction rule: list_all2_induct) (simp_all add: one)
  ultimately show ?thesis by blast
qed

theorem get_resent_messages_witness:
  "\<exists>ms. get_resent 0 [\<lparr>m_id = 3, m_host = None, m_type = None, m_subtype = None,
       m_message = Some ''hi'', m_url = None, m_time = None, m_dismissed = False, m_dismissed_time = None\<rparr>] = Some ms
     \<and> map im_id ms = [3]"
proof -
  let ?rows = "[\<lparr>m_id = 3, m_host = None, m_type = None, m_subtype = None,
       m_message = Some ''hi'', m_url = None, m_time = None, m_dismissed = False, m_dismissed_time = None\<rparr>]"
  obtain ms where "get_resent 0 ?rows = Some ms"
    by (simp add: get_resent_def recent_def row_message_def truncate_str_def)
  from get_resent_messages [OF this] this show ?thesis by (simp add: recent_def)
qed

text \<open>C39: a message that would be cut inside a character makes the server fail for everybody. Its
  row is written before the cut panics, and from then on, as long as the row is there and not
  dismissed, listing the recent messages, which every client that connects asks for, panics.\<close>

theorem emit_poisons:
  assumes "1000 < length message" and "continuation_byte (message ! 1000)"
  shows "\<exists>st'. emit now host ty message st = (None, st') \<and> mg_sent st' = mg_sent st
    \<and> (\<exists>row \<in> set (mg_rows st'). m_message row = Some message \<and> \<not> m_dismissed row
        \<and> (\<forall>later rows. row \<in> set rows \<longrightarrow> get_resent later rows = None))"
proof -
  let ?row = "\<lparr>m_id = last_id (mg_rows st) + 1, m_host = Some host, m_type = Some ty,
      m_subtype = None, m_message = Some message, m_url = None, m_time = Some (F64_Fin now),
      m_dismissed = False, m_dismissed_time = None\<rparr>"
  have cut: "truncate_str 1000 message = None" using assms by (simp add: truncate_str_def)
  then have "emit now host ty message st = (None, st\<lparr>mg_rows := mg_rows st @ [?row]\<rparr>)"
    by (simp add: emit_def Let_def)
  moreover have "get_resent later rows = None" if "?row \<in> set rows" for later rows
  proof -
    have "row_message ?row = None" "recent later ?row" using cut by (simp_all add: row_message_def recent_def)
    with that show ?thesis unfolding get_resent_def row_messages_None by auto
  qed
  ultimately show ?thesis
    by (intro exI [of _ "st\<lparr>mg_rows := mg_rows st @ [?row]\<rparr>"] conjI bexI [of _ ?row]) simp_all
qed

definition long_message :: string where
  "long_message = replicate 999 (CHR ''a'') @ [CHR 0xC3, CHR 0xA6]"

theorem emit_poisons_witness:
  "\<exists>st'. emit 0 5 ''t'' long_message \<lparr>mg_rows = [], mg_sent = []\<rparr> = (None, st')
     \<and> (\<forall>later. get_resent later (mg_rows st') = None)"
proof -
  have "1000 < length long_message" "continuation_byte (long_message ! 1000)"
    by (simp_all add: long_message_def nth_append continuation_byte_def)
  from emit_poisons [OF this, of 0 5 "''t''" "\<lparr>mg_rows = [], mg_sent = []\<rparr>"] show ?thesis by blast
qed

end
