(* ===== verification/Docker_Uploads.thy ===== *)
theory Docker_Uploads
  imports Auth
begin

text \<open>
  The uploads of the docker registry (\<open>src/bin/server/docker_web.rs\<close>, with the headers of
  \<open>src/bin/server/web_util.rs\<close>): who may use the registry, the state of a resumable upload, and
  the handlers that begin, continue, finish and reap one. A handler that reads a body holds the
  lock of its upload from its first to its last step; its steps are separate operations here,
  so that the requests of several clients interleave as they do in the server. The hash
  function, base64 and the outcome of file operations are parameters.
\<close>

section \<open>Who may pull and push\<close>

datatype http_status =
    UNAUTHORIZED | FORBIDDEN | NOT_FOUND | BAD_REQUEST | SERVICE_UNAVAILABLE | REQUEST_TIMEOUT
  | INTERNAL_SERVER_ERROR

datatype registry_error_code =
    BlobUnknown | BlobUploadInvalid | BlobUploadUnknown | DigestInvalid | ManifestBlobUnknown
  | ManifestInvalid | ManifestUnknown | SizeInvalid | TagInvalid | Unauthorized | Denied
  | Unsupported | Unknown

datatype api_error = ApiError http_status registry_error_code

text \<open>
  The \<open>Authorization\<close> header is user and session id in base64; \<open>decode\<close> stands for the decoding
  of base64 and UTF-8.
\<close>

definition basic_credentials :: "(string \<Rightarrow> string option) \<Rightarrow> string \<Rightarrow> (string \<times> string) option" where
  "basic_credentials decode header =
     Option.bind
       (case strip_prefix ''Basic '' header of
          Some v \<Rightarrow> Some v
        | None \<Rightarrow> (case strip_prefix ''token '' header of
            Some v \<Rightarrow> Some v
          | None \<Rightarrow> strip_prefix ''Bearer '' header))
       (\<lambda>v. Option.bind (decode v) (split_once '':''))"

definition check_docker_path ::
  "(string \<Rightarrow> string option) \<Rightarrow> auth_env \<Rightarrow> objects_db \<Rightarrow> session list \<Rightarrow> string option
    \<Rightarrow> (auth_status \<Rightarrow> 'a option) \<Rightarrow> api_error + 'a" where
  "check_docker_path decode env db sessions header cb =
     (case header of
        None \<Rightarrow> Inl (ApiError UNAUTHORIZED Unauthorized)
      | Some h \<Rightarrow>
          (case Option.bind (basic_credentials decode h)
                  (\<lambda>(user, sid). case get_auth env db sessions None (Some sid) of
                     Inl _ \<Rightarrow> None
                   | Inr a \<Rightarrow> if as_user a = Some user then cb a else None) of
             Some v \<Rightarrow> Inr v
           | None \<Rightarrow> Inl (ApiError FORBIDDEN Denied)))"

definition docker_auth_pull :: "auth_status \<Rightarrow> unit option" where
  "docker_auth_pull a = (if as_docker_pull a then Some () else None)"

definition docker_auth_push :: "auth_status \<Rightarrow> string option" where
  "docker_auth_push a =
     (if as_docker_push a then (if as_user a = Some ''docker_client'' then None else as_user a) else None)"

section \<open>Headers\<close>

definition alnum :: "char \<Rightarrow> bool" where
  "alnum c =
     (let n = (of_char c :: nat)
      in (48 \<le> n \<and> n \<le> 57) \<or> (65 \<le> n \<and> n \<le> 90) \<or> (97 \<le> n \<and> n \<le> 122))"

definition is_docker_hash :: "string \<Rightarrow> bool" where
  "is_docker_hash v = (case strip_prefix ''sha256:'' v of None \<Rightarrow> False | Some t \<Rightarrow> list_all alnum t)"

text \<open>\<open>str::parse::<u64>\<close>.\<close>

definition parse_u64 :: "string \<Rightarrow> nat option" where
  "parse_u64 s =
     (case parse_unsigned (case s of c # cs \<Rightarrow> if c = CHR ''+'' then cs else s | [] \<Rightarrow> s) of
        None \<Rightarrow> None
      | Some v \<Rightarrow> if v < 2 ^ 64 then Some (nat v) else None)"

text \<open>\<open>Content-Range\<close>; \<open>None\<close> is a header that is rejected.\<close>

definition content_range :: "string \<Rightarrow> (nat \<times> nat) option" where
  "content_range v =
     Option.bind (split_once ''-'' v) (\<lambda>(s, e).
       Option.bind (parse_u64 s) (\<lambda>s. Option.bind (parse_u64 e) (\<lambda>e.
         if e < s then None else Some (s, e))))"

section \<open>The state of an upload\<close>

type_synonym uuid = nat

text \<open>\<open>ui_hashed\<close> are the bytes fed to the running hash; the file itself is in \<open>rg_tmp\<close>.\<close>

record upload_inner =
  ui_count :: nat
  ui_hashed :: string

text \<open>
  Who holds the lock: nobody, a \<open>PATCH\<close> that started at a size and expects a number of bytes,
  or a \<open>PUT\<close>, which has moved the inner state into its own frame.
\<close>

datatype holder =
    Free
  | Patching nat "nat option"
  | Putting nat "nat option" string upload_inner

record upload =
  up_shadow_range :: nat
  up_last_activity :: nat
  up_inner :: "upload_inner option"
  up_holder :: holder

record registry =
  rg_uploads :: "uuid \<rightharpoonup> upload"
  rg_tmp :: "uuid \<rightharpoonup> string"
  rg_blobs :: "string \<rightharpoonup> string"
  rg_read_only :: bool

definition set_upload :: "uuid \<Rightarrow> upload \<Rightarrow> registry \<Rightarrow> registry" where
  "set_upload u up rg = rg\<lparr>rg_uploads := (rg_uploads rg)(u \<mapsto> up)\<rparr>"

definition drop_upload :: "uuid \<Rightarrow> registry \<Rightarrow> registry" where
  "drop_upload u rg = rg\<lparr>rg_uploads := (rg_uploads rg)(u := None)\<rparr>"

section \<open>Beginning a request\<close>

definition locked_inner :: "uuid \<Rightarrow> registry \<Rightarrow> api_error + upload \<times> upload_inner" where
  "locked_inner u rg =
     (case rg_uploads rg u of
        None \<Rightarrow> Inl (ApiError NOT_FOUND BlobUploadUnknown)
      | Some up \<Rightarrow>
          if up_holder up \<noteq> Free then Inl (ApiError BAD_REQUEST Unknown)
          else (case up_inner up of
                  None \<Rightarrow> Inl (ApiError BAD_REQUEST Unknown)
                | Some i \<Rightarrow> Inr (up, i)))"

definition expected_size ::
  "http_status \<Rightarrow> nat \<Rightarrow> nat option \<Rightarrow> (nat \<times> nat) option \<Rightarrow> api_error + nat option" where
  "expected_size st start_size content_length crange =
     (case crange of
        None \<Rightarrow> Inr content_length
      | Some (s, e) \<Rightarrow>
          if s \<noteq> start_size then Inl (ApiError st SizeInvalid)
          else (case content_length of
                  None \<Rightarrow> Inr (Some (e - s))
                | Some n \<Rightarrow> if e - s \<noteq> n then Inl (ApiError st SizeInvalid) else Inr (Some n)))"

definition patch_begin ::
  "uuid \<Rightarrow> nat option \<Rightarrow> (nat \<times> nat) option \<Rightarrow> registry \<Rightarrow> api_error option \<times> registry" where
  "patch_begin u content_length crange rg =
     (if rg_read_only rg then (Some (ApiError SERVICE_UNAVAILABLE Unsupported), rg)
      else case locked_inner u rg of
        Inl e \<Rightarrow> (Some e, rg)
      | Inr (up, i) \<Rightarrow>
          (case expected_size NOT_FOUND (ui_count i) content_length crange of
             Inl e \<Rightarrow> (Some e, rg)
           | Inr n \<Rightarrow> (None, set_upload u (up\<lparr>up_holder := Patching (ui_count i) n\<rparr>) rg)))"

text \<open>The inner state is taken before the range is checked, and is lost when the check fails.\<close>

definition put_begin ::
  "uuid \<Rightarrow> string \<Rightarrow> nat option \<Rightarrow> (nat \<times> nat) option \<Rightarrow> registry \<Rightarrow> api_error option \<times> registry" where
  "put_begin u digest content_length crange rg =
     (case locked_inner u rg of
        Inl e \<Rightarrow> (Some e, rg)
      | Inr (up, i) \<Rightarrow>
          (let up = up\<lparr>up_inner := None\<rparr>
           in case expected_size BAD_REQUEST (ui_count i) content_length crange of
                Inl e \<Rightarrow> (Some e, set_upload u up rg)
              | Inr n \<Rightarrow> (None, set_upload u (up\<lparr>up_holder := Putting (ui_count i) n digest i\<rparr>) rg)))"

section \<open>The body of a request\<close>

text \<open>
  What the next step of reading a body brings: a frame that is written, a frame of which only
  the first bytes reach the file before the write fails, an error of the stream, or a pause
  that is too long.
\<close>

datatype body_event = Frame string | WriteFailed string nat | ReadError | IdleTimeout

definition event_error :: "body_event \<Rightarrow> api_error option" where
  "event_error ev =
     (case ev of
        Frame _ \<Rightarrow> None
      | IdleTimeout \<Rightarrow> Some (ApiError REQUEST_TIMEOUT BlobUploadInvalid)
      | _ \<Rightarrow> Some (ApiError INTERNAL_SERVER_ERROR Unknown))"

definition written :: "body_event \<Rightarrow> string" where
  "written ev = (case ev of Frame b \<Rightarrow> b | WriteFailed b k \<Rightarrow> take k b | _ \<Rightarrow> [])"

definition append_tmp :: "uuid \<Rightarrow> string \<Rightarrow> registry \<Rightarrow> registry" where
  "append_tmp u b rg = rg\<lparr>rg_tmp := (rg_tmp rg)(u := map_option (\<lambda>s. s @ b) (rg_tmp rg u))\<rparr>"

definition grow :: "string \<Rightarrow> upload_inner \<Rightarrow> upload_inner" where
  "grow b i = \<lparr>ui_count = ui_count i + length b, ui_hashed = ui_hashed i @ b\<rparr>"

fun hold_frame :: "string \<Rightarrow> upload \<Rightarrow> holder \<Rightarrow> upload" where
  "hold_frame b up (Putting s n d i) = up\<lparr>up_holder := Putting s n d (grow b i)\<rparr>"
| "hold_frame b up _ = up\<lparr>up_inner := map_option (grow b) (up_inner up)\<rparr>"

text \<open>
  One round of the loop of \<open>handle_upload\<close>. An error ends the request: the lock is released,
  and the inner state that a \<open>PUT\<close> has taken is gone.
\<close>

definition upload_step :: "nat \<Rightarrow> uuid \<Rightarrow> body_event \<Rightarrow> registry \<Rightarrow> api_error option \<times> registry" where
  "upload_step now u ev rg =
     (case rg_uploads rg u of
        None \<Rightarrow> (None, rg)
      | Some up \<Rightarrow>
          if up_holder up = Free then (None, rg)
          else (case event_error ev of
                  Some e \<Rightarrow> (Some e, set_upload u (up\<lparr>up_holder := Free\<rparr>) (append_tmp u (written ev) rg))
                | None \<Rightarrow>
                    (None,
                     set_upload u
                       ((hold_frame (written ev) up (up_holder up))
                          \<lparr>up_shadow_range := up_shadow_range up + length (written ev),
                           up_last_activity := now\<rparr>)
                       (append_tmp u (written ev) rg))))"

section \<open>Ending a request\<close>

definition wrong_size :: "nat \<Rightarrow> nat option \<Rightarrow> nat \<Rightarrow> bool" where
  "wrong_size start_size n count = (case n of None \<Rightarrow> False | Some n \<Rightarrow> count \<noteq> start_size + n)"

text \<open>The value is the end of the range that is answered.\<close>

definition patch_finish :: "uuid \<Rightarrow> registry \<Rightarrow> (api_error + nat) option \<times> registry" where
  "patch_finish u rg =
     (case rg_uploads rg u of
        None \<Rightarrow> (None, rg)
      | Some up \<Rightarrow>
          (case (up_holder up, up_inner up) of
             (Patching s n, Some i) \<Rightarrow>
               (Some (if wrong_size s n (ui_count i) then Inl (ApiError BAD_REQUEST SizeInvalid)
                      else Inr (ui_count i - 1)),
                set_upload u (up\<lparr>up_holder := Free\<rparr>) rg)
           | _ \<Rightarrow> (None, rg)))"

definition digest_of :: "(string \<Rightarrow> string) \<Rightarrow> string \<Rightarrow> string" where
  "digest_of sha b = ''sha256:'' @ sha b"

datatype file_outcome = Io_ok | Flush_failed | Rename_failed

definition rename_blob :: "uuid \<Rightarrow> string \<Rightarrow> registry \<Rightarrow> registry option" where
  "rename_blob u name rg =
     (case rg_tmp rg u of
        None \<Rightarrow> None
      | Some b \<Rightarrow> Some (rg\<lparr>rg_tmp := (rg_tmp rg)(u := None), rg_blobs := (rg_blobs rg)(name \<mapsto> b)\<rparr>))"

text \<open>The value is the digest under which the blob was stored.\<close>

definition put_finish ::
  "(string \<Rightarrow> string) \<Rightarrow> uuid \<Rightarrow> file_outcome \<Rightarrow> registry \<Rightarrow> (api_error + string) option \<times> registry" where
  "put_finish sha u io rg =
     (case rg_uploads rg u of
        None \<Rightarrow> (None, rg)
      | Some up \<Rightarrow>
          (case up_holder up of
             Putting s n digest i \<Rightarrow>
               if wrong_size s n (ui_count i)
               then (Some (Inl (ApiError BAD_REQUEST SizeInvalid)), set_upload u (up\<lparr>up_holder := Free\<rparr>) rg)
               else (let rg = drop_upload u rg; actual = digest_of sha (ui_hashed i)
                     in if io = Flush_failed then (Some (Inl (ApiError INTERNAL_SERVER_ERROR Unknown)), rg)
                        else if actual \<noteq> digest then (Some (Inl (ApiError BAD_REQUEST DigestInvalid)), rg)
                        else case (if io = Rename_failed then None else rename_blob u actual rg) of
                               None \<Rightarrow> (Some (Inl (ApiError INTERNAL_SERVER_ERROR Unknown)), rg)
                             | Some rg' \<Rightarrow> (Some (Inr actual), rg'))
           | _ \<Rightarrow> (None, rg)))"

section \<open>Starting an upload\<close>

text \<open>\<open>File::create_new\<close> fails for a name that is taken.\<close>

definition post_upload :: "nat \<Rightarrow> uuid \<Rightarrow> registry \<Rightarrow> (api_error + uuid) \<times> registry" where
  "post_upload now u rg =
     (if rg_read_only rg then (Inl (ApiError SERVICE_UNAVAILABLE Unsupported), rg)
      else if rg_tmp rg u \<noteq> None then (Inl (ApiError INTERNAL_SERVER_ERROR Unknown), rg)
      else (Inr u,
            set_upload u
              \<lparr>up_shadow_range = 0, up_last_activity = now,
               up_inner = Some \<lparr>ui_count = 0, ui_hashed = []\<rparr>, up_holder = Free\<rparr>
              (rg\<lparr>rg_tmp := (rg_tmp rg)(u \<mapsto> [])\<rparr>)))"

text \<open>
  The loop of an upload in a single request, whose file nobody else knows: what was written,
  or the error and whether the file is removed for it.
\<close>

fun single_body :: "body_event list \<Rightarrow> string \<Rightarrow> (api_error \<times> bool) \<times> string + string" where
  "single_body [] b = Inr b"
| "single_body (Frame f # evs) b = single_body evs (b @ f)"
| "single_body (IdleTimeout # evs) b = Inl ((ApiError BAD_REQUEST BlobUploadInvalid, True), b)"
| "single_body (WriteFailed f k # evs) b = Inl ((ApiError INTERNAL_SERVER_ERROR Unknown, False), b @ take k f)"
| "single_body (ReadError # evs) b = Inl ((ApiError INTERNAL_SERVER_ERROR Unknown, False), b)"

definition post_single ::
  "(string \<Rightarrow> string) \<Rightarrow> string \<Rightarrow> uuid \<Rightarrow> body_event list \<Rightarrow> file_outcome \<Rightarrow> registry
    \<Rightarrow> (api_error + string) \<times> registry" where
  "post_single sha digest u evs io rg =
     (if rg_read_only rg then (Inl (ApiError SERVICE_UNAVAILABLE Unsupported), rg)
      else if \<not> is_docker_hash digest then (Inl (ApiError BAD_REQUEST DigestInvalid), rg)
      else if rg_blobs rg digest \<noteq> None then (Inr digest, rg)
      else if rg_tmp rg u \<noteq> None then (Inl (ApiError INTERNAL_SERVER_ERROR Unknown), rg)
      else case single_body evs [] of
        Inl ((e, clean_up), b) \<Rightarrow>
          (Inl e, if clean_up then rg else rg\<lparr>rg_tmp := (rg_tmp rg)(u \<mapsto> b)\<rparr>)
      | Inr b \<Rightarrow>
          (let rg1 = rg\<lparr>rg_tmp := (rg_tmp rg)(u \<mapsto> b)\<rparr>; actual = digest_of sha b
           in if io = Flush_failed then (Inl (ApiError INTERNAL_SERVER_ERROR Unknown), rg1)
              else if actual \<noteq> digest then (Inl (ApiError BAD_REQUEST DigestInvalid), rg)
              else case (if io = Rename_failed then None else rename_blob u digest rg1) of
                     None \<Rightarrow> (Inl (ApiError INTERNAL_SERVER_ERROR Unknown), rg1)
                   | Some rg' \<Rightarrow> (Inr actual, rg')))"

section \<open>Status, blobs and the reaper\<close>

definition get_blob_upload_status :: "uuid \<Rightarrow> registry \<Rightarrow> api_error + nat" where
  "get_blob_upload_status u rg =
     (case rg_uploads rg u of
        None \<Rightarrow> Inl (ApiError NOT_FOUND BlobUploadUnknown)
      | Some up \<Rightarrow> Inr (up_shadow_range up - 1))"

definition get_blob :: "string \<Rightarrow> registry \<Rightarrow> api_error + string" where
  "get_blob digest rg =
     (if \<not> is_docker_hash digest then Inl (ApiError BAD_REQUEST Unknown)
      else case rg_blobs rg digest of
        None \<Rightarrow> Inl (ApiError NOT_FOUND BlobUnknown)
      | Some b \<Rightarrow> Inr b)"

definition UPLOAD_TIMEOUT_SECS :: nat where "UPLOAD_TIMEOUT_SECS = 10 * 60 * 60"

definition reap :: "nat \<Rightarrow> uuid \<Rightarrow> registry \<Rightarrow> registry" where
  "reap now u rg =
     (case rg_uploads rg u of
        None \<Rightarrow> rg
      | Some up \<Rightarrow>
          if now - up_last_activity up \<ge> UPLOAD_TIMEOUT_SECS \<and> up_holder up = Free
          then (drop_upload u rg)\<lparr>rg_tmp := (rg_tmp rg)(u := None)\<rparr>
          else rg)"

section \<open>Whole requests, and traces of steps\<close>

text \<open>The steps of all clients and of the reaper; \<open>SHA\<close> is fixed.\<close>

datatype reg_op =
    PatchBegin uuid "nat option" "(nat \<times> nat) option"
  | PutBegin uuid string "nat option" "(nat \<times> nat) option"
  | BodyStep nat uuid body_event
  | PatchFinish uuid
  | PutFinish uuid file_outcome
  | PostUpload nat uuid
  | PostSingle string uuid "body_event list" file_outcome
  | Reap nat uuid

fun reg_step :: "(string \<Rightarrow> string) \<Rightarrow> reg_op \<Rightarrow> registry \<Rightarrow> registry" where
  "reg_step sha (PatchBegin u cl cr) rg = snd (patch_begin u cl cr rg)"
| "reg_step sha (PutBegin u d cl cr) rg = snd (put_begin u d cl cr rg)"
| "reg_step sha (BodyStep now u ev) rg = snd (upload_step now u ev rg)"
| "reg_step sha (PatchFinish u) rg = snd (patch_finish u rg)"
| "reg_step sha (PutFinish u io) rg = snd (put_finish sha u io rg)"
| "reg_step sha (PostUpload now u) rg = snd (post_upload now u rg)"
| "reg_step sha (PostSingle d u evs io) rg = snd (post_single sha d u evs io rg)"
| "reg_step sha (Reap now u) rg = reap now u rg"

definition reg_run :: "(string \<Rightarrow> string) \<Rightarrow> reg_op list \<Rightarrow> registry \<Rightarrow> registry" where
  "reg_run sha ops rg = fold (reg_step sha) ops rg"

definition empty_registry :: "(string \<rightharpoonup> string) \<Rightarrow> bool \<Rightarrow> registry" where
  "empty_registry blobs read_only =
     \<lparr>rg_uploads = Map.empty, rg_tmp = Map.empty, rg_blobs = blobs, rg_read_only = read_only\<rparr>"

fun no_write_failure :: "reg_op \<Rightarrow> bool" where
  "no_write_failure (BodyStep now u (WriteFailed b k)) = False"
| "no_write_failure _ = True"

section \<open>The invariant\<close>

fun holder_inner :: "upload \<Rightarrow> holder \<Rightarrow> upload_inner option" where
  "holder_inner up (Putting s n d i) = Some i"
| "holder_inner up _ = up_inner up"

definition upload_ok :: "string option \<Rightarrow> upload \<Rightarrow> bool" where
  "upload_ok tmp up =
     ((\<forall>s n d i. up_holder up = Putting s n d i \<longrightarrow> up_inner up = None)
      \<and> (\<forall>i. holder_inner up (up_holder up) = Some i \<longrightarrow>
           ui_count i = length (ui_hashed i) \<and> up_shadow_range up = ui_count i \<and> tmp = Some (ui_hashed i)))"

definition content_addressed :: "(string \<Rightarrow> string) \<Rightarrow> (string \<rightharpoonup> string) \<Rightarrow> bool" where
  "content_addressed sha blobs = (\<forall>d b. blobs d = Some b \<longrightarrow> d = digest_of sha b)"

definition reg_ok :: "(string \<Rightarrow> string) \<Rightarrow> registry \<Rightarrow> bool" where
  "reg_ok sha rg =
     (content_addressed sha (rg_blobs rg)
      \<and> (\<forall>u up. rg_uploads rg u = Some up \<longrightarrow> upload_ok (rg_tmp rg u) up))"

lemma reg_ok_upload: "reg_ok sha rg \<Longrightarrow> rg_uploads rg u = Some up \<Longrightarrow> upload_ok (rg_tmp rg u) up"
  by (simp add: reg_ok_def)

lemma reg_ok_set_upload:
  "reg_ok sha rg \<Longrightarrow> upload_ok (rg_tmp rg u) up \<Longrightarrow> reg_ok sha (set_upload u up rg)"
  by (simp add: reg_ok_def set_upload_def)

lemma reg_ok_drop_upload: "reg_ok sha rg \<Longrightarrow> reg_ok sha (drop_upload u rg)"
  by (simp add: reg_ok_def drop_upload_def)

lemma locked_innerE:
  assumes "locked_inner u rg = Inr (up, i)"
  shows "rg_uploads rg u = Some up" "up_holder up = Free" "up_inner up = Some i"
  using assms by (auto simp: locked_inner_def split: option.splits if_splits)

lemma patch_begin_ok:
  assumes ok: "reg_ok sha rg"
  shows "reg_ok sha (snd (patch_begin u cl cr rg))"
proof (cases "locked_inner u rg")
  case (Inr p)
  then obtain up i where p: "locked_inner u rg = Inr (up, i)" by (cases p) simp
  note up = locked_innerE [OF p]
  have "upload_ok (rg_tmp rg u) (up\<lparr>up_holder := Patching (ui_count i) n\<rparr>)" for n
    using reg_ok_upload [OF ok up(1)] up(2) by (simp add: upload_ok_def)
  with ok p show ?thesis by (auto simp: patch_begin_def reg_ok_set_upload split: sum.splits)
qed (use ok in \<open>simp add: patch_begin_def\<close>)

lemma put_begin_ok:
  assumes ok: "reg_ok sha rg"
  shows "reg_ok sha (snd (put_begin u d cl cr rg))"
proof (cases "locked_inner u rg")
  case (Inr p)
  then obtain up i where p: "locked_inner u rg = Inr (up, i)" by (cases p) simp
  note up = locked_innerE [OF p]
  have "upload_ok (rg_tmp rg u) (up\<lparr>up_inner := None\<rparr>)"
    "upload_ok (rg_tmp rg u) (up\<lparr>up_inner := None, up_holder := Putting (ui_count i) n d i\<rparr>)" for n
    using reg_ok_upload [OF ok up(1)] up(2,3) by (simp_all add: upload_ok_def)
  with ok p show ?thesis by (auto simp: put_begin_def Let_def reg_ok_set_upload split: sum.splits)
qed (use ok in \<open>simp add: put_begin_def\<close>)

lemma upload_step_ok:
  assumes ok: "reg_ok sha rg" and ev: "\<And>b k. ev \<noteq> WriteFailed b k"
  shows "reg_ok sha (snd (upload_step now u ev rg))"
proof (cases "rg_uploads rg u")
  case (Some up)
  then have up: "upload_ok (rg_tmp rg u) up" using ok by (simp add: reg_ok_def)
  show ?thesis
  proof (cases "up_holder up = Free")
    case False
    have tmp: "reg_ok sha (set_upload u up' (append_tmp u b rg))"
      if "upload_ok (map_option (\<lambda>s. s @ b) (rg_tmp rg u)) up'" for up' b
      using ok that by (auto simp: reg_ok_def set_upload_def append_tmp_def)
    show ?thesis
    proof (cases "event_error ev")
      case None
      then obtain b where b: "ev = Frame b" by (cases ev) (simp_all add: event_error_def)
      have "upload_ok (map_option (\<lambda>s. s @ b) (rg_tmp rg u))
          ((hold_frame b up (up_holder up))\<lparr>up_shadow_range := up_shadow_range up + length b, up_last_activity := now\<rparr>)"
        using up False by (cases "up_holder up") (auto simp: upload_ok_def grow_def)
      with Some False None b show ?thesis
        by (simp add: upload_step_def written_def tmp)
    next
      case (Some e)
      with ev have "written ev = []" by (cases ev) (auto simp: event_error_def written_def)
      moreover have "upload_ok (map_option (\<lambda>s. s @ []) (rg_tmp rg u)) (up\<lparr>up_holder := Free\<rparr>)"
        using up by (cases "up_holder up") (auto simp: upload_ok_def option.map_ident)
      ultimately show ?thesis
        using \<open>rg_uploads rg u = Some up\<close> False Some by (simp add: upload_step_def tmp)
    qed
  qed (use ok Some in \<open>simp add: upload_step_def\<close>)
qed (use ok in \<open>simp add: upload_step_def\<close>)

lemma patch_finish_ok:
  assumes ok: "reg_ok sha rg"
  shows "reg_ok sha (snd (patch_finish u rg))"
proof (cases "rg_uploads rg u")
  case (Some up)
  show ?thesis
  proof (cases "up_holder up")
    case (Patching s n)
    then have "upload_ok (rg_tmp rg u) (up\<lparr>up_holder := Free\<rparr>)"
      using reg_ok_upload [OF ok Some] by (simp add: upload_ok_def)
    with ok Some Patching show ?thesis
      by (auto simp: patch_finish_def reg_ok_set_upload split: option.splits)
  qed (use ok Some in \<open>simp_all add: patch_finish_def\<close>)
qed (use ok in \<open>simp add: patch_finish_def\<close>)

lemma rename_blob_ok:
  assumes "reg_ok sha rg" and "rg_uploads rg u = None" and "rg_tmp rg u = Some b" and "name = digest_of sha b"
    and "rename_blob u name rg = Some rg'"
  shows "reg_ok sha rg'"
  using assms by (auto simp: rename_blob_def reg_ok_def content_addressed_def split: if_splits)

lemma put_finish_ok:
  assumes ok: "reg_ok sha rg"
  shows "reg_ok sha (snd (put_finish sha u io rg))"
proof (cases "rg_uploads rg u")
  case (Some up)
  show ?thesis
  proof (cases "up_holder up")
    case (Putting s n d i)
    then have up: "up_inner up = None" "rg_tmp rg u = Some (ui_hashed i)"
      using reg_ok_upload [OF ok Some] by (auto simp: upload_ok_def)
    have free: "reg_ok sha (set_upload u (up\<lparr>up_holder := Free\<rparr>) rg)"
      using up(1) ok by (intro reg_ok_set_upload) (simp_all add: upload_ok_def)
    have drop: "reg_ok sha (drop_upload u rg)" "rg_uploads (drop_upload u rg) u = None"
      "rg_tmp (drop_upload u rg) u = Some (ui_hashed i)"
      using ok up(2) reg_ok_drop_upload by (simp_all add: drop_upload_def)
    then show ?thesis
      using Some Putting free rename_blob_ok [OF drop refl]
      by (auto simp: put_finish_def Let_def split: option.splits)
  qed (use ok Some in \<open>simp_all add: put_finish_def\<close>)
qed (use ok in \<open>simp add: put_finish_def\<close>)

lemma post_upload_ok: "reg_ok sha rg \<Longrightarrow> reg_ok sha (snd (post_upload now u rg))"
  by (auto simp: post_upload_def reg_ok_def set_upload_def upload_ok_def)

lemma upload_ok_no_tmp: "upload_ok None up \<Longrightarrow> upload_ok t up"
  by (cases "holder_inner up (up_holder up)") (simp_all add: upload_ok_def)

lemma reg_ok_other_tmp:
  assumes "reg_ok sha rg" and "rg_tmp rg u = None" and "content_addressed sha blobs"
  shows "reg_ok sha (rg\<lparr>rg_tmp := (rg_tmp rg)(u := t), rg_blobs := blobs\<rparr>)"
  using assms upload_ok_no_tmp by (auto simp: reg_ok_def) metis

lemma post_single_ok:
  assumes ok: "reg_ok sha rg"
  shows "reg_ok sha (snd (post_single sha d u evs io rg))"
proof -
  have addr: "content_addressed sha (rg_blobs rg)" using ok by (simp add: reg_ok_def)
  then have addr': "content_addressed sha ((rg_blobs rg)(digest_of sha b \<mapsto> b))" for b
    by (simp add: content_addressed_def)
  have tmp: "reg_ok sha (rg\<lparr>rg_tmp := (rg_tmp rg)(u \<mapsto> b)\<rparr>)" if "rg_tmp rg u = None" for b
    using reg_ok_other_tmp [OF ok that addr, of "Some b"] by simp
  have blob: "reg_ok sha (rg\<lparr>rg_tmp := (rg_tmp rg)(u := None), rg_blobs := (rg_blobs rg)(digest_of sha b \<mapsto> b)\<rparr>)"
    if "rg_tmp rg u = None" for b
    by (rule reg_ok_other_tmp [OF ok that addr'])
  show ?thesis
    using ok tmp blob by (auto simp: post_single_def Let_def rename_blob_def split: sum.splits)
qed

lemma reap_ok: "reg_ok sha rg \<Longrightarrow> reg_ok sha (reap now u rg)"
  by (auto simp: reap_def reg_ok_def drop_upload_def split: option.splits)

lemma reg_step_ok: "reg_ok sha rg \<Longrightarrow> no_write_failure op \<Longrightarrow> reg_ok sha (reg_step sha op rg)"
  by (cases op)
    (auto simp: patch_begin_ok put_begin_ok patch_finish_ok put_finish_ok post_upload_ok post_single_ok
      reap_ok intro: upload_step_ok)

lemma reg_run_ok: "reg_ok sha rg \<Longrightarrow> \<forall>op \<in> set ops. no_write_failure op \<Longrightarrow> reg_ok sha (reg_run sha ops rg)"
  unfolding reg_run_def by (induction ops arbitrary: rg) (simp_all add: reg_step_ok)

section \<open>Whole requests\<close>

fun read_body :: "nat \<Rightarrow> uuid \<Rightarrow> body_event list \<Rightarrow> registry \<Rightarrow> api_error option \<times> registry" where
  "read_body now u [] rg = (None, rg)"
| "read_body now u (ev # evs) rg =
     (case upload_step now u ev rg of
        (Some e, rg') \<Rightarrow> (Some e, rg')
      | (None, rg') \<Rightarrow> read_body now u evs rg')"

definition patch_blob_upload ::
  "nat \<Rightarrow> uuid \<Rightarrow> nat option \<Rightarrow> (nat \<times> nat) option \<Rightarrow> body_event list \<Rightarrow> registry
    \<Rightarrow> (api_error + nat) option \<times> registry" where
  "patch_blob_upload now u cl cr evs rg =
     (case patch_begin u cl cr rg of
        (Some e, rg1) \<Rightarrow> (Some (Inl e), rg1)
      | (None, rg1) \<Rightarrow>
          (case read_body now u evs rg1 of
             (Some e, rg2) \<Rightarrow> (Some (Inl e), rg2)
           | (None, rg2) \<Rightarrow> patch_finish u rg2))"

definition put_blob_upload ::
  "(string \<Rightarrow> string) \<Rightarrow> nat \<Rightarrow> uuid \<Rightarrow> string \<Rightarrow> nat option \<Rightarrow> (nat \<times> nat) option \<Rightarrow> body_event list
    \<Rightarrow> file_outcome \<Rightarrow> registry \<Rightarrow> (api_error + string) option \<times> registry" where
  "put_blob_upload sha now u digest cl cr evs io rg =
     (case put_begin u digest cl cr rg of
        (Some e, rg1) \<Rightarrow> (Some (Inl e), rg1)
      | (None, rg1) \<Rightarrow>
          (case read_body now u evs rg1 of
             (Some e, rg2) \<Rightarrow> (Some (Inl e), rg2)
           | (None, rg2) \<Rightarrow> put_finish sha u io rg2))"

text \<open>Reading the frames of a body appends them.\<close>

lemma read_frames_patch:
  assumes "rg_uploads rg u = Some up" and "up_holder up = Patching s n"
    and "up_inner up = Some i" and "rg_tmp rg u = Some t"
  shows "\<exists>rg' up'. read_body now u (map Frame fs) rg = (None, rg') \<and> rg_uploads rg' u = Some up'
    \<and> up_holder up' = Patching s n \<and> rg_tmp rg' u = Some (t @ concat fs)
    \<and> up_inner up' = Some \<lparr>ui_count = ui_count i + length (concat fs), ui_hashed = ui_hashed i @ concat fs\<rparr>
    \<and> rg_blobs rg' = rg_blobs rg \<and> rg_read_only rg' = rg_read_only rg"
  using assms
proof (induction fs arbitrary: rg up i t)
  case Nil
  then show ?case by simp
next
  case (Cons f fs)
  let ?up = "up\<lparr>up_inner := Some (grow f i), up_shadow_range := up_shadow_range up + length f, up_last_activity := now\<rparr>"
  let ?rg = "set_upload u ?up (append_tmp u f rg)"
  have step: "upload_step now u (Frame f) rg = (None, ?rg)"
    using Cons.prems by (simp add: upload_step_def event_error_def written_def)
  have "rg_uploads ?rg u = Some ?up" "up_holder ?up = Patching s n" "up_inner ?up = Some (grow f i)"
    "rg_tmp ?rg u = Some (t @ f)" "rg_blobs ?rg = rg_blobs rg" "rg_read_only ?rg = rg_read_only rg"
    using Cons.prems by (simp_all add: set_upload_def append_tmp_def)
  with Cons.IH [of ?rg ?up "grow f i" "t @ f"] step show ?case
    by (simp add: grow_def add.assoc)
qed

lemma read_frames_put:
  assumes "rg_uploads rg u = Some up" and "up_holder up = Putting s n d i" and "rg_tmp rg u = Some t"
  shows "\<exists>rg' up'. read_body now u (map Frame fs) rg = (None, rg') \<and> rg_uploads rg' u = Some up'
    \<and> up_holder up' = Putting s n d
        \<lparr>ui_count = ui_count i + length (concat fs), ui_hashed = ui_hashed i @ concat fs\<rparr>
    \<and> rg_tmp rg' u = Some (t @ concat fs)
    \<and> rg_blobs rg' = rg_blobs rg \<and> rg_read_only rg' = rg_read_only rg"
  using assms
proof (induction fs arbitrary: rg up i t)
  case Nil
  then show ?case by simp
next
  case (Cons f fs)
  let ?up = "up\<lparr>up_holder := Putting s n d (grow f i), up_shadow_range := up_shadow_range up + length f,
      up_last_activity := now\<rparr>"
  let ?rg = "set_upload u ?up (append_tmp u f rg)"
  have step: "upload_step now u (Frame f) rg = (None, ?rg)"
    using Cons.prems by (simp add: upload_step_def event_error_def written_def)
  have "rg_uploads ?rg u = Some ?up" "up_holder ?up = Putting s n d (grow f i)"
    "rg_tmp ?rg u = Some (t @ f)" "rg_blobs ?rg = rg_blobs rg" "rg_read_only ?rg = rg_read_only rg"
    using Cons.prems by (simp_all add: set_upload_def append_tmp_def)
  with Cons.IH [of ?rg ?up "grow f i" "t @ f"] step show ?case
    by (simp add: grow_def add.assoc)
qed

text \<open>An upload at rest that holds some bytes.\<close>

definition holds :: "uuid \<Rightarrow> string \<Rightarrow> registry \<Rightarrow> bool" where
  "holds u b rg =
     (\<not> rg_read_only rg \<and> rg_tmp rg u = Some b
      \<and> (\<exists>up. rg_uploads rg u = Some up \<and> up_holder up = Free
           \<and> up_inner up = Some \<lparr>ui_count = length b, ui_hashed = b\<rparr>))"

lemma post_upload_holds:
  "\<not> rg_read_only rg \<Longrightarrow> rg_tmp rg u = None \<Longrightarrow> holds u [] (snd (post_upload now u rg))"
  by (simp add: post_upload_def holds_def set_upload_def)

text \<open>The headers of a request that starts at an offset and brings a number of bytes: each is absent or
  says what is the case. A range that was parsed ends no earlier than it starts.\<close>

definition fits :: "nat \<Rightarrow> nat option \<Rightarrow> (nat \<times> nat) option \<Rightarrow> nat \<Rightarrow> bool" where
  "fits start cl cr n = (cl \<in> {None, Some n} \<and> cr \<in> {None, Some (start, start + n)})"

definition parsed_range :: "(nat \<times> nat) option \<Rightarrow> bool" where
  "parsed_range cr = (case cr of None \<Rightarrow> True | Some (s, e) \<Rightarrow> s \<le> e)"

lemma content_range_parsed: "content_range v = Some r \<Longrightarrow> parsed_range (Some r)"
  by (auto simp: content_range_def parsed_range_def bind_eq_Some_conv split: if_splits)

lemma expected_size_iff:
  assumes "parsed_range cr"
  shows "(\<exists>x. expected_size st start cl cr = Inr x \<and> (x = None \<or> x = Some n)) \<longleftrightarrow> fits start cl cr n"
proof (cases cr)
  case None
  then show ?thesis by (cases cl) (auto simp: fits_def expected_size_def)
next
  case (Some r)
  obtain s e where r: "r = (s, e)" by (cases r)
  with assms Some have "s \<le> e" by (simp add: parsed_range_def)
  with Some r show ?thesis by (cases cl) (auto simp: fits_def expected_size_def)
qed

lemma expected_size_fits:
  assumes "parsed_range cr"
  shows "fits start cl cr n \<longleftrightarrow> (\<exists>x. expected_size st start cl cr = Inr x \<and> \<not> wrong_size start x (start + n))"
proof -
  have "\<not> wrong_size start x (start + n) \<longleftrightarrow> x = None \<or> x = Some n" for x
    by (cases x) (auto simp: wrong_size_def)
  then show ?thesis using expected_size_iff [OF assms] by simp
qed

lemma expected_size_error: "expected_size st start cl cr = Inl e \<Longrightarrow> e = ApiError st SizeInvalid"
  by (auto simp: expected_size_def split: option.splits if_splits)

lemma patch_holds:
  assumes h: "holds u b rg" and f: "fits (length b) cl cr (length (concat fs))"
  shows "\<exists>rg'. patch_blob_upload now u cl cr (map Frame fs) rg
      = (Some (Inr (length (b @ concat fs) - 1)), rg') \<and> holds u (b @ concat fs) rg'"
proof -
  obtain up where up: "rg_uploads rg u = Some up" "up_holder up = Free"
    "up_inner up = Some \<lparr>ui_count = length b, ui_hashed = b\<rparr>" "\<not> rg_read_only rg" "rg_tmp rg u = Some b"
    using h unfolding holds_def by blast
  have "parsed_range cr" using f by (auto simp: fits_def parsed_range_def)
  from expected_size_fits [OF this] f obtain x where x: "expected_size NOT_FOUND (length b) cl cr = Inr x"
    "\<not> wrong_size (length b) x (length b + length (concat fs))" by blast
  let ?up = "up\<lparr>up_holder := Patching (length b) x\<rparr>"
  let ?rg = "set_upload u ?up rg"
  have start: "patch_begin u cl cr rg = (None, ?rg)"
    using up x(1) by (simp add: patch_begin_def locked_inner_def)
  have "rg_uploads ?rg u = Some ?up" "up_holder ?up = Patching (length b) x"
    "up_inner ?up = Some \<lparr>ui_count = length b, ui_hashed = b\<rparr>" "rg_tmp ?rg u = Some b"
    using up by (simp_all add: set_upload_def)
  from read_frames_patch [OF this, of now fs] obtain rg' up' where r:
    "read_body now u (map Frame fs) ?rg = (None, rg')" "rg_uploads rg' u = Some up'"
    "up_holder up' = Patching (length b) x" "rg_tmp rg' u = Some (b @ concat fs)"
    "up_inner up' = Some \<lparr>ui_count = length b + length (concat fs), ui_hashed = b @ concat fs\<rparr>"
    "rg_read_only rg' = rg_read_only ?rg" by auto
  have "rg_read_only ?rg = rg_read_only rg" by (simp add: set_upload_def)
  with start r up(4) x(2) show ?thesis
    by (simp add: patch_blob_upload_def patch_finish_def holds_def set_upload_def)
qed

lemma put_started:
  assumes h: "holds u b rg" and x: "expected_size BAD_REQUEST (length b) cl cr = Inr x"
  shows "\<exists>rg' up'. put_blob_upload sha now u d cl cr (map Frame fs) io rg = put_finish sha u io rg'
    \<and> rg_uploads rg' u = Some up' \<and> up_holder up' = Putting (length b) x d
       \<lparr>ui_count = length b + length (concat fs), ui_hashed = b @ concat fs\<rparr>
    \<and> rg_tmp rg' u = Some (b @ concat fs) \<and> rg_blobs rg' = rg_blobs rg"
proof -
  obtain up where up: "rg_uploads rg u = Some up" "up_holder up = Free"
    "up_inner up = Some \<lparr>ui_count = length b, ui_hashed = b\<rparr>" "rg_tmp rg u = Some b"
    using h unfolding holds_def by blast
  let ?up = "up\<lparr>up_inner := None, up_holder := Putting (length b) x d \<lparr>ui_count = length b, ui_hashed = b\<rparr>\<rparr>"
  let ?rg = "set_upload u ?up rg"
  have start: "put_begin u d cl cr rg = (None, ?rg)"
    using up x by (simp add: put_begin_def locked_inner_def)
  have "rg_uploads ?rg u = Some ?up"
    "up_holder ?up = Putting (length b) x d \<lparr>ui_count = length b, ui_hashed = b\<rparr>" "rg_tmp ?rg u = Some b"
    using up by (simp_all add: set_upload_def)
  from read_frames_put [OF this, of now fs] obtain rg' up' where r:
    "read_body now u (map Frame fs) ?rg = (None, rg')" "rg_uploads rg' u = Some up'"
    "up_holder up' = Putting (length b) x d
       \<lparr>ui_count = length b + length (concat fs), ui_hashed = b @ concat fs\<rparr>"
    "rg_tmp rg' u = Some (b @ concat fs)" "rg_blobs rg' = rg_blobs ?rg" by auto
  have "rg_blobs ?rg = rg_blobs rg" by (simp add: set_upload_def)
  with start r show ?thesis by (intro exI [of _ rg'] exI [of _ up']) (simp add: put_blob_upload_def)
qed

lemma put_holds:
  assumes h: "holds u b rg" and f: "fits (length b) cl cr (length (concat fs))"
  shows "\<exists>rg'. put_blob_upload sha now u (digest_of sha (b @ concat fs)) cl cr (map Frame fs) Io_ok rg
      = (Some (Inr (digest_of sha (b @ concat fs))), rg')
    \<and> rg_blobs rg' = (rg_blobs rg)(digest_of sha (b @ concat fs) \<mapsto> b @ concat fs)
    \<and> rg_uploads rg' u = None"
proof -
  have "parsed_range cr" using f by (auto simp: fits_def parsed_range_def)
  from expected_size_fits [OF this] f obtain x where x: "expected_size BAD_REQUEST (length b) cl cr = Inr x"
    "\<not> wrong_size (length b) x (length b + length (concat fs))" by blast
  from put_started [OF h x(1), of sha now "digest_of sha (b @ concat fs)" fs Io_ok] x(2) show ?thesis
    by (auto simp: put_finish_def rename_blob_def drop_upload_def Let_def)
qed

lemma put_refused:
  assumes h: "holds u b rg" and p: "parsed_range cr" and f: "\<not> fits (length b) cl cr (length (concat fs))"
  shows "fst (put_blob_upload sha now u d cl cr (map Frame fs) io rg) = Some (Inl (ApiError BAD_REQUEST SizeInvalid))"
proof (cases "expected_size BAD_REQUEST (length b) cl cr")
  case (Inl e)
  from expected_size_error [OF Inl] h Inl show ?thesis
    by (auto simp: holds_def put_blob_upload_def put_begin_def locked_inner_def)
next
  case (Inr x)
  from expected_size_fits [OF p, of "length b" cl "length (concat fs)" BAD_REQUEST] f Inr
  have "wrong_size (length b) x (length b + length (concat fs))" by simp
  with put_started [OF h Inr, of sha now d fs io] show ?thesis by (auto simp: put_finish_def)
qed

text \<open>The \<open>PATCH\<close> requests of an upload: their headers and their frames.\<close>

type_synonym chunk = "nat option \<times> (nat \<times> nat) option \<times> string list"

fun chunks_fit :: "nat \<Rightarrow> chunk list \<Rightarrow> bool" where
  "chunks_fit start [] = True"
| "chunks_fit start ((cl, cr, fs) # cs) =
     (fits start cl cr (length (concat fs)) \<and> chunks_fit (start + length (concat fs)) cs)"

fun chunk_bytes :: "chunk list \<Rightarrow> string" where
  "chunk_bytes [] = []"
| "chunk_bytes ((cl, cr, fs) # cs) = concat fs @ chunk_bytes cs"

fun patch_all :: "nat \<Rightarrow> uuid \<Rightarrow> chunk list \<Rightarrow> registry \<Rightarrow> registry" where
  "patch_all now u [] rg = rg"
| "patch_all now u ((cl, cr, fs) # cs) rg =
     patch_all now u cs (snd (patch_blob_upload now u cl cr (map Frame fs) rg))"

lemma patch_all_holds:
  "holds u b rg \<Longrightarrow> chunks_fit (length b) cs \<Longrightarrow> holds u (b @ chunk_bytes cs) (patch_all now u cs rg)"
proof (induction now u cs rg arbitrary: b rule: patch_all.induct)
  case (2 now u cl cr fs cs rg)
  then obtain rg' where "patch_blob_upload now u cl cr (map Frame fs) rg
      = (Some (Inr (length (b @ concat fs) - 1)), rg')" "holds u (b @ concat fs) rg'"
    using patch_holds [of u b rg cl cr fs now] by auto
  with "2.IH" [of "b @ concat fs"] "2.prems"(2) show ?case by simp
qed simp

section \<open>Properties\<close>

text \<open>C20: blobs are addressed by their content. However the requests of clients, finished or cut
  off in any state, and the reaper interleave, as long as no write to a file fails halfway
  every blob is stored under the digest of its own bytes, and what a client is sent for a
  digest has that digest.\<close>

theorem blobs_content_addressed:
  assumes "content_addressed sha blobs" and "\<forall>op \<in> set ops. no_write_failure op"
  shows "content_addressed sha (rg_blobs (reg_run sha ops (empty_registry blobs read_only)))
    \<and> (\<forall>d b. get_blob d (reg_run sha ops (empty_registry blobs read_only)) = Inr b \<longrightarrow> d = digest_of sha b)"
proof -
  have "reg_ok sha (empty_registry blobs read_only)"
    using assms(1) by (simp add: reg_ok_def empty_registry_def)
  then have "reg_ok sha (reg_run sha ops (empty_registry blobs read_only))"
    using assms(2) by (rule reg_run_ok)
  then show ?thesis
    by (auto simp: reg_ok_def content_addressed_def get_blob_def split: if_splits option.splits)
qed

text \<open>Further result: without that proviso it fails. When a write fails after some bytes reached the file, the
  count and the hash do not see them but the next chunk is appended after them: the upload ends
  well, and the blob stored under the digest of the chunk has the stray bytes in front.\<close>

theorem failed_write_corrupts_blob:
  assumes "0 < k" and "k \<le> length b"
  shows "rg_blobs (reg_run sha
      [PostUpload now u, PatchBegin u None None, BodyStep now u (WriteFailed b k),
       PatchBegin u None None, BodyStep now u (Frame b), PatchFinish u,
       PutBegin u (digest_of sha b) None None, PutFinish u Io_ok]
      (empty_registry Map.empty False)) = [digest_of sha b \<mapsto> take k b @ b] \<and> take k b @ b \<noteq> b"
proof -
  have "b \<noteq> []" using assms by auto
  with assms show ?thesis
    by (simp add: reg_run_def empty_registry_def post_upload_def set_upload_def patch_begin_def
        locked_inner_def expected_size_def upload_step_def event_error_def written_def append_tmp_def grow_def
        patch_finish_def wrong_size_def put_begin_def put_finish_def rename_blob_def drop_upload_def Let_def)
qed

text \<open>C23: an upload gives back what was sent. Started in a server that may write, continued by any
  number of \<open>PATCH\<close> requests in any division into frames, each with or without a length and a
  range, which then say what it brings and where the upload stands, and closed by a \<open>PUT\<close> with
  the digest of all of it: when the headers of the \<open>PUT\<close> fit as well it succeeds, and getting
  the blob by its digest gives the bytes sent, in order; when they do not it is refused.\<close>

theorem upload_roundtrip:
  assumes "\<not> rg_read_only rg" and "rg_tmp rg u = None"
    and "chunks_fit 0 chunks" and "parsed_range cr"
    and "is_docker_hash (digest_of sha (chunk_bytes chunks @ concat fs))"
  shows "if fits (length (chunk_bytes chunks)) cl cr (length (concat fs))
    then \<exists>rg'. put_blob_upload sha now u (digest_of sha (chunk_bytes chunks @ concat fs)) cl cr
          (map Frame fs) Io_ok (patch_all now u chunks (snd (post_upload now u rg)))
        = (Some (Inr (digest_of sha (chunk_bytes chunks @ concat fs))), rg')
      \<and> get_blob (digest_of sha (chunk_bytes chunks @ concat fs)) rg' = Inr (chunk_bytes chunks @ concat fs)
    else fst (put_blob_upload sha now u (digest_of sha (chunk_bytes chunks @ concat fs)) cl cr
          (map Frame fs) Io_ok (patch_all now u chunks (snd (post_upload now u rg))))
        = Some (Inl (ApiError BAD_REQUEST SizeInvalid))"
proof -
  have "chunks_fit (length ([] :: string)) chunks" using assms(3) by simp
  from patch_all_holds [OF post_upload_holds [OF assms(1,2)] this]
  have h: "holds u (chunk_bytes chunks) (patch_all now u chunks (snd (post_upload now u rg)))" by simp
  show ?thesis
    using put_holds [OF h, of cl cr fs sha now] put_refused [OF h assms(4), of cl fs] assms(5)
    by (auto simp: get_blob_def)
qed

text \<open>An upload whose inner state was taken and never put back.\<close>

definition stranded :: "uuid \<Rightarrow> registry \<Rightarrow> bool" where
  "stranded u rg =
     (rg_tmp rg u \<noteq> None
      \<and> (\<exists>up. rg_uploads rg u = Some up \<and> up_inner up = None \<and> up_holder up = Free))"

lemma stranded_step:
  assumes "stranded u rg" and "\<forall>now. op \<noteq> Reap now u"
  shows "stranded u (reg_step sha op rg)"
  using assms
  by (cases op; clarsimp simp: stranded_def)
    (auto simp: patch_begin_def put_begin_def locked_inner_def set_upload_def upload_step_def append_tmp_def
      patch_finish_def put_finish_def drop_upload_def rename_blob_def post_upload_def post_single_def reap_def
      Let_def split: option.splits sum.splits if_splits holder.splits)

lemma stranded_run:
  "stranded u rg \<Longrightarrow> \<forall>op \<in> set ops. \<forall>now. op \<noteq> Reap now u \<Longrightarrow> stranded u (reg_run sha ops rg)"
  unfolding reg_run_def by (induction ops arbitrary: rg) (simp_all add: stranded_step)

lemma upload_step_error:
  assumes "upload_step now u ev rg = (Some e, rg')" and "rg_uploads rg u = Some up"
    and "up_holder up = Putting s n d i" and "up_inner up = None" and "rg_tmp rg u \<noteq> None"
  shows "stranded u rg'"
  using assms
  by (auto simp: upload_step_def stranded_def set_upload_def append_tmp_def split: option.splits if_splits)

lemma read_body_put:
  assumes "rg_uploads rg u = Some up" and "up_holder up = Putting s n d i" and "up_inner up = None"
    and "rg_tmp rg u \<noteq> None" and "read_body now u evs rg = (r, rg')"
  shows "(r \<noteq> None \<longrightarrow> stranded u rg')
    \<and> (r = None \<longrightarrow> rg_tmp rg' u \<noteq> None
        \<and> (\<exists>up' i'. rg_uploads rg' u = Some up' \<and> up_inner up' = None \<and> up_holder up' = Putting s n d i'))"
  using assms
proof (induction evs arbitrary: rg up i)
  case (Cons ev evs)
  show ?case
  proof (cases "upload_step now u ev rg")
    case (Pair x rg1)
    show ?thesis
    proof (cases x)
      case (Some e)
      with Pair Cons.prems upload_step_error [of now u ev rg e rg1 up s n d i] show ?thesis by auto
    next
      case None
      with Pair Cons.prems obtain up1 i1 where next1: "rg_uploads rg1 u = Some up1"
          "up_holder up1 = Putting s n d i1" "up_inner up1 = None" "rg_tmp rg1 u \<noteq> None"
        by (auto simp: upload_step_def set_upload_def append_tmp_def split: option.splits if_splits)
      have "read_body now u evs rg1 = (r, rg')" using Cons.prems(5) Pair None by simp
      with next1 show ?thesis by (rule Cons.IH)
    qed
  qed
qed auto

text \<open>Further result: a \<open>PUT\<close> that fails while the upload is kept, by a range, a size or an error of the body,
  leaves it unusable: its status is still answered as if it could be resumed, but until the
  reaper removes it, ten hours after the last byte, every further request on it is refused as a
  concurrent one.\<close>

theorem failed_put_strands_upload:
  assumes "locked_inner u rg = Inr x" and "rg_tmp rg u \<noteq> None"
    and "put_blob_upload sha now u digest cl cr evs io rg = (Some (Inl e), rg1)"
    and "rg_uploads rg1 u \<noteq> None"
    and "\<forall>op \<in> set ops. \<forall>t. op \<noteq> Reap t u"
  shows "locked_inner u (reg_run sha ops rg1) = Inl (ApiError BAD_REQUEST Unknown)
    \<and> (\<exists>n. get_blob_upload_status u (reg_run sha ops rg1) = Inr n)"
proof -
  obtain up i where x: "x = (up, i)" by (cases x)
  note up = locked_innerE [OF assms(1) [unfolded x]]
  have "stranded u rg1"
  proof (cases "put_begin u digest cl cr rg")
    case (Pair r rg2)
    show ?thesis
    proof (cases r)
      case (Some e')
      with Pair assms(1-3) up x show ?thesis
        by (auto simp: put_blob_upload_def put_begin_def stranded_def set_upload_def Let_def split: sum.splits)
    next
      case None
      with Pair assms(1,2) up x obtain up2 s n i2 where up2: "rg_uploads rg2 u = Some up2"
        "up_holder up2 = Putting s n digest i2" "up_inner up2 = None" "rg_tmp rg2 u \<noteq> None"
        by (auto simp: put_begin_def set_upload_def Let_def split: sum.splits)
      obtain r3 rg3 where r3: "read_body now u evs rg2 = (r3, rg3)" by (cases "read_body now u evs rg2")
      note body = read_body_put [OF up2 r3]
      show ?thesis
      proof (cases r3)
        case (Some e')
        with Pair None assms(3) body r3 show ?thesis by (simp add: put_blob_upload_def)
      next
        case none: None
        with Pair None assms(3) r3 have fin: "put_finish sha u io rg3 = (Some (Inl e), rg1)"
          by (simp add: put_blob_upload_def)
        from body none obtain up4 i4 where up4: "rg_uploads rg3 u = Some up4" "up_inner up4 = None"
          "up_holder up4 = Putting s n digest i4" "rg_tmp rg3 u \<noteq> None" by auto
        have "rg1 = set_upload u (up4\<lparr>up_holder := Free\<rparr>) rg3"
          using fin up4 assms(4)
          by (auto simp: put_finish_def Let_def drop_upload_def rename_blob_def split: if_splits option.splits)
        with up4 show ?thesis by (auto simp: stranded_def set_upload_def)
      qed
    qed
  qed
  from stranded_run [OF this assms(5)] obtain up' where
    "rg_uploads (reg_run sha ops rg1) u = Some up'" "up_inner up' = None" "up_holder up' = Free"
    unfolding stranded_def by blast
  then show ?thesis by (simp add: locked_inner_def get_blob_upload_status_def)
qed

section \<open>Witnesses\<close>

text \<open>A stand-in for the hash, and an upload of three bytes interleaved with another one.\<close>

definition demo_sha :: "string \<Rightarrow> string" where
  "demo_sha b = concat (map (\<lambda>c. if alnum c then [c] else ''x'') b)"

theorem blobs_content_addressed_witness:
  "rg_blobs (reg_run demo_sha
      [PostUpload 0 1, PostUpload 0 2, PatchBegin 1 None (Some (0, 2)), BodyStep 0 1 (Frame ''ab''),
       PatchBegin 2 None None, PatchFinish 1, BodyStep 1 2 ReadError, PutBegin 1 ''sha256:abc'' None None,
       BodyStep 2 1 (Frame ''c''), PutFinish 1 Io_ok] (empty_registry Map.empty False))
     = [''sha256:abc'' \<mapsto> ''abc'']
   \<and> content_addressed demo_sha [''sha256:abc'' \<mapsto> ''abc'']"
proof -
  let ?ops = "[PostUpload 0 1, PostUpload 0 2, PatchBegin 1 None (Some (0, 2)), BodyStep 0 1 (Frame ''ab''),
       PatchBegin 2 None None, PatchFinish 1, BodyStep 1 2 ReadError, PutBegin 1 ''sha256:abc'' None None,
       BodyStep 2 1 (Frame ''c''), PutFinish 1 Io_ok]"
  have run: "rg_blobs (reg_run demo_sha ?ops (empty_registry Map.empty False)) = [''sha256:abc'' \<mapsto> ''abc'']"
    by (simp add: reg_run_def empty_registry_def post_upload_def set_upload_def patch_begin_def
        locked_inner_def expected_size_def upload_step_def event_error_def written_def append_tmp_def grow_def
        patch_finish_def wrong_size_def put_begin_def put_finish_def rename_blob_def drop_upload_def Let_def
        digest_of_def demo_sha_def alnum_def)
  have "content_addressed demo_sha Map.empty" by (simp add: content_addressed_def)
  then have "content_addressed demo_sha (rg_blobs (reg_run demo_sha ?ops (empty_registry Map.empty False)))"
    by (rule blobs_content_addressed [THEN conjunct1]) simp
  with run show ?thesis by simp
qed

theorem failed_write_corrupts_blob_witness:
  "\<exists>ops. rg_blobs (reg_run demo_sha ops (empty_registry Map.empty False)) = [''sha256:abc'' \<mapsto> ''ababc'']"
  using failed_write_corrupts_blob [of 2 "''abc''" demo_sha 0 1]
  by (auto simp: digest_of_def demo_sha_def alnum_def)

text \<open>The second chunk says its length, the closing request its length and where it starts; with a
  length that forgets what was sent before it is refused.\<close>

theorem upload_roundtrip_witness:
  "(\<exists>rg'. put_blob_upload demo_sha 5 1 ''sha256:abcde'' (Some 2) (Some (3, 5)) [Frame ''de''] Io_ok
       (patch_all 5 1 [(None, None, [''a'', ''b'']), (Some 1, None, [''c''])]
         (snd (post_upload 5 1 (empty_registry Map.empty False))))
     = (Some (Inr ''sha256:abcde''), rg') \<and> get_blob ''sha256:abcde'' rg' = Inr ''abcde'')
   \<and> fst (put_blob_upload demo_sha 5 1 ''sha256:abcde'' (Some 5) None [Frame ''de''] Io_ok
       (patch_all 5 1 [(None, None, [''a'', ''b'']), (Some 1, None, [''c''])]
         (snd (post_upload 5 1 (empty_registry Map.empty False)))))
     = Some (Inl (ApiError BAD_REQUEST SizeInvalid))"
proof -
  let ?rg = "empty_registry Map.empty False"
  let ?chunks = "[(None, None, [''a'', ''b'']), (Some 1, None, [''c''])] :: chunk list"
  have rg: "\<not> rg_read_only ?rg" "rg_tmp ?rg 1 = None" by (simp_all add: empty_registry_def)
  have fit: "chunks_fit 0 ?chunks" by (simp add: fits_def)
  have range: "parsed_range (Some (3, 5))" "parsed_range None" by (simp_all add: parsed_range_def)
  have digest: "digest_of demo_sha (chunk_bytes ?chunks @ concat [''de'']) = ''sha256:abcde''"
    and hash: "is_docker_hash (digest_of demo_sha (chunk_bytes ?chunks @ concat [''de'']))"
    by (simp_all add: digest_of_def demo_sha_def alnum_def is_docker_hash_def)
  note sent = upload_roundtrip [OF rg fit _ hash, unfolded digest, of _ _ 5]
  from sent [OF range(1), of "Some 2"] sent [OF range(2), of "Some 5"] show ?thesis
    by (simp add: fits_def)
qed

theorem failed_put_strands_upload_witness:
  "\<exists>rg1. put_blob_upload demo_sha 5 2 ''sha256:ab'' (Some 7) None [Frame ''ab''] Io_ok
         (snd (post_upload 0 2 (empty_registry Map.empty False)))
       = (Some (Inl (ApiError BAD_REQUEST SizeInvalid)), rg1)
     \<and> locked_inner 2 (reg_run demo_sha [PutBegin 2 ''sha256:ab'' None None, Reap 99999 3] rg1)
       = Inl (ApiError BAD_REQUEST Unknown)
     \<and> (\<exists>n. get_blob_upload_status 2 (reg_run demo_sha [PutBegin 2 ''sha256:ab'' None None, Reap 99999 3] rg1) = Inr n)"
proof -
  let ?rg = "snd (post_upload 0 2 (empty_registry Map.empty False))"
  have l: "locked_inner 2 ?rg = Inr (\<lparr>up_shadow_range = 0, up_last_activity = 0,
      up_inner = Some \<lparr>ui_count = 0, ui_hashed = []\<rparr>, up_holder = Free\<rparr>, \<lparr>ui_count = 0, ui_hashed = []\<rparr>)"
    and t: "rg_tmp ?rg 2 \<noteq> None"
    by (simp_all add: post_upload_def empty_registry_def set_upload_def locked_inner_def)
  obtain rg1 where p: "put_blob_upload demo_sha 5 2 ''sha256:ab'' (Some 7) None [Frame ''ab''] Io_ok ?rg
      = (Some (Inl (ApiError BAD_REQUEST SizeInvalid)), rg1)" "rg_uploads rg1 2 \<noteq> None"
    by (simp add: put_blob_upload_def put_begin_def post_upload_def empty_registry_def locked_inner_def expected_size_def put_finish_def wrong_size_def
        upload_step_def event_error_def written_def grow_def append_tmp_def set_upload_def Let_def)
  from failed_put_strands_upload [OF l t p, of "[PutBegin 2 ''sha256:ab'' None None, Reap 99999 3]"] p(1)
  show ?thesis by (intro exI [of _ rg1]) simp
qed

end
