(* ===== verification/Docker_Images.thy ===== *)
theory Docker_Images
  imports Docker_Uploads
begin

text \<open>
  The images of the docker registry: how a manifest is checked and stored, how it is fetched
  (\<open>src/bin/server/docker_web.rs\<close>), and which images and blobs the hourly pruning keeps
  (\<open>prune_inner\<close> in \<open>src/bin/server/docker.rs\<close>). The blobs are the map of theory
  \<open>Docker_Uploads\<close>; parsing a manifest or an image config, and whether bytes are UTF-8, are
  parameters. Times are exact seconds.
\<close>

section \<open>Manifests and rows\<close>

record manifest_layer =
  ml_digest :: string
  ml_size :: nat
  ml_media_type :: string

record manifest =
  mf_config :: string
  mf_layers :: "manifest_layer list"

datatype manifest_or_index = MI_Image manifest | MI_Index "string list"

record docker_image =
  di_id :: int
  di_project :: string
  di_tag :: string
  di_manifest :: string
  di_hash :: string
  di_user :: string
  di_time :: rat
  di_pin :: bool
  di_labels :: "string \<rightharpoonup> string"
  di_removed :: "rat option"
  di_used :: "rat option"
  di_content_type :: "string option"

record docker_row =
  dd_hash :: string
  dd_start :: int
  dd_end :: "int option"

record docker_db =
  dk_images :: "docker_image list"
  dk_deployments :: "docker_row list"
  dk_tag_pins :: "(string \<times> string) list"

text \<open>The code outside: \<open>serde_json\<close> on manifests and configs, UTF-8, and the hash.\<close>

record docker_env =
  de_parse :: "string \<Rightarrow> manifest_or_index option"
  de_labels :: "string \<Rightarrow> (string \<rightharpoonup> string) option option"
  de_utf8 :: "string \<Rightarrow> bool"
  de_sha :: "string \<Rightarrow> string"

definition read_to_string :: "docker_env \<Rightarrow> (string \<rightharpoonup> string) \<Rightarrow> string \<Rightarrow> string option" where
  "read_to_string env blobs d = Option.bind (blobs d) (\<lambda>b. if de_utf8 env b then Some b else None)"

definition sub_manifest_row :: "string \<Rightarrow> string \<Rightarrow> docker_image list \<Rightarrow> string option" where
  "sub_manifest_row project hash images =
     map_option di_manifest (List.find (\<lambda>r. di_project r = project \<and> di_hash r = hash) images)"

section \<open>Checking a manifest\<close>

definition foreign_layer :: "manifest_layer \<Rightarrow> bool" where
  "foreign_layer l =
     (ml_media_type l \<in>
        {''application/vnd.docker.image.rootfs.foreign.diff.tar.gzip'',
         ''application/vnd.oci.image.layer.nondistributable.v1.tar'',
         ''application/vnd.oci.image.layer.nondistributable.v1.tar+gzip'',
         ''application/vnd.oci.image.layer.nondistributable.v1.tar+zstd''})"

definition check_layer :: "(string \<rightharpoonup> string) \<Rightarrow> manifest_layer \<Rightarrow> api_error option" where
  "check_layer blobs l =
     (if \<not> is_docker_hash (ml_digest l) then Some (ApiError BAD_REQUEST ManifestInvalid)
      else if foreign_layer l then None
      else case blobs (ml_digest l) of
        None \<Rightarrow> Some (ApiError NOT_FOUND ManifestBlobUnknown)
      | Some b \<Rightarrow> if length b \<noteq> ml_size l then Some (ApiError BAD_REQUEST ManifestInvalid) else None)"

fun check_layers :: "(string \<rightharpoonup> string) \<Rightarrow> manifest_layer list \<Rightarrow> api_error option" where
  "check_layers blobs [] = None"
| "check_layers blobs (l # ls) =
     (case check_layer blobs l of Some e \<Rightarrow> Some e | None \<Rightarrow> check_layers blobs ls)"

text \<open>\<open>de_labels\<close> gives \<open>None\<close> when the config is not JSON, else the labels it has, if any.\<close>

definition extract_config_labels ::
  "docker_env \<Rightarrow> (string \<rightharpoonup> string) \<Rightarrow> string \<Rightarrow> api_error + (string \<rightharpoonup> string)" where
  "extract_config_labels env blobs digest =
     (if \<not> is_docker_hash digest then Inl (ApiError BAD_REQUEST ManifestInvalid)
      else case read_to_string env blobs digest of
        None \<Rightarrow> Inl (ApiError NOT_FOUND ManifestBlobUnknown)
      | Some config \<Rightarrow>
          (case de_labels env config of
             None \<Rightarrow> Inl (ApiError BAD_REQUEST ManifestInvalid)
           | Some labels \<Rightarrow> Inr (opt_or labels Map.empty)))"

definition validate_image_manifest ::
  "docker_env \<Rightarrow> (string \<rightharpoonup> string) \<Rightarrow> manifest \<Rightarrow> api_error + (string \<rightharpoonup> string)" where
  "validate_image_manifest env blobs m =
     (case check_layers blobs (mf_layers m) of
        Some e \<Rightarrow> Inl e
      | None \<Rightarrow> extract_config_labels env blobs (mf_config m))"

definition index_entry ::
  "docker_env \<Rightarrow> (string \<rightharpoonup> string) \<Rightarrow> docker_image list \<Rightarrow> string \<Rightarrow> string \<Rightarrow> api_error + string" where
  "index_entry env blobs images name digest =
     (if \<not> is_docker_hash digest then Inl (ApiError BAD_REQUEST ManifestInvalid)
      else if blobs digest \<noteq> None
      then (case read_to_string env blobs digest of
              None \<Rightarrow> Inl (ApiError INTERNAL_SERVER_ERROR Unknown)
            | Some s \<Rightarrow> Inr s)
      else case sub_manifest_row name digest images of
             None \<Rightarrow> Inl (ApiError NOT_FOUND ManifestBlobUnknown)
           | Some s \<Rightarrow> Inr s)"

fun validate_image_index ::
  "docker_env \<Rightarrow> (string \<rightharpoonup> string) \<Rightarrow> docker_image list \<Rightarrow> string \<Rightarrow> string list
    \<Rightarrow> (string \<rightharpoonup> string) \<Rightarrow> api_error + (string \<rightharpoonup> string)" where
  "validate_image_index env blobs images name [] labels = Inr labels"
| "validate_image_index env blobs images name (d # ds) labels =
     (case index_entry env blobs images name d of
        Inl e \<Rightarrow> Inl e
      | Inr s \<Rightarrow>
          (case de_parse env s of
             Some (MI_Image m) \<Rightarrow>
               (case extract_config_labels env blobs (mf_config m) of
                  Inl e \<Rightarrow> Inl e
                | Inr ls \<Rightarrow> validate_image_index env blobs images name ds (labels ++ ls))
           | _ \<Rightarrow> validate_image_index env blobs images name ds labels))"

section \<open>Putting and getting a manifest\<close>

definition next_image_id :: "docker_image list \<Rightarrow> int" where
  "next_image_id images = fold max (map di_id images) 0 + 1"

definition put_manifest ::
  "docker_env \<Rightarrow> bool \<Rightarrow> (string \<rightharpoonup> string) \<Rightarrow> string \<Rightarrow> rat \<Rightarrow> string \<Rightarrow> string \<Rightarrow> string \<Rightarrow> string
    \<Rightarrow> docker_db \<Rightarrow> (api_error + string) \<times> docker_db" where
  "put_manifest env read_only blobs user now name reference content_type body db =
     (if \<not> de_utf8 env body then (Inl (ApiError INTERNAL_SERVER_ERROR Unknown), db)
      else if read_only then (Inl (ApiError SERVICE_UNAVAILABLE Unsupported), db)
      else case (case de_parse env body of
                   None \<Rightarrow> Inl (ApiError BAD_REQUEST ManifestInvalid)
                 | Some (MI_Image m) \<Rightarrow> validate_image_manifest env blobs m
                 | Some (MI_Index ds) \<Rightarrow> validate_image_index env blobs (dk_images db) name ds Map.empty) of
        Inl e \<Rightarrow> (Inl e, db)
      | Inr labels \<Rightarrow>
          (let hash = digest_of (de_sha env) body;
               kept = filter (\<lambda>r. \<not> (di_project r = name \<and> di_tag r = reference \<and> di_hash r = hash)) (dk_images db);
               row = \<lparr>di_id = next_image_id kept, di_project = name, di_tag = reference, di_manifest = body,
                      di_hash = hash, di_user = user, di_time = now, di_pin = False, di_labels = labels,
                      di_removed = None, di_used = None, di_content_type = Some content_type\<rparr>
           in (Inr hash, db\<lparr>dk_images := kept @ [row]\<rparr>)))"

text \<open>\<open>ORDER BY `time` DESC LIMIT 1\<close>: the first row of greatest time.\<close>

fun latest :: "docker_image list \<Rightarrow> docker_image option" where
  "latest [] = None"
| "latest (r # rs) =
     (case latest rs of
        None \<Rightarrow> Some r
      | Some r' \<Rightarrow> Some (if di_time r < di_time r' then r' else r))"

definition DEFAULT_CONTENT_TYPE :: string where
  "DEFAULT_CONTENT_TYPE = ''application/vnd.docker.distribution.manifest.v2+json''"

definition get_manifest :: "string \<Rightarrow> string \<Rightarrow> docker_db \<Rightarrow> api_error + string \<times> string \<times> string" where
  "get_manifest name reference db =
     (let bare = (case strip_prefix ''sha256:'' reference of Some v \<Rightarrow> v | None \<Rightarrow> reference);
          prefixed = ''sha256:'' @ bare
      in case latest (filter (\<lambda>r. di_project r = name
                  \<and> (di_tag r = reference \<or> di_hash r = prefixed \<or> di_hash r = bare)) (dk_images db)) of
           None \<Rightarrow> Inl (ApiError NOT_FOUND ManifestUnknown)
         | Some r \<Rightarrow> Inr (opt_or (di_content_type r) DEFAULT_CONTENT_TYPE, di_hash r, di_manifest r))"

section \<open>Reporting the images in use\<close>

definition to_ascii_lowercase :: "string \<Rightarrow> string" where
  "to_ascii_lowercase s =
     map (\<lambda>c. let n = (of_char c :: nat) in if 65 \<le> n \<and> n \<le> 90 then char_of (n + 32) else c) s"

definition used_image :: "string \<Rightarrow> string option" where
  "used_image s =
     Option.bind (split_once ''@'' s) (\<lambda>(_, i).
       let i = to_ascii_lowercase i
       in Option.bind (strip_prefix ''sha256:'' i) (\<lambda>t.
            if list_all (\<lambda>c. alnum c \<and> \<not> (65 \<le> (of_char c :: nat) \<and> (of_char c :: nat) \<le> 90)) t then Some i else None))"

text \<open>The value tells whether the token of the configuration was given.\<close>

definition used_images ::
  "string option \<Rightarrow> bool \<Rightarrow> rat \<Rightarrow> string \<Rightarrow> string list \<Rightarrow> docker_db \<Rightarrow> bool \<times> docker_db" where
  "used_images config_token read_only now given_token images db =
     (if \<not> (case config_token of None \<Rightarrow> False | Some v \<Rightarrow> cost_time_compare (bytes v) (bytes given_token))
      then (False, db)
      else if read_only then (False, db)
      else (let hashes = List.map_filter used_image images
            in (True, db\<lparr>dk_images := map (\<lambda>r. if di_hash r \<in> set hashes then r\<lparr>di_used := Some now\<rparr> else r)
                                       (dk_images db)\<rparr>)))"

section \<open>What pruning keeps\<close>

record prune_row =
  pr_start :: "int option"
  pr_end :: "int option"
  pr_active :: int
  pr_newest :: "int option"
  pr_tag_pin :: bool

fun min_of :: "int list \<Rightarrow> int option" where
  "min_of [] = None"
| "min_of (x # xs) = Some (fold min xs x)"

fun max_of :: "int list \<Rightarrow> int option" where
  "max_of [] = None"
| "max_of (x # xs) = Some (fold max xs x)"

text \<open>The columns the query adds to an image.\<close>

definition prune_columns :: "docker_db \<Rightarrow> docker_image \<Rightarrow> prune_row" where
  "prune_columns db r =
     (let ds = filter (\<lambda>d. dd_hash d = di_hash r) (dk_deployments db);
          ends = List.map_filter dd_end ds
      in \<lparr>pr_start = min_of (map dd_start ds), pr_end = max_of ends,
          pr_active = int (length ds) - int (length ends),
          pr_newest = max_of (map di_id (filter (\<lambda>x. di_project x = di_project r \<and> di_tag x = di_tag r) (dk_images db))),
          pr_tag_pin = ((di_project r, di_tag r) \<in> set (dk_tag_pins db))\<rparr>)"

definition grace :: rat where "grace = 60 * 60 * 24 * 14"
definition tmp_ci_grace :: rat where "tmp_ci_grace = 60 * 60"

definition keep_image :: "rat \<Rightarrow> docker_image \<Rightarrow> prune_row \<Rightarrow> bool" where
  "keep_image now r p =
     (if starts_with ''tmp_ci_'' (di_tag r)
      then di_pin r \<or> 0 < pr_active p \<or> now < di_time r + tmp_ci_grace
      else di_pin r
        \<or> (pr_newest p = Some (di_id r) \<and> pr_tag_pin p)
        \<or> (di_tag r \<in> {''latest'', ''master''} \<and> pr_newest p = Some (di_id r))
        \<or> 0 < pr_active p
        \<or> (case (pr_start p, pr_end p) of
             (Some s, Some e) \<Rightarrow> now - of_int s < 2 * of_int (e - s) + grace
           | _ \<Rightarrow> False)
        \<or> (case di_used r of Some u \<Rightarrow> now - u < 2 * (u - di_time r) + grace | None \<Rightarrow> False)
        \<or> now < di_time r + grace)"

section \<open>The blobs an image needs\<close>

text \<open>What the walk looks at: the file names read at the start, the files, and the images.\<close>

record walk_env =
  we_env :: docker_env
  we_files :: "string set"
  we_blobs :: "string \<rightharpoonup> string"
  we_project :: string
  we_images :: "docker_image list"

text \<open>The layers of an image up to the first one that is missing.\<close>

fun add_layers :: "string set \<Rightarrow> manifest_layer list \<Rightarrow> string set \<Rightarrow> string set \<times> bool" where
  "add_layers files [] refs = (refs, False)"
| "add_layers files (l # ls) refs =
     (if ml_digest l \<notin> files then (refs, True) else add_layers files ls (insert (ml_digest l) refs))"

text \<open>The manifests of an index, pushed on the stack, whose top is the head of the list.\<close>

fun push_subs :: "walk_env \<Rightarrow> string list \<Rightarrow> string list \<Rightarrow> string set \<Rightarrow> string list \<times> string set \<times> bool" where
  "push_subs w [] st refs = (st, refs, False)"
| "push_subs w (d # ds) st refs =
     (if d \<in> we_files w
      then (case read_to_string (we_env w) (we_blobs w) d of
              None \<Rightarrow> (st, insert d refs, True)
            | Some s \<Rightarrow> push_subs w ds (s # st) (insert d refs))
      else case sub_manifest_row (we_project w) d (we_images w) of
             None \<Rightarrow> (st, refs, True)
           | Some s \<Rightarrow> push_subs w ds (s # st) refs)"

partial_function (option) walk_refs ::
  "walk_env \<Rightarrow> string list \<Rightarrow> string set \<Rightarrow> bool \<Rightarrow> (string set \<times> bool) option" where
  "walk_refs w st refs missing =
     (case st of
        [] \<Rightarrow> Some (refs, missing)
      | j # st \<Rightarrow>
          (case de_parse (we_env w) j of
             None \<Rightarrow> Some (refs, True)
           | Some (MI_Image m) \<Rightarrow>
               if mf_config m \<notin> we_files w then Some (refs, True)
               else (case add_layers (we_files w) (mf_layers m) (insert (mf_config m) refs) of
                       (refs', miss) \<Rightarrow> walk_refs w st refs' (missing \<or> miss))
           | Some (MI_Index ds) \<Rightarrow>
               (case push_subs w ds st refs of
                  (st', refs', miss) \<Rightarrow>
                    if miss then Some (refs', True) else walk_refs w st' refs' missing)))"

declare walk_refs.simps [code]

section \<open>Pruning\<close>

text \<open>
  What a pruning decides before it removes anything: the images to be marked as removed and the
  blobs in use. The file names, the rows and the files themselves are read at different times.
\<close>

fun prune_rows ::
  "docker_env \<Rightarrow> string set \<Rightarrow> (string \<rightharpoonup> string) \<Rightarrow> rat \<Rightarrow> docker_db \<Rightarrow> docker_image list
    \<Rightarrow> int list \<Rightarrow> string set \<Rightarrow> (int list \<times> string set) option" where
  "prune_rows env files blobs now db [] gone used = Some (gone, used)"
| "prune_rows env files blobs now db (r # rs) gone used =
     (case walk_refs \<lparr>we_env = env, we_files = files, we_blobs = blobs, we_project = di_project r,
             we_images = dk_images db\<rparr> [di_manifest r] {} False of
        None \<Rightarrow> None
      | Some (refs, missing) \<Rightarrow>
          if keep_image now r (prune_columns db r) \<and> \<not> missing
          then prune_rows env files blobs now db rs gone (used \<union> refs)
          else prune_rows env files blobs now db rs (gone @ [di_id r]) used)"

definition prune_plan ::
  "docker_env \<Rightarrow> string set \<Rightarrow> (string \<rightharpoonup> string) \<Rightarrow> rat \<Rightarrow> docker_db \<Rightarrow> (int list \<times> string set) option" where
  "prune_plan env files blobs now db =
     prune_rows env files blobs now db (filter (\<lambda>r. di_removed r = None) (dk_images db)) [] {}"

definition mark_removed :: "rat \<Rightarrow> int list \<Rightarrow> docker_db \<Rightarrow> docker_db" where
  "mark_removed now gone db =
     db\<lparr>dk_images := map (\<lambda>r. if di_id r \<in> set gone then r\<lparr>di_removed := Some now\<rparr> else r) (dk_images db)\<rparr>"

definition remove_blobs :: "string set \<Rightarrow> (string \<rightharpoonup> string) \<Rightarrow> (string \<rightharpoonup> string)" where
  "remove_blobs gone blobs = (\<lambda>d. if d \<in> gone then None else blobs d)"

text \<open>The whole of it when nothing comes in between.\<close>

definition prune_inner ::
  "docker_env \<Rightarrow> rat \<Rightarrow> docker_db \<Rightarrow> (string \<rightharpoonup> string) \<Rightarrow> (docker_db \<times> (string \<rightharpoonup> string)) option" where
  "prune_inner env now db blobs =
     map_option (\<lambda>(gone, used). (mark_removed now gone db, remove_blobs (dom blobs - used) blobs))
       (prune_plan env (dom blobs) blobs now db)"

section \<open>What an image needs, said without the walk\<close>

text \<open>The manifests an index leads to, and the digests it names that are files.\<close>

definition sub_manifest :: "walk_env \<Rightarrow> string \<Rightarrow> string option" where
  "sub_manifest w d =
     (if d \<in> we_files w then read_to_string (we_env w) (we_blobs w) d
      else sub_manifest_row (we_project w) d (we_images w))"

definition subs :: "walk_env \<Rightarrow> string \<Rightarrow> string set" where
  "subs w j =
     (case de_parse (we_env w) j of
        Some (MI_Index ds) \<Rightarrow> {s. \<exists>d \<in> set ds. sub_manifest w d = Some s}
      | _ \<Rightarrow> {})"

inductive part_of :: "walk_env \<Rightarrow> string \<Rightarrow> string \<Rightarrow> bool" for w where
  part_self: "part_of w j j"
| part_sub: "s \<in> subs w j \<Longrightarrow> part_of w k s \<Longrightarrow> part_of w k j"

definition own_blobs :: "walk_env \<Rightarrow> string \<Rightarrow> string set" where
  "own_blobs w k =
     (case de_parse (we_env w) k of
        Some (MI_Image m) \<Rightarrow> insert (mf_config m) (ml_digest ` set (mf_layers m))
      | Some (MI_Index ds) \<Rightarrow> set ds \<inter> we_files w
      | None \<Rightarrow> {})"

definition own_complete :: "walk_env \<Rightarrow> string \<Rightarrow> bool" where
  "own_complete w k =
     (case de_parse (we_env w) k of
        Some (MI_Image m) \<Rightarrow> insert (mf_config m) (ml_digest ` set (mf_layers m)) \<subseteq> we_files w
      | Some (MI_Index ds) \<Rightarrow> (\<forall>d \<in> set ds. sub_manifest w d \<noteq> None)
      | None \<Rightarrow> False)"

definition needed_blobs :: "walk_env \<Rightarrow> string \<Rightarrow> string set" where
  "needed_blobs w j = (\<Union>k \<in> {k. part_of w k j}. own_blobs w k)"

definition complete :: "walk_env \<Rightarrow> string \<Rightarrow> bool" where
  "complete w j = (\<forall>k. part_of w k j \<longrightarrow> own_complete w k)"

lemma part_of_iff: "part_of w k j \<longleftrightarrow> k = j \<or> (\<exists>s \<in> subs w j. part_of w k s)"
  by (auto elim: part_of.cases intro: part_of.intros)

lemma needed_blobs_unfold: "needed_blobs w j = own_blobs w j \<union> (\<Union>s \<in> subs w j. needed_blobs w s)"
  unfolding needed_blobs_def by (subst part_of_iff) auto

lemma complete_unfold: "complete w j \<longleftrightarrow> own_complete w j \<and> (\<forall>s \<in> subs w j. complete w s)"
  unfolding complete_def by (subst part_of_iff) auto

lemma complete_needed: "complete w j \<Longrightarrow> needed_blobs w j \<subseteq> we_files w"
  by (fastforce simp: complete_def needed_blobs_def own_complete_def own_blobs_def
      split: option.splits manifest_or_index.splits)

lemma add_layers_result:
  assumes "add_layers files ls refs = (refs', miss)"
  shows "miss \<longleftrightarrow> \<not> ml_digest ` set ls \<subseteq> files"
    and "\<not> miss \<Longrightarrow> refs' = refs \<union> ml_digest ` set ls"
  using assms by (induction files ls refs rule: add_layers.induct) (auto split: if_splits)

lemma push_subs_result:
  assumes "push_subs w ds st refs = (st', refs', miss)"
  shows "miss \<longleftrightarrow> (\<exists>d \<in> set ds. sub_manifest w d = None)"
    and "\<not> miss \<Longrightarrow> refs' = refs \<union> (set ds \<inter> we_files w)
          \<and> set st' = set st \<union> {s. \<exists>d \<in> set ds. sub_manifest w d = Some s}"
proof -
  have "(miss \<longleftrightarrow> (\<exists>d \<in> set ds. sub_manifest w d = None))
    \<and> (\<not> miss \<longrightarrow> refs' = refs \<union> (set ds \<inter> we_files w)
          \<and> set st' = set st \<union> {s. \<exists>d \<in> set ds. sub_manifest w d = Some s})"
    using assms
  proof (induction w ds st refs rule: push_subs.induct)
    case (2 w d ds st refs)
    show ?case
    proof (cases "sub_manifest w d")
      case None
      with 2(3) show ?thesis by (auto simp: sub_manifest_def split: if_splits option.splits)
    next
      case (Some s)
      have "push_subs w ds (s # st) (if d \<in> we_files w then insert d refs else refs) = (st', refs', miss)"
        using 2(3) Some by (auto simp: sub_manifest_def split: if_splits option.splits)
      moreover from this have "(miss \<longleftrightarrow> (\<exists>d \<in> set ds. sub_manifest w d = None))
        \<and> (\<not> miss \<longrightarrow> refs' = (if d \<in> we_files w then insert d refs else refs) \<union> (set ds \<inter> we_files w)
              \<and> set st' = set (s # st) \<union> {s. \<exists>d \<in> set ds. sub_manifest w d = Some s})"
        using 2(1,2) Some by (cases "d \<in> we_files w") (simp_all add: sub_manifest_def)
      ultimately show ?thesis using Some by auto
    qed
  qed simp
  then show "miss \<longleftrightarrow> (\<exists>d \<in> set ds. sub_manifest w d = None)"
    and "\<not> miss \<Longrightarrow> refs' = refs \<union> (set ds \<inter> we_files w)
          \<and> set st' = set st \<union> {s. \<exists>d \<in> set ds. sub_manifest w d = Some s}" by blast+
qed

text \<open>The walk finds out whether everything is there, and if so collects just what is needed.\<close>

lemma walk_refs_result:
  assumes "walk_refs w st refs missing = Some (refs', miss')"
  shows "(miss' \<longleftrightarrow> missing \<or> (\<exists>j \<in> set st. \<not> complete w j))
    \<and> (\<not> miss' \<longrightarrow> refs' = refs \<union> (\<Union>j \<in> set st. needed_blobs w j))"
  using assms
proof (induction w st refs missing "(refs', miss')"
    rule: walk_refs.raw_induct [rotated, consumes 1, case_names walk])
  case (walk rec w st refs missing)
  show ?case
  proof (cases st)
    case Nil
    with walk(2) show ?thesis by simp
  next
    case (Cons j st1)
    show ?thesis
    proof (cases "de_parse (we_env w) j")
      case None
      then have "\<not> complete w j" by (simp add: complete_unfold [of w j] own_complete_def)
      with None Cons walk(2) show ?thesis by auto
    next
      case (Some mi)
      show ?thesis
      proof (cases mi)
        case (MI_Image m)
        have subs: "subs w j = {}" using Some MI_Image by (simp add: subs_def)
        show ?thesis
        proof (cases "mf_config m \<in> we_files w")
          case False
          then have "\<not> complete w j" using Some MI_Image by (simp add: complete_unfold [of w j] own_complete_def)
          with False Some MI_Image Cons walk(2) show ?thesis by auto
        next
          case True
          obtain r1 m1 where l: "add_layers (we_files w) (mf_layers m) (insert (mf_config m) refs) = (r1, m1)"
            by (cases "add_layers (we_files w) (mf_layers m) (insert (mf_config m) refs)")
          note l' = add_layers_result [OF l]
          have "m1 \<longleftrightarrow> \<not> complete w j"
            using l'(1) True Some MI_Image subs by (simp add: complete_unfold [of w j] own_complete_def)
          moreover have "\<not> m1 \<Longrightarrow> r1 = refs \<union> needed_blobs w j"
            using l'(2) Some MI_Image subs by (auto simp: needed_blobs_unfold [of w j] own_blobs_def)
          moreover have "rec w st1 r1 (missing \<or> m1) = Some (refs', miss')"
            using walk(2) Cons Some MI_Image True l by simp
          from walk(1) [OF this] have "(miss' \<longleftrightarrow> (missing \<or> m1) \<or> (\<exists>j \<in> set st1. \<not> complete w j))
            \<and> (\<not> miss' \<longrightarrow> refs' = r1 \<union> (\<Union>j \<in> set st1. needed_blobs w j))" .
          ultimately show ?thesis using Cons by auto
        qed
      next
        case (MI_Index ds)
        obtain s1 r1 m1 where p: "push_subs w ds st1 refs = (s1, r1, m1)"
          by (cases "push_subs w ds st1 refs")
        note p' = push_subs_result [OF p]
        have subs: "subs w j = {s. \<exists>d \<in> set ds. sub_manifest w d = Some s}"
          using Some MI_Index by (simp add: subs_def)
        have own: "own_complete w j \<longleftrightarrow> \<not> m1" "own_blobs w j = set ds \<inter> we_files w"
          using p'(1) Some MI_Index by (auto simp: own_complete_def own_blobs_def)
        show ?thesis
        proof (cases m1)
          case True
          then have "\<not> complete w j" using own by (simp add: complete_unfold [of w j])
          with True Some MI_Index Cons p walk(2) show ?thesis by auto
        next
          case False
          have "rec w s1 r1 missing = Some (refs', miss')"
            using walk(2) Cons Some MI_Index False p by simp
          from walk(1) [OF this] have "(miss' \<longleftrightarrow> missing \<or> (\<exists>j \<in> set s1. \<not> complete w j))
            \<and> (\<not> miss' \<longrightarrow> refs' = r1 \<union> (\<Union>j \<in> set s1. needed_blobs w j))" .
          moreover have "(\<exists>i \<in> set s1. \<not> complete w i) \<longleftrightarrow> (\<exists>i \<in> set st. \<not> complete w i)"
            using p'(2) False subs own Cons complete_unfold [of w j] by auto
          moreover have "r1 \<union> (\<Union>j \<in> set s1. needed_blobs w j) = refs \<union> (\<Union>j \<in> set st. needed_blobs w j)"
            using p'(2) False subs own Cons needed_blobs_unfold [of w j] by auto
          ultimately show ?thesis by simp
        qed
      qed
    qed
  qed
qed

lemma walk_refs_returns:
  assumes "wf {(s, j). s \<in> subs w j}"
  shows "\<exists>r. walk_refs w st refs missing = Some r"
proof -
  have one: "\<exists>r. walk_refs w (j # st) refs missing = Some r"
    if "\<And>refs missing. \<exists>r. walk_refs w st refs missing = Some r" for j st refs missing
    using assms that
  proof (induction j arbitrary: st refs missing)
    case (less j)
    have pushed: "\<exists>r. walk_refs w (ss @ st) refs missing = Some r" if "set ss \<subseteq> subs w j" for ss refs missing
      using that
    proof (induction ss arbitrary: refs missing)
      case Nil
      show ?case unfolding append_Nil by (rule less.prems)
    next
      case (Cons s ss)
      then show ?case using less.IH [of s "ss @ st"] by simp
    qed
    have "\<exists>ss. set ss \<subseteq> {s. \<exists>d \<in> set ds. sub_manifest w d = Some s} \<and> st' = ss @ st0"
      if "push_subs w ds st0 refs = (st', refs', False)" for ds st0 st' refs refs'
      using that
    proof (induction w ds st0 refs rule: push_subs.induct)
      case (2 w d ds st0 refs)
      then obtain s where s: "sub_manifest w d = Some s"
        "push_subs w ds (s # st0) (if d \<in> we_files w then insert d refs else refs) = (st', refs', False)"
        by (auto simp: sub_manifest_def split: if_splits option.splits)
      with 2(1,2) obtain ss where "set ss \<subseteq> {s. \<exists>d \<in> set ds. sub_manifest w d = Some s}" "st' = ss @ s # st0"
        by (cases "d \<in> we_files w") (auto simp: sub_manifest_def)
      with s show ?case by (intro exI [of _ "ss @ [s]"]) auto
    qed simp
    then have push: "\<exists>ss. set ss \<subseteq> subs w j \<and> st' = ss @ st"
      if "de_parse (we_env w) j = Some (MI_Index ds)" "push_subs w ds st refs = (st', refs', False)" for ds st' refs refs'
      using that by (fastforce simp: subs_def)
    show ?case
      using pushed push less.prems
      by (subst walk_refs.simps)
        (auto split: option.splits manifest_or_index.splits prod.splits; metis)
  qed
  show ?thesis
  proof (induction st arbitrary: refs missing)
    case Nil
    then show ?case by (simp add: walk_refs.simps)
  qed (rule one)
qed

section \<open>Properties of pruning\<close>

definition image_walk ::
  "docker_env \<Rightarrow> string set \<Rightarrow> (string \<rightharpoonup> string) \<Rightarrow> docker_db \<Rightarrow> docker_image \<Rightarrow> walk_env" where
  "image_walk env files blobs db r =
     \<lparr>we_env = env, we_files = files, we_blobs = blobs, we_project = di_project r, we_images = dk_images db\<rparr>"

definition kept ::
  "docker_env \<Rightarrow> string set \<Rightarrow> (string \<rightharpoonup> string) \<Rightarrow> rat \<Rightarrow> docker_db \<Rightarrow> docker_image \<Rightarrow> bool" where
  "kept env files blobs now db r =
     (keep_image now r (prune_columns db r) \<and> complete (image_walk env files blobs db r) (di_manifest r))"

definition image_blobs ::
  "docker_env \<Rightarrow> string set \<Rightarrow> (string \<rightharpoonup> string) \<Rightarrow> docker_db \<Rightarrow> docker_image \<Rightarrow> string set" where
  "image_blobs env files blobs db r = needed_blobs (image_walk env files blobs db r) (di_manifest r)"

lemma prune_rows_result:
  assumes "prune_rows env files blobs now db rs gone used = Some (gone', used')"
  shows "gone' = gone @ map di_id (filter (\<lambda>r. \<not> kept env files blobs now db r) rs)
    \<and> used' = used \<union> (\<Union>r \<in> {r \<in> set rs. kept env files blobs now db r}. image_blobs env files blobs db r)"
  using assms
proof (induction rs arbitrary: gone used)
  case (Cons r rs)
  let ?w = "image_walk env files blobs db r"
  obtain refs miss where walk: "walk_refs ?w [di_manifest r] {} False = Some (refs, miss)"
    using Cons.prems by (auto simp: image_walk_def split: option.splits)
  have w: "miss \<longleftrightarrow> \<not> complete ?w (di_manifest r)" "\<not> miss \<Longrightarrow> refs = image_blobs env files blobs db r"
    using walk_refs_result [OF walk] by (simp_all add: image_blobs_def)
  show ?case
  proof (cases "kept env files blobs now db r")
    case True
    then have "prune_rows env files blobs now db rs gone (used \<union> refs) = Some (gone', used')"
      using Cons.prems walk w by (simp add: image_walk_def kept_def)
    from Cons.IH [OF this] True w show ?thesis by (auto simp: kept_def)
  next
    case False
    then have "prune_rows env files blobs now db rs (gone @ [di_id r]) used = Some (gone', used')"
      using Cons.prems walk w by (auto simp: image_walk_def kept_def)
    from Cons.IH [OF this] False show ?thesis by auto
  qed
qed simp

lemma prune_inner_result:
  assumes "prune_inner env now db blobs = Some (db', blobs')"
  defines "live \<equiv> {r \<in> set (dk_images db). di_removed r = None}"
  shows "db' = mark_removed now (map di_id (filter (\<lambda>r. \<not> kept env (dom blobs) blobs now db r)
      (filter (\<lambda>r. di_removed r = None) (dk_images db)))) db"
    and "blobs' = remove_blobs (dom blobs - (\<Union>r \<in> {r \<in> live. kept env (dom blobs) blobs now db r}.
      image_blobs env (dom blobs) blobs db r)) blobs"
proof -
  obtain gone used where p: "prune_plan env (dom blobs) blobs now db = Some (gone, used)"
    "db' = mark_removed now gone db" "blobs' = remove_blobs (dom blobs - used) blobs"
    using assms(1) by (auto simp: prune_inner_def)
  from prune_rows_result [OF p(1) [unfolded prune_plan_def]]
  have "gone = map di_id (filter (\<lambda>r. \<not> kept env (dom blobs) blobs now db r)
      (filter (\<lambda>r. di_removed r = None) (dk_images db)))"
    "used = (\<Union>r \<in> {r \<in> live. kept env (dom blobs) blobs now db r}. image_blobs env (dom blobs) blobs db r)"
    by (auto simp: live_def)
  with p show "db' = mark_removed now (map di_id (filter (\<lambda>r. \<not> kept env (dom blobs) blobs now db r)
      (filter (\<lambda>r. di_removed r = None) (dk_images db)))) db"
    and "blobs' = remove_blobs (dom blobs - (\<Union>r \<in> {r \<in> live. kept env (dom blobs) blobs now db r}.
      image_blobs env (dom blobs) blobs db r)) blobs" by simp_all
qed

lemma prune_images:
  assumes "prune_inner env now db blobs = Some (db', blobs')" and "distinct (map di_id (dk_images db))"
  shows "dk_images db' = map (\<lambda>r. if di_removed r = None \<and> \<not> kept env (dom blobs) blobs now db r
        then r\<lparr>di_removed := Some now\<rparr> else r) (dk_images db)"
proof -
  let ?gone = "map di_id (filter (\<lambda>r. \<not> kept env (dom blobs) blobs now db r)
      (filter (\<lambda>r. di_removed r = None) (dk_images db)))"
  have "di_id r \<in> set ?gone \<longleftrightarrow> di_removed r = None \<and> \<not> kept env (dom blobs) blobs now db r"
    if r: "r \<in> set (dk_images db)" for r
  proof -
    have "di_id r \<in> set ?gone \<longleftrightarrow>
        (\<exists>r' \<in> set (dk_images db). di_id r' = di_id r \<and> di_removed r' = None \<and> \<not> kept env (dom blobs) blobs now db r')"
      unfolding set_map set_filter image_iff by fastforce
    moreover have "r' = r" if "r' \<in> set (dk_images db)" "di_id r' = di_id r" for r'
      using assms(2) that r unfolding distinct_map by (blast dest: inj_onD)
    ultimately show ?thesis using r by metis
  qed
  then show ?thesis
    unfolding prune_inner_result(1) [OF assms(1)] mark_removed_def by simp
qed

lemma prune_blobs:
  assumes "prune_inner env now db blobs = Some (db', blobs')"
  shows "blobs' d = (if \<exists>r \<in> set (dk_images db). di_removed r = None \<and> kept env (dom blobs) blobs now db r
           \<and> d \<in> image_blobs env (dom blobs) blobs db r then blobs d else None)"
  unfolding prune_inner_result(2) [OF assms] remove_blobs_def by auto

text \<open>C21: a pruning that nothing interrupts is exact. An image is kept as it is when the rules for
  its tag, age, pins and deployments say so and everything it needs, through any indexes, is
  there; any other live image is marked as removed. Every blob a kept image needs is kept, and
  no other blob.\<close>

theorem prune_exact:
  assumes "prune_inner env now db blobs = Some (db', blobs')"
    and "distinct (map di_id (dk_images db))"
  shows "dk_images db' = map (\<lambda>r. if di_removed r = None \<and> \<not> kept env (dom blobs) blobs now db r
        then r\<lparr>di_removed := Some now\<rparr> else r) (dk_images db)
    \<and> blobs' d = (if \<exists>r \<in> set (dk_images db). di_removed r = None \<and> kept env (dom blobs) blobs now db r
         \<and> d \<in> image_blobs env (dom blobs) blobs db r then blobs d else None)
    \<and> (\<forall>r \<in> set (dk_images db). di_removed r = None \<and> kept env (dom blobs) blobs now db r
         \<and> d \<in> image_blobs env (dom blobs) blobs db r \<longrightarrow> blobs' d \<noteq> None)"
proof -
  have "blobs d \<noteq> None" if "kept env (dom blobs) blobs now db r" "d \<in> image_blobs env (dom blobs) blobs db r" for r
    using that complete_needed [of "image_walk env (dom blobs) blobs db r" "di_manifest r"]
    by (auto simp: kept_def image_blobs_def image_walk_def)
  then show ?thesis using prune_images [OF assms] prune_blobs [OF assms(1), of d] by auto
qed

text \<open>Further result: pruning ends whenever no manifest contains itself through indexes, which no manifest does
  that is found by the digest of its bytes.\<close>

theorem prune_returns:
  assumes "\<And>r. r \<in> set (dk_images db) \<Longrightarrow> wf {(s, j). s \<in> subs (image_walk env (dom blobs) blobs db r) j}"
  shows "\<exists>db' blobs'. prune_inner env now db blobs = Some (db', blobs')"
proof -
  have "\<exists>gone' used'. prune_rows env (dom blobs) blobs now db rs gone used = Some (gone', used')"
    if "set rs \<subseteq> set (dk_images db)" for rs gone used
    using that
  proof (induction rs arbitrary: gone used)
    case (Cons r rs)
    then have "wf {(s, j). s \<in> subs (image_walk env (dom blobs) blobs db r) j}" by (intro assms) simp
    from walk_refs_returns [OF this] obtain x where
      "walk_refs (image_walk env (dom blobs) blobs db r) [di_manifest r] {} False = Some x" by blast
    with Cons show ?case by (cases x) (simp add: image_walk_def)
  qed simp
  from this [of "filter (\<lambda>r. di_removed r = None) (dk_images db)" "[]" "{}"] show ?thesis
    by (auto simp: prune_inner_def prune_plan_def)
qed

lemma check_layers_None: "check_layers blobs ls = None \<longleftrightarrow> (\<forall>l \<in> set ls. check_layer blobs l = None)"
  by (induction ls) (auto split: option.splits)

lemma put_manifest_result:
  assumes "put_manifest env False blobs user now name reference ct body db = (Inr hash, db')"
  shows "\<exists>rows r. dk_images db' = rows @ [r] \<and> set rows \<subseteq> set (dk_images db)
    \<and> di_project r = name \<and> di_tag r = reference \<and> di_manifest r = body \<and> di_hash r = hash
    \<and> di_time r = now \<and> di_content_type r = Some ct \<and> di_removed r = None
    \<and> hash = digest_of (de_sha env) body"
proof -
  let ?hash = "digest_of (de_sha env) body"
  let ?kept = "filter (\<lambda>r. \<not> (di_project r = name \<and> di_tag r = reference \<and> di_hash r = ?hash)) (dk_images db)"
  obtain labels where "hash = ?hash" "db' = db\<lparr>dk_images := ?kept @
      [\<lparr>di_id = next_image_id ?kept, di_project = name, di_tag = reference, di_manifest = body,
        di_hash = ?hash, di_user = user, di_time = now, di_pin = False, di_labels = labels,
        di_removed = None, di_used = None, di_content_type = Some ct\<rparr>]\<rparr>"
    using assms by (auto simp: put_manifest_def Let_def split: if_splits sum.splits)
  then show ?thesis by (intro exI [of _ ?kept] exI) auto
qed

lemma put_manifest_stored:
  assumes "put_manifest env False blobs user now name reference ct body db = (Inr hash, db')"
  shows "\<exists>r. r \<in> set (dk_images db') \<and> last (dk_images db') = r \<and> di_manifest r = body \<and> di_removed r = None
    \<and> di_project r = name \<and> di_tag r = reference \<and> di_hash r = hash"
  using put_manifest_result [OF assms] by (elim exE conjE) simp

text \<open>Further result: images with layers that are hosted elsewhere do not survive. Such layers are accepted when
  the manifest is put, although their blobs are not stored; the next pruning finds them missing
  and marks the image as removed, whatever its tag, its pin and its deployments.\<close>

theorem foreign_layers_pruned:
  assumes "put_manifest env False blobs user now name reference ct body db = (Inr hash, db1)"
    and "de_parse env body = Some (MI_Image m)"
    and "l \<in> set (mf_layers m)" and "blobs (ml_digest l) = None"
    and "prune_inner env later (db1\<lparr>dk_images := map f (dk_images db1)\<rparr>) blobs = Some (db2, blobs2)"
    and "\<And>r. di_manifest (f r) = di_manifest r \<and> di_removed (f r) = di_removed r \<and> di_id (f r) = di_id r"
    and "distinct (map di_id (dk_images db1))"
  shows "foreign_layer l
    \<and> (\<exists>r \<in> set (dk_images db1). di_manifest r = body \<and> di_removed r = None
        \<and> (f r)\<lparr>di_removed := Some later\<rparr> \<in> set (dk_images db2))"
proof -
  have "check_layers blobs (mf_layers m) = None"
    using assms(1,2) by (auto simp: put_manifest_def validate_image_manifest_def split: option.splits if_splits)
  then have "check_layer blobs l = None" using assms(3) by (simp add: check_layers_None)
  then have "foreign_layer l" using assms(4) by (auto simp: check_layer_def split: if_splits)
  obtain r where r: "r \<in> set (dk_images db1)" "di_manifest r = body" "di_removed r = None"
    using put_manifest_stored [OF assms(1)] by blast
  let ?db = "db1\<lparr>dk_images := map f (dk_images db1)\<rparr>"
  have "\<not> own_complete (image_walk env (dom blobs) blobs ?db (f r)) (di_manifest (f r))"
    using assms(2-4,6) r(2) by (auto simp: own_complete_def image_walk_def)
  then have "\<not> kept env (dom blobs) blobs later ?db (f r)"
    unfolding kept_def by (subst complete_unfold) simp
  moreover have "distinct (map di_id (dk_images ?db))" using assms(6,7) by (simp add: o_def)
  ultimately have "(f r)\<lparr>di_removed := Some later\<rparr> \<in> set (dk_images db2)"
    using prune_images [OF assms(5)] r assms(6) by auto
  with \<open>foreign_layer l\<close> r show ?thesis by blast
qed

lemma fold_max_ge: "(x :: int) \<in> set xs \<or> x \<le> a \<Longrightarrow> x \<le> fold max xs a"
  by (induction xs arbitrary: a) (auto intro: max.coboundedI1 max.coboundedI2)

lemma next_image_id_fresh: "next_image_id rs \<notin> di_id ` set rs"
proof
  assume "next_image_id rs \<in> di_id ` set rs"
  then have "next_image_id rs \<le> fold max (map di_id rs) 0" by (intro fold_max_ge) auto
  then show False by (simp add: next_image_id_def)
qed

text \<open>C22: what a push loses to a pruning it meets. The manifest of an image arrives after the pruning
  has listed the files and read the rows and before it removes anything; no row has its project,
  tag and digest yet, and its layers and config, some of which may have been uploaded since, pass
  the checks. Then the manifest is accepted and its row is not marked; but of the blobs that were
  there when the files were listed only those survive that a kept image among the rows of before
  needs, so every other layer it shares with nobody is gone from an image that looks stored.\<close>

theorem prune_races_with_push:
  assumes "prune_plan env (dom blobs) blobs now db = Some (gone, used)"
    and "map_le blobs blobs1"
    and "de_utf8 env body" and "de_parse env body = Some (MI_Image m)"
    and "validate_image_manifest env blobs1 m = Inr labels"
    and "\<forall>r \<in> set (dk_images db). \<not> (di_project r = name \<and> di_tag r = reference
           \<and> di_hash r = digest_of (de_sha env) body)"
  shows "\<exists>db1 r. put_manifest env False blobs1 user later name reference ct body db
        = (Inr (digest_of (de_sha env) body), db1)
      \<and> di_manifest r = body \<and> di_project r = name \<and> di_tag r = reference \<and> di_removed r = None
      \<and> dk_images (mark_removed now gone db1) = dk_images (mark_removed now gone db) @ [r]
      \<and> (\<forall>l \<in> set (mf_layers m). \<not> foreign_layer l \<longrightarrow> blobs1 (ml_digest l) \<noteq> None)
      \<and> (\<forall>d. remove_blobs (dom blobs - used) blobs1 d =
            (if blobs d = None \<or> (\<exists>q \<in> set (dk_images db). di_removed q = None
                 \<and> kept env (dom blobs) blobs now db q \<and> d \<in> image_blobs env (dom blobs) blobs db q)
             then blobs1 d else None))"
proof -
  let ?hash = "digest_of (de_sha env) body"
  let ?r = "\<lparr>di_id = next_image_id (dk_images db), di_project = name, di_tag = reference, di_manifest = body,
      di_hash = ?hash, di_user = user, di_time = later, di_pin = False, di_labels = labels,
      di_removed = None, di_used = None, di_content_type = Some ct\<rparr>"
  let ?db1 = "db\<lparr>dk_images := dk_images db @ [?r]\<rparr>"
  have "filter (\<lambda>r. \<not> (di_project r = name \<and> di_tag r = reference \<and> di_hash r = ?hash)) (dk_images db)
      = dk_images db"
    using assms(6) by (simp add: filter_id_conv)
  then have put: "put_manifest env False blobs1 user later name reference ct body db = (Inr ?hash, ?db1)"
    using assms(3-5) by (simp add: put_manifest_def Let_def)
  note plan = prune_rows_result [OF assms(1) [unfolded prune_plan_def]]
  have "set gone \<subseteq> di_id ` set (dk_images db)" using plan by auto
  then have "next_image_id (dk_images db) \<notin> set gone" using next_image_id_fresh by blast
  then have marked: "dk_images (mark_removed now gone ?db1) = dk_images (mark_removed now gone db) @ [?r]"
    by (simp add: mark_removed_def)
  have layers: "blobs1 (ml_digest l) \<noteq> None" if "l \<in> set (mf_layers m)" "\<not> foreign_layer l" for l
  proof -
    have "check_layer blobs1 l = None"
      using assms(5) that(1) by (auto simp: validate_image_manifest_def check_layers_None split: option.splits)
    then show ?thesis
      using that(2) by (cases "blobs1 (ml_digest l)") (simp_all add: check_layer_def split: if_splits)
  qed
  have left: "remove_blobs (dom blobs - used) blobs1 d =
      (if blobs d = None \<or> (\<exists>q \<in> set (dk_images db). di_removed q = None
           \<and> kept env (dom blobs) blobs now db q \<and> d \<in> image_blobs env (dom blobs) blobs db q)
       then blobs1 d else None)" for d
    using plan by (auto simp: remove_blobs_def)
  from put marked layers left show ?thesis by (intro exI [of _ ?db1] exI [of _ ?r]) simp
qed

lemma latest_last:
  "\<forall>x \<in> set rs. di_time x < di_time r \<Longrightarrow> latest (rs @ [r]) = Some r"
  by (induction rs) simp_all

text \<open>Further result: what was pushed is what is pulled: after a manifest was put, later than the others of its
  project, getting its tag or its digest gives its bytes, its digest and the
  content type it was sent with.\<close>

theorem put_get_manifest:
  assumes "put_manifest env False blobs user now name reference ct body db = (Inr hash, db')"
    and "\<forall>r \<in> set (dk_images db). di_project r = name \<longrightarrow> di_time r < now"
  shows "hash = digest_of (de_sha env) body
    \<and> get_manifest name reference db' = Inr (ct, hash, body)
    \<and> get_manifest name hash db' = Inr (ct, hash, body)"
proof -
  obtain rows r where r: "dk_images db' = rows @ [r]" "set rows \<subseteq> set (dk_images db)"
    "di_project r = name" "di_tag r = reference" "di_manifest r = body" "di_hash r = hash"
    "di_time r = now" "di_content_type r = Some ct" and hash: "hash = digest_of (de_sha env) body"
    using put_manifest_result [OF assms(1)] by (elim exE conjE) (rule that)
  have found: "get_manifest name ref db' = Inr (ct, hash, body)"
    if "ref = reference \<or> ref = hash" for ref
  proof -
    let ?bare = "case strip_prefix ''sha256:'' ref of Some v \<Rightarrow> v | None \<Rightarrow> ref"
    let ?P = "\<lambda>x. di_project x = name \<and> (di_tag x = ref \<or> di_hash x = ''sha256:'' @ ?bare \<or> di_hash x = ?bare)"
    have "?P r"
      using that r(3,4,6) hash
      by (auto simp: digest_of_def split: option.splits)
    moreover have "\<forall>x \<in> set (filter ?P rows). di_time x < di_time r" using r(2,7) assms(2) by auto
    ultimately have "latest (filter ?P (dk_images db')) = Some r"
      using latest_last [of "filter ?P rows" r] r(1) by simp
    then show ?thesis using r by (simp add: get_manifest_def Let_def opt_or_def)
  qed
  then show ?thesis using hash by simp
qed

section \<open>Witnesses\<close>

definition demo_layer :: "string \<Rightarrow> string \<Rightarrow> manifest_layer" where
  "demo_layer d ty = \<lparr>ml_digest = d, ml_size = 5, ml_media_type = ty\<rparr>"

text \<open>Image \<open>a\<close> has a stored layer, image \<open>f\<close> one that is hosted elsewhere; \<open>i\<close> is an index of \<open>a\<close>.\<close>

definition demo_docker :: docker_env where
  "demo_docker =
     \<lparr>de_parse = \<lambda>s.
        if s = ''a'' then Some (MI_Image \<lparr>mf_config = ''sha256:c'', mf_layers = [demo_layer ''sha256:l'' ''tar'']\<rparr>)
        else if s = ''f'' then Some (MI_Image \<lparr>mf_config = ''sha256:c'', mf_layers =
           [demo_layer ''sha256:w'' ''application/vnd.oci.image.layer.nondistributable.v1.tar'']\<rparr>)
        else if s = ''i'' then Some (MI_Index [''sha256:a''])
        else None,
      de_labels = \<lambda>_. Some None, de_utf8 = \<lambda>_. True, de_sha = demo_sha\<rparr>"

definition demo_blobs :: "string \<rightharpoonup> string" where
  "demo_blobs = [''sha256:c'' \<mapsto> ''{}'', ''sha256:l'' \<mapsto> ''layer'', ''sha256:x'' \<mapsto> ''other'']"

definition demo_image :: "int \<Rightarrow> string \<Rightarrow> string \<Rightarrow> docker_image" where
  "demo_image i tag m =
     \<lparr>di_id = i, di_project = ''p'', di_tag = tag, di_manifest = m, di_hash = ''sha256:'' @ m, di_user = ''u'',
      di_time = 0, di_pin = False, di_labels = Map.empty, di_removed = None, di_used = None,
      di_content_type = None\<rparr>"

definition demo_images :: docker_db where
  "demo_images = \<lparr>dk_images = [demo_image 1 ''v1'' ''a'', demo_image 2 ''latest'' ''i''],
     dk_deployments = [], dk_tag_pins = []\<rparr>"

lemma demo_files: "dom demo_blobs = {''sha256:c'', ''sha256:l'', ''sha256:x''}"
  by (auto simp: demo_blobs_def split: if_splits)

lemma demo_prune_plan:
  "prune_plan demo_docker (dom demo_blobs) demo_blobs 10000000 demo_images = Some ([1], {''sha256:c'', ''sha256:l''})"
  unfolding demo_files by code_simp

lemma demo_prune:
  "\<exists>db' blobs'. prune_inner demo_docker 10000000 demo_images demo_blobs = Some (db', blobs')
     \<and> map di_removed (dk_images db') = [Some 10000000, None]
     \<and> blobs' = [''sha256:c'' \<mapsto> ''{}'', ''sha256:l'' \<mapsto> ''layer'']"
proof -
  have "prune_inner demo_docker 10000000 demo_images demo_blobs =
      Some (mark_removed 10000000 [1] demo_images,
        remove_blobs (dom demo_blobs - {''sha256:c'', ''sha256:l''}) demo_blobs)"
    by (simp add: prune_inner_def demo_prune_plan)
  moreover have "map di_removed (dk_images (mark_removed 10000000 [1] demo_images)) = [Some 10000000, None]"
    by (simp add: mark_removed_def demo_images_def demo_image_def)
  moreover have "remove_blobs (dom demo_blobs - {''sha256:c'', ''sha256:l''}) demo_blobs
      = [''sha256:c'' \<mapsto> ''{}'', ''sha256:l'' \<mapsto> ''layer'']"
    unfolding demo_files by (rule ext) (simp add: remove_blobs_def demo_blobs_def)
  ultimately show ?thesis by (intro exI conjI)
qed

theorem prune_exact_witness:
  "\<exists>db' blobs'. prune_inner demo_docker 10000000 demo_images demo_blobs = Some (db', blobs')
     \<and> \<not> kept demo_docker (dom demo_blobs) demo_blobs 10000000 demo_images (demo_image 1 ''v1'' ''a'')
     \<and> kept demo_docker (dom demo_blobs) demo_blobs 10000000 demo_images (demo_image 2 ''latest'' ''i'')"
proof -
  obtain db' blobs' where p: "prune_inner demo_docker 10000000 demo_images demo_blobs = Some (db', blobs')"
    "map di_removed (dk_images db') = [Some 10000000, None]"
    using demo_prune by (elim exE conjE) (rule that)
  have "distinct (map di_id (dk_images demo_images))" by (simp add: demo_images_def demo_image_def)
  from prune_exact [OF p(1) this, of "''sha256:l''"] p show ?thesis
    by (auto simp: demo_images_def demo_image_def split: if_splits)
qed

theorem put_get_manifest_witness:
  "\<exists>db'. put_manifest demo_docker False demo_blobs ''u'' 9 ''p'' ''v2'' ''ct'' ''a'' demo_images
       = (Inr ''sha256:a'', db')
     \<and> get_manifest ''p'' ''v2'' db' = Inr (''ct'', ''sha256:a'', ''a'')
     \<and> get_manifest ''p'' ''sha256:a'' db' = Inr (''ct'', ''sha256:a'', ''a'')"
proof -
  obtain db' where p: "put_manifest demo_docker False demo_blobs ''u'' 9 ''p'' ''v2'' ''ct'' ''a'' demo_images
       = (Inr ''sha256:a'', db')"
    by (simp add: put_manifest_def demo_docker_def validate_image_manifest_def check_layer_def demo_layer_def
        is_docker_hash_def alnum_def foreign_layer_def demo_blobs_def extract_config_labels_def
        read_to_string_def digest_of_def demo_sha_def Let_def)
  have "\<forall>r \<in> set (dk_images demo_images). di_project r = ''p'' \<longrightarrow> di_time r < 9"
    by (simp add: demo_images_def demo_image_def)
  from put_get_manifest [OF p this] p show ?thesis by blast
qed

lemma demo_wf: "wf {(s, j). s \<in> subs (image_walk demo_docker (dom demo_blobs) demo_blobs demo_images r) j}"
proof (rule wf_subset [OF wf_measure [of "\<lambda>s. if s = ''i'' then 1 else 0"]], rule subsetI)
  fix x assume "x \<in> {(s, j). s \<in> subs (image_walk demo_docker (dom demo_blobs) demo_blobs demo_images r) j}"
  then obtain s j where x: "x = (s, j)" and s: "s \<in> subs (image_walk demo_docker (dom demo_blobs) demo_blobs demo_images r) j"
    by blast
  then have "j = ''i''" "sub_manifest (image_walk demo_docker (dom demo_blobs) demo_blobs demo_images r) ''sha256:a'' = Some s"
    by (auto simp: subs_def image_walk_def demo_docker_def split: if_splits)
  then have "j = ''i''" "s = ''a''"
    by (auto simp: sub_manifest_def image_walk_def demo_files sub_manifest_row_def demo_images_def demo_image_def
        split: if_splits)
  with x show "x \<in> measure (\<lambda>s. if s = ''i'' then 1 else 0)" by simp
qed

theorem prune_returns_witness:
  "\<exists>db' blobs'. prune_inner demo_docker 10000000 demo_images demo_blobs = Some (db', blobs')"
  by (rule prune_returns) (rule demo_wf)

text \<open>A pushed Windows image, pinned, at the next pruning.\<close>

definition pin_image :: "docker_image \<Rightarrow> docker_image" where
  "pin_image r = r\<lparr>di_pin := True\<rparr>"

definition demo_pushed :: "string \<Rightarrow> docker_db" where
  "demo_pushed m = \<lparr>dk_images =
     [\<lparr>di_id = 1, di_project = ''p'', di_tag = ''v2'', di_manifest = m, di_hash = ''sha256:'' @ m,
       di_user = ''u'', di_time = 9, di_pin = False, di_labels = Map.empty, di_removed = None,
       di_used = None, di_content_type = Some ''ct''\<rparr>], dk_deployments = [], dk_tag_pins = []\<rparr>"

definition no_images :: docker_db where
  "no_images = \<lparr>dk_images = [], dk_deployments = [], dk_tag_pins = []\<rparr>"

lemma demo_push:
  "m \<in> {''a'', ''f''} \<Longrightarrow>
   put_manifest demo_docker False demo_blobs ''u'' 9 ''p'' ''v2'' ''ct'' m no_images = (Inr (''sha256:'' @ m), demo_pushed m)"
  by (auto simp: put_manifest_def demo_docker_def validate_image_manifest_def check_layer_def demo_layer_def
      is_docker_hash_def alnum_def foreign_layer_def demo_blobs_def extract_config_labels_def
      read_to_string_def digest_of_def demo_sha_def Let_def demo_pushed_def no_images_def next_image_id_def opt_or_def)

theorem foreign_layers_pruned_witness:
  "\<exists>db2 blobs2. prune_inner demo_docker 10 (demo_pushed ''f''\<lparr>dk_images := map pin_image (dk_images (demo_pushed ''f''))\<rparr>)
       demo_blobs = Some (db2, blobs2)
     \<and> (\<exists>r \<in> set (dk_images db2). di_manifest r = ''f'' \<and> di_pin r \<and> di_removed r = Some 10)"
proof -
  let ?l = "demo_layer ''sha256:w'' ''application/vnd.oci.image.layer.nondistributable.v1.tar''"
  let ?m = "\<lparr>mf_config = ''sha256:c'', mf_layers = [?l]\<rparr>"
  let ?db = "demo_pushed ''f''\<lparr>dk_images := map pin_image (dk_images (demo_pushed ''f''))\<rparr>"
  have put: "put_manifest demo_docker False demo_blobs ''u'' 9 ''p'' ''v2'' ''ct'' ''f'' no_images
      = (Inr ''sha256:f'', demo_pushed ''f'')"
    using demo_push [of "''f''"] by simp
  have m: "de_parse demo_docker ''f'' = Some (MI_Image ?m)" by (simp add: demo_docker_def)
  have l: "?l \<in> set (mf_layers ?m)" "demo_blobs (ml_digest ?l) = None"
    by (simp_all add: demo_layer_def demo_blobs_def)
  have "prune_plan demo_docker (dom demo_blobs) demo_blobs 10 ?db = Some ([1], {})"
    unfolding demo_files by code_simp
  then obtain db2 blobs2 where p: "prune_inner demo_docker 10 ?db demo_blobs = Some (db2, blobs2)"
    by (simp add: prune_inner_def)
  have "distinct (map di_id (dk_images (demo_pushed ''f'')))" by (simp add: demo_pushed_def)
  from foreign_layers_pruned [OF put m l p _ this] obtain r where
    r: "di_manifest r = ''f''" "(pin_image r)\<lparr>di_removed := Some 10\<rparr> \<in> set (dk_images db2)"
    by (auto simp: pin_image_def)
  then have "\<exists>r \<in> set (dk_images db2). di_manifest r = ''f'' \<and> di_pin r \<and> di_removed r = Some 10"
    by (intro bexI [of _ "(pin_image r)\<lparr>di_removed := Some 10\<rparr>"]) (simp_all add: pin_image_def)
  with p show ?thesis by blast
qed

theorem prune_races_with_push_witness:
  "\<exists>gone used db1. prune_plan demo_docker (dom demo_blobs) demo_blobs 10000000 no_images = Some (gone, used)
     \<and> put_manifest demo_docker False demo_blobs ''u'' 9 ''p'' ''v2'' ''ct'' ''a'' no_images = (Inr ''sha256:a'', db1)
     \<and> demo_blobs ''sha256:l'' \<noteq> None
     \<and> get_manifest ''p'' ''v2'' (mark_removed 10000000 gone db1) = Inr (''ct'', ''sha256:a'', ''a'')
     \<and> remove_blobs (dom demo_blobs - used) demo_blobs ''sha256:l'' = None"
proof -
  let ?l = "demo_layer ''sha256:l'' ''tar''"
  let ?m = "\<lparr>mf_config = ''sha256:c'', mf_layers = [?l]\<rparr>"
  have plan: "prune_plan demo_docker (dom demo_blobs) demo_blobs 10000000 no_images = Some ([], {})"
    by (simp add: prune_plan_def no_images_def)
  have m: "de_utf8 demo_docker ''a''" "de_parse demo_docker ''a'' = Some (MI_Image ?m)"
    by (simp_all add: demo_docker_def)
  have "validate_image_manifest demo_docker demo_blobs ?m = Inr Map.empty"
    by (simp add: validate_image_manifest_def check_layer_def demo_layer_def is_docker_hash_def alnum_def
        foreign_layer_def demo_blobs_def extract_config_labels_def read_to_string_def demo_docker_def opt_or_def)
  note race = prune_races_with_push [OF plan map_le_refl m this]
  have hash: "digest_of (de_sha demo_docker) ''a'' = ''sha256:a''"
    by (simp add: digest_of_def demo_docker_def demo_sha_def alnum_def)
  have none: "dk_images no_images = []" by (simp add: no_images_def)
  from race [of "''p''" "''v2''" "''u''" 9 "''ct''", unfolded hash none] obtain db1 where put:
    "put_manifest demo_docker False demo_blobs ''u'' 9 ''p'' ''v2'' ''ct'' ''a'' no_images = (Inr ''sha256:a'', db1)"
    and left: "\<forall>d. remove_blobs (dom demo_blobs - {}) demo_blobs d = (if demo_blobs d = None then demo_blobs d else None)"
    by auto
  have r: "remove_blobs (dom demo_blobs - {}) demo_blobs ''sha256:l'' = None"
    using left by (auto simp del: Diff_empty)
  have "db1 = demo_pushed ''a''" using demo_push [of "''a''"] put by simp
  then have "get_manifest ''p'' ''v2'' (mark_removed 10000000 [] db1) = Inr (''ct'', ''sha256:a'', ''a'')"
    by (simp add: get_manifest_def mark_removed_def demo_pushed_def opt_or_def Let_def)
  with plan put r show ?thesis by (intro exI conjI) (auto simp: demo_blobs_def)
qed

end
