(* ===== verification/Modified_Files.thy ===== *)
theory Modified_Files
  imports Objects Finite_Float Broadcast "HOL-Library.AList"
begin

text \<open>
  Files that were changed on a host after they were deployed (\<open>src/bin/server/modified_files.rs\<close>):
  the scan that compares deployed contents with what the hosts answer, the list it maintains
  and broadcasts, and resolving an entry by deploying it again or by taking it over. The hosts'
  answers, the parser and the rows are parameters. Contents are values of one list under a
  lock; each locked section is one function here. Hash maps are association lists.
\<close>

section \<open>The list\<close>

definition FILE_ID :: int where "FILE_ID = 6"
definition CRON_ID :: int where "CRON_ID = 10240"
definition SYSTEMD_SERVICE_ID :: int where "SYSTEMD_SERVICE_ID = 10206"

record modified_file =
  mo_id :: int
  mo_type :: int
  mo_host :: int
  mo_object :: int
  mo_deployed :: string
  mo_actual :: string
  mo_current :: "string option"
  mo_path :: string

record file_prop =
  po_dead :: bool
  po_updated :: bool

record modified_files =
  mo_last_scan :: "rat option"
  mo_scanning :: bool
  mo_idc :: int
  mo_files :: "(modified_file \<times> file_prop) list"

record files_changed =
  fc_full :: bool
  fc_scanning :: bool
  fc_last_scan :: "rat option"
  fc_changed :: "modified_file list"
  fc_removed :: "int list"

definition modified_files_default :: modified_files where
  "modified_files_default = \<lparr>mo_last_scan = None, mo_scanning = False, mo_idc = 0, mo_files = []\<rparr>"

text \<open>\<open>broadcast_changes\<close> and \<open>list\<close>: what is sent, and the list after it.\<close>

definition broadcast_changes :: "modified_files \<Rightarrow> files_changed \<times> modified_files" where
  "broadcast_changes m =
     (let upd = filter (po_updated \<circ> snd) (mo_files m)
      in (\<lparr>fc_full = False, fc_scanning = mo_scanning m, fc_last_scan = mo_last_scan m,
           fc_changed = map fst (filter (\<lambda>x. \<not> po_dead (snd x)) upd),
           fc_removed = map (mo_id \<circ> fst) (filter (po_dead \<circ> snd) upd)\<rparr>,
          m\<lparr>mo_files := filter (\<lambda>x. \<not> po_dead (snd x))
              (map (\<lambda>(f, p). (f, p\<lparr>po_updated := False\<rparr>)) (mo_files m))\<rparr>))"

definition list_files :: "modified_files \<Rightarrow> files_changed" where
  "list_files m =
     \<lparr>fc_full = True, fc_scanning = mo_scanning m, fc_last_scan = mo_last_scan m,
      fc_changed = map fst (filter (\<lambda>x. \<not> po_dead (snd x)) (mo_files m)), fc_removed = []\<rparr>"

section \<open>What was deployed\<close>

text \<open>The columns of a row of \<open>deployments\<close> the scan reads, its content parsed.\<close>

record file_row =
  fr_host :: int
  fr_type :: int
  fr_content :: string

record obj =
  ob_path :: string
  ob_type :: int
  ob_data :: string
  ob_object :: int

datatype scan_error =
    BadRow | HostFailed int | BadAnswer int | UnknownHost | NotAllFiles nat nat | PathMismatch string string
  | BadObject | NotStored

text \<open>A field of type \<open>Option<String>\<close> with a default: absent and null are \<open>None\<close>.\<close>

definition opt_string :: "string \<Rightarrow> value_map \<Rightarrow> scan_error + string option" where
  "opt_string k m =
     (case obj_get k m of
        None \<Rightarrow> Inr None
      | Some JNull \<Rightarrow> Inr None
      | Some (JString s) \<Rightarrow> Inr (Some s)
      | Some _ \<Rightarrow> Inl BadRow)"

definition data_key :: "int \<Rightarrow> string option" where
  "data_key ty =
     (if ty = FILE_ID then Some ''data'' else if ty = SYSTEMD_SERVICE_ID then Some ''unit''
      else if ty = CRON_ID then Some ''script'' else None)"

definition path_of :: "int \<Rightarrow> value_map \<Rightarrow> scan_error + string option" where
  "path_of ty m =
     (if ty = SYSTEMD_SERVICE_ID
      then map_sum id (map_option (\<lambda>v. ''/etc/systemd/system/'' @ v @ ''.service'')) (opt_string ''name'' m)
      else opt_string ''path'' m)"

text \<open>\<open>parse\<close> gives the object id and the content, which may be null.\<close>

definition deployed_file ::
  "(string \<Rightarrow> (int \<times> value_map option) option) \<Rightarrow> file_row \<Rightarrow> scan_error + obj option" where
  "deployed_file parse r =
     (case data_key (fr_type r) of
        None \<Rightarrow> Inr None
      | Some k \<Rightarrow>
          (case parse (fr_content r) of
             None \<Rightarrow> Inl BadRow
           | Some (i, None) \<Rightarrow> Inr None
           | Some (i, Some m) \<Rightarrow>
               res_bind (opt_string k m) (\<lambda>d. res_bind (path_of (fr_type r) m) (\<lambda>p.
                 case (d, p) of
                   (Some data, Some path) \<Rightarrow>
                     Inr (Some \<lparr>ob_path = path, ob_type = fr_type r, ob_data = data, ob_object = i\<rparr>)
                 | _ \<Rightarrow> Inr None))))"

fun deployed_files ::
  "(string \<Rightarrow> (int \<times> value_map option) option) \<Rightarrow> file_row list \<Rightarrow> (int \<times> obj list) list
    \<Rightarrow> scan_error + (int \<times> obj list) list" where
  "deployed_files parse [] objs = Inr objs"
| "deployed_files parse (r # rs) objs =
     (case deployed_file parse r of
        Inl e \<Rightarrow> Inl e
      | Inr None \<Rightarrow> deployed_files parse rs objs
      | Inr (Some ob) \<Rightarrow>
          deployed_files parse rs
            (AList.update (fr_host r) (opt_or (map_of objs (fr_host r)) [] @ [ob]) objs))"

section \<open>The answer of a host\<close>

datatype job_message =
    JM_Stdout string | JM_BadData | JM_Data | JM_Success "int option" | JM_Failure | JM_Other

text \<open>\<open>run_host_scan_job_inner\<close>: the messages of the job until it ends; an end of the list is a
  client that went away.\<close>

fun scan_job :: "job_message list \<Rightarrow> string \<Rightarrow> string option" where
  "scan_job [] out = None"
| "scan_job (JM_Stdout s # ms) out = scan_job ms (out @ s)"
| "scan_job (JM_BadData # ms) out = None"
| "scan_job (JM_Data # ms) out = scan_job ms out"
| "scan_job (JM_Success code # ms) out = (if code = None \<or> code = Some 0 then Some out else None)"
| "scan_job (JM_Failure # ms) out = None"
| "scan_job (JM_Other # ms) out = None"

type_synonym file_content = "string \<times> string option"

type_synonym change = "string \<times> int \<times> int \<times> string"

text \<open>The comparison of what was deployed with what is there: by path, the later entry winning.\<close>

fun compare_files ::
  "obj list \<Rightarrow> file_content list \<Rightarrow> (string \<times> change) list \<Rightarrow> scan_error + (string \<times> change) list" where
  "compare_files (ob # obs) ((path, data) # cs) acc =
     (if ob_path ob \<noteq> path then Inl (PathMismatch (ob_path ob) path)
      else if ob_data ob = opt_or data '''' then compare_files obs cs acc
      else compare_files obs cs
             (AList.update (ob_path ob) (ob_data ob, ob_type ob, ob_object ob, opt_or data '''') acc))"
| "compare_files _ _ acc = Inr acc"

definition host_changes :: "obj list \<Rightarrow> file_content list \<Rightarrow> scan_error + (string \<times> change) list" where
  "host_changes obs cs =
     (if length obs \<noteq> length cs then Inl (NotAllFiles (length obs) (length cs)) else compare_files obs cs [])"

section \<open>Merging\<close>

text \<open>\<open>alter\<close>: a field is set, and the entry marked when that changes it.\<close>

definition alter :: "'a \<Rightarrow> 'a \<Rightarrow> bool \<Rightarrow> 'a \<times> bool" where
  "alter a b up = (if a = b then (a, up) else (b, True))"

definition merge_file ::
  "int \<Rightarrow> (string \<times> change) list \<Rightarrow> modified_file \<times> file_prop \<Rightarrow> (modified_file \<times> file_prop) \<times> (string \<times> change) list" where
  "merge_file host modified mp =
     (case mp of (m, p) \<Rightarrow>
        if mo_host m \<noteq> host then ((m, p), modified)
        else case map_of modified (mo_path m) of
          None \<Rightarrow>
            (case alter (po_dead p) True (po_updated p) of
               (d, up) \<Rightarrow> ((m, \<lparr>po_dead = d, po_updated = up\<rparr>), modified))
        | Some (deployed, ty, object, actual) \<Rightarrow>
            (case alter (po_dead p) False (po_updated p) of
               (d, up) \<Rightarrow> case alter (mo_actual m) actual up of
               (a, up) \<Rightarrow> case alter (mo_deployed m) deployed up of
               (dp, up) \<Rightarrow> case alter (mo_object m) object up of
               (ob, up) \<Rightarrow> case alter (mo_type m) ty up of
               (t, up) \<Rightarrow>
                 ((m\<lparr>mo_actual := a, mo_deployed := dp, mo_object := ob, mo_type := t\<rparr>,
                   \<lparr>po_dead = d, po_updated = up\<rparr>),
                  AList.delete (mo_path m) modified)))"

fun merge_known ::
  "int \<Rightarrow> (string \<times> change) list \<Rightarrow> (modified_file \<times> file_prop) list
    \<Rightarrow> (modified_file \<times> file_prop) list \<times> (string \<times> change) list" where
  "merge_known host modified [] = ([], modified)"
| "merge_known host modified (mp # mps) =
     (case merge_file host modified mp of
        (mp', modified') \<Rightarrow>
          (case merge_known host modified' mps of (mps', rest) \<Rightarrow> (mp' # mps', rest)))"

definition new_entry :: "int \<Rightarrow> int \<Rightarrow> string \<times> change \<Rightarrow> modified_file \<times> file_prop" where
  "new_entry host i c =
     (case c of (path, deployed, ty, object, actual) \<Rightarrow>
        (\<lparr>mo_id = i, mo_type = ty, mo_host = host, mo_object = object, mo_deployed = deployed,
          mo_actual = actual, mo_current = None, mo_path = path\<rparr>,
         \<lparr>po_dead = False, po_updated = True\<rparr>))"

fun add_new :: "int \<Rightarrow> (string \<times> change) list \<Rightarrow> modified_files \<Rightarrow> modified_files" where
  "add_new host [] m = m"
| "add_new host (c # cs) m =
     add_new host cs (m\<lparr>mo_idc := mo_idc m + 1, mo_files := mo_files m @ [new_entry host (mo_idc m) c]\<rparr>)"

definition modified_message :: "string \<Rightarrow> string" where
  "modified_message path = ''The file '' @ path @ '' has been modified since it was deployed''"

definition merge_host ::
  "int \<Rightarrow> (string \<times> change) list \<Rightarrow> modified_files \<Rightarrow> (int \<times> string) list \<times> modified_files" where
  "merge_host host modified m =
     (case merge_known host modified (mo_files m) of
        (files, rest) \<Rightarrow>
          (map (\<lambda>c. (host, modified_message (fst c))) rest, add_new host rest (m\<lparr>mo_files := files\<rparr>)))"

text \<open>
  The section that merges the answers, in the order of the hosts; \<open>None\<close> is a job that failed
  or timed out. An error leaves what was merged before it.
\<close>

fun merge_results ::
  "(string \<Rightarrow> file_content list option) \<Rightarrow> (int \<times> obj list) list \<Rightarrow> (int \<times> string option) list
    \<Rightarrow> (int \<times> string) list \<Rightarrow> modified_files \<Rightarrow> (scan_error + (int \<times> string) list) \<times> modified_files" where
  "merge_results parse objs [] msgs m = (Inr msgs, m)"
| "merge_results parse objs ((host, answer) # rs) msgs m =
     (case answer of
        None \<Rightarrow> (Inl (HostFailed host), m)
      | Some out \<Rightarrow>
          (case parse out of
             None \<Rightarrow> (Inl (BadAnswer host), m)
           | Some cs \<Rightarrow>
               (case map_of objs host of
                  None \<Rightarrow> (Inl UnknownHost, m)
                | Some obs \<Rightarrow>
                    (case host_changes obs cs of
                       Inl e \<Rightarrow> (Inl e, m)
                     | Inr modified \<Rightarrow>
                         (case merge_host host modified m of
                            (new, m') \<Rightarrow>
                              merge_results parse (AList.delete host objs) rs (msgs @ new) m')))))"

section \<open>What the objects say now\<close>

text \<open>
  \<open>parse\<close> reads an object's content; both fields of the struct are read, one is kept. An error
  leaves the entries before it changed. No entry is marked.
\<close>

definition current_of :: "(string \<Rightarrow> value_map option) \<Rightarrow> int \<Rightarrow> string \<Rightarrow> scan_error + string option" where
  "current_of parse ty c =
     (case data_key ty of
        None \<Rightarrow> Inr None
      | Some k \<Rightarrow>
          (case parse c of
             None \<Rightarrow> Inl BadObject
           | Some m \<Rightarrow> res_bind (opt_string k m) (\<lambda>d. res_bind (path_of ty m) (\<lambda>_. Inr d))))"

fun set_current ::
  "(string \<Rightarrow> value_map option) \<Rightarrow> (int \<rightharpoonup> string) \<Rightarrow> (modified_file \<times> file_prop) list
    \<Rightarrow> (scan_error + unit) \<times> (modified_file \<times> file_prop) list" where
  "set_current parse sel [] = (Inr (), [])"
| "set_current parse sel ((f, p) # fs) =
     (case sel (mo_object f) of
        None \<Rightarrow> map_prod id ((#) (f, p)) (set_current parse sel fs)
      | Some c \<Rightarrow>
          (case current_of parse (mo_type f) c of
             Inl e \<Rightarrow> (Inl e, (f, p) # fs)
           | Inr d \<Rightarrow> map_prod id ((#) (f\<lparr>mo_current := d\<rparr>, p)) (set_current parse sel fs)))"

section \<open>A scan\<close>

text \<open>
  What a scan meets: the rows, the hosts that are up and the messages of their jobs, the objects
  and whether a message can be stored. The result lists the messages stored and what is broadcast.
\<close>

record scan_world =
  sw_rows :: "file_row list"
  sw_row :: "string \<Rightarrow> (int \<times> value_map option) option"
  sw_up :: "int \<Rightarrow> bool"
  sw_jobs :: "int \<Rightarrow> string list \<Rightarrow> job_message list"
  sw_answer :: "string \<Rightarrow> file_content list option"
  sw_emit :: "int \<times> string \<Rightarrow> bool"
  sw_objects :: "int \<rightharpoonup> string"
  sw_object :: "string \<Rightarrow> value_map option"

definition scan_jobs :: "scan_world \<Rightarrow> (int \<times> obj list) list \<Rightarrow> (int \<times> string option) list" where
  "scan_jobs w objs =
     map (\<lambda>(h, obs). (h, scan_job (sw_jobs w h (map ob_path obs)) ''''))
       (filter (sw_up w \<circ> fst) objs)"

definition scan_begin :: "rat \<Rightarrow> modified_files \<Rightarrow> (rat option \<times> modified_files) option" where
  "scan_begin now m =
     (if mo_scanning m then None
      else Some (mo_last_scan m, m\<lparr>mo_scanning := True, mo_last_scan := Some now\<rparr>))"

definition scan_failed :: "rat option \<Rightarrow> modified_files \<Rightarrow> modified_files" where
  "scan_failed orig m = m\<lparr>mo_scanning := False, mo_last_scan := orig\<rparr>"

definition scan_current :: "scan_world \<Rightarrow> modified_files \<Rightarrow> (scan_error + unit) \<times> modified_files" where
  "scan_current w m =
     (case set_current (sw_object w) (sw_objects w) (mo_files m) of
        (Inl e, fs) \<Rightarrow> (Inl e, m\<lparr>mo_files := fs\<rparr>)
      | (Inr _, fs) \<Rightarrow> (Inr (), m\<lparr>mo_files := fs, mo_scanning := False\<rparr>))"

record scan_result =
  sr_result :: "scan_error + unit"
  sr_emitted :: "(int \<times> string) list"
  sr_broadcasts :: "files_changed list"
  sr_files :: modified_files

definition scan_inner :: "scan_world \<Rightarrow> modified_files \<Rightarrow> scan_result" where
  "scan_inner w m0 =
     (case broadcast_changes m0 of (b1, m1) \<Rightarrow>
       case deployed_files (sw_row w) (sw_rows w) [] of
         Inl e \<Rightarrow> \<lparr>sr_result = Inl e, sr_emitted = [], sr_broadcasts = [b1], sr_files = m1\<rparr>
       | Inr objs \<Rightarrow>
           (case merge_results (sw_answer w) objs (scan_jobs w objs) [] m1 of
              (Inl e, m2) \<Rightarrow> \<lparr>sr_result = Inl e, sr_emitted = [], sr_broadcasts = [b1], sr_files = m2\<rparr>
            | (Inr msgs, m2) \<Rightarrow>
                if \<not> list_all (sw_emit w) msgs
                then \<lparr>sr_result = Inl NotStored, sr_emitted = takeWhile (sw_emit w) msgs,
                      sr_broadcasts = [b1], sr_files = m2\<rparr>
                else case scan_current w m2 of
                  (Inl e, m3) \<Rightarrow> \<lparr>sr_result = Inl e, sr_emitted = msgs, sr_broadcasts = [b1], sr_files = m3\<rparr>
                | (Inr _, m3) \<Rightarrow>
                    (case broadcast_changes m3 of (b2, m4) \<Rightarrow>
                       \<lparr>sr_result = Inr (), sr_emitted = msgs, sr_broadcasts = [b1, b2], sr_files = m4\<rparr>)))"

definition scan :: "scan_world \<Rightarrow> rat \<Rightarrow> modified_files \<Rightarrow> scan_result" where
  "scan w now m =
     (case scan_begin now m of
        None \<Rightarrow> \<lparr>sr_result = Inr (), sr_emitted = [], sr_broadcasts = [], sr_files = m\<rparr>
      | Some (orig, m0) \<Rightarrow>
          (let r = scan_inner w m0
           in case sr_result r of
                Inr _ \<Rightarrow> r
              | Inl e \<Rightarrow>
                  (case broadcast_changes (scan_failed orig (sr_files r)) of
                     (b, m') \<Rightarrow> r\<lparr>sr_broadcasts := sr_broadcasts r @ [b], sr_files := m'\<rparr>)))"

section \<open>Resolving an entry\<close>

text \<open>
  The script that writes the file again, its strings quoted by a parameter, and what its job
  answers; \<open>None\<close> is a host that disappeared. Any data counts as success.
\<close>

definition nl :: string where "nl = [CHR 0x0A]"

definition redeploy_script :: "(string \<Rightarrow> string) \<Rightarrow> modified_file \<Rightarrow> string" where
  "redeploy_script quote f =
     nl @ ''with open('' @ quote (mo_path f) @ '', '' @ [CHR 0x27, CHR ''w'', CHR 0x27]
     @ '', encoding='' @ [CHR 0x27] @ ''utf-8'' @ [CHR 0x27] @ '') as f:'' @ nl
     @ ''  f.write('' @ quote (mo_deployed f) @ '')'' @ nl"

datatype resolve_error =
    NoSuchEntry | HostNotUp | JobNotStarted | ResolveExit int | ResolveFailure | ResolveUnknown
  | HostGone | NoObject | BadObjectType | BadObjectContent string | UnknownType | NoNewCurrent | NoUser
  | ChangeFailed db_error

definition redeploy_job :: "job_message option \<Rightarrow> resolve_error + unit" where
  "redeploy_job m =
     (case m of
        Some (JM_Success code) \<Rightarrow>
          (case code of None \<Rightarrow> Inr () | Some c \<Rightarrow> if c = 0 then Inr () else Inl (ResolveExit c))
      | Some JM_Failure \<Rightarrow> Inl ResolveFailure
      | Some (JM_Stdout s) \<Rightarrow> Inr ()
      | Some JM_BadData \<Rightarrow> Inr ()
      | Some JM_Data \<Rightarrow> Inr ()
      | Some JM_Other \<Rightarrow> Inl ResolveUnknown
      | None \<Rightarrow> Inl HostGone)"

definition mark_resolved :: "int \<Rightarrow> modified_files \<Rightarrow> modified_files" where
  "mark_resolved i m =
     m\<lparr>mo_files := map (\<lambda>(f, p). if mo_id f = i then (f, \<lparr>po_dead = True, po_updated = True\<rparr>) else (f, p))
        (mo_files m)\<rparr>"

text \<open>\<open>job\<close>: what starting the script gives (\<open>None\<close> if it could not be started) and the first
  message of its job.\<close>

definition find_entry :: "int \<Rightarrow> modified_files \<Rightarrow> modified_file option" where
  "find_entry i m = map_option fst (List.find (\<lambda>(f, _). mo_id f = i) (mo_files m))"

definition resolve_redeploy ::
  "(int \<Rightarrow> bool) \<Rightarrow> (modified_file \<Rightarrow> job_message option option) \<Rightarrow> int \<Rightarrow> modified_files
    \<Rightarrow> (resolve_error + files_changed) \<times> modified_files" where
  "resolve_redeploy up job i m =
     (case find_entry i m of
        None \<Rightarrow> (Inl NoSuchEntry, m)
      | Some f \<Rightarrow>
          if \<not> up (mo_host f) then (Inl HostNotUp, m)
          else case job f of
            None \<Rightarrow> (Inl JobNotStarted, m)
          | Some ans \<Rightarrow>
              (case redeploy_job ans of
                 Inl e \<Rightarrow> (Inl e, m)
               | Inr _ \<Rightarrow> map_prod Inr id (broadcast_changes (mark_resolved i m))))"

text \<open>Taking the new contents over: the object with one key set is written as a new version and
  broadcast; the entry stays.\<close>

definition resolve_update ::
  "(string \<Rightarrow> string + value_map) \<Rightarrow> (value_map \<Rightarrow> string) \<Rightarrow> int \<Rightarrow> string option \<Rightarrow> int
    \<Rightarrow> string option \<Rightarrow> modified_files \<Rightarrow> objects_db
    \<Rightarrow> (resolve_error + value_map iobject) \<times> objects_db" where
  "resolve_update parse write now user i new_current m db =
     (case find_entry i m of
        None \<Rightarrow> (Inl NoSuchEntry, db)
      | Some f \<Rightarrow>
          (case List.find (\<lambda>r. r_id r = mo_object f \<and> r_newest r) (od_rows db) of
             None \<Rightarrow> (Inl NoObject, db)
           | Some r \<Rightarrow>
               (case row_object parse r of
                  Inl (BadContent e) \<Rightarrow> (Inl (BadObjectContent e), db)
                | Inl _ \<Rightarrow> (Inl BadObjectType, db)
                | Inr ob \<Rightarrow>
                    (case (data_key (mo_type f), new_current, user) of
                       (None, _, _) \<Rightarrow> (Inl UnknownType, db)
                     | (Some k, None, _) \<Rightarrow> (Inl NoNewCurrent, db)
                     | (Some k, Some s, None) \<Rightarrow> (Inl NoUser, db)
                     | (Some k, Some s, Some u) \<Rightarrow>
                         (let content = obj_insert k (JString s) (io_content ob)
                          in case change_object now (mo_object f)
                               (Some \<lparr>no_type = io_type ob, no_name = io_name ob,
                                      no_content = write content, no_category = io_category ob,
                                      no_comment = io_comment ob\<rparr>) u db of
                               (Inl e, db') \<Rightarrow> (Inl (ChangeFailed e), db')
                             | (Inr (i', v), db') \<Rightarrow>
                                 (Inr (ob\<lparr>io_id := mo_object f, io_content := content, io_version := v\<rparr>), db'))))))"

section \<open>What is listed\<close>

text \<open>The invariant of the list, and what a reader of it sees: the live entries.\<close>

definition entry_key :: "modified_file \<times> file_prop \<Rightarrow> int \<times> string" where
  "entry_key mp = (mo_host (fst mp), mo_path (fst mp))"

definition files_ok :: "modified_files \<Rightarrow> bool" where
  "files_ok m =
     (distinct (map (\<lambda>mp. mo_id (fst mp)) (mo_files m))
      \<and> (\<forall>mp \<in> set (mo_files m). mo_id (fst mp) < mo_idc m)
      \<and> distinct (map entry_key (mo_files m)))"

definition listed_entry :: "modified_file \<times> file_prop \<Rightarrow> int \<times> string \<times> change" where
  "listed_entry mp =
     (case mp of (f, p) \<Rightarrow> (mo_host f, mo_path f, mo_deployed f, mo_type f, mo_object f, mo_actual f))"

definition listed :: "modified_files \<Rightarrow> (int \<times> string \<times> change) set" where
  "listed m = listed_entry ` set (filter (\<lambda>mp. \<not> po_dead (snd mp)) (mo_files m))"

text \<open>The files that differ, in the order of the comparison, as a reference definition.\<close>

definition diffs :: "obj list \<Rightarrow> file_content list \<Rightarrow> (string \<times> change) list" where
  "diffs obs cs =
     [(ob_path ob, (ob_data ob, ob_type ob, ob_object ob, opt_or (snd c) '''')).
        (ob, c) \<leftarrow> zip obs cs, ob_data ob \<noteq> opt_or (snd c) '''']"

lemma compare_files_diffs:
  assumes "compare_files obs cs acc = Inr modified"
  shows "map_of modified = map_of (rev (diffs obs cs) @ acc)
    \<and> (distinct (map fst acc) \<longrightarrow> distinct (map fst modified))"
  using assms
proof (induction obs cs acc rule: compare_files.induct)
  case (1 ob obs path data cs acc)
  then show ?case
    by (auto simp: diffs_def update_conv distinct_update map_add_def fun_eq_iff split: if_splits option.splits)
qed (auto simp: diffs_def)

lemma compare_files_paths:
  assumes "compare_files obs cs acc = Inr modified" and "length obs = length cs"
  shows "map ob_path obs = map fst cs"
  using assms
  by (induction obs cs acc rule: compare_files.induct) (auto split: if_splits)

lemma host_changes_diffs:
  assumes "host_changes obs cs = Inr modified"
  shows "map_of modified = map_of (rev (diffs obs cs))" and "distinct (map fst modified)"
    and "map fst cs = map ob_path obs"
  using assms compare_files_diffs [of obs cs "[]" modified] compare_files_paths [of obs cs "[]" modified]
  by (auto simp: host_changes_def split: if_splits)

lemma map_of_set_eq: "distinct (map fst xs) \<Longrightarrow> set xs = {(k, v). map_of xs k = Some v}"
  by auto

section \<open>Merging one host\<close>

lemma alter_fst [simp]: "fst (alter a b up) = b"
  by (simp add: alter_def)

text \<open>What merging makes of one entry.\<close>

lemma merge_file_entry:
  "merge_file host modified (f, p) =
     (if mo_host f \<noteq> host then ((f, p), modified)
      else case map_of modified (mo_path f) of
        None \<Rightarrow> ((f, \<lparr>po_dead = True, po_updated = po_updated p \<or> \<not> po_dead p\<rparr>), modified)
      | Some (d, t, ob, a) \<Rightarrow>
          ((f\<lparr>mo_actual := a, mo_deployed := d, mo_object := ob, mo_type := t\<rparr>,
            \<lparr>po_dead = False, po_updated = po_updated p \<or> po_dead p
              \<or> (mo_deployed f, mo_type f, mo_object f, mo_actual f) \<noteq> (d, t, ob, a)\<rparr>),
           AList.delete (mo_path f) modified))"
  by (auto simp: merge_file_def alter_def split: option.splits prod.splits)

lemma merge_file_key:
  "mo_id (fst (fst (merge_file host modified mp))) = mo_id (fst mp)
   \<and> entry_key (fst (merge_file host modified mp)) = entry_key mp"
  by (cases mp) (auto simp: merge_file_entry entry_key_def split: option.splits)

lemma merge_file_rest:
  "snd (merge_file host modified mp) =
     (if mo_host (fst mp) = host then AList.delete (mo_path (fst mp)) modified else modified)"
  by (cases mp) (auto simp: merge_file_entry AList.delete_id map_of_eq_None_iff split: option.splits)

lemma merge_file_delete:
  assumes "entry_key mp \<noteq> (host, path)"
  shows "fst (merge_file host (AList.delete path modified) mp) = fst (merge_file host modified mp)"
  using assms by (cases mp) (auto simp: merge_file_entry entry_key_def split: option.splits)

lemma merge_known_map:
  assumes "distinct (map entry_key mps)"
  shows "merge_known host modified mps =
    (map (fst \<circ> merge_file host modified) mps,
     filter (\<lambda>c. (host, fst c) \<notin> set (map entry_key mps)) modified)"
  using assms
proof (induction mps arbitrary: modified)
  case (Cons mp mps)
  then have *: "merge_known host modified' mps =
      (map (fst \<circ> merge_file host modified') mps,
       filter (\<lambda>c. (host, fst c) \<notin> set (map entry_key mps)) modified')" for modified'
    by simp
  obtain mp' modified' where m: "merge_file host modified mp = (mp', modified')"
    by (cases "merge_file host modified mp")
  then have r: "modified' = (if mo_host (fst mp) = host then AList.delete (mo_path (fst mp)) modified else modified)"
    using merge_file_rest [of host modified mp] by simp
  have "map (fst \<circ> merge_file host modified') mps = map (fst \<circ> merge_file host modified) mps"
  proof (cases "mo_host (fst mp) = host")
    case True
    have "fst (merge_file host modified' x) = fst (merge_file host modified x)" if "x \<in> set mps" for x
    proof -
      have "entry_key x \<in> set (map entry_key mps)" using that by simp
      then have "entry_key mp \<noteq> entry_key x" using Cons.prems by (metis distinct.simps(2) list.simps(9))
      moreover have "entry_key mp = (host, mo_path (fst mp))" using True by (simp add: entry_key_def)
      ultimately have "entry_key x \<noteq> (host, mo_path (fst mp))" by simp
      with True r show ?thesis by (simp add: merge_file_delete)
    qed
    then show ?thesis by simp
  qed (simp add: r)
  then show ?case
    using Cons.prems by (simp add: * m r AList.delete_eq case_prod_unfold entry_key_def) (auto intro!: filter_cong)
qed simp

lemma listed_entry_new: "listed_entry (new_entry host i c) = (host, c)"
  by (cases c) (simp add: listed_entry_def new_entry_def)

lemma new_entry_simps [simp]:
  "mo_id (fst (new_entry host i c)) = i" "entry_key (new_entry host i c) = (host, fst c)"
  "po_dead (snd (new_entry host i c)) = False" "po_updated (snd (new_entry host i c)) = True"
  by (simp_all add: new_entry_def entry_key_def case_prod_unfold)

lemma add_new_files:
  "\<exists>new. mo_files (add_new host cs m) = mo_files m @ new
     \<and> map entry_key new = map (\<lambda>c. (host, fst c)) cs
     \<and> map listed_entry new = map (Pair host) cs
     \<and> (\<forall>mp \<in> set new. \<not> po_dead (snd mp) \<and> po_updated (snd mp))
     \<and> distinct (map (\<lambda>mp. mo_id (fst mp)) new)
     \<and> (\<forall>mp \<in> set new. mo_idc m \<le> mo_id (fst mp) \<and> mo_id (fst mp) < mo_idc (add_new host cs m))
     \<and> mo_idc m \<le> mo_idc (add_new host cs m)
     \<and> mo_scanning (add_new host cs m) = mo_scanning m \<and> mo_last_scan (add_new host cs m) = mo_last_scan m"
proof (induction host cs m rule: add_new.induct)
  case (2 host c cs m)
  let ?m = "m\<lparr>mo_idc := mo_idc m + 1, mo_files := mo_files m @ [new_entry host (mo_idc m) c]\<rparr>"
  from 2 obtain new where new: "mo_files (add_new host cs ?m) = mo_files ?m @ new"
    "map entry_key new = map (\<lambda>c. (host, fst c)) cs" "map listed_entry new = map (Pair host) cs"
    "\<forall>mp \<in> set new. \<not> po_dead (snd mp) \<and> po_updated (snd mp)" "distinct (map (\<lambda>mp. mo_id (fst mp)) new)"
    "\<forall>mp \<in> set new. mo_idc m + 1 \<le> mo_id (fst mp) \<and> mo_id (fst mp) < mo_idc (add_new host cs ?m)"
    "mo_idc m + 1 \<le> mo_idc (add_new host cs ?m)"
    "mo_scanning (add_new host cs ?m) = mo_scanning m \<and> mo_last_scan (add_new host cs ?m) = mo_last_scan m"
    by auto
  then show ?case
    by (intro exI [of _ "new_entry host (mo_idc m) c # new"]) (auto simp: listed_entry_new)
qed simp

text \<open>What merging a host does to the list: its live entries become the differences found, the
  others stay, and the paths reported are those that had no entry.\<close>

lemma merge_host_shape:
  assumes "files_ok m" and "merge_host host modified m = (new, m')"
  shows "\<exists>rest fs. rest = filter (\<lambda>c. (host, fst c) \<notin> set (map entry_key (mo_files m))) modified
    \<and> fs = map (fst \<circ> merge_file host modified) (mo_files m)
    \<and> map entry_key fs = map entry_key (mo_files m)
    \<and> map (\<lambda>mp. mo_id (fst mp)) fs = map (\<lambda>mp. mo_id (fst mp)) (mo_files m)
    \<and> m' = add_new host rest (m\<lparr>mo_files := fs\<rparr>)
    \<and> new = map (\<lambda>c. (host, modified_message (fst c))) rest"
  using assms merge_file_key [of host modified]
  by (simp add: merge_host_def files_ok_def merge_known_map)

lemma merge_host_ok:
  assumes "files_ok m" and "distinct (map fst modified)" and "merge_host host modified m = (new, m')"
  shows "files_ok m'"
proof -
  from merge_host_shape [OF assms(1,3)] obtain rest fs where
    rest: "rest = filter (\<lambda>c. (host, fst c) \<notin> set (map entry_key (mo_files m))) modified"
    and keys: "map entry_key fs = map entry_key (mo_files m)"
      "map (\<lambda>mp. mo_id (fst mp)) fs = map (\<lambda>mp. mo_id (fst mp)) (mo_files m)"
    and m': "m' = add_new host rest (m\<lparr>mo_files := fs\<rparr>)" by blast
  from add_new_files [of host rest "m\<lparr>mo_files := fs\<rparr>"] m' obtain new' where
    f: "mo_files m' = fs @ new'" and nk: "map entry_key new' = map (\<lambda>c. (host, fst c)) rest"
    and ni: "distinct (map (\<lambda>mp. mo_id (fst mp)) new')"
      "\<forall>mp \<in> set new'. mo_idc m \<le> mo_id (fst mp) \<and> mo_id (fst mp) < mo_idc m'" "mo_idc m \<le> mo_idc m'"
    by auto
  have old: "\<forall>i \<in> set (map (\<lambda>mp. mo_id (fst mp)) fs). i < mo_idc m" "distinct (map (\<lambda>mp. mo_id (fst mp)) fs)"
    "distinct (map entry_key fs)"
    unfolding keys using assms(1) by (auto simp: files_ok_def)
  have "distinct (map (\<lambda>c. (host, fst c)) rest)"
    using assms(2) unfolding rest by (auto simp: distinct_map inj_on_def)
  moreover have "set (map (\<lambda>c. (host, fst c)) rest) \<inter> set (map entry_key (mo_files m)) = {}"
    unfolding rest by auto
  ultimately have "distinct (map entry_key (mo_files m'))"
    unfolding f map_append distinct_append nk using old(3) unfolding keys by blast
  moreover have "distinct (map (\<lambda>mp. mo_id (fst mp)) (mo_files m'))"
    unfolding f map_append distinct_append using old ni by fastforce
  moreover have "\<forall>mp \<in> set (mo_files m'). mo_id (fst mp) < mo_idc m'"
    unfolding f using old(1) ni by fastforce
  ultimately show ?thesis by (simp add: files_ok_def)
qed

lemma listed_iff:
  "t \<in> listed m \<longleftrightarrow> (\<exists>mp \<in> set (mo_files m). \<not> po_dead (snd mp) \<and> listed_entry mp = t)"
  by (auto simp: listed_def)

lemma fst_listed_entry [simp]: "fst (listed_entry mp) = mo_host (fst mp)"
  by (cases mp) (simp add: listed_entry_def)

lemma merge_file_listed:
  assumes "mo_host (fst mp) = host"
  shows "(case map_of modified (mo_path (fst mp)) of
      None \<Rightarrow> po_dead (snd (fst (merge_file host modified mp)))
    | Some c \<Rightarrow> \<not> po_dead (snd (fst (merge_file host modified mp)))
        \<and> listed_entry (fst (merge_file host modified mp)) = (host, mo_path (fst mp), c))"
  using assms by (cases mp) (auto simp: merge_file_entry listed_entry_def split: option.splits)

lemma merge_file_other: "mo_host (fst mp) \<noteq> host \<Longrightarrow> merge_file host modified mp = (mp, modified)"
  by (cases mp) (simp add: merge_file_def)

lemma merge_host_listed:
  assumes "files_ok m" and "distinct (map fst modified)" and "merge_host host modified m = (new, m')"
  shows "listed m' = {t \<in> listed m. fst t \<noteq> host} \<union> Pair host ` set modified"
    and "new = map (\<lambda>c. (host, modified_message (fst c)))
          (filter (\<lambda>c. (host, fst c) \<notin> set (map entry_key (mo_files m))) modified)"
    and "mo_scanning m' = mo_scanning m \<and> mo_last_scan m' = mo_last_scan m"
proof -
  from merge_host_shape [OF assms(1,3)] obtain rest fs where
    rest: "rest = filter (\<lambda>c. (host, fst c) \<notin> set (map entry_key (mo_files m))) modified"
    and fs: "fs = map (fst \<circ> merge_file host modified) (mo_files m)"
    and m': "m' = add_new host rest (m\<lparr>mo_files := fs\<rparr>)"
    and new: "new = map (\<lambda>c. (host, modified_message (fst c))) rest" by blast
  then show "new = map (\<lambda>c. (host, modified_message (fst c)))
      (filter (\<lambda>c. (host, fst c) \<notin> set (map entry_key (mo_files m))) modified)" by simp
  from add_new_files [of host rest "m\<lparr>mo_files := fs\<rparr>"] m' obtain new' where
    f: "mo_files m' = fs @ new'" and nl: "map listed_entry new' = map (Pair host) rest"
    and live: "\<forall>mp \<in> set new'. \<not> po_dead (snd mp)"
    and s: "mo_scanning m' = mo_scanning m \<and> mo_last_scan m' = mo_last_scan m" by auto
  show "mo_scanning m' = mo_scanning m \<and> mo_last_scan m' = mo_last_scan m" by (rule s)
  have nl': "listed_entry ` set new' = Pair host ` set rest"
    using arg_cong [OF nl, of set] by simp
  show "listed m' = {t \<in> listed m. fst t \<noteq> host} \<union> Pair host ` set modified" (is "?L = ?R")
  proof (intro set_eqI iffI)
    fix t assume "t \<in> ?L"
    then obtain x where x: "x \<in> set (fs @ new')" "\<not> po_dead (snd x)" "listed_entry x = t"
      by (auto simp: listed_iff f)
    show "t \<in> ?R"
    proof (cases "x \<in> set new'")
      case True
      then have "t \<in> Pair host ` set rest" using x(3) nl' by blast
      then show ?thesis unfolding rest by auto
    next
      case False
      with x(1) fs obtain mp where mp: "mp \<in> set (mo_files m)" "x = fst (merge_file host modified mp)"
        by auto
      show ?thesis
      proof (cases "mo_host (fst mp) = host")
        case True
        from merge_file_listed [OF this, of modified] mp(2) x obtain c where
          "map_of modified (mo_path (fst mp)) = Some c" "t = (host, mo_path (fst mp), c)"
          by (auto split: option.splits)
        then show ?thesis by (auto dest: map_of_SomeD)
      next
        case False
        then have "x = mp" using mp(2) by (simp add: merge_file_other)
        with mp x False show ?thesis by (auto simp: listed_iff)
      qed
    qed
  next
    fix t assume "t \<in> ?R"
    then consider mp where "mp \<in> set (mo_files m)" "t = listed_entry mp" "\<not> po_dead (snd mp)"
        "mo_host (fst mp) \<noteq> host"
      | c mp where "c \<in> set modified" "t = (host, c)" "mp \<in> set (mo_files m)" "entry_key mp = (host, fst c)"
      | c where "c \<in> set rest" "t = (host, c)"
      unfolding rest listed_iff by force
    then show "t \<in> ?L"
    proof cases
      case 1
      then have "fst (merge_file host modified mp) = mp" by (simp add: merge_file_other)
      with 1 have "mp \<in> set fs" unfolding fs by force
      with 1 show ?thesis by (auto simp: listed_iff f)
    next
      case 2
      then have h: "mo_host (fst mp) = host" "mo_path (fst mp) = fst c" by (simp_all add: entry_key_def)
      have "map_of modified (mo_path (fst mp)) = Some (snd c)" using 2(1) h(2) assms(2) by simp
      with merge_file_listed [OF h(1), of modified] 2(2) h(2)
      have "\<not> po_dead (snd (fst (merge_file host modified mp)))"
        "listed_entry (fst (merge_file host modified mp)) = t" by simp_all
      moreover have "fst (merge_file host modified mp) \<in> set fs" using 2(3) unfolding fs by auto
      ultimately show ?thesis unfolding listed_iff f by auto
    next
      case 3
      with nl' have "t \<in> listed_entry ` set new'" by blast
      with live show ?thesis unfolding listed_iff f by auto
    qed
  qed
qed

section \<open>The whole scan\<close>

lemma merge_results_keeps:
  assumes "merge_results parse objs rs msgs m = (res, m')" and "I m"
    and "\<And>host modified m new m'. I m \<Longrightarrow> distinct (map fst modified)
        \<Longrightarrow> merge_host host modified m = (new, m') \<Longrightarrow> I m'"
  shows "I m'"
  using assms(1,2)
proof (induction parse objs rs msgs m rule: merge_results.induct)
  case (2 parse objs host answer rs msgs m)
  from 2(2) consider "m' = m"
    | out cs obs modified new m1 where "answer = Some out" "parse out = Some cs" "map_of objs host = Some obs"
      "host_changes obs cs = Inr modified" "merge_host host modified m = (new, m1)"
      "merge_results parse (AList.delete host objs) rs (msgs @ new) m1 = (res, m')"
    by (auto split: option.splits sum.splits prod.splits)
  then show ?case
  proof cases
    case 2
    have "I m1" by (rule assms(3) [OF \<open>I m\<close> host_changes_diffs(2) [OF 2(4)] 2(5)])
    then show ?thesis by (rule "2.IH" [OF 2(1-4) 2(5) [symmetric] 2(6)])
  qed (simp add: 2(3))
qed simp

lemma merge_results_ok:
  assumes "merge_results parse objs rs msgs m = (res, m')" and "files_ok m"
  shows "files_ok m' \<and> mo_scanning m' = mo_scanning m \<and> mo_last_scan m' = mo_last_scan m"
  using assms(1)
proof (rule merge_results_keeps)
  fix host modified n new n'
  assume n: "files_ok n \<and> mo_scanning n = mo_scanning m \<and> mo_last_scan n = mo_last_scan m"
    and d: "distinct (map fst modified)" and h: "merge_host host modified n = (new, n')"
  show "files_ok n' \<and> mo_scanning n' = mo_scanning m \<and> mo_last_scan n' = mo_last_scan m"
    using merge_host_ok [OF conjunct1 [OF n] d h] merge_host_listed(3) [OF conjunct1 [OF n] d h] n by simp
qed (simp add: assms(2))

definition host_found ::
  "(string \<Rightarrow> file_content list option) \<Rightarrow> obj list option \<Rightarrow> string option \<Rightarrow> (string \<times> change) set" where
  "host_found parse obs out =
     {(p, c). \<exists>os o' cs. obs = Some os \<and> out = Some o' \<and> parse o' = Some cs \<and> map_of (rev (diffs os cs)) p = Some c}"

lemma merge_results_listed:
  assumes "merge_results parse objs rs msgs m = (Inr msgs', m')" and "files_ok m" and "distinct (map fst rs)"
  shows "listed m' = {t \<in> listed m. fst t \<notin> fst ` set rs}
    \<union> {(h, c). \<exists>out. (h, out) \<in> set rs \<and> c \<in> host_found parse (map_of objs h) out}"
  using assms
proof (induction parse objs rs msgs m rule: merge_results.induct)
  case (2 parse objs host answer rs msgs m)
  from 2(2) obtain out cs obs modified new m1 where *: "answer = Some out" "parse out = Some cs"
    "map_of objs host = Some obs" "host_changes obs cs = Inr modified" "merge_host host modified m = (new, m1)"
    "merge_results parse (AList.delete host objs) rs (msgs @ new) m1 = (Inr msgs', m')"
    by (auto split: option.splits sum.splits prod.splits)
  note d = host_changes_diffs(1,2) [OF *(4)]
  have ok: "files_ok m1" by (rule merge_host_ok [OF 2(3) d(2) *(5)])
  have "set modified = host_found parse (map_of objs host) answer"
    using d * map_of_set_eq [OF d(2)] by (auto simp: host_found_def)
  then have l1: "listed m1 = {t \<in> listed m. fst t \<noteq> host} \<union> Pair host ` host_found parse (map_of objs host) answer"
    using merge_host_listed(1) [OF 2(3) d(2) *(5)] by simp
  have rest: "host_found parse (map_of (AList.delete host objs) h) out' = host_found parse (map_of objs h) out'"
    if "(h, out') \<in> set rs" for h out'
  proof -
    have "h \<noteq> host" using that 2(4) by force
    then show ?thesis by simp
  qed
  have "listed m' = {t \<in> listed m1. fst t \<notin> fst ` set rs}
    \<union> {(h, c). \<exists>out. (h, out) \<in> set rs \<and> c \<in> host_found parse (map_of (AList.delete host objs) h) out}"
    using "2.IH" [OF *(1-4) *(5) [symmetric] *(6) ok] 2(4) by simp
  also have "\<dots> = {t \<in> listed m1. fst t \<notin> fst ` set rs}
    \<union> {(h, c). \<exists>out. (h, out) \<in> set rs \<and> c \<in> host_found parse (map_of objs h) out}"
    using rest by blast
  also have "\<dots> = {t \<in> listed m. fst t \<notin> fst ` set ((host, answer) # rs)}
    \<union> {(h, c). \<exists>out. (h, out) \<in> set ((host, answer) # rs) \<and> c \<in> host_found parse (map_of objs h) out}"
    using 2(4) unfolding l1 by (auto simp: image_iff)
  finally show ?case .
qed simp

lemma broadcast_changes_list:
  assumes "broadcast_changes m = (b, m')"
  shows "listed m' = listed m" and "files_ok m \<Longrightarrow> files_ok m'"
    and "mo_scanning m' = mo_scanning m \<and> mo_last_scan m' = mo_last_scan m"
    and "\<forall>mp \<in> set (mo_files m'). \<not> po_dead (snd mp) \<and> \<not> po_updated (snd mp)"
proof -
  let ?g = "\<lambda>mp :: modified_file \<times> file_prop. (fst mp, (snd mp)\<lparr>po_updated := False\<rparr>)"
  have m': "m' = m\<lparr>mo_files := filter (\<lambda>x. \<not> po_dead (snd x)) (map ?g (mo_files m))\<rparr>"
    using assms by (auto simp: broadcast_changes_def case_prod_unfold)
  have g: "listed_entry (?g mp) = listed_entry mp" "entry_key (?g mp) = entry_key mp" for mp
    by (simp_all add: listed_entry_def entry_key_def case_prod_unfold)
  have f: "mo_files m' = map ?g (filter (\<lambda>x. \<not> po_dead (snd x)) (mo_files m))"
    by (simp add: m' filter_map comp_def)
  show "listed m' = listed m"
    by (simp add: listed_def f filter_map comp_def image_image g)
  show "mo_scanning m' = mo_scanning m \<and> mo_last_scan m' = mo_last_scan m" by (simp add: m')
  show "\<forall>mp \<in> set (mo_files m'). \<not> po_dead (snd mp) \<and> \<not> po_updated (snd mp)" by (auto simp: m')
  show "files_ok m \<Longrightarrow> files_ok m'"
    unfolding files_ok_def f by (simp add: comp_def g distinct_map_filter) (auto simp add: m')
qed

lemma set_current_list:
  "map listed_entry (snd (set_current parse sel fs)) = map listed_entry fs
   \<and> map entry_key (snd (set_current parse sel fs)) = map entry_key fs
   \<and> map (\<lambda>mp. mo_id (fst mp)) (snd (set_current parse sel fs)) = map (\<lambda>mp. mo_id (fst mp)) fs
   \<and> map snd (snd (set_current parse sel fs)) = map snd fs"
proof (induction parse sel fs rule: set_current.induct)
  case (2 parse sel f p fs)
  then show ?case
    by (cases "sel (mo_object f)"; cases "current_of parse (mo_type f) (the (sel (mo_object f)))")
      (simp_all add: listed_entry_def entry_key_def)
qed simp

lemma scan_current_list:
  "listed (snd (scan_current w m)) = listed m \<and> (files_ok m \<longrightarrow> files_ok (snd (scan_current w m)))
   \<and> mo_last_scan (snd (scan_current w m)) = mo_last_scan m"
proof -
  obtain r fs where r: "set_current (sw_object w) (sw_objects w) (mo_files m) = (r, fs)"
    by (cases "set_current (sw_object w) (sw_objects w) (mo_files m)")
  note s = set_current_list [of "sw_object w" "sw_objects w" "mo_files m", unfolded r snd_conv]
  have f: "mo_files (snd (scan_current w m)) = fs" "mo_idc (snd (scan_current w m)) = mo_idc m"
    "mo_last_scan (snd (scan_current w m)) = mo_last_scan m"
    using r by (auto simp: scan_current_def split: sum.splits)
  have live: "map listed_entry (filter (\<lambda>mp. \<not> po_dead (snd mp)) fs)
      = map listed_entry (filter (\<lambda>mp. \<not> po_dead (snd mp)) (mo_files m))"
  proof -
    have "map listed_entry fs = map listed_entry gs \<Longrightarrow> map snd fs = map snd gs
      \<Longrightarrow> map listed_entry (filter (\<lambda>mp. \<not> po_dead (snd mp)) fs)
      = map listed_entry (filter (\<lambda>mp. \<not> po_dead (snd mp)) gs)" for gs
    proof (induction fs arbitrary: gs)
      case (Cons x xs)
      then show ?case by (cases gs) auto
    qed simp
    then show ?thesis using s by simp
  qed
  have "(\<forall>mp \<in> set fs. mo_id (fst mp) < n) \<longleftrightarrow> (\<forall>i \<in> set (map (\<lambda>mp. mo_id (fst mp)) fs). i < n)" for n
    by auto
  then have "files_ok m \<longrightarrow> files_ok (snd (scan_current w m))"
    using s unfolding files_ok_def f by simp
  moreover have "listed (snd (scan_current w m)) = listed m"
    using arg_cong [OF live, of set] by (simp add: listed_def f)
  ultimately show ?thesis using f by simp
qed

lemma deployed_files_keys:
  "deployed_files parse rs objs = Inr objs' \<Longrightarrow> distinct (map fst objs) \<Longrightarrow> distinct (map fst objs')"
  by (induction parse rs objs rule: deployed_files.induct)
    (auto simp: distinct_update split: sum.splits option.splits)

lemma scan_effect:
  assumes "files_ok m" and "\<not> mo_scanning m" and "sr_result (scan w now m) = Inr ()"
  shows "\<exists>objs. deployed_files (sw_row w) (sw_rows w) [] = Inr objs
    \<and> listed (sr_files (scan w now m)) =
        {t \<in> listed m. \<not> (sw_up w (fst t) \<and> fst t \<in> fst ` set objs)}
        \<union> {(h, p, c). \<exists>os out cs. map_of objs h = Some os \<and> sw_up w h
            \<and> scan_job (sw_jobs w h (map ob_path os)) '''' = Some out \<and> sw_answer w out = Some cs
            \<and> map_of (rev (diffs os cs)) p = Some c}
    \<and> files_ok (sr_files (scan w now m)) \<and> \<not> mo_scanning (sr_files (scan w now m))
    \<and> mo_last_scan (sr_files (scan w now m)) = Some now"
proof -
  define m0 where "m0 = m\<lparr>mo_scanning := True, mo_last_scan := Some now\<rparr>"
  obtain b1 m1 where b1: "broadcast_changes m0 = (b1, m1)" by fastforce
  have sc: "scan w now m = scan_inner w m0"
    using assms(2,3) by (auto simp: scan_def scan_begin_def m0_def Let_def split: sum.splits prod.splits)
  have "sr_result (scan_inner w m0) = Inr ()" using assms(3) unfolding sc .
  then obtain objs msgs m2 m3 b2 m4 where
    objs: "deployed_files (sw_row w) (sw_rows w) [] = Inr objs"
    and m2: "merge_results (sw_answer w) objs (scan_jobs w objs) [] m1 = (Inr msgs, m2)"
    and m3: "scan_current w m2 = (Inr (), m3)" and m4: "broadcast_changes m3 = (b2, m4)"
    and res: "sr_files (scan_inner w m0) = m4"
    by (auto simp: scan_inner_def b1 split: sum.splits prod.splits if_splits)
  have m0: "files_ok m0" "listed m0 = listed m" "mo_last_scan m0 = Some now"
    using assms(1) by (simp_all add: m0_def files_ok_def listed_def)
  note k1 = broadcast_changes_list [OF b1]
  have d: "distinct (map fst objs)" using deployed_files_keys [OF objs] by simp
  then have dj: "distinct (map fst (scan_jobs w objs))"
    by (simp add: scan_jobs_def comp_def case_prod_unfold distinct_map_filter)
  note k2 = merge_results_ok [OF m2 k1(2) [OF m0(1)]] merge_results_listed [OF m2 k1(2) [OF m0(1)] dj]
  note k3 = scan_current_list [of w m2, unfolded m3 snd_conv]
  note k4 = broadcast_changes_list [OF m4]
  have s3: "\<not> mo_scanning m3" using m3 by (auto simp: scan_current_def split: sum.splits prod.splits)
  have jobs: "fst ` set (scan_jobs w objs) = {h. sw_up w h \<and> h \<in> fst ` set objs}"
    by (force simp: scan_jobs_def)
  have job: "(h, out) \<in> set (scan_jobs w objs) \<longleftrightarrow>
      (\<exists>os. map_of objs h = Some os \<and> sw_up w h \<and> out = scan_job (sw_jobs w h (map ob_path os)) '''')" for h out
    using d by (force simp: scan_jobs_def)
  have found: "{(h, c). \<exists>out. (h, out) \<in> set (scan_jobs w objs) \<and> c \<in> host_found (sw_answer w) (map_of objs h) out}
     = {(h, p, c). \<exists>os out cs. map_of objs h = Some os \<and> sw_up w h
            \<and> scan_job (sw_jobs w h (map ob_path os)) '''' = Some out \<and> sw_answer w out = Some cs
            \<and> map_of (rev (diffs os cs)) p = Some c}"
    unfolding job by (auto simp: host_found_def)
  have "listed m4 = {t \<in> listed m. \<not> (sw_up w (fst t) \<and> fst t \<in> fst ` set objs)}
        \<union> {(h, p, c). \<exists>os out cs. map_of objs h = Some os \<and> sw_up w h
            \<and> scan_job (sw_jobs w h (map ob_path os)) '''' = Some out \<and> sw_answer w out = Some cs
            \<and> map_of (rev (diffs os cs)) p = Some c}"
    using k1(1) k2(2) k3 k4(1) m0(2) unfolding jobs found by auto
  moreover have "files_ok m4" "\<not> mo_scanning m4" "mo_last_scan m4 = Some now"
    using k1 k2(1) k3 k4 m0 s3 by auto
  ultimately show ?thesis using objs unfolding sc res by blast
qed

text \<open>C24: a scan that succeeds makes the list right: for every host that is up and has deployed
  files, the live entries are exactly the files whose content on the host is not the one
  deployed (with the later of two objects with the same path), with both contents; entries of
  other hosts are as they were, no file is listed twice, the scan is over and its time kept.\<close>

theorem scan_exact:
  assumes "files_ok m" and "\<not> mo_scanning m" and "sr_result (scan w now m) = Inr ()"
  shows "\<exists>objs. deployed_files (sw_row w) (sw_rows w) [] = Inr objs
    \<and> listed (sr_files (scan w now m)) =
        {t \<in> listed m. \<not> (sw_up w (fst t) \<and> fst t \<in> fst ` set objs)}
        \<union> {(h, p, c). \<exists>os out cs. map_of objs h = Some os \<and> sw_up w h
            \<and> scan_job (sw_jobs w h (map ob_path os)) '''' = Some out \<and> sw_answer w out = Some cs
            \<and> map_of (rev (diffs os cs)) p = Some c}
    \<and> files_ok (sr_files (scan w now m)) \<and> \<not> mo_scanning (sr_files (scan w now m))
    \<and> mo_last_scan (sr_files (scan w now m)) = Some now"
  by (rule scan_effect [OF assms])

definition demo_scan :: scan_world where
  "demo_scan = \<lparr>sw_rows = [\<lparr>fr_host = 1, fr_type = 6, fr_content = ''x''\<rparr>],
     sw_row = (\<lambda>_. Some (9, Some [(''path'', JString ''/p''), (''data'', JString ''old'')])),
     sw_up = (\<lambda>h. h = 1), sw_jobs = (\<lambda>_ _. [JM_Stdout ''a'', JM_Success None]),
     sw_answer = (\<lambda>_. Some [(''/p'', Some ''new'')]), sw_emit = (\<lambda>_. True),
     sw_objects = (\<lambda>_. None), sw_object = (\<lambda>_. None)\<rparr>"

lemma demo_scan_result: "sr_result (scan demo_scan 5 modified_files_default) = Inr ()"
  by code_simp

lemma demo_scan_files:
  "files_ok (sr_files (scan demo_scan 5 modified_files_default))
   \<and> \<not> mo_scanning (sr_files (scan demo_scan 5 modified_files_default))
   \<and> (1, ''/p'', ''old'', 6, 9, ''new'') \<in> listed (sr_files (scan demo_scan 5 modified_files_default))"
  using scan_effect [of modified_files_default demo_scan 5] demo_scan_result
  by (auto simp: files_ok_def modified_files_default_def demo_scan_def deployed_file_def data_key_def
      FILE_ID_def CRON_ID_def SYSTEMD_SERVICE_ID_def opt_string_def path_of_def obj_get_def diffs_def)

theorem scan_exact_witness:
  "(1, ''/p'', ''old'', 6, 9, ''new'') \<in> listed (sr_files (scan demo_scan 5 modified_files_default))
   \<and> \<not> mo_scanning (sr_files (scan demo_scan 5 modified_files_default))"
  using scan_exact [of modified_files_default demo_scan 5] demo_scan_result
  by (auto simp: files_ok_def modified_files_default_def demo_scan_def deployed_file_def data_key_def
      FILE_ID_def CRON_ID_def SYSTEMD_SERVICE_ID_def opt_string_def path_of_def obj_get_def diffs_def)

section \<open>What the clients show\<close>

text \<open>
  A client keeps a map of the entries by id and applies what is sent to it
  (\<open>frontend/src/ModifiedFilesState.ts\<close>).
\<close>

definition replay_files :: "(int \<rightharpoonup> modified_file) \<Rightarrow> files_changed \<Rightarrow> int \<rightharpoonup> modified_file" where
  "replay_files v fc =
     (\<lambda>i. if i \<in> set (fc_removed fc) then None
      else case List.find (\<lambda>f. mo_id f = i) (fc_changed fc) of
        Some f \<Rightarrow> Some f
      | None \<Rightarrow> if fc_full fc then None else v i)"

text \<open>
  The locked sections of scans and resolves, in any order, also several scans' worth of merges
  that failed; \<open>fs_sent\<close> lists the messages the sections of \<open>broadcast_changes\<close> computed, in the
  order of the sections. They are sent after the lock is released (theory \<open>Broadcast\<close>).
\<close>

record files_sys =
  fs_files :: modified_files
  fs_sent :: "files_changed list"

inductive files_step :: "files_sys \<Rightarrow> files_sys \<Rightarrow> bool" where
  began: "scan_begin now (fs_files s) = Some (orig, m) \<Longrightarrow> files_step s (s\<lparr>fs_files := m\<rparr>)"
| merged: "merge_results parse objs rs msgs (fs_files s) = (r, m) \<Longrightarrow> files_step s (s\<lparr>fs_files := m\<rparr>)"
| currents: "files_step s (s\<lparr>fs_files := snd (scan_current w (fs_files s))\<rparr>)"
| gave_up: "files_step s (s\<lparr>fs_files := scan_failed orig (fs_files s)\<rparr>)"
| resolved: "files_step s (s\<lparr>fs_files := mark_resolved i (fs_files s)\<rparr>)"
| sent: "broadcast_changes (fs_files s) = (b, m) \<Longrightarrow> files_step s (s\<lparr>fs_files := m, fs_sent := fs_sent s @ [b]\<rparr>)"

definition files_init :: files_sys where
  "files_init = \<lparr>fs_files = modified_files_default, fs_sent = []\<rparr>"

text \<open>An entry without the field \<open>current\<close>, and the relation of a client's map to the list:
  entries that are not marked are shown as they are, and only ids of entries are shown.\<close>

definition strip :: "modified_file \<Rightarrow> modified_file" where
  "strip f = f\<lparr>mo_current := None\<rparr>"

definition shown_ok :: "(int \<rightharpoonup> modified_file) \<Rightarrow> modified_file \<times> file_prop \<Rightarrow> bool" where
  "shown_ok v mp =
     (po_updated (snd mp) \<or> \<not> po_dead (snd mp) \<and> map_option strip (v (mo_id (fst mp))) = Some (strip (fst mp)))"

definition mirrors :: "(int \<rightharpoonup> modified_file) \<Rightarrow> modified_files \<Rightarrow> bool" where
  "mirrors v m =
     (files_ok m \<and> (\<forall>mp \<in> set (mo_files m). shown_ok v mp)
      \<and> dom v \<subseteq> (\<lambda>mp. mo_id (fst mp)) ` set (mo_files m))"

lemma merge_file_shown:
  assumes "shown_ok v mp"
  shows "shown_ok v (fst (merge_file host modified mp))"
  using assms
  by (cases mp) (auto simp: merge_file_entry shown_ok_def strip_def split: option.splits)

lemma merge_host_mirrors:
  assumes "mirrors v m" and "distinct (map fst modified)" and "merge_host host modified m = (new, m')"
  shows "mirrors v m'"
proof -
  have ok: "files_ok m" using assms(1) by (simp add: mirrors_def)
  from merge_host_shape [OF ok assms(3)] obtain rest fs where
    fs: "fs = map (fst \<circ> merge_file host modified) (mo_files m)"
    and ids: "map (\<lambda>mp. mo_id (fst mp)) fs = map (\<lambda>mp. mo_id (fst mp)) (mo_files m)"
    and m': "m' = add_new host rest (m\<lparr>mo_files := fs\<rparr>)" by blast
  from add_new_files [of host rest "m\<lparr>mo_files := fs\<rparr>"] m' obtain new' where
    f: "mo_files m' = fs @ new'" and new': "\<forall>mp \<in> set new'. \<not> po_dead (snd mp) \<and> po_updated (snd mp)"
    by auto
  have "\<forall>mp \<in> set fs. shown_ok v mp"
    using assms(1) unfolding fs mirrors_def by (simp add: merge_file_shown)
  moreover have "\<forall>mp \<in> set new'. shown_ok v mp" using new' by (simp add: shown_ok_def)
  moreover have "dom v \<subseteq> (\<lambda>mp. mo_id (fst mp)) ` set (mo_files m')"
    using assms(1) arg_cong [OF ids, of set] unfolding mirrors_def f set_append image_Un by auto
  ultimately show ?thesis
    using merge_host_ok [OF ok assms(2,3)] by (auto simp: mirrors_def f)
qed

lemma broadcast_mirrors:
  assumes "broadcast_changes m = (b, m')" and "mirrors v m"
  shows "mirrors (replay_files v b) m'"
proof -
  have ok: "files_ok m" and shown: "\<And>mp. mp \<in> set (mo_files m) \<Longrightarrow> shown_ok v mp"
    and dom: "dom v \<subseteq> (\<lambda>mp. mo_id (fst mp)) ` set (mo_files m)"
    using assms(2) by (auto simp: mirrors_def)
  let ?upd = "filter (\<lambda>mp. po_updated (snd mp)) (mo_files m)"
  have rem: "fc_removed b = map (\<lambda>mp. mo_id (fst mp)) (filter (\<lambda>mp. po_dead (snd mp)) ?upd)"
    and chg: "fc_changed b = map fst (filter (\<lambda>mp. \<not> po_dead (snd mp)) ?upd)" and full: "\<not> fc_full b"
    and m': "mo_files m' = map (\<lambda>mp. (fst mp, (snd mp)\<lparr>po_updated := False\<rparr>))
        (filter (\<lambda>mp. \<not> po_dead (snd mp)) (mo_files m))"
    using assms(1) by (auto simp: broadcast_changes_def Let_def comp_def case_prod_unfold filter_map)
  have inj: "mp = mp'" if "mp \<in> set (mo_files m)" "mp' \<in> set (mo_files m)" "mo_id (fst mp) = mo_id (fst mp')" for mp mp'
    using ok that by (auto simp: files_ok_def distinct_map inj_on_def)
  have at: "replay_files v b (mo_id (fst mp)) =
      (if po_updated (snd mp) then if po_dead (snd mp) then None else Some (fst mp) else v (mo_id (fst mp)))"
    if mp: "mp \<in> set (mo_files m)" for mp
  proof -
    have r: "mo_id (fst mp) \<in> set (fc_removed b) \<longleftrightarrow> po_dead (snd mp) \<and> po_updated (snd mp)"
      unfolding rem using inj [OF mp] mp by force
    have c: "List.find (\<lambda>f. mo_id f = mo_id (fst mp)) (fc_changed b) =
        (if po_updated (snd mp) \<and> \<not> po_dead (snd mp) then Some (fst mp) else None)"
    proof (cases "List.find (\<lambda>f. mo_id f = mo_id (fst mp)) (fc_changed b)")
      case None
      then show ?thesis using mp by (force simp: find_None_iff chg)
    next
      case (Some f)
      then have "f \<in> set (fc_changed b)" "mo_id f = mo_id (fst mp)"
        by (auto simp: find_Some_iff in_set_conv_nth)
      then obtain mp' where "mp' \<in> set (mo_files m)" "f = fst mp'" "po_updated (snd mp')" "\<not> po_dead (snd mp')"
        "mo_id (fst mp') = mo_id (fst mp)"
        by (auto simp: chg)
      with inj [OF mp] Some show ?thesis by metis
    qed
    show ?thesis using r c full by (simp add: replay_files_def)
  qed
  have "shown_ok (replay_files v b) (fst mp, (snd mp)\<lparr>po_updated := False\<rparr>)"
    if "mp \<in> set (mo_files m)" "\<not> po_dead (snd mp)" for mp
    using that shown [OF that(1)] by (auto simp: shown_ok_def at)
  then have "\<forall>mp \<in> set (mo_files m'). shown_ok (replay_files v b) mp" unfolding m' by auto
  moreover have "dom (replay_files v b) \<subseteq> (\<lambda>mp. mo_id (fst mp)) ` set (mo_files m')"
  proof
    fix i assume i: "i \<in> dom (replay_files v b)"
    have "i \<in> (\<lambda>mp. mo_id (fst mp)) ` set (mo_files m)"
    proof (cases "List.find (\<lambda>f. mo_id f = i) (fc_changed b)")
      case None
      then have "i \<in> dom v" using i full by (auto simp: replay_files_def split: if_splits)
      then show ?thesis using dom by blast
    next
      case (Some f)
      then have "f \<in> set (fc_changed b)" "mo_id f = i" by (auto simp: find_Some_iff in_set_conv_nth)
      then show ?thesis by (auto simp: chg)
    qed
    then obtain mp where mp: "mp \<in> set (mo_files m)" "i = mo_id (fst mp)" by blast
    then have "\<not> po_dead (snd mp)" using i at [OF mp(1)] shown [OF mp(1)]
      by (auto simp: shown_ok_def split: if_splits)
    with mp show "i \<in> (\<lambda>mp. mo_id (fst mp)) ` set (mo_files m')" unfolding m'
      by (auto simp: image_image intro: rev_image_eqI)
  qed
  ultimately show ?thesis using broadcast_changes_list(2) [OF assms(1) ok] by (simp add: mirrors_def)
qed

lemma scan_current_mirrors:
  assumes "mirrors v m"
  shows "mirrors v (snd (scan_current w m))"
proof -
  have s: "map (\<lambda>mp. (strip (fst mp), snd mp)) (snd (set_current p sel fs))
      = map (\<lambda>mp. (strip (fst mp), snd mp)) fs" for p sel fs
  proof (induction p sel fs rule: set_current.induct)
    case (2 parse sel f p fs)
    then show ?case
      by (cases "sel (mo_object f)"; cases "current_of parse (mo_type f) (the (sel (mo_object f)))")
        (simp_all add: strip_def)
  qed simp
  have f: "mo_files (snd (scan_current w m)) = snd (set_current (sw_object w) (sw_objects w) (mo_files m))"
    by (simp add: scan_current_def split: sum.splits prod.splits)
  have id: "mo_id (strip f) = mo_id f" for f by (simp add: strip_def)
  define g where "g mp = (strip (fst mp), snd mp)" for mp :: "modified_file \<times> file_prop"
  define Q where "Q x = (po_updated (snd x) \<or> \<not> po_dead (snd x) \<and> map_option strip (v (mo_id (fst x))) = Some (fst x))"
    for x :: "modified_file \<times> file_prop"
  have "g ` set (mo_files (snd (scan_current w m))) = g ` set (mo_files m)"
    using arg_cong [OF s [of "sw_object w" "sw_objects w" "mo_files m"], of set]
    unfolding f g_def set_map .
  moreover have "(\<forall>mp \<in> S. shown_ok v mp) \<longleftrightarrow> (\<forall>x \<in> g ` S. Q x)"
    "(\<lambda>mp. mo_id (fst mp)) ` S = (\<lambda>x. mo_id (fst x)) ` g ` S" for S
    by (simp_all add: shown_ok_def Q_def g_def id image_image)
  ultimately have "(\<forall>mp \<in> set (mo_files (snd (scan_current w m))). shown_ok v mp)
      \<longleftrightarrow> (\<forall>mp \<in> set (mo_files m). shown_ok v mp)"
    "(\<lambda>mp. mo_id (fst mp)) ` set (mo_files (snd (scan_current w m))) = (\<lambda>mp. mo_id (fst mp)) ` set (mo_files m)"
    by metis+
  then show ?thesis using assms scan_current_list [of w m] by (simp add: mirrors_def)
qed

lemma resolved_mirrors:
  assumes "mirrors v m"
  shows "mirrors v (mark_resolved i m)"
proof -
  have k: "map (\<lambda>mp. fst mp) (mo_files (mark_resolved i m)) = map fst (mo_files m)"
    by (simp add: mark_resolved_def case_prod_unfold comp_def if_distrib cong: if_cong)
  have "map (\<lambda>mp. mo_id (fst mp)) (mo_files (mark_resolved i m)) = map (\<lambda>mp. mo_id (fst mp)) (mo_files m)"
    "map entry_key (mo_files (mark_resolved i m)) = map entry_key (mo_files m)"
    using arg_cong [OF k, of "map mo_id"] arg_cong [OF k, of "map (\<lambda>f. (mo_host f, mo_path f))"]
    by (simp_all add: comp_def entry_key_def [abs_def])
  note k = this
  have "(\<lambda>mp. mo_id (fst mp)) ` set (mo_files (mark_resolved i m)) = (\<lambda>mp. mo_id (fst mp)) ` set (mo_files m)"
    using arg_cong [OF k(1), of set] by simp
  moreover have "(\<forall>mp \<in> set fs. mo_id (fst mp) < n) \<longleftrightarrow> (\<forall>i \<in> set (map (\<lambda>mp. mo_id (fst mp)) fs). i < n)" for fs n
    by auto
  then have "files_ok (mark_resolved i m)"
    using assms unfolding mirrors_def files_ok_def k by (auto simp: mark_resolved_def)
  moreover have "\<forall>mp \<in> set (mo_files (mark_resolved i m)). shown_ok v mp"
    using assms by (fastforce simp: mirrors_def mark_resolved_def shown_ok_def split: if_splits)
  ultimately show ?thesis using assms by (simp add: mirrors_def)
qed

lemma files_step_mirrors:
  "files_step s t \<Longrightarrow> mirrors v (fs_files s) \<Longrightarrow>
   \<exists>ms. fs_sent t = fs_sent s @ ms \<and> mirrors (fold (\<lambda>b v. replay_files v b) ms v) (fs_files t)"
proof (induction rule: files_step.induct)
  case (began now s orig m)
  then have "mo_files m = mo_files (fs_files s) \<and> mo_idc m = mo_idc (fs_files s)"
    by (auto simp: scan_begin_def split: if_splits)
  with began(2) show ?case by (simp add: mirrors_def files_ok_def)
next
  case (merged parse objs rs msgs s r m)
  have "mirrors v m"
    by (rule merge_results_keeps [where I = "mirrors v", OF merged(1,2)]) (rule merge_host_mirrors)
  then show ?case by simp
next
  case (currents s w)
  then show ?case by (simp add: scan_current_mirrors)
next
  case (gave_up s orig)
  then show ?case by (simp add: scan_failed_def mirrors_def files_ok_def)
next
  case (resolved s i)
  then show ?case by (simp add: resolved_mirrors)
next
  case (sent s b m)
  from broadcast_mirrors [OF this] show ?case by simp
qed

interpretation shown_files: followed files_step fs_sent "\<lambda>b v. replay_files v b" "\<lambda>v s. mirrors v (fs_files s)"
  by unfold_locales (rule files_step_mirrors)

text \<open>A client starts from the whole list.\<close>

lemma files_reach_mirrors: "files_step\<^sup>*\<^sup>* files_init s \<Longrightarrow> \<exists>v. mirrors v (fs_files s)"
proof (induction rule: rtranclp_induct)
  case base
  have "mirrors Map.empty (fs_files files_init)"
    by (simp add: files_init_def mirrors_def files_ok_def modified_files_default_def)
  then show ?case by blast
qed (use files_step_mirrors in blast)

lemma find_SomeD: "List.find P xs = Some x \<Longrightarrow> x \<in> set xs \<and> P x"
  by (induction xs) (auto split: if_splits)

lemma list_files_mirrors:
  assumes "mirrors v m"
  shows "mirrors (replay_files Map.empty (list_files m)) m"
proof -
  let ?v = "replay_files Map.empty (list_files m)"
  have inj: "mp = mp'" if "mp \<in> set (mo_files m)" "mp' \<in> set (mo_files m)" "mo_id (fst mp) = mo_id (fst mp')" for mp mp'
    using assms that by (auto simp: mirrors_def files_ok_def distinct_map inj_on_def)
  have v: "?v i = List.find (\<lambda>f. mo_id f = i) (map fst (filter (\<lambda>x. \<not> po_dead (snd x)) (mo_files m)))" for i
    by (simp add: replay_files_def list_files_def split: option.splits)
  have "?v (mo_id (fst mp)) = Some (fst mp)" if mp: "mp \<in> set (mo_files m)" "\<not> po_dead (snd mp)" for mp
  proof (cases "?v (mo_id (fst mp))")
    case None
    then show ?thesis using mp by (force simp: v find_None_iff)
  next
    case (Some f)
    then have "f \<in> set (map fst (filter (\<lambda>x. \<not> po_dead (snd x)) (mo_files m)))" "mo_id f = mo_id (fst mp)"
      unfolding v using find_SomeD by fast+
    then show ?thesis using inj [OF mp(1)] Some by force
  qed
  then have "\<forall>mp \<in> set (mo_files m). shown_ok ?v mp"
    using assms by (auto simp: mirrors_def shown_ok_def)
  moreover have "dom ?v \<subseteq> (\<lambda>mp. mo_id (fst mp)) ` set (mo_files m)"
  proof
    fix i assume "i \<in> dom ?v"
    then obtain f where "?v i = Some f" by blast
    then have "f \<in> set (map fst (filter (\<lambda>x. \<not> po_dead (snd x)) (mo_files m)))" "mo_id f = i"
      unfolding v using find_SomeD by fast+
    then show "i \<in> (\<lambda>mp. mo_id (fst mp)) ` set (mo_files m)" by auto
  qed
  ultimately show ?thesis using assms by (simp add: mirrors_def)
qed

text \<open>C25: what the clients show of the list: however scans, failed scans, resolved entries, their
  broadcasts and the tasks that send them interleave, a client is sent every change computed
  since it was given the whole list (when none of before was left to broadcast) exactly once, in
  some order. Once it was sent all of them in
  the order they were computed, and no entry is marked as changed (as after every broadcast), it
  shows exactly the entries of the list, each as it is except for the field \<open>current\<close>, which a
  scan changes without marking the entry; and no file is listed twice. Nothing makes the order
  that of the sections (\<open>resolved_stays_shown\<close>).\<close>

theorem modified_files_shown:
  assumes "files_step\<^sup>*\<^sup>* files_init s0" and "spread files_step fs_sent cs s0 s b"
    and "distinct cs" and "c \<in> set cs"
  shows "\<exists>new. fs_sent s = fs_sent s0 @ new
    \<and> mset (ca_got b c) + mset (pending c b) = mset new
    \<and> (let v = foldl replay_files (replay_files Map.empty (list_files (fs_files s0))) (ca_got b c);
           fs = mo_files (fs_files s)
       in pending c b = [] \<and> (\<exists>later. new = ca_got b c @ later) \<and> list_all (\<lambda>mp. \<not> po_updated (snd mp)) fs
          \<longrightarrow> dom v = set (map (mo_id \<circ> fst) fs)
            \<and> list_all (\<lambda>mp. map_option strip (v (mo_id (fst mp))) = Some (strip (fst mp))) fs)
    \<and> files_ok (fs_files s)"
proof -
  let ?v0 = "replay_files Map.empty (list_files (fs_files s0))"
  have "mirrors ?v0 (fs_files s0)" using files_reach_mirrors [OF assms(1)] list_files_mirrors by blast
  from shown_files.spread_followed [OF assms(2) this assms(3)] assms(4) obtain new where
    new: "fs_sent s = fs_sent s0 @ new" "mirrors (foldl replay_files ?v0 new) (fs_files s)"
      "mset (ca_got b c) + mset (pending c b) = mset new"
    by (auto simp: foldl_conv_fold)
  let ?v = "foldl replay_files ?v0 (ca_got b c)" and ?fs = "mo_files (fs_files s)"
  have "dom ?v = set (map (mo_id \<circ> fst) ?fs)
      \<and> list_all (\<lambda>mp. map_option strip (?v (mo_id (fst mp))) = Some (strip (fst mp))) ?fs"
    if p: "pending c b = []" "\<exists>later. new = ca_got b c @ later" and u: "list_all (\<lambda>mp. \<not> po_updated (snd mp)) ?fs"
  proof -
    have "ca_got b c = new" using all_in_order [OF new(3) p(1)] p(2) by blast
    with new(2) have m: "mirrors ?v (fs_files s)" by simp
    with u have s: "\<forall>mp \<in> set ?fs. map_option strip (?v (mo_id (fst mp))) = Some (strip (fst mp))"
      by (auto simp: mirrors_def shown_ok_def list_all_iff)
    then have "(\<lambda>mp. mo_id (fst mp)) ` set ?fs \<subseteq> dom ?v" by force
    with m s show ?thesis by (auto simp: mirrors_def list_all_iff)
  qed
  with new show ?thesis by (intro exI [of _ new]) (auto simp: Let_def mirrors_def)
qed

text \<open>A file that was found, told, and then resolved.\<close>

definition demo_found :: modified_files where
  "demo_found = snd (merge_results (sw_answer demo_scan)
      [(1, [\<lparr>ob_path = ''/p'', ob_type = 6, ob_data = ''old'', ob_object = 9\<rparr>])] [(1, Some ''a'')] [] modified_files_default)"

definition told :: "files_changed \<times> modified_files" where
  "told = broadcast_changes demo_found"

definition untold :: "files_changed \<times> modified_files" where
  "untold = broadcast_changes (mark_resolved 0 (snd told))"

definition found_told :: files_sys where
  "found_told = \<lparr>fs_files = snd told, fs_sent = [fst told]\<rparr>"

definition found_resolved :: files_sys where
  "found_resolved = \<lparr>fs_files = snd untold, fs_sent = [fst told, fst untold]\<rparr>"

lemma found_reached: "files_step\<^sup>*\<^sup>* files_init found_told" "files_step\<^sup>*\<^sup>* files_init found_resolved"
proof -
  have "files_step files_init \<lparr>fs_files = demo_found, fs_sent = []\<rparr>"
    using merged [of "sw_answer demo_scan" _ _ _ files_init]
    unfolding demo_found_def files_init_def by (metis fs_files_update_def prod.collapse
      files_sys.select_convs(1) files_sys.simps(3) files_sys.update_convs(1))
  moreover have "files_step \<lparr>fs_files = demo_found, fs_sent = []\<rparr> found_told"
    using sent [of "\<lparr>fs_files = demo_found, fs_sent = []\<rparr>" "fst told" "snd told"]
    by (simp add: told_def found_told_def)
  ultimately show a: "files_step\<^sup>*\<^sup>* files_init found_told" by (meson rtranclp.simps)
  have "files_step found_told (found_told\<lparr>fs_files := mark_resolved 0 (snd told)\<rparr>)"
    using resolved [of found_told 0] by (simp add: found_told_def)
  moreover have "files_step (found_told\<lparr>fs_files := mark_resolved 0 (snd told)\<rparr>) found_resolved"
    using sent [of "found_told\<lparr>fs_files := mark_resolved 0 (snd told)\<rparr>" "fst untold" "snd untold"]
    by (simp add: untold_def found_told_def found_resolved_def)
  ultimately show "files_step\<^sup>*\<^sup>* files_init found_resolved" using a by (meson rtranclp.rtrancl_into_rtrancl)
qed

lemma files_any_order:
  assumes "files_step\<^sup>*\<^sup>* files_init s" and "mset p = mset (fs_sent s)"
  shows "\<exists>b. spread files_step fs_sent [c] files_init s b \<and> pending c b = [] \<and> ca_got b c = p"
proof -
  have "mirrors Map.empty (fs_files files_init)" "fs_sent s = fs_sent files_init @ fs_sent s"
    by (simp_all add: files_init_def mirrors_def files_ok_def modified_files_default_def)
  from shown_files.any_order [OF assms(1) this assms(2)] show ?thesis .
qed

theorem modified_files_shown_witness:
  "\<exists>b. spread files_step fs_sent [0] files_init found_told b
    \<and> dom (foldl replay_files (replay_files Map.empty (list_files (fs_files files_init))) (ca_got b 0)) = {0}"
proof -
  obtain b where b: "spread files_step fs_sent [0] files_init found_told b" "pending 0 b = []" "ca_got b 0 = [fst told]"
    using files_any_order [OF found_reached(1), of "[fst told]" 0] by (auto simp: found_told_def)
  have "distinct [0 :: nat]" "0 \<in> set [0 :: nat]" by simp_all
  from modified_files_shown [OF rtranclp.rtrancl_refl b(1) this] obtain new where
    n: "fs_sent found_told = fs_sent files_init @ new"
      "pending 0 b = [] \<and> (\<exists>later. new = ca_got b 0 @ later) \<and> list_all (\<lambda>mp. \<not> po_updated (snd mp)) (mo_files (fs_files found_told))
        \<longrightarrow> dom (foldl replay_files (replay_files Map.empty (list_files (fs_files files_init))) (ca_got b 0))
          = set (map (mo_id \<circ> fst) (mo_files (fs_files found_told)))"
    unfolding Let_def by blast
  have "list_all (\<lambda>mp. \<not> po_updated (snd mp)) (mo_files (fs_files found_told))"
    "map (mo_id \<circ> fst) (mo_files (fs_files found_told)) = [0]"
    by code_simp+
  moreover have "new = ca_got b 0" using n(1) b(3) by (simp add: found_told_def files_init_def)
  ultimately have "dom (foldl replay_files (replay_files Map.empty (list_files (fs_files files_init))) (ca_got b 0)) = {0}"
    using n(2) b(2) by simp
  with b(1) show ?thesis by blast
qed

text \<open>Further result: the order matters. A scan computes its change set with a modified file and releases the
  lock; the file is resolved, and the message that removes the entry is sent to a client before
  the one of the scan: the client was sent everything and goes on showing the entry, which is on
  the list no longer.\<close>

theorem resolved_stays_shown:
  "\<exists>s b. spread files_step fs_sent [0] files_init s b \<and> pending 0 b = [] \<and> mo_files (fs_files s) = []
    \<and> foldl replay_files (replay_files Map.empty (list_files (fs_files files_init))) (ca_got b 0) 0 \<noteq> None"
proof -
  obtain b where b: "spread files_step fs_sent [0] files_init found_resolved b" "pending 0 b = []"
    "ca_got b 0 = [fst untold, fst told]"
    using files_any_order [OF found_reached(2), of "[fst untold, fst told]" 0]
    by (auto simp: found_resolved_def add_mset_commute)
  have "mo_files (fs_files found_resolved) = []" by code_simp
  moreover have "(case foldl replay_files (replay_files Map.empty (list_files (fs_files files_init)))
      [fst untold, fst told] 0 of None \<Rightarrow> False | Some _ \<Rightarrow> True)"
    by code_simp
  ultimately show ?thesis using b
    by (intro exI [of _ found_resolved] exI [of _ b]) (auto split: option.splits)
qed

definition demo_saved :: scan_world where
  "demo_saved = demo_scan\<lparr>sw_objects := [9 \<mapsto> ''obj''],
     sw_object := (\<lambda>_. Some [(''path'', JString ''/p''), (''data'', JString ''new'')])\<rparr>"

text \<open>Further result: the field \<open>current\<close> shown by a client goes stale: when an object is saved after its
  file was listed, the next scan takes its new content over but broadcasts nothing about the
  entry, so a client keeps showing the old one.\<close>

theorem current_goes_stale:
  "let r = scan demo_scan 5 modified_files_default;
       r' = scan demo_saved 6 (sr_files r);
       v = foldl replay_files Map.empty (sr_broadcasts r @ sr_broadcasts r')
   in sr_result r' = Inr ()
      \<and> map (mo_current \<circ> fst) (mo_files (sr_files r')) = [Some ''new'']
      \<and> map_option mo_current (v 0) = Some None"
  by code_simp

text \<open>Further result: files of a host none of whose files are deployed any more stay listed: a successful scan
  looks only at hosts with deployed files, so entries whose objects are gone are kept, whatever
  is on the host.\<close>

theorem undeployed_files_stay:
  assumes "files_ok m" and "\<not> mo_scanning m" and "sr_result (scan w now m) = Inr ()"
    and "list_all (\<lambda>r. fr_host r \<noteq> fst t) (sw_rows w)" and "t \<in> listed m"
  shows "t \<in> listed (sr_files (scan w now m))"
proof -
  have "deployed_files p rs objs = Inr objs' \<Longrightarrow> list_all (\<lambda>r. fr_host r \<noteq> h) rs \<Longrightarrow> h \<notin> fst ` set objs
      \<Longrightarrow> h \<notin> fst ` set objs'" for p rs objs objs' h
    by (induction p rs objs rule: deployed_files.induct)
      (auto simp: dom_update split: sum.splits option.splits)
  moreover obtain objs where objs: "deployed_files (sw_row w) (sw_rows w) [] = Inr objs"
    and "{u \<in> listed m. \<not> (sw_up w (fst u) \<and> fst u \<in> fst ` set objs)} \<subseteq> listed (sr_files (scan w now m))"
    using scan_effect [OF assms(1-3)] by blast
  ultimately show ?thesis using assms(4,5) by force
qed

theorem undeployed_files_stay_witness:
  "(1, ''/p'', ''old'', 6, 9, ''new'')
     \<in> listed (sr_files (scan (demo_scan\<lparr>sw_rows := []\<rparr>) 7 (sr_files (scan demo_scan 5 modified_files_default))))"
proof -
  let ?m = "sr_files (scan demo_scan 5 modified_files_default)"
  have "sr_result (scan (demo_scan\<lparr>sw_rows := []\<rparr>) 7 ?m) = Inr ()" by code_simp
  with undeployed_files_stay [of ?m "demo_scan\<lparr>sw_rows := []\<rparr>" 7 "(1, ''/p'', ''old'', 6, 9, ''new'')"]
    demo_scan_files show ?thesis by simp
qed

text \<open>The first message of a job that counts as resolving the entry: a success, or any output.\<close>

fun resolving :: "job_message option \<Rightarrow> bool" where
  "resolving (Some (JM_Success code)) = (code = None \<or> code = Some 0)"
| "resolving (Some (JM_Stdout s)) = True"
| "resolving (Some JM_BadData) = True"
| "resolving (Some JM_Data) = True"
| "resolving (Some JM_Failure) = False"
| "resolving (Some JM_Other) = False"
| "resolving None = False"

lemma resolving_job: "(\<exists>u. redeploy_job a = Inr u) \<longleftrightarrow> resolving a"
  by (cases a rule: resolving.cases) (auto simp: redeploy_job_def split: option.splits)

lemma resolved_removed:
  assumes "find_entry i m = Some f" and "broadcast_changes (mark_resolved i m) = (b, m')"
  shows "i \<in> set (fc_removed b) \<and> find_entry i m' = None"
proof
  have "\<exists>mp \<in> set (mo_files m). mo_id (fst mp) = i"
  proof (rule ccontr)
    assume "\<not> ?thesis"
    then have "find_entry i m = None" by (auto simp: find_entry_def find_None_iff case_prod_unfold)
    with assms(1) show False by simp
  qed
  then obtain mp where mp: "mp \<in> set (mo_files m)" "mo_id (fst mp) = i" by blast
  then have marked: "(fst mp, \<lparr>po_dead = True, po_updated = True\<rparr>) \<in> set (mo_files (mark_resolved i m))"
    by (auto simp: mark_resolved_def case_prod_unfold intro!: rev_image_eqI [OF mp(1)])
  have "fc_removed b = map (\<lambda>mp. mo_id (fst mp)) (filter (\<lambda>mp. po_dead (snd mp))
      (filter (\<lambda>mp. po_updated (snd mp)) (mo_files (mark_resolved i m))))"
    using assms(2) by (auto simp: broadcast_changes_def Let_def comp_def)
  with marked mp(2) show "i \<in> set (fc_removed b)"
    by (auto intro: rev_image_eqI [of "(fst mp, \<lparr>po_dead = True, po_updated = True\<rparr>)"])
  have "mo_files m' = map (\<lambda>mp. (fst mp, (snd mp)\<lparr>po_updated := False\<rparr>))
      (filter (\<lambda>mp. \<not> po_dead (snd mp)) (mo_files (mark_resolved i m)))"
    using assms(2) by (auto simp: broadcast_changes_def Let_def filter_map comp_def case_prod_unfold)
  moreover have "\<forall>mp \<in> set (mo_files (mark_resolved i m)). mo_id (fst mp) = i \<longrightarrow> po_dead (snd mp)"
    by (auto simp: mark_resolved_def split: if_splits)
  ultimately show "find_entry i m' = None" by (auto simp: find_entry_def find_None_iff)
qed

text \<open>C26: resolving an entry by deploying it again succeeds, and takes the entry from the list and
  puts it among the removed ones that are broadcast, exactly when the entry exists, its host is
  up, the job could be started and its first message is a success or any output at all: a script
  that prints a message before it fails counts as resolved. In every other case it fails and the
  list stays as it is.\<close>

theorem redeploy_resolves:
  "case resolve_redeploy up job i m of
     (Inr b, m') \<Rightarrow> (\<exists>f a. find_entry i m = Some f \<and> up (mo_host f) \<and> job f = Some a \<and> resolving a)
       \<and> i \<in> set (fc_removed b) \<and> find_entry i m' = None
   | (Inl e, m') \<Rightarrow> \<not> (\<exists>f a. find_entry i m = Some f \<and> up (mo_host f) \<and> job f = Some a \<and> resolving a)
       \<and> m' = m"
proof (cases "\<exists>f a. find_entry i m = Some f \<and> up (mo_host f) \<and> job f = Some a \<and> resolving a")
  case True
  then obtain f a u where f: "find_entry i m = Some f" "up (mo_host f)" "job f = Some a" "redeploy_job a = Inr u"
    using resolving_job by blast
  obtain b m' where b: "broadcast_changes (mark_resolved i m) = (b, m')" by fastforce
  with f have "resolve_redeploy up job i m = (Inr b, m')" by (simp add: resolve_redeploy_def)
  with True resolved_removed [OF f(1) b] show ?thesis by simp
next
  case False
  have "\<exists>e. redeploy_job a = Inl e" if "\<not> resolving a" for a
    using that resolving_job [of a] by (cases "redeploy_job a") auto
  with False have "\<exists>e. resolve_redeploy up job i m = (Inl e, m)"
    by (auto simp: resolve_redeploy_def split: option.splits) (metis sum.case(1))
  with False show ?thesis by auto
qed

end
