(* ===== verification/Object_Requests.thy ===== *)
theory Object_Requests
  imports Objects
begin

text \<open>
  The requests of a browser that read and change objects (\<open>handle_message\<close>,
  \<open>handle_generate_key_inner\<close> and \<open>get_object_id_inner\<close> in \<open>src/bin/server/webclient.rs\<close>), without the
  checks of rights in front of them (theory \<open>Web_Requests\<close>). The parsers and printers, the hash
  of passwords (with a fresh salt, so indexed by the field it is for), the secrets of one time
  passwords and SQL's \<open>LIKE\<close> are parameters.
\<close>

record object_env =
  oe_parse :: "string \<Rightarrow> string + value_map"
  oe_type :: "string \<Rightarrow> string + itype"
  oe_itype :: "value_map \<Rightarrow> string + itype"
  oe_write :: "value_map \<Rightarrow> string"
  oe_hash :: "string \<Rightarrow> string \<Rightarrow> string option"
  oe_otp_secret :: "string \<Rightarrow> (string \<times> string) option"
  oe_like :: "string \<Rightarrow> string \<Rightarrow> bool"
  oe_now :: int

datatype request_error =
    NoRow | DbError db_error | MissingObject | BadType string | HashFailed | OtpSecretFailed | MissingUser
  | MissingSlash | NotReturned

section \<open>Reading\<close>

text \<open>\<open>FetchObject\<close>: all versions of an object.\<close>

fun row_objects :: "(string \<Rightarrow> string + 'c) \<Rightarrow> obj_row list \<Rightarrow> request_error + 'c iobject list" where
  "row_objects parse [] = Inr []"
| "row_objects parse (r # rs) =
     (case row_object parse r of
        Inl e \<Rightarrow> Inl (DbError e)
      | Inr ob \<Rightarrow> map_sum id ((#) ob) (row_objects parse rs))"

definition fetch_object :: "object_env \<Rightarrow> int \<Rightarrow> objects_db \<Rightarrow> request_error + value_map iobject list" where
  "fetch_object env i db = row_objects (oe_parse env) (rows_of i db)"

definition get_object_id_inner :: "string \<Rightarrow> objects_db \<Rightarrow> request_error + int" where
  "get_object_id_inner path db =
     (case split_once ''/'' path of
        None \<Rightarrow> Inl MissingSlash
      | Some (type_name, object_name) \<Rightarrow>
          (case List.find (\<lambda>r. r_type r = TYPE_ID \<and> r_name r = type_name \<and> r_newest r) (od_rows db) of
             None \<Rightarrow> Inl NoRow
           | Some t \<Rightarrow>
               (case List.find (\<lambda>r. r_type r = r_id t \<and> r_name r = object_name \<and> r_newest r) (od_rows db) of
                  None \<Rightarrow> Inl NoRow
                | Some ob \<Rightarrow> Inr (r_id ob))))"

definition get_object_id :: "string \<Rightarrow> objects_db \<Rightarrow> int option" where
  "get_object_id path db = (case get_object_id_inner path db of Inr i \<Rightarrow> Some i | Inl _ \<Rightarrow> None)"

definition get_object_history :: "int \<Rightarrow> objects_db \<Rightarrow> (int \<times> int \<times> string option) list" where
  "get_object_history i db = map (\<lambda>r. (r_version r, r_time r, r_author r)) (rows_of i db)"

record search_object =
  so_type :: object_type
  so_id :: int
  so_version :: int
  so_name :: string
  so_comment :: string
  so_content :: string

fun search_rows :: "obj_row list \<Rightarrow> request_error + search_object list" where
  "search_rows [] = Inr []"
| "search_rows (r # rs) =
     (case object_type_of_i64 (r_type r) of
        None \<Rightarrow> Inl (DbError InvalidObjectType)
      | Some ty \<Rightarrow>
          map_sum id ((#) \<lparr>so_type = ty, so_id = r_id r, so_version = r_version r, so_name = r_name r,
                         so_comment = r_comment r, so_content = r_content r\<rparr>)
            (search_rows rs))"

definition search_objects :: "object_env \<Rightarrow> string \<Rightarrow> objects_db \<Rightarrow> request_error + search_object list" where
  "search_objects env pattern db =
     search_rows (filter (\<lambda>r. (oe_like env (r_name r) pattern \<or> oe_like env (r_content r) pattern
         \<or> oe_like env (r_comment r) pattern) \<and> r_newest r) (od_rows db))"

text \<open>\<open>GetSecret\<close>: a variable of a host, of the root when the host is not known.\<close>

definition get_secret :: "object_env \<Rightarrow> string \<Rightarrow> string option \<Rightarrow> objects_db \<Rightarrow> (request_error + string option) option" where
  "get_secret env name host db =
     (let host_row = (case host of
            None \<Rightarrow> None
          | Some h \<Rightarrow> List.find (\<lambda>r. r_type r = HOST_ID \<and> r_name r = h \<and> r_newest r) (od_rows db));
          root = (\<lambda>_. case get_root_variables (oe_parse env) db of
            Inl e \<Rightarrow> Inl (DbError e)
          | Inr vars \<Rightarrow> Inr (vars name))
      in case host_row of
           None \<Rightarrow> Some (root ())
         | Some r \<Rightarrow>
             (case get_host_variables (oe_parse env) (r_id r) db of
                None \<Rightarrow> None
              | Some (Inl e) \<Rightarrow> Some (Inl (DbError e))
              | Some (Inr None) \<Rightarrow> Some (root ())
              | Some (Inr (Some vars)) \<Rightarrow> Some (Inr (vars name))))"

section \<open>The initial state\<close>

record object_digest =
  og_type :: object_type
  og_id :: int
  og_name :: string
  og_category :: string
  og_comment :: string

record initial_objects =
  in_types :: "(object_type \<times> itype iobject) list"
  in_used_by :: "(int \<times> int) list"
  in_names :: "(object_type \<times> object_digest list) list"

text \<open>The ids an object uses, as the server looks for them.\<close>

definition uses :: "value_map \<Rightarrow> int list" where
  "uses c = depends_iter c @ contains_iter c @ sudo_on_iter c"

definition add_name :: "object_digest \<Rightarrow> (object_type \<times> object_digest list) list \<Rightarrow> (object_type \<times> object_digest list) list" where
  "add_name g names =
     (if map_of names (og_type g) = None then names @ [(og_type g, [g])]
      else map (\<lambda>(t, gs). if t = og_type g then (t, gs @ [g]) else (t, gs)) names)"

definition add_initial ::
  "object_env \<Rightarrow> value_map iobject \<Rightarrow> initial_objects \<Rightarrow> request_error + initial_objects" where
  "add_initial env ob acc =
     res_bind
       (if io_type ob = OT_Id TYPE_ID
        then (case oe_itype env (io_content ob) of
                Inl e \<Rightarrow> Inl (BadType e)
              | Inr ty \<Rightarrow> Inr (acc\<lparr>in_types := in_types acc @
                    [(OT_Id (io_id ob), \<lparr>io_id = io_id ob, io_type = io_type ob, io_name = io_name ob,
                       io_category = io_category ob, io_content = ty, io_version = io_version ob,
                       io_comment = io_comment ob, io_author = io_author ob, io_time = io_time ob\<rparr>)]\<rparr>))
        else Inr acc)
       (\<lambda>acc. Inr (acc\<lparr>in_names := add_name \<lparr>og_type = io_type ob, og_id = io_id ob, og_name = io_name ob,
                 og_category = io_category ob, og_comment = io_comment ob\<rparr> (in_names acc),
               in_used_by := in_used_by acc @ map (\<lambda>v. (v, io_id ob)) (uses (io_content ob))\<rparr>))"

fun initial_rows :: "object_env \<Rightarrow> obj_row list \<Rightarrow> initial_objects \<Rightarrow> request_error + initial_objects" where
  "initial_rows env [] acc = Inr acc"
| "initial_rows env (r # rs) acc =
     (case row_object (oe_parse env) r of
        Inl e \<Rightarrow> Inl (DbError e)
      | Inr ob \<Rightarrow> res_bind (add_initial env ob acc) (initial_rows env rs))"

definition initial_state :: "object_env \<Rightarrow> objects_db \<Rightarrow> request_error + initial_objects" where
  "initial_state env db =
     initial_rows env (sort_key r_id (filter r_newest (od_rows db)))
       \<lparr>in_types = [], in_used_by = [], in_names = []\<rparr>"

section \<open>Saving\<close>

text \<open>What already looks like a hash is kept.\<close>

definition looks_hashed :: "string \<Rightarrow> bool" where
  "looks_hashed v = (starts_with ''$6$'' v \<or> starts_with ''$y$'' v)"

fun hash_passwords :: "object_env \<Rightarrow> type_prop list \<Rightarrow> value_map \<Rightarrow> request_error + value_map" where
  "hash_passwords env [] content = Inr content"
| "hash_passwords env (TP_Password r # tcs) content =
     (case obj_get (pp_name r) content of
        Some (JString v) \<Rightarrow>
          if looks_hashed v then hash_passwords env tcs content
          else (case oe_hash env (pp_name r) v of
                  None \<Rightarrow> Inl HashFailed
                | Some h \<Rightarrow> hash_passwords env tcs (obj_insert (pp_name r) (JString h) content))
      | _ \<Rightarrow> hash_passwords env tcs content)"
| "hash_passwords env (_ # tcs) content = hash_passwords env tcs content"

definition add_otp_secret :: "object_env \<Rightarrow> int \<Rightarrow> string \<Rightarrow> value_map \<Rightarrow> request_error + value_map" where
  "add_otp_secret env object_type name content =
     (if object_type = USER_ID \<and> (obj_get ''otp_base32'' content = None \<or> obj_get ''otp_url'' content = None)
      then (case oe_otp_secret env name of
              None \<Rightarrow> Inl OtpSecretFailed
            | Some (otp_base32, otp_url) \<Rightarrow>
                Inr (obj_insert ''otp_url'' (JString otp_url)
                       (obj_insert ''otp_base32'' (JString otp_base32) content)))
      else Inr content)"

text \<open>The content as it is stored.\<close>

definition saved_content :: "object_env \<Rightarrow> value_map iobject \<Rightarrow> objects_db \<Rightarrow> request_error + value_map" where
  "saved_content env ob db =
     (let object_type = object_type_to_i64 (io_type ob)
      in case List.find (\<lambda>r. r_id r = object_type \<and> r_newest r) (od_rows db) of
           None \<Rightarrow> Inl NoRow
         | Some r \<Rightarrow>
             (case oe_type env (r_content r) of
                Inl e \<Rightarrow> Inl (BadType e)
              | Inr ty \<Rightarrow>
                  res_bind (hash_passwords env (opt_or (ty_content ty) []) (io_content ob))
                    (add_otp_secret env object_type (io_name ob))))"

text \<open>The object that is broadcast, under the id it was saved with.\<close>

definition save_object ::
  "object_env \<Rightarrow> string option \<Rightarrow> int \<Rightarrow> value_map iobject option \<Rightarrow> objects_db
    \<Rightarrow> (request_error + int \<times> value_map iobject) \<times> objects_db" where
  "save_object env user i object db =
     (case object of
        None \<Rightarrow> (Inl MissingObject, db)
      | Some ob \<Rightarrow>
          (case saved_content env ob db of
             Inl e \<Rightarrow> (Inl e, db)
           | Inr content \<Rightarrow>
               (case user of
                  None \<Rightarrow> (Inl MissingUser, db)
                | Some u \<Rightarrow>
                    (case change_object (oe_now env) i
                        (Some \<lparr>no_type = io_type ob, no_name = io_name ob, no_content = oe_write env content,
                               no_category = io_category ob, no_comment = io_comment ob\<rparr>) u db of
                       (Inl e, db') \<Rightarrow> (Inl (DbError e), db')
                     | (Inr (j, version), db') \<Rightarrow>
                         (Inr (j, ob\<lparr>io_content := content, io_version := version\<rparr>), db')))))"

section \<open>Deleting\<close>

text \<open>An object that uses the one to be deleted: its name and type, and how it does.\<close>

definition object_conflicts :: "int \<Rightarrow> string \<Rightarrow> int \<Rightarrow> value_map \<Rightarrow> (string \<times> int \<times> string) list" where
  "object_conflicts i name ty c =
     concat (map (\<lambda>(n, vs). map (\<lambda>_. (name, ty, n)) (filter (\<lambda>v. v = i) vs))
       [(''sudo_on'', sudo_on_iter c), (''depends'', depends_iter c), (''contains'', contains_iter c)])"

fun conflicts :: "object_env \<Rightarrow> int \<Rightarrow> obj_row list \<Rightarrow> request_error + (string \<times> int \<times> string) list" where
  "conflicts env i [] = Inr []"
| "conflicts env i (r # rs) =
     (case oe_parse env (r_content r) of
        Inl e \<Rightarrow> Inl (DbError (BadContent e))
      | Inr c \<Rightarrow>
          map_sum id (\<lambda>cs. (if r_type r = i then [(r_name r, r_type r, ''type'')] else [])
                            @ object_conflicts i (r_name r) (r_type r) c @ cs)
            (conflicts env i rs))"

datatype delete_outcome = Conflicts "(string \<times> int \<times> string) list" | Deleted

definition delete_object ::
  "object_env \<Rightarrow> string option \<Rightarrow> int \<Rightarrow> objects_db \<Rightarrow> (request_error + delete_outcome) \<times> objects_db" where
  "delete_object env user i db =
     (case conflicts env i (sort_key r_id (filter r_newest (od_rows db))) of
        Inl e \<Rightarrow> (Inl e, db)
      | Inr cs \<Rightarrow>
          if cs \<noteq> [] then (Inr (Conflicts cs), db)
          else case user of
            None \<Rightarrow> (Inl MissingUser, db)
          | Some u \<Rightarrow>
              (case change_object (oe_now env) i None u db of
                 (Inl e, db') \<Rightarrow> (Inl (DbError e), db')
               | (Inr _, db') \<Rightarrow> (Inr Deleted, db')))"

section \<open>What is saved\<close>

lemmas obj_get_insert [simp] = obj.get_ins

text \<open>The fields a type declares as passwords, and what a field becomes when it is stored: a password
  that was typed becomes the hash of what was typed, under its own field; one that starts with
  \<open>$6$\<close> or \<open>$y$\<close> is stored as it came, typed or not; anything else is stored as sent.\<close>

definition password_names :: "type_prop list \<Rightarrow> string list" where
  "password_names tcs = List.map_filter (\<lambda>t. case t of TP_Password r \<Rightarrow> Some (pp_name r) | _ \<Rightarrow> None) tcs"

lemma password_names_simps [simp]:
  "password_names [] = []"
  "password_names (TP_Password r # tcs) = pp_name r # password_names tcs"
  "\<forall>r. t \<noteq> TP_Password r \<Longrightarrow> password_names (t # tcs) = password_names tcs"
  by (auto simp: password_names_def List.map_filter_def split: type_prop.splits)

definition stored_field :: "object_env \<Rightarrow> string list \<Rightarrow> string \<Rightarrow> json option \<Rightarrow> json option" where
  "stored_field env names k typed =
     (case typed of
        Some (JString v) \<Rightarrow>
          if k \<in> set names \<and> \<not> looks_hashed v then map_option JString (oe_hash env k v) else typed
      | _ \<Rightarrow> typed)"

lemma hash_passwords_stored:
  "hash_passwords env tcs c = Inr c' \<Longrightarrow> distinct (password_names tcs) \<Longrightarrow>
   obj_get k c' = stored_field env (password_names tcs) k (obj_get k c)"
proof (induction tcs arbitrary: c)
  case Nil
  then show ?case by (simp add: stored_field_def split: option.splits json.splits)
next
  case (Cons t tcs)
  show ?case
  proof (cases "\<exists>r. t = TP_Password r")
    case False
    then have "hash_passwords env (t # tcs) c = hash_passwords env tcs c" by (cases t) simp_all
    with Cons False show ?thesis by simp
  next
    case True
    then obtain r where t: "t = TP_Password r" by blast
    have other: "stored_field env (pp_name r # password_names tcs) k x = stored_field env (password_names tcs) k x"
      if "k \<noteq> pp_name r" for x
      using that by (simp add: stored_field_def split: option.splits json.splits)
    have mine: "stored_field env (password_names tcs) (pp_name r) x = x" for x
      using Cons.prems(2) t by (simp add: stored_field_def split: option.splits json.splits)
    show ?thesis
    proof (cases "\<exists>v. obj_get (pp_name r) c = Some (JString v) \<and> \<not> looks_hashed v")
      case True
      then obtain v h where v: "obj_get (pp_name r) c = Some (JString v)" "\<not> looks_hashed v"
        "oe_hash env (pp_name r) v = Some h"
        using Cons.prems(1) t by (auto split: option.splits)
      then have "hash_passwords env tcs (obj_insert (pp_name r) (JString h) c) = Inr c'"
        using Cons.prems(1) t by simp
      from Cons.IH [OF this] Cons.prems(2) t have
        "obj_get k c' = stored_field env (password_names tcs) k (obj_get k (obj_insert (pp_name r) (JString h) c))"
        by simp
      then show ?thesis
        using v mine other t by (cases "k = pp_name r") (simp_all, simp add: stored_field_def)
    next
      case False
      then have "hash_passwords env tcs c = Inr c'"
        using Cons.prems(1) t by (auto split: option.splits json.splits)
      from Cons.IH [OF this] Cons.prems(2) t have
        "obj_get k c' = stored_field env (password_names tcs) k (obj_get k c)" by simp
      moreover have "stored_field env (pp_name r # password_names tcs) (pp_name r) (obj_get (pp_name r) c)
          = obj_get (pp_name r) c"
        using False by (auto simp: stored_field_def split: option.splits json.splits)
      ultimately show ?thesis using mine other t by (cases "k = pp_name r") simp_all
    qed
  qed
qed

text \<open>The secret for one time passwords of a user: made when either of its two fields is missing.\<close>

definition stored_otp :: "object_env \<Rightarrow> value_map iobject \<Rightarrow> value_map \<Rightarrow> bool" where
  "stored_otp env ob c =
     (if io_type ob = OT_Id USER_ID
         \<and> (obj_get ''otp_base32'' (io_content ob) = None \<or> obj_get ''otp_url'' (io_content ob) = None)
      then map_option (\<lambda>(s, u). (JString s, JString u)) (oe_otp_secret env (io_name ob))
             = Some (the (obj_get ''otp_base32'' c), the (obj_get ''otp_url'' c))
        \<and> obj_get ''otp_base32'' c \<noteq> None \<and> obj_get ''otp_url'' c \<noteq> None
      else obj_get ''otp_base32'' c = obj_get ''otp_base32'' (io_content ob)
        \<and> obj_get ''otp_url'' c = obj_get ''otp_url'' (io_content ob))"

lemma add_otp_secret_other:
  "add_otp_secret env ty name c = Inr c' \<Longrightarrow> k \<notin> {''otp_base32'', ''otp_url''} \<Longrightarrow> obj_get k c' = obj_get k c"
  by (auto simp: add_otp_secret_def split: if_splits option.splits prod.splits)

definition type_props :: "object_env \<Rightarrow> object_type \<Rightarrow> objects_db \<Rightarrow> type_prop list" where
  "type_props env t db =
     (case current db (object_type_to_i64 t) of
        None \<Rightarrow> []
      | Some r \<Rightarrow> (case oe_type env (r_content r) of Inl _ \<Rightarrow> [] | Inr ty \<Rightarrow> opt_or (ty_content ty) []))"

lemma saved_content_stored:
  assumes "saved_content env ob db = Inr content"
    and "distinct (password_names (type_props env (io_type ob) db))"
    and "''otp_base32'' \<notin> set (password_names (type_props env (io_type ob) db))"
    and "''otp_url'' \<notin> set (password_names (type_props env (io_type ob) db))"
  shows "k \<notin> {''otp_base32'', ''otp_url''} \<Longrightarrow> obj_get k content
      = stored_field env (password_names (type_props env (io_type ob) db)) k (obj_get k (io_content ob))"
    and "stored_otp env ob content"
proof -
  let ?ps = "type_props env (io_type ob) db"
  obtain c1 where c1: "hash_passwords env ?ps (io_content ob) = Inr c1"
    and c2: "add_otp_secret env (object_type_to_i64 (io_type ob)) (io_name ob) c1 = Inr content"
    using assms(1) by (auto simp: saved_content_def type_props_def current_def Let_def res_bind_Inr
        split: option.splits sum.splits)
  note stored = hash_passwords_stored [OF c1 assms(2)]
  show "obj_get k content = stored_field env (password_names ?ps) k (obj_get k (io_content ob))"
    if "k \<notin> {''otp_base32'', ''otp_url''}"
    using stored add_otp_secret_other [OF c2 that] by simp
  have raw: "stored_field env (password_names ?ps) k x = x" if "k \<in> {''otp_base32'', ''otp_url''}" for k x
    using that assms(3,4) by (auto simp: stored_field_def split: option.splits json.splits)
  have otp: "obj_get ''otp_base32'' c1 = obj_get ''otp_base32'' (io_content ob)"
    "obj_get ''otp_url'' c1 = obj_get ''otp_url'' (io_content ob)"
    using stored raw by simp_all
  have "io_type ob = OT_Id USER_ID \<longleftrightarrow> object_type_to_i64 (io_type ob) = USER_ID"
    by (cases "io_type ob") (auto simp: id_defs)
  with otp c2 show "stored_otp env ob content"
    by (auto simp: stored_otp_def add_otp_secret_def split: if_splits option.splits prod.splits)
qed

text \<open>Saving, without the request around it.\<close>

lemma save_object_effect:
  assumes "objects_ok db" and "save_object env user i (Some ob) db = (Inr (j, ob'), db')"
  shows "\<exists>u. user = Some u \<and> saved_content env ob db = Inr (io_content ob')
    \<and> ob' = ob\<lparr>io_content := io_content ob', io_version := io_version ob'\<rparr> \<and> objects_ok db'
    \<and> current db' = (current db)(j \<mapsto> new_row (oe_now env) j (io_version ob') u
        \<lparr>no_type = io_type ob, no_name = io_name ob, no_content = oe_write env (io_content ob'),
         no_category = io_category ob, no_comment = io_comment ob\<rparr>)
    \<and> (if i < 0 then j = od_next db \<and> io_version ob' = 1 \<and> (\<forall>r \<in> set (od_rows db). r_id r \<noteq> j)
       else j = i \<and> max_version i db = Some (io_version ob' - 1))"
proof -
  let ?so = "\<lambda>c. \<lparr>no_type = io_type ob, no_name = io_name ob, no_content = oe_write env c,
         no_category = io_category ob, no_comment = io_comment ob\<rparr>"
  obtain content u v where c: "saved_content env ob db = Inr content" "user = Some u"
    and ch: "change_object (oe_now env) i (Some (?so content)) u db = (Inr (j, v), db')"
    and ob': "ob' = ob\<lparr>io_content := content, io_version := v\<rparr>"
    using assms(2) by (auto simp: save_object_def split: sum.splits prod.splits option.splits)
  from change_object_effect [OF assms(1) ch] c show ?thesis
    unfolding ob' by (auto split: if_splits)
qed

definition demo_objects_env :: object_env where
  "demo_objects_env = \<lparr>oe_parse = (\<lambda>s. if s = ''uses9'' then Inr [(''depends'', JArray [JNumber (I64 9)])]
        else if s = ''sudo9'' then Inr [(''sudoOn'', JArray [JNumber (I64 9)])] else Inr []),
     oe_type = (\<lambda>_. Inr (itype_default\<lparr>ty_content := Some [TP_Password \<lparr>pp_title = [], pp_name = ''password'', pp_description = []\<rparr>]\<rparr>)),
     oe_itype = (\<lambda>_. Inr itype_default), oe_write = (\<lambda>_. ''{}''),
     oe_hash = (\<lambda>_ v. Some (''$y$'' @ v)), oe_otp_secret = (\<lambda>_. Some (''S'', ''U'')),
     oe_like = (\<lambda>_ _. True), oe_now = 5\<rparr>"

definition demo_obj :: "int \<Rightarrow> int \<Rightarrow> string \<Rightarrow> obj_row" where
  "demo_obj i ty c = \<lparr>r_id = i, r_version = 1, r_type = ty, r_name = ''o'', r_content = c, r_time = 0,
     r_newest = True, r_category = None, r_comment = '''', r_author = None\<rparr>"

definition demo_new_user :: "value_map iobject" where
  "demo_new_user = \<lparr>io_id = 8, io_type = OT_Id 4, io_name = ''me'', io_category = '''',
     io_content = [(''password'', JString ''pw'')], io_version = 0, io_comment = '''', io_author = None, io_time = 0\<rparr>"

definition demo_users :: objects_db where
  "demo_users = \<lparr>od_rows = [demo_obj 4 1 ''ty'', demo_obj 8 4 ''x''], od_next = 9\<rparr>"

section \<open>What is deleted\<close>

text \<open>Every object that a newest object depends on, contains or has as its type (ids above 0) exists.
  The objects a \<open>sudoOn\<close> names are left out: a deletion does not look for them
  (\<open>sudo_on_not_protected\<close>).\<close>

definition refs_ok :: "object_env \<Rightarrow> objects_db \<Rightarrow> bool" where
  "refs_ok env db =
     (\<forall>j r. current db j = Some r \<longrightarrow>
        (0 < r_type r \<longrightarrow> current db (r_type r) \<noteq> None)
        \<and> (\<exists>c. oe_parse env (r_content r) = Inr c \<and> (\<forall>v \<in> set (depends_iter c) \<union> set (contains_iter c). current db v \<noteq> None)))"

lemma object_conflicts_Nil: "object_conflicts i n ty c = [] \<longleftrightarrow> i \<notin> set (uses c)"
  by (auto simp: object_conflicts_def uses_def filter_empty_conv)

lemma conflicts_Nil:
  "conflicts env i rs = Inr [] \<Longrightarrow> r \<in> set rs \<Longrightarrow>
     r_type r \<noteq> i \<and> (\<exists>c. oe_parse env (r_content r) = Inr c \<and> i \<notin> set (uses c))"
proof (induction env i rs rule: conflicts.induct)
  case (2 env i r' rs)
  from "2.prems"(1) obtain c where "oe_parse env (r_content r') = Inr c" "r_type r' \<noteq> i"
    "object_conflicts i (r_name r') (r_type r') c = []" "conflicts env i rs = Inr []"
    by (cases "conflicts env i rs") (auto split: sum.splits if_splits)
  with 2 show ?case by (auto simp: object_conflicts_Nil)
qed simp

lemma current_newest: "current db j = Some r \<Longrightarrow> r \<in> set (filter r_newest (od_rows db)) \<and> r_id r = j"
  by (auto simp: current_def find_Some_iff)

text \<open>C17: a deletion keeps what objects depend on: on a well formed table in which every object that
  a newest object depends on, contains or has as its type exists, a deletion of an object (an id
  that is not negative) that is carried out removes exactly that object, and every object that
  one of the others depends on, contains or has as its type still exists; any other outcome
  changes nothing. An object that others use only through \<open>sudoOn\<close> is not protected.\<close>

theorem delete_object_safe:
  assumes "objects_ok db" and "0 \<le> i" and "refs_ok env db"
  shows "case delete_object env user i db of
      (Inr Deleted, db') \<Rightarrow> objects_ok db' \<and> current db' = (current db)(i := None) \<and> refs_ok env db'
    | (_, db') \<Rightarrow> db' = db"
proof (cases "conflicts env i (sort_key r_id (filter r_newest (od_rows db))) = Inr [] \<and> user \<noteq> None")
  case False
  then show ?thesis by (auto simp: delete_object_def split: sum.splits option.splits)
next
  case True
  then obtain u where c: "conflicts env i (sort_key r_id (filter r_newest (od_rows db))) = Inr []" "user = Some u"
    by blast
  obtain res db' where ch: "change_object (oe_now env) i None u db = (res, db')" by fastforce
  show ?thesis
  proof (cases res)
    case (Inl e)
    then have "db' = db"
      using ch assms(2) by (auto simp: change_object_def next_version_def split: option.splits)
    with Inl c ch show ?thesis by (simp add: delete_object_def)
  next
    case (Inr jv)
    obtain j v where jv: "jv = (j, v)" by fastforce
    note eff = change_object_effect [OF assms(1) ch [unfolded Inr jv]]
    have j: "j = i" using eff assms(2) by simp
    have cur: "current db' = (current db)(i := None)" and ok: "objects_ok db'" using eff j by simp_all
    have "refs_ok env db'"
      unfolding refs_ok_def cur
    proof (intro allI impI)
      fix k r assume "((current db)(i := None)) k = Some r"
      then have r: "current db k = Some r" by (auto split: if_splits)
      note used = conflicts_Nil [OF c(1), of r]
      with current_newest [OF r] obtain c where "oe_parse env (r_content r) = Inr c" "i \<notin> set (uses c)" "r_type r \<noteq> i"
        by auto
      moreover have "(0 < r_type r \<longrightarrow> current db (r_type r) \<noteq> None)
        \<and> (\<exists>c. oe_parse env (r_content r) = Inr c \<and> (\<forall>v \<in> set (depends_iter c) \<union> set (contains_iter c). current db v \<noteq> None))"
        using assms(3) r unfolding refs_ok_def by blast
      ultimately show "(0 < r_type r \<longrightarrow> ((current db)(i := None)) (r_type r) \<noteq> None)
        \<and> (\<exists>c. oe_parse env (r_content r) = Inr c \<and> (\<forall>v \<in> set (depends_iter c) \<union> set (contains_iter c). ((current db)(i := None)) v \<noteq> None))"
        by (auto simp: uses_def)
    qed
    with cur ok c ch Inr jv show ?thesis by (simp add: delete_object_def)
  qed
qed

definition demo_refs :: objects_db where
  "demo_refs = \<lparr>od_rows = [demo_obj 7 0 ''uses9'', demo_obj 9 0 ''x''], od_next = 10\<rparr>"

theorem delete_object_safe_witness:
  "refs_ok demo_objects_env (snd (delete_object demo_objects_env (Some ''a'') 7 demo_refs))
   \<and> current (snd (delete_object demo_objects_env (Some ''a'') 7 demo_refs)) 7 = None"
proof -
  have ok: "objects_ok demo_refs" by (auto simp: objects_ok_def demo_refs_def demo_obj_def)
  have r: "refs_ok demo_objects_env demo_refs"
    by (auto simp: refs_ok_def current_def demo_refs_def demo_obj_def demo_objects_env_def depends_iter_def
        contains_iter_def int_array_def obj_get_def split: if_splits)
  have "fst (delete_object demo_objects_env (Some ''a'') 7 demo_refs) = Inr Deleted" by code_simp
  then obtain db' where "delete_object demo_objects_env (Some ''a'') 7 demo_refs = (Inr Deleted, db')"
    by (cases "delete_object demo_objects_env (Some ''a'') 7 demo_refs") simp
  with delete_object_safe [OF ok _ r, of 7 "Some ''a''"] show ?thesis by simp
qed

text \<open>Further result: what is used through \<open>sudoOn\<close> is not protected: the key read is \<open>sudo_on\<close> while objects
  store \<open>sudoOn\<close>, so an object that only another object's \<open>sudoOn\<close> names is deleted, though the same
  use as a dependency is reported as a conflict.\<close>

theorem sudo_on_not_protected:
  "fst (delete_object demo_objects_env (Some ''a'') 9 (demo_refs\<lparr>od_rows := [demo_obj 7 0 ''sudo9'', demo_obj 9 0 ''x'']\<rparr>))
     = Inr Deleted
   \<and> fst (delete_object demo_objects_env (Some ''a'') 9 demo_refs) = Inr (Conflicts [(''o'', 0, ''depends'')])"
  by code_simp

section \<open>What a client starts from\<close>

lemma row_object_fields:
  "row_object parse r = Inr ob \<Longrightarrow> parse (r_content r) = Inr (io_content ob) \<and> io_id ob = r_id r"
  by (auto simp: row_object_def split: option.splits sum.splits)

lemma add_initial_used:
  "add_initial env ob acc = Inr acc' \<Longrightarrow>
     in_used_by acc' = in_used_by acc @ map (\<lambda>v. (v, io_id ob)) (uses (io_content ob))"
  by (auto simp: add_initial_def res_bind_Inr split: if_splits sum.splits)

lemma initial_rows_used:
  "initial_rows env rs acc = Inr s \<Longrightarrow> set (in_used_by s) = set (in_used_by acc)
     \<union> {(v, r_id r) | r c v. r \<in> set rs \<and> oe_parse env (r_content r) = Inr c \<and> v \<in> set (uses c)}"
proof (induction env rs acc rule: initial_rows.induct)
  case (2 env r rs acc)
  from "2.prems" obtain ob acc' where ob: "row_object (oe_parse env) r = Inr ob"
    and acc': "add_initial env ob acc = Inr acc'" "initial_rows env rs acc' = Inr s"
    by (auto simp: res_bind_Inr split: sum.splits)
  have "set (in_used_by s) = set (in_used_by acc')
     \<union> {(v, r_id r) | r c v. r \<in> set rs \<and> oe_parse env (r_content r) = Inr c \<and> v \<in> set (uses c)}"
    by (rule "2.IH" [OF ob acc'(2)])
  then show ?case
    using row_object_fields [OF ob] add_initial_used [OF acc'(1)] by auto
qed simp

lemma initial_rows_parse:
  "initial_rows env rs acc = Inr s \<Longrightarrow> r \<in> set rs \<Longrightarrow> \<exists>c. oe_parse env (r_content r) = Inr c"
proof (induction env rs acc rule: initial_rows.induct)
  case (2 env r' rs acc)
  then show ?case by (auto simp: res_bind_Inr dest: row_object_fields split: sum.splits)
qed simp

lemma conflicts_Inr:
  "\<forall>r \<in> set rs. \<exists>c. oe_parse env (r_content r) = Inr c \<Longrightarrow> \<exists>cs. conflicts env i rs = Inr cs
     \<and> (cs = [] \<longleftrightarrow> (\<forall>r \<in> set rs. r_type r \<noteq> i
          \<and> (\<forall>c. oe_parse env (r_content r) = Inr c \<longrightarrow> i \<notin> set (uses c))))"
proof (induction rs)
  case (Cons r rs)
  then obtain c cs where "oe_parse env (r_content r) = Inr c" "conflicts env i rs = Inr cs"
    "cs = [] \<longleftrightarrow> (\<forall>r \<in> set rs. r_type r \<noteq> i \<and> (\<forall>c. oe_parse env (r_content r) = Inr c \<longrightarrow> i \<notin> set (uses c)))"
    by auto
  then show ?case by (auto simp: object_conflicts_Nil)
qed simp

text \<open>C19: what a browser is told about uses is what the server checks: the pairs in \<open>used_by\<close> of the
  initial state are exactly the uses of newest objects by newest objects, and a deletion is
  refused as conflicting exactly when such a pair names the object or a newest object has it as
  its type.\<close>

theorem used_by_exact:
  assumes "initial_state env db = Inr s"
  shows "set (in_used_by s) = {(v, r_id r) | r c v. r \<in> set (filter r_newest (od_rows db))
          \<and> oe_parse env (r_content r) = Inr c \<and> v \<in> set (uses c)}
    \<and> ((\<exists>cs. delete_object env user i db = (Inr (Conflicts cs), db))
        \<longleftrightarrow> i \<in> fst ` set (in_used_by s) \<union> r_type ` set (filter r_newest (od_rows db)))"
proof -
  let ?rs = "sort_key r_id (filter r_newest (od_rows db))"
  have s: "initial_rows env ?rs \<lparr>in_types = [], in_used_by = [], in_names = []\<rparr> = Inr s"
    using assms by (simp add: initial_state_def)
  have used: "set (in_used_by s) = {(v, r_id r) | r c v. r \<in> set (filter r_newest (od_rows db))
          \<and> oe_parse env (r_content r) = Inr c \<and> v \<in> set (uses c)}"
    using initial_rows_used [OF s] by simp
  obtain cs where cs: "conflicts env i ?rs = Inr cs" "cs = [] \<longleftrightarrow> (\<forall>r \<in> set ?rs. r_type r \<noteq> i
          \<and> (\<forall>c. oe_parse env (r_content r) = Inr c \<longrightarrow> i \<notin> set (uses c)))"
    using conflicts_Inr [of ?rs env i] initial_rows_parse [OF s] by blast
  have "(\<exists>cs. delete_object env user i db = (Inr (Conflicts cs), db)) \<longleftrightarrow> cs \<noteq> []"
    using cs(1) by (auto simp: delete_object_def split: option.splits prod.splits sum.splits)
  moreover have "i \<in> fst ` set (in_used_by s) \<union> r_type ` set (filter r_newest (od_rows db)) \<longleftrightarrow> cs \<noteq> []"
    unfolding used cs(2) by (auto simp: image_iff)
  ultimately show ?thesis using used by simp
qed

theorem used_by_exact_witness:
  "\<exists>s. initial_state demo_objects_env (demo_refs\<lparr>od_rows := [demo_obj 7 3 ''uses9'', demo_obj 9 3 ''x'']\<rparr>) = Inr s
     \<and> (9, 7) \<in> set (in_used_by s)"
proof -
  let ?db = "demo_refs\<lparr>od_rows := [demo_obj 7 3 ''uses9'', demo_obj 9 3 ''x'']\<rparr>"
  obtain s where s: "initial_state demo_objects_env ?db = Inr s"
  proof (cases "initial_state demo_objects_env ?db")
    case (Inl e)
    moreover have "isl (initial_state demo_objects_env ?db) = False" by code_simp
    ultimately show ?thesis by simp
  qed
  have "delete_object demo_objects_env None 9 ?db = (Inr (Conflicts [(''o'', 3, ''depends'')]), ?db)"
    by (simp add: delete_object_def object_conflicts_def demo_refs_def demo_obj_def demo_objects_env_def sudo_on_iter_def
        depends_iter_def contains_iter_def int_array_def obj_get_def)
  then have "9 \<in> fst ` set (in_used_by s) \<union> r_type ` set (filter r_newest (od_rows ?db))"
    using used_by_exact [OF s, of None 9] by blast
  then obtain x where "x \<in> set (in_used_by s)" "fst x = 9" by (auto simp: demo_refs_def demo_obj_def)
  moreover have "x \<in> set (in_used_by s) \<Longrightarrow> snd x = 7 \<or> fst x \<noteq> 9" for x
    using conjunct1 [OF used_by_exact [OF s, of None 9]]
    by (auto simp: demo_refs_def demo_obj_def demo_objects_env_def uses_def sudo_on_iter_def
        depends_iter_def contains_iter_def int_array_def obj_get_def split: if_splits)
  ultimately have "(9, 7) \<in> set (in_used_by s)" by (metis prod.collapse)
  with s show ?thesis by blast
qed

end
