(* ===== verification/Web_Requests.thy ===== *)
theory Web_Requests
  imports Object_Requests Setup Perform_Deploy Messages Docker_Images Modified_Files
begin

text \<open>
  The requests of a browser client (\<open>handle_message\<close> in \<open>src/bin/server/webclient.rs\<close>): which right
  each one needs, which are refused when the server is read only, and what each does to the state
  of the server, by the models of the components. A request is handled as one step here; the
  steps of long ones that interleave are in the theories of the components. What is passed on to
  a host is recorded as such.
\<close>

section \<open>Requests\<close>

record generate_key =
  gk_ref :: int
  gk_ssh_public_key :: "string option"

datatype resolve_action = Redeploy | UpdateCurrent

datatype host_request =
    ServiceDeployStart | ServiceRedeployStart | DockerListDeployments | DockerListDeploymentHistory
  | Debug | RunCommand | RunCommandTerminate | SocketConnect | SocketClose | SocketSend
  | CommandSpawn | CommandSignal | CommandStdin

datatype request =
    RequestInitialState
  | RequestAuthStatus "string option"
  | Login login
  | Logout bool bool
  | FetchObject int
  | GetObjectId int string
  | GetObjectHistory int int
  | MessageTextReq int
  | SetMessageDismissed "int list" bool
  | ResetServerState int
  | Search int string
  | GenerateKey generate_key
  | SaveObject int "value_map iobject option"
  | DeleteObject int
  | DockerListImageByHash int "string list"
  | DockerListImageTags int
  | DockerImageSetPin int bool
  | DockerImageTagSetPin string string bool
  | DockerListImageTagHistory int string string
  | DockerContainerForget int string
  | ModifiedFilesScan
  | ModifiedFilesList
  | ModifiedFilesResolve int resolve_action "string option"
  | DeployObject "int option" bool bool
  | CancelDeployment
  | StartDeployment
  | MarkDeployed
  | StopDeployment
  | ToggleDeploymentObject "nat option" bool
  | GetSecret string "string option"
  | ToHost host_request

section \<open>The server\<close>

record docker_image_tag =
  dt_id :: int
  dt_image :: string
  dt_tag :: string
  dt_hash :: string
  dt_time :: rat
  dt_user :: string
  dt_pin :: bool
  dt_labels :: "string \<rightharpoonup> string"
  dt_removed :: "rat option"

record generate_key_res =
  gr_ref :: int
  gr_crt :: string
  gr_ssh_crt :: "string option"
  gr_ssh_host_ca :: "string option"

datatype place = P_Object int int int | P_Dashbord

datatype reply =
    SetInitialState "imessage list" "int list" initial_objects view
  | ObjectChanged int "value_map iobject list"
  | GetObjectIdRes int "int option"
  | GetObjectHistoryRes int int "(int \<times> int \<times> string option) list"
  | MessageTextRep int string
  | SetMessagesDismissed "int list" bool
  | SearchRes int "search_object list"
  | GenerateKeyRes generate_key_res
  | SetPage place
  | CannotDelete "(string \<times> int \<times> string) list"
  | DockerListImageByHashRes int "string \<rightharpoonup> docker_image_tag"
  | DockerListImageTagsRes int "docker_image_tag list" "(string \<times> string) list"
  | DockerListImageTagsChanged "docker_image_tag list"
  | ImageTagPinChanged string string bool
  | DockerListImageTagHistoryRes int "docker_image_tag list"
  | ContainerRemoved int string
  | FilesChanged files_changed
  | DeployAlert string deploy_error
  | GetSecretRes string "string option" "string option"

datatype passed_on = ProvisionNfs int | HostRequest host_request

record server =
  sv_read_only :: bool
  sv_auth :: auth_state
  sv_objects :: objects_db
  sv_messages :: msg_state
  sv_docker :: docker_db
  sv_containers :: "(int \<times> string) list"
  sv_files :: modified_files
  sv_world :: world
  sv_deployed :: table
  sv_sent :: "reply list"
  sv_broadcasts :: "reply list"
  sv_passed_on :: "passed_on list"

text \<open>What is outside, at the time of the request.\<close>

record web_env =
  we_auth :: auth_env
  we_remote :: string
  we_fresh :: string
  we_objects :: object_env
  we_now :: rat
  we_hosts_up :: "int list"
  we_crt :: "string \<Rightarrow> int \<Rightarrow> string option"
  we_ssh_crt :: "string \<Rightarrow> string \<Rightarrow> string \<Rightarrow> string option"
  we_scan :: scan_world
  we_revert :: "modified_file \<Rightarrow> job_message option option"
  we_parser :: parser
  we_texts :: messages
  we_types :: "string + (int \<rightharpoonup> itype)"
  we_deploy :: deploy_env
  we_token :: run_token

datatype web_error =
    ObjectError request_error | AuthError auth_error | ResentPanic | EmitPanic | ScanError scan_error
  | ResolveError resolve_error | PinExists

text \<open>\<open>Looping\<close> is a request that never ends.\<close>

datatype outcome = Closed nat | Failed web_error | Handled | Looping

definition reply :: "reply \<Rightarrow> server \<Rightarrow> server" where
  "reply r s = s\<lparr>sv_sent := sv_sent s @ [r]\<rparr>"

definition broadcast :: "reply \<Rightarrow> server \<Rightarrow> server" where
  "broadcast r s = s\<lparr>sv_broadcasts := sv_broadcasts s @ [r]\<rparr>"

definition pass_on :: "passed_on \<Rightarrow> server \<Rightarrow> server" where
  "pass_on r s = s\<lparr>sv_passed_on := sv_passed_on s @ [r]\<rparr>"

abbreviation client :: "server \<Rightarrow> auth_status" where
  "client s \<equiv> au_client (sv_auth s)"

section \<open>Guards\<close>

datatype right = R_Auth | R_Admin | R_Pull | R_Push

fun granted :: "right \<Rightarrow> auth_status \<Rightarrow> bool" where
  "granted R_Auth a = as_auth a"
| "granted R_Admin a = as_admin a"
| "granted R_Pull a = as_docker_pull a"
| "granted R_Push a = as_docker_push a"

text \<open>The checks a request starts with: reading, and writing.\<close>

definition reading :: "right \<Rightarrow> (server \<Rightarrow> outcome \<times> server) \<Rightarrow> server \<Rightarrow> outcome \<times> server" where
  "reading r f s = (if granted r (client s) then f s else (Closed 403, s))"

definition writing :: "right \<Rightarrow> (server \<Rightarrow> outcome \<times> server) \<Rightarrow> server \<Rightarrow> outcome \<times> server" where
  "writing r f = reading r (\<lambda>s. if sv_read_only s then (Closed 503, s) else f s)"

section \<open>Objects\<close>

definition request_initial_state :: "web_env \<Rightarrow> server \<Rightarrow> outcome \<times> server" where
  "request_initial_state env = reading R_Auth (\<lambda>s.
     case get_resent (we_now env) (mg_rows (sv_messages s)) of
       None \<Rightarrow> (Failed ResentPanic, s)
     | Some messages \<Rightarrow>
         (case initial_state (we_objects env) (sv_objects s) of
            Inl e \<Rightarrow> (Failed (ObjectError e), s)
          | Inr i \<Rightarrow>
              (Handled, reply (SetInitialState messages (we_hosts_up env) i (view_of (w_dep (sv_world s)))) s)))"

definition req_fetch_object :: "web_env \<Rightarrow> int \<Rightarrow> server \<Rightarrow> outcome \<times> server" where
  "req_fetch_object env i = reading R_Admin (\<lambda>s.
     case fetch_object (we_objects env) i (sv_objects s) of
       Inl e \<Rightarrow> (Failed (ObjectError e), s)
     | Inr obs \<Rightarrow> (Handled, reply (ObjectChanged i obs) s))"

definition req_get_object_id :: "int \<Rightarrow> string \<Rightarrow> server \<Rightarrow> outcome \<times> server" where
  "req_get_object_id ref path = reading R_Admin (\<lambda>s.
     (Handled, reply (GetObjectIdRes ref (get_object_id path (sv_objects s))) s))"

definition req_get_object_history :: "int \<Rightarrow> int \<Rightarrow> server \<Rightarrow> outcome \<times> server" where
  "req_get_object_history ref i = reading R_Admin (\<lambda>s.
     (Handled, reply (GetObjectHistoryRes ref i (get_object_history i (sv_objects s))) s))"

definition req_search :: "web_env \<Rightarrow> int \<Rightarrow> string \<Rightarrow> server \<Rightarrow> outcome \<times> server" where
  "req_search env ref pattern = reading R_Admin (\<lambda>s.
     case search_objects (we_objects env) pattern (sv_objects s) of
       Inl e \<Rightarrow> (Failed (ObjectError e), s)
     | Inr obs \<Rightarrow> (Handled, reply (SearchRes ref obs) s))"

text \<open>The certificate for a host that was saved is renewed when it is up.\<close>

definition req_save_object :: "web_env \<Rightarrow> int \<Rightarrow> value_map iobject option \<Rightarrow> server \<Rightarrow> outcome \<times> server" where
  "req_save_object env i object = writing R_Admin (\<lambda>s.
     case save_object (we_objects env) (as_user (client s)) i object (sv_objects s) of
       (Inl e, db) \<Rightarrow> (Failed (ObjectError e), s\<lparr>sv_objects := db\<rparr>)
     | (Inr (j, ob), db) \<Rightarrow>
         (let s1 = broadcast (ObjectChanged j [ob]) (s\<lparr>sv_objects := db\<rparr>);
              ty = object_type_to_i64 (io_type ob);
              s2 = (if ty = HOST_ID \<and> j \<in> set (we_hosts_up env) then pass_on (ProvisionNfs j) s1 else s1)
          in (Handled, reply (SetPage (P_Object ty j (io_version ob))) s2)))"

definition req_delete_object :: "web_env \<Rightarrow> int \<Rightarrow> server \<Rightarrow> outcome \<times> server" where
  "req_delete_object env i = writing R_Admin (\<lambda>s.
     case delete_object (we_objects env) (as_user (client s)) i (sv_objects s) of
       (Inl e, db) \<Rightarrow> (Failed (ObjectError e), s\<lparr>sv_objects := db\<rparr>)
     | (Inr (Conflicts cs), db) \<Rightarrow> (Handled, reply (CannotDelete cs) (s\<lparr>sv_objects := db\<rparr>))
     | (Inr Deleted, db) \<Rightarrow>
         (Handled, reply (SetPage P_Dashbord) (broadcast (ObjectChanged i []) (s\<lparr>sv_objects := db\<rparr>))))"

definition req_get_secret :: "web_env \<Rightarrow> string \<Rightarrow> string option \<Rightarrow> server \<Rightarrow> outcome \<times> server" where
  "req_get_secret env name host = reading R_Admin (\<lambda>s.
     case get_secret (we_objects env) name host (sv_objects s) of
       None \<Rightarrow> (Looping, s)
     | Some (Inl e) \<Rightarrow> (Failed (ObjectError e), s)
     | Some (Inr v) \<Rightarrow> (Handled, reply (GetSecretRes name host v) s))"

section \<open>Keys\<close>

text \<open>The names in the certificate a user may ask for: \<open>name.uid.caps\<close>, the capabilities separated
  by \<open>~\<close>. \<open>None\<close> is a name without a dot.\<close>

definition ssh_caps :: "string \<Rightarrow> bool option" where
  "ssh_caps sslname =
     (case split_once ''.'' sslname of
        None \<Rightarrow> None
      | Some (_, rem) \<Rightarrow>
          (let caps = (case split_once ''.'' rem of Some (_, c) \<Rightarrow> c | None \<Rightarrow> '''')
           in Some (list_ex (\<lambda>v. v = ''ssh'') (split_char (CHR ''~'') caps))))"

text \<open>\<open>None\<close> where generating the key or a certificate fails.\<close>

definition generate_key_inner ::
  "web_env \<Rightarrow> int \<Rightarrow> string option \<Rightarrow> string \<Rightarrow> generate_key \<Rightarrow> objects_db \<Rightarrow> generate_key_res option" where
  "generate_key_inner env auth_days auth_user sslname act db =
     (case ssh_caps sslname of
        None \<Rightarrow> None
      | Some caps \<Rightarrow>
          (case we_crt env (sslname @ ''.user'') auth_days of
             None \<Rightarrow> None
           | Some crt \<Rightarrow>
               (let res = \<lparr>gr_ref = gk_ref act, gr_crt = crt, gr_ssh_crt = None, gr_ssh_host_ca = None\<rparr>
                in case (gk_ssh_public_key act, caps) of
                     (Some key, True) \<Rightarrow>
                       (case get_root_variables (oe_parse (we_objects env)) db of
                          Inl e \<Rightarrow> None
                        | Inr vars \<Rightarrow>
                            (case (vars ''sshHostCaPub'', vars ''sshHostCaKey'', auth_user) of
                               (Some ca_pub, Some ca_key, Some user) \<Rightarrow>
                                 map_option (\<lambda>c. res\<lparr>gr_ssh_crt := Some c, gr_ssh_host_ca := Some ca_pub\<rparr>)
                                   (we_ssh_crt env user ca_key key)
                             | _ \<Rightarrow> Some res))
                   | _ \<Rightarrow> Some res)))"

definition req_generate_key :: "web_env \<Rightarrow> generate_key \<Rightarrow> server \<Rightarrow> outcome \<times> server" where
  "req_generate_key env act s =
     (case as_sslname (client s) of
        None \<Rightarrow> (Closed 403, s)
      | Some sslname \<Rightarrow>
          (case generate_key_inner env (opt_or (as_auth_days (client s)) 1) (as_user (client s)) sslname act
                  (sv_objects s) of
             None \<Rightarrow> (Closed 500, s)
           | Some res \<Rightarrow> (Handled, reply (GenerateKeyRes res) s)))"

section \<open>Messages\<close>

definition req_message_text :: "int \<Rightarrow> server \<Rightarrow> outcome \<times> server" where
  "req_message_text i = reading R_Admin (\<lambda>s.
     (Handled, reply (MessageTextRep i (opt_or (get_full_text i (mg_rows (sv_messages s))) ''missing'')) s))"

text \<open>The one writing request that looks only at the right.\<close>

definition req_set_message_dismissed :: "web_env \<Rightarrow> int list \<Rightarrow> bool \<Rightarrow> server \<Rightarrow> outcome \<times> server" where
  "req_set_message_dismissed env ids dismissed = reading R_Admin (\<lambda>s.
     let m = sv_messages s
     in (Handled, broadcast (SetMessagesDismissed ids dismissed)
           (s\<lparr>sv_messages := m\<lparr>mg_rows := set_dismissed ids dismissed (we_now env) (mg_rows m)\<rparr>\<rparr>)))"

section \<open>Images\<close>

definition image_tag :: "docker_image \<Rightarrow> docker_image_tag" where
  "image_tag r = \<lparr>dt_id = di_id r, dt_image = di_project r, dt_tag = di_tag r, dt_hash = di_hash r,
     dt_time = di_time r, dt_user = di_user r, dt_pin = di_pin r, dt_labels = di_labels r,
     dt_removed = di_removed r\<rparr>"

definition images_by_hash :: "string list \<Rightarrow> docker_db \<Rightarrow> string \<rightharpoonup> docker_image_tag" where
  "images_by_hash hashes db =
     fold (\<lambda>r tags. tags(di_hash r \<mapsto> image_tag r))
       (filter (\<lambda>r. di_hash r \<in> set hashes) (dk_images db)) Map.empty"

text \<open>The last image of each tag, unless it was removed for two weeks or its tag is temporary.
  \<open>LIKE\<close> ignores the case of letters.\<close>

definition last_of_tag :: "docker_image list \<Rightarrow> docker_image \<Rightarrow> bool" where
  "last_of_tag images r =
     list_all (\<lambda>q. di_project q = di_project r \<and> di_tag q = di_tag r \<longrightarrow> di_id q \<le> di_id r) images"

definition list_image_tags :: "rat \<Rightarrow> docker_db \<Rightarrow> docker_image_tag list" where
  "list_image_tags now db =
     map image_tag (filter (\<lambda>r. last_of_tag (dk_images db) r
         \<and> (case di_removed r of None \<Rightarrow> True | Some t \<Rightarrow> t > now - 14 * 24 * 60 * 60)
         \<and> \<not> starts_with ''tmp_ci_'' (to_ascii_lowercase (di_tag r))) (dk_images db))"

definition req_list_image_by_hash :: "int \<Rightarrow> string list \<Rightarrow> server \<Rightarrow> outcome \<times> server" where
  "req_list_image_by_hash ref hashes = reading R_Pull (\<lambda>s.
     (Handled, reply (DockerListImageByHashRes ref (images_by_hash hashes (sv_docker s))) s))"

definition req_list_image_tags :: "web_env \<Rightarrow> int \<Rightarrow> server \<Rightarrow> outcome \<times> server" where
  "req_list_image_tags env ref = reading R_Pull (\<lambda>s.
     (Handled, reply (DockerListImageTagsRes ref (list_image_tags (we_now env) (sv_docker s))
                        (dk_tag_pins (sv_docker s))) s))"

definition set_pin :: "int \<Rightarrow> bool \<Rightarrow> docker_db \<Rightarrow> docker_db" where
  "set_pin i pin db =
     db\<lparr>dk_images := map (\<lambda>r. if di_id r = i then r\<lparr>di_pin := pin\<rparr> else r) (dk_images db)\<rparr>"

definition req_image_set_pin :: "int \<Rightarrow> bool \<Rightarrow> server \<Rightarrow> outcome \<times> server" where
  "req_image_set_pin i pin = writing R_Push (\<lambda>s.
     let db = set_pin i pin (sv_docker s)
     in (Handled, broadcast (DockerListImageTagsChanged
           (map image_tag (filter (\<lambda>r. di_id r = i) (dk_images db)))) (s\<lparr>sv_docker := db\<rparr>)))"

text \<open>Pinning a tag that is pinned violates the unique index.\<close>

definition req_image_tag_set_pin :: "string \<Rightarrow> string \<Rightarrow> bool \<Rightarrow> server \<Rightarrow> outcome \<times> server" where
  "req_image_tag_set_pin img tag pin = writing R_Push (\<lambda>s.
     let db = sv_docker s
     in if pin \<and> (img, tag) \<in> set (dk_tag_pins db) then (Failed PinExists, s)
        else (Handled, broadcast (ImageTagPinChanged img tag pin)
               (s\<lparr>sv_docker := db\<lparr>dk_tag_pins :=
                  (if pin then dk_tag_pins db @ [(img, tag)]
                   else filter (\<lambda>p. p \<noteq> (img, tag)) (dk_tag_pins db))\<rparr>\<rparr>)))"

definition req_list_image_tag_history :: "int \<Rightarrow> string \<Rightarrow> string \<Rightarrow> server \<Rightarrow> outcome \<times> server" where
  "req_list_image_tag_history ref img tag = reading R_Push (\<lambda>s.
     (Handled, reply (DockerListImageTagHistoryRes ref (map image_tag
        (filter (\<lambda>r. di_tag r = tag \<and> di_project r = img) (dk_images (sv_docker s))))) s))"

definition req_container_forget :: "int \<Rightarrow> string \<Rightarrow> server \<Rightarrow> outcome \<times> server" where
  "req_container_forget host container = writing R_Push (\<lambda>s.
     (Handled, broadcast (ContainerRemoved host container)
        (s\<lparr>sv_containers := filter (\<lambda>c. c \<noteq> (host, container)) (sv_containers s)\<rparr>)))"

section \<open>Modified files\<close>

text \<open>The messages a scan stores.\<close>

definition emit_messages :: "rat \<Rightarrow> (int \<times> string) list \<Rightarrow> msg_state \<Rightarrow> msg_state" where
  "emit_messages now ms st = fold (\<lambda>(h, m) st. snd (emit now h ''Modified file'' m st)) ms st"

definition req_scan :: "web_env \<Rightarrow> server \<Rightarrow> outcome \<times> server" where
  "req_scan env = writing R_Admin (\<lambda>s.
     let r = scan (we_scan env) (we_now env) (sv_files s);
         s1 = s\<lparr>sv_files := sr_files r, sv_messages := emit_messages (we_now env) (sr_emitted r) (sv_messages s),
                sv_broadcasts := sv_broadcasts s @ map FilesChanged (sr_broadcasts r)\<rparr>
     in (case sr_result r of Inl e \<Rightarrow> Failed (ScanError e) | Inr _ \<Rightarrow> Handled, s1))"

definition req_list_files :: "server \<Rightarrow> outcome \<times> server" where
  "req_list_files = reading R_Admin (\<lambda>s. (Handled, reply (FilesChanged (list_files (sv_files s))) s))"

definition req_resolve :: "web_env \<Rightarrow> int \<Rightarrow> resolve_action \<Rightarrow> string option \<Rightarrow> server \<Rightarrow> outcome \<times> server" where
  "req_resolve env i action new_current = writing R_Admin (\<lambda>s.
     case action of
       Redeploy \<Rightarrow>
         (case resolve_redeploy (\<lambda>h. h \<in> set (we_hosts_up env)) (we_revert env) i (sv_files s) of
            (Inl e, m) \<Rightarrow> (Failed (ResolveError e), s\<lparr>sv_files := m\<rparr>)
          | (Inr b, m) \<Rightarrow> (Handled, broadcast (FilesChanged b) (s\<lparr>sv_files := m\<rparr>)))
     | UpdateCurrent \<Rightarrow>
         (case resolve_update (oe_parse (we_objects env)) (oe_write (we_objects env)) (oe_now (we_objects env))
                (as_user (client s)) i new_current (sv_files s) (sv_objects s) of
            (Inl e, db) \<Rightarrow> (Failed (ResolveError e), s\<lparr>sv_objects := db\<rparr>)
          | (Inr ob, db) \<Rightarrow> (Handled, broadcast (ObjectChanged (io_id ob) [ob]) (s\<lparr>sv_objects := db\<rparr>))))"

section \<open>Deployments\<close>

definition newest_rows :: "objects_db \<Rightarrow> object_row list" where
  "newest_rows db =
     map (\<lambda>r. \<lparr>or_id = r_id r, or_type = r_type r, or_name = r_name r, or_content = r_content r\<rparr>)
       (sort_key r_id (filter r_newest (od_rows db)))"

definition req_deploy_object :: "web_env \<Rightarrow> int option \<Rightarrow> bool \<Rightarrow> bool \<Rightarrow> server \<Rightarrow> outcome \<times> server" where
  "req_deploy_object env i redeploy cancel_review = writing R_Admin (\<lambda>s.
     case setup_deployment (we_parser env) (we_texts env) (Inr (newest_rows (sv_objects s)))
            \<lparr>sa_deploy_id = i, sa_redeploy = redeploy, sa_rows = (\<lambda>h. select_host h (sv_deployed s))\<rparr>
            cancel_review (sv_world s) of
       None \<Rightarrow> (Looping, s)
     | Some w \<Rightarrow> (Handled, s\<lparr>sv_world := w\<rparr>))"

definition req_cancel :: "server \<Rightarrow> outcome \<times> server" where
  "req_cancel = writing R_Admin (\<lambda>s. (Handled, s\<lparr>sv_world := cancel (sv_world s)\<rparr>))"

definition req_perform :: "web_env \<Rightarrow> string \<Rightarrow> bool \<Rightarrow> server \<Rightarrow> outcome \<times> server" where
  "req_perform env place mark_only = writing R_Admin (\<lambda>s.
     case perform_deploy ((we_deploy env)\<lparr>de_mark_only := mark_only\<rparr>) (we_types env) (we_token env)
            (sv_world s, sv_deployed s) of
       (e, w, t) \<Rightarrow>
         (let s1 = s\<lparr>sv_world := w, sv_deployed := t\<rparr>
          in (Handled, case e of None \<Rightarrow> s1 | Some e \<Rightarrow> reply (DeployAlert place e) s1)))"

definition req_stop :: "server \<Rightarrow> outcome \<times> server" where
  "req_stop = writing R_Admin (\<lambda>s. (Handled, s\<lparr>sv_world := stop (sv_world s)\<rparr>))"

definition req_toggle :: "nat option \<Rightarrow> bool \<Rightarrow> server \<Rightarrow> outcome \<times> server" where
  "req_toggle i enabled = writing R_Admin (\<lambda>s. (Handled, s\<lparr>sv_world := toggle_object i enabled (sv_world s)\<rparr>))"

definition req_reset_server_state :: "int \<Rightarrow> server \<Rightarrow> outcome \<times> server" where
  "req_reset_server_state host = writing R_Admin (\<lambda>s.
     (Handled, s\<lparr>sv_deployed := filter (\<lambda>((h, _), _). h \<noteq> host) (sv_deployed s)\<rparr>))"

section \<open>Dispatch\<close>

definition req_auth_status :: "web_env \<Rightarrow> string option \<Rightarrow> server \<Rightarrow> outcome \<times> server" where
  "req_auth_status env sid s =
     (case handle_request_auth_status (we_auth env) (sv_objects s) (we_remote env) sid (sv_auth s) of
        (Inl e, a) \<Rightarrow> (Failed (AuthError e), s\<lparr>sv_auth := a\<rparr>)
      | (Inr _, a) \<Rightarrow> (Handled, s\<lparr>sv_auth := a\<rparr>))"

definition req_login :: "web_env \<Rightarrow> login \<Rightarrow> server \<Rightarrow> outcome \<times> server" where
  "req_login env act s =
     (Handled, s\<lparr>sv_auth := handle_login (we_auth env) (sv_objects s) (we_remote env) (we_fresh env) act (sv_auth s)\<rparr>)"

definition req_logout :: "web_env \<Rightarrow> bool \<Rightarrow> bool \<Rightarrow> server \<Rightarrow> outcome \<times> server" where
  "req_logout env forget_pwd forget_otp s =
     (case handle_logout (we_auth env) (sv_objects s) (we_remote env) forget_pwd forget_otp (sv_auth s) of
        (Inl e, a) \<Rightarrow> (Failed (AuthError e), s\<lparr>sv_auth := a\<rparr>)
      | (Inr let_in, a) \<Rightarrow> (if let_in then Handled else Closed 403, s\<lparr>sv_auth := a\<rparr>))"

text \<open>What is passed on: the requests to list the services only read.\<close>

fun host_guard :: "host_request \<Rightarrow> (server \<Rightarrow> outcome \<times> server) \<Rightarrow> server \<Rightarrow> outcome \<times> server" where
  "host_guard ServiceDeployStart = writing R_Push"
| "host_guard ServiceRedeployStart = writing R_Push"
| "host_guard DockerListDeployments = reading R_Push"
| "host_guard DockerListDeploymentHistory = reading R_Push"
| "host_guard _ = writing R_Admin"

definition req_host :: "host_request \<Rightarrow> server \<Rightarrow> outcome \<times> server" where
  "req_host r = host_guard r (\<lambda>s. (Handled, pass_on (HostRequest r) s))"

fun handle_message :: "web_env \<Rightarrow> request \<Rightarrow> server \<Rightarrow> outcome \<times> server" where
  "handle_message env RequestInitialState = request_initial_state env"
| "handle_message env (RequestAuthStatus sid) = req_auth_status env sid"
| "handle_message env (Login act) = req_login env act"
| "handle_message env (Logout forget_pwd forget_otp) = req_logout env forget_pwd forget_otp"
| "handle_message env (FetchObject i) = req_fetch_object env i"
| "handle_message env (GetObjectId ref path) = req_get_object_id ref path"
| "handle_message env (GetObjectHistory ref i) = req_get_object_history ref i"
| "handle_message env (MessageTextReq i) = req_message_text i"
| "handle_message env (SetMessageDismissed ids dismissed) = req_set_message_dismissed env ids dismissed"
| "handle_message env (ResetServerState host) = req_reset_server_state host"
| "handle_message env (Search ref pattern) = req_search env ref pattern"
| "handle_message env (GenerateKey act) = req_generate_key env act"
| "handle_message env (SaveObject i object) = req_save_object env i object"
| "handle_message env (DeleteObject i) = req_delete_object env i"
| "handle_message env (DockerListImageByHash ref hashes) = req_list_image_by_hash ref hashes"
| "handle_message env (DockerListImageTags ref) = req_list_image_tags env ref"
| "handle_message env (DockerImageSetPin i pin) = req_image_set_pin i pin"
| "handle_message env (DockerImageTagSetPin img tag pin) = req_image_tag_set_pin img tag pin"
| "handle_message env (DockerListImageTagHistory ref img tag) = req_list_image_tag_history ref img tag"
| "handle_message env (DockerContainerForget host container) = req_container_forget host container"
| "handle_message env ModifiedFilesScan = req_scan env"
| "handle_message env ModifiedFilesList = req_list_files"
| "handle_message env (ModifiedFilesResolve i action new_current) = req_resolve env i action new_current"
| "handle_message env (DeployObject i redeploy cancel_review) = req_deploy_object env i redeploy cancel_review"
| "handle_message env CancelDeployment = req_cancel"
| "handle_message env StartDeployment = req_perform env ''Deployment::start'' False"
| "handle_message env MarkDeployed = req_perform env ''Deployment::mark_deployed'' True"
| "handle_message env StopDeployment = req_stop"
| "handle_message env (ToggleDeploymentObject i enabled) = req_toggle i enabled"
| "handle_message env (GetSecret name host) = req_get_secret env name host"
| "handle_message env (ToHost r) = req_host r"

section \<open>Rights\<close>

text \<open>The policy, stated apart from the handlers: which clients are refused, which requests write
  what the server stores, and which of those are refused on a server that is read only: all but
  the one that dismisses messages.\<close>

fun denied :: "request \<Rightarrow> auth_status \<Rightarrow> bool" where
  "denied RequestInitialState a = (\<not> as_auth a)"
| "denied (RequestAuthStatus _) a = False"
| "denied (Login _) a = False"
| "denied (Logout _ _) a = (\<not> as_auth a)"
| "denied (GenerateKey _) a = (as_sslname a = None)"
| "denied (DockerListImageByHash _ _) a = (\<not> as_docker_pull a)"
| "denied (DockerListImageTags _) a = (\<not> as_docker_pull a)"
| "denied (DockerImageSetPin _ _) a = (\<not> as_docker_push a)"
| "denied (DockerImageTagSetPin _ _ _) a = (\<not> as_docker_push a)"
| "denied (DockerListImageTagHistory _ _ _) a = (\<not> as_docker_push a)"
| "denied (DockerContainerForget _ _) a = (\<not> as_docker_push a)"
| "denied (ToHost h) a =
     (if h \<in> {ServiceDeployStart, ServiceRedeployStart, DockerListDeployments, DockerListDeploymentHistory}
      then \<not> as_docker_push a else \<not> as_admin a)"
| "denied _ a = (\<not> as_admin a)"

fun writes :: "request \<Rightarrow> bool" where
  "writes (ResetServerState _) = True"
| "writes (SetMessageDismissed _ _) = True"
| "writes (SaveObject _ _) = True"
| "writes (DeleteObject _) = True"
| "writes (DockerImageSetPin _ _) = True"
| "writes (DockerImageTagSetPin _ _ _) = True"
| "writes (DockerContainerForget _ _) = True"
| "writes ModifiedFilesScan = True"
| "writes (ModifiedFilesResolve _ _ _) = True"
| "writes (DeployObject _ _ _) = True"
| "writes CancelDeployment = True"
| "writes StartDeployment = True"
| "writes MarkDeployed = True"
| "writes StopDeployment = True"
| "writes (ToggleDeploymentObject _ _) = True"
| "writes (ToHost h) = (h \<notin> {DockerListDeployments, DockerListDeploymentHistory})"
| "writes _ = False"

definition dismisses :: "request \<Rightarrow> bool" where
  "dismisses r = (case r of SetMessageDismissed _ _ \<Rightarrow> True | _ \<Rightarrow> False)"

lemmas req_defs =
  request_initial_state_def req_fetch_object_def req_get_object_id_def req_get_object_history_def
  req_search_def req_save_object_def req_delete_object_def req_get_secret_def req_generate_key_def
  req_message_text_def req_set_message_dismissed_def req_list_image_by_hash_def req_list_image_tags_def
  req_image_set_pin_def req_image_tag_set_pin_def req_list_image_tag_history_def req_container_forget_def
  req_scan_def req_list_files_def req_resolve_def req_deploy_object_def req_cancel_def req_perform_def
  req_stop_def req_toggle_def req_reset_server_state_def req_host_def

lemmas guard_defs = reading_def writing_def

lemma denied_refused: "denied r (client s) \<Longrightarrow> handle_message env r s = (Closed 403, s)"
proof (cases r)
  case (ToHost h)
  then show "denied r (client s) \<Longrightarrow> ?thesis"
    by (cases h) (simp_all add: req_host_def guard_defs)
next
  case (Logout x y)
  then show "denied r (client s) \<Longrightarrow> ?thesis"
    by (simp add: req_logout_def handle_logout_def)
qed (simp_all add: req_defs guard_defs)

lemma read_only_refused:
  "\<not> denied r (client s) \<Longrightarrow> sv_read_only s \<Longrightarrow> writes r \<Longrightarrow> \<not> dismisses r
   \<Longrightarrow> handle_message env r s = (Closed 503, s)"
proof (cases r)
  case (ToHost h)
  then show "\<not> denied r (client s) \<Longrightarrow> sv_read_only s \<Longrightarrow> writes r \<Longrightarrow> \<not> dismisses r \<Longrightarrow> ?thesis"
    by (cases h) (simp_all add: req_host_def guard_defs)
qed (simp_all add: req_defs guard_defs dismisses_def)

text \<open>A body that runs ends in one of the other outcomes.\<close>

lemma reading_runs: "granted r (client s) \<Longrightarrow> reading r f s = f s"
  by (simp add: reading_def)

lemma writing_runs: "granted r (client s) \<Longrightarrow> \<not> sv_read_only s \<Longrightarrow> writing r f s = f s"
  by (simp add: guard_defs)

lemma let_through:
  assumes "\<not> denied r (client s)" and "\<not> (sv_read_only s \<and> writes r \<and> \<not> dismisses r)"
  shows "fst (handle_message env r s) \<in> {Handled, Looping} \<union> range Failed
      \<or> (\<exists>g. r = GenerateKey g \<and> fst (handle_message env r s) = Closed 500)"
proof (cases r)
  case (ToHost h)
  with assms show ?thesis by (cases h) (simp_all add: req_host_def guard_defs dismisses_def)
next
  case (Logout x y)
  with assms show ?thesis
    by (auto simp: req_logout_def handle_logout_def Let_def split: option.splits sum.splits)
next
  case (GenerateKey g)
  with assms show ?thesis by (auto simp: req_generate_key_def split: option.splits)
next
  case (SaveObject i ob)
  with assms show ?thesis
    by (auto simp: req_save_object_def writing_runs dismisses_def Let_def split: sum.splits prod.splits)
next
  case (DeleteObject i)
  with assms show ?thesis
    by (auto simp: req_delete_object_def writing_runs dismisses_def split: sum.splits prod.splits delete_outcome.splits)
next
  case (ModifiedFilesResolve i a n)
  with assms show ?thesis
    by (auto simp: req_resolve_def writing_runs dismisses_def split: resolve_action.splits sum.splits prod.splits)
qed (use assms in \<open>auto simp: req_defs reading_runs writing_runs dismisses_def Let_def req_auth_status_def req_login_def
      split: option.splits sum.splits prod.splits\<close>)

text \<open>C12: who may do what: a client without the right a request needs is refused with code 403 and
  nothing changes; a request that writes, other than one that dismisses messages, is refused
  with 503 on a read only server and nothing changes; every other request is let through, and a
  read only server too dismisses messages. Saving and deleting objects, deployments and commands
  need an administrator; services and pins only the right to push images.\<close>

theorem requests_guarded:
  "if denied r (client s) then handle_message env r s = (Closed 403, s)
   else if sv_read_only s \<and> writes r \<and> \<not> dismisses r then handle_message env r s = (Closed 503, s)
   else fst (handle_message env r s) \<notin> {Closed 403, Closed 503}
     \<and> (case r of SetMessageDismissed ids d \<Rightarrow>
            mg_rows (sv_messages (snd (handle_message env r s)))
              = set_dismissed ids d (we_now env) (mg_rows (sv_messages s))
        | _ \<Rightarrow> True)"
proof -
  have "mg_rows (sv_messages (snd (handle_message env (SetMessageDismissed ids d) s)))
      = set_dismissed ids d (we_now env) (mg_rows (sv_messages s))" if "as_admin (client s)" for ids d
    using that by (simp add: req_set_message_dismissed_def reading_def broadcast_def Let_def)
  then show ?thesis
    using denied_refused read_only_refused let_through [of r s env] by (auto split: request.splits)
qed

end
