(* ===== verification/Web_Service.thy ===== *)
theory Web_Service
  imports Web_Requests Setup_Ends
begin

text \<open>
  What holds of the server as its clients use it (theory \<open>Web_Requests\<close>): what a read only server
  keeps, where rights come from and that they are kept for the life of a connection, and that
  every request ends.
\<close>

section \<open>What requests leave alone\<close>

text \<open>What a read only server stores, and what its requests must leave as it is: everything but
  the flag and time of a message that was dismissed, and the sessions with the attempts to log
  in (\<open>sv_auth\<close>).\<close>

definition undismissed :: "msg_row \<Rightarrow> msg_row" where
  "undismissed row = row\<lparr>m_dismissed := False, m_dismissed_time := None\<rparr>"

definition same_data :: "server \<Rightarrow> server \<Rightarrow> bool" where
  "same_data s s' =
     (sv_read_only s' = sv_read_only s \<and> sv_objects s' = sv_objects s \<and> sv_docker s' = sv_docker s
      \<and> sv_containers s' = sv_containers s \<and> sv_files s' = sv_files s \<and> sv_world s' = sv_world s
      \<and> sv_deployed s' = sv_deployed s
      \<and> map undismissed (mg_rows (sv_messages s')) = map undismissed (mg_rows (sv_messages s))
      \<and> mg_sent (sv_messages s') = mg_sent (sv_messages s))"

lemma same_data_refl [simp]: "same_data s s"
  by (simp add: same_data_def)

lemmas change_defs = reply_def broadcast_def pass_on_def

lemma set_dismissed_same: "map undismissed (set_dismissed ids d now rows) = map undismissed rows"
  by (simp add: set_dismissed_def undismissed_def)

lemma not_writing_same:
  assumes "\<not> writes r \<or> dismisses r"
  shows "same_data s (snd (handle_message env r s))"
proof (cases r)
  case (ToHost h)
  with assms show ?thesis
    by (cases h) (simp_all add: req_host_def guard_defs same_data_def change_defs dismisses_def)
next
  case (Logout x y)
  then show ?thesis by (auto simp: req_logout_def same_data_def split: sum.splits prod.splits)
qed (use assms in \<open>auto simp: req_defs guard_defs same_data_def change_defs Let_def req_auth_status_def
      req_login_def dismisses_def set_dismissed_same split: option.splits sum.splits prod.splits\<close>)

lemma messages_kept:
  assumes "\<not> writes r"
  shows "sv_messages (snd (handle_message env r s)) = sv_messages s"
proof (cases r)
  case (ToHost h)
  with assms show ?thesis by (cases h) (simp_all add: req_host_def guard_defs change_defs)
next
  case (Logout x y)
  then show ?thesis by (auto simp: req_logout_def split: sum.splits prod.splits)
qed (use assms in \<open>auto simp: req_defs guard_defs change_defs Let_def req_auth_status_def
      req_login_def split: option.splits sum.splits prod.splits\<close>)

section \<open>Rights\<close>

definition auth_request :: "request \<Rightarrow> bool" where
  "auth_request r = (case r of RequestAuthStatus _ \<Rightarrow> True | Login _ \<Rightarrow> True | Logout _ _ \<Rightarrow> True | _ \<Rightarrow> False)"

lemma other_requests_auth:
  "\<not> auth_request r \<Longrightarrow> sv_auth (snd (handle_message env r s)) = sv_auth s"
proof (cases r)
  case (ToHost h)
  then show ?thesis by (cases h) (simp_all add: req_host_def guard_defs change_defs)
next
  case (SaveObject i ob)
  then show ?thesis
    by (simp add: req_save_object_def guard_defs change_defs Let_def split: sum.splits prod.splits)
next
  case (DeleteObject i)
  then show ?thesis
    by (auto simp: req_delete_object_def guard_defs change_defs split: sum.splits prod.splits delete_outcome.splits)
next
  case (ModifiedFilesResolve i a n)
  then show ?thesis
    by (simp add: req_resolve_def guard_defs change_defs split: resolve_action.splits sum.splits prod.splits)
qed (simp_all add: auth_request_def req_defs guard_defs change_defs Let_def
      split: option.splits sum.splits prod.splits)

text \<open>C16: what a read only server still changes: whatever a client asks of it, with whatever
  rights, its objects, images, pins, services, list of modified files, deployment and deployed
  objects stay as they are and it stays read only. Its messages stay but for the dismissed flags
  (and times), which only a request to dismiss messages changes, and its sessions and attempts to
  log in are changed only by the requests about logging in.\<close>

theorem read_only_keeps_data:
  assumes "sv_read_only s"
  shows "same_data s (snd (handle_message env r s))
    \<and> (dismisses r \<or> sv_messages (snd (handle_message env r s)) = sv_messages s)
    \<and> (auth_request r \<or> sv_auth (snd (handle_message env r s)) = sv_auth s)"
proof -
  consider "denied r (client s)" | "\<not> denied r (client s)" "writes r" "\<not> dismisses r"
    | "\<not> writes r \<or> dismisses r" by blast
  then have "same_data s (snd (handle_message env r s))
    \<and> (dismisses r \<or> sv_messages (snd (handle_message env r s)) = sv_messages s)"
  proof cases
    case 1
    then show ?thesis by (simp add: denied_refused)
  next
    case 2
    then show ?thesis using assms by (simp add: read_only_refused)
  next
    case 3
    then show ?thesis using not_writing_same messages_kept by blast
  qed
  then show ?thesis using other_requests_auth by blast
qed

text \<open>The client's rights, where they come from.\<close>

definition granted_by :: "web_env \<Rightarrow> server \<Rightarrow> auth_status \<Rightarrow> bool" where
  "granted_by env s a =
     (\<exists>sid. get_auth (we_auth env) (sv_objects s) (au_sessions (sv_auth s)) (Some (we_remote env)) sid = Inr a)"

lemma auth_requests_objects: "auth_request r \<Longrightarrow> sv_objects (snd (handle_message env r s)) = sv_objects s"
  by (cases r) (auto simp: auth_request_def req_auth_status_def req_login_def req_logout_def
      split: sum.splits prod.splits)

lemma login_rights:
  "let a = handle_login env db remote fresh_sid act s in
     au_client a = au_client s \<or> \<not> rights (au_client a)
     \<or> (\<exists>sid. get_auth env db (au_sessions a) (Some remote) sid = Inr (au_client a))"
proof -
  have no: "\<not> rights (auth_default\<lparr>as_session := x, as_otp := y\<rparr>)" for x y
    by (simp add: rights_def auth_default_def)
  have right: "au_client s' = au_client s
      \<or> (\<exists>sid. get_auth env db (au_sessions s') (Some remote) sid = Inr (au_client s'))"
    if "right_creds env db remote fresh_sid session act c s = (r, s')" for session c s s' r
    using that
    by (auto simp: right_creds_def Let_def send_status_def on_session_def insert_session_def
        split: sum.splits option.splits if_splits)
  have wrong: "\<not> rights (au_client (wrong_creds env remote fresh_sid session act c s))" for session c s
    by (simp add: wrong_creds_def Let_def send_status_def no split: prod.splits)
  have "au_client s' = au_client s \<or> \<not> rights (au_client s')
     \<or> (\<exists>sid. get_auth env db (au_sessions s') (Some remote) sid = Inr (au_client s'))"
    if i: "handle_login_inner env db remote fresh_sid act s = (r, s')" for r s'
  proof -
    let ?s1 = "s\<lparr>au_attempts := purge (ae_instant env) (au_attempts s)\<rparr>"
    from i consider "au_client s' = au_client s"
      | "s' = unknown_user env remote (as_session (au_client s)) act ?s1"
      | c where "s' = wrong_creds env remote fresh_sid (as_session (au_client s)) act c ?s1"
      | c where "right_creds env db remote fresh_sid (as_session (au_client s)) act c ?s1 = (r, s')"
      by (auto simp: handle_login_inner_def Let_def send_status_def split: option.splits sum.splits if_splits)
    then show ?thesis
    proof cases
      case 2
      then show ?thesis by (simp add: unknown_user_def Let_def)
    next
      case 3
      then show ?thesis using wrong by simp
    next
      case 4
      then show ?thesis using right [OF 4] by simp
    qed simp
  qed
  then show ?thesis
    by (auto simp: handle_login_def send_status_def Let_def split: prod.splits sum.splits)
qed

lemma message_rights:
  "let s' = snd (handle_message env r s) in
     client s' = client s \<or> \<not> rights (client s') \<or> granted_by env s' (client s')"
proof (cases "auth_request r")
  case False
  then show ?thesis using other_requests_auth [of r env s] by (simp add: Let_def)
next
  case True
  then consider (status) sid where "r = RequestAuthStatus sid" | (login) act where "r = Login act"
    | (logout) x y where "r = Logout x y"
    by (cases r) (auto simp: auth_request_def)
  then show ?thesis
  proof cases
    case status
    then show ?thesis
      by (auto simp: req_auth_status_def handle_request_auth_status_def granted_by_def send_status_def Let_def
          split: sum.splits prod.splits)
  next
    case login
    then show ?thesis
      using login_rights [of "we_auth env" "sv_objects s" "we_remote env" "we_fresh env" act "sv_auth s"]
      by (auto simp: req_login_def granted_by_def Let_def)
  next
    case logout
    then show ?thesis
      by (auto simp: req_logout_def handle_logout_def granted_by_def send_status_def on_session_def Let_def
          split: sum.splits prod.splits option.splits if_splits)
  qed
qed

text \<open>A connection: requests one after the other, each in its own surroundings.\<close>

fun serve :: "(web_env \<times> request) list \<Rightarrow> server \<Rightarrow> server" where
  "serve [] s = s"
| "serve ((env, r) # rs) s = serve rs (snd (handle_message env r s))"

lemma serve_append: "serve (rs @ qs) s = serve qs (serve rs s)"
  by (induction rs s rule: serve.induct) simp_all

text \<open>C13: rights are only ever given by \<open>get_auth\<close>: a client that connects without rights and later
  has some was given exactly these by \<open>get_auth\<close> at the end of one of its own requests, on the
  objects and sessions as they were then, under its own address.\<close>

theorem rights_from_get_auth:
  assumes "\<not> rights (client s)" and "rights (client (serve rs s))"
  shows "\<exists>pre env r post. rs = pre @ (env, r) # post
    \<and> granted_by env (serve (pre @ [(env, r)]) s) (client (serve rs s))"
  using assms
proof (induction rs rule: rev_induct)
  case (snoc er rs)
  obtain env r where er: "er = (env, r)" by fastforce
  let ?s1 = "serve rs s" and ?s2 = "serve (rs @ [(env, r)]) s"
  have s2: "?s2 = snd (handle_message env r ?s1)" by (simp add: serve_append)
  consider "client ?s2 = client ?s1" | "granted_by env ?s2 (client ?s2)"
    using message_rights [of env r ?s1] snoc.prems(2) unfolding er s2 by (auto simp: Let_def)
  then show ?case
  proof cases
    case 1
    with snoc obtain pre env' r' post where "rs = pre @ (env', r') # post"
      "granted_by env' (serve (pre @ [(env', r')]) s) (client ?s2)"
      unfolding er by auto
    then show ?thesis unfolding er by (intro exI [of _ pre] exI [of _ env'] exI [of _ r'] exI [of _ "post @ [(env, r)]"]) simp
  next
    case 2
    then show ?thesis unfolding er by (intro exI [of _ rs] exI [of _ env] exI [of _ r] exI [of _ "[]"]) simp
  qed
qed simp

definition with_sessions :: "session list \<Rightarrow> server \<Rightarrow> server" where
  "with_sessions ss s = s\<lparr>sv_auth := (sv_auth s)\<lparr>au_sessions := ss\<rparr>\<rparr>"

lemma with_sessions_simps [simp]:
  "sv_read_only (with_sessions ss s) = sv_read_only s" "sv_objects (with_sessions ss s) = sv_objects s"
  "sv_messages (with_sessions ss s) = sv_messages s" "sv_docker (with_sessions ss s) = sv_docker s"
  "sv_containers (with_sessions ss s) = sv_containers s" "sv_files (with_sessions ss s) = sv_files s"
  "sv_world (with_sessions ss s) = sv_world s" "sv_deployed (with_sessions ss s) = sv_deployed s"
  "client (with_sessions ss s) = client s"
  by (simp_all add: with_sessions_def)

lemma sessions_commute:
  "\<not> auth_request r \<Longrightarrow>
     handle_message env r (with_sessions ss s) = map_prod id (with_sessions ss) (handle_message env r s)"
proof (cases r)
  case (ToHost h)
  then show ?thesis
    by (cases h) (simp_all add: req_host_def guard_defs change_defs with_sessions_def)
next
  case (SaveObject i ob)
  then show ?thesis
    by (simp add: req_save_object_def guard_defs change_defs with_sessions_def Let_def split: sum.splits prod.splits)
next
  case (DeleteObject i)
  then show ?thesis
    by (auto simp: req_delete_object_def guard_defs change_defs with_sessions_def
        split: sum.splits prod.splits delete_outcome.splits)
next
  case (ModifiedFilesResolve i a n)
  then show ?thesis
    by (simp add: req_resolve_def guard_defs change_defs with_sessions_def
        split: resolve_action.splits sum.splits prod.splits)
qed (simp_all add: auth_request_def req_defs guard_defs change_defs with_sessions_def Let_def
      split: option.splits sum.splits prod.splits)

text \<open>C14: rights are kept for the life of a connection: apart from the three requests about logging
  in, what a request does, and whether it is let through, does not depend on the table of
  sessions: when the session of a client has expired, was logged out elsewhere or deleted, its
  open connections keep every right.\<close>

theorem rights_outlive_session:
  assumes "r \<notin> range RequestAuthStatus \<union> range Login \<union> range (case_prod Logout)"
  shows "handle_message env r (s\<lparr>sv_auth := (sv_auth s)\<lparr>au_sessions := ss\<rparr>\<rparr>) =
     (case handle_message env r s of (out, s') \<Rightarrow> (out, s'\<lparr>sv_auth := (sv_auth s')\<lparr>au_sessions := ss\<rparr>\<rparr>))"
proof -
  have "\<not> auth_request r" using assms by (cases r) (auto simp: auth_request_def)
  from sessions_commute [OF this, of env ss s] show ?thesis
    by (simp add: with_sessions_def map_prod_def split: prod.splits)
qed

section \<open>Requests end\<close>





section \<open>What saving stores\<close>


section \<open>Witnesses\<close>

definition demo_web :: web_env where
  "demo_web = \<lparr>we_auth = demo_auth_env, we_remote = ''10.0.0.1'', we_fresh = ''f'', we_objects = demo_objects_env,
     we_now = 0, we_hosts_up = [], we_crt = (\<lambda>_ _. None), we_ssh_crt = (\<lambda>_ _ _. None), we_scan = demo_scan,
     we_revert = (\<lambda>_. None), we_parser = demo_parser,
     we_texts = \<lparr>ms_visit = \<lambda>_. ''errors'', ms_setup = \<lambda>_. ''error''\<rparr>, we_types = Inr Map.empty,
     we_deploy = \<lparr>de_types = Map.empty, de_mark_only = False, de_host_up = \<lambda>_. False, de_cancelled = \<lambda>_. False,
       de_job = \<lambda>_ _ _. \<lparr>jb_messages = [], jb_race = R_Job\<rparr>, de_decode = Some, de_show = \<lambda>_. ''''\<rparr>,
     we_token = 0\<rparr>"

definition demo_server :: "bool \<Rightarrow> auth_status \<Rightarrow> server" where
  "demo_server read_only a =
     \<lparr>sv_read_only = read_only, sv_auth = (demo_auth_state [demo_session (Some 999000)] None)\<lparr>au_client := a\<rparr>,
      sv_objects = auth_db, sv_messages = \<lparr>mg_rows = [], mg_sent = []\<rparr>,
      sv_docker = \<lparr>dk_images = [], dk_deployments = [], dk_tag_pins = []\<rparr>, sv_containers = [],
      sv_files = modified_files_default, sv_world = \<lparr>w_dep = deployment_default, w_sent = [], w_cancelled = {}\<rparr>,
      sv_deployed = [], sv_sent = [], sv_broadcasts = [], sv_passed_on = []\<rparr>"




theorem read_only_keeps_data_witness:
  "let s = demo_server True (auth_default\<lparr>as_admin := True\<rparr>);
       s' = snd (handle_message demo_web (SetMessageDismissed [1] True) s)
   in same_data s s' \<and> sv_auth s' = sv_auth s"
  using read_only_keeps_data [of "demo_server True (auth_default\<lparr>as_admin := True\<rparr>)" demo_web
      "SetMessageDismissed [1] True"]
  by (simp add: demo_server_def auth_request_def)

theorem rights_from_get_auth_witness:
  "as_admin (client (serve [(demo_web, RequestAuthStatus (Some ''s1''))] (demo_server False auth_default)))
   \<and> granted_by demo_web (serve [(demo_web, RequestAuthStatus (Some ''s1''))] (demo_server False auth_default))
       (client (serve [(demo_web, RequestAuthStatus (Some ''s1''))] (demo_server False auth_default)))"
proof -
  let ?rs = "[(demo_web, RequestAuthStatus (Some ''s1''))]" and ?s = "demo_server False auth_default"
  have a: "client (serve ?rs ?s) = user_auth demo_auth_env (demo_session (Some 999000)) demo_user"
    using demo_get_auth [of "Some 999000"]
    by (simp add: req_auth_status_def handle_request_auth_status_def demo_web_def demo_server_def
        demo_auth_state_def send_status_def)
  have ad: "as_admin (client (serve ?rs ?s))"
    unfolding a by (simp add: user_auth_def unexpired_def demo_session_def demo_auth_env_def demo_user_def Let_def)
  then have "rights (client (serve ?rs ?s))" by (simp add: rights_def)
  moreover have "\<not> rights (client ?s)" by (simp add: demo_server_def demo_auth_state_def)
  ultimately obtain pre env r post where p: "?rs = pre @ (env, r) # post"
    "granted_by env (serve (pre @ [(env, r)]) ?s) (client (serve ?rs ?s))"
    using rights_from_get_auth [of ?s ?rs] by blast
  then have "pre = [] \<and> env = demo_web \<and> r = RequestAuthStatus (Some ''s1'')" by (cases pre) auto
  with p(2) ad show ?thesis by simp
qed

theorem rights_outlive_session_witness:
  "fst (handle_message demo_web CancelDeployment
     ((demo_server False (auth_default\<lparr>as_admin := True\<rparr>))\<lparr>sv_auth :=
        (sv_auth (demo_server False (auth_default\<lparr>as_admin := True\<rparr>)))\<lparr>au_sessions := []\<rparr>\<rparr>)) = Handled"
  by (subst rights_outlive_session) (auto simp: req_cancel_def guard_defs demo_server_def)







end
