(* ===== verification/Client_Message.thy ===== *)
theory Client_Message
  imports Json "HOL-Library.Word" "HOL-Library.Monad_Syntax"
begin

text \<open>
  The messages between the server and the hosts (\<open>src/client_message.rs\<close>): the two enums with the
  structs they hold, their \<open>job_id\<close> and \<open>tag\<close>, and the JSON that the derived implementations
  write and read (\<open>#[serde(tag = "type", rename_all = "snake_case")]\<close> and the attributes of the
  fields). A \<open>HashMap\<close> is the list of its entries, in the order in which it is written. The
  text of a JSON value is a parameter of the theories that use this one.
\<close>

section \<open>The enums of the fields\<close>

datatype instant_output_type = OutText | OutBase64 | OutJson | OutUtf8

datatype instant_stdin_type = StdinNone

datatype script_stdin_type = ScriptStdinNone | ScriptStdinBinary | ScriptStdinGivenJson

datatype script_out_type = ScriptOutNone | ScriptOutBinary | ScriptOutText | ScriptOutBlockedJson

datatype data_source = Stdin | Stdout | Stderr

datatype failure_type = FailScript | FailUnknownTask | FailException

section \<open>The structs\<close>

type_synonym u64 = "64 word"
type_synonym i32 = "32 word"
type_synonym u32 = "32 word"

record run_instant_message =
  ri_id :: u64
  ri_name :: string
  ri_interperter :: string
  ri_content :: string
  ri_args :: "string list"
  ri_output_type :: instant_output_type
  ri_stdin_type :: instant_stdin_type

record run_script_message =
  rs_id :: u64
  rs_name :: string
  rs_interperter :: string
  rs_content :: string
  rs_args :: "string list"
  rs_input_json :: "json option"
  rs_stdin_type :: "script_stdin_type option"
  rs_stdout_type :: "script_out_type option"
  rs_stderr_type :: "script_out_type option"

record data_message =
  dm_id :: u64
  dm_source :: "data_source option"
  dm_data :: json
  dm_eof :: "bool option"

record failure_message =
  fm_id :: u64
  fm_failure_type :: "failure_type option"
  fm_code :: "i32 option"
  fm_stdout :: "string option"
  fm_stderr :: "string option"
  fm_message :: "string option"

record success_message =
  sm_id :: u64
  sm_code :: "i32 option"
  sm_data :: "json option"

record deploy_service_message =
  ds_id :: u64
  ds_image :: "string option"
  ds_description :: string
  ds_docker_auth :: "string option"
  ds_extra_env :: "(string \<times> string) list"
  ds_user :: "string option"

record command_spawn_message =
  cs_id :: u64
  cs_command_id :: u64
  cs_program :: string
  cs_args :: "string list"
  cs_env :: "(string \<times> string) list option"
  cs_cwd :: "string option"
  cs_forward_stdin :: bool
  cs_forward_stdout :: bool
  cs_forward_stderr :: bool

section \<open>The messages\<close>

datatype host_client_message =
    HcRunInstant run_instant_message
  | HcRunScript run_script_message
  | HcPing u64
  | HcKill u64
  | HcData data_message
  | HcDeployService deploy_service_message
  | HcReadFile u64 string
  | HcWriteFile u64 string string "u32 option"
  | HcSocketConnect u64 u64 string
  | HcSocketClose u64 u64
  | HcSocketSend u64 u64 "string option"
  | HcCommandSpawn command_spawn_message
  | HcCommandStdin u64 u64 "string option"
  | HcCommandSignal u64 u64 i32

datatype client_host_message =
    ChAuth string string
  | ChPong u64
  | ChFailure failure_message
  | ChSuccess success_message
  | ChData data_message
  | ChReadFileResult u64 string
  | ChSocketRecv u64 "string option"
  | ChCommandStdout u64 "string option"
  | ChCommandStderr u64 "string option"
  | ChCommandFinished u64 i32 "i32 option"

fun hc_job_id :: "host_client_message \<Rightarrow> u64 option" where
  "hc_job_id (HcKill i) = Some i"
| "hc_job_id (HcData d) = Some (dm_id d)"
| "hc_job_id (HcDeployService d) = Some (ds_id d)"
| "hc_job_id (HcRunInstant m) = Some (ri_id m)"
| "hc_job_id (HcRunScript m) = Some (rs_id m)"
| "hc_job_id (HcPing _) = None"
| "hc_job_id (HcReadFile i _) = Some i"
| "hc_job_id (HcWriteFile i _ _ _) = Some i"
| "hc_job_id (HcSocketConnect i _ _) = Some i"
| "hc_job_id (HcSocketClose i _) = Some i"
| "hc_job_id (HcSocketSend i _ _) = Some i"
| "hc_job_id (HcCommandSpawn m) = Some (cs_id m)"
| "hc_job_id (HcCommandStdin i _ _) = Some i"
| "hc_job_id (HcCommandSignal i _ _) = Some i"

fun hc_tag :: "host_client_message \<Rightarrow> string" where
  "hc_tag (HcRunInstant _) = ''run_instant''"
| "hc_tag (HcRunScript _) = ''run_script''"
| "hc_tag (HcPing _) = ''ping''"
| "hc_tag (HcKill _) = ''pong''"
| "hc_tag (HcData _) = ''data''"
| "hc_tag (HcDeployService _) = ''deploy_service''"
| "hc_tag (HcReadFile _ _) = ''read_file''"
| "hc_tag (HcWriteFile _ _ _ _) = ''read_file''"
| "hc_tag (HcSocketConnect _ _ _) = ''socket_connect''"
| "hc_tag (HcSocketClose _ _) = ''socket_close''"
| "hc_tag (HcSocketSend _ _ _) = ''socket_send''"
| "hc_tag (HcCommandSpawn _) = ''command_run''"
| "hc_tag (HcCommandStdin _ _ _) = ''command_stdin''"
| "hc_tag (HcCommandSignal _ _ _) = ''command_signal''"

fun ch_job_id :: "client_host_message \<Rightarrow> u64 option" where
  "ch_job_id (ChFailure m) = Some (fm_id m)"
| "ch_job_id (ChSuccess m) = Some (sm_id m)"
| "ch_job_id (ChData m) = Some (dm_id m)"
| "ch_job_id (ChAuth _ _) = None"
| "ch_job_id (ChPong _) = None"
| "ch_job_id (ChReadFileResult i _) = Some i"
| "ch_job_id (ChSocketRecv _ _) = None"
| "ch_job_id (ChCommandStdout _ _) = None"
| "ch_job_id (ChCommandStderr _ _) = None"
| "ch_job_id (ChCommandFinished _ _ _) = None"

fun ch_tag :: "client_host_message \<Rightarrow> string" where
  "ch_tag (ChAuth _ _) = ''auth''"
| "ch_tag (ChPong _) = ''pong''"
| "ch_tag (ChFailure _) = ''failure''"
| "ch_tag (ChSuccess _) = ''success''"
| "ch_tag (ChData _) = ''data''"
| "ch_tag (ChReadFileResult _ _) = ''read_file_result''"
| "ch_tag (ChSocketRecv _ _) = ''socket_recv''"
| "ch_tag (ChCommandStdout _ _) = ''command_stdout''"
| "ch_tag (ChCommandStderr _ _) = ''command_stderr''"
| "ch_tag (ChCommandFinished _ _ _) = ''command_finished''"

section \<open>The JSON of the fields\<close>

definition json_u64 :: "u64 \<Rightarrow> json" where
  "json_u64 w = JNumber (num_of_u64 (unat w))"

definition json_u32 :: "u32 \<Rightarrow> json" where
  "json_u32 w = JNumber (num_of_u64 (unat w))"

definition json_i32 :: "i32 \<Rightarrow> json" where
  "json_i32 w = JNumber (I64 (sint w))"

definition json_strs :: "string list \<Rightarrow> json" where
  "json_strs ss = JArray (map JString ss)"

definition json_env :: "(string \<times> string) list \<Rightarrow> json" where
  "json_env e = JObject (map (\<lambda>(k, v). (k, JString v)) e)"

definition de_u64 :: "json \<Rightarrow> u64 option" where
  "de_u64 j = map_option word_of_nat (as_u64 j)"

definition de_u32 :: "json \<Rightarrow> u32 option" where
  "de_u32 j = Option.bind (as_u64 j) (\<lambda>n. if n < 2 ^ 32 then Some (word_of_nat n) else None)"

definition de_i32 :: "json \<Rightarrow> i32 option" where
  "de_i32 j = Option.bind (as_i64 j)
     (\<lambda>i. if - (2 ^ 31) \<le> i \<and> i < 2 ^ 31 then Some (word_of_int i) else None)"

fun those_map :: "('a \<Rightarrow> 'b option) \<Rightarrow> 'a list \<Rightarrow> 'b list option" where
  "those_map f [] = Some []"
| "those_map f (x # xs) =
     (case f x of None \<Rightarrow> None | Some y \<Rightarrow> map_option (\<lambda>ys. y # ys) (those_map f xs))"

fun de_strs :: "json \<Rightarrow> string list option" where
  "de_strs (JArray js) = those_map as_str js"
| "de_strs _ = None"

fun de_env :: "json \<Rightarrow> (string \<times> string) list option" where
  "de_env (JObject m) = those_map (\<lambda>(k, v). map_option (Pair k) (as_str v)) m"
| "de_env _ = None"

text \<open>An enum without fields is the text of its variant.\<close>

fun json_instant_output :: "instant_output_type \<Rightarrow> json" where
  "json_instant_output OutText = JString ''text''"
| "json_instant_output OutBase64 = JString ''base64''"
| "json_instant_output OutJson = JString ''json''"
| "json_instant_output OutUtf8 = JString ''utf-8''"

fun json_instant_stdin :: "instant_stdin_type \<Rightarrow> json" where
  "json_instant_stdin StdinNone = JString ''none''"

fun json_script_stdin :: "script_stdin_type \<Rightarrow> json" where
  "json_script_stdin ScriptStdinNone = JString ''none''"
| "json_script_stdin ScriptStdinBinary = JString ''binary''"
| "json_script_stdin ScriptStdinGivenJson = JString ''given_json''"

fun json_script_out :: "script_out_type \<Rightarrow> json" where
  "json_script_out ScriptOutNone = JString ''none''"
| "json_script_out ScriptOutBinary = JString ''binary''"
| "json_script_out ScriptOutText = JString ''text''"
| "json_script_out ScriptOutBlockedJson = JString ''blocked_json''"

fun json_source :: "data_source \<Rightarrow> json" where
  "json_source Stdin = JString ''stdin''"
| "json_source Stdout = JString ''stdout''"
| "json_source Stderr = JString ''stderr''"

fun json_failure_type :: "failure_type \<Rightarrow> json" where
  "json_failure_type FailScript = JString ''script''"
| "json_failure_type FailUnknownTask = JString ''unknown_task''"
| "json_failure_type FailException = JString ''exception''"

text \<open>A variant is found by its text; a list of all variants is the table.\<close>

definition de_enum :: "('e \<Rightarrow> json) \<Rightarrow> 'e list \<Rightarrow> json \<Rightarrow> 'e option" where
  "de_enum ser variants j = List.find (\<lambda>e. ser e = j) variants"

definition de_instant_output :: "json \<Rightarrow> instant_output_type option" where
  "de_instant_output = de_enum json_instant_output [OutText, OutBase64, OutJson, OutUtf8]"

definition de_instant_stdin :: "json \<Rightarrow> instant_stdin_type option" where
  "de_instant_stdin = de_enum json_instant_stdin [StdinNone]"

definition de_script_stdin :: "json \<Rightarrow> script_stdin_type option" where
  "de_script_stdin = de_enum json_script_stdin [ScriptStdinNone, ScriptStdinBinary, ScriptStdinGivenJson]"

definition de_script_out :: "json \<Rightarrow> script_out_type option" where
  "de_script_out = de_enum json_script_out
     [ScriptOutNone, ScriptOutBinary, ScriptOutText, ScriptOutBlockedJson]"

definition de_source :: "json \<Rightarrow> data_source option" where
  "de_source = de_enum json_source [Stdin, Stdout, Stderr]"

definition de_failure_type :: "json \<Rightarrow> failure_type option" where
  "de_failure_type = de_enum json_failure_type [FailScript, FailUnknownTask, FailException]"

text \<open>
  A field of an \<open>Option\<close> is left out when it is none (\<open>skip_serializing_if\<close>) or written as null; a
  field that is missing or null is read as none. Every other field must be there.
\<close>

definition skip_none :: "string \<Rightarrow> ('a \<Rightarrow> json) \<Rightarrow> 'a option \<Rightarrow> value_map" where
  "skip_none k ser x = (case x of None \<Rightarrow> [] | Some v \<Rightarrow> [(k, ser v)])"

definition null_none :: "('a \<Rightarrow> json) \<Rightarrow> 'a option \<Rightarrow> json" where
  "null_none ser x = (case x of None \<Rightarrow> JNull | Some v \<Rightarrow> ser v)"

definition need :: "string \<Rightarrow> (json \<Rightarrow> 'a option) \<Rightarrow> value_map \<Rightarrow> 'a option" where
  "need k de m = Option.bind (obj_get k m) de"

definition maybe :: "string \<Rightarrow> (json \<Rightarrow> 'a option) \<Rightarrow> value_map \<Rightarrow> 'a option option" where
  "maybe k de m =
     (case obj_get k m of
        None \<Rightarrow> Some None
      | Some j \<Rightarrow> if j = JNull then Some None else map_option Some (de j))"

section \<open>The JSON of the messages\<close>

definition json_run_instant :: "run_instant_message \<Rightarrow> value_map" where
  "json_run_instant r =
     [(''id'', json_u64 (ri_id r)), (''name'', JString (ri_name r)),
      (''interperter'', JString (ri_interperter r)), (''content'', JString (ri_content r)),
      (''args'', json_strs (ri_args r)), (''output_type'', json_instant_output (ri_output_type r)),
      (''stdin_type'', json_instant_stdin (ri_stdin_type r))]"

definition json_run_script :: "run_script_message \<Rightarrow> value_map" where
  "json_run_script r =
     [(''id'', json_u64 (rs_id r)), (''name'', JString (rs_name r)),
      (''interperter'', JString (rs_interperter r)), (''content'', JString (rs_content r)),
      (''args'', json_strs (rs_args r))]
     @ skip_none ''input_json'' id (rs_input_json r)
     @ skip_none ''stdin_type'' json_script_stdin (rs_stdin_type r)
     @ skip_none ''stdout_type'' json_script_out (rs_stdout_type r)
     @ skip_none ''stderr_type'' json_script_out (rs_stderr_type r)"

definition json_data :: "data_message \<Rightarrow> value_map" where
  "json_data d =
     [(''id'', json_u64 (dm_id d))] @ skip_none ''source'' json_source (dm_source d)
     @ [(''data'', dm_data d), (''eof'', null_none JBool (dm_eof d))]"

definition json_failure :: "failure_message \<Rightarrow> value_map" where
  "json_failure f =
     [(''id'', json_u64 (fm_id f))]
     @ skip_none ''failure_type'' json_failure_type (fm_failure_type f)
     @ skip_none ''code'' json_i32 (fm_code f)
     @ skip_none ''stdout'' JString (fm_stdout f)
     @ skip_none ''stderr'' JString (fm_stderr f)
     @ skip_none ''message'' JString (fm_message f)"

definition json_success :: "success_message \<Rightarrow> value_map" where
  "json_success s =
     [(''id'', json_u64 (sm_id s))] @ skip_none ''code'' json_i32 (sm_code s)
     @ skip_none ''data'' id (sm_data s)"

definition json_deploy_service :: "deploy_service_message \<Rightarrow> value_map" where
  "json_deploy_service d =
     [(''id'', json_u64 (ds_id d))] @ skip_none ''image'' JString (ds_image d)
     @ [(''description'', JString (ds_description d))]
     @ skip_none ''docker_auth'' JString (ds_docker_auth d)
     @ (if ds_extra_env d = [] then [] else [(''extra_env'', json_env (ds_extra_env d))])
     @ skip_none ''user'' JString (ds_user d)"

definition json_command_spawn :: "command_spawn_message \<Rightarrow> value_map" where
  "json_command_spawn c =
     [(''id'', json_u64 (cs_id c)), (''command_id'', json_u64 (cs_command_id c)),
      (''program'', JString (cs_program c)), (''args'', json_strs (cs_args c))]
     @ skip_none ''env'' json_env (cs_env c) @ skip_none ''cwd'' JString (cs_cwd c)
     @ [(''forward_stdin'', JBool (cs_forward_stdin c)),
        (''forward_stdout'', JBool (cs_forward_stdout c)),
        (''forward_stderr'', JBool (cs_forward_stderr c))]"

definition tagged :: "string \<Rightarrow> value_map \<Rightarrow> json" where
  "tagged t m = JObject ((''type'', JString t) # m)"

fun hc_to_json :: "host_client_message \<Rightarrow> json" where
  "hc_to_json (HcRunInstant r) = tagged ''run_instant'' (json_run_instant r)"
| "hc_to_json (HcRunScript r) = tagged ''run_script'' (json_run_script r)"
| "hc_to_json (HcPing i) = tagged ''ping'' [(''id'', json_u64 i)]"
| "hc_to_json (HcKill i) = tagged ''kill'' [(''id'', json_u64 i)]"
| "hc_to_json (HcData d) = tagged ''data'' (json_data d)"
| "hc_to_json (HcDeployService d) = tagged ''deploy_service'' (json_deploy_service d)"
| "hc_to_json (HcReadFile i p) = tagged ''read_file'' [(''id'', json_u64 i), (''path'', JString p)]"
| "hc_to_json (HcWriteFile i p c m) =
     tagged ''write_file'' [(''id'', json_u64 i), (''path'', JString p), (''content'', JString c),
       (''mode'', null_none json_u32 m)]"
| "hc_to_json (HcSocketConnect i s d) =
     tagged ''socket_connect'' [(''id'', json_u64 i), (''socket_id'', json_u64 s), (''dst'', JString d)]"
| "hc_to_json (HcSocketClose i s) =
     tagged ''socket_close'' [(''id'', json_u64 i), (''socket_id'', json_u64 s)]"
| "hc_to_json (HcSocketSend i s d) =
     tagged ''socket_send'' [(''id'', json_u64 i), (''socket_id'', json_u64 s),
       (''data'', null_none JString d)]"
| "hc_to_json (HcCommandSpawn c) = tagged ''command_spawn'' (json_command_spawn c)"
| "hc_to_json (HcCommandStdin i c d) =
     tagged ''command_stdin'' [(''id'', json_u64 i), (''command_id'', json_u64 c),
       (''data'', null_none JString d)]"
| "hc_to_json (HcCommandSignal i c s) =
     tagged ''command_signal'' [(''id'', json_u64 i), (''command_id'', json_u64 c),
       (''signal'', json_i32 s)]"

fun ch_to_json :: "client_host_message \<Rightarrow> json" where
  "ch_to_json (ChAuth h p) = tagged ''auth'' [(''hostname'', JString h), (''password'', JString p)]"
| "ch_to_json (ChPong i) = tagged ''pong'' [(''id'', json_u64 i)]"
| "ch_to_json (ChFailure f) = tagged ''failure'' (json_failure f)"
| "ch_to_json (ChSuccess s) = tagged ''success'' (json_success s)"
| "ch_to_json (ChData d) = tagged ''data'' (json_data d)"
| "ch_to_json (ChReadFileResult i c) =
     tagged ''read_file_result'' [(''id'', json_u64 i), (''content'', JString c)]"
| "ch_to_json (ChSocketRecv s d) =
     tagged ''socket_recv'' [(''socket_id'', json_u64 s), (''data'', null_none JString d)]"
| "ch_to_json (ChCommandStdout c d) =
     tagged ''command_stdout'' [(''command_id'', json_u64 c), (''data'', null_none JString d)]"
| "ch_to_json (ChCommandStderr c d) =
     tagged ''command_stderr'' [(''command_id'', json_u64 c), (''data'', null_none JString d)]"
| "ch_to_json (ChCommandFinished c code sg) =
     tagged ''command_finished'' [(''command_id'', json_u64 c), (''code'', json_i32 code),
       (''signal'', null_none json_i32 sg)]"

section \<open>Reading the messages\<close>

definition de_run_instant :: "value_map \<Rightarrow> run_instant_message option" where
  "de_run_instant m = do {
     i \<leftarrow> need ''id'' de_u64 m;
     n \<leftarrow> need ''name'' as_str m;
     p \<leftarrow> need ''interperter'' as_str m;
     c \<leftarrow> need ''content'' as_str m;
     a \<leftarrow> need ''args'' de_strs m;
     ot \<leftarrow> need ''output_type'' de_instant_output m;
     it \<leftarrow> need ''stdin_type'' de_instant_stdin m;
     Some \<lparr>ri_id = i, ri_name = n, ri_interperter = p, ri_content = c, ri_args = a,
           ri_output_type = ot, ri_stdin_type = it\<rparr>}"

definition de_run_script :: "value_map \<Rightarrow> run_script_message option" where
  "de_run_script m = do {
     i \<leftarrow> need ''id'' de_u64 m;
     n \<leftarrow> need ''name'' as_str m;
     p \<leftarrow> need ''interperter'' as_str m;
     c \<leftarrow> need ''content'' as_str m;
     a \<leftarrow> need ''args'' de_strs m;
     j \<leftarrow> maybe ''input_json'' Some m;
     it \<leftarrow> maybe ''stdin_type'' de_script_stdin m;
     ot \<leftarrow> maybe ''stdout_type'' de_script_out m;
     et \<leftarrow> maybe ''stderr_type'' de_script_out m;
     Some \<lparr>rs_id = i, rs_name = n, rs_interperter = p, rs_content = c, rs_args = a,
           rs_input_json = j, rs_stdin_type = it, rs_stdout_type = ot, rs_stderr_type = et\<rparr>}"

definition de_data :: "value_map \<Rightarrow> data_message option" where
  "de_data m = do {
     i \<leftarrow> need ''id'' de_u64 m;
     s \<leftarrow> maybe ''source'' de_source m;
     d \<leftarrow> need ''data'' Some m;
     e \<leftarrow> maybe ''eof'' as_bool m;
     Some \<lparr>dm_id = i, dm_source = s, dm_data = d, dm_eof = e\<rparr>}"

definition de_failure :: "value_map \<Rightarrow> failure_message option" where
  "de_failure m = do {
     i \<leftarrow> need ''id'' de_u64 m;
     t \<leftarrow> maybe ''failure_type'' de_failure_type m;
     c \<leftarrow> maybe ''code'' de_i32 m;
     out \<leftarrow> maybe ''stdout'' as_str m;
     err \<leftarrow> maybe ''stderr'' as_str m;
     msg \<leftarrow> maybe ''message'' as_str m;
     Some \<lparr>fm_id = i, fm_failure_type = t, fm_code = c, fm_stdout = out, fm_stderr = err,
           fm_message = msg\<rparr>}"

definition de_success :: "value_map \<Rightarrow> success_message option" where
  "de_success m = do {
     i \<leftarrow> need ''id'' de_u64 m;
     c \<leftarrow> maybe ''code'' de_i32 m;
     d \<leftarrow> maybe ''data'' Some m;
     Some \<lparr>sm_id = i, sm_code = c, sm_data = d\<rparr>}"

definition de_deploy_service :: "value_map \<Rightarrow> deploy_service_message option" where
  "de_deploy_service m = do {
     i \<leftarrow> need ''id'' de_u64 m;
     im \<leftarrow> maybe ''image'' as_str m;
     d \<leftarrow> need ''description'' as_str m;
     a \<leftarrow> maybe ''docker_auth'' as_str m;
     e \<leftarrow> (case obj_get ''extra_env'' m of None \<Rightarrow> Some [] | Some j \<Rightarrow> de_env j);
     u \<leftarrow> maybe ''user'' as_str m;
     Some \<lparr>ds_id = i, ds_image = im, ds_description = d, ds_docker_auth = a, ds_extra_env = e,
           ds_user = u\<rparr>}"

definition de_command_spawn :: "value_map \<Rightarrow> command_spawn_message option" where
  "de_command_spawn m = do {
     i \<leftarrow> need ''id'' de_u64 m;
     c \<leftarrow> need ''command_id'' de_u64 m;
     p \<leftarrow> need ''program'' as_str m;
     a \<leftarrow> need ''args'' de_strs m;
     e \<leftarrow> maybe ''env'' de_env m;
     d \<leftarrow> maybe ''cwd'' as_str m;
     f0 \<leftarrow> need ''forward_stdin'' as_bool m;
     f1 \<leftarrow> need ''forward_stdout'' as_bool m;
     f2 \<leftarrow> need ''forward_stderr'' as_bool m;
     Some \<lparr>cs_id = i, cs_command_id = c, cs_program = p, cs_args = a, cs_env = e, cs_cwd = d,
           cs_forward_stdin = f0, cs_forward_stdout = f1, cs_forward_stderr = f2\<rparr>}"

definition hc_variant :: "string \<Rightarrow> value_map \<Rightarrow> host_client_message option" where
  "hc_variant t m =
     (if t = ''run_instant'' then map_option HcRunInstant (de_run_instant m)
      else if t = ''run_script'' then map_option HcRunScript (de_run_script m)
      else if t = ''ping'' then map_option HcPing (need ''id'' de_u64 m)
      else if t = ''kill'' then map_option HcKill (need ''id'' de_u64 m)
      else if t = ''data'' then map_option HcData (de_data m)
      else if t = ''deploy_service'' then map_option HcDeployService (de_deploy_service m)
      else if t = ''read_file'' then do {
        i \<leftarrow> need ''id'' de_u64 m; p \<leftarrow> need ''path'' as_str m; Some (HcReadFile i p)}
      else if t = ''write_file'' then do {
        i \<leftarrow> need ''id'' de_u64 m; p \<leftarrow> need ''path'' as_str m; c \<leftarrow> need ''content'' as_str m;
        md \<leftarrow> maybe ''mode'' de_u32 m; Some (HcWriteFile i p c md)}
      else if t = ''socket_connect'' then do {
        i \<leftarrow> need ''id'' de_u64 m; s \<leftarrow> need ''socket_id'' de_u64 m; d \<leftarrow> need ''dst'' as_str m;
        Some (HcSocketConnect i s d)}
      else if t = ''socket_close'' then do {
        i \<leftarrow> need ''id'' de_u64 m; s \<leftarrow> need ''socket_id'' de_u64 m; Some (HcSocketClose i s)}
      else if t = ''socket_send'' then do {
        i \<leftarrow> need ''id'' de_u64 m; s \<leftarrow> need ''socket_id'' de_u64 m; d \<leftarrow> maybe ''data'' as_str m;
        Some (HcSocketSend i s d)}
      else if t = ''command_spawn'' then map_option HcCommandSpawn (de_command_spawn m)
      else if t = ''command_stdin'' then do {
        i \<leftarrow> need ''id'' de_u64 m; c \<leftarrow> need ''command_id'' de_u64 m; d \<leftarrow> maybe ''data'' as_str m;
        Some (HcCommandStdin i c d)}
      else if t = ''command_signal'' then do {
        i \<leftarrow> need ''id'' de_u64 m; c \<leftarrow> need ''command_id'' de_u64 m; s \<leftarrow> need ''signal'' de_i32 m;
        Some (HcCommandSignal i c s)}
      else None)"

definition ch_variant :: "string \<Rightarrow> value_map \<Rightarrow> client_host_message option" where
  "ch_variant t m =
     (if t = ''auth'' then do {
        h \<leftarrow> need ''hostname'' as_str m; p \<leftarrow> need ''password'' as_str m; Some (ChAuth h p)}
      else if t = ''pong'' then map_option ChPong (need ''id'' de_u64 m)
      else if t = ''failure'' then map_option ChFailure (de_failure m)
      else if t = ''success'' then map_option ChSuccess (de_success m)
      else if t = ''data'' then map_option ChData (de_data m)
      else if t = ''read_file_result'' then do {
        i \<leftarrow> need ''id'' de_u64 m; c \<leftarrow> need ''content'' as_str m; Some (ChReadFileResult i c)}
      else if t = ''socket_recv'' then do {
        s \<leftarrow> need ''socket_id'' de_u64 m; d \<leftarrow> maybe ''data'' as_str m; Some (ChSocketRecv s d)}
      else if t = ''command_stdout'' then do {
        c \<leftarrow> need ''command_id'' de_u64 m; d \<leftarrow> maybe ''data'' as_str m; Some (ChCommandStdout c d)}
      else if t = ''command_stderr'' then do {
        c \<leftarrow> need ''command_id'' de_u64 m; d \<leftarrow> maybe ''data'' as_str m; Some (ChCommandStderr c d)}
      else if t = ''command_finished'' then do {
        c \<leftarrow> need ''command_id'' de_u64 m; code \<leftarrow> need ''code'' de_i32 m;
        sg \<leftarrow> maybe ''signal'' de_i32 m; Some (ChCommandFinished c code sg)}
      else None)"

definition untagged :: "(string \<Rightarrow> value_map \<Rightarrow> 'a option) \<Rightarrow> json \<Rightarrow> 'a option" where
  "untagged variant j = do { m \<leftarrow> as_object j; t \<leftarrow> need ''type'' as_str m; variant t m }"

definition hc_of_json :: "json \<Rightarrow> host_client_message option" where
  "hc_of_json = untagged hc_variant"

definition ch_of_json :: "json \<Rightarrow> client_host_message option" where
  "ch_of_json = untagged ch_variant"

section \<open>What is read of what was written\<close>

lemma de_u64_json [simp]: "de_u64 (json_u64 w) = Some w"
  by (simp add: de_u64_def json_u64_def)

lemma de_u32_json [simp]: "de_u32 (json_u32 w) = Some w"
  using unsigned_less [of w] by (simp add: de_u32_def json_u32_def)

lemma de_i32_json [simp]: "de_i32 (json_i32 w) = Some w"
  using sint_ge [of w] sint_lt [of w] by (simp add: de_i32_def json_i32_def)

lemma json_num_not_null [simp]: "json_u64 a \<noteq> JNull" "json_u32 b \<noteq> JNull" "json_i32 c \<noteq> JNull"
  by (simp_all add: json_u64_def json_u32_def json_i32_def)

lemma de_strs_json [simp]: "de_strs (json_strs ss) = Some ss"
  unfolding json_strs_def by (induction ss) simp_all

lemma de_env_json [simp]: "de_env (json_env e) = Some e"
  unfolding json_env_def by (induction e) auto

lemma json_env_not_null [simp]: "json_env e \<noteq> JNull"
  by (simp add: json_env_def)

lemma de_enums_json [simp]:
  "de_instant_output (json_instant_output a) = Some a"
  "de_instant_stdin (json_instant_stdin b) = Some b"
  "de_script_stdin (json_script_stdin c) = Some c"
  "de_script_out (json_script_out d) = Some d"
  "de_source (json_source e) = Some e"
  "de_failure_type (json_failure_type f) = Some f"
proof -
  note defs = de_enum_def de_instant_output_def de_instant_stdin_def de_script_stdin_def
    de_script_out_def de_source_def de_failure_type_def
  show "de_instant_output (json_instant_output a) = Some a" by (cases a) (simp_all add: defs)
  show "de_instant_stdin (json_instant_stdin b) = Some b" by (cases b) (simp add: defs)
  show "de_script_stdin (json_script_stdin c) = Some c" by (cases c) (simp_all add: defs)
  show "de_script_out (json_script_out d) = Some d" by (cases d) (simp_all add: defs)
  show "de_source (json_source e) = Some e" by (cases e) (simp_all add: defs)
  show "de_failure_type (json_failure_type f) = Some f" by (cases f) (simp_all add: defs)
qed

lemma json_enums_not_null [simp]:
  "json_script_stdin c \<noteq> JNull" "json_script_out d \<noteq> JNull"
  "json_source e \<noteq> JNull" "json_failure_type f \<noteq> JNull"
proof -
  show "json_script_stdin c \<noteq> JNull" by (cases c) simp_all
  show "json_script_out d \<noteq> JNull" by (cases d) simp_all
  show "json_source e \<noteq> JNull" by (cases e) simp_all
  show "json_failure_type f \<noteq> JNull" by (cases f) simp_all
qed

text \<open>Looking a field up in an object that is written field by field.\<close>

definition or_else :: "'a option \<Rightarrow> 'a option \<Rightarrow> 'a option" where
  "or_else x y = (case x of None \<Rightarrow> y | Some v \<Rightarrow> Some v)"

lemma or_else_None [simp]: "or_else x None = x"
  by (simp add: or_else_def split: option.split)

lemma written_get_simps [simp]:
  "obj_get k [] = None"
  "obj_get k ((k', v) # m) = (if k = k' then Some v else obj_get k m)"
  "obj_get k (skip_none k' ser x @ m) =
     (if k = k' then or_else (map_option ser x) (obj_get k m) else obj_get k m)"
  "obj_get k (if b then m else m') = (if b then obj_get k m else obj_get k m')"
  "obj_get k ((if b then m else m') @ m'') = (if b then obj_get k (m @ m'') else obj_get k (m' @ m''))"
  by (simp_all add: obj_get_def skip_none_def or_else_def split: option.split)

lemma obj_get_skip_none [simp]:
  "obj_get k (skip_none k' ser x) = (if k = k' then map_option ser x else None)"
  using written_get_simps(3) [of k k' ser x "[]"] by simp

text \<open>A reader and a writer that belong together.\<close>

definition reads :: "(json \<Rightarrow> 'a option) \<Rightarrow> ('a \<Rightarrow> json) \<Rightarrow> bool" where
  "reads de ser \<longleftrightarrow> (\<forall>v. de (ser v) = Some v \<and> ser v \<noteq> JNull)"

lemma reads_facts:
  "reads as_str JString" "reads as_bool JBool" "reads de_i32 json_i32" "reads de_u32 json_u32"
  "reads de_env json_env" "reads de_script_stdin json_script_stdin"
  "reads de_script_out json_script_out" "reads de_source json_source"
  "reads de_failure_type json_failure_type"
  by (simp_all add: reads_def)

lemma maybe_skip_none: "reads de ser \<Longrightarrow> obj_get k m = map_option ser x \<Longrightarrow> maybe k de m = Some x"
  by (cases x) (auto simp: reads_def maybe_def)

lemma maybe_null_none:
  "reads de ser \<Longrightarrow> obj_get k m = Some (null_none ser x) \<Longrightarrow> maybe k de m = Some x"
  by (cases x) (auto simp: reads_def maybe_def null_none_def)

text \<open>An optional value that is null is read as none.\<close>

definition non_null :: "json option \<Rightarrow> json option" where
  "non_null x = (if x = Some JNull then None else x)"

lemma maybe_value: "obj_get k m = x \<Longrightarrow> maybe k Some m = Some (non_null x)"
  by (cases x) (auto simp: maybe_def non_null_def)

fun hc_norm :: "host_client_message \<Rightarrow> host_client_message" where
  "hc_norm (HcRunScript r) = HcRunScript (r\<lparr>rs_input_json := non_null (rs_input_json r)\<rparr>)"
| "hc_norm m = m"

fun ch_norm :: "client_host_message \<Rightarrow> client_host_message" where
  "ch_norm (ChSuccess s) = ChSuccess (s\<lparr>sm_data := non_null (sm_data s)\<rparr>)"
| "ch_norm m = m"

lemma de_run_instant_json: "de_run_instant ((''type'', t) # json_run_instant r) = Some r"
  by (simp add: de_run_instant_def json_run_instant_def need_def)

lemma de_run_script_json:
  "de_run_script ((''type'', t) # json_run_script r) = Some (r\<lparr>rs_input_json := non_null (rs_input_json r)\<rparr>)"
proof -
  let ?m = "(''type'', t) # json_run_script r"
  have "maybe ''input_json'' Some ?m = Some (non_null (rs_input_json r))"
    "maybe ''stdin_type'' de_script_stdin ?m = Some (rs_stdin_type r)"
    "maybe ''stdout_type'' de_script_out ?m = Some (rs_stdout_type r)"
    "maybe ''stderr_type'' de_script_out ?m = Some (rs_stderr_type r)"
    by (rule maybe_value, simp add: json_run_script_def option.map_id)
      ((rule maybe_skip_none, rule reads_facts, simp add: json_run_script_def)+)
  then show ?thesis by (simp add: de_run_script_def need_def) (simp add: json_run_script_def)
qed

lemma de_data_json: "de_data ((''type'', t) # json_data d) = Some d"
proof -
  let ?m = "(''type'', t) # json_data d"
  have "maybe ''source'' de_source ?m = Some (dm_source d)"
    by (rule maybe_skip_none, rule reads_facts, simp add: json_data_def)+
  moreover have "maybe ''eof'' as_bool ?m = Some (dm_eof d)"
    by (rule maybe_null_none, rule reads_facts, simp add: json_data_def)
  ultimately show ?thesis by (simp add: de_data_def need_def) (simp add: json_data_def)
qed

lemma de_failure_json: "de_failure ((''type'', t) # json_failure f) = Some f"
proof -
  let ?m = "(''type'', t) # json_failure f"
  have "maybe ''failure_type'' de_failure_type ?m = Some (fm_failure_type f)"
    "maybe ''code'' de_i32 ?m = Some (fm_code f)"
    "maybe ''stdout'' as_str ?m = Some (fm_stdout f)"
    "maybe ''stderr'' as_str ?m = Some (fm_stderr f)"
    "maybe ''message'' as_str ?m = Some (fm_message f)"
    by (rule maybe_skip_none, rule reads_facts, simp add: json_failure_def)+
  then show ?thesis by (simp add: de_failure_def need_def) (simp add: json_failure_def)
qed

lemma de_success_json:
  "de_success ((''type'', t) # json_success s) = Some (s\<lparr>sm_data := non_null (sm_data s)\<rparr>)"
proof -
  let ?m = "(''type'', t) # json_success s"
  have "maybe ''data'' Some ?m = Some (non_null (sm_data s))"
    "maybe ''code'' de_i32 ?m = Some (sm_code s)"
    by (rule maybe_value, simp add: json_success_def option.map_id)
      (rule maybe_skip_none, rule reads_facts, simp add: json_success_def)
  then show ?thesis by (simp add: de_success_def need_def) (simp add: json_success_def)
qed

lemma de_deploy_service_json: "de_deploy_service ((''type'', t) # json_deploy_service d) = Some d"
proof -
  let ?m = "(''type'', t) # json_deploy_service d"
  have "maybe ''image'' as_str ?m = Some (ds_image d)"
    "maybe ''docker_auth'' as_str ?m = Some (ds_docker_auth d)"
    "maybe ''user'' as_str ?m = Some (ds_user d)"
    by (rule maybe_skip_none, rule reads_facts, simp add: json_deploy_service_def)+
  then show ?thesis by (simp add: de_deploy_service_def need_def) (simp add: json_deploy_service_def)
qed

lemma de_command_spawn_json: "de_command_spawn ((''type'', t) # json_command_spawn c) = Some c"
proof -
  let ?m = "(''type'', t) # json_command_spawn c"
  have "maybe ''env'' de_env ?m = Some (cs_env c)" "maybe ''cwd'' as_str ?m = Some (cs_cwd c)"
    by (rule maybe_skip_none, rule reads_facts, simp add: json_command_spawn_def)+
  then show ?thesis by (simp add: de_command_spawn_def need_def) (simp add: json_command_spawn_def)
qed

lemmas maybe_null = reads_facts [THEN maybe_null_none]

lemmas read_written = de_run_instant_json de_run_script_json de_data_json de_failure_json
  de_success_json de_deploy_service_json de_command_spawn_json

lemma hc_read_written: "hc_of_json (hc_to_json m) = Some (hc_norm m)"
  by (cases m) (simp_all add: hc_of_json_def untagged_def tagged_def hc_variant_def need_def
      read_written maybe_null)

lemma ch_read_written: "ch_of_json (ch_to_json m) = Some (ch_norm m)"
  by (cases m) (simp_all add: ch_of_json_def untagged_def tagged_def ch_variant_def need_def
      read_written maybe_null)

text \<open>Further result: every message is read back as it was written, but for one value: data of a script and of a
  successful job that is the JSON null comes back as no data. What is read is written and read
  unchanged.\<close>

theorem messages_roundtrip:
  "hc_of_json (hc_to_json m) = Some (hc_norm m) \<and> ch_of_json (ch_to_json n) = Some (ch_norm n)
   \<and> hc_of_json (hc_to_json (hc_norm m)) = Some (hc_norm m)
   \<and> ch_of_json (ch_to_json (ch_norm n)) = Some (ch_norm n)"
proof -
  have "hc_norm (hc_norm m) = hc_norm m" by (cases m) (simp_all add: non_null_def)
  moreover have "ch_norm (ch_norm n) = ch_norm n" by (cases n) (simp_all add: non_null_def)
  ultimately show ?thesis using hc_read_written ch_read_written by metis
qed

lemma ch_norm_job_id [simp]: "ch_job_id (ch_norm m) = ch_job_id m"
  by (cases m) simp_all

end
