(* ===== verification/Host_Auth.thy ===== *)
theory Host_Auth
  imports Client_Message Auth
begin

text \<open>
  Which hosts may connect (\<open>auth_client\<close> and the update of \<open>lastSeen\<close> in \<open>handle_messages\<close> of
  \<open>src/bin/server/hostclient.rs\<close>). Reading the row of
  a host and writing it back are two steps, between which other requests may change the table.
  The password hash and the text of a JSON value are parameters; instants count nanoseconds,
  the time of day seconds.
\<close>

section \<open>Authentication\<close>

datatype host_auth_error =
    ExpectedAuth | HostRateLimited int | UnknownHost | InvalidHostContent string | MissingPassword
  | PasswordCheck auth_error | InvalidHostPassword | HostDisabled | HostNowDisabled

record host_env =
  hv_auth :: auth_env
  hv_parse :: "string \<Rightarrow> string + value_map"
  hv_print :: "value_map \<Rightarrow> string"

text \<open>What the first half decides: to disable the host, or to let it in, with the content to write.\<close>

datatype host_decision = DisableHost obj_row value_map | AdmitHost obj_row value_map

definition MAX_IDLE_SECS :: int where "MAX_IDLE_SECS = 7 * 24 * 60 * 60"

text \<open>The difference of two \<open>i64\<close>, which wraps in a release build.\<close>

definition i64_sub :: "int \<Rightarrow> int \<Rightarrow> int" where
  "i64_sub a b = (a - b + 2 ^ 63) mod 2 ^ 64 - 2 ^ 63"

definition host_row :: "string \<Rightarrow> objects_db \<Rightarrow> obj_row option" where
  "host_row hostname db =
     List.find (\<lambda>r. r_type r = HOST_ID \<and> r_name r = hostname \<and> r_newest r) (od_rows db)"

definition idle_decision :: "int \<Rightarrow> obj_row \<Rightarrow> value_map \<Rightarrow> host_auth_error + host_decision" where
  "idle_decision now r content =
     (if opt_or (Option.bind (obj_get ''connectionDisabled'' content) as_bool) False
      then Inl HostDisabled
      else case Option.bind (obj_get ''lastSeen'' content) as_i64 of
        Some ls \<Rightarrow>
          if i64_sub now ls > MAX_IDLE_SECS
          then Inr (DisableHost r (obj_insert ''connectionDisabled'' (JBool True) content))
          else Inr (AdmitHost r (obj_insert ''lastSeen'' (JNumber (I64 now)) content))
      | None \<Rightarrow> Inr (AdmitHost r (obj_insert ''lastSeen'' (JNumber (I64 now)) content)))"

definition auth_read ::
  "host_env \<Rightarrow> string \<Rightarrow> client_host_message \<Rightarrow> attempts \<Rightarrow> objects_db
    \<Rightarrow> (host_auth_error + host_decision) \<times> attempts" where
  "auth_read env ip msg attempts db =
     (case msg of
        ChAuth hostname password \<Rightarrow>
          (case rate_limit (ae_instant (hv_auth env)) ip attempts of
             Some secs \<Rightarrow> (Inl (HostRateLimited secs), attempts)
           | None \<Rightarrow>
               (case host_row hostname db of
                  None \<Rightarrow> (Inl UnknownHost, record_failed (ae_instant (hv_auth env)) ip attempts)
                | Some r \<Rightarrow>
                    (case hv_parse env (r_content r) of
                       Inl e \<Rightarrow> (Inl (InvalidHostContent e), attempts)
                     | Inr content \<Rightarrow>
                         (case Option.bind (obj_get ''password'' content) as_str of
                            None \<Rightarrow> (Inl MissingPassword, attempts)
                          | Some hash \<Rightarrow>
                              (case validate_password (hv_auth env) password hash of
                                 Inl e \<Rightarrow> (Inl (PasswordCheck e), attempts)
                               | Inr False \<Rightarrow>
                                   (Inl InvalidHostPassword,
                                    record_failed (ae_instant (hv_auth env)) ip attempts)
                               | Inr True \<Rightarrow>
                                   (idle_decision (ae_now (hv_auth env)) r content, attempts(ip := None)))))))
      | _ \<Rightarrow> (Inl ExpectedAuth, attempts))"

text \<open>\<open>UPDATE `objects` SET `content` = ? WHERE `id` = ? AND `newest`\<close>.\<close>

definition set_content :: "int \<Rightarrow> string \<Rightarrow> obj_row \<Rightarrow> obj_row" where
  "set_content i text r = (if r_id r = i \<and> r_newest r then r\<lparr>r_content := text\<rparr> else r)"

definition update_content :: "int \<Rightarrow> string \<Rightarrow> objects_db \<Rightarrow> objects_db" where
  "update_content i text db = db\<lparr>od_rows := map (set_content i text) (od_rows db)\<rparr>"

record disabled_object =
  do_id :: int
  do_name :: string
  do_category :: string
  do_content :: value_map
  do_version :: int
  do_comment :: string
  do_author :: "string option"

definition auth_write ::
  "host_env \<Rightarrow> host_decision \<Rightarrow> objects_db
    \<Rightarrow> (host_auth_error + int \<times> string) \<times> disabled_object list \<times> objects_db" where
  "auth_write env d db =
     (case d of
        DisableHost r content \<Rightarrow>
          (Inl HostNowDisabled,
           [\<lparr>do_id = r_id r, do_name = r_name r, do_category = opt_or (r_category r) '''',
             do_content = content, do_version = r_version r, do_comment = r_comment r,
             do_author = r_author r\<rparr>],
           update_content (r_id r) (hv_print env content) db)
      | AdmitHost r content \<Rightarrow>
          (Inr (r_id r, r_name r), [], update_content (r_id r) (hv_print env content) db))"

definition auth_client ::
  "host_env \<Rightarrow> string \<Rightarrow> client_host_message \<Rightarrow> attempts \<times> objects_db
    \<Rightarrow> (host_auth_error + int \<times> string) \<times> disabled_object list \<times> attempts \<times> objects_db" where
  "auth_client env ip msg s =
     (case auth_read env ip msg (fst s) (snd s) of
        (Inl e, attempts) \<Rightarrow> (Inl e, [], attempts, snd s)
      | (Inr d, attempts) \<Rightarrow>
          (case auth_write env d (snd s) of (res, sent, db) \<Rightarrow> (res, sent, attempts, db)))"

text \<open>The daily update of \<open>lastSeen\<close>, in the same two steps; a failure is only logged.\<close>

definition last_seen_read :: "host_env \<Rightarrow> int \<Rightarrow> objects_db \<Rightarrow> string option" where
  "last_seen_read env i db =
     (case List.find (\<lambda>r. r_id r = i \<and> r_newest r) (od_rows db) of
        None \<Rightarrow> None
      | Some r \<Rightarrow>
          (case hv_parse env (r_content r) of
             Inl _ \<Rightarrow> None
           | Inr content \<Rightarrow>
               Some (hv_print env (obj_insert ''lastSeen'' (JNumber (I64 (ae_now (hv_auth env)))) content))))"

definition last_seen_write :: "int \<Rightarrow> string option \<Rightarrow> objects_db \<Rightarrow> objects_db" where
  "last_seen_write i text db = (case text of None \<Rightarrow> db | Some t \<Rightarrow> update_content i t db)"

section \<open>Who is admitted\<close>

lemma idle_decision_Inr:
  "idle_decision now r content = Inr d \<Longrightarrow>
     (case d of
        DisableHost r' c \<Rightarrow> r' = r \<and> c = obj_insert ''connectionDisabled'' (JBool True) content
          \<and> (\<exists>ls. Option.bind (obj_get ''lastSeen'' content) as_i64 = Some ls \<and> i64_sub now ls > MAX_IDLE_SECS)
      | AdmitHost r' c \<Rightarrow> r' = r \<and> c = obj_insert ''lastSeen'' (JNumber (I64 now)) content
          \<and> Option.bind (obj_get ''connectionDisabled'' content) as_bool \<noteq> Some True
          \<and> (\<forall>ls. Option.bind (obj_get ''lastSeen'' content) as_i64 = Some ls \<longrightarrow> i64_sub now ls \<le> MAX_IDLE_SECS))"
  by (auto simp: idle_decision_def opt_or_def split: option.splits if_splits)

lemma auth_read_Inr:
  assumes "auth_read env ip msg attempts db = (Inr d, attempts')"
  obtains hostname password r content hash where "msg = ChAuth hostname password"
    "rate_limit (ae_instant (hv_auth env)) ip attempts = None" "host_row hostname db = Some r"
    "hv_parse env (r_content r) = Inr content" "obj_get ''password'' content = Some (JString hash)"
    "validate_password (hv_auth env) password hash = Inr True" "attempts' = attempts(ip := None)"
    "idle_decision (ae_now (hv_auth env)) r content = Inr d"
  using assms unfolding auth_read_def
  by (auto split: client_host_message.splits option.splits sum.splits bool.splits
      elim!: as_str.elims simp: bind_eq_Some_conv)

lemma host_row_Some:
  "host_row hostname db = Some r \<Longrightarrow>
     r \<in> set (od_rows db) \<and> r_type r = HOST_ID \<and> r_name r = hostname \<and> r_newest r"
  unfolding host_row_def by (auto simp: find_Some_iff)

text \<open>Further result: who is admitted. A host is let in only if its address is not held back after failed attempts,
  a current host object has its name, the password it sends is the one of that object, the
  connection is not disabled, and it was last seen at most seven days ago, if ever. Then the
  content of that object is as before but for the time it was seen, no other object changes,
  and the address is no longer held back.\<close>

theorem host_admitted:
  assumes "auth_client env ip msg (attempts, db) = (Inr (i, hostname), sent, attempts', db')"
  shows "\<exists>password r content hash. msg = ChAuth hostname password
    \<and> rate_limit (ae_instant (hv_auth env)) ip attempts = None
    \<and> r \<in> set (od_rows db) \<and> r_type r = HOST_ID \<and> r_name r = hostname \<and> r_newest r \<and> r_id r = i
    \<and> hv_parse env (r_content r) = Inr content \<and> obj_get ''password'' content = Some (JString hash)
    \<and> validate_password (hv_auth env) password hash = Inr True
    \<and> obj_get ''connectionDisabled'' content \<noteq> Some (JBool True)
    \<and> (\<forall>ls. Option.bind (obj_get ''lastSeen'' content) as_i64 = Some ls
         \<longrightarrow> i64_sub (ae_now (hv_auth env)) ls \<le> MAX_IDLE_SECS)
    \<and> attempts' = attempts(ip := None) \<and> sent = []
    \<and> db' = update_content i (hv_print env
         (obj_insert ''lastSeen'' (JNumber (I64 (ae_now (hv_auth env)))) content)) db"
proof -
  from assms obtain d where d: "auth_read env ip msg attempts db = (Inr d, attempts')"
      "auth_write env d db = (Inr (i, hostname), sent, db')"
    by (auto simp: auth_client_def split: sum.splits prod.splits)
  from d(2) obtain r c where r: "d = AdmitHost r c" "i = r_id r" "hostname = r_name r" "sent = []"
      "db' = update_content i (hv_print env c) db"
    by (cases d) (auto simp: auth_write_def)
  from d(1) show ?thesis
  proof (cases rule: auth_read_Inr)
    case (1 hostname' password r' content hash)
    from idle_decision_Inr [OF 1(8)] r(1)
    have w: "r = r'" "c = obj_insert ''lastSeen'' (JNumber (I64 (ae_now (hv_auth env)))) content"
        "Option.bind (obj_get ''connectionDisabled'' content) as_bool \<noteq> Some True"
        "\<forall>ls. Option.bind (obj_get ''lastSeen'' content) as_i64 = Some ls
           \<longrightarrow> i64_sub (ae_now (hv_auth env)) ls \<le> MAX_IDLE_SECS"
      by simp_all
    then have "obj_get ''connectionDisabled'' content \<noteq> Some (JBool True)" by auto
    with host_row_Some [OF 1(3)] 1 w r show ?thesis by metis
  qed
qed

section \<open>Writing back\<close>

lemma find_map_cong:
  "(\<And>x. P (f x) = P x) \<Longrightarrow> List.find P (map f xs) = map_option f (List.find P xs)"
  by (induction xs) auto

lemma set_content_simps [simp]:
  "r_id (set_content i t r) = r_id r" "r_version (set_content i t r) = r_version r"
  "r_newest (set_content i t r) = r_newest r" "r_type (set_content i t r) = r_type r"
  "r_name (set_content i t r) = r_name r"
  by (simp_all add: set_content_def)

lemma update_content_current:
  "current (update_content i t db) = (current db)(i := map_option (\<lambda>r. r\<lparr>r_content := t\<rparr>) (current db i))"
proof
  fix j
  have "current (update_content i t db) j = map_option (set_content i t) (current db j)"
    unfolding current_def update_content_def by (simp add: find_map_cong)
  moreover have "set_content i t r = (if j = i then r\<lparr>r_content := t\<rparr> else r)" if "current db j = Some r" for r
    using that by (auto simp: current_def find_Some_iff set_content_def)
  ultimately show "current (update_content i t db) j
      = ((current db)(i := map_option (\<lambda>r. r\<lparr>r_content := t\<rparr>) (current db i))) j"
    by (cases "current db j") auto
qed

lemma update_content_ok: "objects_ok (update_content i t db) = objects_ok db"
  unfolding objects_ok_def update_content_def by (simp add: comp_def)

text \<open>Further result: a save can be lost. When a new version of a host is saved between the moment at which its
  row is read for a connection and the moment at which the time it was seen is written back,
  the new version keeps its number, name and author but gets the content read before: the
  saved content is in no row of the object any more. The same holds of the daily update.\<close>

theorem host_save_lost:
  assumes "objects_ok db" and "auth_read env ip msg attempts db = (Inr (AdmitHost r c), attempts')"
    and "change_object now (r_id r) (Some ob) author db = (Inr (j, v), db1)"
    and "0 \<le> r_id r" and "auth_write env (AdmitHost r c) db1 = (res, sent, db2)"
  shows "current db2 (r_id r) = Some ((new_row now (r_id r) v author ob)\<lparr>r_content := hv_print env c\<rparr>)
    \<and> (\<forall>row \<in> set (od_rows db2). r_id row = r_id r \<and> r_version row = v \<longrightarrow> r_content row = hv_print env c)
    \<and> (\<exists>content. hv_parse env (r_content r) = Inr content
         \<and> c = obj_insert ''lastSeen'' (JNumber (I64 (ae_now (hv_auth env)))) content)"
proof -
  have j: "j = r_id r" and ok1: "objects_ok db1"
    and cur1: "current db1 = (current db)(j := Some (new_row now j v author ob))"
    using change_object_effect [OF assms(1,3)] assms(4) by simp_all
  have db2: "db2 = update_content (r_id r) (hv_print env c) db1" using assms(5) by (simp add: auth_write_def)
  have cur2: "current db2 (r_id r) = Some ((new_row now (r_id r) v author ob)\<lparr>r_content := hv_print env c\<rparr>)"
    using cur1 j by (simp add: db2 update_content_current)
  moreover have "r_content row = hv_print env c"
    if row: "row \<in> set (od_rows db2)" "r_id row = r_id r" "r_version row = v" for row
  proof -
    let ?new = "(new_row now (r_id r) v author ob)\<lparr>r_content := hv_print env c\<rparr>"
    have "?new \<in> set (od_rows db2)" using cur2 by (auto simp: current_def find_Some_iff)
    moreover have "distinct (map (\<lambda>r. (r_id r, r_version r)) (od_rows db2))"
      using ok1 db2 update_content_ok [of "r_id r" "hv_print env c" db1] by (simp add: objects_ok_def)
    ultimately have "row = ?new" using row by (auto simp: distinct_map inj_on_def new_row_def)
    then show ?thesis by simp
  qed
  moreover from assms(2) have "\<exists>content. hv_parse env (r_content r) = Inr content
      \<and> c = obj_insert ''lastSeen'' (JNumber (I64 (ae_now (hv_auth env)))) content"
    by (rule auth_read_Inr) (use idle_decision_Inr in fastforce)
  ultimately show ?thesis by blast
qed

lemma auth_read_not_now: "fst (auth_read env ip msg attempts db) \<noteq> Inl HostNowDisabled"
  by (simp add: auth_read_def idle_decision_def
      split: client_host_message.split option.split sum.split bool.split)

lemma auth_read_disable:
  assumes "auth_read env ip msg attempts db = (Inr (DisableHost r c), attempts')"
  shows "r \<in> set (od_rows db) \<and> r_newest r \<and> r_type r = HOST_ID
    \<and> obj_get ''connectionDisabled'' c = Some (JBool True)"
  using assms
proof (rule auth_read_Inr)
  fix hostname r' content
  assume h: "host_row hostname db = Some r'"
    and "idle_decision (ae_now (hv_auth env)) r' content = Inr (DisableHost r c)"
  from idle_decision_Inr [OF this(2)]
  have "r = r'" "c = obj_insert ''connectionDisabled'' (JBool True) content" by simp_all
  with host_row_Some [OF h] show ?thesis by (simp add: obj.get_ins)
qed

text \<open>Further result: a host that was away for more than a week is shut out. Its next connection is refused even
  with the right password, its object is marked as disabled for every client to see, and from
  then on it is refused whenever and from wherever it comes, as long as the object stays so.\<close>

theorem idle_host_disabled:
  assumes "auth_client env ip msg (attempts, db) = (Inl HostNowDisabled, sent, attempts', db')"
    and "\<forall>ob \<in> set sent. hv_parse env (hv_print env (do_content ob)) = Inr (do_content ob)"
  shows "\<exists>r c. r \<in> set (od_rows db) \<and> r_newest r \<and> r_type r = HOST_ID \<and> map do_content sent = [c]
    \<and> db' = update_content (r_id r) (hv_print env c) db
    \<and> obj_get ''connectionDisabled'' c = Some (JBool True)
    \<and> (\<forall>env' ip' pw as db''. hv_parse env' = hv_parse env
         \<and> host_row (r_name r) db'' = Some (r\<lparr>r_content := hv_print env c\<rparr>)
         \<longrightarrow> (\<exists>e as'. auth_client env' ip' (ChAuth (r_name r) pw) (as, db'') = (Inl e, [], as', db'')))"
proof -
  from assms(1) obtain d where d: "auth_read env ip msg attempts db = (Inr d, attempts')"
      "auth_write env d db = (Inl HostNowDisabled, sent, db')"
    using auth_read_not_now [of env ip msg attempts db]
    by (auto simp: auth_client_def split: sum.splits prod.splits)
  from d(2) obtain r c where r: "d = DisableHost r c" "map do_content sent = [c]"
      "db' = update_content (r_id r) (hv_print env c) db"
    by (cases d) (auto simp: auth_write_def)
  with assms(2) have c: "hv_parse env (hv_print env c) = Inr c" by (cases sent) auto
  have dis: "r \<in> set (od_rows db) \<and> r_newest r \<and> r_type r = HOST_ID
      \<and> obj_get ''connectionDisabled'' c = Some (JBool True)"
    by (rule auth_read_disable [OF d(1) [unfolded r(1)]])
  have later: "\<exists>e as'. auth_client env' ip' (ChAuth (r_name r) pw) (as, db'') = (Inl e, [], as', db'')"
    if "hv_parse env' = hv_parse env" "host_row (r_name r) db'' = Some (r\<lparr>r_content := hv_print env c\<rparr>)"
    for env' ip' pw as db''
    using that c dis
    by (auto simp: auth_client_def auth_read_def idle_decision_def split: option.split sum.split bool.split)
  show ?thesis
    by (intro exI [of _ r] exI [of _ c]) (use dis later r in blast)
qed

text \<open>The witnesses: a host with the password \<open>pw\<close>, seen at the time in its content.\<close>

definition seen_content :: "int \<Rightarrow> value_map" where
  "seen_content t = [(''password'', JString ''h''), (''lastSeen'', JNumber (I64 t))]"

definition demo_print :: "value_map \<Rightarrow> string" where
  "demo_print m =
     (if m = seen_content 1000000 then ''now''
      else if m = obj_insert ''connectionDisabled'' (JBool True) (seen_content 5) then ''off'' else ''other'')"

definition demo_parse :: "string \<Rightarrow> string + value_map" where
  "demo_parse s =
     (if s = ''old'' then Inr (seen_content 5)
      else if s = ''week'' then Inr (seen_content 900000)
      else if s = ''now'' then Inr (seen_content 1000000)
      else if s = ''off'' then Inr (obj_insert ''connectionDisabled'' (JBool True) (seen_content 5))
      else Inl ''bad'')"

definition demo_host_env :: host_env where
  "demo_host_env = \<lparr>hv_auth = demo_auth_env, hv_parse = demo_parse, hv_print = demo_print\<rparr>"

definition host_obj :: "string \<Rightarrow> obj_row" where
  "host_obj content =
     \<lparr>r_id = 7, r_version = 3, r_type = HOST_ID, r_name = ''web'', r_content = content, r_time = 0,
      r_newest = True, r_category = None, r_comment = '''', r_author = None\<rparr>"

definition host_db :: "string \<Rightarrow> objects_db" where
  "host_db content = \<lparr>od_rows = [host_obj content], od_next = 10000\<rparr>"

lemma demo_password: "validate_password demo_auth_env ''pw'' ''h'' = Inr True"
  by (simp add: validate_password_def demo_auth_env_def cost_time_compare_eq)

lemmas demo_host_defs = demo_host_env_def demo_parse_def demo_print_def seen_content_def host_db_def
  host_obj_def host_row_def idle_decision_def rate_limit_def demo_password obj_get_def MAX_IDLE_SECS_def
  i64_sub_def opt_or_def

lemma demo_read:
  "auth_read demo_host_env ''ip'' (ChAuth ''web'' ''pw'') Map.empty (host_db ''week'')
     = (Inr (AdmitHost (host_obj ''week'') (seen_content 1000000)), Map.empty)"
  "auth_read demo_host_env ''ip'' (ChAuth ''web'' ''pw'') Map.empty (host_db ''old'')
     = (Inr (DisableHost (host_obj ''old'') (obj_insert ''connectionDisabled'' (JBool True) (seen_content 5))),
        Map.empty)"
  by (simp_all add: auth_read_def demo_host_defs, simp_all add: demo_auth_env_def)

lemma demo_admitted:
  "auth_client demo_host_env ''ip'' (ChAuth ''web'' ''pw'') (Map.empty, host_db ''week'')
     = (Inr (7, ''web''), [], Map.empty, host_db ''now'')"
  by (simp add: auth_client_def demo_read auth_write_def)
    (simp add: demo_host_defs update_content_def set_content_def)

theorem host_admitted_witness:
  "\<exists>db'. auth_client demo_host_env ''ip'' (ChAuth ''web'' ''pw'') (Map.empty, host_db ''week'')
       = (Inr (7, ''web''), [], Map.empty, db')
     \<and> rate_limit 0 ''ip'' Map.empty = None"
  using host_admitted [OF demo_admitted] demo_admitted by (auto simp: demo_host_env_def demo_auth_env_def)

theorem host_save_lost_witness:
  "\<exists>v db1 db2. change_object 9 7 (Some demo_new) ''me'' (host_db ''week'') = (Inr (7, v), db1)
     \<and> db2 = update_content 7 ''now'' db1 \<and> r_content (the (current db2 7)) = ''now''"
proof -
  have ok: "objects_ok (host_db ''week'')" by (simp add: objects_ok_def host_db_def host_obj_def)
  obtain db1 where c: "change_object 9 7 (Some demo_new) ''me'' (host_db ''week'') = (Inr (7, 4), db1)"
    by (simp add: change_object_def next_version_def max_version_def rows_of_def clear_newest_def
        insert_object_def host_db_def host_obj_def)
  let ?d = "AdmitHost (host_obj ''week'') (seen_content 1000000)"
  obtain res sent db2 where w: "auth_write demo_host_env ?d db1 = (res, sent, db2)" by (metis prod_cases3)
  have p: "hv_print demo_host_env (seen_content 1000000) = ''now''"
    by (simp add: demo_host_env_def demo_print_def)
  have "db2 = update_content 7 ''now'' db1" using w p by (simp add: auth_write_def host_obj_def)
  moreover have "current db2 7 = Some ((new_row 9 7 4 ''me'' demo_new)\<lparr>r_content := ''now''\<rparr>)"
    using host_save_lost [OF ok demo_read(1) _ _ w, of 9 demo_new "''me''" 7 4] c p
    by (simp add: host_obj_def)
  ultimately show ?thesis using c by (intro exI [of _ 4] exI [of _ db1] exI [of _ db2]) simp
qed

theorem idle_host_disabled_witness:
  "\<exists>sent db'. auth_client demo_host_env ''ip'' (ChAuth ''web'' ''pw'') (Map.empty, host_db ''old'')
       = (Inl HostNowDisabled, sent, Map.empty, db') \<and> length sent = 1"
proof -
  obtain sent db' where a: "auth_client demo_host_env ''ip'' (ChAuth ''web'' ''pw'') (Map.empty, host_db ''old'')
       = (Inl HostNowDisabled, sent, Map.empty, db')"
      "map do_content sent = [obj_insert ''connectionDisabled'' (JBool True) (seen_content 5)]"
    by (simp add: auth_client_def demo_read auth_write_def)
  then have "\<forall>ob \<in> set sent. hv_parse demo_host_env (hv_print demo_host_env (do_content ob)) = Inr (do_content ob)"
    by (cases sent) (auto simp: demo_host_env_def demo_print_def demo_parse_def seen_content_def)
  from idle_host_disabled [OF a(1) this] have "\<exists>c. map do_content sent = [c]" by (elim exE conjE) auto
  then have "length sent = 1" by (metis length_map length_Cons list.size(3) One_nat_def)
  with a show ?thesis by blast
qed

end
