(* ===== verification/Host_Clients.thy ===== *)
theory Host_Clients
  imports Client_Message Auth
begin

text \<open>
  A connected host, as the server sees it (\<open>src/bin/server/hostclient.rs\<close>): the framing of the
  messages on the stream, the jobs, responses, sockets and commands an incoming message is
  delivered to, and the pings that notice a dead host. The text of a JSON value, and what comes
  of writing to the stream, are parameters; instants count
  nanoseconds.
\<close>

section \<open>Framing\<close>

text \<open>A message is its JSON text and the byte 0x1e.\<close>

definition SEP :: char where "SEP = CHR 0x1E"

definition framed :: "(json \<Rightarrow> string) \<Rightarrow> json \<Rightarrow> string" where
  "framed to_vec j = to_vec j @ [SEP]"

text \<open>\<open>buf.iter().position\<close> and \<open>advance\<close>: the text before the first separator and what is after.\<close>

fun take_frame :: "string \<Rightarrow> (string \<times> string) option" where
  "take_frame [] = None"
| "take_frame (c # cs) =
     (if c = SEP then Some ([], cs) else map_option (\<lambda>(a, b). (c # a, b)) (take_frame cs))"

lemma take_frame_length: "take_frame buf = Some (a, b) \<Longrightarrow> length b < length buf"
  by (induction buf arbitrary: a) (auto split: if_splits)

text \<open>The loop over the messages of the buffer: those handled, whether all were valid, and the
  rest of the buffer.\<close>

function drain :: "(string \<Rightarrow> 'm option) \<Rightarrow> string \<Rightarrow> 'm list \<times> bool \<times> string" where
  "drain de buf =
     (case take_frame buf of
        None \<Rightarrow> ([], True, buf)
      | Some (a, b) \<Rightarrow>
          (case de a of
             None \<Rightarrow> ([], False, buf)
           | Some m \<Rightarrow> (case drain de b of (ms, ok, rest) \<Rightarrow> (m # ms, ok, rest))))"
  by pat_completeness auto
termination
  by (relation "measure (length \<circ> snd)") (auto dest: take_frame_length)

declare drain.simps [simp del]

text \<open>What is handled of a stream that comes in pieces; an invalid message ends it.\<close>

fun receive :: "(string \<Rightarrow> 'm option) \<Rightarrow> string \<Rightarrow> string list \<Rightarrow> 'm list \<times> bool \<times> string" where
  "receive de buf [] = ([], True, buf)"
| "receive de buf (piece # pieces) =
     (case drain de (buf @ piece) of (ms, ok, rest) \<Rightarrow>
        if ok then (case receive de rest pieces of (ms', ok', rest') \<Rightarrow> (ms @ ms', ok', rest'))
        else (ms, False, rest))"

definition read_message :: "(string \<Rightarrow> json option) \<Rightarrow> string \<Rightarrow> client_host_message option" where
  "read_message from_slice s = Option.bind (from_slice s) ch_of_json"

lemma take_frame_None: "take_frame buf = None \<longleftrightarrow> SEP \<notin> set buf"
  by (induction buf) auto

lemma take_frame_Some: "take_frame buf = Some (a, b) \<longleftrightarrow> buf = a @ SEP # b \<and> SEP \<notin> set a"
proof
  show "take_frame buf = Some (a, b) \<Longrightarrow> buf = a @ SEP # b \<and> SEP \<notin> set a"
  proof (induction buf arbitrary: a)
    case (Cons c cs)
    then show ?case by (cases "c = SEP") auto
  qed simp
next
  assume "buf = a @ SEP # b \<and> SEP \<notin> set a"
  moreover have "SEP \<notin> set a \<Longrightarrow> take_frame (a @ SEP # b) = Some (a, b)" by (induction a) auto
  ultimately show "take_frame buf = Some (a, b)" by blast
qed

lemma drain_None: "SEP \<notin> set buf \<Longrightarrow> drain de buf = ([], True, buf)"
  by (subst drain.simps) (simp add: take_frame_None [THEN iffD2])

lemma drain_Some:
  "SEP \<notin> set a \<Longrightarrow> drain de (a @ SEP # b) =
     (case de a of
        None \<Rightarrow> ([], False, a @ SEP # b)
      | Some m \<Rightarrow> (case drain de b of (ms, ok, rest) \<Rightarrow> (m # ms, ok, rest)))"
  by (subst drain.simps) (simp add: take_frame_Some [THEN iffD2])

lemma drain_induct [case_names None Some]:
  assumes "\<And>buf. SEP \<notin> set buf \<Longrightarrow> P buf"
    and "\<And>a b. SEP \<notin> set a \<Longrightarrow> P b \<Longrightarrow> P (a @ SEP # b)"
  shows "P buf"
proof (induction buf rule: measure_induct_rule [of length])
  case (less buf)
  show ?case
  proof (cases "SEP \<in> set buf")
    case True
    then obtain a b where "buf = a @ SEP # b" "SEP \<notin> set a" by (metis split_list_first)
    with less assms(2) show ?thesis by simp
  qed (rule assms(1))
qed

text \<open>Reading is incremental: draining a part first changes nothing.\<close>

lemma drain_append:
  "drain de (buf @ late) =
     (case drain de buf of (ms, ok, rest) \<Rightarrow>
        if ok then (case drain de (rest @ late) of (ms', ok', r) \<Rightarrow> (ms @ ms', ok', r))
        else (ms, False, rest @ late))"
  by (induction buf rule: drain_induct) (simp_all add: drain_None drain_Some split: prod.split option.split)

lemma drain_rest: "fst (snd (drain de buf)) \<Longrightarrow> SEP \<notin> set (snd (snd (drain de buf)))"
  by (induction buf rule: drain_induct) (auto simp: drain_None drain_Some split: prod.splits option.splits)

text \<open>However the stream is cut, what is handled of it is what draining the whole would handle.\<close>

lemma receive_drain:
  "SEP \<notin> set buf \<Longrightarrow> drain de (buf @ concat pieces) = (ms, ok, rest)
    \<Longrightarrow> \<exists>rest'. receive de buf pieces = (ms, ok, rest') \<and> (ok \<longrightarrow> rest' = rest)"
proof (induction pieces arbitrary: buf ms)
  case Nil
  then show ?case by (simp add: drain_None)
next
  case (Cons piece pieces)
  obtain ms1 ok1 rest1 where d: "drain de (buf @ piece) = (ms1, ok1, rest1)" by (metis prod_cases3)
  show ?case
  proof (cases ok1)
    case False
    with d Cons.prems(2) drain_append [of de "buf @ piece" "concat pieces"] show ?thesis by auto
  next
    case True
    obtain ms2 ok2 rest2 where e: "drain de (rest1 @ concat pieces) = (ms2, ok2, rest2)"
      by (metis prod_cases3)
    with d True Cons.prems(2) drain_append [of de "buf @ piece" "concat pieces"]
    have w: "ms = ms1 @ ms2" "ok = ok2" "rest = rest2" by auto
    from d True drain_rest [of de "buf @ piece"] have "SEP \<notin> set rest1" by simp
    from Cons.IH [OF this] e d True w show ?thesis by auto
  qed
qed

text \<open>Further result: messages survive the stream. However the written messages are cut into pieces on the way,
  what is handled is all of them, in order, each as it was written (but for data that is null),
  and what is left in the buffer is the part of a message that has not come completely yet.\<close>

theorem stream_delivers:
  assumes "\<forall>m \<in> set ms. SEP \<notin> set (to_vec (ch_to_json m))
      \<and> from_slice (to_vec (ch_to_json m)) = Some (ch_to_json m)"
    and "SEP \<notin> set partial"
    and "concat pieces = concat (map (\<lambda>m. framed to_vec (ch_to_json m)) ms) @ partial"
  shows "receive (read_message from_slice) [] pieces = (map ch_norm ms, True, partial)"
proof -
  have "drain (read_message from_slice) (concat (map (\<lambda>m. framed to_vec (ch_to_json m)) ms) @ partial)
      = (map ch_norm ms, True, partial)"
    using assms(1) by (induction ms)
      (simp_all add: drain_None drain_Some assms(2) framed_def read_message_def ch_read_written)
  with receive_drain [of "[]" _ pieces] assms(3) show ?thesis by fastforce
qed

definition demo_pong :: "json \<Rightarrow> string" where
  "demo_pong j = (if j = ch_to_json (ChPong 7) then ''pong'' else ''other'')"

definition read_pong :: "string \<Rightarrow> json option" where
  "read_pong s = (if s = ''pong'' then Some (ch_to_json (ChPong 7)) else None)"

theorem stream_delivers_witness:
  "receive (read_message read_pong) [] [''po'', ''ng'' @ [SEP] @ ''pon'', ''g'' @ [SEP], ''po'']
     = ([ChPong 7, ChPong 7], True, ''po'')"
  using stream_delivers [of "[ChPong 7, ChPong 7]" demo_pong read_pong "''po''"
      "[''po'', ''ng'' @ [SEP] @ ''pon'', ''g'' @ [SEP], ''po'']"]
  by (simp add: demo_pong_def read_pong_def SEP_def framed_def)

section \<open>The state of a connection\<close>

text \<open>
  A channel is its number; the messages sent on it and not yet received are in \<open>hl_chans\<close>. Sending
  fails once the receiver is gone (\<open>hl_dead\<close>). \<open>hl_sent\<close> is what was written to the stream,
  \<open>hl_kills\<close> the tasks that were started to kill a job.
\<close>

record host_link =
  hl_sinks :: "u64 \<rightharpoonup> nat"
  hl_handlers :: "u64 \<rightharpoonup> nat"
  hl_killed :: "u64 set"
  hl_next_job :: u64
  hl_next_command :: u64
  hl_next_socket :: u64
  hl_commands :: "u64 \<rightharpoonup> nat"
  hl_sockets :: "u64 \<rightharpoonup> nat"
  hl_cancelled :: bool
  hl_chans :: "client_host_message list list"
  hl_dead :: "nat set"
  hl_sent :: "host_client_message list"
  hl_kills :: "u64 list"

definition link_init :: "u32 \<Rightarrow> host_link" where
  "link_init j =
     \<lparr>hl_sinks = Map.empty, hl_handlers = Map.empty, hl_killed = {}, hl_next_job = ucast j,
      hl_next_command = 1, hl_next_socket = 1, hl_commands = Map.empty, hl_sockets = Map.empty,
      hl_cancelled = False, hl_chans = [], hl_dead = {}, hl_sent = [], hl_kills = []\<rparr>"

record job_handle =
  jh_id :: u64
  jh_chan :: nat
  jh_should_kill :: bool

text \<open>\<open>fetch_add\<close> wraps.\<close>

definition next_job_id :: "host_link \<Rightarrow> u64 \<times> host_link" where
  "next_job_id st = (hl_next_job st, st\<lparr>hl_next_job := hl_next_job st + 1\<rparr>)"

definition next_command_id :: "host_link \<Rightarrow> u64 \<times> host_link" where
  "next_command_id st = (hl_next_command st, st\<lparr>hl_next_command := hl_next_command st + 1\<rparr>)"

definition next_socket_id :: "host_link \<Rightarrow> u64 \<times> host_link" where
  "next_socket_id st = (hl_next_socket st, st\<lparr>hl_next_socket := hl_next_socket st + 1\<rparr>)"

definition new_chan :: "host_link \<Rightarrow> nat \<times> host_link" where
  "new_chan st = (length (hl_chans st), st\<lparr>hl_chans := hl_chans st @ [[]]\<rparr>)"

text \<open>Sending on a channel; an error is only logged.\<close>

definition deliver :: "nat \<Rightarrow> client_host_message \<Rightarrow> host_link \<Rightarrow> host_link" where
  "deliver c m st =
     (if c \<in> hl_dead st then st
      else st\<lparr>hl_chans := (hl_chans st)[c := hl_chans st ! c @ [m]]\<rparr>)"

section \<open>Writing\<close>

text \<open>What comes of waiting for the lock of the stream and of writing and flushing.\<close>

datatype write_outcome = WriteOk | WriteFailed | WriteTimeout | WriteAborted | LockAborted

datatype link_error =
    WriteError | WriteTimedOut | HostAborted | NoJobMessage | JobIdInUse | MissingJobId
  | FailureOnHost string | ReceiveError | ReceiveTimedOut | UnexpectedAuth | PingTimedOut
  | CommandFailed int | MissingData | UnexpectedMessage | ClientWentAway

definition cancel_link :: "host_link \<Rightarrow> host_link" where
  "cancel_link st = st\<lparr>hl_cancelled := True\<rparr>"

definition send_message ::
  "write_outcome \<Rightarrow> host_client_message \<Rightarrow> host_link \<Rightarrow> (link_error + unit) \<times> host_link" where
  "send_message out msg st =
     (case out of
        WriteOk \<Rightarrow> (Inr (), st\<lparr>hl_sent := hl_sent st @ [msg]\<rparr>)
      | WriteFailed \<Rightarrow> (Inl WriteError, cancel_link st)
      | WriteTimeout \<Rightarrow> (Inl WriteTimedOut, cancel_link st)
      | WriteAborted \<Rightarrow> (Inl HostAborted, st)
      | LockAborted \<Rightarrow> (Inl HostAborted, st))"

section \<open>Jobs\<close>

definition spawn_kill_job :: "u64 \<Rightarrow> host_link \<Rightarrow> bool \<times> host_link" where
  "spawn_kill_job i st =
     (if i \<in> hl_killed st then (False, st)
      else (True, st\<lparr>hl_killed := insert i (hl_killed st), hl_kills := hl_kills st @ [i]\<rparr>))"

definition kill_job :: "write_outcome \<Rightarrow> u64 \<Rightarrow> host_link \<Rightarrow> (link_error + unit) \<times> host_link" where
  "kill_job out i st = send_message out (HcKill i) st"

definition drop_handle :: "job_handle \<Rightarrow> host_link \<Rightarrow> host_link" where
  "drop_handle h st =
     (let st1 = st\<lparr>hl_sinks := (hl_sinks st)(jh_id h := None)\<rparr>;
          st2 = (if jh_should_kill h then snd (spawn_kill_job (jh_id h) st1) else st1)
      in st2\<lparr>hl_dead := insert (jh_chan h) (hl_dead st2)\<rparr>)"

text \<open>\<open>JobHandle::done\<close>: the handle is dropped without killing the job.\<close>

definition done_handle :: "job_handle \<Rightarrow> host_link \<Rightarrow> host_link" where
  "done_handle h st = drop_handle (h\<lparr>jh_should_kill := False\<rparr>) st"

definition start_job ::
  "write_outcome \<Rightarrow> host_client_message \<Rightarrow> host_link \<Rightarrow> (link_error + job_handle) \<times> host_link" where
  "start_job out msg st =
     (case hc_job_id msg of
        None \<Rightarrow> (Inl NoJobMessage, st)
      | Some i \<Rightarrow>
          (let (c, st1) = new_chan st;
               h = \<lparr>jh_id = i, jh_chan = c, jh_should_kill = False\<rparr>;
               used = hl_sinks st1 i \<noteq> None;
               st2 = st1\<lparr>hl_sinks := (hl_sinks st1)(i \<mapsto> c)\<rparr>
           in if used then (Inl JobIdInUse, drop_handle h st2)
              else case send_message out msg st2 of
                (Inl e, st3) \<Rightarrow> (Inl e, drop_handle (h\<lparr>jh_should_kill := True\<rparr>) st3)
              | (Inr _, st3) \<Rightarrow> (Inr (h\<lparr>jh_should_kill := True\<rparr>), st3)))"

text \<open>\<open>next_message\<close>: the channel is closed when its sender is gone and it is empty.\<close>

datatype received = Got client_host_message | ChannelClosed | StillWaiting

definition next_message :: "job_handle \<Rightarrow> host_link \<Rightarrow> received \<times> host_link" where
  "next_message h st =
     (case hl_chans st ! jh_chan h of
        m # ms \<Rightarrow> (Got m, st\<lparr>hl_chans := (hl_chans st)[jh_chan h := ms]\<rparr>)
      | [] \<Rightarrow> (if hl_sinks st (jh_id h) = Some (jh_chan h) then StillWaiting else ChannelClosed, st))"

section \<open>A message with a response\<close>

definition request_begin ::
  "write_outcome \<Rightarrow> host_client_message \<Rightarrow> host_link \<Rightarrow> (link_error + u64 \<times> nat) \<times> host_link" where
  "request_begin out msg st =
     (case hc_job_id msg of
        None \<Rightarrow> (Inl MissingJobId, st)
      | Some i \<Rightarrow>
          if out = LockAborted then (Inl HostAborted, st)
          else (let (c, st1) = new_chan st;
                    st2 = st1\<lparr>hl_handlers := (hl_handlers st1)(i \<mapsto> c)\<rparr>
                in case send_message out msg st2 of
                     (Inl e, st3) \<Rightarrow> (Inl e, st3\<lparr>hl_handlers := (hl_handlers st3)(i := None)\<rparr>)
                   | (Inr _, st3) \<Rightarrow> (Inr (i, c), st3)))"

datatype wait_outcome = Arrived | SenderDropped | WaitTimeout | WaitAborted

definition request_end ::
  "wait_outcome \<Rightarrow> u64 \<Rightarrow> nat \<Rightarrow> host_link \<Rightarrow> (link_error + client_host_message) \<times> host_link" where
  "request_end out i c st =
     (let st1 = st\<lparr>hl_dead := insert c (hl_dead st)\<rparr>;
          removed = st1\<lparr>hl_handlers := (hl_handlers st1)(i := None)\<rparr>
      in case out of
           Arrived \<Rightarrow>
             (case hd (hl_chans st ! c) of
                ChFailure f \<Rightarrow> (Inl (FailureOnHost (opt_or (fm_message f) '''')), st1)
              | r \<Rightarrow> (Inr r, st1))
         | SenderDropped \<Rightarrow> (Inl ReceiveError, cancel_link removed)
         | WaitTimeout \<Rightarrow> (Inl ReceiveTimedOut, cancel_link removed)
         | WaitAborted \<Rightarrow> (Inl HostAborted, removed))"

section \<open>Pings\<close>

record ping_state =
  ps_ping_time :: int
  ps_pong_time :: int
  ps_ping_id :: u32

definition PING_INTERVAL :: int where "PING_INTERVAL = 80 * second"
definition PONG_TIMEOUT :: int where "PONG_TIMEOUT = 40 * second"
definition FOREVER :: int where "FOREVER = 60 * 60 * 24 * second"

definition ping_init :: "int \<Rightarrow> u32 \<Rightarrow> ping_state" where
  "ping_init now i =
     \<lparr>ps_ping_time = now + PING_INTERVAL, ps_pong_time = now + PING_INTERVAL + FOREVER, ps_ping_id = i\<rparr>"

definition on_pong :: "u64 \<Rightarrow> ping_state \<Rightarrow> ping_state" where
  "on_pong i ps =
     (if i \<noteq> ucast (ps_ping_id ps) then ps else ps\<lparr>ps_pong_time := ps_ping_time ps + FOREVER\<rparr>)"

text \<open>The timer of the pings: the id to send, which wraps, and the new deadlines.\<close>

definition on_ping_due :: "int \<Rightarrow> ping_state \<Rightarrow> u64 \<times> ping_state" where
  "on_ping_due now ps =
     (ucast (ps_ping_id ps + 1),
      ps\<lparr>ps_ping_id := ps_ping_id ps + 1, ps_pong_time := now + PONG_TIMEOUT,
         ps_ping_time := ps_ping_time ps + PING_INTERVAL\<rparr>)"

section \<open>Incoming messages\<close>

definition forward :: "(u64 \<rightharpoonup> nat) \<Rightarrow> u64 \<Rightarrow> client_host_message \<Rightarrow> host_link \<Rightarrow> host_link" where
  "forward handlers i m st = (case handlers i of None \<Rightarrow> st | Some c \<Rightarrow> deliver c m st)"

definition to_job :: "client_host_message \<Rightarrow> host_link \<Rightarrow> host_link" where
  "to_job m st =
     (case ch_job_id m of
        None \<Rightarrow> st
      | Some i \<Rightarrow>
          (case hl_sinks st i of
             Some c \<Rightarrow> deliver c m st
           | None \<Rightarrow>
               (case hl_handlers st i of
                  Some c \<Rightarrow> deliver c m (st\<lparr>hl_handlers := (hl_handlers st)(i := None)\<rparr>)
                | None \<Rightarrow> snd (spawn_kill_job i st))))"

fun incoming ::
  "client_host_message \<Rightarrow> ping_state \<times> host_link \<Rightarrow> (link_error + unit) \<times> ping_state \<times> host_link" where
  "incoming (ChAuth h p) s = (Inl UnexpectedAuth, s)"
| "incoming (ChPong i) (ps, st) = (Inr (), on_pong i ps, st)"
| "incoming (ChSocketRecv i d) (ps, st) = (Inr (), ps, forward (hl_sockets st) i (ChSocketRecv i d) st)"
| "incoming (ChCommandStdout i d) (ps, st) =
     (Inr (), ps, forward (hl_commands st) i (ChCommandStdout i d) st)"
| "incoming (ChCommandStderr i d) (ps, st) =
     (Inr (), ps, forward (hl_commands st) i (ChCommandStderr i d) st)"
| "incoming (ChCommandFinished i code sg) (ps, st) =
     (Inr (), ps, forward (hl_commands st) i (ChCommandFinished i code sg) st)"
| "incoming m (ps, st) = (Inr (), ps, to_job m st)"

text \<open>The messages of a piece of the stream; an error ends the connection.\<close>

fun incoming_all ::
  "client_host_message list \<Rightarrow> ping_state \<times> host_link \<Rightarrow> (link_error + unit) \<times> ping_state \<times> host_link" where
  "incoming_all [] s = (Inr (), s)"
| "incoming_all (m # ms) s =
     (case incoming m s of (Inl e, s') \<Rightarrow> (Inl e, s') | (Inr _, s') \<Rightarrow> incoming_all ms s')"

section \<open>What happens on a connection\<close>

datatype link_event =
    EvStart write_outcome host_client_message
  | EvDrop job_handle
  | EvDone job_handle
  | EvNext job_handle
  | EvRequest write_outcome host_client_message
  | EvRequestEnd wait_outcome u64 nat
  | EvSend write_outcome host_client_message
  | EvIncoming client_host_message

fun on_link :: "link_event \<Rightarrow> host_link \<Rightarrow> host_link" where
  "on_link (EvStart out msg) st = snd (start_job out msg st)"
| "on_link (EvDrop h) st = drop_handle h st"
| "on_link (EvDone h) st = done_handle h st"
| "on_link (EvNext h) st = snd (next_message h st)"
| "on_link (EvRequest out msg) st = snd (request_begin out msg st)"
| "on_link (EvRequestEnd out i c) st = snd (request_end out i c st)"
| "on_link (EvSend out msg) st = snd (send_message out msg st)"
| "on_link (EvIncoming m) st = snd (snd (incoming m (ping_init 0 0, st)))"

abbreviation link_events :: "link_event list \<Rightarrow> host_link \<Rightarrow> host_link" where
  "link_events \<equiv> fold on_link"

lemma incoming_link:
  "snd (snd (incoming m (ps, st))) =
     (case m of
        ChSocketRecv i d \<Rightarrow> forward (hl_sockets st) i m st
      | ChCommandStdout i d \<Rightarrow> forward (hl_commands st) i m st
      | ChCommandStderr i d \<Rightarrow> forward (hl_commands st) i m st
      | ChCommandFinished i code sg \<Rightarrow> forward (hl_commands st) i m st
      | _ \<Rightarrow> to_job m st)"
  by (cases m) (simp_all add: to_job_def)

lemma incoming_cases:
  obtains (forward) handlers i where "handlers = hl_sockets st \<or> handlers = hl_commands st"
      "ch_job_id m = None" "snd (snd (incoming m (ps, st))) = forward handlers i m st"
    | (job) "snd (snd (incoming m (ps, st))) = to_job m st"
  unfolding incoming_link by (cases m) auto

lemmas link_defs = send_message_def cancel_link_def spawn_kill_job_def new_chan_def next_message_def
  request_begin_def request_end_def start_job_def drop_handle_def done_handle_def to_job_def
  forward_def deliver_def

text \<open>The numbers of the channels in use are below that of the next one.\<close>

definition chans_ok :: "host_link \<Rightarrow> bool" where
  "chans_ok st \<longleftrightarrow>
     (\<forall>f \<in> {hl_sinks st, hl_handlers st, hl_commands st, hl_sockets st}. \<forall>c \<in> ran f. c < length (hl_chans st))
     \<and> (\<forall>c \<in> hl_dead st. c < length (hl_chans st))"

text \<open>Channel \<open>c\<close> belongs to job \<open>i\<close> alone, and its receiver is there.\<close>

definition job_chan :: "u64 \<Rightarrow> nat \<Rightarrow> host_link \<Rightarrow> bool" where
  "job_chan i c st \<longleftrightarrow>
     hl_sinks st i = Some c \<and> c < length (hl_chans st) \<and> c \<notin> hl_dead st
     \<and> (\<forall>j. hl_sinks st j = Some c \<longrightarrow> j = i) \<and> c \<notin> ran (hl_handlers st)
     \<and> c \<notin> ran (hl_commands st) \<and> c \<notin> ran (hl_sockets st)"

text \<open>The events that are not about job \<open>i\<close> itself.\<close>

fun leaves_job :: "u64 \<Rightarrow> nat \<Rightarrow> link_event \<Rightarrow> bool" where
  "leaves_job i c (EvStart out msg) = (hc_job_id msg \<noteq> Some i)"
| "leaves_job i c (EvDrop h) = (jh_id h \<noteq> i \<and> jh_chan h \<noteq> c)"
| "leaves_job i c (EvDone h) = (jh_id h \<noteq> i \<and> jh_chan h \<noteq> c)"
| "leaves_job i c (EvNext h) = (jh_chan h \<noteq> c)"
| "leaves_job i c (EvRequestEnd out j d) = (d \<noteq> c)"
| "leaves_job i c _ = True"

fun job_input :: "u64 \<Rightarrow> link_event \<Rightarrow> client_host_message list" where
  "job_input i (EvIncoming m) = (if ch_job_id m = Some i then [m] else [])"
| "job_input i _ = []"

lemma deliver_simps [simp]:
  "hl_sinks (deliver c m st) = hl_sinks st" "hl_handlers (deliver c m st) = hl_handlers st"
  "hl_commands (deliver c m st) = hl_commands st" "hl_sockets (deliver c m st) = hl_sockets st"
  "hl_dead (deliver c m st) = hl_dead st" "length (hl_chans (deliver c m st)) = length (hl_chans st)"
  "hl_killed (deliver c m st) = hl_killed st" "hl_kills (deliver c m st) = hl_kills st"
  "d \<noteq> c \<Longrightarrow> hl_chans (deliver c m st) ! d = hl_chans st ! d"
  by (simp_all add: deliver_def)

lemma job_chan_bound: "job_chan i c st \<Longrightarrow> c < length (hl_chans st)"
  by (simp add: job_chan_def)

lemma job_chan_sink: "job_chan i c st \<Longrightarrow> hl_sinks st i = Some c"
  by (simp add: job_chan_def)

lemma job_chan_only: "job_chan i c st \<Longrightarrow> hl_sinks st j = Some c \<Longrightarrow> j = i"
  by (simp add: job_chan_def)

lemma job_chan_send [simp]: "job_chan i c (snd (send_message out msg st)) = job_chan i c st"
  by (simp add: job_chan_def link_defs split: write_outcome.split)

lemma send_message_chans [simp]: "hl_chans (snd (send_message out msg st)) = hl_chans st"
  by (simp add: link_defs split: write_outcome.split)

lemma job_drop:
  assumes "job_chan i c st" and "jh_id h \<noteq> i" and "jh_chan h \<noteq> c"
  shows "job_chan i c (drop_handle h st) \<and> hl_chans (drop_handle h st) = hl_chans st"
  using assms by (simp add: job_chan_def drop_handle_def spawn_kill_job_def Let_def)

lemma job_new_sink:
  assumes "job_chan i c st" and "j \<noteq> i" and "new_chan st = (d, st1)"
  shows "d \<noteq> c" "job_chan i c (st1\<lparr>hl_sinks := (hl_sinks st1)(j \<mapsto> d)\<rparr>)"
    "hl_chans st1 ! c = hl_chans st ! c"
proof -
  from assms(3) have st1: "d = length (hl_chans st)" "st1 = st\<lparr>hl_chans := hl_chans st @ [[]]\<rparr>"
    by (simp_all add: new_chan_def)
  from assms(1) have c: "c < length (hl_chans st)" by (rule job_chan_bound)
  with st1 show "d \<noteq> c" by simp
  with assms(1,2) st1 c
  show "job_chan i c (st1\<lparr>hl_sinks := (hl_sinks st1)(j \<mapsto> d)\<rparr>)"
    by (simp_all add: job_chan_def ran_def)
  from st1 c show "hl_chans st1 ! c = hl_chans st ! c" by (simp add: nth_append)
qed

lemma job_start:
  assumes "job_chan i c st" and "hc_job_id msg \<noteq> Some i"
  shows "job_chan i c (snd (start_job out msg st)) \<and> hl_chans (snd (start_job out msg st)) ! c = hl_chans st ! c"
proof (cases "hc_job_id msg")
  case (Some j)
  obtain d st1 where n: "new_chan st = (d, st1)" by fastforce
  note new = job_new_sink [OF assms(1) _ n, of j]
  let ?st2 = "st1\<lparr>hl_sinks := (hl_sinks st1)(j \<mapsto> d)\<rparr>"
  from Some assms(2) have "j \<noteq> i" by simp
  with new have ok: "d \<noteq> c" "job_chan i c ?st2" "hl_chans ?st2 ! c = hl_chans st ! c" by auto
  obtain r st3 where s: "send_message out msg ?st2 = (r, st3)" by fastforce
  with ok job_chan_send [of i c out msg ?st2] send_message_chans [of out msg ?st2]
  have st3: "job_chan i c st3" "hl_chans st3 ! c = hl_chans st ! c" by auto
  have "job_chan i c (drop_handle h s) \<and> hl_chans (drop_handle h s) ! c = hl_chans st ! c"
    if "job_chan i c s" "hl_chans s ! c = hl_chans st ! c" "jh_id h = j" "jh_chan h = d" for h s
    using job_drop [OF that(1), of h] that ok(1) \<open>j \<noteq> i\<close> by simp
  with ok st3 Some n s show ?thesis by (simp add: start_job_def Let_def split: sum.split)
qed (simp add: start_job_def assms(1))

lemma job_request:
  assumes "job_chan i c st"
  shows "job_chan i c (snd (request_begin out msg st))
    \<and> hl_chans (snd (request_begin out msg st)) ! c = hl_chans st ! c"
proof (cases "hc_job_id msg = None \<or> out = LockAborted")
  case False
  then obtain j where j: "hc_job_id msg = Some j" "out \<noteq> LockAborted" by auto
  from assms have c: "c < length (hl_chans st)" by (rule job_chan_bound)
  let ?st = "st\<lparr>hl_chans := hl_chans st @ [[]], hl_handlers := (hl_handlers st)(j \<mapsto> length (hl_chans st))\<rparr>"
  have ok: "job_chan i c ?st" "hl_chans ?st ! c = hl_chans st ! c"
    using assms c by (simp_all add: job_chan_def ran_def nth_append)
  obtain r st3 where s: "send_message out msg ?st = (r, st3)" by fastforce
  with ok job_chan_send [of i c out msg ?st] send_message_chans [of out msg ?st]
  have st3: "job_chan i c st3" "hl_chans st3 ! c = hl_chans st ! c" by auto
  then have "job_chan i c (st3\<lparr>hl_handlers := (hl_handlers st3)(j := None)\<rparr>)"
    by (auto simp: job_chan_def ran_def)
  with st3 s j show ?thesis by (simp add: request_begin_def new_chan_def split: sum.split)
qed (use assms in \<open>auto simp: request_begin_def split: option.split\<close>)

lemma job_chan_deliver [simp]: "job_chan i c (deliver d m st) = job_chan i c st"
  by (simp add: job_chan_def)

lemma job_forward:
  assumes "job_chan i c st" and "handlers = hl_sockets st \<or> handlers = hl_commands st"
  shows "job_chan i c (forward handlers j m st) \<and> hl_chans (forward handlers j m st) ! c = hl_chans st ! c"
proof (cases "handlers j")
  case (Some d)
  with assms have "d \<noteq> c" by (auto simp: job_chan_def ran_def)
  with assms(1) Some show ?thesis by (simp add: forward_def)
qed (simp add: forward_def assms(1))

lemma to_job_chan:
  assumes "job_chan i c st"
  shows "job_chan i c (to_job m st)
    \<and> hl_chans (to_job m st) ! c = hl_chans st ! c @ (if ch_job_id m = Some i then [m] else [])"
proof (cases "ch_job_id m")
  case (Some j)
  show ?thesis
  proof (cases "hl_sinks st j")
    case None
    with job_chan_sink [OF assms] have "j \<noteq> i" by force
    show ?thesis
    proof (cases "hl_handlers st j")
      case None
      with assms Some \<open>hl_sinks st j = None\<close> \<open>j \<noteq> i\<close> show ?thesis
        by (simp add: to_job_def spawn_kill_job_def job_chan_def)
    next
      case (Some d)
      with assms have "d \<noteq> c" by (auto simp: job_chan_def ran_def)
      from assms have "job_chan i c (st\<lparr>hl_handlers := (hl_handlers st)(j := None)\<rparr>)"
        by (auto simp: job_chan_def ran_def)
      with Some \<open>d \<noteq> c\<close> \<open>ch_job_id m = Some j\<close> \<open>hl_sinks st j = None\<close> \<open>j \<noteq> i\<close> show ?thesis
        by (simp add: to_job_def)
    qed
  next
    case (Some d)
    with job_chan_sink [OF assms] job_chan_only [OF assms, of j] have "d = c \<longleftrightarrow> j = i" by force
    with assms Some \<open>ch_job_id m = Some j\<close> show ?thesis
      by (cases "j = i") (auto simp: to_job_def job_chan_def deliver_def)
  qed
qed (simp add: to_job_def assms)

lemma job_event:
  assumes "job_chan i c st" and "leaves_job i c e"
  shows "job_chan i c (on_link e st) \<and> hl_chans (on_link e st) ! c = hl_chans st ! c @ job_input i e"
proof (cases e)
  case (EvStart out msg)
  with assms job_start show ?thesis by simp
next
  case (EvDrop h)
  with assms job_drop [of i c st h] show ?thesis by simp
next
  case (EvDone h)
  with assms job_drop [of i c st "h\<lparr>jh_should_kill := False\<rparr>"] show ?thesis by (simp add: done_handle_def)
next
  case (EvNext h)
  with assms show ?thesis by (simp add: next_message_def job_chan_def split: list.split)
next
  case (EvRequest out msg)
  with assms job_request show ?thesis by simp
next
  case (EvRequestEnd out j d)
  with assms show ?thesis
    by (auto simp: request_end_def job_chan_def cancel_link_def ran_def Let_def
        split: wait_outcome.split client_host_message.split)
next
  case (EvSend out msg)
  with assms show ?thesis by simp
next
  case (EvIncoming m)
  show ?thesis
  proof (cases rule: incoming_cases [of st m "ping_init 0 0"])
    case (forward handlers j)
    with job_forward [OF assms(1) forward(1)] EvIncoming show ?thesis by simp
  next
    case job
    with to_job_chan [OF assms(1), of m] EvIncoming show ?thesis by simp
  qed
qed

lemma job_events:
  "job_chan i c st \<Longrightarrow> list_all (leaves_job i c) es
    \<Longrightarrow> hl_chans (link_events es st) ! c = hl_chans st ! c @ concat (map (job_input i) es)"
proof (induction es arbitrary: st)
  case (Cons e es)
  with job_event [of i c st e] Cons.IH [of "on_link e st"] show ?case by simp
qed simp

text \<open>Further result: a job gets its messages. Once a job was started, whatever else happens on the connection
  (other jobs start, end and are killed, responses are awaited, messages for sockets, commands
  and other jobs come in), the messages waiting for it are exactly those that came in with its
  id, each once and in their order.\<close>

theorem job_gets_messages:
  assumes "chans_ok st" and "start_job out msg st = (Inr h, st')"
    and "list_all (leaves_job (jh_id h) (jh_chan h)) es"
  shows "hl_chans (link_events es st') ! jh_chan h = concat (map (job_input (jh_id h)) es)"
proof -
  from assms(2) obtain i where i: "hc_job_id msg = Some i" "hl_sinks st i = None"
    by (auto simp: start_job_def Let_def new_chan_def split: option.splits if_splits)
  let ?c = "length (hl_chans st)"
  let ?st = "st\<lparr>hl_chans := hl_chans st @ [[]], hl_sinks := (hl_sinks st)(i \<mapsto> ?c)\<rparr>"
  from assms(1) have "?c \<notin> ran f" if "f \<in> {hl_sinks st, hl_handlers st, hl_commands st, hl_sockets st}" for f
    using that unfolding chans_ok_def by blast
  then have "job_chan i ?c ?st" using assms(1) unfolding job_chan_def chans_ok_def by (auto simp: ran_def)
  moreover have h: "jh_id h = i" "jh_chan h = ?c" "st' = snd (send_message out msg ?st)"
    using assms(2) i by (auto simp: start_job_def Let_def new_chan_def split: sum.splits prod.splits)
  ultimately have "job_chan i ?c st'" "hl_chans st' ! ?c = []" by simp_all
  with job_events [of i ?c st' es] assms(3) h show ?thesis by simp
qed

lemma link_init_ok: "chans_ok (link_init j)"
  by (simp add: chans_ok_def link_init_def)

definition demo_job :: "u64 \<Rightarrow> host_client_message" where
  "demo_job i = HcReadFile i ''/etc/hosts''"

definition demo_reply :: "u64 \<Rightarrow> client_host_message" where
  "demo_reply i = ChReadFileResult i ''bG9jYWxob3N0''"

theorem job_gets_messages_witness:
  "\<exists>h st'. start_job WriteOk (demo_job 3) (link_init 3) = (Inr h, st')
     \<and> hl_chans (link_events [EvIncoming (demo_reply 3), EvStart WriteOk (demo_job 4),
           EvIncoming (demo_reply 4), EvIncoming (demo_reply 9), EvIncoming (demo_reply 3)] st') ! jh_chan h
       = [demo_reply 3, demo_reply 3]"
proof -
  let ?es = "[EvIncoming (demo_reply 3), EvStart WriteOk (demo_job 4), EvIncoming (demo_reply 4),
    EvIncoming (demo_reply 9), EvIncoming (demo_reply 3)]"
  obtain h st' where s: "start_job WriteOk (demo_job 3) (link_init 3) = (Inr h, st')" "jh_id h = 3"
    by (simp add: start_job_def demo_job_def link_init_def new_chan_def send_message_def Let_def)
  have "list_all (leaves_job (jh_id h) (jh_chan h)) ?es" by (simp add: s demo_job_def)
  from job_gets_messages [OF link_init_ok s(1) this] s show ?thesis by (simp add: demo_reply_def)
qed

section \<open>Killing jobs\<close>

definition kills_ok :: "host_link \<Rightarrow> bool" where
  "kills_ok st \<longleftrightarrow> distinct (hl_kills st) \<and> set (hl_kills st) = hl_killed st"

lemma kills_ok_simps [simp]:
  "kills_ok (st\<lparr>hl_sinks := a\<rparr>) = kills_ok st" "kills_ok (st\<lparr>hl_handlers := b\<rparr>) = kills_ok st"
  "kills_ok (st\<lparr>hl_chans := c\<rparr>) = kills_ok st" "kills_ok (st\<lparr>hl_dead := d\<rparr>) = kills_ok st"
  "kills_ok (st\<lparr>hl_cancelled := e\<rparr>) = kills_ok st" "kills_ok (deliver k m st) = kills_ok st"
  "kills_ok (snd (send_message out msg st)) = kills_ok st" "kills_ok (snd (new_chan st)) = kills_ok st"
  by (simp_all add: kills_ok_def link_defs split: write_outcome.split)

lemma kills_ok_spawn [simp]: "kills_ok st \<Longrightarrow> kills_ok (snd (spawn_kill_job i st))"
  by (auto simp: kills_ok_def spawn_kill_job_def)

lemma kills_ok_drop [simp]: "kills_ok st \<Longrightarrow> kills_ok (drop_handle h st)"
  by (simp add: drop_handle_def Let_def)

lemma kills_ok_send: "kills_ok st \<Longrightarrow> send_message out msg st = (r, st') \<Longrightarrow> kills_ok st'"
  using kills_ok_simps(7) [of out msg st] by simp

lemma kills_ok_start: "kills_ok st \<Longrightarrow> kills_ok (snd (start_job out msg st))"
  by (auto simp: start_job_def new_chan_def Let_def split: option.split prod.split sum.split
      intro!: kills_ok_drop elim!: kills_ok_send [rotated])

lemma kills_ok_request: "kills_ok st \<Longrightarrow> kills_ok (snd (request_begin out msg st))"
  by (auto simp: request_begin_def new_chan_def Let_def split: option.split prod.split sum.split
      elim!: kills_ok_send [rotated])

lemma kills_ok_to_job: "kills_ok st \<Longrightarrow> kills_ok (to_job m st)"
  by (simp add: to_job_def split: option.split)

lemma kills_ok_event: "kills_ok st \<Longrightarrow> kills_ok (on_link e st)"
proof (cases e)
  case (EvIncoming m)
  assume "kills_ok st"
  with EvIncoming show ?thesis
    by (cases rule: incoming_cases [of st m "ping_init 0 0"])
      (simp_all add: forward_def kills_ok_to_job split: option.split)
qed (simp_all add: kills_ok_start kills_ok_request done_handle_def next_message_def request_end_def
    cancel_link_def Let_def split: list.split wait_outcome.split client_host_message.split)

text \<open>Further result: jobs are killed once. Whatever happens on a connection, no job is killed twice; and a
  message of a job that nobody runs and nobody awaits has that job killed.\<close>

theorem jobs_killed_once:
  "distinct (hl_kills (link_events es (link_init j)))
   \<and> (\<forall>m i. ch_job_id m = Some i \<and> hl_sinks (link_events es (link_init j)) i = None
       \<and> hl_handlers (link_events es (link_init j)) i = None
       \<longrightarrow> i \<in> set (hl_kills (link_events (es @ [EvIncoming m]) (link_init j))))"
proof -
  have ok: "kills_ok (link_events es (link_init j))"
    by (induction es rule: rev_induct) (simp_all add: kills_ok_event, simp add: kills_ok_def link_init_def)
  have "i \<in> set (hl_kills (on_link (EvIncoming m) st))"
    if "kills_ok st" "ch_job_id m = Some i" "hl_sinks st i = None" "hl_handlers st i = None" for st m i
    using that by (cases m) (auto simp: to_job_def spawn_kill_job_def kills_ok_def)
  with ok show ?thesis by (auto simp: kills_ok_def)
qed

theorem jobs_killed_once_witness:
  "hl_kills (link_events ([EvIncoming (demo_reply 9)] @ [EvIncoming (demo_reply 9)]) (link_init 3)) = [9]"
proof -
  have "distinct (hl_kills (link_events ([EvIncoming (demo_reply 9)] @ [EvIncoming (demo_reply 9)]) (link_init 3)))"
    using jobs_killed_once by blast
  then show ?thesis
    by (simp add: demo_reply_def link_init_def to_job_def spawn_kill_job_def)
qed

text \<open>Further result: starting a job with the id of a running one loses both. The new one is refused, but its
  sink has replaced that of the running job and is taken away: the running job's channel is
  closed, and its next message has it killed.\<close>

theorem duplicate_job_lost:
  assumes "hl_sinks st (jh_id h) = Some (jh_chan h)" and "hl_chans st ! jh_chan h = []"
    and "jh_chan h < length (hl_chans st)" and "hc_job_id msg = Some (jh_id h)"
  shows "\<exists>st'. start_job out msg st = (Inl JobIdInUse, st') \<and> fst (next_message h st') = ChannelClosed
    \<and> (hl_handlers st (jh_id h) = None
        \<longrightarrow> (\<forall>m. ch_job_id m = Some (jh_id h) \<longrightarrow> jh_id h \<in> hl_killed (to_job m st')))"
proof -
  obtain st' where s: "start_job out msg st = (Inl JobIdInUse, st')" "hl_sinks st' (jh_id h) = None"
      "hl_handlers st' = hl_handlers st" "hl_chans st' = hl_chans st @ [[]]"
    using assms(1,4) by (simp add: start_job_def new_chan_def drop_handle_def Let_def)
  moreover have "fst (next_message h st') = ChannelClosed"
    using assms(2,3) s by (simp add: next_message_def nth_append)
  ultimately show ?thesis by (auto simp: to_job_def spawn_kill_job_def)
qed

theorem duplicate_job_lost_witness:
  "\<exists>h st st'. start_job WriteOk (demo_job 3) (link_init 3) = (Inr h, st)
     \<and> start_job WriteOk (demo_job 3) st = (Inl JobIdInUse, st') \<and> fst (next_message h st') = ChannelClosed"
proof -
  obtain h st where s: "start_job WriteOk (demo_job 3) (link_init 3) = (Inr h, st)"
      "jh_id h = 3" "jh_chan h = 0" "hl_sinks st 3 = Some 0" "hl_chans st = [[]]"
    by (simp add: start_job_def demo_job_def link_init_def new_chan_def send_message_def Let_def)
  then show ?thesis using duplicate_job_lost [of st h "demo_job 3" WriteOk] by (auto simp: demo_job_def)
qed

section \<open>Silent and answering hosts\<close>

text \<open>
  The timers of a connection against a host that owes an answer to each ping within some time
  (\<open>Some r\<close>) or never answers (None). Time passes up to the next deadline, at which its timer
  fires; a pong with another id may come in at any time.
\<close>

record ping_sys =
  py_now :: int
  py_ps :: ping_state
  py_due :: "(u64 \<times> int) option"
  py_closed :: bool

inductive ping_step :: "int option \<Rightarrow> ping_sys \<Rightarrow> ping_sys \<Rightarrow> bool" for d where
  tick: "\<not> py_closed s \<Longrightarrow> py_now s < t \<Longrightarrow> t \<le> ps_ping_time (py_ps s) \<Longrightarrow> t \<le> ps_pong_time (py_ps s)
    \<Longrightarrow> (case py_due s of None \<Rightarrow> True | Some (i, u) \<Rightarrow> t \<le> u) \<Longrightarrow> ping_step d s (s\<lparr>py_now := t\<rparr>)"
| ping: "\<not> py_closed s \<Longrightarrow> ps_ping_time (py_ps s) \<le> py_now s \<Longrightarrow> on_ping_due (py_now s) (py_ps s) = (i, ps)
    \<Longrightarrow> ping_step d s (s\<lparr>py_ps := ps, py_due := map_option (\<lambda>r. (i, py_now s + r)) d\<rparr>)"
| answer: "\<not> py_closed s \<Longrightarrow> py_due s = Some (i, u)
    \<Longrightarrow> ping_step d s (s\<lparr>py_ps := on_pong i (py_ps s), py_due := None\<rparr>)"
| stray: "\<not> py_closed s \<Longrightarrow> i \<noteq> ucast (ps_ping_id (py_ps s))
    \<Longrightarrow> ping_step d s (s\<lparr>py_ps := on_pong i (py_ps s)\<rparr>)"
| timeout: "\<not> py_closed s \<Longrightarrow> ps_pong_time (py_ps s) \<le> py_now s \<Longrightarrow> ping_step d s (s\<lparr>py_closed := True\<rparr>)"

definition ping_start :: "int \<Rightarrow> u32 \<Rightarrow> ping_sys" where
  "ping_start t i = \<lparr>py_now = t, py_ps = ping_init t i, py_due = None, py_closed = False\<rparr>"

lemmas ping_defs = on_ping_due_def on_pong_def ping_init_def ping_start_def
  PING_INTERVAL_def PONG_TIMEOUT_def FOREVER_def second_def

text \<open>An answer that is owed comes before the deadline for it, and otherwise none is missed.\<close>

definition answered :: "ping_sys \<Rightarrow> bool" where
  "answered s \<longleftrightarrow> \<not> py_closed s \<and> py_now s \<le> ps_ping_time (py_ps s)
     \<and> (case py_due s of
          None \<Rightarrow> ps_ping_time (py_ps s) < ps_pong_time (py_ps s)
        | Some (i, u) \<Rightarrow> i = ucast (ps_ping_id (py_ps s)) \<and> py_now s \<le> u \<and> u < ps_pong_time (py_ps s))"

lemma answered_step:
  assumes "ping_step (Some r) s s'" and "answered s" and "0 \<le> r" and "r < PONG_TIMEOUT"
  shows "answered s'"
  using assms by (cases rule: ping_step.cases)
    (auto simp: answered_def ping_defs split: option.splits prod.splits)

text \<open>Further result: a host that answers each ping in less than 40 seconds is never disconnected for being
  silent, for however long it stays connected.\<close>

theorem answering_host_stays:
  assumes "(ping_step (Some r))\<^sup>*\<^sup>* (ping_start t i) s" and "0 \<le> r" and "r < PONG_TIMEOUT"
  shows "\<not> py_closed s \<and> py_now s < ps_pong_time (py_ps s)"
proof -
  have "answered s"
    using assms(1)
  proof (induction rule: rtranclp_induct)
    case base
    show ?case by (simp add: answered_def ping_defs)
  qed (use answered_step assms in blast)
  then show ?thesis by (auto simp: answered_def split: option.splits prod.splits)
qed

text \<open>A host that never answers: before and after the one ping it gets.\<close>

definition silent :: "int \<Rightarrow> ping_sys \<Rightarrow> bool" where
  "silent t s \<longleftrightarrow> py_due s = None
     \<and> (ps_ping_time (py_ps s) = t + PING_INTERVAL
          \<and> ps_pong_time (py_ps s) = t + PING_INTERVAL + FOREVER \<and> py_now s \<le> t + PING_INTERVAL
        \<or> ps_ping_time (py_ps s) = t + 2 * PING_INTERVAL
          \<and> ps_pong_time (py_ps s) = t + PING_INTERVAL + PONG_TIMEOUT
          \<and> py_now s \<le> t + PING_INTERVAL + PONG_TIMEOUT)"

lemma silent_step: "ping_step None s s' \<Longrightarrow> silent t s \<Longrightarrow> silent t s'"
  by (cases rule: ping_step.cases) (auto simp: silent_def ping_defs split: option.splits prod.splits)

lemma silent_reach: "(ping_step None)\<^sup>*\<^sup>* (ping_start t i) s \<Longrightarrow> silent t s"
proof (induction rule: rtranclp_induct)
  case base
  show ?case by (simp add: silent_def ping_defs)
qed (use silent_step in blast)

lemma pass_time:
  assumes "\<not> py_closed s" and "py_now s \<le> t" and "t \<le> ps_ping_time (py_ps s)"
    and "t \<le> ps_pong_time (py_ps s)" and "py_due s = None"
  shows "(ping_step d)\<^sup>*\<^sup>* s (s\<lparr>py_now := t\<rparr>)"
proof (cases "py_now s = t")
  case False
  with assms have "ping_step d s (s\<lparr>py_now := t\<rparr>)" by (intro tick) simp_all
  then show ?thesis by blast
qed (auto)

lemma silent_closes:
  assumes "silent t s" and "\<not> py_closed s"
    and "ps_ping_time (py_ps s) = t + 2 * PING_INTERVAL"
  shows "\<exists>s'. (ping_step None)\<^sup>*\<^sup>* s s' \<and> py_closed s'"
proof -
  let ?u = "ps_pong_time (py_ps s)"
  from assms have "(ping_step None)\<^sup>*\<^sup>* s (s\<lparr>py_now := ?u\<rparr>)"
    by (intro pass_time) (auto simp: silent_def ping_defs)
  moreover from assms(2) have "ping_step None (s\<lparr>py_now := ?u\<rparr>) (s\<lparr>py_now := ?u\<rparr>\<lparr>py_closed := True\<rparr>)"
    by (intro timeout) simp_all
  ultimately have "(ping_step None)\<^sup>*\<^sup>* s (s\<lparr>py_now := ?u\<rparr>\<lparr>py_closed := True\<rparr>)" by simp
  moreover have "py_closed (s\<lparr>py_now := ?u\<rparr>\<lparr>py_closed := True\<rparr>)" by simp
  ultimately show ?thesis by blast
qed

text \<open>Further result: a silent host is noticed. Its connection does not last longer than two minutes, whatever
  other pongs it sends, and however it came that far, closing it is never out of reach.\<close>

theorem silent_host_closed:
  assumes "(ping_step None)\<^sup>*\<^sup>* (ping_start t i) s"
  shows "py_now s \<le> t + 120 * second \<and> (\<exists>s'. (ping_step None)\<^sup>*\<^sup>* s s' \<and> py_closed s')"
proof
  from silent_reach [OF assms] have q: "silent t s" .
  then show "py_now s \<le> t + 120 * second" by (auto simp: silent_def ping_defs)
  show "\<exists>s'. (ping_step None)\<^sup>*\<^sup>* s s' \<and> py_closed s'"
  proof (cases "py_closed s \<or> ps_ping_time (py_ps s) = t + 2 * PING_INTERVAL")
    case True
    with silent_closes [OF q] show ?thesis by blast
  next
    case False
    with q have f: "ps_ping_time (py_ps s) = t + PING_INTERVAL" "py_due s = None" "\<not> py_closed s"
        "py_now s \<le> t + PING_INTERVAL" "ps_pong_time (py_ps s) = t + PING_INTERVAL + FOREVER"
      by (auto simp: silent_def)
    let ?s1 = "s\<lparr>py_now := t + PING_INTERVAL\<rparr>"
    have "(ping_step None)\<^sup>*\<^sup>* s ?s1" using f by (intro pass_time) (simp_all add: ping_defs)
    moreover obtain n ps where p: "on_ping_due (py_now ?s1) (py_ps ?s1) = (n, ps)" by fastforce
    let ?s2 = "?s1\<lparr>py_ps := ps, py_due := map_option (\<lambda>r. (n, py_now ?s1 + r)) None\<rparr>"
    have "ping_step None ?s1 ?s2" using f p by (intro ping) simp_all
    ultimately have reach: "(ping_step None)\<^sup>*\<^sup>* s ?s2" by (rule rtranclp.rtrancl_into_rtrancl)
    have "silent t ?s2" "\<not> py_closed ?s2" "ps_ping_time (py_ps ?s2) = t + 2 * PING_INTERVAL"
      using f p by (auto simp: silent_def ping_defs)
    from silent_closes [OF this] reach show ?thesis by (meson rtranclp_trans)
  qed
qed

theorem answering_host_stays_witness:
  "ps_pong_time (py_ps ((ping_start 0 5)\<lparr>py_now := PING_INTERVAL\<rparr>)) > PING_INTERVAL"
proof -
  have "ping_step (Some second) (ping_start 0 5) ((ping_start 0 5)\<lparr>py_now := PING_INTERVAL\<rparr>)"
    by (rule tick) (simp_all add: ping_defs)
  then have "(ping_step (Some second))\<^sup>*\<^sup>* (ping_start 0 5) ((ping_start 0 5)\<lparr>py_now := PING_INTERVAL\<rparr>)"
    by blast
  from answering_host_stays [OF this] show ?thesis by (simp add: ping_defs)
qed

theorem silent_host_closed_witness:
  "\<exists>s'. (ping_step None)\<^sup>*\<^sup>* (ping_start 0 5) s' \<and> py_closed s'"
  using silent_host_closed [of 0 5 "ping_start 0 5"] by blast

end
