(* ===== verification/Host_Connections.thy ===== *)
theory Host_Connections
  imports Host_Clients
begin

text \<open>
  The table of connected hosts (\<open>handle_host_client\<close>), the authorities of the NFS groups
  (\<open>nfs_group_ca\<close>), both of \<open>src/bin/server/hostclient.rs\<close>. The keys and certificates that openssl
  makes are parameters.
\<close>

section \<open>The table of connected hosts\<close>

datatype host_action = HostUp int | HostDown int

text \<open>A connection is its number; \<open>ht_active\<close> are those whose messages are being handled.\<close>

record host_table =
  ht_clients :: "int \<rightharpoonup> nat"
  ht_active :: "nat \<rightharpoonup> int"
  ht_cancelled :: "nat set"
  ht_next :: nat
  ht_sent :: "host_action list"

definition host_table_init :: host_table where
  "host_table_init =
     \<lparr>ht_clients = Map.empty, ht_active = Map.empty, ht_cancelled = {}, ht_next = 0, ht_sent = []\<rparr>"

text \<open>A host was authenticated: it takes the place of an older connection, which is cancelled.\<close>

definition host_connect :: "int \<Rightarrow> host_table \<Rightarrow> host_table" where
  "host_connect i t =
     (let n = ht_next t;
          cancelled = (case ht_clients t i of None \<Rightarrow> ht_cancelled t | Some old \<Rightarrow> insert old (ht_cancelled t))
      in t\<lparr>ht_clients := (ht_clients t)(i \<mapsto> n), ht_active := (ht_active t)(n \<mapsto> i),
           ht_cancelled := cancelled, ht_next := n + 1, ht_sent := ht_sent t @ [HostUp i]\<rparr>)"

text \<open>Its messages end: it leaves the table if it is still the one there, and is said to be down.\<close>

definition host_finish :: "nat \<Rightarrow> int \<Rightarrow> host_table \<Rightarrow> host_table" where
  "host_finish n i t =
     t\<lparr>ht_cancelled := insert n (ht_cancelled t),
       ht_clients := (if ht_clients t i = Some n then (ht_clients t)(i := None) else ht_clients t),
       ht_active := (ht_active t)(n := None),
       ht_sent := ht_sent t @ [HostDown i]\<rparr>"

inductive table_step :: "host_table \<Rightarrow> host_table \<Rightarrow> bool" where
  connect: "table_step t (host_connect i t)"
| finish: "ht_active t n = Some i \<Longrightarrow> table_step t (host_finish n i t)"

text \<open>What a client shows that was there from the start.\<close>

fun show_host :: "host_action \<Rightarrow> int set \<Rightarrow> int set" where
  "show_host (HostUp i) up = insert i up"
| "show_host (HostDown i) up = up - {i}"

definition shown_up :: "host_table \<Rightarrow> int set" where
  "shown_up t = fold show_host (ht_sent t) {}"

definition table_ok :: "host_table \<Rightarrow> bool" where
  "table_ok t \<longleftrightarrow>
     (\<forall>i n. ht_clients t i = Some n \<longrightarrow> ht_active t n = Some i)
     \<and> (\<forall>n i. ht_active t n = Some i \<longrightarrow> n < ht_next t \<and> (ht_clients t i = Some n \<or> n \<in> ht_cancelled t))
     \<and> shown_up t \<subseteq> dom (ht_clients t)"

lemma shown_connect: "shown_up (host_connect i t) = insert i (shown_up t)"
  by (simp add: shown_up_def host_connect_def Let_def)

lemma shown_finish: "shown_up (host_finish n i t) = shown_up t - {i}"
  by (simp add: shown_up_def host_finish_def)

lemma table_clientsD: "table_ok t \<Longrightarrow> ht_clients t i = Some n \<Longrightarrow> ht_active t n = Some i"
  by (simp add: table_ok_def)

lemma table_activeD:
  "table_ok t \<Longrightarrow> ht_active t n = Some i \<Longrightarrow> n < ht_next t \<and> (ht_clients t i = Some n \<or> n \<in> ht_cancelled t)"
  by (simp add: table_ok_def)

lemma table_ok_connect:
  assumes "table_ok t"
  shows "table_ok (host_connect i t)"
proof -
  have fresh: "ht_active t (ht_next t) = None" using assms by (cases "ht_active t (ht_next t)") (auto simp: table_ok_def)
  have "dom (ht_clients (host_connect i t)) = insert i (dom (ht_clients t))"
    by (simp add: host_connect_def Let_def)
  with assms have "shown_up (host_connect i t) \<subseteq> dom (ht_clients (host_connect i t))"
    unfolding shown_connect table_ok_def by blast
  moreover have "(\<forall>j n. ht_clients (host_connect i t) j = Some n \<longrightarrow> ht_active (host_connect i t) n = Some j)"
    using fresh table_clientsD [OF assms] by (auto simp: host_connect_def Let_def)
  moreover have "(\<forall>n j. ht_active (host_connect i t) n = Some j \<longrightarrow> n < ht_next (host_connect i t)
      \<and> (ht_clients (host_connect i t) j = Some n \<or> n \<in> ht_cancelled (host_connect i t)))"
  proof (intro allI impI)
    fix m j
    assume "ht_active (host_connect i t) m = Some j"
    then have "m = ht_next t \<and> j = i \<or> ht_active t m = Some j"
      by (auto simp: host_connect_def Let_def split: if_splits)
    with table_activeD [OF assms, of m j]
    show "m < ht_next (host_connect i t)
        \<and> (ht_clients (host_connect i t) j = Some m \<or> m \<in> ht_cancelled (host_connect i t))"
      by (auto simp: host_connect_def Let_def split: option.split)
  qed
  ultimately show ?thesis by (simp add: table_ok_def)
qed

lemma table_ok_finish:
  assumes "table_ok t" and "ht_active t n = Some i"
  shows "table_ok (host_finish n i t)"
proof -
  have "dom (ht_clients t) - {i} \<subseteq> dom (ht_clients (host_finish n i t))"
    by (auto simp: host_finish_def)
  with assms have "shown_up (host_finish n i t) \<subseteq> dom (ht_clients (host_finish n i t))"
    unfolding shown_finish table_ok_def by blast
  moreover have "(\<forall>j k. ht_clients (host_finish n i t) j = Some k \<longrightarrow> ht_active (host_finish n i t) k = Some j)"
  proof (intro allI impI)
    fix j k
    assume a: "ht_clients (host_finish n i t) j = Some k"
    then have "ht_clients t j = Some k" by (auto simp: host_finish_def split: if_splits)
    from table_clientsD [OF assms(1) this] a assms(2) \<open>ht_clients t j = Some k\<close>
    show "ht_active (host_finish n i t) k = Some j" by (auto simp: host_finish_def split: if_splits)
  qed
  moreover have "(\<forall>k j. ht_active (host_finish n i t) k = Some j \<longrightarrow> k < ht_next (host_finish n i t)
      \<and> (ht_clients (host_finish n i t) j = Some k \<or> k \<in> ht_cancelled (host_finish n i t)))"
  proof (intro allI impI)
    fix k j
    assume a: "ht_active (host_finish n i t) k = Some j"
    then have "ht_active t k = Some j" by (auto simp: host_finish_def split: if_splits)
    from table_activeD [OF assms(1) this]
    show "k < ht_next (host_finish n i t)
        \<and> (ht_clients (host_finish n i t) j = Some k \<or> k \<in> ht_cancelled (host_finish n i t))"
      by (auto simp: host_finish_def)
  qed
  ultimately show ?thesis by (simp add: table_ok_def)
qed

lemma table_reach_ok: "table_step\<^sup>*\<^sup>* host_table_init t \<Longrightarrow> table_ok t"
proof (induction rule: rtranclp_induct)
  case base
  show ?case by (simp add: table_ok_def host_table_init_def shown_up_def)
next
  case (step t t')
  from step.hyps(2) step.IH show ?case
    by (cases rule: table_step.cases) (simp_all add: table_ok_connect table_ok_finish)
qed

text \<open>Further result: one connection per host. However hosts connect, reconnect and disconnect, every
  connection that is being served is the registered one of its host or was cancelled, the
  registered ones are all being served, and a host that clients show as up is registered.\<close>

theorem one_connection_per_host:
  assumes "table_step\<^sup>*\<^sup>* host_table_init t"
  shows "(\<forall>n i. ht_active t n = Some i \<longrightarrow> ht_clients t i = Some n \<or> n \<in> ht_cancelled t)
    \<and> (\<forall>i n. ht_clients t i = Some n \<longrightarrow> ht_active t n = Some i) \<and> shown_up t \<subseteq> dom (ht_clients t)"
  using table_reach_ok [OF assms] by (auto simp: table_ok_def)

theorem one_connection_per_host_witness:
  "ht_clients (host_connect 5 (host_connect 5 host_table_init)) 5 = Some 1
   \<and> 0 \<in> ht_cancelled (host_connect 5 (host_connect 5 host_table_init))"
proof -
  have "table_step\<^sup>*\<^sup>* host_table_init (host_connect 5 (host_connect 5 host_table_init))"
    by (meson rtranclp.rtrancl_refl rtranclp.rtrancl_into_rtrancl table_step.connect)
  from one_connection_per_host [OF this]
  have "ht_active (host_connect 5 (host_connect 5 host_table_init)) 0 = Some 5
    \<longrightarrow> ht_clients (host_connect 5 (host_connect 5 host_table_init)) 5 = Some 0
      \<or> 0 \<in> ht_cancelled (host_connect 5 (host_connect 5 host_table_init))" by blast
  then show ?thesis by (simp add: host_connect_def host_table_init_def)
qed

text \<open>Further result: a host that reconnects is shown as down. When a host connects again before its old
  connection was noticed to be gone, the end of the old one tells the clients that the host is
  down, though the new connection is registered and served.\<close>

theorem reconnected_shown_down:
  assumes "table_ok t" and "ht_clients t i = Some n"
  shows "table_step (host_connect i t) (host_finish n i (host_connect i t))
    \<and> ht_clients (host_finish n i (host_connect i t)) i = Some (ht_next t)
    \<and> i \<notin> shown_up (host_finish n i (host_connect i t))"
proof -
  from assms have a: "ht_active t n = Some i" "n < ht_next t" by (auto simp: table_ok_def)
  then have "ht_active (host_connect i t) n = Some i" "ht_clients (host_connect i t) i = Some (ht_next t)"
    by (simp_all add: host_connect_def Let_def)
  moreover from this a have "ht_clients (host_finish n i (host_connect i t)) i = Some (ht_next t)"
    by (simp add: host_finish_def)
  ultimately show ?thesis by (simp add: shown_finish table_step.finish)
qed

theorem reconnected_shown_down_witness:
  "5 \<notin> shown_up (host_finish 0 5 (host_connect 5 (host_connect 5 host_table_init)))"
  using reconnected_shown_down [of "host_connect 5 host_table_init" 5 0]
    table_ok_connect [OF table_reach_ok [OF rtranclp.rtrancl_refl], of 5]
  by (simp add: host_connect_def host_table_init_def)

section \<open>The authority of an NFS group\<close>

text \<open>
  Every caller goes through these steps, between which other callers may go through theirs:
  looking for the stored key, making one, storing it unless there is one by now, reading what is
  stored, and the same for the certificate of that key.
\<close>

type_synonym kvp = "string \<rightharpoonup> string"

datatype ca_pc =
    ReadKey | GenKey | InsertKey string | RereadKey
  | ReadCrt string | GenCrt string | InsertCrt string string | RereadCrt string
  | CaDone string string | CaFailed

definition key_kvp :: "string \<Rightarrow> string" where "key_kvp g = ''nfs_ca_key_'' @ g"

definition crt_kvp :: "string \<Rightarrow> string" where "crt_kvp g = ''nfs_ca_crt_'' @ g"

definition insert_ignore :: "string \<Rightarrow> string \<Rightarrow> kvp \<Rightarrow> kvp" where
  "insert_ignore k v kvp = (if kvp k = None then kvp(k \<mapsto> v) else kvp)"

fun ca_act :: "string \<Rightarrow> string \<Rightarrow> ca_pc \<Rightarrow> kvp \<Rightarrow> ca_pc \<times> kvp" where
  "ca_act made g ReadKey kvp = (case kvp (key_kvp g) of Some v \<Rightarrow> ReadCrt v | None \<Rightarrow> GenKey, kvp)"
| "ca_act made g GenKey kvp = (InsertKey made, kvp)"
| "ca_act made g (InsertKey k) kvp = (RereadKey, insert_ignore (key_kvp g) k kvp)"
| "ca_act made g RereadKey kvp = (case kvp (key_kvp g) of Some v \<Rightarrow> ReadCrt v | None \<Rightarrow> CaFailed, kvp)"
| "ca_act made g (ReadCrt k) kvp = (case kvp (crt_kvp g) of Some c \<Rightarrow> CaDone k c | None \<Rightarrow> GenCrt k, kvp)"
| "ca_act made g (GenCrt k) kvp = (InsertCrt k made, kvp)"
| "ca_act made g (InsertCrt k c) kvp = (RereadCrt k, insert_ignore (crt_kvp g) c kvp)"
| "ca_act made g (RereadCrt k) kvp = (case kvp (crt_kvp g) of Some c \<Rightarrow> CaDone k c | None \<Rightarrow> CaFailed, kvp)"
| "ca_act made g pc kvp = (pc, kvp)"

record ca_sys =
  ca_kvp :: kvp
  ca_calls :: "nat \<rightharpoonup> string \<times> ca_pc"

text \<open>\<open>cert_for k c\<close>: openssl makes \<open>c\<close> for the key \<open>k\<close>.\<close>

inductive ca_step :: "(string \<Rightarrow> string \<Rightarrow> bool) \<Rightarrow> ca_sys \<Rightarrow> ca_sys \<Rightarrow> bool" for cert_for where
  call: "ca_calls s n = None \<Longrightarrow> ca_step cert_for s (s\<lparr>ca_calls := (ca_calls s)(n \<mapsto> (g, ReadKey))\<rparr>)"
| act: "ca_calls s n = Some (g, pc) \<Longrightarrow> (case pc of GenCrt k \<Rightarrow> cert_for k made | _ \<Rightarrow> True)
    \<Longrightarrow> ca_act made g pc (ca_kvp s) = (pc', kvp')
    \<Longrightarrow> ca_step cert_for s (s\<lparr>ca_kvp := kvp', ca_calls := (ca_calls s)(n \<mapsto> (g, pc'))\<rparr>)"

text \<open>What is stored and what a caller holds.\<close>

definition kvp_ok :: "(string \<Rightarrow> string \<Rightarrow> bool) \<Rightarrow> kvp \<Rightarrow> bool" where
  "kvp_ok cert_for kvp \<longleftrightarrow>
     (\<forall>g c. kvp (crt_kvp g) = Some c \<longrightarrow> (\<exists>k. kvp (key_kvp g) = Some k \<and> cert_for k c))"

fun pc_ok :: "(string \<Rightarrow> string \<Rightarrow> bool) \<Rightarrow> kvp \<Rightarrow> string \<Rightarrow> ca_pc \<Rightarrow> bool" where
  "pc_ok cert_for kvp g ReadKey = True"
| "pc_ok cert_for kvp g GenKey = True"
| "pc_ok cert_for kvp g (InsertKey _) = True"
| "pc_ok cert_for kvp g RereadKey = (kvp (key_kvp g) \<noteq> None)"
| "pc_ok cert_for kvp g (ReadCrt k) = (kvp (key_kvp g) = Some k)"
| "pc_ok cert_for kvp g (GenCrt k) = (kvp (key_kvp g) = Some k)"
| "pc_ok cert_for kvp g (InsertCrt k c) = (kvp (key_kvp g) = Some k \<and> cert_for k c)"
| "pc_ok cert_for kvp g (RereadCrt k) = (kvp (key_kvp g) = Some k \<and> kvp (crt_kvp g) \<noteq> None)"
| "pc_ok cert_for kvp g (CaDone k c) = (kvp (key_kvp g) = Some k \<and> kvp (crt_kvp g) = Some c)"
| "pc_ok cert_for kvp g CaFailed = False"

definition ca_ok :: "(string \<Rightarrow> string \<Rightarrow> bool) \<Rightarrow> ca_sys \<Rightarrow> bool" where
  "ca_ok cert_for s \<longleftrightarrow> kvp_ok cert_for (ca_kvp s)
     \<and> (\<forall>n g pc. ca_calls s n = Some (g, pc) \<longrightarrow> pc_ok cert_for (ca_kvp s) g pc)"

lemma kvp_names [simp]: "key_kvp g \<noteq> crt_kvp h" "crt_kvp h \<noteq> key_kvp g"
  "key_kvp g = key_kvp h \<longleftrightarrow> g = h" "crt_kvp g = crt_kvp h \<longleftrightarrow> g = h"
  by (simp_all add: key_kvp_def crt_kvp_def)

text \<open>What is stored stays, so what other callers hold stays right.\<close>

lemma insert_ignore_extends: "kvp \<subseteq>\<^sub>m insert_ignore k v kvp"
  by (auto simp: insert_ignore_def map_le_def)

lemma ca_act_extends: "ca_act made g pc kvp = (pc', kvp') \<Longrightarrow> kvp \<subseteq>\<^sub>m kvp'"
  by (cases pc) (auto simp: insert_ignore_extends)

lemma pc_ok_extends: "kvp \<subseteq>\<^sub>m kvp' \<Longrightarrow> pc_ok cert_for kvp g pc \<Longrightarrow> pc_ok cert_for kvp' g pc"
proof -
  assume "kvp \<subseteq>\<^sub>m kvp'"
  then have keep: "kvp x = Some y \<Longrightarrow> kvp' x = Some y" for x y by (metis domI map_le_def)
  show "pc_ok cert_for kvp g pc \<Longrightarrow> pc_ok cert_for kvp' g pc" by (cases pc) (auto dest: keep)
qed

lemma kvp_okD: "kvp_ok cert_for kvp \<Longrightarrow> kvp (crt_kvp g) = Some c \<Longrightarrow> \<exists>k. kvp (key_kvp g) = Some k \<and> cert_for k c"
  by (simp add: kvp_ok_def)

lemma kvp_okI:
  "(\<And>g c. kvp (crt_kvp g) = Some c \<Longrightarrow> \<exists>k. kvp (key_kvp g) = Some k \<and> cert_for k c) \<Longrightarrow> kvp_ok cert_for kvp"
  by (simp add: kvp_ok_def)

lemma ca_act_ok:
  assumes "ca_act made g pc kvp = (pc', kvp')" and "pc_ok cert_for kvp g pc" and "kvp_ok cert_for kvp"
    and "case pc of GenCrt k \<Rightarrow> cert_for k made | _ \<Rightarrow> True"
  shows "pc_ok cert_for kvp' g pc' \<and> kvp_ok cert_for kvp'"
proof (cases pc)
  case (InsertKey k)
  have "kvp_ok cert_for (insert_ignore (key_kvp g) k kvp)"
    by (rule kvp_okI) (use kvp_okD [OF assms(3)] in \<open>fastforce simp: insert_ignore_def\<close>)
  with InsertKey assms(1) show ?thesis by (auto simp: insert_ignore_def)
next
  case (InsertCrt k c)
  have "kvp_ok cert_for (insert_ignore (crt_kvp g) c kvp)"
    by (rule kvp_okI) (use kvp_okD [OF assms(3)] assms(2) InsertCrt in \<open>auto simp: insert_ignore_def split: if_splits\<close>)
  with InsertCrt assms(1,2) show ?thesis by (auto simp: insert_ignore_def)
qed (use assms in \<open>auto split: option.splits\<close>)

lemma ca_ok_step: "ca_step cert_for s s' \<Longrightarrow> ca_ok cert_for s \<Longrightarrow> ca_ok cert_for s'"
proof (induction rule: ca_step.induct)
  case (call s n g)
  then show ?case by (auto simp: ca_ok_def)
next
  case (act s n g pc made pc' kvp')
  from act have "pc_ok cert_for kvp' g pc' \<and> kvp_ok cert_for kvp'"
    by (intro ca_act_ok [OF act(3)]) (auto simp: ca_ok_def)
  with act ca_act_extends [OF act(3)] pc_ok_extends show ?case by (auto simp: ca_ok_def)
qed

definition ca_init :: "kvp \<Rightarrow> ca_sys" where
  "ca_init kvp = \<lparr>ca_kvp = kvp, ca_calls = Map.empty\<rparr>"

text \<open>Further result: one authority per NFS group. However hosts are provisioned at the same time, all that get
  the authority of a group get the same key and certificate, the certificate is one made for
  that key, and both are what is stored; no caller fails for what another one does.\<close>

theorem group_authority_unique:
  assumes "(ca_step cert_for)\<^sup>*\<^sup>* (ca_init kvp) s" and "kvp_ok cert_for kvp"
    and "ca_calls s n = Some (g, CaDone k c)"
  shows "cert_for k c \<and> ca_kvp s (key_kvp g) = Some k \<and> ca_kvp s (crt_kvp g) = Some c
    \<and> (\<forall>m k' c'. ca_calls s m = Some (g, CaDone k' c') \<longrightarrow> k' = k \<and> c' = c)
    \<and> (\<forall>m h. ca_calls s m \<noteq> Some (h, CaFailed))"
proof -
  from assms(1) have ok: "ca_ok cert_for s"
  proof (induction rule: rtranclp_induct)
    case base
    show ?case using assms(2) by (simp add: ca_ok_def ca_init_def)
  qed (rule ca_ok_step)
  then have stored: "pc_ok cert_for (ca_kvp s) h pc" if "ca_calls s m = Some (h, pc)" for m h pc
    using that by (auto simp: ca_ok_def)
  from stored [OF assms(3)] have kc: "ca_kvp s (key_kvp g) = Some k" "ca_kvp s (crt_kvp g) = Some c" by simp_all
  with kvp_okD [of cert_for "ca_kvp s" g c] ok have "cert_for k c" by (auto simp: ca_ok_def)
  with kc stored show ?thesis by fastforce
qed

text \<open>The witness: two callers that both find no key, of which the slower one takes the other's.\<close>

definition demo_cert :: "string \<Rightarrow> string \<Rightarrow> bool" where "demo_cert k c = (c = k @ ''!'')"

definition ca_auto :: "nat \<Rightarrow> ca_sys \<Rightarrow> ca_sys" where
  "ca_auto n s =
     (case ca_calls s n of
        None \<Rightarrow> s
      | Some (g, pc) \<Rightarrow>
          (case ca_act (case pc of GenCrt k \<Rightarrow> k @ ''!'' | _ \<Rightarrow> if n = 0 then ''a'' else ''b'') g pc (ca_kvp s) of
             (pc', kvp') \<Rightarrow> s\<lparr>ca_kvp := kvp', ca_calls := (ca_calls s)(n \<mapsto> (g, pc'))\<rparr>))"

lemma ca_auto_steps: "(ca_step demo_cert)\<^sup>*\<^sup>* s (fold ca_auto ns s)"
proof (induction ns arbitrary: s)
  case (Cons n ns)
  have "(ca_step demo_cert)\<^sup>*\<^sup>* s (ca_auto n s)"
  proof (cases "ca_calls s n")
    case (Some gpc)
    obtain g pc where gpc: "gpc = (g, pc)" by fastforce
    let ?made = "case pc of GenCrt k \<Rightarrow> k @ ''!'' | _ \<Rightarrow> if n = 0 then ''a'' else ''b''"
    obtain pc' kvp' where a: "ca_act ?made g pc (ca_kvp s) = (pc', kvp')" by fastforce
    have "case pc of GenCrt k \<Rightarrow> demo_cert k ?made | _ \<Rightarrow> True" by (simp add: demo_cert_def split: ca_pc.split)
    from ca_step.act [where made = ?made and cert_for = demo_cert and pc = pc, OF Some [unfolded gpc] this a] Some gpc a
    show ?thesis by (simp add: ca_auto_def)
  qed (simp add: ca_auto_def)
  with Cons.IH [of "ca_auto n s"] show ?case by simp
qed simp

definition both_called :: ca_sys where
  "both_called = (ca_init Map.empty)\<lparr>ca_calls := [0 \<mapsto> (''g'', ReadKey), 1 \<mapsto> (''g'', ReadKey)]\<rparr>"

lemma both_called_reach: "(ca_step demo_cert)\<^sup>*\<^sup>* (ca_init Map.empty) both_called"
proof -
  let ?s = "(ca_init Map.empty)\<lparr>ca_calls := [0 \<mapsto> (''g'', ReadKey)]\<rparr>"
  have "ca_step demo_cert (ca_init Map.empty) ?s"
    using ca_step.call [of "ca_init Map.empty" 0 demo_cert "''g''"] by (simp add: ca_init_def)
  moreover have "ca_step demo_cert ?s both_called"
    using ca_step.call [of ?s 1 demo_cert "''g''"] by (simp add: ca_init_def both_called_def)
  ultimately show ?thesis by (meson rtranclp.rtrancl_refl rtranclp.rtrancl_into_rtrancl)
qed

definition both_done :: ca_sys where
  "both_done = fold ca_auto [0, 1, 0, 1, 1, 0, 0, 1, 0, 1, 0, 1, 1, 0, 0, 1] both_called"

lemma both_done_calls: "ca_calls both_done = [0 \<mapsto> (''g'', CaDone ''b'' ''b!''), 1 \<mapsto> (''g'', CaDone ''b'' ''b!'')]"
  by (simp add: both_done_def both_called_def ca_init_def ca_auto_def insert_ignore_def key_kvp_def crt_kvp_def fun_eq_iff)

theorem group_authority_unique_witness:
  "ca_kvp both_done (key_kvp ''g'') = Some ''b'' \<and> demo_cert ''b'' ''b!''"
proof -
  have reach: "(ca_step demo_cert)\<^sup>*\<^sup>* (ca_init Map.empty) both_done"
    using both_called_reach ca_auto_steps unfolding both_done_def by (rule rtranclp_trans)
  have "kvp_ok demo_cert Map.empty" by (simp add: kvp_ok_def)
  from group_authority_unique [OF reach this, of 0 "''g''" "''b''" "''b!''"] both_done_calls
  show ?thesis by simp
qed

end
