(* ===== verification/Rust_Text.thy ===== *)
theory Rust_Text
  imports Rust_Strings
begin

text \<open>
  \<open>str::trim\<close> on texts in UTF-8: the white space of Unicode is taken away at both ends.
\<close>

definition WHITE :: "string list" where
  "WHITE =
     map (\<lambda>n. [char_of (n :: nat)]) [0x09, 0x0A, 0x0B, 0x0C, 0x0D, 0x20]
     @ [[CHR 0xC2, CHR 0x85], [CHR 0xC2, CHR 0xA0], [CHR 0xE1, CHR 0x9A, CHR 0x80]]
     @ map (\<lambda>n. [CHR 0xE2, CHR 0x80, char_of (n :: nat)])
         [0x80, 0x81, 0x82, 0x83, 0x84, 0x85, 0x86, 0x87, 0x88, 0x89, 0x8A, 0xA8, 0xA9, 0xAF]
     @ [[CHR 0xE2, CHR 0x81, CHR 0x9F], [CHR 0xE3, CHR 0x80, CHR 0x80]]"

lemma WHITE_nonempty: "w \<in> set WHITE \<Longrightarrow> w \<noteq> []"
  by (auto simp: WHITE_def)

lemma bind_find_None:
  "(\<And>x. P x \<Longrightarrow> f x \<noteq> None) \<Longrightarrow> Option.bind (List.find P xs) f = None \<longleftrightarrow> (\<forall>x \<in> set xs. \<not> P x)"
  by (induction xs) auto

text \<open>What is left after one white character at the start.\<close>

definition skip_white :: "string \<Rightarrow> string option" where
  "skip_white s = Option.bind (List.find (\<lambda>w. starts_with w s) WHITE) (\<lambda>w. strip_prefix w s)"

lemma skip_white_None: "skip_white s = None \<longleftrightarrow> (\<forall>w \<in> set WHITE. \<not> starts_with w s)"
  unfolding skip_white_def by (rule bind_find_None) (simp add: starts_with_def)

lemma skip_white_Some: "skip_white s = Some r \<Longrightarrow> \<exists>w \<in> set WHITE. s = w @ r"
  by (auto simp: skip_white_def bind_eq_Some_conv find_Some_iff strip_prefix_Some_iff)

lemma skip_white_length: "skip_white s = Some r \<Longrightarrow> length r < length s"
  using skip_white_Some WHITE_nonempty by fastforce

function trim_start :: "string \<Rightarrow> string" where
  "trim_start s = (case skip_white s of None \<Rightarrow> s | Some r \<Rightarrow> trim_start r)"
  by pat_completeness auto
termination
  by (relation "measure length") (auto dest: skip_white_length)

definition drop_white :: "string \<Rightarrow> string option" where
  "drop_white s = Option.bind (List.find (\<lambda>w. ends_with w s) WHITE) (\<lambda>w. strip_suffix w s)"

lemma drop_white_None: "drop_white s = None \<longleftrightarrow> (\<forall>w \<in> set WHITE. \<not> ends_with w s)"
  unfolding drop_white_def by (rule bind_find_None) (simp add: ends_with_def)

lemma drop_white_Some: "drop_white s = Some r \<Longrightarrow> \<exists>w \<in> set WHITE. s = r @ w"
  by (auto simp: drop_white_def bind_eq_Some_conv find_Some_iff strip_suffix_Some_iff)

lemma drop_white_length: "drop_white s = Some r \<Longrightarrow> length r < length s"
  using drop_white_Some WHITE_nonempty by fastforce

function trim_end :: "string \<Rightarrow> string" where
  "trim_end s = (case drop_white s of None \<Rightarrow> s | Some r \<Rightarrow> trim_end r)"
  by pat_completeness auto
termination
  by (relation "measure length") (auto dest: drop_white_length)

declare trim_start.simps [simp del] trim_end.simps [simp del]

definition trim :: "string \<Rightarrow> string" where
  "trim s = trim_end (trim_start s)"

lemma trim_start_done: "skip_white (trim_start s) = None"
proof (induction s rule: trim_start.induct)
  case (1 s)
  then show ?case by (subst trim_start.simps) (simp split: option.split)
qed

lemma trim_end_done: "drop_white (trim_end s) = None"
proof (induction s rule: trim_end.induct)
  case (1 s)
  then show ?case by (subst trim_end.simps) (simp split: option.split)
qed

lemma trim_end_prefix: "\<exists>t. s = trim_end s @ t"
proof (induction s rule: trim_end.induct)
  case (1 s)
  show ?case
  proof (cases "drop_white s")
    case (Some r)
    from drop_white_Some [OF this] 1 [OF this] Some show ?thesis
      by (subst trim_end.simps) (auto, metis append.assoc)
  qed (subst trim_end.simps, simp)
qed

lemma starts_with_append: "starts_with w s \<Longrightarrow> starts_with w (s @ t)"
  by (auto simp: starts_with_def strip_prefix_Some_iff)

text \<open>Trimming again changes nothing.\<close>

lemma trim_trim [simp]: "trim (trim s) = trim s"
proof -
  obtain t where "trim_start s = trim_end (trim_start s) @ t" using trim_end_prefix by blast
  with trim_start_done [of s] have "skip_white (trim s) = None"
    unfolding skip_white_None trim_def using starts_with_append by metis
  then have "trim_start (trim s) = trim s" by (subst trim_start.simps) simp
  moreover have "trim_end (trim s) = trim s"
    using trim_end_done [of "trim_start s"] unfolding trim_def by (subst trim_end.simps) simp
  ultimately show ?thesis unfolding trim_def by metis
qed

end
