(* ===== verification/Host_Provision.thy ===== *)
theory Host_Provision
  imports Host_Clients Certificates Rust_Text
begin

text \<open>
  What the server runs on a connected host by itself (\<open>src/bin/server/hostclient.rs\<close>): a shell
  command or a small file as a job (\<open>run_shell\<close>, \<open>write_small_text_file\<close>), and in terms of these the
  signing of the SSH host key (\<open>sign_host_certificate\<close>) and the provisioning of the certificates for
  NFS (\<open>provision_nfs_tls\<close>). What the host answers to a command after those before it, and what
  openssl answers, are parameters.
\<close>

section \<open>A command as a job\<close>

definition QUOTE :: char where "QUOTE = CHR 0x27"

definition shell_message :: "u64 \<Rightarrow> string \<Rightarrow> host_client_message" where
  "shell_message i cmd =
     HcRunInstant \<lparr>ri_id = i, ri_name = ''runShell.sh'', ri_interperter = ''/bin/sh'', ri_content = cmd,
       ri_args = [], ri_output_type = OutText, ri_stdin_type = StdinNone\<rparr>"

definition write_message :: "u64 \<Rightarrow> string \<Rightarrow> string \<Rightarrow> host_client_message" where
  "write_message i path content =
     HcRunInstant \<lparr>ri_id = i, ri_name = ''writeSmallFile.sh'', ri_interperter = ''/bin/bash'',
       ri_content = ''printf '' @ [QUOTE] @ ''%s'' @ [QUOTE] @ '' \"$2\" > \"$1\"'', ri_args = [path, content],
       ri_output_type = OutText, ri_stdin_type = StdinNone\<rparr>"

definition job_begin ::
  "(u64 \<Rightarrow> host_client_message) \<Rightarrow> write_outcome \<Rightarrow> host_link \<Rightarrow> (link_error + job_handle) \<times> host_link" where
  "job_begin msg out st = (let (i, st1) = next_job_id st in start_job out (msg i) st1)"

text \<open>The end of \<open>run_shell\<close>, once the job's channel has a message or is closed.\<close>

fun run_shell_end ::
  "job_handle \<Rightarrow> client_host_message option \<Rightarrow> host_link \<Rightarrow> (link_error + string) \<times> host_link" where
  "run_shell_end h (Some (ChSuccess m)) st =
     ((case sm_code m of
         Some code \<Rightarrow>
           if code \<noteq> 0 then Inl (CommandFailed (sint code))
           else (case sm_data m of Some (JString v) \<Rightarrow> Inr v | _ \<Rightarrow> Inl MissingData)
       | None \<Rightarrow> (case sm_data m of Some (JString v) \<Rightarrow> Inr v | _ \<Rightarrow> Inl MissingData)),
      done_handle h st)"
| "run_shell_end h (Some (ChFailure m)) st =
     (Inl (CommandFailed (case fm_code m of Some code \<Rightarrow> sint code | None \<Rightarrow> - 43)), done_handle h st)"
| "run_shell_end h (Some _) st = (Inl UnexpectedMessage, drop_handle h st)"
| "run_shell_end h None st = (Inl ClientWentAway, drop_handle h st)"

fun write_file_end ::
  "job_handle \<Rightarrow> client_host_message option \<Rightarrow> host_link \<Rightarrow> (link_error + unit) \<times> host_link" where
  "write_file_end h (Some (ChSuccess m)) st =
     ((case sm_code m of
         Some code \<Rightarrow> if code \<noteq> 0 then Inl (CommandFailed (sint code)) else Inr ()
       | None \<Rightarrow> Inr ()),
      done_handle h st)"
| "write_file_end h (Some (ChFailure m)) st =
     (Inl (CommandFailed (case fm_code m of Some code \<Rightarrow> sint code | None \<Rightarrow> - 45)), done_handle h st)"
| "write_file_end h (Some _) st = (Inl UnexpectedMessage, drop_handle h st)"
| "write_file_end h None st = (Inl ClientWentAway, drop_handle h st)"

text \<open>Further result: a command leaves no job behind. However it ends, the sink of its job is gone; the job is
  killed exactly when the host did not say that it is over, and was not killed before.\<close>

theorem command_leaves_no_job:
  assumes "jh_should_kill h"
  shows "hl_sinks (snd (run_shell_end h r st)) (jh_id h) = None
    \<and> hl_kills (snd (run_shell_end h r st)) =
        hl_kills st @ (if (\<exists>m. r = Some (ChSuccess m) \<or> (\<exists>m. r = Some (ChFailure m))) \<or> jh_id h \<in> hl_killed st
                       then [] else [jh_id h])"
proof -
  have k: "hl_kills (drop_handle h st) = hl_kills st @ (if jh_id h \<in> hl_killed st then [] else [jh_id h])"
    "hl_kills (done_handle h st) = hl_kills st"
    "hl_sinks (drop_handle h st) (jh_id h) = None" "hl_sinks (done_handle h st) (jh_id h) = None"
    using assms by (simp_all add: done_handle_def drop_handle_def spawn_kill_job_def Let_def)
  show ?thesis
  proof (cases r)
    case (Some m)
    then show ?thesis by (cases m) (simp_all add: k)
  qed (simp add: k)
qed

section \<open>Sequences of commands\<close>

datatype host_cmd = ShellCmd string | WriteText string string

type_synonym host_replies = "host_cmd list \<Rightarrow> host_cmd \<Rightarrow> link_error + string"

datatype prov_error = ProvLink link_error | ProvDb db_error | ProvTool string | ProvLoops | ProvContent string

text \<open>A sequence of commands returns a value or fails, and says what was run so far.\<close>

type_synonym 'a prog = "host_cmd list \<Rightarrow> (prov_error + 'a) \<times> host_cmd list"

definition give :: "prov_error + 'a \<Rightarrow> 'a prog" where
  "give r cmds = (r, cmds)"

definition pbind :: "'a prog \<Rightarrow> ('a \<Rightarrow> 'b prog) \<Rightarrow> 'b prog" where
  "pbind p f cmds = (case p cmds of (Inl e, cmds') \<Rightarrow> (Inl e, cmds') | (Inr v, cmds') \<Rightarrow> f v cmds')"

definition pseq :: "'a prog \<Rightarrow> 'b prog \<Rightarrow> 'b prog" where
  "pseq p q = pbind p (\<lambda>_. q)"

definition run_cmd :: "host_replies \<Rightarrow> host_cmd \<Rightarrow> string prog" where
  "run_cmd rep cmd cmds = (map_sum ProvLink id (rep cmds cmd), cmds @ [cmd])"

fun run_cmds :: "host_replies \<Rightarrow> host_cmd list \<Rightarrow> unit prog" where
  "run_cmds rep [] = give (Inr ())"
| "run_cmds rep (c # cs) = pseq (run_cmd rep c) (run_cmds rep cs)"

lemma run_cmds_append: "run_cmds rep (cs @ ds) = pseq (run_cmds rep cs) (run_cmds rep ds)"
  by (induction cs) (auto simp: pseq_def pbind_def give_def fun_eq_iff split: sum.split prod.split)

section \<open>The SSH host certificate\<close>

record prov_env =
  pv_hostname :: string
  pv_id :: int
  pv_parse :: "string \<Rightarrow> string + value_map"
  pv_tool :: tool
  pv_ca :: "string \<Rightarrow> prov_error + string \<times> string"
  pv_server_key :: "string + string"
  pv_client_key :: "string + string"

definition tool_result :: "string + 'a \<Rightarrow> prov_error + 'a" where
  "tool_result = map_sum ProvTool id"

definition sign_host_certificate :: "prov_env \<Rightarrow> host_replies \<Rightarrow> objects_db \<Rightarrow> unit prog" where
  "sign_host_certificate env rep db =
     pbind (run_cmd rep (ShellCmd ''cat /etc/ssh/ssh_host_ed25519_key.pub'')) (\<lambda>host_key.
     pbind (give (map_sum ProvDb id (get_root_variables (pv_parse env) db))) (\<lambda>r.
     case r ''sshHostCaKey'' of
       None \<Rightarrow> give (Inr ())
     | Some ca \<Rightarrow>
         pbind (give (tool_result (generate_ssh_crt (pv_tool env) (pv_hostname env @ '' sadmin host'')
             (pv_hostname env @ '','' @ pv_hostname env @ ''.scalgo.com,'' @ pv_hostname env @ ''.emu-buri.ts.net'')
             ca host_key 7 True))) (\<lambda>ssh_crt.
         run_cmds rep [WriteText ''/etc/ssh/ssh_host_ed25519_key-cert.pub'' ssh_crt,
           ShellCmd (''systemctl reload '' @ [QUOTE] @ ''ssh*.service'' @ [QUOTE])])))"

section \<open>The certificates for NFS\<close>

definition check_removed :: string where
  "check_removed =
     ''if test -f /etc/nfs-tls/sadmin-server.crt || test -f /etc/nfs-tls/sadmin-ca.crt; then echo yes; else echo no; fi''"

definition check_present :: string where
  "check_present =
     ''if test -f /etc/nfs-tls/sadmin-server.crt && test -f /etc/nfs-tls/sadmin-server.key ''
     @ ''&& test -f /etc/nfs-tls/sadmin-client.crt && test -f /etc/nfs-tls/sadmin-client.key ''
     @ ''&& test -f /etc/nfs-tls/sadmin-ca.crt && test -f /etc/tlshd.conf; then echo yes; else echo no; fi''"

definition cat_group :: string where
  "cat_group = ''cat /etc/nfs-tls/sadmin-group 2>/dev/null || true''"

definition remove_all :: "host_cmd list" where
  "remove_all =
     [ShellCmd (''rm -f /etc/nfs-tls/sadmin-server.crt /etc/nfs-tls/sadmin-server.key ''
        @ ''/etc/nfs-tls/sadmin-client.crt /etc/nfs-tls/sadmin-client.key ''
        @ ''/etc/nfs-tls/sadmin-ca.crt /etc/nfs-tls/sadmin-group /etc/tlshd.conf''),
      ShellCmd ''! systemctl is-active tlshd 2>/dev/null || systemctl restart tlshd'']"

definition tlshd_conf :: string where
  "tlshd_conf =
     lines_text [''[debug]'', ''loglevel=1'', ''tls=0'', ''nl=0'', ''        '', ''[authenticate]'', ''keyrings=.nfs'', [],
       ''[authenticate.client]'', ''x509.truststore=/etc/nfs-tls/sadmin-ca.crt'',
       ''x509.certificate=/etc/nfs-tls/sadmin-client.crt'', ''x509.private_key=/etc/nfs-tls/sadmin-client.key'', [],
       ''[authenticate.server]'', ''x509.truststore=/etc/nfs-tls/sadmin-ca.crt'',
       ''x509.certificate=/etc/nfs-tls/sadmin-server.crt'', ''x509.private_key=/etc/nfs-tls/sadmin-server.key'']"

definition make_dir :: host_cmd where
  "make_dir = ShellCmd ''mkdir -p /etc/nfs-tls && chmod 700 /etc/nfs-tls''"

definition restrict_files :: host_cmd where
  "restrict_files =
     ShellCmd (''chmod 600 /etc/nfs-tls/sadmin-server.key /etc/nfs-tls/sadmin-client.key && ''
       @ ''chmod 644 /etc/nfs-tls/sadmin-server.crt /etc/nfs-tls/sadmin-client.crt ''
       @ ''/etc/nfs-tls/sadmin-ca.crt /etc/nfs-tls/sadmin-group && chmod 600 /etc/tlshd.conf'')"

definition restart_tlshd :: host_cmd where
  "restart_tlshd = ShellCmd ''systemctl restart tlshd''"

record nfs_files =
  nf_server_crt :: string
  nf_server_key :: string
  nf_client_crt :: string
  nf_client_key :: string
  nf_ca_crt :: string
  nf_group :: string

definition write_files :: "nfs_files \<Rightarrow> host_cmd list" where
  "write_files f =
     [WriteText ''/etc/nfs-tls/sadmin-server.crt'' (nf_server_crt f),
      WriteText ''/etc/nfs-tls/sadmin-server.key'' (nf_server_key f),
      WriteText ''/etc/nfs-tls/sadmin-client.crt'' (nf_client_crt f),
      WriteText ''/etc/nfs-tls/sadmin-client.key'' (nf_client_key f),
      WriteText ''/etc/nfs-tls/sadmin-ca.crt'' (nf_ca_crt f),
      WriteText ''/etc/nfs-tls/sadmin-group'' (nf_group f),
      WriteText ''/etc/tlshd.conf'' tlshd_conf]"

text \<open>The name in the certificates and the names they are for.\<close>

definition node_names :: "string \<Rightarrow> (string \<rightharpoonup> string) \<Rightarrow> string \<times> string list" where
  "node_names hostname vars =
     (let nodename = (case vars ''nodename'' of Some n \<Rightarrow> if n \<noteq> [] then n else hostname | None \<Rightarrow> hostname);
          cn = (case vars ''domain'' of Some d \<Rightarrow> if d \<noteq> [] then nodename @ ''.'' @ d else nodename | None \<Rightarrow> nodename)
      in (cn, dedup_by (=) (sort_by str_cmp [hostname, nodename, cn])))"

definition make_files :: "prov_env \<Rightarrow> string \<Rightarrow> (string \<rightharpoonup> string) \<Rightarrow> prov_error + nfs_files" where
  "make_files env grp vars =
     (let (cn, sans) = node_names (pv_hostname env) vars
      in res_bind (pv_ca env grp) (\<lambda>(ca_key, ca_crt).
         res_bind (tool_result (pv_server_key env)) (\<lambda>server_key.
         res_bind (tool_result (generate_srs (pv_tool env) server_key cn)) (\<lambda>server_srs.
         res_bind (tool_result (generate_crt_san (pv_tool env) ca_key ca_crt server_srs [] sans 9999)) (\<lambda>server_crt.
         res_bind (tool_result (pv_client_key env)) (\<lambda>client_key.
         res_bind (tool_result (generate_srs (pv_tool env) client_key cn)) (\<lambda>client_srs.
         res_bind (tool_result (generate_crt_san (pv_tool env) ca_key ca_crt client_srs [] sans 9999)) (\<lambda>client_crt.
         Inr \<lparr>nf_server_crt = server_crt, nf_server_key = server_key, nf_client_crt = client_crt,
              nf_client_key = client_key, nf_ca_crt = ca_crt, nf_group = grp\<rparr>))))))))"

definition host_variables :: "prov_env \<Rightarrow> objects_db \<Rightarrow> prov_error + (string \<rightharpoonup> string)" where
  "host_variables env db =
     (case get_host_variables (pv_parse env) (pv_id env) db of
        None \<Rightarrow> Inl ProvLoops
      | Some (Inl e) \<Rightarrow> Inl (ProvDb e)
      | Some (Inr vars) \<Rightarrow> Inr (opt_or vars Map.empty))"

definition nfs_group :: "value_map \<Rightarrow> string" where
  "nfs_group content = trim (opt_or (Option.bind (obj_get ''nfsGroup'' content) as_str) [])"

definition install :: "prov_env \<Rightarrow> host_replies \<Rightarrow> string \<Rightarrow> objects_db \<Rightarrow> unit prog" where
  "install env rep grp db =
     pbind (give (host_variables env db)) (\<lambda>vars.
     pbind (give (make_files env grp vars)) (\<lambda>f.
     run_cmds rep (make_dir # write_files f @ [restrict_files, restart_tlshd])))"

definition provision_nfs_tls :: "prov_env \<Rightarrow> host_replies \<Rightarrow> objects_db \<Rightarrow> unit prog" where
  "provision_nfs_tls env rep db =
     (case List.find (\<lambda>r. r_id r = pv_id env \<and> r_newest r) (od_rows db) of
        None \<Rightarrow> give (Inr ())
      | Some r \<Rightarrow>
          pbind (give (map_sum ProvContent id (pv_parse env (r_content r)))) (\<lambda>content.
          let grp = nfs_group content
          in if grp = [] then
               pbind (run_cmd rep (ShellCmd check_removed)) (\<lambda>check.
               if trim check = ''yes'' then run_cmds rep remove_all else give (Inr ()))
             else
               pbind (run_cmd rep (ShellCmd check_present)) (\<lambda>check.
               if trim check = ''yes'' then
                 pbind (run_cmd rep (ShellCmd cat_group)) (\<lambda>current_group.
                 if trim current_group = grp then give (Inr ()) else install env rep grp db)
               else install env rep grp db)))"

section \<open>What is run\<close>

lemmas prog_defs = pbind_def pseq_def give_def run_cmd_def

text \<open>A sequence of fixed commands: all of them, or those up to the first that fails.\<close>

lemma run_cmds_result:
  "run_cmds rep cs cmds = (res, cmds') \<Longrightarrow>
     (res = Inr () \<longrightarrow> cmds' = cmds @ cs)
     \<and> (\<forall>e. res = Inl e \<longrightarrow> (\<exists>pre c rest x. cs = pre @ c # rest \<and> cmds' = cmds @ pre @ [c]
          \<and> rep (cmds @ pre) c = Inl x))"
proof (induction cs arbitrary: cmds)
  case (Cons c cs)
  show ?case
  proof (cases "rep cmds c")
    case (Inl e)
    with Cons.prems show ?thesis by (auto simp: prog_defs intro!: exI [of _ "[]"])
  next
    case (Inr v)
    with Cons.prems have "run_cmds rep cs (cmds @ [c]) = (res, cmds')" by (simp add: prog_defs)
    note ih = Cons.IH [OF this]
    show ?thesis
    proof (intro conjI allI impI)
      show "res = Inr () \<Longrightarrow> cmds' = cmds @ c # cs" using ih by simp
      fix e
      assume "res = Inl e"
      with ih obtain pre d rest x where "cs = pre @ d # rest" "cmds' = (cmds @ [c]) @ pre @ [d]"
        "rep ((cmds @ [c]) @ pre) d = Inl x" by blast
      then show "\<exists>pre d rest x. c # cs = pre @ d # rest \<and> cmds' = cmds @ pre @ [d]
          \<and> rep (cmds @ pre) d = Inl x"
        by (intro exI [of _ "c # pre"] exI [of _ d] exI [of _ rest] exI [of _ x]) simp
    qed
  qed
qed (auto simp: give_def)

lemma make_files_group: "make_files env grp vars = Inr f \<Longrightarrow> nf_group f = grp"
  by (auto simp: make_files_def Let_def res_bind_Inr split: prod.splits)

lemma install_result:
  assumes "install env rep grp db cmds = (res, cmds')"
  shows "((\<exists>e. res = Inl e) \<and> cmds' = cmds)
    \<or> (\<exists>vars f. host_variables env db = Inr vars \<and> make_files env grp vars = Inr f
        \<and> run_cmds rep (make_dir # write_files f @ [restrict_files, restart_tlshd]) cmds = (res, cmds'))"
  using assms unfolding install_def pbind_def give_def
  by (auto split: sum.splits simp del: run_cmds.simps)

text \<open>The host has a group, so what is run depends on what the checks answer.\<close>

lemma provision_group:
  assumes "List.find (\<lambda>r. r_id r = pv_id env \<and> r_newest r) (od_rows db) = Some r"
    and "pv_parse env (r_content r) = Inr content" and "nfs_group content \<noteq> []"
  shows "provision_nfs_tls env rep db cmds =
    (case rep cmds (ShellCmd check_present) of
       Inl e \<Rightarrow> (Inl (ProvLink e), cmds @ [ShellCmd check_present])
     | Inr check \<Rightarrow>
         if trim check = ''yes'' then
           (case rep (cmds @ [ShellCmd check_present]) (ShellCmd cat_group) of
              Inl e \<Rightarrow> (Inl (ProvLink e), cmds @ [ShellCmd check_present, ShellCmd cat_group])
            | Inr g \<Rightarrow>
                if trim g = nfs_group content then (Inr (), cmds @ [ShellCmd check_present, ShellCmd cat_group])
                else install env rep (nfs_group content) db (cmds @ [ShellCmd check_present, ShellCmd cat_group]))
         else install env rep (nfs_group content) db (cmds @ [ShellCmd check_present]))"
  unfolding provision_nfs_tls_def assms(1) option.case pbind_def give_def
  by (simp add: assms(2,3) Let_def run_cmd_def split: sum.split)

definition all_checks :: "host_cmd list set" where
  "all_checks = {[ShellCmd check_present], [ShellCmd check_present, ShellCmd cat_group]}"

lemma provision_group_cases:
  assumes "List.find (\<lambda>r. r_id r = pv_id env \<and> r_newest r) (od_rows db) = Some r"
    and "pv_parse env (r_content r) = Inr content" and "nfs_group content \<noteq> []"
    and "provision_nfs_tls env rep db cmds = (res, cmds')"
  obtains (checked) checks where "checks \<in> all_checks" "cmds' = cmds @ checks"
      "res = Inr () \<Longrightarrow> checks = [ShellCmd check_present, ShellCmd cat_group]"
    | (installed) checks where "checks \<in> all_checks"
      "install env rep (nfs_group content) db (cmds @ checks) = (res, cmds')"
  using assms(4) unfolding provision_group [OF assms(1-3)] all_checks_def
  by (auto split: sum.splits if_splits)

text \<open>Further result: what a host gets. When its provisioning succeeds with a group, either nothing is run but the
  checks that find the files of this group there, or after them exactly this is run: the
  directory is made for root alone, and only then the files are written, the private keys among
  them, then their rights are set and the daemon is restarted.\<close>

theorem provision_installs:
  assumes "List.find (\<lambda>r. r_id r = pv_id env \<and> r_newest r) (od_rows db) = Some r"
    and "pv_parse env (r_content r) = Inr content" and "nfs_group content \<noteq> []"
    and "provision_nfs_tls env rep db cmds = (Inr (), cmds')"
  shows "cmds' = cmds @ [ShellCmd check_present, ShellCmd cat_group]
    \<or> (\<exists>checks vars f. cmds' = cmds @ checks @ make_dir # write_files f @ [restrict_files, restart_tlshd]
        \<and> checks \<in> all_checks
        \<and> host_variables env db = Inr vars \<and> make_files env (nfs_group content) vars = Inr f
        \<and> nf_group f = nfs_group content)"
proof (cases "cmds' = cmds @ [ShellCmd check_present, ShellCmd cat_group]")
  case False
  obtain checks where checks: "checks \<in> all_checks"
      "install env rep (nfs_group content) db (cmds @ checks) = (Inr (), cmds')"
    using provision_group_cases [OF assms] False by metis
  from install_result [OF checks(2)] obtain vars f where f: "host_variables env db = Inr vars"
      "make_files env (nfs_group content) vars = Inr f"
      "run_cmds rep (make_dir # write_files f @ [restrict_files, restart_tlshd]) (cmds @ checks) = (Inr (), cmds')"
    by auto
  from run_cmds_result [OF f(3)]
  have "cmds' = cmds @ checks @ make_dir # write_files f @ [restrict_files, restart_tlshd]" by simp
  with checks(1) f(1,2) make_files_group [OF f(2)] show ?thesis by blast
qed simp

lemma before_element: "a @ b = pre @ c # rest \<Longrightarrow> c \<notin> set a \<Longrightarrow> set a \<subseteq> set pre"
  by (auto simp: append_eq_append_conv2 append_eq_Cons_conv)

lemma last_steps_differ:
  "restrict_files \<notin> set (make_dir # write_files f)" "restart_tlshd \<notin> set (make_dir # write_files f)"
  "restrict_files \<noteq> ShellCmd check_present" "restart_tlshd \<noteq> ShellCmd check_present"
  "restrict_files \<noteq> ShellCmd cat_group" "restart_tlshd \<noteq> ShellCmd cat_group"
  by (simp_all add: restrict_files_def restart_tlshd_def make_dir_def write_files_def check_present_def cat_group_def)

lemma trim_yes: "trim (''yes'' @ [NL]) = ''yes''"
  by code_simp

text \<open>Further result: a restart that failed is not made up for. When the rights or the restart fail, after all
  the files were written, and the host answers the next day that it has them, with the group
  in them, then nothing but the two checks is run: the keys keep the rights they have and the
  daemon the certificates it has.\<close>

theorem failed_restart_not_repaired:
  assumes "List.find (\<lambda>r. r_id r = pv_id env \<and> r_newest r) (od_rows db) = Some r"
    and "pv_parse env (r_content r) = Inr content" and "nfs_group content \<noteq> []"
    and "provision_nfs_tls env rep db cmds = (Inl e, cmds')" and "last cmds' \<in> {restrict_files, restart_tlshd}"
    and "rep cmds' (ShellCmd check_present) = Inr (''yes'' @ [NL])"
    and "rep (cmds' @ [ShellCmd check_present]) (ShellCmd cat_group) = Inr (nfs_group content)"
  shows "(\<exists>f. set (write_files f) \<subseteq> set cmds' \<and> nf_group f = nfs_group content)
    \<and> provision_nfs_tls env rep db cmds' = (Inr (), cmds' @ [ShellCmd check_present, ShellCmd cat_group])"
proof
  have no_check: "last (cmds @ checks) \<notin> {restrict_files, restart_tlshd}" if "checks \<in> all_checks" for checks
    using that by (auto simp: all_checks_def last_steps_differ dest: sym)
  obtain checks where checks: "checks \<in> all_checks"
      "install env rep (nfs_group content) db (cmds @ checks) = (Inl e, cmds')"
    using provision_group_cases [OF assms(1-4)] no_check assms(5) by metis
  then have "cmds' \<noteq> cmds @ checks" using assms(5) no_check by auto
  with install_result [OF checks(2)] obtain vars f where f: "make_files env (nfs_group content) vars = Inr f"
      "run_cmds rep (make_dir # write_files f @ [restrict_files, restart_tlshd]) (cmds @ checks) = (Inl e, cmds')"
    by auto
  from run_cmds_result [OF f(2)] obtain pre c rest
    where pre: "make_dir # write_files f @ [restrict_files, restart_tlshd] = pre @ c # rest"
      "cmds' = (cmds @ checks) @ pre @ [c]" by blast
  with assms(5) last_steps_differ(1,2) [of f] have "c \<notin> set (make_dir # write_files f)" by auto
  from before_element [OF _ this, of "[restrict_files, restart_tlshd]" pre rest] pre
  show "\<exists>f. set (write_files f) \<subseteq> set cmds' \<and> nf_group f = nfs_group content"
    using make_files_group [OF f(1)] by auto
  show "provision_nfs_tls env rep db cmds' = (Inr (), cmds' @ [ShellCmd check_present, ShellCmd cat_group])"
    unfolding provision_group [OF assms(1-3)] using assms(6,7) trim_yes by (simp add: nfs_group_def)
qed

text \<open>The witnesses: a host of the group \<open>g\<close> whose daemon cannot be restarted.\<close>

definition demo_nfs_env :: prov_env where
  "demo_nfs_env =
     \<lparr>pv_hostname = ''web'', pv_id = 7,
      pv_parse = (\<lambda>s. Inr (if s = ''host'' then [(''nfsGroup'', JString ''g'')] else [])),
      pv_tool = (\<lambda>_. Inr ''crt''), pv_ca = (\<lambda>_. Inr (''k'', ''c'')), pv_server_key = Inr ''sk'',
      pv_client_key = Inr ''ck''\<rparr>"

definition nfs_row :: "int \<Rightarrow> int \<Rightarrow> string \<Rightarrow> obj_row" where
  "nfs_row i ty content =
     \<lparr>r_id = i, r_version = 1, r_type = ty, r_name = ''web'', r_content = content, r_time = 0,
      r_newest = True, r_category = None, r_comment = '''', r_author = None\<rparr>"

definition nfs_db :: objects_db where
  "nfs_db = \<lparr>od_rows = [nfs_row 7 HOST_ID ''host'', nfs_row ROOT_INSTANCE_ID ROOT_ID ''root''], od_next = 10000\<rparr>"

definition demo_replies :: "bool \<Rightarrow> host_replies" where
  "demo_replies ok cmds c =
     (if c = ShellCmd check_present then Inr (if cmds = [] then ''no'' else ''yes'' @ [NL])
      else if c = ShellCmd cat_group then Inr ''g''
      else if c = restart_tlshd \<and> \<not> ok then Inl (CommandFailed 1)
      else Inr [])"

definition demo_files :: nfs_files where
  "demo_files =
     \<lparr>nf_server_crt = ''crt'', nf_server_key = ''sk'', nf_client_crt = ''crt'', nf_client_key = ''ck'',
      nf_ca_crt = ''c'', nf_group = ''g''\<rparr>"

lemma demo_nfs_vars: "\<exists>vars. host_variables demo_nfs_env nfs_db = Inr vars"
  by (simp add: host_variables_def get_host_variables_def get_object_by_id_and_type_def fetch_optional_def
      demo_nfs_env_def nfs_db_def nfs_row_def row_object_def get_root_variables_def host_walk.simps
      HOST_ID_def ROOT_ID_def ROOT_INSTANCE_ID_def object_type_of_i64_def contains_iter_def int_array_def obj_get_def)

lemma demo_trims: "trim ''no'' = ''no''" "trim ''g'' = ''g''"
  by code_simp+

lemma demo_nfs_facts:
  "List.find (\<lambda>r. r_id r = pv_id demo_nfs_env \<and> r_newest r) (od_rows nfs_db) = Some (nfs_row 7 HOST_ID ''host'')"
  "pv_parse demo_nfs_env (r_content (nfs_row 7 HOST_ID ''host'')) = Inr [(''nfsGroup'', JString ''g'')]"
  "nfs_group [(''nfsGroup'', JString ''g'')] = ''g''"
  by (simp_all add: demo_nfs_env_def nfs_db_def nfs_row_def nfs_group_def demo_trims obj_get_def)

lemma demo_run:
  "provision_nfs_tls demo_nfs_env (demo_replies ok) nfs_db [] =
     (if ok then Inr () else Inl (ProvLink (CommandFailed 1)),
      ShellCmd check_present # make_dir # write_files demo_files @ [restrict_files, restart_tlshd])"
proof -
  obtain vars where v: "host_variables demo_nfs_env nfs_db = Inr vars" using demo_nfs_vars by blast
  have f: "make_files demo_nfs_env ''g'' vars = Inr demo_files"
    by (simp add: make_files_def demo_nfs_env_def demo_files_def tool_result_def generate_srs_def
        generate_crt_san_def Let_def split: prod.split)
  have "run_cmds (demo_replies ok) (make_dir # write_files demo_files @ [restrict_files, restart_tlshd]) [ShellCmd check_present]
      = (if ok then Inr () else Inl (ProvLink (CommandFailed 1)),
         ShellCmd check_present # make_dir # write_files demo_files @ [restrict_files, restart_tlshd])"
    by (simp add: write_files_def prog_defs demo_replies_def make_dir_def restrict_files_def restart_tlshd_def
        check_present_def cat_group_def)
  with v f show ?thesis
    unfolding provision_group [OF demo_nfs_facts(1,2), unfolded demo_nfs_facts(3), simplified]
    by (simp add: demo_replies_def demo_trims install_def pbind_def give_def del: run_cmds.simps)
qed

theorem provision_installs_witness:
  "\<exists>cmds' f. provision_nfs_tls demo_nfs_env (demo_replies True) nfs_db [] = (Inr (), cmds')
     \<and> set (write_files f) \<subseteq> set cmds' \<and> nf_group f = ''g''"
proof -
  have g: "nfs_group [(''nfsGroup'', JString ''g'')] \<noteq> []" by (simp add: demo_nfs_facts)
  have run: "provision_nfs_tls demo_nfs_env (demo_replies True) nfs_db []
      = (Inr (), ShellCmd check_present # make_dir # write_files demo_files @ [restrict_files, restart_tlshd])"
    using demo_run [of True] by simp
  from provision_installs [OF demo_nfs_facts(1,2) g run] show ?thesis
    unfolding demo_nfs_facts(3) using run by (force simp: make_dir_def write_files_def)
qed

theorem failed_restart_not_repaired_witness:
  "\<exists>cmds' e. provision_nfs_tls demo_nfs_env (demo_replies False) nfs_db [] = (Inl e, cmds')
     \<and> provision_nfs_tls demo_nfs_env (demo_replies False) nfs_db cmds'
         = (Inr (), cmds' @ [ShellCmd check_present, ShellCmd cat_group])"
proof -
  let ?cmds' = "ShellCmd check_present # make_dir # write_files demo_files @ [restrict_files, restart_tlshd]"
  have g: "nfs_group [(''nfsGroup'', JString ''g'')] \<noteq> []" by (simp add: demo_nfs_facts)
  have run: "provision_nfs_tls demo_nfs_env (demo_replies False) nfs_db []
      = (Inl (ProvLink (CommandFailed 1)), ?cmds')"
    using demo_run [of False] by simp
  have "last ?cmds' \<in> {restrict_files, restart_tlshd}" by simp
  moreover have "demo_replies False ?cmds' (ShellCmd check_present) = Inr (''yes'' @ [NL])"
    by (simp add: demo_replies_def)
  moreover have "demo_replies False (?cmds' @ [ShellCmd check_present]) (ShellCmd cat_group)
      = Inr (nfs_group [(''nfsGroup'', JString ''g'')])"
    by (simp add: demo_replies_def demo_nfs_facts cat_group_def check_present_def)
  ultimately show ?thesis
    using failed_restart_not_repaired [OF demo_nfs_facts(1,2) g run] run by blast
qed

theorem command_leaves_no_job_witness:
  "hl_kills (snd (run_shell_end \<lparr>jh_id = 3, jh_chan = 0, jh_should_kill = True\<rparr> None (link_init 3))) = [3]"
  using command_leaves_no_job [of "\<lparr>jh_id = 3, jh_chan = 0, jh_should_kill = True\<rparr>" None "link_init 3"]
  by (simp add: link_init_def)

end
