(* ===== verification/Service_Description.thy ===== *)
theory Service_Description
  imports Rust_Strings
begin

text \<open>
  The description of a service (\<open>service_description.rs\<close>): signals with their names and
  numbers, durations and sizes with a unit as they are written in a description, sockets to
  bind, metrics, and the description itself with its defaults. Floating point numbers are a
  type parameter \<open>'f\<close>; printing and parsing a number (\<open>Display\<close> and \<open>FromStr\<close> of \<open>f64\<close> and
  \<open>u64\<close>) are arguments, and a round trip assumes of them what Rust documents: that a number
  printed is parsed back.
\<close>

section \<open>Signals\<close>

datatype signal = Sig_Usr1 | Sig_Usr2 | Sig_Kill | Sig_Term | Sig_Abort | Sig_Hub | Sig_Int

fun signal_name :: "signal \<Rightarrow> string" where
  "signal_name Sig_Usr1 = ''USR1''"
| "signal_name Sig_Usr2 = ''USR2''"
| "signal_name Sig_Kill = ''KILL''"
| "signal_name Sig_Term = ''TERM''"
| "signal_name Sig_Abort = ''ABORT''"
| "signal_name Sig_Hub = ''HUB''"
| "signal_name Sig_Int = ''INT''"

fun signal_number :: "signal \<Rightarrow> int" where
  "signal_number Sig_Usr1 = 10"
| "signal_number Sig_Usr2 = 12"
| "signal_number Sig_Kill = 9"
| "signal_number Sig_Term = 15"
| "signal_number Sig_Abort = 6"
| "signal_number Sig_Hub = 1"
| "signal_number Sig_Int = 2"

section \<open>Durations\<close>

datatype 'f duration = Dur_MS 'f | Dur_S 'f | Dur_M 'f | Dur_H 'f | Dur_D 'f

fun duration_serialize :: "('f \<Rightarrow> string) \<Rightarrow> 'f duration \<Rightarrow> string" where
  "duration_serialize pr (Dur_MS v) = pr v @ ''ms''"
| "duration_serialize pr (Dur_S v) = pr v @ ''s''"
| "duration_serialize pr (Dur_M v) = pr v @ ''m''"
| "duration_serialize pr (Dur_H v) = pr v @ ''h''"
| "duration_serialize pr (Dur_D v) = pr v @ ''d''"

datatype unit_error = Not_a_number string | Not_a_duration string | Not_a_size string

text \<open>One unit after the other: the first suffix that fits decides, also when what stands
  before it is no number.\<close>

fun by_suffix ::
  "(string \<times> (string \<Rightarrow> 'a option)) list \<Rightarrow> unit_error \<Rightarrow> string \<Rightarrow> unit_error + 'a" where
  "by_suffix [] e s = Inl e"
| "by_suffix ((p, parse) # us) e s =
     (case strip_suffix p s of
        Some v \<Rightarrow> (case parse v of None \<Rightarrow> Inl (Not_a_number v) | Some x \<Rightarrow> Inr x)
      | None \<Rightarrow> by_suffix us e s)"

definition duration_deserialize :: "(string \<Rightarrow> 'f option) \<Rightarrow> string \<Rightarrow> unit_error + 'f duration" where
  "duration_deserialize parse v =
     by_suffix [(''ms'', map_option Dur_MS \<circ> parse), (''s'', map_option Dur_S \<circ> parse),
       (''m'', map_option Dur_M \<circ> parse), (''h'', map_option Dur_H \<circ> parse),
       (''d'', map_option Dur_D \<circ> parse)] (Not_a_duration v) v"

text \<open>Seconds: a product of floats, turned into a \<open>std::time::Duration\<close> by \<open>from_secs\<close>, which
  panics (\<open>None\<close>) on negative numbers, on those that are not finite and on too great ones.\<close>

fun duration_secs :: "('f :: {times, inverse, numeral}) duration \<Rightarrow> 'f" where
  "duration_secs (Dur_MS v) = v / 1000"
| "duration_secs (Dur_S v) = v"
| "duration_secs (Dur_M v) = v * 60"
| "duration_secs (Dur_H v) = v * 60 * 60"
| "duration_secs (Dur_D v) = v * 60 * 60 * 24"

section \<open>Sizes\<close>

datatype 'f size_of = Size_B nat | Size_KB 'f | Size_MB 'f | Size_GB 'f | Size_TB 'f

fun size_serialize :: "(nat \<Rightarrow> string) \<Rightarrow> ('f \<Rightarrow> string) \<Rightarrow> 'f size_of \<Rightarrow> string" where
  "size_serialize pn pr (Size_B v) = pn v @ ''B''"
| "size_serialize pn pr (Size_KB v) = pr v @ ''Kb''"
| "size_serialize pn pr (Size_MB v) = pr v @ ''Mb''"
| "size_serialize pn pr (Size_GB v) = pr v @ ''Gb''"
| "size_serialize pn pr (Size_TB v) = pr v @ ''Tb''"

definition size_deserialize ::
  "(string \<Rightarrow> nat option) \<Rightarrow> (string \<Rightarrow> 'f option) \<Rightarrow> string \<Rightarrow> unit_error + 'f size_of" where
  "size_deserialize parse_nat parse v =
     by_suffix
       (map (\<lambda>p. (p, map_option Size_KB \<circ> parse)) [''kb'', ''KB'', ''Kb'', ''k'', ''K'']
        @ map (\<lambda>p. (p, map_option Size_MB \<circ> parse)) [''mb'', ''MB'', ''Mb'', ''m'', ''M'']
        @ map (\<lambda>p. (p, map_option Size_GB \<circ> parse)) [''gb'', ''GB'', ''Gb'', ''g'', ''G'']
        @ map (\<lambda>p. (p, map_option Size_TB \<circ> parse)) [''tb'', ''TB'', ''Tb'', ''t'', ''T'']
        @ map (\<lambda>p. (p, map_option Size_B \<circ> parse_nat)) [''b'', ''B''])
       (Not_a_size v) v"

fun size_bytes :: "('f \<Rightarrow> nat) \<Rightarrow> ('f :: {times, numeral}) size_of \<Rightarrow> nat" where
  "size_bytes to_u64 (Size_B v) = v"
| "size_bytes to_u64 (Size_KB v) = to_u64 (v * 1024)"
| "size_bytes to_u64 (Size_MB v) = to_u64 (v * 1024 * 1024)"
| "size_bytes to_u64 (Size_GB v) = to_u64 (v * 1024 * 1024 * 1024)"
| "size_bytes to_u64 (Size_TB v) = to_u64 (v * 1024 * 1024 * 1024 * 1024)"

section \<open>The description\<close>

record extract_file =
  ef_src :: string
  ef_dst :: string
  ef_merge :: bool

datatype bind_type = Type_Tcp | Type_UnixStream

datatype bind =
    Tcp string nat bool
  | UnixStream string nat string nat bool

datatype service_type = Notify | Plain

datatype service_metrics =
    SimpleSocket string string
  | Http string string nat string

datatype subcert = One string | More "string list"

record 'f service_description =
  sd_name :: string
  sd_service_type :: service_type
  sd_project :: "string option"
  sd_user :: "string option"
  sd_enable_linger :: "bool option"
  sd_ssl_service :: "string option"
  sd_ssl_identity :: "string option"
  sd_ssl_subcert :: "subcert option"
  sd_pre_deploy :: "string list"
  sd_pre_start :: "string list"
  sd_post_start :: "string list"
  sd_max_memory :: "'f size_of option"
  sd_extract_files :: "extract_file list"
  sd_service_executable :: "string option"
  sd_args :: "string list"
  sd_bind :: "bind list"
  sd_overlap :: bool
  sd_watchdog_timeout :: "'f duration option"
  sd_start_timeout :: "'f duration option"
  sd_stop_timeout :: "'f duration option"
  sd_pod_mount :: "string list"
  sd_pod_options :: "string list"
  sd_env :: "(string \<times> string option) list"
  sd_pod_env :: "(string \<times> string option) list"
  sd_overlap_stop_signal :: "signal option"
  sd_stop_signal :: "signal option"
  sd_start_magic :: "string option"
  sd_metrics :: "service_metrics option"

definition get_stop_timeout :: "('f :: numeral) service_description \<Rightarrow> 'f duration" where
  "get_stop_timeout d = opt_or (sd_stop_timeout d) (Dur_S 30)"

definition get_stop_signal :: "'f service_description \<Rightarrow> signal" where
  "get_stop_signal d = opt_or (sd_stop_signal d) Sig_Term"

section \<open>What is written is read\<close>

lemma strip_suffix_append [simp]: "strip_suffix p (s @ p) = Some s"
  by (simp add: strip_suffix_Some_iff)

text \<open>A text that ends in a character is not ended by a suffix with another last one.\<close>

lemma strip_suffix_other:
  assumes "p \<noteq> []" "s \<noteq> []" "last p \<noteq> last s"
  shows "strip_suffix p s = None"
proof (rule ccontr)
  assume "strip_suffix p s \<noteq> None"
  then obtain r where "s = r @ p" by (auto simp: strip_suffix_Some_iff)
  with assms(1,3) show False by simp
qed

lemma strip_suffix_two:
  assumes "a \<noteq> c"
  shows "strip_suffix [a, b] (s @ [c, b]) = None"
proof (rule ccontr)
  assume "strip_suffix [a, b] (s @ [c, b]) \<noteq> None"
  then obtain r where "s @ [c, b] = r @ [a, b]" by (auto simp: strip_suffix_Some_iff)
  then have "c = a" by (metis append_eq_append_conv length_Cons list.inject)
  with assms show False by simp
qed

text \<open>What a number is printed as: it is parsed back, and does not end in a letter of a unit.\<close>

definition prints :: "('n \<Rightarrow> string) \<Rightarrow> (string \<Rightarrow> 'n option) \<Rightarrow> 'n \<Rightarrow> bool" where
  "prints pr parse v \<longleftrightarrow>
     parse (pr v) = Some v \<and> pr v \<noteq> [] \<and> last (pr v) \<notin> set ''kKmMgGtT''"

lemma strip_suffix_number:
  assumes "prints pr parse v" "a \<in> set ''kKmMgGtT''"
  shows "strip_suffix [a, b] (pr v @ [c]) = None"
proof (rule ccontr)
  assume "strip_suffix [a, b] (pr v @ [c]) \<noteq> None"
  then obtain r where "pr v @ [c] = (r @ [a]) @ [b]" by (auto simp: strip_suffix_Some_iff)
  then have "pr v = r @ [a]" by blast
  with assms show False by (auto simp: prints_def)
qed

lemma duration_read:
  assumes "\<forall>v \<in> set_duration d. prints pr parse v"
  shows "duration_deserialize parse (duration_serialize pr d) = Inr d"
  using assms
  by (cases d) (simp_all add: duration_deserialize_def strip_suffix_other strip_suffix_number,
      simp_all add: prints_def)

lemma size_read:
  assumes "\<forall>v \<in> set_size_of z. prints pr parse v" "\<forall>n. z = Size_B n \<longrightarrow> prints pn parse_nat n"
  shows "size_deserialize parse_nat parse (size_serialize pn pr z) = Inr z"
  using assms
  by (cases z) (simp_all add: size_deserialize_def strip_suffix_other strip_suffix_two
      strip_suffix_number, simp_all add: prints_def)

text \<open>Further result: durations and sizes survive being written and read. Whatever their
  numbers are, as long as those are parsed back and do not end in a letter of a unit, reading
  what was written gives the same value with the same unit.\<close>

theorem units_roundtrip:
  assumes "\<forall>v \<in> set_duration d \<union> set_size_of z. prints pr parse v"
    and "\<forall>n. z = Size_B n \<longrightarrow> prints pn parse_nat n"
  shows "duration_deserialize parse (duration_serialize pr d) = Inr d
    \<and> size_deserialize parse_nat parse (size_serialize pn pr z) = Inr z"
  using assms by (intro conjI duration_read size_read) auto

theorem units_roundtrip_witness:
  "duration_deserialize (\<lambda>s. if s = ''1.5'' then Some True else None)
     (duration_serialize (\<lambda>_. ''1.5'') (Dur_MS True)) = Inr (Dur_MS True)
   \<and> size_deserialize (\<lambda>s. Some 3) (\<lambda>s. if s = ''1.5'' then Some True else None)
       (size_serialize (\<lambda>_. ''3'') (\<lambda>_. ''1.5'') (Size_B 3))
     = Inr (Size_B 3)"
proof -
  have "prints (\<lambda>_. ''1.5'') (\<lambda>s. if s = ''1.5'' then Some True else None) True"
    and "prints (\<lambda>_. ''3'') (\<lambda>s. Some 3) (3 :: nat)"
    by (simp_all add: prints_def)
  then show ?thesis
    using units_roundtrip [of "Dur_MS True" "Size_B 3"
        "\<lambda>_. ''1.5''" "\<lambda>s. if s = ''1.5'' then Some True else None" "\<lambda>_. ''3''" "\<lambda>s. Some 3"]
    by simp
qed

end
