(* ===== verification/Metrics.thy ===== *)
theory Metrics
  imports Rust_Text Service_Description
begin

text \<open>
  The metrics of a service (\<open>client_daemon_service.rs\<close>): \<open>parse_metrics\<close> reads the text
  format into items, \<open>Display\<close> writes an item, and \<open>get_metrics_inner\<close> puts the labels
  \<open>job\<close> and \<open>instance\<close> on every item and adds the time the service started. Texts are bytes
  of UTF-8; the iterator over characters is the text that is left (every character the
  parser looks for is one byte). What the socket or the request of the service returns is an
  argument, as is the start time printed as a number.
\<close>

abbreviation NL :: char where "NL \<equiv> CHR 0x0A"
abbreviation QUOTE :: char where "QUOTE \<equiv> CHR 0x22"

type_synonym label = "string \<times> string"

datatype metric_item =
    Comment string
  | Value string "label list" string

section \<open>Writing an item\<close>

fun show_labels :: "label list \<Rightarrow> string" where
  "show_labels [] = []"
| "show_labels [(k, v)] = k @ ''='' @ v"
| "show_labels ((k, v) # ls) = k @ ''='' @ v @ '','' @ show_labels ls"

fun show_item :: "metric_item \<Rightarrow> string" where
  "show_item (Comment line) = line"
| "show_item (Value name ls tail) =
     name @ (if ls = [] then [] else ''{'' @ show_labels ls @ ''}'') @ '' '' @ tail"

definition show_items :: "metric_item list \<Rightarrow> string" where
  "show_items is = concat (map (\<lambda>i. show_item i @ [NL]) is)"

section \<open>Reading the text\<close>

datatype metric_error = Unexpected_end | Expected_equals

text \<open>Peeking until a character is found: it stays in the text.\<close>

fun upto_char :: "(char \<Rightarrow> bool) \<Rightarrow> string \<Rightarrow> (string \<times> string) option" where
  "upto_char P [] = None"
| "upto_char P (c # s) =
     (if P c then Some ([], c # s) else map_option (\<lambda>(a, r). (c # a, r)) (upto_char P s))"

text \<open>The rest of a line: the line end is taken away, the end of the text ends the line.\<close>

definition rest_of_line :: "string \<Rightarrow> string \<times> string" where
  "rest_of_line s = (takeWhile (\<lambda>c. c \<noteq> NL) s, tl (dropWhile (\<lambda>c. c \<noteq> NL) s))"

fun label_value :: "string \<Rightarrow> metric_error + (string \<times> string)" where
  "label_value [] = Inl Unexpected_end"
| "label_value (c # s) =
     (if c = QUOTE then
        (case upto_char (\<lambda>c. c = QUOTE) s of
           None \<Rightarrow> Inl Unexpected_end
         | Some (v, r) \<Rightarrow> Inr (QUOTE # v @ [QUOTE], tl r))
      else
        (case upto_char (\<lambda>c. c = CHR '' '' \<or> c = CHR '','' \<or> c = CHR ''}'') s of
           None \<Rightarrow> Inl Unexpected_end
         | Some (v, r) \<Rightarrow> Inr (c # v, r)))"

definition read_label :: "string \<Rightarrow> metric_error + (label \<times> string)" where
  "read_label s =
     (case upto_char (\<lambda>c. c = CHR '' '' \<or> c = CHR ''='') s of
        None \<Rightarrow> Inl Unexpected_end
      | Some (k, r) \<Rightarrow>
          (case trim_start r of
             [] \<Rightarrow> Inl Expected_equals
           | c # r \<Rightarrow>
               if c \<noteq> CHR ''='' then Inl Expected_equals
               else (case label_value (trim_start r) of
                       Inl e \<Rightarrow> Inl e
                     | Inr (v, r) \<Rightarrow>
                         let r = trim_start r
                         in Inr ((k, v), if r \<noteq> [] \<and> hd r = CHR '','' then tl r else r))))"

lemma upto_char_Some: "upto_char P s = Some (a, r) \<Longrightarrow> s = a @ r \<and> r \<noteq> [] \<and> P (hd r) \<and> list_all (\<lambda>c. \<not> P c) a"
  by (induction s arbitrary: a r) (auto split: if_splits)

lemma upto_char_append: "list_all (\<lambda>c. \<not> P c) a \<Longrightarrow> P c \<Longrightarrow> upto_char P (a @ c # r) = Some (a, c # r)"
  by (induction a) auto

lemma trim_start_length: "length (trim_start s) \<le> length s"
proof (induction s rule: trim_start.induct)
  case (1 s)
  then show ?case
    by (subst trim_start.simps) (fastforce split: option.split dest: skip_white_length)
qed

lemma label_value_length: "label_value s = Inr (v, r) \<Longrightarrow> length r < length s"
  by (cases s) (auto split: if_splits option.splits dest!: upto_char_Some)

lemma read_label_length:
  assumes "read_label s = Inr (l, r)"
  shows "length r < length s"
proof -
  from assms obtain k q r1 v r2 where
    k: "upto_char (\<lambda>c. c = CHR '' '' \<or> c = CHR ''='') s = Some (k, q)" and
    q: "trim_start q = CHR ''='' # r1" and v: "label_value (trim_start r1) = Inr (v, r2)" and
    r: "length r \<le> length (trim_start r2)"
    by (auto simp: read_label_def Let_def split: option.splits list.splits if_splits sum.splits)
  from upto_char_Some [OF k] have "length q \<le> length s" by auto
  moreover have "length r1 < length q" using trim_start_length [of q] q by simp
  moreover have "length r2 < length r1"
    using label_value_length [OF v] trim_start_length [of r1] by simp
  ultimately show ?thesis using r trim_start_length [of r2] by simp
qed

text \<open>The labels up to the brace that ends them, which stays in the text.\<close>

function read_labels :: "string \<Rightarrow> metric_error + (label list \<times> string)" where
  "read_labels s =
     (if s = [] then Inl Unexpected_end
      else if hd s = CHR ''}'' then Inr ([], s)
      else (case read_label s of
              Inl e \<Rightarrow> Inl e
            | Inr (l, r) \<Rightarrow>
                (case read_labels r of Inl e \<Rightarrow> Inl e | Inr (ls, r) \<Rightarrow> Inr (l # ls, r))))"
  by pat_completeness auto
termination
  by (relation "measure length") (auto dest: read_label_length)

declare read_labels.simps [simp del]

fun read_value :: "string \<Rightarrow> metric_error + (metric_item \<times> string)" where
  "read_value [] = Inl Unexpected_end"
| "read_value (c # s) =
     (case upto_char (\<lambda>c. c = CHR ''{'' \<or> c = CHR '' '') s of
        None \<Rightarrow> Inl Unexpected_end
      | Some (n, r) \<Rightarrow>
          let r = trim_start r
          in if r = [] then Inl Unexpected_end
             else if hd r = CHR ''{'' then
               (case read_labels (trim_start (tl r)) of
                  Inl e \<Rightarrow> Inl e
                | Inr (ls, r) \<Rightarrow>
                    let r = trim_start (tl r)
                    in if r = [] then Inl Unexpected_end
                       else let (t, r) = rest_of_line r in Inr (Value (c # n) ls t, r))
             else let (t, r) = rest_of_line r in Inr (Value (c # n) [] t, r))"

lemma rest_of_line_length: "rest_of_line s = (t, r) \<Longrightarrow> length r \<le> length s"
proof -
  assume "rest_of_line s = (t, r)"
  then have "r = tl (dropWhile (\<lambda>c. c \<noteq> NL) s)" by (simp add: rest_of_line_def)
  then show ?thesis using length_dropWhile_le [of "\<lambda>c. c \<noteq> NL" s] by (cases "dropWhile (\<lambda>c. c \<noteq> NL) s") auto
qed

lemma read_labels_step:
  assumes "read_labels s = Inr (ls, r)"
  obtains "s \<noteq> []" "hd s = CHR ''}''" "ls = []" "r = s"
  | l q ls' where "s \<noteq> []" "hd s \<noteq> CHR ''}''" "read_label s = Inr (l, q)"
      "read_labels q = Inr (ls', r)" "ls = l # ls'"
  using assms by (subst (asm) read_labels.simps) (auto split: if_splits sum.splits)

lemma read_labels_length: "read_labels s = Inr (ls, r) \<Longrightarrow> length r \<le> length s"
proof (induction s arbitrary: ls r rule: read_labels.induct)
  case (1 s)
  from 1(2) show ?case
  proof (cases rule: read_labels_step)
    case (2 l q ls')
    from 1(1) [OF 2(1,2,3) refl 2(4)] read_label_length [OF 2(3)] show ?thesis by simp
  qed simp
qed

lemma read_value_length:
  assumes "read_value s = Inr (i, r)"
  shows "length r < length s"
proof (cases s)
  case (Cons c s')
  with assms obtain n q where
    n: "upto_char (\<lambda>c. c = CHR ''{'' \<or> c = CHR '' '') s' = Some (n, q)"
    by (auto split: option.splits)
  have q: "length (trim_start q) \<le> length s'"
    using upto_char_Some [OF n] trim_start_length [of q] by auto
  from assms Cons n consider
      t where "rest_of_line (trim_start q) = (t, r)"
    | ls q' t where "trim_start q \<noteq> []" "read_labels (trim_start (tl (trim_start q))) = Inr (ls, q')"
        "rest_of_line (trim_start (tl q')) = (t, r)"
    by (auto simp: Let_def split: if_splits sum.splits prod.splits)
  then have "length r \<le> length (trim_start q)"
  proof cases
    case (2 ls q' t)
    have "length r \<le> length q'"
      using rest_of_line_length [OF 2(3)] trim_start_length [of "tl q'"] by simp
    also have "\<dots> \<le> length (tl (trim_start q))"
      using read_labels_length [OF 2(2)] trim_start_length [of "tl (trim_start q)"] by simp
    finally show ?thesis by simp
  qed (rule rest_of_line_length)
  with q Cons show ?thesis by simp
qed (use assms in simp)

definition read_item :: "string \<Rightarrow> metric_error + (metric_item \<times> string)" where
  "read_item s =
     (if hd s = CHR ''#'' then
        let (t, r) = rest_of_line (tl s) in Inr (Comment (CHR ''#'' # t), r)
      else read_value s)"

lemma read_item_length: "s \<noteq> [] \<Longrightarrow> read_item s = Inr (i, r) \<Longrightarrow> length r < length s"
proof (cases s)
  case (Cons c s')
  assume "read_item s = Inr (i, r)"
  with Cons show ?thesis
    using rest_of_line_length [of s'] read_value_length [of s]
    by (fastforce simp: read_item_def Let_def split: if_splits prod.splits)
qed simp

function parse_metrics :: "string \<Rightarrow> metric_error + metric_item list" where
  "parse_metrics s =
     (let s = trim_start s
      in if s = [] then Inr []
         else (case read_item s of
                 Inl e \<Rightarrow> Inl e
               | Inr (i, r) \<Rightarrow>
                   (case parse_metrics r of Inl e \<Rightarrow> Inl e | Inr is \<Rightarrow> Inr (i # is))))"
  by pat_completeness auto
termination
proof (relation "measure length")
  fix s x :: string and b i r
  assume "x = trim_start s" "x \<noteq> []" "read_item x = Inr b" "(i, r) = b"
  then show "(r, s) \<in> measure length"
    using read_item_length [of x i r] trim_start_length [of s] by simp
qed simp

declare parse_metrics.simps [simp del]

section \<open>White space before a piece of text\<close>

lemma white_ascii: "w \<in> set WHITE \<Longrightarrow> length w = 1 \<or> list_all (\<lambda>c. 128 \<le> (of_char c :: nat)) w"
proof -
  have "list_all (\<lambda>w. length w = 1 \<or> list_all (\<lambda>c. 128 \<le> (of_char c :: nat)) w) WHITE"
    by (simp add: WHITE_def)
  then show "w \<in> set WHITE \<Longrightarrow> length w = 1 \<or> list_all (\<lambda>c. 128 \<le> (of_char c :: nat)) w"
    by (simp add: list_all_iff)
qed

lemma skip_white_before:
  assumes "skip_white a = None" "a \<noteq> [] \<or> [c] \<notin> set WHITE" "of_char c < (128 :: nat)"
  shows "skip_white (a @ c # r) = None"
  unfolding skip_white_None
proof
  fix w assume w: "w \<in> set WHITE"
  show "\<not> starts_with w (a @ c # r)"
  proof
    assume "starts_with w (a @ c # r)"
    then obtain q where q: "a @ c # r = w @ q" by (auto simp: starts_with_def strip_prefix_Some_iff)
    show False
    proof (cases "length w \<le> length a")
      case True
      then have "a = w @ take (length a - length w) q"
        using arg_cong [OF q, of "take (length a)"] by simp
      then have "starts_with w a" by (auto simp: starts_with_def strip_prefix_Some_iff)
      with assms(1) w show False by (simp add: skip_white_None)
    next
      case False
      then obtain t where e: "w = a @ c # t"
        using arg_cong [OF q [symmetric], of "take (length w)"] by (auto simp: take_Cons')
      with white_ascii [OF w] assms(3) have "length w = 1" by (auto simp: list_all_iff)
      with e have "a = []" "w = [c]" by auto
      with assms(2) w show False by simp
    qed
  qed
qed

lemma WHITE_head:
  "map hd WHITE = CHR 0x09 # NL # CHR 0x0B # CHR 0x0C # CHR 0x0D # CHR '' '' #
     replicate 2 (CHR 0xC2) @ CHR 0xE1 # replicate 15 (CHR 0xE2) @ [CHR 0xE3]"
  by code_simp

lemma skip_white_other: "c \<notin> set (map hd WHITE) \<Longrightarrow> skip_white (c # s) = None"
  unfolding skip_white_None starts_with_def
  by (metis WHITE_nonempty list.collapse nth_map in_set_conv_nth length_map strip_prefix.simps(3))

lemma trim_start_same: "skip_white s = None \<Longrightarrow> trim_start s = s"
  by (subst trim_start.simps) simp

lemma skip_white_Nil [simp]: "skip_white [] = None"
  by (simp add: skip_white_None starts_with_def WHITE_def)

lemma char_of_white:
  "char_of (0x09 :: nat) = CHR 0x09" "char_of (0x0A :: nat) = NL" "char_of (0x0B :: nat) = CHR 0x0B"
  "char_of (0x0C :: nat) = CHR 0x0C" "char_of (0x0D :: nat) = CHR 0x0D" "char_of (0x20 :: nat) = CHR '' ''"
  by (simp_all add: char_of_def bit_iff_odd)

lemma skip_white_space [simp]: "skip_white (CHR '' '' # s) = Some s" "skip_white (NL # s) = Some s"
  by (simp_all add: skip_white_def starts_with_def WHITE_def char_of_white)

lemma trim_start_space [simp]:
  "trim_start (CHR '' '' # s) = trim_start s" "trim_start (NL # s) = trim_start s"
  by (subst trim_start.simps, simp)+

lemma skip_white_delim [simp]:
  "skip_white (CHR ''{'' # s) = None" "skip_white (CHR ''}'' # s) = None"
  "skip_white (CHR '','' # s) = None" "skip_white (CHR ''='' # s) = None"
  "skip_white (CHR ''#'' # s) = None" "skip_white (QUOTE # s) = None"
  by (simp_all add: skip_white_other WHITE_head del: set_map)

lemmas trim_start_delim [simp] = skip_white_delim [THEN trim_start_same]

lemma trim_start_Nil [simp]: "trim_start [] = []"
  by (simp add: trim_start_same)

section \<open>The items that are written and read again\<close>

definition value_text :: "string \<Rightarrow> bool" where
  "value_text v =
     (v \<noteq> [] \<and>
      (if hd v = QUOTE then length v \<ge> 2 \<and> last v = QUOTE \<and> QUOTE \<notin> set (butlast (tl v))
       else skip_white v = None \<and>
            list_all (\<lambda>c. c \<noteq> CHR '' '' \<and> c \<noteq> CHR '','' \<and> c \<noteq> CHR ''}'') (tl v)))"

definition label_text :: "label \<Rightarrow> bool" where
  "label_text l =
     (skip_white (fst l) = None \<and> (fst l = [] \<or> hd (fst l) \<noteq> CHR ''}'') \<and>
      list_all (\<lambda>c. c \<noteq> CHR '' '' \<and> c \<noteq> CHR ''='') (fst l) \<and> value_text (snd l))"

fun item_text :: "metric_item \<Rightarrow> bool" where
  "item_text (Comment line) = (line \<noteq> [] \<and> hd line = CHR ''#'' \<and> NL \<notin> set line)"
| "item_text (Value name ls tail) =
     (name \<noteq> [] \<and> hd name \<noteq> CHR ''#'' \<and> skip_white name = None \<and>
      list_all (\<lambda>c. c \<noteq> CHR ''{'' \<and> c \<noteq> CHR '' '') (tl name) \<and> list_all label_text ls \<and>
      tail \<noteq> [] \<and> skip_white tail = None \<and> NL \<notin> set tail \<and>
      (ls = [] \<longrightarrow> hd tail \<noteq> CHR ''{''))"

lemma not_white_delim: "[CHR '',''] \<notin> set WHITE" "[CHR ''}''] \<notin> set WHITE" "[CHR ''=''] \<notin> set WHITE"
proof -
  have "starts_with [c] [c]" for c by (simp add: starts_with_def)
  with skip_white_delim [of "[]", unfolded skip_white_None]
  show "[CHR '',''] \<notin> set WHITE" "[CHR ''}''] \<notin> set WHITE" "[CHR ''=''] \<notin> set WHITE" by blast+
qed

lemma label_value_text:
  assumes "value_text v" "c = CHR '','' \<or> c = CHR ''}''"
  shows "label_value (trim_start (v @ c # r)) = Inr (v, c # r)"
proof (cases "hd v = QUOTE")
  case True
  with assms(1) obtain u where v: "v = QUOTE # u @ [QUOTE]" and "QUOTE \<notin> set u"
    by (cases v; cases "tl v" rule: rev_cases) (auto simp: value_text_def)
  then have "upto_char (\<lambda>c. c = QUOTE) (u @ QUOTE # c # r) = Some (u, QUOTE # c # r)"
    by (intro upto_char_append) (auto simp: list_all_iff)
  with v show ?thesis by simp
next
  case False
  with assms(1) obtain x u where v: "v = x # u" "x \<noteq> QUOTE" "skip_white v = None"
    and u: "list_all (\<lambda>c. \<not> (c = CHR '' '' \<or> c = CHR '','' \<or> c = CHR ''}'')) u"
    by (cases v) (auto simp: value_text_def)
  have "skip_white (v @ c # r) = None"
    using v assms(2) by (intro skip_white_before) auto
  moreover have "upto_char (\<lambda>c. c = CHR '' '' \<or> c = CHR '','' \<or> c = CHR ''}'') (u @ c # r) = Some (u, c # r)"
    using assms(2) by (intro upto_char_append [OF u]) auto
  ultimately show ?thesis using v by (simp add: trim_start_same)
qed

lemma read_label_text:
  assumes "label_text l" "c = CHR '','' \<or> c = CHR ''}''"
  shows "read_label (fst l @ ''='' @ snd l @ c # r) = Inr (l, if c = CHR '','' then r else c # r)"
proof -
  have "upto_char (\<lambda>c. c = CHR '' '' \<or> c = CHR ''='') (fst l @ CHR ''='' # snd l @ c # r)
      = Some (fst l, CHR ''='' # snd l @ c # r)"
    using assms(1) by (intro upto_char_append) (auto simp: label_text_def list_all_iff)
  moreover have "label_value (trim_start (snd l @ c # r)) = Inr (snd l, c # r)"
    using assms by (intro label_value_text) (auto simp: label_text_def)
  moreover have "trim_start (c # r) = c # r" using assms(2) by auto
  ultimately show ?thesis using assms(2) by (auto simp: read_label_def)
qed

lemma show_labels_Cons:
  "show_labels (l # ls) = fst l @ ''='' @ snd l @ (if ls = [] then [] else '','' @ show_labels ls)"
  by (cases l; cases ls) auto

lemma label_head: "label_text l \<Longrightarrow> fst l @ ''='' @ t \<noteq> [] \<and> hd (fst l @ ''='' @ t) \<noteq> CHR ''}''"
  by (cases "fst l") (auto simp: label_text_def)

lemma read_labels_text:
  "list_all label_text ls \<Longrightarrow> read_labels (show_labels ls @ CHR ''}'' # r) = Inr (ls, CHR ''}'' # r)"
proof (induction ls)
  case (Cons l ls)
  let ?c = "if ls = [] then CHR ''}'' else CHR '',''"
  let ?r = "if ls = [] then r else show_labels ls @ CHR ''}'' # r"
  have s: "show_labels (l # ls) @ CHR ''}'' # r = fst l @ ''='' @ snd l @ ?c # ?r"
    by (simp add: show_labels_Cons)
  have "read_label (fst l @ ''='' @ snd l @ ?c # ?r)
      = Inr (l, show_labels ls @ CHR ''}'' # r)"
    using Cons.prems by (subst read_label_text) auto
  with label_head [of l] Cons show ?case
    unfolding s by (subst read_labels.simps) (auto simp del: append_Cons)
qed (subst read_labels.simps, simp)

lemma trim_start_labels:
  "list_all label_text ls \<Longrightarrow> trim_start (show_labels ls @ CHR ''}'' # r) = show_labels ls @ CHR ''}'' # r"
proof (cases ls)
  case (Cons l ls')
  assume "list_all label_text ls"
  with Cons have "skip_white (fst l) = None" by (simp add: label_text_def)
  then show ?thesis using Cons not_white_delim
    by (intro trim_start_same) (simp add: show_labels_Cons skip_white_before)
qed simp

lemma rest_of_line_text: "NL \<notin> set t \<Longrightarrow> rest_of_line (t @ NL # r) = (t, r)"
  by (induction t) (auto simp: rest_of_line_def)

lemma read_value_text:
  assumes "item_text (Value n ls t)"
  shows "read_value (show_item (Value n ls t) @ NL # r) = Inr (Value n ls t, r)"
proof -
  from assms obtain c u where n: "n = c # u" "list_all (\<lambda>c. \<not> (c = CHR ''{'' \<or> c = CHR '' '')) u"
    by (cases n) auto
  have t: "trim_start (t @ NL # r) = t @ NL # r"
    using assms by (intro trim_start_same skip_white_before) auto
  have tail: "t \<noteq> []" "NL \<notin> set t" "list_all label_text ls" using assms by auto
  show ?thesis
  proof (cases "ls = []")
    case True
    have "upto_char (\<lambda>c. c = CHR ''{'' \<or> c = CHR '' '') (u @ CHR '' '' # t @ NL # r)
        = Some (u, CHR '' '' # t @ NL # r)"
      by (intro upto_char_append [OF n(2)]) simp
    with True n t tail assms show ?thesis by (simp add: rest_of_line_text)
  next
    case False
    have "upto_char (\<lambda>c. c = CHR ''{'' \<or> c = CHR '' '')
          (u @ CHR ''{'' # show_labels ls @ CHR ''}'' # CHR '' '' # t @ NL # r)
        = Some (u, CHR ''{'' # show_labels ls @ CHR ''}'' # CHR '' '' # t @ NL # r)"
      by (intro upto_char_append [OF n(2)]) simp
    with False n t tail show ?thesis
      by (simp add: rest_of_line_text trim_start_labels read_labels_text)
  qed
qed

lemma read_item_text:
  assumes "item_text i"
  shows "read_item (show_item i @ NL # r) = Inr (i, r)"
proof (cases i)
  case (Comment l)
  with assms obtain u where "l = CHR ''#'' # u" "NL \<notin> set u" by (cases l) auto
  with Comment show ?thesis by (simp add: read_item_def rest_of_line_text)
next
  case (Value n ls t)
  with assms have "hd (show_item i @ NL # r) \<noteq> CHR ''#''" by (cases n) auto
  with Value assms read_value_text [of n ls t r] show ?thesis by (simp add: read_item_def)
qed

lemma trim_start_item: "item_text i \<Longrightarrow> trim_start (show_item i @ s) = show_item i @ s"
proof (cases i)
  case (Comment l)
  moreover assume "item_text i"
  ultimately show ?thesis by (cases l) auto
next
  case (Value n ls t)
  moreover assume "item_text i"
  ultimately show ?thesis
    by (cases "ls = []") (auto intro!: trim_start_same skip_white_before)
qed

lemma show_item_nonempty: "item_text i \<Longrightarrow> show_item i \<noteq> []"
  by (cases i) auto

lemma show_items_read:
  "list_all item_text is \<Longrightarrow> parse_metrics (show_items is) = Inr is"
proof (induction "is")
  case Nil
  then show ?case by (subst parse_metrics.simps) (simp add: show_items_def)
next
  case (Cons i "is")
  then have "trim_start (show_items (i # is)) = show_item i @ NL # show_items is"
    using trim_start_item [of i "NL # show_items is"] by (simp add: show_items_def)
  with Cons show_item_nonempty [of i] read_item_text [of i "show_items is"] show ?case
    by (subst parse_metrics.simps) simp
qed

text \<open>Further result: what is written is read back. The items of a text written with
  \<open>Display\<close>, one a line, are what \<open>parse_metrics\<close> returns, when names, labels, values and tails
  are free of the characters that end them.\<close>

theorem metrics_roundtrip:
  "list_all item_text is \<Longrightarrow> parse_metrics (show_items is) = Inr is"
  by (rule show_items_read)

definition demo_items :: "metric_item list" where
  "demo_items = [Comment ''# HELP hits'', Value ''hits'' [(''path'', [QUOTE] @ ''/a b'' @ [QUOTE]), (''n'', ''1'')] ''7'',
     Value ''up'' [] ''1 1700000000'']"

lemma demo_items_text: "list_all item_text demo_items"
  by (simp add: demo_items_def label_text_def value_text_def skip_white_other WHITE_head del: set_map)

theorem metrics_roundtrip_witness: "parse_metrics (show_items demo_items) = Inr demo_items"
  by (rule metrics_roundtrip) (rule demo_items_text)

section \<open>Metrics of a service\<close>

datatype service_state = Starting | Ready | Stopping | Reloading | Stopped | Running | New

definition quoted :: "string \<Rightarrow> string" where
  "quoted s = QUOTE # s @ [QUOTE]"

text \<open>\<open>retain\<close> compares the name of a label with the quoted job.\<close>

fun relabel :: "string \<Rightarrow> string \<Rightarrow> metric_item \<Rightarrow> metric_item" where
  "relabel job inst (Comment l) = Comment l"
| "relabel job inst (Value n ls t) =
     Value n (filter (\<lambda>(k, v). k \<noteq> ''instance'' \<and> k \<noteq> job) ls @ [(''job'', job), (''instance'', inst)]) t"

definition start_time_item :: "string \<Rightarrow> string \<Rightarrow> string \<Rightarrow> metric_item" where
  "start_time_item job inst t =
     Value ''sadmin_service_start_time'' [(''job'', job), (''instance'', inst)] t"

datatype get_metrics_error =
    Missing_metrics_path
  | Io_error
  | Parse_error metric_error

text \<open>What the code reads from: the socket at a path, and the service's port, whose answer has
  a status.\<close>

record metrics_source =
  socket_body :: "string \<Rightarrow> string option"
  http_body :: "nat \<Rightarrow> string \<Rightarrow> (bool \<times> string option) option"

definition fetch_metrics ::
  "metrics_source \<Rightarrow> service_metrics option \<Rightarrow> string option
    \<Rightarrow> get_metrics_error + (string \<times> string \<times> string) option" where
  "fetch_metrics src metrics metrics_path =
     (case metrics of
        None \<Rightarrow> Inr None
      | Some (SimpleSocket job inst) \<Rightarrow>
          (case metrics_path of
             None \<Rightarrow> Inl Missing_metrics_path
           | Some p \<Rightarrow>
               (case socket_body src p of
                  None \<Rightarrow> Inl Io_error
                | Some body \<Rightarrow> Inr (Some (body, inst, job))))
      | Some (Http job inst port path) \<Rightarrow>
          (case http_body src port path of
             None \<Rightarrow> Inl Io_error
           | Some (success, body) \<Rightarrow>
               if \<not> success then Inr None
               else (case body of
                       None \<Rightarrow> Inl Io_error
                     | Some b \<Rightarrow> Inr (Some (b, inst, job)))))"

definition get_metrics_inner ::
  "metrics_source \<Rightarrow> service_state \<Rightarrow> service_metrics option \<Rightarrow> string option \<Rightarrow> string
    \<Rightarrow> get_metrics_error + string option" where
  "get_metrics_inner src state metrics metrics_path start_time =
     (if state \<in> {Starting, Stopping, Stopped, New} then Inr None
      else res_bind (fetch_metrics src metrics metrics_path) (\<lambda>r.
        case r of
          None \<Rightarrow> Inr None
        | Some (body, inst, job) \<Rightarrow>
            (case parse_metrics body of
               Inl e \<Rightarrow> Inl (Parse_error e)
             | Inr items \<Rightarrow>
                 Inr (Some (show_items
                   (map (relabel (quoted job) (quoted inst)) items
                    @ [start_time_item (quoted job) (quoted inst) start_time]))))))"

text \<open>Errors and time outs give nothing.\<close>

definition get_metrics ::
  "(get_metrics_error + string option) option \<Rightarrow> string option" where
  "get_metrics r = (case r of Some (Inr v) \<Rightarrow> v | _ \<Rightarrow> None)"

lemma label_text_quoted:
  "QUOTE \<notin> set v \<Longrightarrow> label_text (''job'', quoted v) \<and> label_text (''instance'', quoted v)"
  by (auto simp: label_text_def value_text_def quoted_def skip_white_other WHITE_head butlast_append
      simp del: set_map)

lemma item_text_relabel:
  assumes "item_text i" "QUOTE \<notin> set job" "QUOTE \<notin> set inst"
  shows "item_text (relabel (quoted job) (quoted inst) i)"
  using assms label_text_quoted by (cases i) (auto simp: list_all_iff)

text \<open>Further result: what a service exports is what is read at its metrics with the labels of the
  description put on. For a service that runs, whose text is one of items written out, the answer
  can be parsed again and gives the same items in the same order, each value with its old labels
  but the instance label, followed by job and instance, and last the time the service started.\<close>

theorem exported_metrics:
  assumes "state \<in> {Ready, Reloading, Running}"
    and "fetch_metrics src metrics metrics_path = Inr (Some (show_items is, inst, job))"
    and "list_all item_text is" "QUOTE \<notin> set job" "QUOTE \<notin> set inst"
    and "t \<noteq> []" "skip_white t = None" "NL \<notin> set t"
  shows "\<exists>out. get_metrics (Some (get_metrics_inner src state metrics metrics_path t)) = Some out
    \<and> parse_metrics out = Inr (map (relabel (quoted job) (quoted inst)) is
        @ [start_time_item (quoted job) (quoted inst) t])"
proof -
  let ?out = "map (relabel (quoted job) (quoted inst)) is @ [start_time_item (quoted job) (quoted inst) t]"
  have "item_text (start_time_item (quoted job) (quoted inst) t)"
    using assms(4-) label_text_quoted
    by (simp add: start_time_item_def skip_white_other WHITE_head del: set_map)
  then have "parse_metrics (show_items ?out) = Inr ?out"
    using assms(3-5) item_text_relabel by (intro show_items_read) (auto simp: list_all_iff)
  moreover have "get_metrics_inner src state metrics metrics_path t = Inr (Some (show_items ?out))"
    using assms(1,2) show_items_read [OF assms(3)] by (auto simp: get_metrics_inner_def)
  ultimately show ?thesis by (simp add: get_metrics_def)
qed

definition demo_source :: metrics_source where
  "demo_source = \<lparr>socket_body = (\<lambda>_. Some (show_items demo_items)), http_body = (\<lambda>_ _. None)\<rparr>"

theorem exported_metrics_witness:
  "\<exists>out. get_metrics (Some (get_metrics_inner demo_source Ready (Some (SimpleSocket ''web'' ''a:1''))
      (Some ''/run/m'') ''17'')) = Some out
    \<and> parse_metrics out = Inr (map (relabel (quoted ''web'') (quoted ''a:1'')) demo_items
        @ [start_time_item (quoted ''web'') (quoted ''a:1'') ''17''])"
  by (rule exported_metrics)
    (simp_all add: fetch_metrics_def demo_source_def demo_items_text skip_white_other WHITE_head del: set_map)

text \<open>Further result: a job label that is already there is not replaced. The filter compares
  names with the quoted job, so a value that has a label job keeps it and gets a second one.\<close>

theorem job_label_kept:
  assumes "(''job'', v) \<in> set ls"
  shows "\<exists>ls'. relabel (quoted job) inst (Value n ls t) = Value n (ls' @ [(''job'', quoted job), (''instance'', inst)]) t
    \<and> (''job'', v) \<in> set ls'"
  using assms by (auto simp: quoted_def)

theorem job_label_kept_witness:
  "\<exists>ls'. relabel (quoted ''web'') [] (Value ''up'' [(''job'', ''x'')] ''1'')
      = Value ''up'' (ls' @ [(''job'', quoted ''web''), (''instance'', [])]) ''1'' \<and> (''job'', ''x'') \<in> set ls'"
  by (rule job_label_kept) simp

text \<open>Further result: a blank after the comma between labels makes the whole text unreadable.
  The text format allows it; then no metrics of the service are exported.\<close>

theorem blank_after_comma_refused:
  assumes "label_text l" "list_all (\<lambda>c. c \<noteq> CHR ''='') s" "s \<noteq> []" "skip_white s = None"
  shows "read_labels (fst l @ ''='' @ snd l @ '', '' @ s @ ''='' @ r) = Inl Expected_equals"
proof -
  have "read_label (fst l @ ''='' @ snd l @ CHR '','' # CHR '' '' # s @ ''='' @ r)
      = Inr (l, CHR '' '' # s @ ''='' @ r)"
    using assms(1) by (subst read_label_text) auto
  moreover have "read_label (CHR '' '' # s @ ''='' @ r) = Inl Expected_equals"
  proof -
    from assms(2,3) obtain c s' where "s = c # s'" "c \<noteq> CHR ''=''" by (cases s) auto
    moreover have "trim_start (s @ ''='' @ r) = s @ ''='' @ r"
      using assms(3,4) by (intro trim_start_same) (simp add: skip_white_before)
    ultimately show ?thesis by (simp add: read_label_def)
  qed
  moreover from this have "read_labels (CHR '' '' # s @ ''='' @ r) = Inl Expected_equals"
    by (subst read_labels.simps) simp
  ultimately show ?thesis using label_head [OF assms(1)]
    by (subst read_labels.simps) auto
qed

theorem blank_after_comma_refused_witness:
  "read_labels (''a='' @ ''1'' @ '', '' @ ''b'' @ ''=2} 7'') = Inl Expected_equals"
  using blank_after_comma_refused [of "(''a'', ''1'')" "''b''" "''2} 7''"]
  by (simp add: label_text_def value_text_def skip_white_other WHITE_head del: set_map)

end
