(* ===== verification/Persist.thy ===== *)
theory Persist
  imports Json "HOL-Library.AList"
begin

text \<open>
  The persist daemon (\<open>bin/sadmin/persist_daemon.rs\<close>), which keeps the file descriptors and
  processes of services while the client daemon restarts, and the requests the client daemon
  makes of it (\<open>client_daemon.rs\<close>, the \<open>persist_*\<close> functions). A file descriptor is a value of
  the type \<open>'fd\<close> (what it refers to); its number matters only in the child of \<open>start_process\<close>
  and is modelled there. What the operating system answers (duplicating a descriptor, spawning,
  the known signals, sending one) is a parameter. Messages are values: their JSON is left to
  serde, ids are \<open>u64\<close>.
\<close>

section \<open>Messages\<close>

record start_process =
  sp_id :: nat
  sp_key :: string
  sp_path :: string
  sp_args :: "string list"
  sp_env :: "(string \<times> string) list"
  sp_uid :: "nat option"
  sp_gid :: "nat option"
  sp_current_dir :: "string option"
  sp_cgroup :: "string option"
  sp_umask :: "nat option"
  sp_fds :: "(string \<times> int) list"

datatype persist_message =
    PShutdown nat
  | PListFds nat "string option"
  | PHasFd nat string
  | PListFdsResult nat "string list"
  | PCloseFd nat string
  | PCloseAllFds nat
  | PError nat string
  | PSuccess nat
  | PSuccessWithFd nat
  | PPutFd nat string
  | PGetFd nat string
  | PPing nat
  | PPong nat
  | PGetProtocolVersion nat
  | PGetProtocolVersionResult nat nat
  | PStartProcess start_process
  | PSignalProcess nat string int
  | PProcessDied string int
  | PListProcesses nat "string option"
  | PListProcessesResult nat "string list"
  | PNotFound nat

fun message_id :: "persist_message \<Rightarrow> nat" where
  "message_id (PShutdown i) = i"
| "message_id (PListFds i _) = i"
| "message_id (PListFdsResult i _) = i"
| "message_id (PCloseFd i _) = i"
| "message_id (PCloseAllFds i) = i"
| "message_id (PError i _) = i"
| "message_id (PSuccess i) = i"
| "message_id (PPutFd i _) = i"
| "message_id (PGetFd i _) = i"
| "message_id (PPing i) = i"
| "message_id (PPong i) = i"
| "message_id (PGetProtocolVersion i) = i"
| "message_id (PGetProtocolVersionResult i _) = i"
| "message_id (PStartProcess sp) = sp_id sp"
| "message_id (PSignalProcess i _ _) = i"
| "message_id (PProcessDied _ _) = 0"
| "message_id (PListProcesses i _) = i"
| "message_id (PListProcessesResult i _) = i"
| "message_id (PSuccessWithFd i) = i"
| "message_id (PNotFound i) = i"
| "message_id (PHasFd i _) = i"

fun persist_message_type :: "persist_message \<Rightarrow> string" where
  "persist_message_type (PShutdown _) = ''shutdown''"
| "persist_message_type (PListFds _ _) = ''list''"
| "persist_message_type (PListFdsResult _ _) = ''list_result''"
| "persist_message_type (PCloseFd _ _) = ''close''"
| "persist_message_type (PCloseAllFds _) = ''close_all''"
| "persist_message_type (PError _ _) = ''error''"
| "persist_message_type (PSuccess _) = ''success''"
| "persist_message_type (PPutFd _ _) = ''put''"
| "persist_message_type (PGetFd _ _) = ''get''"
| "persist_message_type (PPing _) = ''ping''"
| "persist_message_type (PPong _) = ''pong''"
| "persist_message_type (PGetProtocolVersion _) = ''get_protocol_version''"
| "persist_message_type (PGetProtocolVersionResult _ _) = ''get_protocol_result''"
| "persist_message_type (PStartProcess _) = ''start_process''"
| "persist_message_type (PSignalProcess _ _ _) = ''kill_process''"
| "persist_message_type (PProcessDied _ _) = ''process_died''"
| "persist_message_type (PListProcesses _ _) = ''list_processes''"
| "persist_message_type (PListProcessesResult _ _) = ''list_processes_result''"
| "persist_message_type (PSuccessWithFd _) = ''success_with_fd''"
| "persist_message_type (PNotFound _) = ''not_found''"
| "persist_message_type (PHasFd _ _) = ''has_fd''"

fun with_fd :: "persist_message \<Rightarrow> bool" where
  "with_fd (PPutFd _ _) = True"
| "with_fd (PSuccessWithFd _) = True"
| "with_fd _ = False"

definition PERSIST_VERSION :: nat where
  "PERSIST_VERSION = 5"

section \<open>The state of the daemon\<close>

text \<open>\<open>ps_children\<close> are the tasks of \<open>handle_process\<close>, each waiting for its child.\<close>

record 'fd persist_state =
  ps_fds :: "(string \<times> 'fd) list"
  ps_processes :: "(string \<times> nat) list"
  ps_connections :: "nat list"
  ps_children :: "(string \<times> nat) list"

definition persist_default :: "'fd persist_state" where
  "persist_default = \<lparr>ps_fds = [], ps_processes = [], ps_connections = [], ps_children = []\<rparr>"

record 'fd persist_os =
  os_dup :: "'fd \<Rightarrow> bool"
  os_spawn :: "start_process \<Rightarrow> (int \<times> 'fd) list \<Rightarrow> nat option"
  os_signal :: "int \<Rightarrow> bool"
  os_kill :: "nat \<Rightarrow> int \<Rightarrow> bool"

datatype persist_error =
    Shutdown_not_implemented
  | Expected_fd
  | No_fd string
  | Dup_failed
  | Spawn_failed
  | In_start_process persist_error
  | Invalid_signal
  | Kill_failed
  | Unhandeled persist_message

text \<open>The descriptors of a child, by key, with the number each gets there.\<close>

fun process_fds ::
  "'fd persist_os \<Rightarrow> (string \<times> 'fd) list \<Rightarrow> (string \<times> int) list \<Rightarrow> persist_error + (int \<times> 'fd) list"
where
  "process_fds os fds [] = Inr []"
| "process_fds os fds ((k, v) # ks) =
     (case map_of fds k of
        None \<Rightarrow> Inl (No_fd k)
      | Some fd \<Rightarrow>
          if os_dup os fd then res_bind (process_fds os fds ks) (\<lambda>r. Inr ((v, fd) # r))
          else Inl Dup_failed)"

definition start_process_inner ::
  "'fd persist_os \<Rightarrow> start_process \<Rightarrow> 'fd persist_state \<Rightarrow> (persist_error + unit) \<times> 'fd persist_state"
where
  "start_process_inner os sp st =
     (case process_fds os (ps_fds st) (sp_fds sp) of
        Inl e \<Rightarrow> (Inl e, st)
      | Inr ofds \<Rightarrow>
          (case os_spawn os sp ofds of
             None \<Rightarrow> (Inl Spawn_failed, st)
           | Some pid \<Rightarrow>
               (Inr (), st\<lparr>ps_processes := AList.update (sp_key sp) pid (ps_processes st),
                           ps_children := (sp_key sp, pid) # ps_children st\<rparr>)))"

text \<open>The end of a child: it is forgotten and every connection is told.\<close>

definition handle_process ::
  "string \<Rightarrow> nat \<Rightarrow> int option \<Rightarrow> 'fd persist_state \<Rightarrow> (nat \<times> persist_message) list \<times> 'fd persist_state"
where
  "handle_process key pid ret st =
     (map (\<lambda>c. (c, PProcessDied key (case ret of None \<Rightarrow> -99 | Some v \<Rightarrow> v))) (ps_connections st),
      st\<lparr>ps_processes := AList.delete key (ps_processes st),
         ps_children := remove1 (key, pid) (ps_children st)\<rparr>)"

definition keys_with :: "string option \<Rightarrow> (string \<times> 'a) list \<Rightarrow> string list" where
  "keys_with key_prefix m =
     filter (\<lambda>v. case key_prefix of Some p \<Rightarrow> starts_with p v | None \<Rightarrow> True) (map fst m)"

text \<open>The reply to a message, with the descriptor that goes with it.\<close>

fun handle_client_message_inner ::
  "'fd persist_os \<Rightarrow> persist_message \<Rightarrow> 'fd option \<Rightarrow> 'fd persist_state
    \<Rightarrow> (persist_error + (persist_message \<times> 'fd option)) \<times> 'fd persist_state"
where
  "handle_client_message_inner os (PShutdown i) fd st = (Inl Shutdown_not_implemented, st)"
| "handle_client_message_inner os (PListFds i key_prefix) fd st =
     (Inr (PListFdsResult i (keys_with key_prefix (ps_fds st)), None), st)"
| "handle_client_message_inner os (PCloseFd i key) fd st =
     (Inr (if map_of (ps_fds st) key = None then PNotFound i else PSuccess i, None),
      st\<lparr>ps_fds := AList.delete key (ps_fds st)\<rparr>)"
| "handle_client_message_inner os (PCloseAllFds i) fd st =
     (Inr (PSuccess i, None), st\<lparr>ps_fds := []\<rparr>)"
| "handle_client_message_inner os (PPutFd i key) fd st =
     (case fd of
        None \<Rightarrow> (Inl Expected_fd, st)
      | Some fd \<Rightarrow> (Inr (PSuccess i, None), st\<lparr>ps_fds := AList.update key fd (ps_fds st)\<rparr>))"
| "handle_client_message_inner os (PGetFd i key) fd st =
     (case map_of (ps_fds st) key of
        None \<Rightarrow> (Inr (PNotFound i, None), st)
      | Some fd \<Rightarrow>
          if os_dup os fd then (Inr (PSuccessWithFd i, Some fd), st) else (Inl Dup_failed, st))"
| "handle_client_message_inner os (PPing i) fd st = (Inr (PPong i, None), st)"
| "handle_client_message_inner os (PGetProtocolVersion i) fd st =
     (Inr (PGetProtocolVersionResult i PERSIST_VERSION, None), st)"
| "handle_client_message_inner os (PStartProcess sp) fd st =
     (let (r, st) = start_process_inner os sp st
      in (case r of Inl e \<Rightarrow> (Inl (In_start_process e), st) | Inr _ \<Rightarrow> (Inr (PSuccess (sp_id sp), None), st)))"
| "handle_client_message_inner os (PSignalProcess i key sig) fd st =
     (case map_of (ps_processes st) key of
        None \<Rightarrow> (Inr (PNotFound i, None), st)
      | Some pid \<Rightarrow>
          if \<not> os_signal os sig then (Inl Invalid_signal, st)
          else if \<not> os_kill os pid sig then (Inl Kill_failed, st)
          else (Inr (PSuccess i, None), st))"
| "handle_client_message_inner os (PListProcesses i key_prefix) fd st =
     (Inr (PListProcessesResult i (keys_with key_prefix (ps_processes st)), None), st)"
| "handle_client_message_inner os (PHasFd i key) fd st =
     (Inr (if map_of (ps_fds st) key = None then PNotFound i else PSuccess i, None), st)"
| "handle_client_message_inner os msg fd st = (Inl (Unhandeled msg), st)"

definition handle_client_message ::
  "('e \<Rightarrow> string) \<Rightarrow> nat \<Rightarrow> ('e + (persist_message \<times> 'fd option)) \<times> 'st \<Rightarrow> (persist_message \<times> 'fd option) \<times> 'st"
where
  "handle_client_message text i r =
     (case r of (Inl e, st) \<Rightarrow> ((PError i (text e), None), st) | (Inr v, st) \<Rightarrow> (v, st))"

text \<open>A connection is told of ends of processes while its input is read.\<close>

definition persist_connect :: "nat \<Rightarrow> 'fd persist_state \<Rightarrow> 'fd persist_state" where
  "persist_connect c st = st\<lparr>ps_connections := c # ps_connections st\<rparr>"

definition persist_disconnect :: "nat \<Rightarrow> 'fd persist_state \<Rightarrow> 'fd persist_state" where
  "persist_disconnect c st = st\<lparr>ps_connections := removeAll c (ps_connections st)\<rparr>"

section \<open>The descriptors of a child\<close>

text \<open>What \<open>pre_exec\<close> does to the table of descriptors of the child: the standard ones are closed,
  then each of the daemon's descriptors is duplicated onto the number asked for, in order.
  \<open>None\<close> is a failing \<open>dup2\<close>.\<close>

fun dup_onto :: "(int \<times> int) list \<Rightarrow> (int \<rightharpoonup> 'file) \<Rightarrow> (int \<rightharpoonup> 'file) option" where
  "dup_onto [] t = Some t"
| "dup_onto ((new, old) # ofds) t = (if t old = None then None else dup_onto ofds (t(new := t old)))"

definition pre_exec_fds :: "(int \<times> int) list \<Rightarrow> (int \<rightharpoonup> 'file) \<Rightarrow> (int \<rightharpoonup> 'file) option" where
  "pre_exec_fds ofds t = dup_onto ofds (t(0 := None, 1 := None, 2 := None))"

lemma dup_onto_keeps: "dup_onto ofds t = Some t' \<Longrightarrow> n \<notin> fst ` set ofds \<Longrightarrow> t' n = t n"
  by (induction ofds t rule: dup_onto.induct) (auto split: if_splits)

lemma dup_onto_gets:
  assumes "distinct (map fst ofds)" "fst ` set ofds \<inter> snd ` set ofds = {}"
    and "\<forall>old \<in> snd ` set ofds. t old \<noteq> None"
  shows "\<exists>t'. dup_onto ofds t = Some t' \<and> (\<forall>(new, old) \<in> set ofds. t' new = t old)"
  using assms
proof (induction ofds arbitrary: t)
  case (Cons x ofds)
  obtain new old where x: "x = (new, old)" by (cases x)
  let ?t = "t(new := t old)"
  have same: "o' \<in> snd ` set ofds \<Longrightarrow> ?t o' = t o'" for o' using Cons.prems(2) x by auto
  with Cons.prems(3) have "\<forall>o' \<in> snd ` set ofds. ?t o' \<noteq> None" by (auto simp: image_iff)
  moreover have "distinct (map fst ofds)" "fst ` set ofds \<inter> snd ` set ofds = {}"
    using Cons.prems(1,2) by auto
  ultimately obtain t' where t': "dup_onto ofds ?t = Some t'" "\<forall>(n, o') \<in> set ofds. t' n = ?t o'"
    using Cons.IH [of ?t] by blast
  have "\<forall>(n, o') \<in> set ofds. t' n = t o'" using t'(2) same by (force simp: image_iff)
  moreover have "t' new = t old"
    using dup_onto_keeps [OF t'(1), of new] Cons.prems(1) x by simp
  ultimately show ?case using t'(1) x Cons.prems(3) by auto
qed simp

text \<open>Further result: a started process gets every descriptor under the number it was asked for.
  When the numbers asked for are different and none of them is the number of a descriptor to be
  passed on (the daemon keeps the numbers below 20 taken, so its own are 20 and above), no
  duplication fails and each number refers to what was registered, and nothing else is changed
  but the standard descriptors.\<close>

theorem child_gets_fds:
  assumes "distinct (map fst ofds)" "\<forall>new \<in> fst ` set ofds. 0 \<le> new \<and> new < 20"
    and "\<forall>old \<in> snd ` set ofds. 20 \<le> old \<and> t old \<noteq> None"
  shows "\<exists>t'. pre_exec_fds ofds t = Some t' \<and> (\<forall>(new, old) \<in> set ofds. t' new = t old)
    \<and> (\<forall>n. n \<notin> fst ` set ofds \<longrightarrow> t' n = (if n \<in> {0, 1, 2} then None else t n))"
proof -
  let ?t = "t(0 := None, 1 := None, 2 := None)"
  have d: "fst ` set ofds \<inter> snd ` set ofds = {}" using assms(2,3) by fastforce
  have old: "?t old = t old" if "old \<in> snd ` set ofds" for old
  proof -
    have "20 \<le> old" using assms(3) that by blast
    then show ?thesis by simp
  qed
  with assms(3) have "\<forall>old \<in> snd ` set ofds. ?t old \<noteq> None" by (simp del: fun_upd_apply)
  with assms(1) d obtain t' where t': "dup_onto ofds ?t = Some t'"
      "\<forall>(new, old) \<in> set ofds. t' new = ?t old"
    using dup_onto_gets by blast
  from t'(2) old have "\<forall>(new, old) \<in> set ofds. t' new = t old" by (force simp del: fun_upd_apply)
  moreover have "\<forall>n. n \<notin> fst ` set ofds \<longrightarrow> t' n = (if n \<in> {0, 1, 2} then None else t n)"
    using dup_onto_keeps [OF t'(1)] by auto
  ultimately show ?thesis using t'(1) unfolding pre_exec_fds_def by blast
qed

definition demo_fds :: "(int \<times> int) list" where
  "demo_fds = [(1, 20), (2, 21), (3, 20)]"

definition demo_table :: "int \<rightharpoonup> string" where
  "demo_table = [20 \<mapsto> ''pipe'', 21 \<mapsto> ''log'', 5 \<mapsto> ''x'']"

theorem child_gets_fds_witness:
  "\<exists>t'. pre_exec_fds demo_fds demo_table = Some t'
    \<and> (\<forall>(new, old) \<in> set demo_fds. t' new = demo_table old)
    \<and> (\<forall>n. n \<notin> fst ` set demo_fds \<longrightarrow> t' n = (if n \<in> {0, 1, 2} then None else demo_table n))"
  by (rule child_gets_fds) (auto simp: demo_fds_def demo_table_def)

text \<open>Further result: a number of 20 or more can take the place of a descriptor before that is
  passed on. The number in a description is any \<open>u16\<close>; then the child gets the wrong file.\<close>

theorem child_fd_overwritten:
  assumes "t old1 = Some f1" "t old2 = Some f2" "old1 \<notin> {0, 1, 2}" "old2 \<notin> {0, 1, 2}"
  shows "\<exists>t'. pre_exec_fds [(old2, old1), (new, old2)] t = Some t' \<and> t' new = Some f1"
  using assms by (auto simp: pre_exec_fds_def)

theorem child_fd_overwritten_witness:
  "\<exists>t'. pre_exec_fds [(21, 20), (3, 21)] [20 \<mapsto> ''a'', 21 \<mapsto> ''b''] = Some t' \<and> t' 3 = Some ''a''"
  by (rule child_fd_overwritten [of _ 20 "''a''" 21 "''b''"]) simp_all

section \<open>Requests of the client daemon\<close>

datatype persist_request_error = Remote_error string | Unexpected_response persist_message

text \<open>A request waits for the response with its id.\<close>

definition send_persist_request ::
  "'fd persist_os \<Rightarrow> (persist_error \<Rightarrow> string) \<Rightarrow> persist_message \<Rightarrow> 'fd option \<Rightarrow> 'fd persist_state
    \<Rightarrow> (persist_request_error + (persist_message \<times> 'fd option)) \<times> 'fd persist_state"
where
  "send_persist_request os text m fd st =
     (let (r, st) = handle_client_message text (message_id m) (handle_client_message_inner os m fd st)
      in (case r of (PError _ msg, _) \<Rightarrow> Inl (Remote_error msg) | v \<Rightarrow> Inr v, st))"

definition send_persist_request_success ::
  "'fd persist_os \<Rightarrow> (persist_error \<Rightarrow> string) \<Rightarrow> persist_message \<Rightarrow> 'fd option \<Rightarrow> 'fd persist_state
    \<Rightarrow> (persist_request_error + unit) \<times> 'fd persist_state"
where
  "send_persist_request_success os text m fd st =
     (let (r, st) = send_persist_request os text m fd st
      in (case r of
            Inl e \<Rightarrow> Inl e
          | Inr (PSuccess _, _) \<Rightarrow> Inr ()
          | Inr (v, _) \<Rightarrow> Inl (Unexpected_response v), st))"

definition persist_put_fd where
  "persist_put_fd os text i key fd = send_persist_request_success os text (PPutFd i key) (Some fd)"

definition persist_close_fd where
  "persist_close_fd os text i key = send_persist_request_success os text (PCloseFd i key) None"

definition persist_get_fd ::
  "'fd persist_os \<Rightarrow> (persist_error \<Rightarrow> string) \<Rightarrow> nat \<Rightarrow> string \<Rightarrow> 'fd persist_state
    \<Rightarrow> persist_request_error + 'fd option" where
  "persist_get_fd os text i key st =
     (case fst (send_persist_request os text (PGetFd i key) None st) of
        Inl e \<Rightarrow> Inl e
      | Inr (PSuccessWithFd _, Some fd) \<Rightarrow> Inr (Some fd)
      | Inr (PNotFound _, _) \<Rightarrow> Inr None
      | Inr (m, _) \<Rightarrow> Inl (Unexpected_response m))"

definition persist_has_fd ::
  "'fd persist_os \<Rightarrow> (persist_error \<Rightarrow> string) \<Rightarrow> nat \<Rightarrow> string \<Rightarrow> 'fd persist_state
    \<Rightarrow> persist_request_error + bool" where
  "persist_has_fd os text i key st =
     (case fst (send_persist_request os text (PHasFd i key) None st) of
        Inl e \<Rightarrow> Inl e
      | Inr (PSuccess _, _) \<Rightarrow> Inr True
      | Inr (PNotFound _, _) \<Rightarrow> Inr False
      | Inr (m, _) \<Rightarrow> Inl (Unexpected_response m))"

definition persist_list_fds ::
  "'fd persist_os \<Rightarrow> (persist_error \<Rightarrow> string) \<Rightarrow> nat \<Rightarrow> string option \<Rightarrow> 'fd persist_state
    \<Rightarrow> persist_request_error + string list" where
  "persist_list_fds os text i key_prefix st =
     (case fst (send_persist_request os text (PListFds i key_prefix) None st) of
        Inl e \<Rightarrow> Inl e
      | Inr (PListFdsResult _ ks, _) \<Rightarrow> Inr ks
      | Inr (m, _) \<Rightarrow> Inl (Unexpected_response m))"

definition persist_list_processes ::
  "'fd persist_os \<Rightarrow> (persist_error \<Rightarrow> string) \<Rightarrow> nat \<Rightarrow> string option \<Rightarrow> 'fd persist_state
    \<Rightarrow> persist_request_error + string list" where
  "persist_list_processes os text i key_prefix st =
     (case fst (send_persist_request os text (PListProcesses i key_prefix) None st) of
        Inl e \<Rightarrow> Inl e
      | Inr (PListProcessesResult _ ks, _) \<Rightarrow> Inr ks
      | Inr (m, _) \<Rightarrow> Inl (Unexpected_response m))"

definition persist_signal_process ::
  "'fd persist_os \<Rightarrow> (persist_error \<Rightarrow> string) \<Rightarrow> nat \<Rightarrow> string \<Rightarrow> int \<Rightarrow> 'fd persist_state
    \<Rightarrow> persist_request_error + bool" where
  "persist_signal_process os text i key sig st =
     (case fst (send_persist_request os text (PSignalProcess i key sig) None st) of
        Inl e \<Rightarrow> Inl e
      | Inr (PSuccess _, _) \<Rightarrow> Inr True
      | Inr (PNotFound _, _) \<Rightarrow> Inr False
      | Inr (m, _) \<Rightarrow> Inl (Unexpected_response m))"

lemmas request_defs = send_persist_request_def send_persist_request_success_def handle_client_message_def
  persist_put_fd_def persist_close_fd_def persist_get_fd_def persist_has_fd_def persist_list_fds_def
  persist_list_processes_def persist_signal_process_def

section \<open>The table of descriptors\<close>

definition fds_wf :: "'fd persist_state \<Rightarrow> bool" where
  "fds_wf st = distinct (map fst (ps_fds st))"

definition stored_fd :: "string \<Rightarrow> 'fd persist_state \<Rightarrow> 'fd option" where
  "stored_fd key st = map_of (ps_fds st) key"

text \<open>Putting and closing, as the client daemon does it, obey the laws of a mutable map.\<close>

interpretation pfd: mutable_map stored_fd
  "\<lambda>key fd st. snd (persist_put_fd os show_error i key fd st)"
  "\<lambda>key st. snd (persist_close_fd os show_error i key st)" fds_wf
  for os :: "'fd persist_os" and show_error :: "persist_error \<Rightarrow> string" and i :: nat
  by unfold_locales
    (auto simp: request_defs stored_fd_def fds_wf_def Let_def update_conv' delete_conv'
      distinct_update distinct_delete)

text \<open>What a request does to the table, whatever it is.\<close>

fun fd_table_step :: "persist_message \<times> 'fd option \<Rightarrow> (string \<rightharpoonup> 'fd) \<Rightarrow> (string \<rightharpoonup> 'fd)" where
  "fd_table_step (PPutFd _ k, Some fd) t = t(k \<mapsto> fd)"
| "fd_table_step (PCloseFd _ k, _) t = t(k := None)"
| "fd_table_step (PCloseAllFds _, _) t = Map.empty"
| "fd_table_step _ t = t"

lemma start_process_fds [simp]: "ps_fds (snd (start_process_inner os sp st)) = ps_fds st"
  by (simp add: start_process_inner_def split: sum.split option.split)

lemma request_table:
  assumes "fds_wf st"
  shows "fds_wf (snd (handle_client_message_inner os m fd st))
    \<and> map_of (ps_fds (snd (handle_client_message_inner os m fd st))) = fd_table_step (m, fd) (map_of (ps_fds st))"
  using assms
proof (cases m)
  case (PStartProcess sp)
  obtain r st' where r: "start_process_inner os sp st = (r, st')" by (cases "start_process_inner os sp st")
  then have "ps_fds st' = ps_fds st" using start_process_fds [of os sp st] by simp
  with PStartProcess r assms show ?thesis by (cases r) (auto simp: fds_wf_def split: unit.splits)
qed (auto simp: fds_wf_def update_conv' delete_conv' distinct_update distinct_delete split: option.split)

definition after_requests ::
  "'fd persist_os \<Rightarrow> (persist_message \<times> 'fd option) list \<Rightarrow> 'fd persist_state \<Rightarrow> 'fd persist_state" where
  "after_requests os reqs st = fold (\<lambda>(m, fd) st. snd (handle_client_message_inner os m fd st)) reqs st"

lemma after_requests_table:
  "fds_wf st \<Longrightarrow> fds_wf (after_requests os reqs st)
    \<and> map_of (ps_fds (after_requests os reqs st)) = fold fd_table_step reqs (map_of (ps_fds st))"
proof (induction reqs arbitrary: st)
  case (Cons r reqs)
  obtain m fd where r: "r = (m, fd)" by (cases r)
  have "after_requests os (r # reqs) st
      = after_requests os reqs (snd (handle_client_message_inner os m fd st))"
    by (simp add: after_requests_def r)
  with request_table [OF Cons.prems, of os m fd] Cons.IH show ?case by (simp add: r)
qed (simp add: after_requests_def)

lemma set_keys_with: "set (keys_with p m) = {k. map_of m k \<noteq> None \<and> (\<forall>q. p = Some q \<longrightarrow> starts_with q k)}"
  by (auto simp: keys_with_def map_of_eq_None_iff split: option.split)

lemma distinct_keys_with: "distinct (map fst m) \<Longrightarrow> distinct (keys_with p m)"
  by (simp add: keys_with_def)

text \<open>Further result: the daemon is a table of descriptors. After any sequence of requests, good
  and bad, fetching a key gives the descriptor put last and not closed since, \<open>has_fd\<close> says
  whether there is one, and a listing gives exactly the keys with the prefix, each once.\<close>

theorem persist_table_refines:
  assumes "fds_wf st" "\<forall>fd. os_dup os fd"
  shows "let st' = after_requests os reqs st; table = fold fd_table_step reqs (map_of (ps_fds st))
    in (\<forall>k. persist_get_fd os text i k st' = Inr (table k))
      \<and> (\<forall>k. persist_has_fd os text i k st' = Inr (table k \<noteq> None))
      \<and> (\<forall>p. \<exists>ks. persist_list_fds os text i (Some p) st' = Inr ks \<and> distinct ks
            \<and> set ks = {k. table k \<noteq> None \<and> starts_with p k})"
proof -
  let ?st' = "after_requests os reqs st" and ?table = "fold fd_table_step reqs (map_of (ps_fds st))"
  have t: "map_of (ps_fds ?st') = ?table" "distinct (map fst (ps_fds ?st'))"
    using after_requests_table [OF assms(1)] by (auto simp: fds_wf_def)
  have "persist_get_fd os text i k ?st' = Inr (?table k)" for k
    using assms(2) t(1) by (simp add: request_defs Let_def split: option.split)
  moreover have "persist_has_fd os text i k ?st' = Inr (?table k \<noteq> None)" for k
    using t(1) by (simp add: request_defs Let_def)
  moreover have "\<exists>ks. persist_list_fds os text i (Some p) ?st' = Inr ks \<and> distinct ks
      \<and> set ks = {k. ?table k \<noteq> None \<and> starts_with p k}" for p
    using t distinct_keys_with [OF t(2), of "Some p"] set_keys_with [of "Some p" "ps_fds ?st'"]
    by (simp add: request_defs Let_def)
  ultimately show ?thesis by (simp add: Let_def)
qed

definition demo_os :: "string persist_os" where
  "demo_os = \<lparr>os_dup = (\<lambda>_. True), os_spawn = (\<lambda>sp _. Some (sp_id sp)), os_signal = (\<lambda>_. True),
     os_kill = (\<lambda>_ _. True)\<rparr>"

definition demo_requests :: "(persist_message \<times> string option) list" where
  "demo_requests = [(PPutFd 1 ''a'', Some ''x''), (PPing 2, None), (PPutFd 3 ''b'', Some ''y''), (PCloseFd 4 ''a'', None)]"

theorem persist_table_refines_witness:
  "let st' = after_requests demo_os demo_requests persist_default;
       table = fold fd_table_step demo_requests (map_of (ps_fds persist_default))
    in (\<forall>k. persist_get_fd demo_os (\<lambda>_. []) 9 k st' = Inr (table k))
      \<and> (\<forall>k. persist_has_fd demo_os (\<lambda>_. []) 9 k st' = Inr (table k \<noteq> None))
      \<and> (\<forall>p. \<exists>ks. persist_list_fds demo_os (\<lambda>_. []) 9 (Some p) st' = Inr ks \<and> distinct ks
            \<and> set ks = {k. table k \<noteq> None \<and> starts_with p k})"
  by (rule persist_table_refines) (simp_all add: fds_wf_def persist_default_def demo_os_def)

text \<open>Further result: every reply is for its request. It carries the request's id, so that the
  client finds who waits for it, and comes with a descriptor exactly when its type says so.\<close>

theorem replies_match:
  "case handle_client_message text (message_id m) (handle_client_message_inner os m fd st) of
     ((r, rfd), _) \<Rightarrow> message_id r = message_id m \<and> (with_fd r \<longleftrightarrow> rfd \<noteq> None)"
proof (cases m)
  case (PStartProcess sp)
  then show ?thesis
    by (auto simp: handle_client_message_def Let_def split: prod.splits sum.splits unit.splits)
qed (auto simp: handle_client_message_def split: option.split)

section \<open>Processes\<close>

inductive persist_step :: "'fd persist_os \<Rightarrow> 'fd persist_state \<Rightarrow> 'fd persist_state \<Rightarrow> bool"
  for os where
  request: "(\<forall>sp. m = PStartProcess sp \<longrightarrow> map_of (ps_processes st) (sp_key sp) = None) \<Longrightarrow>
    persist_step os st (snd (handle_client_message_inner os m fd st))"
| child_exit: "(key, pid) \<in> set (ps_children st) \<Longrightarrow>
    persist_step os st (snd (handle_process key pid ret st))"
| connected: "persist_step os st (persist_connect c st)"
| disconnected: "persist_step os st (persist_disconnect c st)"

definition tracked :: "'fd persist_state \<Rightarrow> bool" where
  "tracked st \<longleftrightarrow> distinct (map fst (ps_children st)) \<and> distinct (map fst (ps_processes st))
     \<and> map_of (ps_processes st) = map_of (ps_children st)"

lemma tracked_default: "tracked persist_default"
  by (simp add: tracked_def persist_default_def)

lemma start_process_processes:
  assumes "tracked st" "map_of (ps_processes st) (sp_key sp) = None"
  shows "tracked (snd (start_process_inner os sp st))"
  using assms
  by (auto simp: start_process_inner_def tracked_def update_conv' distinct_update map_of_eq_None_iff
      split: sum.split option.split)

lemma request_tracked:
  assumes "tracked st" "\<forall>sp. m = PStartProcess sp \<longrightarrow> map_of (ps_processes st) (sp_key sp) = None"
  shows "tracked (snd (handle_client_message_inner os m fd st))"
proof (cases m)
  case (PStartProcess sp)
  obtain r st' where r: "start_process_inner os sp st = (r, st')" by (cases "start_process_inner os sp st")
  with PStartProcess start_process_processes [of st sp os] assms show ?thesis
    by (cases r) (auto split: unit.splits)
qed (use assms in \<open>auto simp: tracked_def split: option.split\<close>)

lemma remove1_key:
  "distinct (map fst xs) \<Longrightarrow> (k, v) \<in> set xs \<Longrightarrow>
    map_of (remove1 (k, v) xs) = (map_of xs)(k := None) \<and> distinct (map fst (remove1 (k, v) xs))"
proof (induction xs)
  case (Cons x xs)
  show ?case
  proof (cases "x = (k, v)")
    case True
    with Cons.prems show ?thesis by (auto simp: map_of_eq_None_iff fun_eq_iff)
  next
    case False
    have d: "distinct (map fst xs)" "(k, v) \<in> set xs" "fst x \<notin> fst ` set xs"
      using Cons.prems False by auto
    then have "fst x \<noteq> k" by (metis fst_conv image_eqI)
    moreover have "fst x \<notin> fst ` set (remove1 (k, v) xs)"
      using d(3) set_remove1_subset [of "(k, v)" xs] by blast
    ultimately show ?thesis using False Cons.IH [OF d(1,2)] by (cases x) (simp add: fun_eq_iff)
  qed
qed simp

lemma step_tracked: "persist_step os st st' \<Longrightarrow> tracked st \<Longrightarrow> tracked st'"
proof (induction rule: persist_step.induct)
  case (request m st fd)
  then show ?case by (intro request_tracked) auto
next
  case (child_exit key pid st ret)
  then show ?case
    using remove1_key [of "ps_children st" key pid]
    by (auto simp: tracked_def handle_process_def delete_conv' distinct_delete)
qed (simp_all add: tracked_def persist_connect_def persist_disconnect_def)

text \<open>Further result: the daemon knows exactly the processes that run. From its start, as long as
  nothing is started under a key in use, listing by a prefix gives exactly the keys of the running
  children with that prefix, and a signal that the system lets through is answered as sent exactly
  when a child with that key runs.\<close>

theorem processes_tracked:
  assumes "(persist_step os)\<^sup>*\<^sup>* persist_default st"
    and "os_signal os sig" "\<forall>pid. os_kill os pid sig"
  shows "\<exists>ks. persist_list_processes os text i (Some p) st = Inr ks \<and> distinct ks
      \<and> set ks = {k. k \<in> fst ` set (ps_children st) \<and> starts_with p k}
      \<and> persist_signal_process os text i key sig st = Inr (key \<in> fst ` set (ps_children st))"
proof -
  have t: "tracked st"
    using assms(1) by (induction rule: rtranclp_induct) (auto intro: tracked_default step_tracked)
  then have m: "map_of (ps_processes st) k \<noteq> None \<longleftrightarrow> k \<in> fst ` set (ps_children st)" for k
    by (metis map_of_eq_None_iff tracked_def)
  have "persist_signal_process os text i key sig st = Inr (key \<in> fst ` set (ps_children st))"
    using m [of key] assms(2,3) by (auto simp: request_defs Let_def split: option.split)
  then show ?thesis
    using t m distinct_keys_with [of "ps_processes st" "Some p"] set_keys_with [of "Some p" "ps_processes st"]
    by (simp add: request_defs Let_def tracked_def)
qed

definition demo_process :: "nat \<Rightarrow> start_process" where
  "demo_process n = \<lparr>sp_id = n, sp_key = ''service.a.1'', sp_path = ''/bin/a'', sp_args = [], sp_env = [],
     sp_uid = None, sp_gid = None, sp_current_dir = None, sp_cgroup = None, sp_umask = None, sp_fds = []\<rparr>"

definition demo_running :: "string persist_state" where
  "demo_running = snd (handle_client_message_inner demo_os (PStartProcess (demo_process 7)) None persist_default)"

lemma demo_running_step: "(persist_step demo_os)\<^sup>*\<^sup>* persist_default demo_running"
  unfolding demo_running_def
  by (rule r_into_rtranclp) (rule persist_step.request, simp add: persist_default_def)

lemma demo_running_eq:
  "demo_running = \<lparr>ps_fds = [], ps_processes = [(''service.a.1'', 7)], ps_connections = [],
     ps_children = [(''service.a.1'', 7)]\<rparr>"
  by (simp add: demo_running_def start_process_inner_def demo_process_def demo_os_def persist_default_def)

theorem processes_tracked_witness:
  "\<exists>ks. persist_list_processes demo_os (\<lambda>_. []) 8 (Some ''service.'') demo_running = Inr ks \<and> distinct ks
      \<and> set ks = {k. k \<in> fst ` set (ps_children demo_running) \<and> starts_with ''service.'' k}
      \<and> persist_signal_process demo_os (\<lambda>_. []) 8 ''service.a.1'' 15 demo_running
        = Inr (''service.a.1'' \<in> fst ` set (ps_children demo_running))"
  by (rule processes_tracked [OF demo_running_step]) (simp_all add: demo_os_def)

text \<open>Further result: a key used twice makes the daemon forget a process that runs. When a second
  process is started under the key of a running one and the first ends, the entry of the second is
  removed: it runs on, but is not listed and can no longer be signalled.\<close>

theorem reused_key_forgotten:
  assumes "process_fds os (ps_fds st) (sp_fds sp) = Inr ofds" "os_spawn os sp ofds = Some pid"
    and "(sp_key sp, old) \<in> set (ps_children st)" "distinct (map fst (ps_processes st))"
  shows "let st' = snd (handle_process (sp_key sp) old ret (snd (start_process_inner os sp st)))
    in (pid \<noteq> old \<longrightarrow> (sp_key sp, pid) \<in> set (ps_children st'))
      \<and> map_of (ps_processes st') (sp_key sp) = None"
proof -
  have "snd (start_process_inner os sp st) = st\<lparr>ps_processes := AList.update (sp_key sp) pid (ps_processes st),
      ps_children := (sp_key sp, pid) # ps_children st\<rparr>"
    using assms(1,2) by (simp add: start_process_inner_def)
  then show ?thesis by (auto simp: handle_process_def Let_def delete_conv')
qed

theorem reused_key_forgotten_witness:
  "let st' = snd (handle_process (sp_key (demo_process 8)) 7 (Some 0)
        (snd (start_process_inner demo_os (demo_process 8) demo_running)))
    in (8 \<noteq> (7 :: nat) \<longrightarrow> (sp_key (demo_process 8), 8) \<in> set (ps_children st'))
      \<and> map_of (ps_processes st') (sp_key (demo_process 8)) = None"
  by (rule reused_key_forgotten [where ofds = "[]"])
    (simp_all add: demo_running_eq demo_process_def demo_os_def)

text \<open>Further result: whoever is connected is told of the end of a process, once for every
  connection, with its key and its code.\<close>

theorem end_of_process_told:
  "(c, m) \<in> set (fst (handle_process key pid ret st))
    \<longleftrightarrow> c \<in> set (ps_connections st) \<and> m = PProcessDied key (case ret of None \<Rightarrow> -99 | Some v \<Rightarrow> v)"
  by (auto simp: handle_process_def)

end
