(* ===== verification/Service_Instance.thy ===== *)
theory Service_Instance
  imports Metrics Persist
begin

text \<open>
  The running instance of a service (\<open>client_daemon_service.rs\<close>): the status that is kept of a
  service, and \<open>process_service_instance\<close>, which waits for output, for the end of the process,
  for messages on the notify socket and for timeouts. \<open>tokio::select!\<close> takes one of the branches
  that are ready, so what happens is a list of events, each with the time it is taken at; an event
  whose branch is switched off or whose time has not come cannot be taken and is passed over.
  Times are milliseconds; \<open>ms\<close> converts a duration of the description. Writing to the log or the
  journal may fail, which the event says.
\<close>

type_synonym instant = nat

record service_instance =
  si_instance_id :: nat
  si_watchdog :: instant
  si_pod_name :: "string option"
  si_go_stdout :: bool
  si_go_stderr :: bool
  si_code :: "int option"

record 'f service_status =
  st_status :: string
  st_state :: service_state
  st_description :: "'f service_description"
  st_extra_env :: "(string \<times> string) list"
  st_instance_id :: nat
  st_enabled :: bool
  st_stdout_key :: "string option"
  st_stderr_key :: "string option"
  st_notify_key :: "string option"
  st_process_key :: "string option"
  st_metrics_path :: "string option"
  st_start_stop_time :: instant
  st_deploy_time :: instant
  st_deploy_user :: string
  st_image :: "string option"
  st_pod_name :: "string option"

definition SERVICES_BUF_SIZE :: nat where
  "SERVICES_BUF_SIZE = 1024 * 64"

section \<open>Waiting for a magic text\<close>

text \<open>One read: the end of what was read before stands in front of the new bytes. The search stops
  before the last place where the text could stand.\<close>

definition magic_found :: "string \<Rightarrow> string \<Rightarrow> bool" where
  "magic_found magic buf =
     list_ex (\<lambda>x. take (length magic) (drop x buf) = magic) [0..<length buf - length magic]"

definition magic_tail :: "string \<Rightarrow> string \<Rightarrow> string" where
  "magic_tail magic buf = drop (length buf - min (length buf) (length magic)) buf"

section \<open>Events\<close>

datatype pipe_read =
    Data string bool
  | Again
  | Failed

datatype instance_event =
    Cancel
  | Watchdog_passed
  | Timeout_passed
  | On_stdout pipe_read
  | On_stderr pipe_read
  | On_dead "int option"
  | On_notify "string option"

datatype instance_result = Finished | Watchdog_timeout | Is_ready | Canceled | Timed_out

datatype instance_error = Log_failed | Read_error string | Dead_closed | Notify_failed

text \<open>The arguments of the call that do not change.\<close>

record wait_args =
  wa_stop_ready :: bool
  wa_with_watchdog :: bool
  wa_timeout :: "instant option"
  wa_magic :: "string option"

record 'f wait_state =
  ws_instance :: service_instance
  ws_status :: "'f service_status"
  ws_stdout_tail :: string
  ws_stderr_tail :: string

definition enabled_event ::
  "wait_args \<Rightarrow> 'f duration option \<Rightarrow> 'f wait_state \<Rightarrow> instant \<times> instance_event \<Rightarrow> bool" where
  "enabled_event a watchdog w ev =
     (case ev of
        (t, Watchdog_passed) \<Rightarrow>
          watchdog \<noteq> None \<and> wa_with_watchdog a \<and> si_watchdog (ws_instance w) \<le> t
      | (t, Timeout_passed) \<Rightarrow> (case wa_timeout a of None \<Rightarrow> False | Some d \<Rightarrow> d \<le> t)
      | (_, On_stdout r) \<Rightarrow> si_go_stdout (ws_instance w) \<and>
          (case r of Data s _ \<Rightarrow> length s \<le> SERVICES_BUF_SIZE - length (ws_stdout_tail w) | _ \<Rightarrow> True)
      | (_, On_stderr r) \<Rightarrow> si_go_stderr (ws_instance w) \<and>
          (case r of Data s _ \<Rightarrow> length s \<le> SERVICES_BUF_SIZE - length (ws_stderr_tail w) | _ \<Rightarrow> True)
      | (_, On_dead _) \<Rightarrow> si_code (ws_instance w) = None
      | _ \<Rightarrow> True)"

definition pipe_data :: "string option \<Rightarrow> string \<Rightarrow> string \<Rightarrow> instance_result option \<times> string" where
  "pipe_data magic tail data =
     (case magic of
        None \<Rightarrow> (None, tail)
      | Some m \<Rightarrow>
          if length m \<le> length (tail @ data) \<and> magic_found m (tail @ data) then (Some Is_ready, tail)
          else (None, magic_tail m (tail @ data)))"

text \<open>What a message on the notify socket does (it is trimmed).\<close>

definition on_notify ::
  "('f duration \<Rightarrow> nat) \<Rightarrow> wait_args \<Rightarrow> 'f duration option \<Rightarrow> instant \<Rightarrow> string \<Rightarrow> 'f wait_state
    \<Rightarrow> instance_result option \<times> 'f wait_state" where
  "on_notify ms a watchdog t text w =
     (let msg = trim text
      in if msg = ''READY=1'' then
           (if wa_stop_ready a then Some Is_ready else None, w\<lparr>ws_status := (ws_status w)\<lparr>st_state := Ready\<rparr>\<rparr>)
         else if msg = ''RELOADING=1'' then
           (None, w\<lparr>ws_status := (ws_status w)\<lparr>st_state := Reloading\<rparr>\<rparr>)
         else if msg = ''STOPPING=1'' then
           (None, w\<lparr>ws_status := (ws_status w)\<lparr>st_state := Stopping\<rparr>\<rparr>)
         else if msg = ''WATCHDOG=1'' then
           (None, w\<lparr>ws_instance := (ws_instance w)\<lparr>si_watchdog :=
              (case watchdog of Some v \<Rightarrow> t + ms v | None \<Rightarrow> t)\<rparr>\<rparr>)
         else (case strip_prefix ''STATUS='' msg of
                 Some sts \<Rightarrow> (None, w\<lparr>ws_status := (ws_status w)\<lparr>st_status := sts\<rparr>\<rparr>)
               | None \<Rightarrow> (None, w)))"

definition instance_step ::
  "('f duration \<Rightarrow> nat) \<Rightarrow> wait_args \<Rightarrow> 'f duration option \<Rightarrow> instant \<times> instance_event \<Rightarrow> 'f wait_state
    \<Rightarrow> (instance_error + instance_result option) \<times> 'f wait_state" where
  "instance_step ms a watchdog ev w =
     (case ev of
        (_, Cancel) \<Rightarrow> (Inr (Some Canceled), w)
      | (_, Watchdog_passed) \<Rightarrow> (Inr (Some Watchdog_timeout), w)
      | (_, Timeout_passed) \<Rightarrow> (Inr (Some Timed_out), w)
      | (_, On_stdout Again) \<Rightarrow> (Inr None, w)
      | (_, On_stdout Failed) \<Rightarrow> (Inl (Read_error ''stdout''), w)
      | (_, On_stdout (Data s logged)) \<Rightarrow>
          if \<not> logged then (Inl Log_failed, w)
          else (let (r, tail) = pipe_data (wa_magic a) (ws_stdout_tail w) s
                in (Inr r, w\<lparr>ws_stdout_tail := tail,
                     ws_instance := (ws_instance w)\<lparr>si_go_stdout :=
                       (si_go_stdout (ws_instance w) \<and> (s \<noteq> [] \<or> r \<noteq> None))\<rparr>\<rparr>))
      | (_, On_stderr Again) \<Rightarrow> (Inr None, w)
      | (_, On_stderr Failed) \<Rightarrow> (Inl (Read_error ''stderr''), w)
      | (_, On_stderr (Data s logged)) \<Rightarrow>
          if \<not> logged then (Inl Log_failed, w)
          else (let (r, tail) = pipe_data (wa_magic a) (ws_stderr_tail w) s
                in (Inr r, w\<lparr>ws_stderr_tail := tail,
                     ws_instance := (ws_instance w)\<lparr>si_go_stderr :=
                       (si_go_stderr (ws_instance w) \<and> (s \<noteq> [] \<or> r \<noteq> None))\<rparr>\<rparr>))
      | (_, On_dead None) \<Rightarrow> (Inl Dead_closed, w)
      | (_, On_dead (Some c)) \<Rightarrow>
          (Inr None, w\<lparr>ws_instance := (ws_instance w)\<lparr>si_code := Some c\<rparr>\<rparr>)
      | (_, On_notify None) \<Rightarrow> (Inl Notify_failed, w)
      | (t, On_notify (Some text)) \<Rightarrow>
          (let (r, w) = on_notify ms a watchdog t text w in (Inr r, w)))"

definition instance_over :: "service_instance \<Rightarrow> bool" where
  "instance_over i = (\<not> si_go_stdout i \<and> \<not> si_go_stderr i \<and> si_code i \<noteq> None)"

text \<open>The loop; \<open>None\<close> while it waits for more events. What is left of the events is returned.\<close>

fun wait_loop ::
  "('f duration \<Rightarrow> nat) \<Rightarrow> wait_args \<Rightarrow> 'f duration option \<Rightarrow> (instant \<times> instance_event) list \<Rightarrow> 'f wait_state
    \<Rightarrow> (instance_error + instance_result) option \<times> 'f wait_state \<times> (instant \<times> instance_event) list"
where
  "wait_loop ms a watchdog evs w =
     (if instance_over (ws_instance w) then (Some (Inr Finished), w, evs)
      else (case evs of
              [] \<Rightarrow> (None, w, [])
            | ev # evs \<Rightarrow>
                if \<not> enabled_event a watchdog w ev then wait_loop ms a watchdog evs w
                else (case instance_step ms a watchdog ev w of
                        (Inl e, w) \<Rightarrow> (Some (Inl e), w, evs)
                      | (Inr (Some r), w) \<Rightarrow> (Some (Inr r), w, evs)
                      | (Inr None, w) \<Rightarrow> wait_loop ms a watchdog evs w)))"

definition process_service_instance ::
  "('f duration \<Rightarrow> nat) \<Rightarrow> wait_args \<Rightarrow> (instant \<times> instance_event) list
    \<Rightarrow> service_instance \<Rightarrow> 'f service_status
    \<Rightarrow> (instance_error + instance_result) option \<times> service_instance \<times> 'f service_status
        \<times> (instant \<times> instance_event) list" where
  "process_service_instance ms a evs i st =
     (let (r, w, evs) = wait_loop ms a (sd_watchdog_timeout (st_description st)) evs
            \<lparr>ws_instance = i, ws_status = st, ws_stdout_tail = [], ws_stderr_tail = []\<rparr>
      in (r, ws_instance w, ws_status w, evs))"

declare wait_loop.simps [simp del]

section \<open>When the magic text is seen\<close>

text \<open>\<open>m\<close> stands somewhere in \<open>s\<close> and at least one more byte follows.\<close>

definition stands_before :: "string \<Rightarrow> string \<Rightarrow> bool" where
  "stands_before m s \<longleftrightarrow> (\<exists>p. p + length m < length s \<and> take (length m) (drop p s) = m)"

lemma magic_found_stands: "magic_found m s \<longleftrightarrow> stands_before m s"
  by (auto simp: magic_found_def stands_before_def list_ex_iff Bex_def less_diff_conv)

lemma stands_before_length: "stands_before m s \<Longrightarrow> length m \<le> length s"
  by (auto simp: stands_before_def)

lemma stands_before_append: "stands_before m s \<Longrightarrow> stands_before m (s @ t)"
proof -
  assume "stands_before m s"
  then obtain p where p: "p + length m < length s" "take (length m) (drop p s) = m"
    by (auto simp: stands_before_def)
  then have "p + length m < length (s @ t)" "take (length m) (drop p (s @ t)) = m" by simp_all
  then show ?thesis unfolding stands_before_def by blast
qed

lemma stands_before_prepend: "stands_before m s \<Longrightarrow> stands_before m (t @ s)"
proof -
  assume "stands_before m s"
  then obtain p where p: "p + length m < length s" "take (length m) (drop p s) = m"
    by (auto simp: stands_before_def)
  then have "length t + p + length m < length (t @ s)" "take (length m) (drop (length t + p) (t @ s)) = m"
    by simp_all
  then show ?thesis unfolding stands_before_def by blast
qed

lemma magic_tail_split: "s = take (length s - min (length s) (length m)) s @ magic_tail m s"
  by (simp add: magic_tail_def)

lemma length_magic_tail: "length (magic_tail m s) = min (length s) (length m)"
  by (simp add: magic_tail_def)

text \<open>Searching the tail with the new bytes is searching everything read.\<close>

lemma stands_before_tail:
  assumes "\<not> stands_before m s"
  shows "stands_before m (magic_tail m s @ d) \<longleftrightarrow> stands_before m (s @ d)"
proof
  let ?k = "length s - min (length s) (length m)"
  have s: "s = take ?k s @ magic_tail m s" by (rule magic_tail_split)
  show "stands_before m (magic_tail m s @ d) \<Longrightarrow> stands_before m (s @ d)"
    using stands_before_prepend [of m "magic_tail m s @ d" "take ?k s"] s by (metis append.assoc)
  assume "stands_before m (s @ d)"
  then obtain p where p: "p + length m < length (s @ d)" "take (length m) (drop p (s @ d)) = m"
    by (auto simp: stands_before_def)
  show "stands_before m (magic_tail m s @ d)"
  proof (cases "?k \<le> p")
    case True
    have "drop ?k (s @ d) = magic_tail m s @ d" by (simp add: magic_tail_def)
    then have "drop p (s @ d) = drop (p - ?k) (magic_tail m s @ d)"
      using True by (metis drop_drop le_add_diff_inverse2)
    moreover have "length (s @ d) = ?k + length (magic_tail m s @ d)" by (simp add: length_magic_tail)
    moreover from this have "p - ?k + length m < length (magic_tail m s @ d)"
      using p(1) True by linarith
    ultimately have "p - ?k + length m < length (magic_tail m s @ d)"
        "take (length m) (drop (p - ?k) (magic_tail m s @ d)) = m"
      using p(2) by simp_all
    then show ?thesis unfolding stands_before_def by blast
  next
    case False
    then have "p + length m < length s" by simp
    with p(2) have "stands_before m s" by (auto simp: stands_before_def)
    with assms show ?thesis by simp
  qed
qed

lemma magic_tail_tail: "magic_tail m (magic_tail m s @ d) = magic_tail m (s @ d)"
proof -
  let ?k = "length s - min (length s) (length m)" and ?t = "magic_tail m s"
  have k: "drop ?k (s @ d) = ?t @ d" by (simp add: magic_tail_def)
  have "length (?t @ d) = min (length s) (length m) + length d" by (simp add: length_magic_tail)
  then have "length (s @ d) - min (length (s @ d)) (length m)
      = length (?t @ d) - min (length (?t @ d)) (length m) + ?k" by auto
  then show ?thesis
    unfolding magic_tail_def [of m "?t @ d"] magic_tail_def [of m "s @ d"]
    using k by (metis drop_drop)
qed

lemma pipe_data_read:
  assumes "\<not> stands_before m s"
  shows "pipe_data (Some m) (magic_tail m s) d =
    (if stands_before m (s @ d) then (Some Is_ready, magic_tail m s) else (None, magic_tail m (s @ d)))"
  using stands_before_tail [OF assms, of d] stands_before_length [of m "magic_tail m s @ d"]
  by (auto simp: pipe_data_def magic_found_stands magic_tail_tail)

definition out_event :: "instant \<times> string \<Rightarrow> instant \<times> instance_event" where
  "out_event r = (fst r, On_stdout (Data (snd r) True))"

lemma wait_output:
  assumes "wa_magic a = Some m" "\<not> stands_before m s" "ws_stdout_tail w = magic_tail m s"
    and "si_go_stdout (ws_instance w)" "\<forall>(t, d) \<in> set reads. d \<noteq> [] \<and> length d + length m \<le> SERVICES_BUF_SIZE"
  shows "\<exists>w'. if stands_before m (s @ concat (map snd reads))
    then \<exists>rest. wait_loop ms a watchdog (map out_event reads @ evs) w = (Some (Inr Is_ready), w', rest)
    else wait_loop ms a watchdog (map out_event reads @ evs) w = wait_loop ms a watchdog evs w'
      \<and> si_go_stdout (ws_instance w')"
  using assms
proof (induction reads arbitrary: s w)
  case Nil
  then show ?case by auto
next
  case (Cons r reads)
  obtain t d where r: "r = (t, d)" by (cases r)
  with Cons.prems(5) have d: "d \<noteq> []" "length d + length m \<le> SERVICES_BUF_SIZE" by auto
  let ?evs = "map out_event reads @ evs"
  let ?w = "w\<lparr>ws_stdout_tail := magic_tail m (s @ d), ws_instance := (ws_instance w)\<lparr>si_go_stdout := True\<rparr>\<rparr>"
  have over: "\<not> instance_over (ws_instance w)" using Cons.prems(4) by (simp add: instance_over_def)
  have en: "enabled_event a watchdog w (out_event r)"
    using Cons.prems(3,4) d by (simp add: enabled_event_def out_event_def r length_magic_tail)
  have step: "instance_step ms a watchdog (out_event r) w
      = (if stands_before m (s @ d) then (Inr (Some Is_ready), w\<lparr>ws_stdout_tail := magic_tail m s, ws_instance := (ws_instance w)\<lparr>si_go_stdout := True\<rparr>\<rparr>)
         else (Inr None, ?w))"
    using Cons.prems d pipe_data_read [OF Cons.prems(2), of d]
    by (simp add: instance_step_def out_event_def r)
  show ?case
  proof (cases "stands_before m (s @ d)")
    case True
    with over en step have "wait_loop ms a watchdog (map out_event (r # reads) @ evs) w
        = (Some (Inr Is_ready), w\<lparr>ws_stdout_tail := magic_tail m s, ws_instance := (ws_instance w)\<lparr>si_go_stdout := True\<rparr>\<rparr>, ?evs)"
      by (subst wait_loop.simps) simp
    moreover have "stands_before m (s @ concat (map snd (r # reads)))"
      using stands_before_append [OF True] by (simp add: r)
    ultimately show ?thesis by auto
  next
    case False
    with over en step have e: "wait_loop ms a watchdog (map out_event (r # reads) @ evs) w
        = wait_loop ms a watchdog ?evs ?w"
      by (subst wait_loop.simps) simp
    have "\<exists>w'. if stands_before m ((s @ d) @ concat (map snd reads))
      then \<exists>rest. wait_loop ms a watchdog ?evs ?w = (Some (Inr Is_ready), w', rest)
      else wait_loop ms a watchdog ?evs ?w = wait_loop ms a watchdog evs w' \<and> si_go_stdout (ws_instance w')"
      using Cons.prems False by (intro Cons.IH) auto
    then show ?thesis unfolding e by (simp add: r)
  qed
qed

text \<open>Further result: a service counts as started by its output exactly when the magic text stands in
  it with at least one byte after it. However the output comes in pieces (each fits the buffer
  beside what is kept of the last one), a piece in which that becomes true ends the waiting at
  once, and otherwise what comes after the output decides.\<close>

theorem start_magic_seen:
  assumes "wa_magic a = Some m" "si_go_stdout i" "m \<noteq> []"
    and "\<forall>(t, d) \<in> set reads. d \<noteq> [] \<and> length d + length m \<le> SERVICES_BUF_SIZE"
  shows "fst (process_service_instance ms a (map out_event reads) i st)
    = (if stands_before m (concat (map snd reads)) then Some (Inr Is_ready) else None)"
proof -
  let ?w = "\<lparr>ws_instance = i, ws_status = st, ws_stdout_tail = [], ws_stderr_tail = []\<rparr>"
  have "\<not> stands_before m []" "magic_tail m [] = []" by (simp_all add: stands_before_def magic_tail_def)
  with assms have "\<exists>w'. if stands_before m ([] @ concat (map snd reads))
    then \<exists>rest. wait_loop ms a (sd_watchdog_timeout (st_description st)) (map out_event reads @ []) ?w = (Some (Inr Is_ready), w', rest)
    else wait_loop ms a (sd_watchdog_timeout (st_description st)) (map out_event reads @ []) ?w
        = wait_loop ms a (sd_watchdog_timeout (st_description st)) [] w' \<and> si_go_stdout (ws_instance w')"
    by (intro wait_output) simp_all
  then obtain w' where w': "if stands_before m (concat (map snd reads))
    then \<exists>rest. wait_loop ms a (sd_watchdog_timeout (st_description st)) (map out_event reads) ?w = (Some (Inr Is_ready), w', rest)
    else wait_loop ms a (sd_watchdog_timeout (st_description st)) (map out_event reads) ?w
        = wait_loop ms a (sd_watchdog_timeout (st_description st)) [] w' \<and> si_go_stdout (ws_instance w')"
    unfolding append_Nil append_Nil2 by blast
  moreover have "fst (wait_loop ms a wd [] w') = None" if "si_go_stdout (ws_instance w')" for wd
    using that by (subst wait_loop.simps) (simp add: instance_over_def)
  ultimately show ?thesis
    unfolding process_service_instance_def Let_def case_prod_unfold fst_conv by (auto split: if_splits)
qed

definition fresh_instance :: "nat \<Rightarrow> instant \<Rightarrow> string option \<Rightarrow> service_instance" where
  "fresh_instance n watchdog pod =
     \<lparr>si_instance_id = n, si_watchdog = watchdog, si_pod_name = pod, si_go_stdout = True, si_go_stderr = True,
      si_code = None\<rparr>"

definition magic_args :: "instant option \<Rightarrow> string \<Rightarrow> wait_args" where
  "magic_args timeout m = \<lparr>wa_stop_ready = False, wa_with_watchdog = False, wa_timeout = timeout, wa_magic = Some m\<rparr>"

theorem start_magic_seen_witness:
  "fst (process_service_instance (\<lambda>_. 0) (magic_args None ''up'') (map out_event [(1, ''starting u''), (2, ''p''), (3, ''!'')])
      (fresh_instance 1 0 None) st)
    = (if stands_before ''up'' (concat (map snd [(1 :: nat, ''starting u''), (2, ''p''), (3, ''!'')])) then Some (Inr Is_ready) else None)"
  by (rule start_magic_seen) (simp_all add: magic_args_def fresh_instance_def SERVICES_BUF_SIZE_def)

text \<open>Further result: a magic text that is the last output is not seen. A service that prints it
  and then is silent is taken to have failed to start when the time is up.\<close>

theorem magic_at_end_missed:
  assumes "\<not> stands_before m (s @ m)" "s @ m \<noteq> []" "length (s @ m) + length m \<le> SERVICES_BUF_SIZE" "due \<le> t'"
  shows "fst (process_service_instance ms (magic_args (Some due) m) [out_event (t, s @ m), (t', Timeout_passed)]
      (fresh_instance n wd pod) st) = Some (Inr Timed_out)"
proof -
  let ?a = "magic_args (Some due) m" and ?wd = "sd_watchdog_timeout (st_description st)"
  let ?w = "\<lparr>ws_instance = fresh_instance n wd pod, ws_status = st, ws_stdout_tail = [], ws_stderr_tail = []\<rparr>"
  have "\<not> stands_before m []" "magic_tail m [] = []" by (simp_all add: stands_before_def magic_tail_def)
  with assms wait_output [where a = ?a and m = m and s = "[]" and w = ?w and reads = "[(t, s @ m)]" and ms = ms
      and watchdog = ?wd and evs = "[(t', Timeout_passed)]"]
  obtain w' where "wait_loop ms ?a ?wd [out_event (t, s @ m), (t', Timeout_passed)] ?w
      = wait_loop ms ?a ?wd [(t', Timeout_passed)] w'" "si_go_stdout (ws_instance w')"
    by (auto simp: magic_args_def fresh_instance_def)
  moreover from this(2) assms(4) have "wait_loop ms ?a ?wd [(t', Timeout_passed)] w' = (Some (Inr Timed_out), w', [])"
    by (subst wait_loop.simps)
      (simp add: instance_over_def enabled_event_def instance_step_def magic_args_def)
  ultimately show ?thesis by (simp add: process_service_instance_def)
qed

lemma demo_not_before: "\<not> stands_before ''ready'' (''ok '' @ ''ready'')"
  unfolding magic_found_stands [symmetric] by (simp add: magic_found_def upt_rec)

theorem magic_at_end_missed_witness:
  "fst (process_service_instance (\<lambda>_. 0) (magic_args (Some 60) ''ready'') [out_event (1, ''ok '' @ ''ready''), (60, Timeout_passed)]
      (fresh_instance 1 0 None) st) = Some (Inr Timed_out)"
  by (rule magic_at_end_missed [OF demo_not_before]) (simp_all add: SERVICES_BUF_SIZE_def)

section \<open>Timeouts\<close>

lemma wait_loop_enabled:
  assumes "(t, Timeout_passed) \<in> set evs" "wa_timeout a = Some d" "d \<le> t"
  shows "fst (wait_loop ms a watchdog evs w) \<noteq> None"
  using assms
proof (induction evs arbitrary: w)
  case (Cons ev evs)
  show ?case
  proof (cases "ev = (t, Timeout_passed)")
    case True
    with assms(2,3) show ?thesis
      by (subst wait_loop.simps) (simp add: enabled_event_def instance_step_def)
  next
    case False
    with Cons.prems(1) have "(t, Timeout_passed) \<in> set evs" by simp
    with Cons.IH assms(2,3) have ih: "fst (wait_loop ms a watchdog evs w') \<noteq> None" for w' by blast
    then show ?thesis
      by (subst wait_loop.simps) (auto split: prod.splits sum.splits option.splits)
  qed
qed simp

text \<open>Further result: with a time limit the waiting ends. Once the clock has reached the limit,
  whatever else the service does, the call has returned.\<close>

theorem waiting_ends:
  assumes "(t, Timeout_passed) \<in> set evs" "wa_timeout a = Some d" "d \<le> t"
  shows "fst (process_service_instance ms a evs i st) \<noteq> None"
  unfolding process_service_instance_def Let_def case_prod_unfold fst_conv
  by (rule wait_loop_enabled [OF assms])

theorem waiting_ends_witness:
  "fst (process_service_instance (\<lambda>_. 0) (magic_args (Some 5) ''x'')
     [(1, On_stderr (Data ''y'' True)), (2, Timeout_passed), (5, Timeout_passed)] (fresh_instance 1 0 None) st) \<noteq> None"
  by (rule waiting_ends [where t = 5 and d = 5]) (simp_all add: magic_args_def)

text \<open>A result \<open>Finished\<close> is about a process that is gone.\<close>

lemma wait_loop_finished:
  "wait_loop ms a watchdog evs w = (Some (Inr Finished), w', rest) \<Longrightarrow> instance_over (ws_instance w')"
proof (induction ms a watchdog evs w rule: wait_loop.induct)
  case (1 ms a watchdog evs w)
  show ?case
  proof (cases "instance_over (ws_instance w)")
    case True
    with 1 show ?thesis by (subst (asm) wait_loop.simps) simp
  next
    case over: False
    with 1 obtain ev evs' where evs: "evs = ev # evs'"
      by (cases evs) (auto simp: wait_loop.simps)
    show ?thesis
    proof (cases "enabled_event a watchdog w ev")
      case False
      with 1 over evs show ?thesis by (subst (asm) (3) wait_loop.simps) simp
    next
      case True
      have "fst (instance_step ms a watchdog ev w) \<noteq> Inr (Some Finished)"
        by (auto simp: instance_step_def on_notify_def pipe_data_def Let_def
            split: prod.splits instance_event.splits pipe_read.splits option.splits)
      with True 1 over evs show ?thesis
        by (subst (asm) (3) wait_loop.simps) (auto split: prod.splits sum.splits option.splits)
    qed
  qed
qed

lemma finished_is_over:
  "process_service_instance ms a evs i st = (Some (Inr Finished), i', st', rest) \<Longrightarrow> instance_over i'"
  using wait_loop_finished by (fastforce simp: process_service_instance_def split: prod.splits)

lemma wait_loop_consumes:
  "wait_loop ms a watchdog evs w = (Some r, w', rest) \<Longrightarrow> r \<noteq> Inr Finished \<Longrightarrow> length rest < length evs"
proof (induction ms a watchdog evs w rule: wait_loop.induct)
  case (1 ms a watchdog evs w)
  from 1(3,4) have over: "\<not> instance_over (ws_instance w)" by (auto simp: wait_loop.simps [of _ _ _ _ w])
  with 1 obtain ev evs' where evs: "evs = ev # evs'" by (cases evs) (auto simp: wait_loop.simps)
  show ?case
  proof (cases "enabled_event a watchdog w ev")
    case False
    then have "wait_loop ms a watchdog evs' w = (Some r, w', rest)"
      using 1(3) over evs by (simp add: wait_loop.simps [of _ _ _ _ w])
    with 1(1) [OF over evs False] 1(4) evs show ?thesis by simp
  next
    case True
    obtain x w1 where x: "instance_step ms a watchdog ev w = (x, w1)" by fastforce
    show ?thesis
    proof (cases "x = Inr None")
      case None: True
      then have "wait_loop ms a watchdog evs' w1 = (Some r, w', rest)"
        using 1(3) over evs True x by (simp add: wait_loop.simps [of _ _ _ _ w])
      with 1(2) [OF over evs] True x None 1(4) evs show ?thesis by fastforce
    next
      case False
      then have "rest = evs'"
        using 1(3) over evs True x by (auto simp: wait_loop.simps [of _ _ _ _ w] split: sum.splits option.splits)
      with evs show ?thesis by simp
    qed
  qed
qed

lemma process_consumes:
  "process_service_instance ms a evs i st = (Some r, i', st', rest) \<Longrightarrow> r \<noteq> Inr Finished \<Longrightarrow> length rest < length evs"
  unfolding process_service_instance_def Let_def case_prod_unfold
  using wait_loop_consumes by (fastforce simp: prod_eq_iff)

end
