(* ===== verification/Service_World.thy ===== *)
theory Service_World
  imports Service_Instance
begin

text \<open>
  What the operations on a service do to the world (\<open>client_daemon_service.rs\<close>): a computation
  takes the world and returns an error or a value with the world after it. The world holds the
  persist daemon, the rows of the table of services, the handlers that wait for processes, the
  files that deployments replace, and the list of calls made so far (newest first). Whether a
  system call, a command, a script or a write to the log goes through is decided by
  \<open>se_sys\<close> from the number of calls made before and the call, so any course of failures is some
  environment. The clean-up operations are here, as the start and the stop of an instance use them.
\<close>

section \<open>Calls\<close>

datatype sys_call =
    Log string
  | Command "string option" "string list"
  | Script string string "(string \<times> string) list"
  | Cgroup string "nat option"
  | Make_pipe
  | Make_dir string
  | Remove_dir string
  | Bind_datagram string
  | Listen_tcp string bool
  | Listen_unix string bool
  | Chmod string nat
  | Chown string string
  | Temp_file string
  | Temp_dir string
  | Exists string
  | Rename string string
  | Remove_file string
  | Merge_into string
  | Save_status string
  | Delete_status string
  | Signalled string int
  | Sleep nat

text \<open>What a path of the file system names; an empty directory is \<open>Folder []\<close>.\<close>

datatype entry = File string | Folder string

datatype service_fd =
    Notify_socket string
  | Stdout_write nat
  | Stdout_read nat
  | Stderr_write nat
  | Stderr_read nat
  | Tcp_socket string
  | Unix_socket string

datatype service_error =
    Sys_failed sys_call
  | Command_failed "string option" "string list"
  | Request_failed persist_request_error
  | Instance_failed instance_error
  | Service_message string
  | Unknown_user string

record 'f service_env =
  se_os :: "service_fd persist_os"
  se_error :: "persist_error \<Rightarrow> string"
  se_ms :: "'f duration \<Rightarrow> nat"
  se_bytes :: "'f size_of \<Rightarrow> nat"
  se_sys :: "nat \<Rightarrow> sys_call \<Rightarrow> bool"
  se_success :: "nat \<Rightarrow> sys_call \<Rightarrow> bool"
  se_output :: "nat \<Rightarrow> sys_call \<Rightarrow> string list"
  se_extract :: "string \<Rightarrow> string \<Rightarrow> entry"
  se_user :: "string \<Rightarrow> (string \<times> nat \<times> nat) option"

text \<open>\<open>se_user\<close> gives the home, the user and the group id of a user, \<open>se_success\<close> the exit status of a command that ran,
  \<open>se_output\<close> the lines it printed, \<open>se_extract\<close> what an image holds at a path.\<close>

record 'f service_world =
  sw_persist :: "service_fd persist_state"
  sw_handlers :: "string list"
  sw_rows :: "(string \<times> 'f service_status) list"
  sw_files :: "string \<rightharpoonup> entry"
  sw_calls :: "sys_call list"

type_synonym ('f, 'a) act = "'f service_world \<Rightarrow> (service_error + 'a) \<times> 'f service_world"

definition act_return :: "'a \<Rightarrow> ('f, 'a) act" where
  "act_return v = (\<lambda>w. (Inr v, w))"

definition act_fail :: "service_error \<Rightarrow> ('f, 'a) act" where
  "act_fail e = (\<lambda>w. (Inl e, w))"

definition act_bind :: "('f, 'a) act \<Rightarrow> ('a \<Rightarrow> ('f, 'b) act) \<Rightarrow> ('f, 'b) act" where
  "act_bind m f = (\<lambda>w. case m w of (Inl e, w) \<Rightarrow> (Inl e, w) | (Inr v, w) \<Rightarrow> f v w)"

definition act_then :: "('f, 'a) act \<Rightarrow> ('f, 'b) act \<Rightarrow> ('f, 'b) act" where
  "act_then m n = act_bind m (\<lambda>_. n)"

text \<open>\<open>let _ =\<close>: an error is dropped.\<close>

definition act_ignore :: "('f, 'a) act \<Rightarrow> ('f, unit) act" where
  "act_ignore m = (\<lambda>w. (Inr (), snd (m w)))"

fun act_all :: "('a \<Rightarrow> ('f, unit) act) \<Rightarrow> 'a list \<Rightarrow> ('f, unit) act" where
  "act_all f [] = act_return ()"
| "act_all f (x # xs) = act_then (f x) (act_all f xs)"

definition act_when :: "bool \<Rightarrow> ('f, unit) act \<Rightarrow> ('f, unit) act" where
  "act_when b m = (if b then m else act_return ())"

lemmas act_defs = act_return_def act_fail_def act_bind_def act_then_def act_ignore_def act_when_def

definition sys :: "'f service_env \<Rightarrow> sys_call \<Rightarrow> ('f, unit) act" where
  "sys env c = (\<lambda>w. (if se_sys env (length (sw_calls w)) c then Inr () else Inl (Sys_failed c),
     w\<lparr>sw_calls := c # sw_calls w\<rparr>))"

abbreviation log_stdout :: "'f service_env \<Rightarrow> string \<Rightarrow> ('f, unit) act" where
  "log_stdout env msg \<equiv> sys env (Log msg)"

text \<open>Running a command gives whether it succeeded and the lines of its output.\<close>

definition command ::
  "'f service_env \<Rightarrow> string option \<Rightarrow> string list \<Rightarrow> ('f, bool \<times> string list) act" where
  "command env user argv = (\<lambda>w.
     act_bind (sys env (Command user argv))
       (\<lambda>_. act_return (se_success env (length (sw_calls w)) (Command user argv),
          se_output env (length (sw_calls w)) (Command user argv))) w)"

section \<open>Requests to the persist daemon\<close>

text \<open>The ids of requests are left out (0): the sender is locked until a request is answered, so a
  response is always for the one request that waits.\<close>

definition put_fd :: "'f service_env \<Rightarrow> string \<Rightarrow> service_fd \<Rightarrow> ('f, unit) act" where
  "put_fd env key fd = (\<lambda>w.
     let (r, p) = persist_put_fd (se_os env) (se_error env) 0 key fd (sw_persist w)
     in (case r of Inl e \<Rightarrow> Inl (Request_failed e) | Inr u \<Rightarrow> Inr u, w\<lparr>sw_persist := p\<rparr>))"

definition close_fd :: "'f service_env \<Rightarrow> string \<Rightarrow> ('f, unit) act" where
  "close_fd env key = (\<lambda>w.
     let (r, p) = persist_close_fd (se_os env) (se_error env) 0 key (sw_persist w)
     in (case r of Inl e \<Rightarrow> Inl (Request_failed e) | Inr u \<Rightarrow> Inr u, w\<lparr>sw_persist := p\<rparr>))"

definition query :: "(service_fd persist_state \<Rightarrow> persist_request_error + 'a) \<Rightarrow> ('f, 'a) act" where
  "query q = (\<lambda>w.
     (case q (sw_persist w) of Inl e \<Rightarrow> Inl (Request_failed e) | Inr v \<Rightarrow> Inr v, w))"

definition has_fd :: "'f service_env \<Rightarrow> string \<Rightarrow> ('f, bool) act" where
  "has_fd env key = query (persist_has_fd (se_os env) (se_error env) 0 key)"

definition list_fds :: "'f service_env \<Rightarrow> string \<Rightarrow> ('f, string list) act" where
  "list_fds env p = query (persist_list_fds (se_os env) (se_error env) 0 (Some p))"

definition list_processes :: "'f service_env \<Rightarrow> string \<Rightarrow> ('f, string list) act" where
  "list_processes env p = query (persist_list_processes (se_os env) (se_error env) 0 (Some p))"

text \<open>A signal that is sent is in the list of calls.\<close>

definition signal_process :: "'f service_env \<Rightarrow> string \<Rightarrow> int \<Rightarrow> ('f, bool) act" where
  "signal_process env key sig =
     act_bind (query (persist_signal_process (se_os env) (se_error env) 0 key sig))
       (\<lambda>sent w. (Inr sent, if sent then w\<lparr>sw_calls := Signalled key sig # sw_calls w\<rparr> else w))"

definition spawn_process :: "'f service_env \<Rightarrow> start_process \<Rightarrow> ('f, unit) act" where
  "spawn_process env sp = (\<lambda>w.
     let (r, p) = send_persist_request_success (se_os env) (se_error env) (PStartProcess sp) None (sw_persist w)
     in (case r of Inl e \<Rightarrow> Inl (Request_failed e) | Inr u \<Rightarrow> Inr u, w\<lparr>sw_persist := p\<rparr>))"

section \<open>Keys\<close>

definition instance_prefix :: "string \<Rightarrow> nat \<Rightarrow> string" where
  "instance_prefix name i = ''service.'' @ name @ ''.'' @ show_nat i @ ''.''"

definition process_key_of :: "string \<Rightarrow> nat \<Rightarrow> string" where
  "process_key_of name i = ''service.'' @ name @ ''.'' @ show_nat i"

definition service_prefix :: "string \<Rightarrow> string" where
  "service_prefix name = ''service.'' @ name @ ''.''"

definition instance_dir :: "string \<Rightarrow> nat \<Rightarrow> string" where
  "instance_dir name i = ''/run/simpleadmin/services/'' @ name @ ''/'' @ show_nat i"

section \<open>Cleaning up\<close>

definition close_all :: "'f service_env \<Rightarrow> string list \<Rightarrow> ('f, unit) act" where
  "close_all env = act_all (\<lambda>key. act_ignore (close_fd env key))"

definition kill_all :: "'f service_env \<Rightarrow> string list \<Rightarrow> ('f, unit) act" where
  "kill_all env = act_all (\<lambda>key. act_ignore (signal_process env key 9))"

text \<open>\<open>if let Ok(keys)\<close>: a listing that fails is passed over.\<close>

definition if_listed :: "('f, string list) act \<Rightarrow> (string list \<Rightarrow> ('f, unit) act) \<Rightarrow> ('f, unit) act" where
  "if_listed m f = (\<lambda>w. case m w of (Inl e, w) \<Rightarrow> (Inr (), w) | (Inr ks, w) \<Rightarrow> f ks w)"

definition cleanup_instance :: "'f service_env \<Rightarrow> string \<Rightarrow> nat \<Rightarrow> ('f, unit) act" where
  "cleanup_instance env name i =
     act_then (if_listed (list_processes env (instance_prefix name i)) (kill_all env))
       (act_then (if_listed (list_fds env (instance_prefix name i)) (close_all env))
          (act_ignore (sys env (Remove_dir (instance_dir name i)))))"

text \<open>The containers of the service, one kill each.\<close>

fun kill_containers :: "'f service_env \<Rightarrow> string option \<Rightarrow> string list \<Rightarrow> ('f, unit) act" where
  "kill_containers env user [] = act_return ()"
| "kill_containers env user (line # ls) =
     (if trim line = [] then kill_containers env user ls
      else act_then (act_ignore (command env user [''/usr/bin/podman'', ''kill'', trim line]))
             (kill_containers env user ls))"

definition podman_user :: "'f service_env \<Rightarrow> string option \<Rightarrow> ('f, unit) act" where
  "podman_user env user =
     (case user of
        None \<Rightarrow> act_return ()
      | Some u \<Rightarrow> if se_user env u = None then act_fail (Unknown_user u) else act_return ())"

definition cleanup_containers :: "'f service_env \<Rightarrow> string \<Rightarrow> string option \<Rightarrow> ('f, unit) act" where
  "cleanup_containers env name user = (\<lambda>w.
     case command env user [''/usr/bin/podman'', ''container'', ''ls'', ''-qf'',
            ''name=sa_'' @ name @ ''_[0-9+]''] w of
       (Inl e, w) \<Rightarrow> (Inr (), w)
     | (Inr (ok, ls), w) \<Rightarrow> if ok then kill_containers env user ls w else (Inr (), w))"

definition cleanup_rest :: "'f service_env \<Rightarrow> string \<Rightarrow> string option \<Rightarrow> ('f, unit) act" where
  "cleanup_rest env name user =
     act_then (podman_user env user) (
     act_then (cleanup_containers env name user)
       (act_ignore (sys env (Remove_dir (''/run/simpleadmin/services/'' @ name)))))"

definition cleanup :: "'f service_env \<Rightarrow> string \<Rightarrow> string option \<Rightarrow> ('f, unit) act" where
  "cleanup env name user =
     act_bind (list_fds env (service_prefix name)) (\<lambda>fds.
     act_then (close_all env fds) (
     act_bind (list_processes env (service_prefix name)) (\<lambda>ps.
     act_then (kill_all env ps) (cleanup_rest env name user))))"

section \<open>What clean-ups do\<close>

lemma close_fd_state [simp]:
  "snd (close_fd env key w) =
     w\<lparr>sw_persist := (sw_persist w)\<lparr>ps_fds := AList.delete key (ps_fds (sw_persist w))\<rparr>\<rparr>"
  by (simp add: close_fd_def request_defs Let_def)

lemma list_fds_result [simp]:
  "list_fds env p w = (Inr (keys_with (Some p) (ps_fds (sw_persist w))), w)"
  by (simp add: list_fds_def query_def request_defs Let_def)

lemma list_processes_result [simp]:
  "list_processes env p w = (Inr (keys_with (Some p) (ps_processes (sw_persist w))), w)"
  by (simp add: list_processes_def query_def request_defs Let_def)

text \<open>Signals leave the world alone but for the list of calls.\<close>

definition signalled :: "'f service_env \<Rightarrow> service_fd persist_state \<Rightarrow> int \<Rightarrow> string \<Rightarrow> bool" where
  "signalled env p sig key =
     (case map_of (ps_processes p) key of
        None \<Rightarrow> False
      | Some pid \<Rightarrow> os_signal (se_os env) sig \<and> os_kill (se_os env) pid sig)"

lemma signal_process_state [simp]:
  "snd (signal_process env key sig w) =
     (if signalled env (sw_persist w) sig key then w\<lparr>sw_calls := Signalled key sig # sw_calls w\<rparr> else w)"
  by (simp add: signal_process_def query_def act_defs request_defs Let_def signalled_def split: option.split)

lemma act_all_ignore:
  "act_all (\<lambda>x. act_ignore (f x)) xs w = (Inr (), fold (\<lambda>x w. snd (f x w)) xs w)"
  by (induction xs arbitrary: w) (simp_all add: act_defs)

lemma close_all_state [simp]:
  "close_all env ks w =
     (Inr (), w\<lparr>sw_persist := (sw_persist w)\<lparr>ps_fds := fold AList.delete ks (ps_fds (sw_persist w))\<rparr>\<rparr>)"
  unfolding close_all_def act_all_ignore by (induction ks arbitrary: w) simp_all

lemma kill_all_state [simp]:
  "kill_all env ks w = (Inr (), w\<lparr>sw_calls :=
     rev (map (\<lambda>k. Signalled k 9) (filter (signalled env (sw_persist w) 9) ks)) @ sw_calls w\<rparr>)"
  unfolding kill_all_def act_all_ignore by (induction ks arbitrary: w) simp_all

text \<open>Acts that leave the persist daemon as it is.\<close>

definition keeps_persist :: "('f, 'a) act \<Rightarrow> bool" where
  "keeps_persist m \<longleftrightarrow> (\<forall>w. sw_persist (snd (m w)) = sw_persist w)"

lemma persist_bind_kept: "keeps_persist m \<Longrightarrow> (\<And>v. keeps_persist (f v)) \<Longrightarrow> keeps_persist (act_bind m f)"
  unfolding keeps_persist_def act_bind_def by (auto split: prod.split sum.split) (metis snd_conv)+

lemma persist_then_kept: "keeps_persist m \<Longrightarrow> keeps_persist n \<Longrightarrow> keeps_persist (act_then m n)"
  by (simp add: act_then_def persist_bind_kept)

lemma persist_basic_kept: "keeps_persist (act_return v)" "keeps_persist (act_fail e)" "keeps_persist (sys env c)"
  by (simp_all add: keeps_persist_def act_defs sys_def)

lemma persist_ignore_kept: "keeps_persist m \<Longrightarrow> keeps_persist (act_ignore m)"
  by (simp add: keeps_persist_def act_ignore_def)

lemma persist_command_kept: "keeps_persist (command env user argv)"
  by (simp add: keeps_persist_def command_def act_defs sys_def)

lemmas persist_kept = persist_bind_kept persist_then_kept persist_basic_kept persist_ignore_kept persist_command_kept

lemma map_of_fold_delete:
  "map_of (fold AList.delete ks m) k = (if k \<in> set ks then None else map_of m k)"
  by (induction ks arbitrary: m) (auto simp: delete_conv')

definition killable :: "'f service_env \<Rightarrow> bool" where
  "killable env \<longleftrightarrow> os_signal (se_os env) 9 \<and> (\<forall>pid. os_kill (se_os env) pid 9)"

lemma signalled_killable: "killable env \<Longrightarrow> signalled env p 9 k \<longleftrightarrow> map_of (ps_processes p) k \<noteq> None"
  by (simp add: signalled_def killable_def split: option.split)

definition instance_kills :: "'f service_env \<Rightarrow> string \<Rightarrow> service_fd persist_state \<Rightarrow> sys_call list" where
  "instance_kills env p st =
     rev (map (\<lambda>k. Signalled k 9) (filter (signalled env st 9) (keys_with (Some p) (ps_processes st))))"

lemma cleanup_instance_state:
  "cleanup_instance env name i w = (Inr (), w\<lparr>
      sw_persist := (sw_persist w)\<lparr>ps_fds :=
        fold AList.delete (keys_with (Some (instance_prefix name i)) (ps_fds (sw_persist w))) (ps_fds (sw_persist w))\<rparr>,
      sw_calls := Remove_dir (instance_dir name i) # instance_kills env (instance_prefix name i) (sw_persist w) @ sw_calls w\<rparr>)"
  by (simp add: cleanup_instance_def if_listed_def act_defs sys_def instance_kills_def)

lemma set_instance_kills:
  "killable env \<Longrightarrow> set (instance_kills env p st) = {Signalled k 9 |k. map_of (ps_processes st) k \<noteq> None \<and> starts_with p k}"
  by (auto simp: instance_kills_def set_keys_with signalled_killable)

text \<open>Further result: cleaning up an instance is exact. It always succeeds; the descriptors under
  the prefix of the instance are closed and no others, and exactly the processes under that prefix
  are sent a kill.\<close>

theorem cleanup_instance_exact:
  assumes "killable env"
  shows "case cleanup_instance env name i w of (r, w') \<Rightarrow> r = Inr ()
    \<and> (\<forall>k. stored_fd k (sw_persist w') =
          (if starts_with (instance_prefix name i) k then None else stored_fd k (sw_persist w)))
    \<and> (\<exists>sent. sw_calls w' = Remove_dir (instance_dir name i) # sent @ sw_calls w
        \<and> set sent = {Signalled k 9 |k. map_of (ps_processes (sw_persist w)) k \<noteq> None
              \<and> starts_with (instance_prefix name i) k})
    \<and> ps_processes (sw_persist w') = ps_processes (sw_persist w)"
  using set_instance_kills [OF assms, of "instance_prefix name i" "sw_persist w"]
  unfolding cleanup_instance_state by (auto simp: stored_fd_def map_of_fold_delete set_keys_with)

definition demo_env :: "nat service_env" where
  "demo_env = \<lparr>se_os = \<lparr>os_dup = (\<lambda>_. True), os_spawn = (\<lambda>sp _. Some (sp_id sp)), os_signal = (\<lambda>_. True),
      os_kill = (\<lambda>_ _. True)\<rparr>, se_error = (\<lambda>_. ''error''), se_ms = (\<lambda>_. 0), se_bytes = (\<lambda>_. 0),
    se_sys = (\<lambda>_ _. True), se_success = (\<lambda>_ _. True), se_output = (\<lambda>_ _. []), se_extract = (\<lambda>_ p. File p), se_user = (\<lambda>_. Some (''/home'', 1000, 1000))\<rparr>"

definition demo_world :: "nat service_world" where
  "demo_world = \<lparr>sw_persist = \<lparr>ps_fds = [(''service.a.1.notify'', Notify_socket []), (''service.a.bind.:80'', Tcp_socket '':80'')],
      ps_processes = [(''service.a.1'', 77)], ps_connections = [], ps_children = [(''service.a.1'', 77)]\<rparr>,
    sw_handlers = [], sw_rows = [], sw_files = Map.empty, sw_calls = [Signalled ''service.a.1'' 15]\<rparr>"

lemma killable_demo [simp]: "killable demo_env"
  by (simp add: killable_def demo_env_def)

theorem cleanup_instance_exact_witness:
  "case cleanup_instance demo_env ''a'' 1 demo_world of (r, w') \<Rightarrow> r = Inr ()
    \<and> (\<forall>k. stored_fd k (sw_persist w') =
          (if starts_with (instance_prefix ''a'' 1) k then None else stored_fd k (sw_persist demo_world)))
    \<and> (\<exists>sent. sw_calls w' = Remove_dir (instance_dir ''a'' 1) # sent @ sw_calls demo_world
        \<and> set sent = {Signalled k 9 |k. map_of (ps_processes (sw_persist demo_world)) k \<noteq> None
              \<and> starts_with (instance_prefix ''a'' 1) k})
    \<and> ps_processes (sw_persist w') = ps_processes (sw_persist demo_world)"
  by (rule cleanup_instance_exact) simp

lemma key_not_prefixed: "\<not> starts_with (instance_prefix name i) (process_key_of name i)"
proof
  assume "starts_with (instance_prefix name i) (process_key_of name i)"
  then obtain r where "process_key_of name i = instance_prefix name i @ r"
    by (auto simp: starts_with_def strip_prefix_Some_iff)
  from arg_cong [OF this, of length] show False by (simp add: process_key_of_def instance_prefix_def)
qed

lemma instance_kills_spare: "Signalled (process_key_of name i) s \<notin> set (instance_kills env (instance_prefix name i) st)"
  using key_not_prefixed [of name i] by (auto simp: instance_kills_def set_keys_with)

text \<open>Further result: the process of an instance is not killed by the clean-up of the instance. Its
  key is the prefix without the last dot, so the listing by the prefix does not give it: whatever
  signal it has been sent afterwards it had been sent before.\<close>

theorem cleanup_spares_process:
  assumes "Signalled (process_key_of name i) s \<in> set (sw_calls (snd (cleanup_instance env name i w)))"
  shows "Signalled (process_key_of name i) s \<in> set (sw_calls w)"
  using assms by (simp add: cleanup_instance_state instance_kills_spare)

theorem cleanup_spares_process_witness:
  "Signalled (process_key_of ''a'' 1) 15 \<in> set (sw_calls demo_world)"
  by (rule cleanup_spares_process [of _ _ _ demo_env])
    (simp add: cleanup_instance_state demo_world_def process_key_of_def show_nat.simps char_of_def bit_iff_odd)

lemma keeps_kill_containers: "keeps_persist (kill_containers env user ls)"
  by (induction ls) (auto intro!: persist_kept)

lemma keeps_cleanup_containers: "keeps_persist (cleanup_containers env name user)"
  unfolding keeps_persist_def
proof
  fix w
  obtain r w1 where c: "command env user [''/usr/bin/podman'', ''container'', ''ls'', ''-qf'',
      ''name=sa_'' @ name @ ''_[0-9+]''] w = (r, w1)" by fastforce
  then have "sw_persist w1 = sw_persist w" using persist_command_kept unfolding keeps_persist_def by (metis snd_conv)
  then show "sw_persist (snd (cleanup_containers env name user w)) = sw_persist w"
    using c unfolding cleanup_containers_def
    by (auto simp: keeps_kill_containers [unfolded keeps_persist_def, rule_format] split: sum.split prod.split)
qed

lemma keeps_podman_user: "keeps_persist (podman_user env user)"
  by (auto simp: podman_user_def keeps_persist_def act_defs split: option.split)

lemma cleanup_fds:
  "stored_fd k (sw_persist (snd (cleanup env name user w)))
    = (if starts_with (service_prefix name) k then None else stored_fd k (sw_persist w))"
proof -
  have "keeps_persist (cleanup_rest env name user)"
    unfolding cleanup_rest_def by (intro persist_kept keeps_podman_user keeps_cleanup_containers)
  then have k: "sw_persist (snd (cleanup_rest env name user w)) = sw_persist w" for w
    by (simp add: keeps_persist_def)
  show ?thesis
    by (simp add: cleanup_def act_bind_def act_then_def k stored_fd_def map_of_fold_delete set_keys_with)
qed

text \<open>Further result: cleaning up a service closes what belongs to services whose names begin with
  its name and a dot. After a successful clean-up no descriptor under the prefix of the other
  service is left, so stopping \<open>a\<close> closes the sockets and pipes of \<open>a.b\<close>.\<close>

theorem cleanup_reaches_other_service:
  assumes "starts_with (service_prefix (name @ ''.'' @ other)) k"
  shows "stored_fd k (sw_persist (snd (cleanup env name user w))) = None"
proof -
  from assms have "starts_with (service_prefix name) k"
    by (auto simp: starts_with_def service_prefix_def strip_prefix_Some_iff)
  then show ?thesis by (simp add: cleanup_fds)
qed

theorem cleanup_reaches_other_service_witness:
  "stored_fd ''service.a.b.bind.:80'' (sw_persist (snd (cleanup demo_env ''a'' None demo_world))) = None"
  by (rule cleanup_reaches_other_service [of _ "''b''"]) (simp add: service_prefix_def starts_with_def)

end
