(* ===== verification/Service_Stop.thy ===== *)
theory Service_Stop
  imports Service_World
begin

text \<open>
  Stopping an instance (\<open>Stop::new\<close> and \<open>Stop::run\<close> of \<open>client_daemon_service.rs\<close>): the signal of
  the description is sent, the end of the process is awaited until the stop timeout, and then a
  kill is sent. What the task that runs the service gives when it is cancelled is an argument, as
  are the events while the process is awaited.
\<close>

datatype stop_state = Sent15 | Sent9 | Stop_finished

record stop_op =
  stp_timeout :: instant
  stp_state :: stop_state
  stp_process_key :: string
  stp_instance :: service_instance

definition kill_command :: "string \<Rightarrow> string list \<Rightarrow> string list" where
  "kill_command pod opts = [''/usr/bin/podman'', ''kill'', pod] @ opts"

definition podman_kill ::
  "'f service_env \<Rightarrow> string option \<Rightarrow> string \<Rightarrow> string list \<Rightarrow> ('f, unit) act" where
  "podman_kill env user pod opts =
     act_then (podman_user env user)
       (act_bind (command env user (kill_command pod opts)) (\<lambda>(ok, _).
          if ok then act_return () else act_fail (Command_failed user (kill_command pod opts))))"

text \<open>The signal that asks an instance to stop.\<close>

definition stop_signal :: "'f service_description \<Rightarrow> bool \<Rightarrow> signal" where
  "stop_signal d overlap =
     (case (if overlap then sd_overlap_stop_signal d else None) of
        Some s \<Rightarrow> s
      | None \<Rightarrow> get_stop_signal d)"

text \<open>\<open>task\<close> is \<open>None\<close> when nothing runs the service.\<close>

definition stop_new ::
  "('f :: numeral) service_env \<Rightarrow> (service_error + service_instance option) option \<Rightarrow> 'f service_status
    \<Rightarrow> bool \<Rightarrow> instant \<Rightarrow> ('f, stop_op option) act" where
  "stop_new env task status overlap now =
     (case task of
        None \<Rightarrow> act_return None
      | Some (Inl _) \<Rightarrow> act_fail (Service_message ''Failed to wait for task'')
      | Some (Inr None) \<Rightarrow> act_return None
      | Some (Inr (Some i)) \<Rightarrow>
          (case st_process_key status of
             None \<Rightarrow> act_fail (Service_message ''Expected process key'')
           | Some key \<Rightarrow>
               let d = st_description status; sig = stop_signal d overlap
               in act_then
                    (case st_pod_name status of
                       Some pod \<Rightarrow>
                         act_then (log_stdout env (opt_or (sd_user d) ''root'' @ ''$ podman kill '' @ pod
                             @ '' --signal '' @ signal_name sig @ [NL]))
                           (podman_kill env (sd_user d) pod [''--signal'', signal_name sig])
                     | None \<Rightarrow>
                         act_then (log_stdout env (''Sending sigterm to process'' @ [NL]))
                           (act_bind (signal_process env key (signal_number sig)) (\<lambda>_. act_return ())))
                    (act_return (Some \<lparr>stp_timeout = now + se_ms env (get_stop_timeout d),
                       stp_state = Sent15, stp_process_key = key, stp_instance = i\<rparr>))))"

text \<open>The kill after the timeout.\<close>

definition stop_kill :: "'f service_env \<Rightarrow> 'f service_status \<Rightarrow> string \<Rightarrow> ('f, unit) act" where
  "stop_kill env status key =
     (case st_pod_name status of
        Some pod \<Rightarrow>
          act_then (log_stdout env (''Service did not stop within sufficient time. running podman kill'' @ [NL]))
            (podman_kill env (sd_user (st_description status)) pod [])
      | None \<Rightarrow>
          act_then (log_stdout env (''Service did not stop within sufficient time. Sending sigkill'' @ [NL]))
            (act_bind (signal_process env key 9) (\<lambda>_. act_return ())))"

definition stop_args :: "instant \<Rightarrow> wait_args" where
  "stop_args deadline = \<lparr>wa_stop_ready = False, wa_with_watchdog = True, wa_timeout = Some deadline, wa_magic = None\<rparr>"

type_synonym 'f stopping = "stop_op \<times> 'f service_status \<times> 'f service_world \<times> (instant \<times> instance_event) list"

definition stop_finish :: "'f service_env \<Rightarrow> string \<Rightarrow> 'f stopping \<Rightarrow> (service_error + bool) option \<times> 'f stopping" where
  "stop_finish env name = (\<lambda>(s, status, w, evs).
     let status = status\<lparr>st_state := Stopped\<rparr>
     in (case cleanup_instance env name (st_instance_id status) w of
           (Inl e, w) \<Rightarrow> (Some (Inl e), s, status, w, evs)
         | (Inr _, w) \<Rightarrow> (Some (Inr True), s\<lparr>stp_state := Stop_finished\<rparr>, status, w, evs)))"

text \<open>The loop waits to the same deadline again after the kill. \<open>grace\<close> is the time the kill is
  sent at and ten seconds, which is only noted in the record. \<open>None\<close> waits for more events.\<close>

function stop_loop ::
  "'f service_env \<Rightarrow> string \<Rightarrow> instant \<Rightarrow> bool \<Rightarrow> instant \<Rightarrow> 'f stopping
    \<Rightarrow> (service_error + bool) option \<times> 'f stopping" where
  "stop_loop env name deadline ours grace (s, status, w, evs) =
     (case process_service_instance (se_ms env) (stop_args deadline) evs (stp_instance s) status of
        (None, i, status, evs) \<Rightarrow> (None, s\<lparr>stp_instance := i\<rparr>, status, w, evs)
      | (Some (Inl e), i, status, evs) \<Rightarrow>
          (Some (Inl (Instance_failed e)), s\<lparr>stp_instance := i\<rparr>, status, w, evs)
      | (Some (Inr r), i, status, rest) \<Rightarrow>
          let s = s\<lparr>stp_instance := i\<rparr>
          in (if r = Finished then stop_finish env name (s, status, w, rest)
              else if r = Canceled then (Some (Inr False), s, status, w, rest)
              else if r = Is_ready then (Some (Inl (Service_message ''Logic error'')), s, status, w, rest)
              else if ours then (Some (Inr False), s, status, w, rest)
              else if stp_state s = Sent9 then stop_finish env name (s, status, w, rest)
              else (case stop_kill env status (stp_process_key s) w of
                      (Inl e, w) \<Rightarrow> (Some (Inl e), s, status, w, rest)
                    | (Inr _, w) \<Rightarrow>
                        stop_loop env name deadline ours grace
                          (s\<lparr>stp_state := Sent9, stp_timeout := grace\<rparr>, status, w, rest))))"
  by pat_completeness auto
termination
  by (relation "measure (\<lambda>(_, _, _, _, _, _, _, _, evs). length evs)") (auto dest!: process_consumes [OF sym])

declare stop_loop.simps [simp del]

definition stop_run ::
  "'f service_env \<Rightarrow> string \<Rightarrow> instant option \<Rightarrow> instant \<Rightarrow> 'f stopping
    \<Rightarrow> (service_error + bool) option \<times> 'f stopping" where
  "stop_run env name timeout grace = (\<lambda>(s, status, w, evs).
     if stp_state s = Stop_finished then (Some (Inr True), s, status, w, evs)
     else (case timeout of
             Some d \<Rightarrow>
               if d < stp_timeout s then stop_loop env name d True grace (s, status, w, evs)
               else stop_loop env name (stp_timeout s) False grace (s, status, w, evs)
           | None \<Rightarrow> stop_loop env name (stp_timeout s) False grace (s, status, w, evs)))"

section \<open>What a stop has done when it says so\<close>

text \<open>The process was asked to be killed, by a signal or through podman.\<close>

definition kill_asked :: "'f service_env \<Rightarrow> 'f service_status \<Rightarrow> string \<Rightarrow> 'f service_world \<Rightarrow> bool" where
  "kill_asked env status key w =
     (case st_pod_name status of
        Some pod \<Rightarrow> Command (sd_user (st_description status)) (kill_command pod []) \<in> set (sw_calls w)
      | None \<Rightarrow> signalled env (sw_persist w) 9 key \<longrightarrow> Signalled key 9 \<in> set (sw_calls w))"

text \<open>Waiting changes the state and the status text only.\<close>

definition same_run :: "'f service_status \<Rightarrow> 'f service_status \<Rightarrow> bool" where
  "same_run st st' \<longleftrightarrow> st_pod_name st' = st_pod_name st \<and> st_description st' = st_description st
     \<and> st_instance_id st' = st_instance_id st \<and> st_process_key st' = st_process_key st"

lemma same_run_refl [simp]: "same_run st st"
  by (simp add: same_run_def)

lemma same_run_trans: "same_run a b \<Longrightarrow> same_run b c \<Longrightarrow> same_run a c"
  by (simp add: same_run_def)

lemma same_run_update [simp]:
  "same_run st (st\<lparr>st_state := x\<rparr>)" "same_run st (st\<lparr>st_status := y\<rparr>)"
  by (simp_all add: same_run_def)

lemma step_keeps: "same_run (ws_status w) (ws_status (snd (instance_step ms a watchdog ev w)))"
  by (auto simp: instance_step_def on_notify_def Let_def
      split: prod.split instance_event.split pipe_read.split option.split)

lemma wait_loop_keeps: "same_run (ws_status w) (ws_status (fst (snd (wait_loop ms a watchdog evs w))))"
proof (induction evs arbitrary: w)
  case Nil
  show ?case by (subst wait_loop.simps) simp
next
  case (Cons ev evs)
  obtain x w1 where x: "instance_step ms a watchdog ev w = (x, w1)" by fastforce
  have s: "same_run (ws_status w) (ws_status w1)" using step_keeps [of w ms a watchdog ev] x by simp
  have i: "same_run (ws_status w) (ws_status (fst (snd (wait_loop ms a watchdog evs w1))))"
    using same_run_trans [OF s Cons.IH [of w1]] .
  show ?case
    using Cons.IH [of w] s i by (subst wait_loop.simps) (simp add: x split: sum.split option.split)
qed

lemma process_keeps: "process_service_instance ms a evs i st = (r, i', st', rest) \<Longrightarrow> same_run st st'"
  unfolding process_service_instance_def Let_def case_prod_unfold
  using wait_loop_keeps [of "\<lparr>ws_instance = i, ws_status = st, ws_stdout_tail = [], ws_stderr_tail = []\<rparr>"]
  by (metis prod.inject service_status.select_convs wait_state.select_convs(2))

lemma stop_finish_simps [simp]:
  "stop_finish env name (s, status, w, evs) =
    (Some (Inr True), s\<lparr>stp_state := Stop_finished\<rparr>, status\<lparr>st_state := Stopped\<rparr>,
     snd (cleanup_instance env name (st_instance_id status) w), evs)"
  by (simp add: stop_finish_def cleanup_instance_state)

lemma cleanup_calls: "\<exists>cs. sw_calls (snd (cleanup_instance env name i w)) = cs @ sw_calls w"
  by (simp add: cleanup_instance_state)

lemma cleanup_processes:
  "ps_processes (sw_persist (snd (cleanup_instance env name i w))) = ps_processes (sw_persist w)"
  by (simp add: cleanup_instance_state)

lemma kill_asked_cleanup:
  "kill_asked env status key w \<Longrightarrow>
    kill_asked env (status\<lparr>st_state := x\<rparr>) key (snd (cleanup_instance env name i w))"
  using cleanup_calls [of env name i w] cleanup_processes [of env name i w]
  by (auto simp: kill_asked_def signalled_def split: option.splits)

lemma stop_kill_asks:
  "stop_kill env status key w = (Inr u, w') \<Longrightarrow> kill_asked env status key w'"
  by (auto simp: stop_kill_def kill_asked_def podman_kill_def podman_user_def command_def sys_def act_defs
      signal_process_def query_def request_defs Let_def signalled_def
      split: option.splits if_splits sum.splits prod.splits)

lemma kill_asked_status: "same_run st st' \<Longrightarrow> kill_asked env st key w \<Longrightarrow> kill_asked env st' key w"
  by (simp add: kill_asked_def same_run_def split: option.splits)

lemma stop_loop_sound:
  assumes "stop_loop env name deadline ours grace (s, status, w, evs) = (Some (Inr True), s', status', w', rest)"
    and "stp_state s = Sent9 \<Longrightarrow> kill_asked env status (stp_process_key s) w"
  shows "stp_state s' = Stop_finished \<and> st_state status' = Stopped
    \<and> (instance_over (stp_instance s') \<or> kill_asked env status' (stp_process_key s') w')"
  using assms
proof (induction "length evs" arbitrary: s status w evs rule: less_induct)
  case less
  note unfold = stop_loop.simps [of env name deadline _ grace s status w evs]
  obtain r i st1 evs1 where p: "process_service_instance (se_ms env) (stop_args deadline) evs (stp_instance s) status
      = (r, i, st1, evs1)" by (metis surj_pair)
  note keep = process_keeps [OF p]
  from less.prems(1) obtain x where r: "r = Some (Inr x)"
    by (auto simp: unfold p split: option.splits sum.splits)
  consider "x = Finished" | "x \<notin> {Finished, Canceled, Is_ready}" "\<not> ours" "stp_state s = Sent9"
    | "x \<notin> {Finished, Canceled, Is_ready}" "\<not> ours" "stp_state s \<noteq> Sent9"
    using less.prems(1) r by (auto simp: unfold p Let_def split: if_splits)
  then show ?case
  proof cases
    case 1
    with p r have "instance_over i" using finished_is_over by blast
    with 1 less.prems(1) r show ?thesis by (auto simp: unfold p)
  next
    case 2
    have "kill_asked env st1 (stp_process_key s) w"
      using less.prems(2) [OF 2(3)] keep kill_asked_status by blast
    with 2 less.prems(1) r show ?thesis by (auto simp: unfold p intro: kill_asked_cleanup)
  next
    case 3
    obtain k w1 where k: "stop_kill env st1 (stp_process_key s) w = (k, w1)" by fastforce
    let ?s1 = "s\<lparr>stp_instance := i, stp_state := Sent9, stp_timeout := grace\<rparr>"
    from 3 less.prems(1) r k obtain u where ku: "k = Inr u"
      by (cases k) (auto simp: unfold p)
    have "length evs1 < length evs" using process_consumes p r 3(1) by blast
    moreover have "stop_loop env name deadline ours grace (?s1, st1, w1, evs1) = (Some (Inr True), s', status', w', rest)"
      using 3 less.prems(1) r k ku by (simp add: unfold p)
    moreover have "kill_asked env st1 (stp_process_key ?s1) w1" using stop_kill_asks k ku by simp
    ultimately show ?thesis using less.hyps by blast
  qed
qed

text \<open>Further result: when stopping an instance is reported as done, the service is marked as
  stopped and either its process is gone (its pipes closed, its exit code known) or a kill was
  sent to it. The instance is one that was asked to stop and not yet killed.\<close>

theorem stop_sound:
  assumes "stop_run env name timeout grace (s, status, w, evs) = (Some (Inr True), s', status', w', rest)"
    and "stp_state s = Sent15"
  shows "stp_state s' = Stop_finished \<and> st_state status' = Stopped
    \<and> (instance_over (stp_instance s') \<or> kill_asked env status' (stp_process_key s') w')"
  using assms stop_loop_sound
  by (fastforce simp: stop_run_def split: option.splits if_splits)

definition demo_description :: "nat service_description" where
  "demo_description = \<lparr>sd_name = ''a'', sd_service_type = Plain, sd_project = None, sd_user = None,
     sd_enable_linger = None, sd_ssl_service = None, sd_ssl_identity = None, sd_ssl_subcert = None,
     sd_pre_deploy = [], sd_pre_start = [], sd_post_start = [], sd_max_memory = None, sd_extract_files = [],
     sd_service_executable = Some ''/bin/a'', sd_args = [], sd_bind = [], sd_overlap = False,
     sd_watchdog_timeout = None, sd_start_timeout = None, sd_stop_timeout = None, sd_pod_mount = [],
     sd_pod_options = [], sd_env = [], sd_pod_env = [], sd_overlap_stop_signal = None, sd_stop_signal = None,
     sd_start_magic = None, sd_metrics = None\<rparr>"

definition demo_status :: "nat service_status" where
  "demo_status = \<lparr>st_status = [], st_state = Running, st_description = demo_description, st_extra_env = [],
     st_instance_id = 1, st_enabled = True, st_stdout_key = None, st_stderr_key = None, st_notify_key = None,
     st_process_key = Some ''service.a.1'', st_metrics_path = None, st_start_stop_time = 0, st_deploy_time = 0,
     st_deploy_user = ''root'', st_image = None, st_pod_name = None\<rparr>"

definition demo_stop :: stop_op where
  "demo_stop = \<lparr>stp_timeout = 30, stp_state = Sent15, stp_process_key = ''service.a.1'',
     stp_instance = fresh_instance 1 0 None\<rparr>"

lemmas demo_stop_defs = demo_stop_def demo_status_def demo_description_def demo_env_def fresh_instance_def

definition demo_end :: "(instant \<times> instance_event) list" where
  "demo_end = [(1, On_stdout (Data [] True)), (2, On_stderr (Data [] True)), (3, On_dead (Some 0))]"

lemma stop_finished_step:
  assumes "process_service_instance (se_ms env) (stop_args deadline) evs (stp_instance s) status
      = (Some (Inr Finished), i, st1, rest)"
  shows "stop_loop env name deadline ours grace (s, status, w, evs)
    = stop_finish env name (s\<lparr>stp_instance := i\<rparr>, st1, w, rest)"
  using assms by (simp add: stop_loop.simps [of env name deadline ours grace s status w evs] Let_def)

lemma demo_process_ends:
  "\<exists>i st rest. process_service_instance (se_ms demo_env) (stop_args 30) demo_end (fresh_instance 1 0 None) demo_status
    = (Some (Inr Finished), i, st, rest)"
  by (simp add: process_service_instance_def demo_end_def wait_loop.simps enabled_event_def instance_step_def
      pipe_data_def instance_over_def stop_args_def fresh_instance_def SERVICES_BUF_SIZE_def Let_def)

theorem stop_sound_witness:
  "\<exists>s' status' w' rest. stp_state s' = Stop_finished \<and> st_state status' = Stopped
    \<and> (instance_over (stp_instance s') \<or> kill_asked demo_env status' (stp_process_key s') (w' :: nat service_world))
    \<and> stop_run demo_env ''a'' None 0 (demo_stop, demo_status, demo_world, demo_end) = (Some (Inr True), s', status', w', rest)"
proof -
  obtain i st rest where "process_service_instance (se_ms demo_env) (stop_args 30) demo_end
      (stp_instance demo_stop) demo_status = (Some (Inr Finished), i, st, rest)"
    using demo_process_ends by (auto simp: demo_stop_def)
  then have "stop_run demo_env ''a'' None 0 (demo_stop, demo_status, demo_world, demo_end)
      = stop_finish demo_env ''a'' (demo_stop\<lparr>stp_instance := i\<rparr>, st, demo_world, rest)"
    using stop_finished_step [of demo_env 30 demo_end demo_stop demo_status i st rest "''a''" False 0 demo_world]
    by (simp add: stop_run_def demo_stop_def)
  then obtain s' status' w' rest' where run: "stop_run demo_env ''a'' None 0 (demo_stop, demo_status, demo_world, demo_end)
      = (Some (Inr True), s', status', w', rest')" by (metis stop_finish_simps)
  from stop_sound [OF this] run show ?thesis by (auto simp: demo_stop_def)
qed

section \<open>Stopping ends\<close>

lemma process_timeout_first:
  assumes "\<not> instance_over i" "deadline \<le> t"
  shows "process_service_instance ms (stop_args deadline) ((t, Timeout_passed) # evs) i st
    = (Some (Inr Timed_out), i, st, evs)"
  using assms
  by (simp add: process_service_instance_def wait_loop.simps enabled_event_def instance_step_def stop_args_def Let_def)

lemma stop_loop_killed_ends:
  assumes "(t, Timeout_passed) \<in> set evs" "deadline \<le> t" "stp_state s = Sent9"
  shows "fst (stop_loop env name deadline ours grace (s, status, w, evs)) \<noteq> None"
proof -
  obtain r i st1 evs1 where p: "process_service_instance (se_ms env) (stop_args deadline) evs (stp_instance s) status
      = (r, i, st1, evs1)" by (metis surj_pair)
  have "r \<noteq> None"
    using waiting_ends [OF assms(1), of "stop_args deadline" deadline "se_ms env" "stp_instance s" status] p assms(2)
    by (simp add: stop_args_def)
  with p assms(3) show ?thesis
    by (auto simp: stop_loop.simps [of env name deadline ours grace s status w evs] Let_def split: sum.split)
qed

text \<open>Further result: a kill is not waited for. When the stop timeout has passed and the process
  was killed, the loop waits to the same deadline again, which has passed: the stop is reported as
  done with the process still there, and the ten seconds noted for it never count.\<close>

theorem kill_without_grace:
  assumes "stp_state s = Sent15" "\<not> instance_over (stp_instance s)" "stp_timeout s \<le> t"
    and "stop_kill env status (stp_process_key s) w = (Inr (), w1)"
  shows "\<exists>s' status' w'. stop_run env name None grace (s, status, w, [(t, Timeout_passed), (t, Timeout_passed)])
      = (Some (Inr True), s', status', w', []) \<and> st_state status' = Stopped
      \<and> \<not> instance_over (stp_instance s')"
  using assms
  by (simp add: stop_run_def stop_loop.simps process_timeout_first Let_def)

theorem kill_without_grace_witness:
  "\<exists>s' status' w'. stop_run demo_env ''a'' None 40 (demo_stop, demo_status, demo_world, [(30, Timeout_passed), (30, Timeout_passed)])
      = (Some (Inr True), s', status', w' :: nat service_world, []) \<and> st_state status' = Stopped
      \<and> \<not> instance_over (stp_instance s')"
proof -
  obtain w1 where "stop_kill demo_env demo_status (stp_process_key demo_stop) demo_world = (Inr (), w1)"
    by (simp add: stop_kill_def act_defs sys_def signal_process_def query_def request_defs demo_stop_defs
        demo_world_def Let_def)
  then show ?thesis
    by (rule kill_without_grace [rotated 3]) (simp_all add: demo_stop_def fresh_instance_def instance_over_def)
qed

text \<open>How often the clock is seen at or after the deadline.\<close>

definition due_events :: "instant \<Rightarrow> (instant \<times> instance_event) list \<Rightarrow> nat" where
  "due_events d evs = length (filter (\<lambda>e. snd e = Timeout_passed \<and> d \<le> fst e) evs)"

lemma wait_loop_due:
  assumes "wa_timeout a = Some d" "wait_loop ms a watchdog evs w = (r, w', rest)"
  shows "due_events d evs \<le> due_events d rest + 1 \<and> (r = None \<longrightarrow> due_events d evs = 0)"
  using assms(2)
proof (induction evs arbitrary: w)
  case Nil
  then show ?case by (auto simp: wait_loop.simps [of _ _ _ "[]"] due_events_def split: if_splits)
next
  case (Cons ev evs)
  obtain t e where ev: "ev = (t, e)" by (cases ev)
  show ?case
  proof (cases "e = Timeout_passed \<and> d \<le> t")
    case True
    then show ?thesis using Cons.prems assms(1)
      by (auto simp: wait_loop.simps [of _ _ _ "(t, Timeout_passed) # evs"] ev enabled_event_def instance_step_def
          due_events_def split: if_splits)
  next
    case False
    then have count: "due_events d (ev # evs) = due_events d evs" by (auto simp: due_events_def ev)
    have "rest = ev # evs \<and> r \<noteq> None \<or> rest = evs \<and> r \<noteq> None \<or> (\<exists>w1. wait_loop ms a watchdog evs w1 = (r, w', rest))"
      using Cons.prems by (auto simp: wait_loop.simps [of _ _ _ "ev # evs"]
          split: if_splits prod.splits sum.splits option.splits)
    then show ?thesis using count Cons.IH by auto
  qed
qed

lemma process_due:
  assumes "process_service_instance ms (stop_args d) evs i st = (r, i', st', rest)"
  shows "due_events d evs \<le> due_events d rest + 1 \<and> (r = None \<longrightarrow> due_events d evs = 0)"
proof -
  obtain w' where "wait_loop ms (stop_args d) (sd_watchdog_timeout (st_description st)) evs
      \<lparr>ws_instance = i, ws_status = st, ws_stdout_tail = [], ws_stderr_tail = []\<rparr> = (r, w', rest)"
    using assms by (auto simp: process_service_instance_def Let_def split: prod.splits)
  then show ?thesis by (intro wait_loop_due) (simp_all add: stop_args_def)
qed

text \<open>Further result: stopping ends. Once the clock has been seen twice at or after the deadline the
  call has returned, with success, with the refusal of a deadline of its own, or with an error,
  whatever the process does.\<close>

theorem stop_ends:
  assumes "2 \<le> due_events (case timeout of Some d \<Rightarrow> min d (stp_timeout s) | None \<Rightarrow> stp_timeout s) evs"
  shows "fst (stop_run env name timeout grace (s, status, w, evs)) \<noteq> None"
proof -
  have loop: "fst (stop_loop env name d ours grace (s, status, w, evs)) \<noteq> None"
    if "2 \<le> due_events d evs \<or> (1 \<le> due_events d evs \<and> stp_state s = Sent9)" for d ours s status w evs
    using that
  proof (induction "length evs" arbitrary: s status w evs rule: less_induct)
    case less
    note unfold = stop_loop.simps [of env name d _ grace s status w evs]
    obtain r i st1 evs1 where p: "process_service_instance (se_ms env) (stop_args d) evs (stp_instance s) status
        = (r, i, st1, evs1)" by (metis surj_pair)
    note due = process_due [OF p]
    from due less.prems obtain x where r: "r = Some x" by (cases r) auto
    show ?case
    proof (cases "\<exists>y. x = Inr y \<and> y \<notin> {Finished, Canceled, Is_ready} \<and> \<not> ours \<and> stp_state s \<noteq> Sent9")
      case True
      then have l: "length evs1 < length evs" using process_consumes p r by blast
      have "1 \<le> due_events d evs1" using due less.prems True by auto
      then have "fst (stop_loop env name d ours grace (s1, st1, w1, evs1)) \<noteq> None"
        if "stp_state s1 = Sent9" for s1 w1
        using less.hyps [OF l] that by blast
      with True r show ?thesis by (auto simp: unfold p Let_def split: sum.split prod.split)
    next
      case False
      with r show ?thesis by (auto simp: unfold p Let_def split: sum.split)
    qed
  qed
  show ?thesis
    using assms loop by (auto simp: stop_run_def min_def split: option.splits if_splits)
qed

theorem stop_ends_witness:
  "fst (stop_run demo_env ''a'' (Some 20) 40 (demo_stop, demo_status, demo_world,
     [(5, On_stdout (Data ''bye'' True)), (21, Timeout_passed), (32, Timeout_passed)])) \<noteq> None"
  by (rule stop_ends) (simp add: due_events_def demo_stop_def)

text \<open>Further result: a service with a watchdog is not given its stop timeout. The watchdog goes on
  while the service stops: when it passes before the deadline the process is killed and the stop
  is reported as done.\<close>

theorem watchdog_cuts_stop:
  assumes "stp_state s = Sent15" "\<not> instance_over (stp_instance s)"
    and "sd_watchdog_timeout (st_description status) \<noteq> None" "si_watchdog (stp_instance s) \<le> t" "t < stp_timeout s"
    and "stop_kill env status (stp_process_key s) w = (Inr (), w1)"
  shows "\<exists>s' status' w'. stop_run env name None grace (s, status, w, [(t, Watchdog_passed), (t, Watchdog_passed)])
      = (Some (Inr True), s', status', w', []) \<and> st_state status' = Stopped \<and> \<not> instance_over (stp_instance s')"
proof -
  have "process_service_instance ms (stop_args d) ((t, Watchdog_passed) # evs) (stp_instance s) status
      = (Some (Inr Watchdog_timeout), stp_instance s, status, evs)" for ms d evs
    using assms(2-4)
    by (auto simp: process_service_instance_def wait_loop.simps enabled_event_def instance_step_def stop_args_def Let_def)
  with assms show ?thesis by (simp add: stop_run_def stop_loop.simps Let_def)
qed

theorem watchdog_cuts_stop_witness:
  "\<exists>s' status' w'. stop_run demo_env ''a'' None 40
      (demo_stop, demo_status\<lparr>st_description := demo_description\<lparr>sd_watchdog_timeout := Some (Dur_S 1)\<rparr>\<rparr>, demo_world,
       [(4, Watchdog_passed), (4, Watchdog_passed)])
      = (Some (Inr True), s', status', w' :: nat service_world, []) \<and> st_state status' = Stopped
      \<and> \<not> instance_over (stp_instance s')"
proof -
  obtain w1 where "stop_kill demo_env (demo_status\<lparr>st_description := demo_description\<lparr>sd_watchdog_timeout := Some (Dur_S 1)\<rparr>\<rparr>)
      (stp_process_key demo_stop) demo_world = (Inr (), w1)"
    by (simp add: stop_kill_def act_defs sys_def signal_process_def query_def request_defs demo_stop_defs
        demo_world_def Let_def)
  then show ?thesis
    by (rule watchdog_cuts_stop [rotated 5]) (simp_all add: demo_stop_defs instance_over_def)
qed

end
