(* ===== verification/Service_Start.thy ===== *)
theory Service_Start
  imports Service_Stop
begin

text \<open>
  Starting an instance of a service (\<open>start_instance\<close>, \<open>start_instance_inner\<close> and \<open>run_script\<close> of
  \<open>client_daemon_service.rs\<close>): the scripts before it, its directory and sockets, the descriptors
  given to the persist daemon, the sockets to bind, the process or container, the wait until it is
  ready, and the scripts after it; and what is taken back when any of this fails. \<open>i\<close> is the id of
  the instance (the time in milliseconds), \<open>now\<close> the time, and the events are those while the
  service is awaited. Hash maps are lists of entries, in the order they are iterated.
\<close>

section \<open>Scripts\<close>

definition run_script ::
  "'f service_env \<Rightarrow> string \<Rightarrow> string \<Rightarrow> (string \<times> string) list \<Rightarrow> ('f, unit) act" where
  "run_script env name src envs =
     (case split_once [NL] src of
        None \<Rightarrow> act_fail (Service_message (''Expected two lines in script '' @ name))
      | Some (first, _) \<Rightarrow>
          (case strip_prefix ''#!'' first of
             None \<Rightarrow> act_fail (Service_message (''Expected interperter in script '' @ name))
           | Some interp \<Rightarrow>
               act_then (sys env (Temp_file name)) (
               act_then (log_stdout env (''root$ '' @ interp)) (\<lambda>w.
                 act_then (sys env (Script interp src envs))
                   (if se_success env (length (sw_calls w)) (Script interp src envs) then act_return ()
                    else act_fail (Service_message (''Error running script '' @ name))) w))))"

fun run_scripts ::
  "'f service_env \<Rightarrow> string \<Rightarrow> nat \<Rightarrow> string list \<Rightarrow> (string \<times> string) list \<Rightarrow> ('f, unit) act" where
  "run_scripts env kind idx [] envs = act_return ()"
| "run_scripts env kind idx (src # srcs) envs =
     act_then (run_script env (kind @ '' '' @ show_nat idx) src envs) (run_scripts env kind (Suc idx) srcs envs)"

definition script_env :: "(string \<times> string) list \<Rightarrow> string option \<Rightarrow> (string \<times> string) list" where
  "script_env extra img = extra @ (case img of None \<Rightarrow> [] | Some i \<Rightarrow> [(''image'', i)])"

section \<open>Directory, pipes and sockets\<close>

definition stdout_write_key :: "string \<Rightarrow> nat \<Rightarrow> string" where
  "stdout_write_key name i = instance_prefix name i @ ''stdout_write''"

definition stdout_read_key :: "string \<Rightarrow> nat \<Rightarrow> string" where
  "stdout_read_key name i = instance_prefix name i @ ''stdout_read''"

definition stderr_write_key :: "string \<Rightarrow> nat \<Rightarrow> string" where
  "stderr_write_key name i = instance_prefix name i @ ''stderr_write''"

definition stderr_read_key :: "string \<Rightarrow> nat \<Rightarrow> string" where
  "stderr_read_key name i = instance_prefix name i @ ''stderr_read''"

definition notify_key :: "string \<Rightarrow> nat \<Rightarrow> string" where
  "notify_key name i = instance_prefix name i @ ''notify''"

definition notify_path :: "string \<Rightarrow> nat \<Rightarrow> string" where
  "notify_path name i = instance_dir name i @ ''/notify.socket''"

definition metrics_path_of :: "'f service_description \<Rightarrow> nat \<Rightarrow> string option" where
  "metrics_path_of d i =
     (case sd_metrics d of
        Some (SimpleSocket _ _) \<Rightarrow> Some (instance_dir (sd_name d) i @ ''/metrics/socket'')
      | _ \<Rightarrow> None)"

definition chown_user :: "'f service_env \<Rightarrow> string option \<Rightarrow> string \<Rightarrow> ('f, unit) act" where
  "chown_user env user path = (case user of None \<Rightarrow> act_return () | Some u \<Rightarrow> sys env (Chown path u))"

definition check_user :: "'f service_env \<Rightarrow> string option \<Rightarrow> ('f, unit) act" where
  "check_user env user = podman_user env user"

definition service_cgroup :: "'f service_env \<Rightarrow> 'f service_description \<Rightarrow> ('f, unit) act" where
  "service_cgroup env d =
     (case sd_max_memory d of
        Some v \<Rightarrow>
          if 2 ^ 63 \<le> se_bytes env v then act_fail (Service_message ''out of range integral type conversion attempted'')
          else sys env (Cgroup (''sadmin/'' @ sd_name d) (Some (se_bytes env v)))
      | None \<Rightarrow> sys env (Cgroup (''sadmin/'' @ sd_name d) None))"

definition metrics_dir :: "'f service_env \<Rightarrow> 'f service_description \<Rightarrow> nat \<Rightarrow> ('f, unit) act" where
  "metrics_dir env d i =
     (case metrics_path_of d i of
        None \<Rightarrow> act_return ()
      | Some _ \<Rightarrow>
          let mdir = instance_dir (sd_name d) i @ ''/metrics''
          in act_then (sys env (Make_dir mdir))
               (act_then (chown_user env (sd_user d) mdir) (sys env (Chmod mdir 448))))"

fun puts :: "'f service_env \<Rightarrow> (string \<times> service_fd) list \<Rightarrow> ('f, unit) act" where
  "puts env [] = act_return ()"
| "puts env ((k, fd) # kfds) = act_then (put_fd env k fd) (puts env kfds)"

definition instance_fds :: "string \<Rightarrow> nat \<Rightarrow> (string \<times> service_fd) list" where
  "instance_fds name i =
     [(notify_key name i, Notify_socket (notify_path name i)), (stdout_write_key name i, Stdout_write i),
      (stdout_read_key name i, Stdout_read i), (stderr_write_key name i, Stderr_write i),
      (stderr_read_key name i, Stderr_read i)]"

definition start_prepare ::
  "'f service_env \<Rightarrow> 'f service_description \<Rightarrow> (string \<times> string) list \<Rightarrow> string option \<Rightarrow> nat \<Rightarrow> ('f, unit) act" where
  "start_prepare env d extra img i =
     act_then (check_user env (sd_user d)) (
     act_then (sys env (Cgroup ''sadmin'' None)) (
     act_then (service_cgroup env d) (
     act_then (run_scripts env ''prestart'' 0 (sd_pre_start d) (script_env extra img)) (
     act_then (sys env Make_pipe) (
     act_then (sys env Make_pipe) (
     act_then (sys env (Make_dir (instance_dir (sd_name d) i))) (
     act_then (sys env (Bind_datagram (notify_path (sd_name d) i))) (
     act_then (metrics_dir env d i) (
     act_then (sys env (Chmod (notify_path (sd_name d) i) 384)) (
     act_then (chown_user env (sd_user d) (notify_path (sd_name d) i))
       (puts env (instance_fds (sd_name d) i))))))))))))"

section \<open>Bound sockets\<close>

fun bind_key :: "bind \<Rightarrow> string \<Rightarrow> string" where
  "bind_key (Tcp addr _ _) service = ''service.'' @ service @ ''.bind.'' @ addr"
| "bind_key (UnixStream path _ _ _ _) service = ''service.'' @ service @ ''.bind.'' @ path"

fun bind_fd :: "bind \<Rightarrow> int" where
  "bind_fd (Tcp _ fd _) = int fd"
| "bind_fd (UnixStream _ fd _ _ _) = int fd"

fun open_socket :: "'f service_env \<Rightarrow> string \<Rightarrow> bind \<Rightarrow> ('f, unit) act" where
  "open_socket env key (Tcp addr fd nonblocking) =
     act_then (sys env (Listen_tcp addr nonblocking)) (put_fd env key (Tcp_socket addr))"
| "open_socket env key (UnixStream path fd user umask nonblocking) =
     act_then (sys env (Listen_unix path nonblocking)) (
     act_then (sys env (Chmod path (Bit_Operations.xor 511 umask))) (
     act_then (check_user env (Some user)) (
     act_then (sys env (Chown path user)) (put_fd env key (Unix_socket path)))))"

text \<open>A socket that the persist daemon has is used again; the keys of the others are noted before
  they are opened, for the clean-up.\<close>

fun bind_sockets ::
  "'f service_env \<Rightarrow> string \<Rightarrow> bind list \<Rightarrow> 'f service_world
    \<Rightarrow> (service_error + (string \<times> int) list) \<times> string list \<times> 'f service_world" where
  "bind_sockets env name [] w = (Inr [], [], w)"
| "bind_sockets env name (b # bs) w =
     (let key = bind_key b name
      in (case has_fd env key w of
            (Inl e, w) \<Rightarrow> (Inl e, [], w)
          | (Inr True, w) \<Rightarrow>
              (let (r, keys, w) = bind_sockets env name bs w
               in (res_bind r (\<lambda>fds. Inr ((key, bind_fd b) # fds)), keys, w))
          | (Inr False, w) \<Rightarrow>
              (case open_socket env key b w of
                 (Inl e, w) \<Rightarrow> (Inl e, [key], w)
               | (Inr _, w) \<Rightarrow>
                   (let (r, keys, w) = bind_sockets env name bs w
                    in (res_bind r (\<lambda>fds. Inr ((key, bind_fd b) # fds)), key # keys, w)))))"

section \<open>The process\<close>

definition some_values :: "(string \<times> string option) list \<Rightarrow> (string \<times> string) list" where
  "some_values m = List.map_filter (\<lambda>(k, v). map_option (Pair k) v) m"

definition process_env ::
  "'f service_env \<Rightarrow> 'f service_description \<Rightarrow> (string \<times> string) list \<Rightarrow> (string \<times> string) list" where
  "process_env env d extra =
     [(''PATH'', ''/usr/local/sbin:/usr/local/bin:/usr/sbin:/usr/bin:/sbin:/bin'')]
     @ (case sd_user d of
          None \<Rightarrow> []
        | Some u \<Rightarrow> [(''USER'', u), (''HOME'', (case se_user env u of Some (home, _) \<Rightarrow> home | None \<Rightarrow> []))])
     @ extra @ some_values (sd_env d) @ some_values (sd_pod_env d)"

text \<open>A mount is left out when its source does not exist.\<close>

fun pod_mounts :: "'f service_env \<Rightarrow> string list \<Rightarrow> ('f, string list) act" where
  "pod_mounts env [] = act_return []"
| "pod_mounts env (m # ms) =
     (let (src, v) = (case split_once '':'' m of Some (s, _) \<Rightarrow> (s, m) | None \<Rightarrow> (m, m @ '':'' @ m))
      in (\<lambda>w. if se_sys env (length (sw_calls w)) (Exists src)
              then act_bind (pod_mounts env ms) (\<lambda>args. act_return (''-v'' # v # args))
                     (w\<lparr>sw_calls := Exists src # sw_calls w\<rparr>)
              else act_then (log_stdout env (''Will not mount '' @ [CHR 0x27] @ src @ [CHR 0x27] @ '' as it does not exist'' @ [NL]))
                     (pod_mounts env ms) (w\<lparr>sw_calls := Exists src # sw_calls w\<rparr>)))"

definition pod_name_of :: "string \<Rightarrow> nat \<Rightarrow> string" where
  "pod_name_of name i = ''sa_'' @ name @ ''_'' @ show_nat i"

definition pod_args ::
  "'f service_env \<Rightarrow> string \<Rightarrow> 'f service_description \<Rightarrow> (string \<times> string) list \<Rightarrow> string option \<Rightarrow> nat
    \<Rightarrow> ('f, string list) act" where
  "pod_args env name d extra img i =
     act_bind (pod_mounts env (sd_pod_mount d)) (\<lambda>mounts.
       case img of
         None \<Rightarrow> act_fail (Service_message ''An image should be specified if there is not service_executable'')
       | Some pulled \<Rightarrow> act_return
           ([''run'', ''--rm'', ''--log-driver=none'', ''--name'', pod_name_of name i, ''--sdnotify=ignore'',
             ''--env'', ''NOTIFY_SOCKET=/run/sdnotify/notify.socket'', ''-v'',
             instance_dir (sd_name d) i @ '':/run/sdnotify'', ''--systemd=false'']
            @ (if metrics_path_of d i = None then []
               else [''--env'', ''METRICS_SOCKET=/run/sdnotify/metrics/socket''])
            @ concat (map (\<lambda>(k, _). [''--env'', k]) (sd_pod_env d))
            @ concat (map (\<lambda>(k, _). [''--env'', k]) extra)
            @ sd_pod_options d @ mounts @ [pulled] @ sd_args d))"

text \<open>The line in the log that shows a command: arguments with a quote stand between quotes.\<close>

definition shown_arg :: "string \<Rightarrow> string" where
  "shown_arg a = (if QUOTE \<in> set a \<or> CHR 0x27 \<in> set a then QUOTE # a @ [QUOTE] else a)"

definition shown_command :: "string option \<Rightarrow> string \<Rightarrow> string list \<Rightarrow> string" where
  "shown_command user program args =
     opt_or user ''root'' @ ''$ '' @ program @ concat (map (\<lambda>a. '' '' @ shown_arg a) args) @ [NL]"

definition start_process_of ::
  "'f service_env \<Rightarrow> 'f service_description \<Rightarrow> nat \<Rightarrow> (string \<times> int) list \<Rightarrow> string \<Rightarrow> string list
    \<Rightarrow> (string \<times> string) list \<Rightarrow> start_process" where
  "start_process_of env d i fds path argv envs =
     \<lparr>sp_id = 0, sp_key = process_key_of (sd_name d) i, sp_path = path, sp_args = argv, sp_env = envs,
      sp_uid = map_option (fst \<circ> snd) (Option.bind (sd_user d) (se_user env)),
      sp_gid = map_option (snd \<circ> snd) (Option.bind (sd_user d) (se_user env)), sp_current_dir = None, sp_cgroup = Some (''sadmin/'' @ sd_name d),
      sp_umask = Some 18,
      sp_fds = (stdout_write_key (sd_name d) i, 1) # (stderr_write_key (sd_name d) i, 2) # fds\<rparr>"

definition add_handler :: "string \<Rightarrow> ('f, unit) act" where
  "add_handler key = (\<lambda>w. (Inr (), w\<lparr>sw_handlers := key # removeAll key (sw_handlers w)\<rparr>))"

definition start_launch ::
  "'f service_env \<Rightarrow> string \<Rightarrow> 'f service_description \<Rightarrow> (string \<times> string) list \<Rightarrow> string option \<Rightarrow> nat
    \<Rightarrow> (string \<times> int) list \<Rightarrow> ('f, string option) act" where
  "start_launch env name d extra img i fds =
     act_then (add_handler (process_key_of (sd_name d) i)) (
     act_bind
       (case sd_service_executable d of
          Some exec \<Rightarrow>
            act_then (log_stdout env (shown_command (sd_user d) exec (sd_args d)))
              (act_return (start_process_of env d i fds exec (sd_args d)
                 (process_env env d extra @ [(''NOTIFY_SOCKET'', notify_path (sd_name d) i)]
                  @ (case metrics_path_of d i of None \<Rightarrow> [] | Some p \<Rightarrow> [(''METRICS_SOCKET'', p)])), None))
        | None \<Rightarrow>
            act_bind (pod_args env name d extra img i) (\<lambda>argv.
            act_then (log_stdout env (shown_command (sd_user d) ''podman'' argv))
              (act_return (start_process_of env d i fds ''/usr/bin/podman'' argv (process_env env d extra),
                 Some (pod_name_of name i)))))
       (\<lambda>(sp, pod).
         act_then (spawn_process env sp) (
         act_then (close_fd env (stdout_write_key (sd_name d) i)) (
         act_then (close_fd env (stderr_write_key (sd_name d) i)) (act_return pod)))))"

section \<open>Waiting until it is ready\<close>

text \<open>The wait changes the status that is kept of the service, which is still the one of the
  instance before.\<close>

definition start_args :: "instant option \<Rightarrow> 'f service_description \<Rightarrow> wait_args option" where
  "start_args due d =
     (if sd_service_type d = Notify then
        Some \<lparr>wa_stop_ready = True, wa_with_watchdog = False, wa_timeout = due, wa_magic = None\<rparr>
      else (case sd_start_magic d of
              Some m \<Rightarrow> Some \<lparr>wa_stop_ready = False, wa_with_watchdog = False, wa_timeout = due, wa_magic = Some m\<rparr>
            | None \<Rightarrow> None))"

definition start_wait ::
  "'f service_env \<Rightarrow> 'f service_description \<Rightarrow> instant \<Rightarrow> string \<Rightarrow> service_instance
    \<Rightarrow> 'f service_status \<times> 'f service_world \<times> (instant \<times> instance_event) list
    \<Rightarrow> (service_error + service_instance \<times> service_state) option
        \<times> 'f service_status \<times> 'f service_world \<times> (instant \<times> instance_event) list" where
  "start_wait env d now key inst = (\<lambda>(kept, w, evs).
     case start_args (map_option (\<lambda>v. now + se_ms env v) (sd_start_timeout d)) d of
       None \<Rightarrow> (Some (Inr (inst, Running)), kept, w, evs)
     | Some a \<Rightarrow>
         (case process_service_instance (se_ms env) a evs inst kept of
            (None, _, kept, evs) \<Rightarrow> (None, kept, w, evs)
          | (Some (Inl e), _, kept, evs) \<Rightarrow> (Some (Inl (Instance_failed e)), kept, w, evs)
          | (Some (Inr r), inst, kept, evs) \<Rightarrow>
              (case r of
                 Is_ready \<Rightarrow> (Some (Inr (inst, Ready)), kept, w, evs)
               | Finished \<Rightarrow> (Some (Inl (Service_message ''Service exited before being ready '')), kept, w, evs)
               | Timed_out \<Rightarrow>
                   (case act_then (log_stdout env (''Did not start fast enough. Sending sigkill'' @ [NL]))
                           (signal_process env key 9) w of
                      (Inl e, w) \<Rightarrow> (Some (Inl e), kept, w, evs)
                    | (Inr _, w) \<Rightarrow> (Some (Inl (Service_message ''Timeout wating for it to start'')), kept, w, evs))
               | _ \<Rightarrow> (Some (Inl (Service_message ''Logic error in start service'')), kept, w, evs))))"

text \<open>\<open>str::replace\<close> of the place that stands for the container.\<close>

function replace_all :: "string \<Rightarrow> string \<Rightarrow> string \<Rightarrow> string" where
  "replace_all pat by s =
     (if pat = [] then s
      else (case split_once pat s of None \<Rightarrow> s | Some (a, b) \<Rightarrow> a @ by @ replace_all pat by b))"
  by pat_completeness auto
termination
  by (relation "measure (\<lambda>(pat, by, s). length s)") (auto dest: split_once_length)

declare replace_all.simps [simp del]

definition post_start_scripts :: "'f service_description \<Rightarrow> string option \<Rightarrow> string list" where
  "post_start_scripts d pod =
     (case pod of
        None \<Rightarrow> sd_post_start d
      | Some p \<Rightarrow> map (replace_all ''%$%CONTAINER%$%'' p) (sd_post_start d))"

section \<open>The whole start\<close>

definition started_status ::
  "'f service_description \<Rightarrow> (string \<times> string) list \<Rightarrow> string option \<Rightarrow> nat \<Rightarrow> string \<Rightarrow> instant \<Rightarrow> string option
    \<Rightarrow> service_state \<Rightarrow> 'f service_status" where
  "started_status d extra img i user now pod state =
     \<lparr>st_status = [], st_state = state, st_description = d, st_extra_env = extra, st_instance_id = i,
      st_enabled = True, st_stdout_key = Some (stdout_read_key (sd_name d) i),
      st_stderr_key = Some (stderr_read_key (sd_name d) i), st_notify_key = Some (notify_key (sd_name d) i),
      st_process_key = Some (process_key_of (sd_name d) i), st_metrics_path = metrics_path_of d i,
      st_start_stop_time = now, st_deploy_time = now, st_deploy_user = user, st_image = img, st_pod_name = pod\<rparr>"

definition started_instance :: "'f service_env \<Rightarrow> 'f service_description \<Rightarrow> nat \<Rightarrow> instant \<Rightarrow> string option \<Rightarrow> service_instance" where
  "started_instance env d i now pod =
     \<lparr>si_instance_id = i,
      si_watchdog = (case sd_watchdog_timeout d of Some v \<Rightarrow> now + se_ms env v | None \<Rightarrow> now),
      si_pod_name = pod, si_go_stdout = True, si_go_stderr = True, si_code = None\<rparr>"

record 'f start_request =
  sr_desc :: "'f service_description"
  sr_extra :: "(string \<times> string) list"
  sr_image :: "string option"
  sr_user :: string

text \<open>The result, the keys of the sockets that were opened for it, the status that was kept, and
  the events that are left.\<close>

definition start_instance_inner ::
  "'f service_env \<Rightarrow> string \<Rightarrow> 'f start_request \<Rightarrow> nat \<Rightarrow> instant
    \<Rightarrow> 'f service_status \<times> 'f service_world \<times> (instant \<times> instance_event) list
    \<Rightarrow> (service_error + service_instance \<times> 'f service_status) option \<times> string list
        \<times> 'f service_status \<times> 'f service_world \<times> (instant \<times> instance_event) list" where
  "start_instance_inner env name rq i now = (\<lambda>(kept, w, evs).
     let d = sr_desc rq
     in (case start_prepare env d (sr_extra rq) (sr_image rq) i w of
           (Inl e, w) \<Rightarrow> (Some (Inl e), [], kept, w, evs)
         | (Inr _, w) \<Rightarrow>
             (case bind_sockets env name (sd_bind d) w of
                (Inl e, keys, w) \<Rightarrow> (Some (Inl e), keys, kept, w, evs)
              | (Inr fds, keys, w) \<Rightarrow>
                  (case start_launch env name d (sr_extra rq) (sr_image rq) i fds w of
                     (Inl e, w) \<Rightarrow> (Some (Inl e), keys, kept, w, evs)
                   | (Inr pod, w) \<Rightarrow>
                       (case start_wait env d now (process_key_of (sd_name d) i)
                               (started_instance env d i now pod) (kept, w, evs) of
                          (None, kept, w, evs) \<Rightarrow> (None, keys, kept, w, evs)
                        | (Some (Inl e), kept, w, evs) \<Rightarrow> (Some (Inl e), keys, kept, w, evs)
                        | (Some (Inr (inst, state)), kept, w, evs) \<Rightarrow>
                            (case run_scripts env ''poststart'' 0 (post_start_scripts d pod)
                                    (script_env (sr_extra rq) (sr_image rq)) w of
                               (Inl e, w) \<Rightarrow> (Some (Inl e), keys, kept, w, evs)
                             | (Inr _, w) \<Rightarrow>
                                 (Some (Inr (inst, started_status d (sr_extra rq) (sr_image rq) i (sr_user rq)
                                    now pod state)), keys, kept, w, evs)))))))"

text \<open>What is taken back after an error.\<close>

definition start_failed :: "'f service_env \<Rightarrow> string \<Rightarrow> nat \<Rightarrow> string list \<Rightarrow> ('f, unit) act" where
  "start_failed env name i keys =
     act_then (if_listed (list_processes env (instance_prefix name i)) (kill_all env)) (
     act_then (close_all env keys) (
     act_then (if_listed (list_fds env (instance_prefix name i)) (close_all env))
       (act_ignore (sys env (Remove_dir (instance_dir name i))))))"

definition start_instance ::
  "'f service_env \<Rightarrow> string \<Rightarrow> 'f start_request \<Rightarrow> nat \<Rightarrow> instant
    \<Rightarrow> 'f service_status \<times> 'f service_world \<times> (instant \<times> instance_event) list
    \<Rightarrow> (service_error + service_instance \<times> 'f service_status) option
        \<times> 'f service_status \<times> 'f service_world \<times> (instant \<times> instance_event) list" where
  "start_instance env name rq i now s =
     (case start_instance_inner env name rq i now s of
        (Some (Inl e), keys, kept, w, evs) \<Rightarrow>
          (Some (Inl e), kept, snd (start_failed env name i keys w), evs)
      | (r, _, kept, w, evs) \<Rightarrow> (r, kept, w, evs))"

section \<open>Which descriptors an act touches\<close>

definition touches :: "string set \<Rightarrow> ('f, 'a) act \<Rightarrow> bool" where
  "touches K m \<longleftrightarrow> (\<forall>w k. k \<notin> K \<longrightarrow> stored_fd k (sw_persist (snd (m w))) = stored_fd k (sw_persist w))"

lemma touchesD: "touches K m \<Longrightarrow> m w = (r, w') \<Longrightarrow> k \<notin> K \<Longrightarrow> stored_fd k (sw_persist w') = stored_fd k (sw_persist w)"
  by (metis snd_conv touches_def)

lemma touches_bind:
  assumes "touches K m" "\<And>v. touches K (f v)"
  shows "touches K (act_bind m f)"
  unfolding touches_def
proof (intro allI impI)
  fix w k assume k: "k \<notin> K"
  obtain r w1 where m: "m w = (r, w1)" by fastforce
  have 1: "stored_fd k (sw_persist w1) = stored_fd k (sw_persist w)" using touchesD [OF assms(1) m k] .
  show "stored_fd k (sw_persist (snd (act_bind m f w))) = stored_fd k (sw_persist w)"
    using 1 assms(2) k by (cases r) (auto simp: act_bind_def m touches_def)
qed

lemma touches_then: "touches K m \<Longrightarrow> touches K n \<Longrightarrow> touches K (act_then m n)"
  by (simp add: act_then_def touches_bind)

lemma touches_kept: "keeps_persist m \<Longrightarrow> touches K m"
  by (simp add: touches_def keeps_persist_def)

lemma put_fd_state: "snd (put_fd env key fd w) =
    w\<lparr>sw_persist := (sw_persist w)\<lparr>ps_fds := AList.update key fd (ps_fds (sw_persist w))\<rparr>\<rparr>"
  by (simp add: put_fd_def request_defs Let_def)

lemma touches_put: "key \<in> K \<Longrightarrow> touches K (put_fd env key fd)"
  by (auto simp: touches_def put_fd_state stored_fd_def update_conv')

lemma touches_close: "key \<in> K \<Longrightarrow> touches K (close_fd env key)"
  by (auto simp: touches_def stored_fd_def delete_conv')

lemma spawn_fds: "ps_fds (sw_persist (snd (spawn_process env sp w))) = ps_fds (sw_persist w)"
proof -
  obtain r st where r: "start_process_inner (se_os env) sp (sw_persist w) = (r, st)" by fastforce
  then have "ps_fds st = ps_fds (sw_persist w)" using start_process_fds [of "se_os env" sp "sw_persist w"] by simp
  with r show ?thesis by (cases r) (simp_all add: spawn_process_def request_defs Let_def)
qed

lemma touches_spawn: "touches K (spawn_process env sp)"
  by (simp add: touches_def stored_fd_def spawn_fds)

lemma touches_handler: "touches K (add_handler key)"
  by (simp add: touches_def add_handler_def)

lemmas touches_rules = touches_bind touches_then touches_put touches_close touches_spawn touches_handler
  touches_kept [OF persist_basic_kept(1)] touches_kept [OF persist_basic_kept(2)]
  touches_kept [OF persist_basic_kept(3)]

lemma kept_pod_mounts: "keeps_persist (pod_mounts env ms)"
proof (induction ms)
  case (Cons m ms)
  have "sw_persist (snd (pod_mounts env (m # ms) w)) = sw_persist w" for w
  proof -
    have a: "keeps_persist (act_bind (pod_mounts env ms) (\<lambda>args. act_return (''-v'' # v # args)))" for v
      by (intro persist_kept Cons.IH)
    have b: "keeps_persist (act_then (log_stdout env t) (pod_mounts env ms))" for t
      by (intro persist_kept Cons.IH)
    show ?thesis
      using a [unfolded keeps_persist_def, rule_format] b [unfolded keeps_persist_def, rule_format]
      by (simp add: Let_def split: prod.split)
  qed
  then show ?case by (simp add: keeps_persist_def)
qed (simp add: persist_kept)

lemma kept_run_script: "keeps_persist (run_script env name src envs)"
proof -
  have "keeps_persist (\<lambda>w. act_then (sys env c) (if P (length (sw_calls w)) then act_return () else act_fail e) w)" for c P e
    by (simp add: keeps_persist_def act_defs sys_def)
  then show ?thesis
    unfolding run_script_def by (auto intro!: persist_kept split: option.split)
qed

lemma kept_run_scripts: "keeps_persist (run_scripts env kind idx srcs envs)"
  by (induction srcs arbitrary: idx) (auto intro!: persist_kept kept_run_script)

lemma kept_option:
  "keeps_persist a \<Longrightarrow> (\<And>x. keeps_persist (b x)) \<Longrightarrow> keeps_persist (case m of None \<Rightarrow> a | Some x \<Rightarrow> b x)"
  by (cases m) simp_all

lemma touches_option:
  "touches K a \<Longrightarrow> (\<And>x. touches K (b x)) \<Longrightarrow> touches K (case m of None \<Rightarrow> a | Some x \<Rightarrow> b x)"
  by (cases m) simp_all

lemma kept_if: "keeps_persist a \<Longrightarrow> keeps_persist b \<Longrightarrow> keeps_persist (if c then a else b)"
  by simp

lemma touches_puts: "fst ` set kfds \<subseteq> K \<Longrightarrow> touches K (puts env kfds)"
  by (induction kfds) (auto intro!: touches_rules)

lemma kept_chown_user: "keeps_persist (chown_user env user path)"
  unfolding chown_user_def by (intro kept_option persist_kept)

lemma kept_check_user: "keeps_persist (check_user env user)"
  by (simp add: check_user_def keeps_podman_user)

lemma kept_service_cgroup: "keeps_persist (service_cgroup env d)"
  unfolding service_cgroup_def by (intro kept_option kept_if persist_kept)

lemma kept_metrics_dir: "keeps_persist (metrics_dir env d i)"
  unfolding metrics_dir_def Let_def by (intro kept_option persist_kept kept_chown_user)

lemma instance_keys: "fst ` set (instance_fds name i) \<subseteq> Collect (starts_with (instance_prefix name i))"
  by (auto simp: instance_fds_def notify_key_def stdout_write_key_def stdout_read_key_def stderr_write_key_def
      stderr_read_key_def starts_with_def)

lemma touches_prepare:
  "Collect (starts_with (instance_prefix (sd_name d) i)) \<subseteq> K \<Longrightarrow> touches K (start_prepare env d extra img i)"
  unfolding start_prepare_def using instance_keys [of "sd_name d" i]
  by (intro touches_then touches_kept [OF kept_check_user] touches_kept [OF kept_service_cgroup]
      touches_kept [OF kept_run_scripts] touches_kept [OF kept_metrics_dir] touches_kept [OF kept_chown_user]
      touches_kept [OF persist_basic_kept(3)] touches_puts) auto

lemma kept_pod_args: "keeps_persist (pod_args env name d extra img i)"
  unfolding pod_args_def by (intro persist_kept kept_pod_mounts kept_option)

lemma touches_launch:
  assumes "Collect (starts_with (instance_prefix (sd_name d) i)) \<subseteq> K"
  shows "touches K (start_launch env name d extra img i fds)"
proof -
  have k: "stdout_write_key (sd_name d) i \<in> K" "stderr_write_key (sd_name d) i \<in> K"
    using assms by (auto simp: stdout_write_key_def stderr_write_key_def starts_with_def)
  have "touches K (case x of (sp, pod) \<Rightarrow> act_then (spawn_process env sp)
      (act_then (close_fd env (stdout_write_key (sd_name d) i))
        (act_then (close_fd env (stderr_write_key (sd_name d) i)) (act_return pod))))" for x
    using k by (cases x) (auto intro!: touches_rules)
  then show ?thesis
    unfolding start_launch_def
    by (intro touches_rules touches_option touches_kept [OF kept_pod_args])
qed

lemma touches_open: "key \<in> K \<Longrightarrow> touches K (open_socket env key b)"
  by (cases b) (auto intro!: touches_rules touches_kept [OF kept_check_user])

text \<open>Binding touches the noted keys only, and none of them was there before.\<close>

lemma has_fd_result [simp]: "has_fd env key w = (Inr (stored_fd key (sw_persist w) \<noteq> None), w)"
  by (simp add: has_fd_def query_def request_defs Let_def stored_fd_def)

lemma bind_sockets_touch:
  assumes "bind_sockets env name bs w = (r, keys, w')"
  shows "(\<forall>k \<in> set keys. stored_fd k (sw_persist w) = None)
    \<and> (\<forall>k. k \<notin> set keys \<longrightarrow> stored_fd k (sw_persist w') = stored_fd k (sw_persist w))"
  using assms
proof (induction bs arbitrary: w r keys w')
  case (Cons b bs)
  let ?k = "bind_key b name"
  show ?case
  proof (cases "stored_fd ?k (sw_persist w)")
    case (Some fd)
    with Cons.prems obtain r1 where "bind_sockets env name bs w = (r1, keys, w')"
      by (auto simp: Let_def split: prod.splits)
    then show ?thesis by (rule Cons.IH)
  next
    case None
    obtain o1 w1 where o: "open_socket env ?k b w = (o1, w1)" by fastforce
    have t: "stored_fd k (sw_persist w1) = stored_fd k (sw_persist w)" if "k \<noteq> ?k" for k
      using touchesD [OF touches_open [of ?k "{?k}"] o] that by simp
    show ?thesis
    proof (cases o1)
      case (Inl e)
      with Cons.prems None o have "keys = [?k]" "w' = w1" by (simp_all add: Let_def)
      with None t show ?thesis by simp
    next
      case (Inr u)
      obtain r1 keys1 w2 where n: "bind_sockets env name bs w1 = (r1, keys1, w2)" using prod_cases3 by blast
      with Cons.prems None o Inr have k: "keys = ?k # keys1" "w' = w2" by (simp_all add: Let_def)
      from Cons.IH [OF n] t None show ?thesis unfolding k by (metis list.set_intros(1,2) set_ConsD)
    qed
  qed
qed simp

lemma start_wait_fds:
  "start_wait env d now key inst (kept, w, evs) = (r, kept', w', evs') \<Longrightarrow>
    stored_fd k (sw_persist w') = stored_fd k (sw_persist w)"
  by (auto simp: start_wait_def act_defs sys_def signal_process_def query_def
      split: option.splits prod.splits sum.splits instance_result.splits if_splits)

lemma start_failed_fds:
  "stored_fd k (sw_persist (snd (start_failed env name i keys w)))
    = (if k \<in> set keys \<or> starts_with (instance_prefix name i) k then None else stored_fd k (sw_persist w))"
  by (simp add: start_failed_def act_defs if_listed_def sys_def stored_fd_def map_of_fold_delete set_keys_with)

lemma start_inner_touch:
  assumes "start_instance_inner env name rq i now (kept, w, evs) = (r, keys, kept', w', evs')"
    and "\<forall>k. starts_with (instance_prefix (sd_name (sr_desc rq)) i) k \<longrightarrow> stored_fd k (sw_persist w) = None"
  shows "\<forall>k. \<not> starts_with (instance_prefix (sd_name (sr_desc rq)) i) k \<longrightarrow>
      (if k \<in> set keys then stored_fd k (sw_persist w) = None
       else stored_fd k (sw_persist w') = stored_fd k (sw_persist w))"
proof -
  let ?d = "sr_desc rq" let ?K = "Collect (starts_with (instance_prefix (sd_name ?d) i))"
  obtain r1 w1 where p: "start_prepare env ?d (sr_extra rq) (sr_image rq) i w = (r1, w1)" by fastforce
  have t1: "stored_fd k (sw_persist w1) = stored_fd k (sw_persist w)" if "k \<notin> ?K" for k
    using touchesD [OF touches_prepare [of ?d i ?K] p that] by simp
  obtain r2 ks w2 where b: "bind_sockets env name (sd_bind ?d) w1 = (r2, ks, w2)" using prod_cases3 by blast
  note t2 = bind_sockets_touch [OF b]
  obtain r3 w3 where l: "start_launch env name ?d (sr_extra rq) (sr_image rq) i (projr r2) w2 = (r3, w3)" by fastforce
  have t3: "stored_fd k (sw_persist w3) = stored_fd k (sw_persist w2)" if "k \<notin> ?K" for k
    using touchesD [OF touches_launch [of ?d i ?K] l that] by simp
  obtain r4 k4 w4 e4 where wt: "start_wait env ?d now (process_key_of (sd_name ?d) i)
      (started_instance env ?d i now (projr r3)) (kept, w3, evs) = (r4, k4, w4, e4)" using prod_cases4 by blast
  note t4 = start_wait_fds [OF wt]
  have t5: "sw_persist (snd (run_scripts env ''poststart'' 0 srcs envs w)) = sw_persist w" for srcs envs w
    by (rule kept_run_scripts [unfolded keeps_persist_def, rule_format])
  have k: "keys \<in> {[], ks}" "keys = [] \<Longrightarrow> ks = [] \<or> w' = w1"
    and w': "sw_persist w' \<in> {sw_persist w1, sw_persist w2, sw_persist w3, sw_persist w4}"
    using assms(1) p b l wt t5
    by (auto simp: start_instance_inner_def Let_def split: sum.splits option.splits prod.splits)
       (metis snd_conv)+
  show ?thesis
  proof (intro allI impI)
    fix k assume n: "\<not> starts_with (instance_prefix (sd_name ?d) i) k"
    then have "k \<notin> ?K" by simp
    with t1 t2 t3 t4 k w' n show "if k \<in> set keys then stored_fd k (sw_persist w) = None
        else stored_fd k (sw_persist w') = stored_fd k (sw_persist w)"
      by (cases "k \<in> set ks") auto
  qed
qed

text \<open>Further result: a start that fails leaves no descriptor behind and closes none. Under a fresh id
  (no descriptor with the prefix of the instance) every key refers to what it referred to before:
  the pipes and the sockets that were opened for the instance are closed, the sockets that were
  there already are kept.\<close>

theorem failed_start_leaks_nothing:
  assumes "start_instance env name rq i now (kept, w, evs) = (Some (Inl e), kept', w', evs')"
    and "sd_name (sr_desc rq) = name"
    and "\<forall>k. starts_with (instance_prefix name i) k \<longrightarrow> stored_fd k (sw_persist w) = None"
  shows "stored_fd k (sw_persist w') = stored_fd k (sw_persist w)"
proof -
  obtain r keys k1 w1 e1 where s: "start_instance_inner env name rq i now (kept, w, evs) = (r, keys, k1, w1, e1)"
    using prod_cases5 by blast
  from assms(1) s have r: "w' = snd (start_failed env name i keys w1)"
    by (auto simp: start_instance_def split: option.splits sum.splits)
  have t: "\<not> starts_with (instance_prefix name i) k \<Longrightarrow>
      (if k \<in> set keys then stored_fd k (sw_persist w) = None
       else stored_fd k (sw_persist w1) = stored_fd k (sw_persist w))"
    using start_inner_touch [OF s] assms(2,3) by simp
  show ?thesis
    using t assms(3) unfolding r start_failed_fds
    by (cases "starts_with (instance_prefix name i) k"; cases "k \<in> set keys") simp_all
qed

definition demo_request :: "nat start_request" where
  "demo_request = \<lparr>sr_desc = demo_description\<lparr>sd_bind := [Tcp '':80'' 3 True, Tcp '':81'' 4 True],
       sd_start_magic := Some ''up''\<rparr>, sr_extra = [], sr_image = None, sr_user = ''me''\<rparr>"

lemma demo_fresh: "starts_with (instance_prefix ''a'' 2) k \<longrightarrow> stored_fd k (sw_persist demo_world) = None"
  by (auto simp: stored_fd_def demo_world_def instance_prefix_def show_nat.simps char_of_def bit_iff_odd
      starts_with_def strip_prefix_Some_iff)

theorem failed_start_leaks_nothing_witness:
  "\<exists>e kept' w' evs'. start_instance (demo_env\<lparr>se_sys := \<lambda>n c. c \<noteq> Make_pipe\<rparr>) ''a'' demo_request 2 100
      (demo_status, demo_world, []) = (Some (Inl e), kept', w', evs')
    \<and> (\<forall>k. stored_fd k (sw_persist w') = stored_fd k (sw_persist demo_world))"
proof -
  let ?env = "demo_env\<lparr>se_sys := \<lambda>n c. c \<noteq> Make_pipe\<rparr>"
  have "\<exists>e kept' w' evs'. start_instance ?env ''a'' demo_request 2 100 (demo_status, demo_world, [])
      = (Some (Inl e), kept', w', evs')"
    by (simp add: start_instance_def start_instance_inner_def start_prepare_def check_user_def podman_user_def
        service_cgroup_def demo_request_def demo_description_def act_defs sys_def)
  then obtain e kept' w' evs' where s: "start_instance ?env ''a'' demo_request 2 100 (demo_status, demo_world, []) = (Some (Inl e), kept', w', evs')"
    by blast
  have "stored_fd k (sw_persist w') = stored_fd k (sw_persist demo_world)" for k
    using failed_start_leaks_nothing [OF s] demo_fresh by (simp add: demo_request_def demo_description_def)
  with s show ?thesis by blast
qed

text \<open>Further result: a start that fails after its process was started does not kill it. What is
  taken back sends it no signal (only the start timeout does, before), as its key lacks the dot of
  the prefix that is listed, and the persist daemon keeps it as a running process.\<close>

theorem failed_start_spares_process:
  "ps_processes (sw_persist (snd (start_failed env name i keys w))) = ps_processes (sw_persist w)
    \<and> (Signalled (process_key_of name i) s \<in> set (sw_calls (snd (start_failed env name i keys w)))
        \<longleftrightarrow> Signalled (process_key_of name i) s \<in> set (sw_calls w))"
  using instance_kills_spare [of name i s env "sw_persist w"]
  by (auto simp: start_failed_def act_defs if_listed_def sys_def instance_kills_def set_keys_with)

lemma spawn_registers:
  "spawn_process env sp w = (Inr u, w') \<Longrightarrow> map_of (ps_processes (sw_persist w')) (sp_key sp) \<noteq> None"
proof -
  assume s: "spawn_process env sp w = (Inr u, w')"
  obtain r st where r: "start_process_inner (se_os env) sp (sw_persist w) = (r, st)" by fastforce
  with s have "r = Inr ()" "w' = w\<lparr>sw_persist := st\<rparr>"
    by (cases r; simp add: spawn_process_def request_defs Let_def)+
  with r show ?thesis
    by (auto simp: start_process_inner_def update_conv' split: sum.splits option.splits)
qed

lemma close_fd_keeps: "close_fd env key w = (r, w') \<Longrightarrow>
    ps_processes (sw_persist w') = ps_processes (sw_persist w) \<and> sw_handlers w' = sw_handlers w"
  using close_fd_state [of env key w] by simp

lemma spawn_handlers: "sw_handlers (snd (spawn_process env sp w)) = sw_handlers w"
  by (simp add: spawn_process_def Let_def split: prod.split)

lemma launch_registers:
  assumes "start_launch env name d extra img i fds w = (Inr pod, w')"
  shows "map_of (ps_processes (sw_persist w')) (process_key_of (sd_name d) i) \<noteq> None"
proof -
  from assms obtain sp w1 u1 w2 u2 w3 u3 where
      s: "spawn_process env sp w1 = (Inr u1, w2)"
    and sp: "sp_key sp = process_key_of (sd_name d) i"
    and c: "close_fd env (stdout_write_key (sd_name d) i) w2 = (Inr u2, w3)"
      "close_fd env (stderr_write_key (sd_name d) i) w3 = (Inr u3, w')"
    by (auto simp: start_launch_def act_defs start_process_of_def
        split: option.splits sum.splits prod.splits)
  from spawn_registers [OF s] close_fd_keeps [OF c(1)] close_fd_keeps [OF c(2)] sp show ?thesis by simp
qed

lemma start_wait_registers:
  "start_wait env d now key inst (kept, w, evs) = (r, kept', w', evs') \<Longrightarrow>
    ps_processes (sw_persist w') = ps_processes (sw_persist w)"
  by (auto simp: start_wait_def act_defs sys_def signal_process_def query_def
      split: option.splits prod.splits sum.splits instance_result.splits if_splits)

lemma start_wait_state:
  "start_wait env d now key inst (kept, w, evs) = (Some (Inr (inst', state)), kept', w', evs') \<Longrightarrow>
    state = (if start_args None d = None then Running else Ready)"
  by (auto simp: start_wait_def start_args_def
      split: option.splits prod.splits sum.splits instance_result.splits if_splits)

text \<open>Further result: a start that succeeds has a registered process and a status that says so. The
  status names the process, its description is the one that was to be started, the service counts
  as enabled, and it is ready when something told so and running when nothing was waited for.\<close>

theorem started_service:
  assumes "start_instance env name rq i now (kept, w, evs) = (Some (Inr (inst, st)), kept', w', evs')"
  shows "st_process_key st = Some (process_key_of (sd_name (sr_desc rq)) i)
    \<and> map_of (ps_processes (sw_persist w')) (process_key_of (sd_name (sr_desc rq)) i) \<noteq> None
    \<and> st_description st = sr_desc rq \<and> st_instance_id st = i \<and> st_enabled st
    \<and> st_state st = (if start_args None (sr_desc rq) = None then Running else Ready)"
proof -
  let ?d = "sr_desc rq"
  have t5: "sw_persist (snd (run_scripts env ''poststart'' 0 srcs envs w)) = sw_persist w" for srcs envs w
    by (rule kept_run_scripts [unfolded keeps_persist_def, rule_format])
  from assms obtain fds w2 pod w3 state k4 w4 e4 where
    l: "start_launch env name ?d (sr_extra rq) (sr_image rq) i fds w2 = (Inr pod, w3)" and
    wt: "start_wait env ?d now (process_key_of (sd_name ?d) i) (started_instance env ?d i now pod) (kept, w3, evs)
      = (Some (Inr (inst, state)), k4, w4, e4)" and
    st: "st = started_status ?d (sr_extra rq) (sr_image rq) i (sr_user rq) now pod state" and
    w': "w' = snd (run_scripts env ''poststart'' 0 (post_start_scripts ?d pod) (script_env (sr_extra rq) (sr_image rq)) w4)"
    by (auto simp: start_instance_def start_instance_inner_def Let_def
        split: prod.splits sum.splits option.splits)
  from launch_registers [OF l] start_wait_registers [OF wt] start_wait_state [OF wt] st w' t5
  show ?thesis by (simp add: started_status_def)
qed

definition demo_plain :: "nat start_request" where
  "demo_plain = \<lparr>sr_desc = demo_description, sr_extra = [], sr_image = None, sr_user = ''root''\<rparr>"

definition demo_empty :: "nat service_world" where
  "demo_empty = demo_world\<lparr>sw_persist := persist_default\<rparr>"

lemma demo_starts:
  "\<exists>inst st kept' w' evs'. start_instance demo_env ''a'' demo_plain 2 100 (demo_status, demo_empty\<lparr>sw_calls := cs0\<rparr>, [])
    = (Some (Inr (inst, st)), kept', w', evs')"
proof -
  have p: "\<exists>cs. start_prepare demo_env demo_description [] None 2 (demo_empty\<lparr>sw_calls := cs0\<rparr>)
      = (Inr (), demo_empty\<lparr>sw_persist := persist_default\<lparr>ps_fds := instance_fds ''a'' 2\<rparr>, sw_calls := cs\<rparr>)"
    by (simp add: start_prepare_def check_user_def podman_user_def service_cgroup_def chown_user_def
        metrics_dir_def metrics_path_of_def demo_description_def act_defs sys_def demo_env_def put_fd_def
        instance_fds_def notify_key_def stdout_write_key_def stdout_read_key_def stderr_write_key_def
        stderr_read_key_def request_defs Let_def demo_empty_def demo_world_def persist_default_def)
  have l: "\<exists>w'. start_launch demo_env ''a'' demo_description [] None 2 [] (demo_empty\<lparr>
      sw_persist := persist_default\<lparr>ps_fds := instance_fds ''a'' 2\<rparr>, sw_calls := cs\<rparr>) = (Inr None, w')" for cs
    by (simp add: start_launch_def add_handler_def demo_description_def act_defs sys_def demo_env_def
        spawn_process_def request_defs Let_def start_process_inner_def start_process_of_def instance_fds_def
        notify_key_def stdout_write_key_def stdout_read_key_def stderr_write_key_def stderr_read_key_def
        close_fd_def delete_conv' persist_default_def)
  obtain cs where p': "start_prepare demo_env demo_description [] None 2 (demo_empty\<lparr>sw_calls := cs0\<rparr>)
      = (Inr (), demo_empty\<lparr>sw_persist := persist_default\<lparr>ps_fds := instance_fds ''a'' 2\<rparr>, sw_calls := cs\<rparr>)"
    using p by blast
  obtain w2 where l': "start_launch demo_env ''a'' demo_description [] None 2 [] (demo_empty\<lparr>
      sw_persist := persist_default\<lparr>ps_fds := instance_fds ''a'' 2\<rparr>, sw_calls := cs\<rparr>) = (Inr None, w2)"
    using l by blast
  have d: "sd_bind demo_description = []" "start_args x demo_description = None"
    "post_start_scripts demo_description None = []" for x
    by (simp_all add: demo_description_def start_args_def post_start_scripts_def)
  show ?thesis
    using p' l' d by (simp add: start_instance_def start_instance_inner_def Let_def demo_plain_def start_wait_def act_return_def)
qed

theorem started_service_witness:
  "\<exists>inst st w'. st_process_key st = Some (process_key_of ''a'' 2)
    \<and> map_of (ps_processes (sw_persist (w' :: nat service_world))) (process_key_of ''a'' 2) \<noteq> None
    \<and> st_description st = demo_description \<and> st_instance_id st = 2 \<and> st_enabled st \<and> st_state st = Running
    \<and> fst (start_instance demo_env ''a'' demo_plain 2 100 (demo_status, demo_empty, [])) = Some (Inr (inst, st))"
proof -
  obtain inst st kept' w' evs' where s: "start_instance demo_env ''a'' demo_plain 2 100 (demo_status, demo_empty, [])
    = (Some (Inr (inst, st)), kept', w', evs')" using demo_starts [of "sw_calls demo_empty"] by auto
  have "sr_desc demo_plain = demo_description" "sd_name demo_description = ''a''" "start_args None demo_description = None"
    by (simp_all add: demo_plain_def demo_description_def start_args_def)
  with started_service [OF s] s show ?thesis by auto
qed

end
