(* ===== verification/Services.thy ===== *)
theory Services
  imports Service_Start
begin

text \<open>
  The operations on a service (\<open>client_daemon_service.rs\<close>): starting, stopping, restarting,
  removing, deploying with the way back after a failure, the task that runs it and starts it again,
  and what is loaded when the client daemon starts. \<open>sv_running\<close> says whether a task runs the
  service; what that task gives when it is cancelled is an argument \<open>tend\<close> of the operations that
  stop it, as are the ids of instances and the time. An operation returns \<open>None\<close> while it waits for
  events that have not come.
\<close>

datatype deploy_action =
    ExtractFile string "string option"
  | StopService
  | CreateService
  | StartPodmanImage string "string option"

record 'f svc =
  sv_running :: bool
  sv_status :: "'f service_status"
  sv_world :: "'f service_world"
  sv_events :: "(instant \<times> instance_event) list"
  sv_actions :: "deploy_action list"

type_synonym ('f, 'a) op = "'f svc \<Rightarrow> (service_error + 'a) option \<times> 'f svc"

definition op_return :: "'a \<Rightarrow> ('f, 'a) op" where
  "op_return v = (\<lambda>s. (Some (Inr v), s))"

definition op_fail :: "service_error \<Rightarrow> ('f, 'a) op" where
  "op_fail e = (\<lambda>s. (Some (Inl e), s))"

definition op_bind :: "('f, 'a) op \<Rightarrow> ('a \<Rightarrow> ('f, 'b) op) \<Rightarrow> ('f, 'b) op" where
  "op_bind m f = (\<lambda>s. case m s of
     (None, s) \<Rightarrow> (None, s)
   | (Some (Inl e), s) \<Rightarrow> (Some (Inl e), s)
   | (Some (Inr v), s) \<Rightarrow> f v s)"

definition op_then :: "('f, 'a) op \<Rightarrow> ('f, 'b) op \<Rightarrow> ('f, 'b) op" where
  "op_then m n = op_bind m (\<lambda>_. n)"

definition op_act :: "('f, 'a) act \<Rightarrow> ('f, 'a) op" where
  "op_act m = (\<lambda>s. case m (sv_world s) of (r, w) \<Rightarrow> (Some r, s\<lparr>sv_world := w\<rparr>))"

definition op_get :: "('f svc \<Rightarrow> ('f, 'a) op) \<Rightarrow> ('f, 'a) op" where
  "op_get f = (\<lambda>s. f s s)"

definition op_set :: "('f svc \<Rightarrow> 'f svc) \<Rightarrow> ('f, unit) op" where
  "op_set f = (\<lambda>s. (Some (Inr ()), f s))"

definition push_action :: "deploy_action \<Rightarrow> ('f, unit) op" where
  "push_action a = op_set (\<lambda>s. s\<lparr>sv_actions := sv_actions s @ [a]\<rparr>)"

definition op_when :: "bool \<Rightarrow> ('f, unit) op \<Rightarrow> ('f, unit) op" where
  "op_when b m = (if b then m else op_return ())"

lemmas op_defs = op_return_def op_fail_def op_bind_def op_then_def op_act_def op_get_def op_set_def
  push_action_def op_when_def

section \<open>Status and instances\<close>

definition persist_status :: "'f service_env \<Rightarrow> string \<Rightarrow> ('f, unit) op" where
  "persist_status env name = op_get (\<lambda>s. op_act (act_then (sys env (Save_status name))
     (\<lambda>w. (Inr (), w\<lparr>sw_rows := AList.update name (sv_status s) (sw_rows w)\<rparr>))))"

definition create_run_service_task :: "('f, unit) op" where
  "create_run_service_task = op_set (\<lambda>s. s\<lparr>sv_running := True\<rparr>)"

definition op_start_instance ::
  "'f service_env \<Rightarrow> string \<Rightarrow> 'f start_request \<Rightarrow> nat \<Rightarrow> instant
    \<Rightarrow> ('f, service_instance \<times> 'f service_status) op" where
  "op_start_instance env name rq i now = (\<lambda>s.
     case start_instance env name rq i now (sv_status s, sv_world s, sv_events s) of
       (r, kept, w, evs) \<Rightarrow> (r, s\<lparr>sv_status := kept, sv_world := w, sv_events := evs\<rparr>))"

definition op_cleanup :: "'f service_env \<Rightarrow> string \<Rightarrow> ('f, unit) op" where
  "op_cleanup env name = op_get (\<lambda>s. op_act (cleanup env name (sd_user (st_description (sv_status s)))))"

section \<open>Stopping\<close>

text \<open>The task ends when it is waited for, and takes itself off the service unless it ended with an
  error.\<close>

definition take_task :: "'f svc \<Rightarrow> (service_error + service_instance option)
    \<Rightarrow> (service_error + service_instance option) option" where
  "take_task s tend = (if sv_running s then Some tend else None)"

definition end_task :: "(service_error + service_instance option) \<Rightarrow> 'f svc \<Rightarrow> 'f svc" where
  "end_task tend s = (case tend of Inl _ \<Rightarrow> s | Inr _ \<Rightarrow> s\<lparr>sv_running := False\<rparr>)"

definition op_stop_run ::
  "'f service_env \<Rightarrow> string \<Rightarrow> instant option \<Rightarrow> instant \<Rightarrow> stop_op \<Rightarrow> ('f, bool \<times> stop_op) op" where
  "op_stop_run env name timeout grace st = (\<lambda>s.
     case stop_run env name timeout grace (st, sv_status s, sv_world s, sv_events s) of
       (r, st, status, w, evs) \<Rightarrow>
         (map_option (\<lambda>r. case r of Inl e \<Rightarrow> Inl e | Inr b \<Rightarrow> Inr (b, st)) r,
          s\<lparr>sv_status := status, sv_world := w, sv_events := evs\<rparr>))"

definition stop_inner ::
  "('f :: numeral) service_env \<Rightarrow> string \<Rightarrow> (service_error + service_instance option) \<Rightarrow> instant \<Rightarrow> ('f, unit) op" where
  "stop_inner env name tend now = op_get (\<lambda>s.
     op_then (op_set (end_task tend)) (
     op_bind (op_act (stop_new env (take_task s tend) (sv_status s) False now)) (\<lambda>st.
       case st of
         None \<Rightarrow> op_return ()
       | Some st \<Rightarrow> op_then (op_stop_run env name None (stp_timeout st + 10000) st) (op_return ()))))"

definition stop_service ::
  "('f :: numeral) service_env \<Rightarrow> string \<Rightarrow> (service_error + service_instance option) \<Rightarrow> instant \<Rightarrow> ('f, unit) op" where
  "stop_service env name tend now = op_get (\<lambda>s.
     if \<not> sv_running s then
       op_then (op_cleanup env name) (op_fail (Service_message ''Service is not running''))
     else
       op_then (stop_inner env name tend now) (
       op_then (op_set (\<lambda>s. s\<lparr>sv_status := (sv_status s)\<lparr>st_enabled := False, st_start_stop_time := now\<rparr>\<rparr>)) (
       op_then (op_cleanup env name) (persist_status env name))))"

section \<open>Starting, restarting, removing\<close>

definition restart_request :: "'f service_status \<Rightarrow> 'f start_request" where
  "restart_request st = \<lparr>sr_desc = st_description st, sr_extra = st_extra_env st, sr_image = st_image st,
     sr_user = st_deploy_user st\<rparr>"

definition start_service :: "'f service_env \<Rightarrow> string \<Rightarrow> nat \<Rightarrow> instant \<Rightarrow> ('f, unit) op" where
  "start_service env name i now = op_get (\<lambda>s.
     if sv_running s then op_fail (Service_message ''Service is already running'')
     else
       op_then (op_cleanup env name) (
       op_bind (op_start_instance env name (restart_request (sv_status s)) i now) (\<lambda>(_, status).
       op_then (op_set (\<lambda>s'. s'\<lparr>sv_status := status\<lparr>st_enabled := True, st_deploy_time := st_deploy_time (sv_status s)\<rparr>\<rparr>)) (
       op_then create_run_service_task (persist_status env name)))))"

definition restart_service ::
  "('f :: numeral) service_env \<Rightarrow> string \<Rightarrow> (service_error + service_instance option) \<Rightarrow> nat \<Rightarrow> instant \<Rightarrow> ('f, unit) op" where
  "restart_service env name tend i now = op_then (stop_inner env name tend now) (start_service env name i now)"

definition remove_service ::
  "('f :: numeral) service_env \<Rightarrow> string \<Rightarrow> (service_error + service_instance option) \<Rightarrow> instant \<Rightarrow> ('f, unit) op" where
  "remove_service env name tend now =
     op_then (stop_inner env name tend now) (
     op_then (op_cleanup env name)
       (op_act (act_then (sys env (Delete_status name))
          (\<lambda>w. (Inr (), w\<lparr>sw_rows := AList.delete name (sw_rows w)\<rparr>)))))"

section \<open>Files\<close>

text \<open>A path with a slash at its end names what is there without it, if that is a directory.\<close>

definition fs_key :: "string \<Rightarrow> string" where
  "fs_key p = (case strip_suffix ''/'' p of Some d \<Rightarrow> d | None \<Rightarrow> p)"

definition names_folder :: "string \<Rightarrow> bool" where
  "names_folder p = ends_with ''/'' p"

text \<open>\<open>rename(2)\<close> onto a path: a directory takes the place of an empty directory only, a file that of
  a file.\<close>

definition fs_put :: "entry \<Rightarrow> string \<Rightarrow> (string \<rightharpoonup> entry) \<Rightarrow> (string \<rightharpoonup> entry) option" where
  "fs_put x b fs =
     (case (x, fs (fs_key b)) of
        (File _, None) \<Rightarrow> if names_folder b then None else Some (fs(fs_key b \<mapsto> x))
      | (File _, Some (File _)) \<Rightarrow> if names_folder b then None else Some (fs(fs_key b \<mapsto> x))
      | (Folder _, None) \<Rightarrow> Some (fs(fs_key b \<mapsto> x))
      | (Folder _, Some (Folder [])) \<Rightarrow> Some (fs(fs_key b \<mapsto> x))
      | _ \<Rightarrow> None)"

definition fs_rename :: "string \<Rightarrow> string \<Rightarrow> (string \<rightharpoonup> entry) \<Rightarrow> (string \<rightharpoonup> entry) option" where
  "fs_rename a b fs =
     (case fs (fs_key a) of
        None \<Rightarrow> None
      | Some (File c) \<Rightarrow>
          if names_folder a \<or> names_folder b then None
          else if fs_key a = fs_key b then Some fs else fs_put (File c) b (fs(fs_key a := None))
      | Some (Folder c) \<Rightarrow>
          if fs_key a = fs_key b then Some fs else fs_put (Folder c) b (fs(fs_key a := None)))"

definition fs_remove_file :: "string \<Rightarrow> (string \<rightharpoonup> entry) \<Rightarrow> (string \<rightharpoonup> entry) option" where
  "fs_remove_file a fs =
     (case fs (fs_key a) of
        Some (File _) \<Rightarrow> if names_folder a then None else Some (fs(fs_key a := None))
      | _ \<Rightarrow> None)"

definition file_op ::
  "'f service_env \<Rightarrow> sys_call \<Rightarrow> ((string \<rightharpoonup> entry) \<Rightarrow> (string \<rightharpoonup> entry) option) \<Rightarrow> ('f, unit) act" where
  "file_op env c f = act_then (sys env c) (\<lambda>w.
     case f (sw_files w) of
       None \<Rightarrow> (Inl (Sys_failed c), w)
     | Some fs \<Rightarrow> (Inr (), w\<lparr>sw_files := fs\<rparr>))"

definition rename :: "'f service_env \<Rightarrow> string \<Rightarrow> string \<Rightarrow> ('f, unit) act" where
  "rename env a b = file_op env (Rename a b) (fs_rename a b)"

definition remove_file :: "'f service_env \<Rightarrow> string \<Rightarrow> ('f, unit) act" where
  "remove_file env a = file_op env (Remove_file a) (fs_remove_file a)"

definition act_is_ok :: "('f, 'a) act \<Rightarrow> ('f, bool) act" where
  "act_is_ok m = (\<lambda>w. case m w of (Inl _, w) \<Rightarrow> (Inr False, w) | (Inr _, w) \<Rightarrow> (Inr True, w))"

section \<open>Extracting files from an image\<close>

text \<open>\<open>forward_command\<close>: the command is shown in the log and run; an exit status is no error.\<close>

definition forward_command :: "'f service_env \<Rightarrow> string option \<Rightarrow> string list \<Rightarrow> ('f, bool) act" where
  "forward_command env user argv =
     act_then (log_stdout env (shown_command user (hd argv) (tl argv)))
       (act_bind (command env user argv) (\<lambda>(ok, _). act_return ok))"

definition must_succeed :: "'f service_env \<Rightarrow> string option \<Rightarrow> string list \<Rightarrow> ('f, unit) act" where
  "must_succeed env user argv = act_bind (forward_command env user argv)
     (\<lambda>ok. if ok then act_return () else act_fail (Command_failed user argv))"

fun entry_content :: "entry \<Rightarrow> string" where
  "entry_content (File c) = c"
| "entry_content (Folder c) = c"

definition backup_name :: "string \<Rightarrow> string \<Rightarrow> string" where
  "backup_name dir name = dir @ ''/.sadmin_backup_'' @ name @ ''~''"

text \<open>What is at the destination is moved aside, if it can be; that the destination is to be
  restored is noted; then the new entry is moved there.\<close>

definition replace_entry ::
  "'f service_env \<Rightarrow> entry \<Rightarrow> string \<Rightarrow> string \<Rightarrow> ('f, unit) op" where
  "replace_entry env x dst tmp =
     op_bind (op_act (act_is_ok (rename env dst tmp))) (\<lambda>moved.
     op_then (push_action (ExtractFile dst (if moved then Some tmp else None)))
       (op_act (file_op env (Rename ''extracted'' dst) (fs_put x dst))))"

definition extract_one ::
  "'f service_env \<Rightarrow> string option \<Rightarrow> string \<Rightarrow> string \<Rightarrow> extract_file \<Rightarrow> ('f, unit) op" where
  "extract_one env user img container f =
     (case strip_suffix ''/'' (ef_dst f) of
        Some d \<Rightarrow>
          op_then (op_act (must_succeed env user [''/usr/bin/podman'', ''cp'', container @ '':'' @ ef_src f, ''tempdir/'']))
            (if ef_merge f then op_act (sys env (Merge_into (ef_dst f)))
             else (case rsplit_once ''/'' d of
                     None \<Rightarrow> op_fail (Service_message ''Bad dest name'')
                   | Some (parent, name) \<Rightarrow>
                       replace_entry env (Folder (entry_content (se_extract env img (ef_src f)))) (ef_dst f)
                         (backup_name parent name)))
      | None \<Rightarrow>
          (let (dir, name) = (case rsplit_once ''/'' (ef_dst f) of Some p \<Rightarrow> p | None \<Rightarrow> (''.'', ef_dst f))
           in if name \<in> {[], ''..''} \<or> ef_dst f = ''.'' then op_fail (Service_message ''Missing name'')
              else op_then (op_act (must_succeed env user [''/usr/bin/podman'', ''cp'', container @ '':'' @ ef_src f, ''tempdir/'' @ name]))
                     (replace_entry env (se_extract env img (ef_src f)) (ef_dst f) (backup_name dir name))))"

fun extract_files ::
  "'f service_env \<Rightarrow> string option \<Rightarrow> string \<Rightarrow> string \<Rightarrow> extract_file list \<Rightarrow> ('f, unit) op" where
  "extract_files env user img container [] = op_return ()"
| "extract_files env user img container (f # fs) =
     op_then (extract_one env user img container f) (extract_files env user img container fs)"

section \<open>Deploying\<close>

record 'f deploy_args =
  da_image :: "string option"
  da_desc :: "'f service_description"
  da_extra :: "(string \<times> string) list"
  da_user :: string

text \<open>The choices of a run: the id of the new instance and of one started on the way back, the
  name of the container, what the task gives, the times.\<close>

record deploy_run =
  dr_instance :: nat
  dr_restart :: nat
  dr_container :: string
  dr_tend :: "service_error + service_instance option"
  dr_now :: instant

definition pull_image :: "'f service_env \<Rightarrow> string option \<Rightarrow> string option \<Rightarrow> ('f, unit) act" where
  "pull_image env user img =
     (case img of
        None \<Rightarrow> act_return ()
      | Some i \<Rightarrow> must_succeed env user [''/usr/bin/podman'', ''pull'', ''--authfile'', ''docker.conf'', i])"

definition deploy_prepare :: "'f service_env \<Rightarrow> 'f deploy_args \<Rightarrow> ('f, unit) act" where
  "deploy_prepare env a =
     (let user = sd_user (da_desc a)
      in act_then (check_user env user) (
         act_then
           (case user of
              Some u \<Rightarrow>
                if sd_enable_linger (da_desc a) = Some True
                then act_bind (forward_command env None [''/usr/bin/loginctl'', ''enable-linger'', u]) (\<lambda>_. act_return ())
                else act_return ()
            | None \<Rightarrow> act_return ()) (
         act_then (sys env (Temp_dir ''docker.conf'')) (
         act_then (sys env (Temp_file ''docker.conf'')) (
         act_then (chown_user env user ''docker.conf'')
           (pull_image env user (da_image a)))))))"

text \<open>Without overlap the instance that runs is stopped first.\<close>

definition deploy_stop :: "('f :: numeral) service_env \<Rightarrow> string \<Rightarrow> 'f deploy_args \<Rightarrow> deploy_run \<Rightarrow> ('f, unit) op" where
  "deploy_stop env name a r =
     (if sd_overlap (da_desc a) then op_return ()
      else op_get (\<lambda>s.
        case st_state (sv_status s) of
          Stopped \<Rightarrow> op_return ()
        | Stopping \<Rightarrow> op_return ()
        | New \<Rightarrow> push_action CreateService
        | _ \<Rightarrow> op_then (stop_inner env name (dr_tend r) (dr_now r)) (push_action StopService)))"

definition deploy_extract :: "'f service_env \<Rightarrow> 'f deploy_args \<Rightarrow> deploy_run \<Rightarrow> ('f, unit) op" where
  "deploy_extract env a r =
     (let d = da_desc a; user = sd_user d
      in if sd_extract_files d = [] then op_return ()
         else (case da_image a of
                 None \<Rightarrow> op_fail (Service_message ''Image must be specified for extract_files'')
               | Some img \<Rightarrow>
                   op_then (push_action (StartPodmanImage (dr_container r) user)) (
                   op_then (op_act (must_succeed env user
                     [''/usr/bin/podman'', ''create'', ''--network'', ''none'', ''--name'', dr_container r, img, ''/bin/false''])) (
                   op_then (op_act (sys env (Temp_dir ''extract''))) (
                   op_then (op_act (chown_user env user ''extract'')) (
                   op_then (extract_files env user img (dr_container r) (sd_extract_files d))
                     (op_act (act_then (forward_command env user [''/usr/bin/podman'', ''rm'', dr_container r])
                        (act_return ())))))))))"

text \<open>With overlap the instance before is stopped after the new one runs; what takes more than
  twenty seconds goes on in the background.\<close>

definition deploy_stop_old ::
  "('f :: numeral) service_env \<Rightarrow> string \<Rightarrow> deploy_run \<Rightarrow> bool \<Rightarrow> 'f service_status \<Rightarrow> ('f, unit) op" where
  "deploy_stop_old env name r was_running old = (\<lambda>s.
     case stop_new env (if was_running then Some (dr_tend r) else None) old True (dr_now r) (sv_world s) of
       (Inl e, w) \<Rightarrow> (Some (Inl e), s\<lparr>sv_world := w\<rparr>)
     | (Inr None, w) \<Rightarrow> (Some (Inr ()), s\<lparr>sv_world := w\<rparr>)
     | (Inr (Some st), w) \<Rightarrow>
         (case stop_run env name (Some (dr_now r + 20000)) (stp_timeout st + 10000) (st, old, w, sv_events s) of
            (None, _, _, w, evs) \<Rightarrow> (None, s\<lparr>sv_world := w, sv_events := evs\<rparr>)
          | (Some (Inl e), _, _, w, evs) \<Rightarrow> (Some (Inl e), s\<lparr>sv_world := w, sv_events := evs\<rparr>)
          | (Some (Inr True), _, _, w, evs) \<Rightarrow> (Some (Inr ()), s\<lparr>sv_world := w, sv_events := evs\<rparr>)
          | (Some (Inr False), _, _, w, evs) \<Rightarrow>
              (case log_stdout env ''It is taking a long time for the service to stop.'' w of
                 (r, w) \<Rightarrow> (Some r, s\<lparr>sv_world := w, sv_events := evs\<rparr>))))"

definition deploy_request :: "'f deploy_args \<Rightarrow> 'f start_request" where
  "deploy_request a = \<lparr>sr_desc = da_desc a, sr_extra = da_extra a, sr_image = da_image a, sr_user = da_user a\<rparr>"

definition deploy_start ::
  "('f :: numeral) service_env \<Rightarrow> string \<Rightarrow> 'f deploy_args \<Rightarrow> deploy_run \<Rightarrow> ('f, unit) op" where
  "deploy_start env name a r =
     op_bind (op_start_instance env name (deploy_request a) (dr_instance r) (dr_now r)) (\<lambda>(_, status).
     op_get (\<lambda>s.
       op_then (op_set (\<lambda>s. s\<lparr>sv_status := status\<rparr>)) (
       op_then create_run_service_task (
       op_then (persist_status env name)
         (if \<not> sd_overlap (da_desc a) then op_return ()
          else deploy_stop_old env name r (sv_running s) (sv_status s))))))"

definition deploy_inner ::
  "('f :: numeral) service_env \<Rightarrow> string \<Rightarrow> 'f deploy_args \<Rightarrow> deploy_run \<Rightarrow> ('f, unit) op" where
  "deploy_inner env name a r =
     op_then (op_act (deploy_prepare env a)) (
     op_then (deploy_stop env name a r) (
     op_then (op_act (run_scripts env ''predeploy'' 0 (sd_pre_deploy (da_desc a)) (script_env (da_extra a) (da_image a)))) (
     op_then (deploy_extract env a r) (deploy_start env name a r))))"

text \<open>After a success the backups are removed.\<close>

fun drop_backups :: "'f service_env \<Rightarrow> deploy_action list \<Rightarrow> ('f, unit) act" where
  "drop_backups env [] = act_return ()"
| "drop_backups env (ExtractFile path (Some backup) # as) =
     act_then (act_ignore (remove_file env backup)) (drop_backups env as)"
| "drop_backups env (_ # as) = drop_backups env as"

text \<open>After a failure the actions are taken back, the last one first.\<close>

definition restore_action ::
  "('f :: numeral) service_env \<Rightarrow> string \<Rightarrow> deploy_run \<Rightarrow> deploy_action \<Rightarrow> ('f, unit) op" where
  "restore_action env name r act =
     (case act of
        ExtractFile path backup \<Rightarrow>
          op_act (act_ignore (case backup of Some b \<Rightarrow> rename env b path | None \<Rightarrow> remove_file env path))
      | StopService \<Rightarrow>
          op_get (\<lambda>s. if st_enabled (sv_status s) then start_service env name (dr_restart r) (dr_now r) else op_return ())
      | StartPodmanImage container user \<Rightarrow>
          op_act (act_ignore (forward_command env user [''/usr/bin/podman'', ''kill'', container]))
      | CreateService \<Rightarrow> remove_service env name (dr_tend r) (dr_now r))"

fun restore_actions ::
  "('f :: numeral) service_env \<Rightarrow> string \<Rightarrow> deploy_run \<Rightarrow> deploy_action list \<Rightarrow> ('f, unit) op" where
  "restore_actions env name r [] = op_return ()"
| "restore_actions env name r (a # as) = op_then (restore_action env name r a) (restore_actions env name r as)"

definition deploy ::
  "('f :: numeral) service_env \<Rightarrow> string \<Rightarrow> 'f deploy_args \<Rightarrow> deploy_run \<Rightarrow> ('f, unit) op" where
  "deploy env name a r = (\<lambda>s.
     case deploy_inner env name a r (s\<lparr>sv_actions := []\<rparr>) of
       (None, s) \<Rightarrow> (None, s)
     | (Some (Inr _), s) \<Rightarrow> op_act (drop_backups env (sv_actions s)) s
     | (Some (Inl e), s) \<Rightarrow>
         op_then (op_act (sys env (Log ''Deployment failed 2, Restoring state''))) (
         op_then (restore_actions env name r (rev (sv_actions s)))
           (op_fail (Service_message ''Deployment failed, state restored''))) s)"

end
