(* ===== verification/Deploy_Files.thy ===== *)
theory Deploy_Files
  imports Services
begin

text \<open>
  What a deployment does to the files it extracts (\<open>deploy_inner\<close> and \<open>deploy\<close> of
  \<open>client_daemon_service.rs\<close>). A failed deployment puts files back as they were; directories it
  does not, and a directory can be deployed over another directory once only.
\<close>

section \<open>Moving entries\<close>

lemma file_op_Inr:
  "file_op env c f w = (Inr u, w') \<longleftrightarrow> (\<exists>fs. se_sys env (length (sw_calls w)) c \<and> f (sw_files w) = Some fs
     \<and> w' = w\<lparr>sw_calls := c # sw_calls w, sw_files := fs\<rparr>)"
  by (auto simp: file_op_def act_defs sys_def split: option.splits if_splits)

lemma file_op_Inl:
  "file_op env c f w = (Inl e, w') \<Longrightarrow> sw_files w' = sw_files w"
  by (auto simp: file_op_def act_defs sys_def split: option.splits if_splits)

text \<open>What a file operation leaves, when the system calls on files themselves go through.\<close>

definition files_work :: "'f service_env \<Rightarrow> bool" where
  "files_work env \<longleftrightarrow> (\<forall>n a b. se_sys env n (Rename a b) \<and> se_sys env n (Remove_file a))"

lemma file_op_files:
  "sw_files (snd (file_op env c f w))
     = (if se_sys env (length (sw_calls w)) c then (case f (sw_files w) of Some fs \<Rightarrow> fs | None \<Rightarrow> sw_files w)
        else sw_files w)"
  by (simp add: file_op_def act_defs sys_def split: option.splits)

lemma rename_cases:
  assumes "files_work env"
  shows "fst (rename env a b w) = (case fs_rename a b (sw_files w) of Some _ \<Rightarrow> Inr () | None \<Rightarrow> Inl (Sys_failed (Rename a b)))"
    and "sw_files (snd (rename env a b w)) = (case fs_rename a b (sw_files w) of Some fs \<Rightarrow> fs | None \<Rightarrow> sw_files w)"
  using assms by (simp_all add: rename_def file_op_def act_defs sys_def files_work_def split: option.splits)

text \<open>What \<open>replace_entry\<close> leaves: the action it notes and the files.\<close>

definition replaced ::
  "entry \<Rightarrow> string \<Rightarrow> string \<Rightarrow> (string \<rightharpoonup> entry) \<Rightarrow> deploy_action \<times> (string \<rightharpoonup> entry)" where
  "replaced x dst tmp fs =
     (let (backup, fs) = (case fs_rename dst tmp fs of Some fs' \<Rightarrow> (Some tmp, fs') | None \<Rightarrow> (None, fs))
      in (ExtractFile dst backup, (case fs_put x dst fs of Some fs' \<Rightarrow> fs' | None \<Rightarrow> fs)))"

lemma replace_entry_leaves:
  assumes "files_work env" "replace_entry env x dst tmp s = (r, s')"
  shows "replaced x dst tmp (sw_files (sv_world s)) = (a, fs) \<Longrightarrow>
    sv_actions s' = sv_actions s @ [a] \<and> sw_files (sv_world s') = fs \<and> r \<noteq> None"
proof -
  assume d: "replaced x dst tmp (sw_files (sv_world s)) = (a, fs)"
  obtain mr w where m: "rename env dst tmp (sv_world s) = (mr, w)" by fastforce
  obtain pr w2 where p: "file_op env (Rename ''extracted'' dst) (fs_put x dst) w = (pr, w2)" by fastforce
  have w2: "sw_files w2 = (case fs_put x dst (sw_files w) of Some fs \<Rightarrow> fs | None \<Rightarrow> sw_files w)"
    using file_op_files [of env "Rename ''extracted'' dst" "fs_put x dst" w] p assms(1) by (simp add: files_work_def)
  have "mr = (case fs_rename dst tmp (sw_files (sv_world s)) of Some _ \<Rightarrow> Inr () | None \<Rightarrow> Inl (Sys_failed (Rename dst tmp)))"
    "sw_files w = (case fs_rename dst tmp (sw_files (sv_world s)) of Some fs \<Rightarrow> fs | None \<Rightarrow> sw_files (sv_world s))"
    using rename_cases [OF assms(1), of dst tmp "sv_world s"] m by simp_all
  then show ?thesis
    using d m p w2 assms(2)
    by (auto simp: replaced_def replace_entry_def op_defs act_is_ok_def split: option.splits sum.splits)
qed

section \<open>Taking extractions back\<close>

fun take_back :: "deploy_action \<Rightarrow> (string \<rightharpoonup> entry) \<Rightarrow> (string \<rightharpoonup> entry)" where
  "take_back (ExtractFile path (Some backup)) fs = (case fs_rename backup path fs of Some fs' \<Rightarrow> fs' | None \<Rightarrow> fs)"
| "take_back (ExtractFile path None) fs = (case fs_remove_file path fs of Some fs' \<Rightarrow> fs' | None \<Rightarrow> fs)"
| "take_back _ fs = fs"

definition plain :: "string \<Rightarrow> bool" where
  "plain p \<longleftrightarrow> \<not> names_folder p"

lemma plain_key [simp]: "plain p \<Longrightarrow> fs_key p = p"
  by (simp add: plain_def fs_key_def names_folder_def ends_with_def split: option.splits)

lemma replaced_taken_back:
  assumes "replaced (File x) dst tmp fs = (a, fs')" "plain dst" "plain tmp" "dst \<noteq> tmp"
    and "fs tmp = None" "\<nexists>c. fs dst = Some (Folder c)"
  shows "take_back a fs' = fs" and "\<And>p. p \<notin> {dst, tmp} \<Longrightarrow> fs' p = fs p"
proof -
  have n: "\<not> names_folder dst" "\<not> names_folder tmp" using assms(2,3) by (simp_all add: plain_def)
  have "a = ExtractFile dst None \<and> fs dst = None \<and> fs' = fs(dst \<mapsto> File x)
      \<or> (\<exists>c. fs dst = Some (File c) \<and> a = ExtractFile dst (Some tmp) \<and> fs' = fs(dst \<mapsto> File x, tmp \<mapsto> File c))"
  proof (cases "fs dst")
    case None
    with assms(1,2) n show ?thesis by (simp add: replaced_def fs_rename_def fs_put_def)
  next
    case (Some e)
    with assms(6) obtain c where "fs dst = Some (File c)" by (cases e) auto
    with assms n show ?thesis by (auto simp: replaced_def fs_rename_def fs_put_def fun_upd_twist)
  qed
  note e = this
  show "take_back a fs' = fs"
    using e assms(2-5) n by (auto simp: fs_rename_def fs_put_def fs_remove_file_def fun_eq_iff)
  show "fs' p = fs p" if "p \<notin> {dst, tmp}" for p
    using e that by auto
qed

section \<open>What keeps the files\<close>

text \<open>Everything but the operations on files leaves the files alone.\<close>

definition keeps_files :: "('f, 'a) act \<Rightarrow> bool" where
  "keeps_files m \<longleftrightarrow> (\<forall>w. sw_files (snd (m w)) = sw_files w)"

named_theorems files_kept

lemma keeps_files_basic [files_kept]:
  "keeps_files (act_return v)" "keeps_files (act_fail e)" "keeps_files (sys env c)"
  "keeps_files (put_fd env key fd)" "keeps_files (close_fd env key)" "keeps_files (add_handler key)"
  "keeps_files (signal_process env key sg)" "keeps_files (has_fd env key)" "keeps_files (spawn_process env sp)"
  "keeps_files (list_fds env p)" "keeps_files (list_processes env p)"
  by (auto simp: keeps_files_def act_defs sys_def put_fd_def close_fd_def add_handler_def signal_process_def
      has_fd_def spawn_process_def list_fds_def list_processes_def query_def Let_def split: prod.splits sum.splits)

lemma keeps_files_bind [files_kept]:
  "keeps_files m \<Longrightarrow> (\<And>v. keeps_files (f v)) \<Longrightarrow> keeps_files (act_bind m f)"
  by (auto simp: keeps_files_def act_bind_def split: prod.splits sum.splits) (metis snd_conv)+

lemma keeps_files_then [files_kept]:
  "keeps_files m \<Longrightarrow> keeps_files n \<Longrightarrow> keeps_files (act_then m n)"
  by (simp add: act_then_def keeps_files_bind)

lemma keeps_files_ignore [files_kept]: "keeps_files m \<Longrightarrow> keeps_files (act_ignore m)"
  by (simp add: keeps_files_def act_ignore_def)

lemma keeps_files_if [files_kept]: "keeps_files m \<Longrightarrow> keeps_files n \<Longrightarrow> keeps_files (if b then m else n)"
  by simp

lemma keeps_files_when [files_kept]: "keeps_files m \<Longrightarrow> keeps_files (act_when b m)"
  by (simp add: act_when_def keeps_files_basic)

lemma keeps_files_option [files_kept]:
  "keeps_files a \<Longrightarrow> (\<And>x. keeps_files (b x)) \<Longrightarrow> keeps_files (case m of None \<Rightarrow> a | Some x \<Rightarrow> b x)"
  by (simp split: option.split)

lemma keeps_files_prod [files_kept]:
  "(\<And>x y. keeps_files (b x y)) \<Longrightarrow> keeps_files (case m of (x, y) \<Rightarrow> b x y)"
  by (simp split: prod.split)

lemma keeps_files_all [files_kept]: "(\<And>x. keeps_files (f x)) \<Longrightarrow> keeps_files (act_all f xs)"
  by (induction xs) (simp_all add: files_kept)

lemma keeps_files_let [files_kept]: "(\<And>x. keeps_files (f x)) \<Longrightarrow> keeps_files (Let v f)"
  by simp

lemma keeps_files_command [files_kept]: "keeps_files (command env user argv)"
  by (simp add: command_def keeps_files_def act_defs sys_def)

lemma keeps_filesD: "keeps_files m \<Longrightarrow> m w = (r, w') \<Longrightarrow> sw_files w' = sw_files w"
  by (metis keeps_files_def snd_conv)

lemma keeps_files_user [files_kept]:
  "keeps_files (podman_user env user)" "keeps_files (check_user env user)" "keeps_files (chown_user env user path)"
  by (simp_all add: podman_user_def check_user_def chown_user_def keeps_files_def act_defs sys_def split: option.splits)

lemma keeps_files_all_keys [files_kept]: "keeps_files (close_all env ks)" "keeps_files (kill_all env ks)"
  by (simp_all add: keeps_files_def)

lemma keeps_files_listed [files_kept]:
  "keeps_files m \<Longrightarrow> (\<And>ks. keeps_files (f ks)) \<Longrightarrow> keeps_files (if_listed m f)"
  unfolding keeps_files_def if_listed_def by (auto split: prod.splits sum.splits) (metis snd_conv)+

lemma keeps_files_cleanup_instance [files_kept]: "keeps_files (cleanup_instance env name i)"
  by (simp add: cleanup_instance_def files_kept)

lemma keeps_files_containers [files_kept]: "keeps_files (kill_containers env user ls)"
  by (induction ls) (simp_all add: files_kept)

lemma keeps_files_cleanup [files_kept]: "keeps_files (cleanup env name user)"
proof -
  have "keeps_files (cleanup_containers env name user)"
    using keeps_files_containers [of env user] keeps_filesD [OF keeps_files_command]
    by (auto simp: cleanup_containers_def keeps_files_def split: prod.splits sum.splits)
  then show ?thesis by (simp add: cleanup_def cleanup_rest_def files_kept)
qed

lemma keeps_files_kills [files_kept]:
  "keeps_files (podman_kill env user pod opts)" "keeps_files (stop_kill env status key)"
  by (simp_all add: podman_kill_def stop_kill_def files_kept)

lemma keeps_files_stop_new [files_kept]: "keeps_files (stop_new env task status overlap now)"
  by (simp add: stop_new_def files_kept Let_def split: option.split sum.split)

text \<open>What the kill and the clean-up of an instance keep, a stop keeps.\<close>

lemma stop_loop_invariant:
  assumes "\<And>st key w. P w \<Longrightarrow> P (snd (stop_kill env st key w))"
    and "\<And>i w. P w \<Longrightarrow> P (snd (cleanup_instance env name i w))"
    and "P w" "stop_loop env name deadline ours grace (s, status, w, evs) = (r, s', status', w', evs')"
  shows "P w'"
  using assms(3,4)
proof (induction "length evs" arbitrary: s status w evs rule: less_induct)
  case less
  note unfold = stop_loop.simps [of env name deadline _ grace s status w evs]
  obtain p i st1 evs1 where p: "process_service_instance (se_ms env) (stop_args deadline) evs (stp_instance s) status
      = (p, i, st1, evs1)" by (metis surj_pair)
  have finish: "stop_finish env name (s1, st1, w1, evs1) = (r, s', status', w', evs') \<Longrightarrow> P w1 \<Longrightarrow> P w'" for s1 w1
    using assms(2) [of w1 "st_instance_id (st1\<lparr>st_state := Stopped\<rparr>)"]
    by (auto simp: stop_finish_def Let_def split: prod.splits sum.splits)
  show ?case
  proof (cases "\<exists>y. p = Some (Inr y) \<and> y \<notin> {Finished, Canceled, Is_ready} \<and> \<not> ours \<and> stp_state s \<noteq> Sent9")
    case True
    then have l: "length evs1 < length evs" using process_consumes p by blast
    obtain k w1 where k: "stop_kill env st1 (stp_process_key s) w = (k, w1)" by fastforce
    have w1: "P w1" using assms(1) [OF less.prems(1)] k by (metis snd_conv)
    show ?thesis
      using True less.prems(2) k w1 less.hyps [OF l w1] by (cases k) (auto simp: unfold p Let_def)
  next
    case False
    with less.prems finish show ?thesis
      by (auto simp: unfold p Let_def split: option.splits sum.splits if_splits)
  qed
qed

lemma stop_run_files:
  assumes "stop_run env name timeout grace (s, status, w, evs) = (r, s', status', w', evs')"
  shows "sw_files w' = sw_files w"
proof -
  have l: "sw_files w' = sw_files w" if "stop_loop env name d ours grace (s, status, w, evs) = (r, s', status', w', evs')" for d ours
    using that by (rule stop_loop_invariant [where P = "\<lambda>v. sw_files v = sw_files w", rotated 3])
      (simp_all add: keeps_files_kills(2) [unfolded keeps_files_def]
        keeps_files_cleanup_instance [unfolded keeps_files_def])
  with assms show ?thesis by (auto simp: stop_run_def split: option.splits if_splits)
qed

section \<open>Scripts and starts keep the files\<close>

lemma keeps_files_script [files_kept]: "keeps_files (run_script env name src envs)"
proof -
  have "keeps_files (\<lambda>w. act_then (sys env c) (if P (length (sw_calls w)) then act_return () else act_fail e) w)" for c P e
    by (simp add: keeps_files_def act_defs sys_def)
  note k = this
  show ?thesis unfolding run_script_def
    by (intro files_kept k)
qed

lemma keeps_files_scripts [files_kept]: "keeps_files (run_scripts env kind idx srcs envs)"
  by (induction srcs arbitrary: idx) (simp_all add: files_kept)

lemma keeps_files_puts [files_kept]: "keeps_files (puts env kfds)"
  by (induction env kfds rule: puts.induct) (simp_all add: files_kept)

lemma keeps_files_prepare [files_kept]: "keeps_files (start_prepare env d extra img i)"
  by (simp add: start_prepare_def service_cgroup_def metrics_dir_def files_kept)

lemma keeps_files_open [files_kept]: "keeps_files (open_socket env key b)"
  by (cases b) (simp_all add: files_kept)

lemma bind_sockets_files: "bind_sockets env name bs w = (r, keys, w') \<Longrightarrow> sw_files w' = sw_files w"
proof (induction bs arbitrary: r keys w w')
  case (Cons b bs)
  obtain h w1 where h: "has_fd env (bind_key b name) w = (h, w1)" by fastforce
  obtain o' w2 where o: "open_socket env (bind_key b name) b w1 = (o', w2)" by fastforce
  have "sw_files w1 = sw_files w" "sw_files w2 = sw_files w1"
    using keeps_filesD [OF keeps_files_basic(8) h] keeps_filesD [OF keeps_files_open o] by auto
  with Cons h o show ?case by (auto simp: Let_def split: sum.splits bool.splits prod.splits)
qed simp

lemma keeps_files_mounts [files_kept]: "keeps_files (pod_mounts env ms)"
proof (induction ms)
  case (Cons m ms)
  have a: "keeps_files (act_bind (pod_mounts env ms) (\<lambda>args. act_return (''-v'' # v # args)))" for v
    by (rule keeps_files_bind [OF Cons]) (simp add: files_kept)
  have b: "keeps_files (act_then (log_stdout env t) (pod_mounts env ms))" for t
    by (rule keeps_files_then [OF _ Cons]) (simp add: files_kept)
  show ?case using a [unfolded keeps_files_def, rule_format] b [unfolded keeps_files_def, rule_format]
    by (auto simp: keeps_files_def Let_def split: prod.split)
qed (simp add: files_kept)

lemma keeps_files_launch [files_kept]: "keeps_files (start_launch env name d extra img i fds)"
proof -
  have "keeps_files (pod_args env name d extra img i)"
    by (simp add: pod_args_def files_kept)
  then show ?thesis by (simp add: start_launch_def files_kept)
qed

lemma start_wait_files:
  "start_wait env d now key inst (kept, w, evs) = (r, kept', w', evs') \<Longrightarrow> sw_files w' = sw_files w"
  by (auto simp: start_wait_def act_defs sys_def signal_process_def query_def
      split: option.splits prod.splits sum.splits instance_result.splits if_splits)

lemma start_inner_files:
  assumes "start_instance_inner env name rq i now (kept, w, evs) = (r, keys, kept', w', evs')"
  shows "sw_files w' = sw_files w"
proof -
  let ?d = "sr_desc rq"
  obtain pr w1 where p: "start_prepare env ?d (sr_extra rq) (sr_image rq) i w = (pr, w1)" by fastforce
  obtain br ks w2 where b: "bind_sockets env name (sd_bind ?d) w1 = (br, ks, w2)" using prod_cases3 by blast
  have l: "start_launch env name ?d (sr_extra rq) (sr_image rq) i fds w2 = (x, v') \<Longrightarrow> sw_files v' = sw_files w2" for fds x v'
    using keeps_filesD [OF keeps_files_launch] .
  have s: "run_scripts env ''poststart'' 0 srcs envs v = (x, v') \<Longrightarrow> sw_files v' = sw_files v" for srcs envs v x v'
    using keeps_filesD [OF keeps_files_scripts] .
  from keeps_filesD [OF keeps_files_prepare p] bind_sockets_files [OF b] assms
  show ?thesis
    by (auto simp: start_instance_inner_def Let_def p b
        split: sum.splits option.splits prod.splits dest!: start_wait_files l s)
qed

lemma start_instance_files:
  assumes "start_instance env name rq i now (kept, w, evs) = (r, kept', w', evs')"
  shows "sw_files w' = sw_files w"
proof -
  obtain r1 keys k1 w1 e1 where s: "start_instance_inner env name rq i now (kept, w, evs) = (r1, keys, k1, w1, e1)"
    using prod_cases5 by blast
  have "keeps_files (start_failed env name i keys)" by (simp add: start_failed_def files_kept)
  then have "sw_files (snd (start_failed env name i keys w1)) = sw_files w1" by (simp add: keeps_files_def)
  with start_inner_files [OF s] assms s show ?thesis
    by (auto simp: start_instance_def split: option.splits sum.splits)
qed

section \<open>Operations that keep the files and the actions noted\<close>

definition op_keeps :: "('f, 'a) op \<Rightarrow> bool" where
  "op_keeps m \<longleftrightarrow> (\<forall>s. sw_files (sv_world (snd (m s))) = sw_files (sv_world s)
     \<and> sv_actions (snd (m s)) = sv_actions s)"

lemma op_keepsD:
  "op_keeps m \<Longrightarrow> m s = (r, s') \<Longrightarrow> sw_files (sv_world s') = sw_files (sv_world s) \<and> sv_actions s' = sv_actions s"
  by (metis op_keeps_def snd_conv)

named_theorems ops_kept

lemma op_keeps_basic [ops_kept]:
  "op_keeps (op_return v)" "op_keeps (op_fail e)"
  by (simp_all add: op_keeps_def op_defs)

lemma op_keeps_act [ops_kept]: "keeps_files m \<Longrightarrow> op_keeps (op_act m)"
  by (auto simp: op_keeps_def op_act_def keeps_files_def split: prod.split) (metis snd_conv)

lemma op_keeps_bind [ops_kept]: "op_keeps m \<Longrightarrow> (\<And>v. op_keeps (f v)) \<Longrightarrow> op_keeps (op_bind m f)"
  unfolding op_keeps_def op_bind_def
  by (auto split: prod.splits option.splits sum.splits) (metis snd_conv)+

lemma op_keeps_then [ops_kept]: "op_keeps m \<Longrightarrow> op_keeps n \<Longrightarrow> op_keeps (op_then m n)"
  by (simp add: op_then_def op_keeps_bind)

lemma op_keeps_get [ops_kept]: "(\<And>s. op_keeps (f s)) \<Longrightarrow> op_keeps (op_get f)"
  by (simp add: op_keeps_def op_get_def)

lemma op_keeps_set [ops_kept]:
  "(\<And>s. sv_world (f s) = sv_world s \<and> sv_actions (f s) = sv_actions s) \<Longrightarrow> op_keeps (op_set f)"
  by (simp add: op_keeps_def op_set_def)

lemma op_keeps_if [ops_kept]: "op_keeps m \<Longrightarrow> op_keeps n \<Longrightarrow> op_keeps (if b then m else n)"
  by simp

lemma op_keeps_option [ops_kept]:
  "op_keeps a \<Longrightarrow> (\<And>x. op_keeps (b x)) \<Longrightarrow> op_keeps (case m of None \<Rightarrow> a | Some x \<Rightarrow> b x)"
  by (simp split: option.split)

lemma op_keeps_prod [ops_kept]: "(\<And>x y. op_keeps (b x y)) \<Longrightarrow> op_keeps (case m of (x, y) \<Rightarrow> b x y)"
  by (simp split: prod.split)

lemma op_keeps_start [ops_kept]: "op_keeps (op_start_instance env name rq i now)"
  by (auto simp: op_keeps_def op_start_instance_def split: prod.split dest: start_instance_files)

lemma op_keeps_stop [ops_kept]: "op_keeps (op_stop_run env name timeout grace st)"
  by (auto simp: op_keeps_def op_stop_run_def split: prod.split dest: stop_run_files)

lemma op_keeps_rows [ops_kept]:
  "keeps_files (act_then (sys env c) (\<lambda>w. (Inr u, w\<lparr>sw_rows := f w\<rparr>)))"
  by (simp add: keeps_files_def act_defs sys_def)

lemma op_keeps_status [ops_kept]: "op_keeps (persist_status env name)"
  by (simp add: persist_status_def ops_kept)

lemma op_keeps_task [ops_kept]: "op_keeps create_run_service_task" "op_keeps (op_set (end_task tend))"
  by (auto simp: create_run_service_task_def end_task_def intro!: ops_kept split: sum.split)

lemma op_keeps_cleanup [ops_kept]: "op_keeps (op_cleanup env name)"
  by (simp add: op_cleanup_def ops_kept files_kept)

lemma op_keeps_stop_inner [ops_kept]: "op_keeps (stop_inner env name tend now)"
  unfolding stop_inner_def by (intro ops_kept files_kept)

lemma op_keeps_start_service [ops_kept]: "op_keeps (start_service env name i now)"
  unfolding start_service_def by (intro ops_kept) simp_all

lemma op_keeps_remove_service [ops_kept]: "op_keeps (remove_service env name tend now)"
  unfolding remove_service_def by (intro ops_kept)

lemma keeps_files_forward [files_kept]:
  "keeps_files (forward_command env user argv)" "keeps_files (must_succeed env user argv)"
  by (simp_all add: forward_command_def must_succeed_def files_kept)

lemma keeps_files_deploy_prepare [files_kept]: "keeps_files (deploy_prepare env a)"
  by (simp add: deploy_prepare_def pull_image_def files_kept Let_def)

lemma op_keeps_stop_old [ops_kept]: "op_keeps (deploy_stop_old env name r b old)"
proof -
  have "keeps_files (log_stdout env t)" for t by (rule files_kept)
  then show ?thesis
    using keeps_files_stop_new [THEN keeps_filesD] keeps_filesD [OF keeps_files_basic(3)]
    by (fastforce simp: op_keeps_def deploy_stop_old_def
        split: prod.split sum.split option.split bool.split dest: stop_run_files)
qed

lemma op_keeps_deploy_start [ops_kept]: "op_keeps (deploy_start env name a r)"
  unfolding deploy_start_def by (intro ops_kept) simp_all

section \<open>A failed deployment puts files back\<close>

lemma drop_backups_Inr: "fst (drop_backups env as w) = Inr ()"
  by (induction env as arbitrary: w rule: drop_backups.induct) (simp_all add: act_defs)

definition is_extract :: "deploy_action \<Rightarrow> bool" where
  "is_extract a = (case a of ExtractFile _ _ \<Rightarrow> True | _ \<Rightarrow> False)"

lemma take_back_other: "\<not> is_extract a \<Longrightarrow> take_back a fs = fs"
  by (cases a) (simp_all add: is_extract_def)

lemma take_back_others: "\<forall>a \<in> set as. \<not> is_extract a \<Longrightarrow> fold take_back as fs = fs"
  by (induction as) (simp_all add: take_back_other)

text \<open>The actions noted end with the extractions, and these taken back give the files before.\<close>

definition undone_by :: "deploy_action list \<Rightarrow> (string \<rightharpoonup> entry) \<Rightarrow> (string \<rightharpoonup> entry) \<Rightarrow> bool" where
  "undone_by as fs' fs \<longleftrightarrow> (\<exists>as1 as2. as = as1 @ as2 \<and> (\<forall>a \<in> set as1. \<not> is_extract a) \<and> (\<forall>a \<in> set as2. is_extract a)
     \<and> fold take_back (rev as2) fs' = fs)"

definition reverts :: "(string \<rightharpoonup> entry) \<Rightarrow> ('f, 'a) op \<Rightarrow> bool" where
  "reverts fs m \<longleftrightarrow> (\<forall>s. sw_files (sv_world s) = fs \<longrightarrow>
     (\<exists>as. sv_actions (snd (m s)) = sv_actions s @ as \<and> undone_by as (sw_files (sv_world (snd (m s)))) fs))"

definition op_still :: "('f, 'a) op \<Rightarrow> bool" where
  "op_still m \<longleftrightarrow> (\<forall>s. sw_files (sv_world (snd (m s))) = sw_files (sv_world s)
     \<and> (\<exists>as. sv_actions (snd (m s)) = sv_actions s @ as \<and> (\<forall>a \<in> set as. \<not> is_extract a)))"

lemma still_keeps: "op_keeps m \<Longrightarrow> op_still m"
  by (auto simp: op_still_def op_keeps_def)

lemma undone_by_others: "\<forall>a \<in> set as. \<not> is_extract a \<Longrightarrow> undone_by as fs fs"
  unfolding undone_by_def by (intro exI [of _ as] exI [of _ "[]"]) simp

lemma reverts_still: "op_still m \<Longrightarrow> reverts fs m"
  unfolding reverts_def op_still_def
proof (intro allI impI)
  fix s :: "'a svc"
  assume m: "\<forall>s. sw_files (sv_world (snd (m s))) = sw_files (sv_world s)
     \<and> (\<exists>as. sv_actions (snd (m s)) = sv_actions s @ as \<and> (\<forall>a \<in> set as. \<not> is_extract a))"
    and fs: "sw_files (sv_world s) = fs"
  then obtain as where "sv_actions (snd (m s)) = sv_actions s @ as" "\<forall>a \<in> set as. \<not> is_extract a" by blast
  with m fs undone_by_others [OF this(2)] show "\<exists>as. sv_actions (snd (m s)) = sv_actions s @ as
      \<and> undone_by as (sw_files (sv_world (snd (m s)))) fs" by auto
qed

lemma undone_by_after: "\<forall>a \<in> set as. \<not> is_extract a \<Longrightarrow> undone_by bs fs' fs \<Longrightarrow> undone_by (as @ bs) fs' fs"
proof -
  assume a: "\<forall>a \<in> set as. \<not> is_extract a" and "undone_by bs fs' fs"
  then obtain cs ds where "bs = cs @ ds" "\<forall>a \<in> set cs. \<not> is_extract a" "\<forall>a \<in> set ds. is_extract a"
    "fold take_back (rev ds) fs' = fs" by (auto simp: undone_by_def)
  with a show ?thesis unfolding undone_by_def by (intro exI [of _ "as @ cs"] exI [of _ ds]) auto
qed

lemma still_then_reverts:
  assumes "op_still m" "reverts fs n"
  shows "reverts fs (op_then m n)"
  unfolding reverts_def
proof (intro allI impI)
  fix s :: "'a svc" assume fs: "sw_files (sv_world s) = fs"
  obtain q s1 where m: "m s = (q, s1)" by fastforce
  from assms(1) m fs obtain as where as: "sv_actions s1 = sv_actions s @ as" "\<forall>a \<in> set as. \<not> is_extract a"
    "sw_files (sv_world s1) = fs" by (metis op_still_def snd_conv)
  from assms(2) as(3) obtain bs where bs: "sv_actions (snd (n s1)) = sv_actions s1 @ bs"
    "undone_by bs (sw_files (sv_world (snd (n s1)))) fs" unfolding reverts_def by blast
  have "snd (op_then m n s) = snd (n s1) \<or> snd (op_then m n s) = s1"
    using m by (auto simp: op_then_def op_bind_def split: option.split sum.split)
  then show "\<exists>as. sv_actions (snd (op_then m n s)) = sv_actions s @ as
      \<and> undone_by as (sw_files (sv_world (snd (op_then m n s)))) fs"
  proof
    assume r: "snd (op_then m n s) = snd (n s1)"
    show ?thesis unfolding r
      using as bs undone_by_after [OF as(2) bs(2)] by (intro exI [of _ "as @ bs"]) simp
  next
    assume r: "snd (op_then m n s) = s1"
    show ?thesis unfolding r using as undone_by_others [OF as(2)] by blast
  qed
qed

lemma reverts_then_keeps:
  assumes "reverts fs m" "op_keeps n"
  shows "reverts fs (op_then m n)"
  unfolding reverts_def
proof (intro allI impI)
  fix s :: "'a svc" assume fs: "sw_files (sv_world s) = fs"
  obtain q s1 where m: "m s = (q, s1)" by fastforce
  from assms(1) m fs obtain as where as: "sv_actions s1 = sv_actions s @ as"
    "undone_by as (sw_files (sv_world s1)) fs" unfolding reverts_def by (metis snd_conv)
  have "snd (op_then m n s) = snd (n s1) \<or> snd (op_then m n s) = s1"
    using m by (auto simp: op_then_def op_bind_def split: option.split sum.split)
  moreover have "sv_actions (snd (n s1)) = sv_actions s1" "sw_files (sv_world (snd (n s1))) = sw_files (sv_world s1)"
    using assms(2) by (simp_all add: op_keeps_def)
  ultimately show "\<exists>as. sv_actions (snd (op_then m n s)) = sv_actions s @ as
      \<and> undone_by as (sw_files (sv_world (snd (op_then m n s)))) fs"
    using as by (intro exI [of _ as]) auto
qed

text \<open>Only files are extracted, over files or nothing, and no backup is in the way of another entry.\<close>

definition backup_of :: "extract_file \<Rightarrow> string" where
  "backup_of f = (case rsplit_once ''/'' (ef_dst f) of
     Some (dir, name) \<Rightarrow> backup_name dir name | None \<Rightarrow> backup_name ''.'' (ef_dst f))"

definition extract_safe :: "'f service_env \<Rightarrow> string \<Rightarrow> (string \<rightharpoonup> entry) \<Rightarrow> extract_file \<Rightarrow> bool" where
  "extract_safe env img fs f \<longleftrightarrow> plain (ef_dst f) \<and> (\<exists>c. se_extract env img (ef_src f) = File c)
     \<and> fs (backup_of f) = None \<and> (\<nexists>c. fs (ef_dst f) = Some (Folder c))"

definition files_only :: "'f service_env \<Rightarrow> 'f deploy_args \<Rightarrow> (string \<rightharpoonup> entry) \<Rightarrow> bool" where
  "files_only env a fs \<longleftrightarrow> (case da_image a of None \<Rightarrow> True | Some img \<Rightarrow>
     (let xs = sd_extract_files (da_desc a)
      in (\<forall>f \<in> set xs. extract_safe env img fs f) \<and> distinct (map ef_dst xs @ map backup_of xs)))"

lemma plain_backup: "plain (backup_of f)"
  by (auto simp: plain_def names_folder_def ends_with_def backup_of_def backup_name_def strip_suffix_Some_iff
      split: option.splits prod.splits)

lemma extract_one_plain:
  assumes "plain (ef_dst f)"
  shows "extract_one env user img container f =
    (let name = (case rsplit_once ''/'' (ef_dst f) of Some p \<Rightarrow> snd p | None \<Rightarrow> ef_dst f)
     in if name \<in> {[], ''..''} \<or> ef_dst f = ''.'' then op_fail (Service_message ''Missing name'')
        else op_then (op_act (must_succeed env user [''/usr/bin/podman'', ''cp'', container @ '':'' @ ef_src f, ''tempdir/'' @ name]))
               (replace_entry env (se_extract env img (ef_src f)) (ef_dst f) (backup_of f)))"
  using assms by (auto simp: extract_one_def backup_of_def plain_def names_folder_def ends_with_def Let_def
      split: option.splits prod.splits)

lemma extract_one_undone:
  assumes "files_work env" "extract_safe env img (sw_files (sv_world s)) f" "ef_dst f \<noteq> backup_of f"
    and "extract_one env user img container f s = (r, s')"
  shows "\<exists>as. sv_actions s' = sv_actions s @ as \<and> (\<forall>a \<in> set as. is_extract a)
    \<and> fold take_back (rev as) (sw_files (sv_world s')) = sw_files (sv_world s)
    \<and> (\<forall>p. p \<notin> {ef_dst f, backup_of f} \<longrightarrow> sw_files (sv_world s') p = sw_files (sv_world s) p)"
proof -
  from assms(2) obtain c where safe: "plain (ef_dst f)" "se_extract env img (ef_src f) = File c"
    "sw_files (sv_world s) (backup_of f) = None" "\<nexists>c. sw_files (sv_world s) (ef_dst f) = Some (Folder c)"
    by (auto simp: extract_safe_def)
  define name where "name = (case rsplit_once ''/'' (ef_dst f) of Some p \<Rightarrow> snd p | None \<Rightarrow> ef_dst f)"
  let ?cp = "op_act (must_succeed env user [''/usr/bin/podman'', ''cp'', container @ '':'' @ ef_src f, ''tempdir/'' @ name]) :: ('a, unit) op"
  obtain q s1 where cp: "?cp s = (q, s1)" by fastforce
  have "op_keeps ?cp" by (intro ops_kept files_kept)
  from op_keepsD [OF this cp] have s1: "sw_files (sv_world s1) = sw_files (sv_world s)" "sv_actions s1 = sv_actions s" by simp_all
  obtain a fs where d: "replaced (File c) (ef_dst f) (backup_of f) (sw_files (sv_world s)) = (a, fs)" by fastforce
  note taken = replaced_taken_back [OF d safe(1) plain_backup assms(3) safe(3,4)]
  have ex: "is_extract a" using d by (auto simp: replaced_def is_extract_def Let_def split: prod.splits)
  consider "s' = s" | "s' = s1" | "replace_entry env (File c) (ef_dst f) (backup_of f) s1 = (r, s')"
    using assms(4) cp safe(2) by (auto simp: extract_one_plain [OF safe(1)] name_def [symmetric] Let_def
        op_fail_def op_then_def op_bind_def split: if_splits option.splits sum.splits)
  then show ?thesis
  proof cases
    case 3
    from replace_entry_leaves [OF assms(1) 3] d s1 have "sv_actions s' = sv_actions s @ [a]" "sw_files (sv_world s') = fs" by simp_all
    with taken ex show ?thesis by (intro exI [of _ "[a]"]) simp
  qed (use s1 in \<open>auto intro!: exI [of _ "[]"]\<close>)
qed

lemma extract_files_undone:
  assumes "files_work env" "\<forall>f \<in> set xs. extract_safe env img (sw_files (sv_world s)) f"
    and "distinct (map ef_dst xs @ map backup_of xs)" "extract_files env user img container xs s = (r, s')"
  shows "\<exists>as. sv_actions s' = sv_actions s @ as \<and> (\<forall>a \<in> set as. is_extract a)
    \<and> fold take_back (rev as) (sw_files (sv_world s')) = sw_files (sv_world s)"
  using assms(2-4)
proof (induction xs arbitrary: s)
  case Nil
  then show ?case by (auto simp: op_return_def)
next
  case (Cons f xs)
  obtain q s1 where one: "extract_one env user img container f s = (q, s1)" by fastforce
  from Cons.prems(1,2) extract_one_undone [OF assms(1) _ _ one] obtain as where as:
    "sv_actions s1 = sv_actions s @ as" "\<forall>a \<in> set as. is_extract a"
    "fold take_back (rev as) (sw_files (sv_world s1)) = sw_files (sv_world s)"
    "\<forall>p. p \<notin> {ef_dst f, backup_of f} \<longrightarrow> sw_files (sv_world s1) p = sw_files (sv_world s) p" by auto
  show ?case
  proof (cases "\<exists>u. q = Some (Inr u)")
    case True
    with one Cons.prems(3) have rest: "extract_files env user img container xs s1 = (r, s')"
      by (auto simp: op_then_def op_bind_def)
    have "\<forall>g \<in> set xs. extract_safe env img (sw_files (sv_world s1)) g"
    proof
      fix g assume g: "g \<in> set xs"
      have "ef_dst g \<notin> {ef_dst f, backup_of f}" "backup_of g \<notin> {ef_dst f, backup_of f}"
        using Cons.prems(2) g by (auto simp: image_iff)
      with as(4) Cons.prems(1) g show "extract_safe env img (sw_files (sv_world s1)) g"
        by (simp add: extract_safe_def)
    qed
    with Cons.IH [OF _ _ rest] Cons.prems(2) obtain bs where
      "sv_actions s' = sv_actions s1 @ bs" "\<forall>a \<in> set bs. is_extract a"
      "fold take_back (rev bs) (sw_files (sv_world s')) = sw_files (sv_world s1)" by auto
    with as show ?thesis by (intro exI [of _ "as @ bs"]) auto
  next
    case False
    with one Cons.prems(3) have "s' = s1"
      by (auto simp: op_then_def op_bind_def split: option.splits sum.splits)
    with as show ?thesis by auto
  qed
qed

lemma drop_backups_Inl: "drop_backups env as w \<noteq> (Inl e, w')"
  using drop_backups_Inr [of env as w] by auto

lemma reverts_keeps: "op_keeps m \<Longrightarrow> reverts fs m"
  by (simp add: reverts_still still_keeps)

lemma still_push: "\<not> is_extract a \<Longrightarrow> op_still (push_action a)"
  by (simp add: op_still_def push_action_def op_set_def)

lemma still_then:
  assumes "op_still m" "op_still n"
  shows "op_still (op_then m n)"
  unfolding op_still_def
proof (intro allI conjI)
  fix s :: "'a svc"
  obtain q s1 where m: "m s = (q, s1)" by fastforce
  have r: "snd (op_then m n s) = snd (n s1) \<or> snd (op_then m n s) = s1"
    using m by (auto simp: op_then_def op_bind_def split: option.split sum.split)
  from assms(1) m obtain as where as: "sv_actions s1 = sv_actions s @ as" "\<forall>a \<in> set as. \<not> is_extract a"
    "sw_files (sv_world s1) = sw_files (sv_world s)" by (metis op_still_def snd_conv)
  from assms(2) obtain bs where bs: "sv_actions (snd (n s1)) = sv_actions s1 @ bs" "\<forall>a \<in> set bs. \<not> is_extract a"
    "sw_files (sv_world (snd (n s1))) = sw_files (sv_world s1)" unfolding op_still_def by blast
  from r as(3) bs(3) show "sw_files (sv_world (snd (op_then m n s))) = sw_files (sv_world s)" by auto
  from r show "\<exists>as. sv_actions (snd (op_then m n s)) = sv_actions s @ as \<and> (\<forall>a \<in> set as. \<not> is_extract a)"
  proof
    assume r: "snd (op_then m n s) = snd (n s1)"
    from as bs show ?thesis unfolding r by (intro exI [of _ "as @ bs"]) auto
  next
    assume r: "snd (op_then m n s) = s1"
    from as show ?thesis unfolding r by blast
  qed
qed

lemma still_get: "(\<And>s. op_still (f s)) \<Longrightarrow> op_still (op_get f)"
  by (simp add: op_still_def op_get_def)

lemma still_deploy_stop: "op_still (deploy_stop env name a r)"
proof -
  have p: "op_still (push_action CreateService :: ('a, unit) op)" "op_still (push_action StopService :: ('a, unit) op)"
    by (simp_all add: still_push is_extract_def)
  have k: "op_still (op_return () :: ('a, unit) op)" "op_still (stop_inner env name (dr_tend r) (dr_now r))"
    by (simp_all add: still_keeps ops_kept)
  have c: "op_still (case st of Stopped \<Rightarrow> op_return () | Stopping \<Rightarrow> op_return () | New \<Rightarrow> push_action CreateService
      | _ \<Rightarrow> op_then (stop_inner env name (dr_tend r) (dr_now r)) (push_action StopService))" for st
    by (cases st) (simp_all add: p k still_then)
  show ?thesis
    unfolding deploy_stop_def using k(1) still_get [OF c] by simp
qed

lemma reverts_extract:
  assumes "files_work env" "files_only env a fs"
  shows "reverts fs (deploy_extract env a r)"
proof (cases "sd_extract_files (da_desc a) = [] \<or> da_image a = None")
  case True
  then have "deploy_extract env a r = op_return ()
      \<or> deploy_extract env a r = op_fail (Service_message ''Image must be specified for extract_files'')"
    by (auto simp: deploy_extract_def Let_def)
  then show ?thesis using reverts_keeps [OF op_keeps_basic(1)] reverts_keeps [OF op_keeps_basic(2)] by metis
next
  case False
  then obtain img where img: "da_image a = Some img" by blast
  let ?xs = "sd_extract_files (da_desc a)"
  have x: "reverts fs (extract_files env user img container ?xs)" for user container
    unfolding reverts_def
  proof (intro allI impI)
    fix s :: "'a svc" assume s: "sw_files (sv_world s) = fs"
    obtain q s' where e: "extract_files env user img container ?xs s = (q, s')" by fastforce
    from assms(2) img s extract_files_undone [OF assms(1) _ _ e] obtain as where
      "sv_actions s' = sv_actions s @ as" "\<forall>a \<in> set as. is_extract a"
      "fold take_back (rev as) (sw_files (sv_world s')) = fs"
      unfolding files_only_def by (auto simp: Let_def)
    then show "\<exists>as. sv_actions (snd (extract_files env user img container ?xs s)) = sv_actions s @ as
        \<and> undone_by as (sw_files (sv_world (snd (extract_files env user img container ?xs s)))) fs"
      unfolding e snd_conv undone_by_def by (intro exI [of _ as] exI [of _ "[]"] conjI) simp_all
  qed
  have p: "op_still (push_action (StartPodmanImage c u))" for c u
    by (rule still_push) (simp add: is_extract_def)
  from False img show ?thesis
    unfolding deploy_extract_def Let_def
    by (simp, intro still_then_reverts reverts_then_keeps x p still_keeps ops_kept files_kept)
qed

lemma reverts_deploy_inner:
  assumes "files_work env" "files_only env a fs"
  shows "reverts fs (deploy_inner env name a r)"
  unfolding deploy_inner_def
  by (intro still_then_reverts reverts_then_keeps reverts_extract assms still_deploy_stop still_keeps ops_kept files_kept)

lemma restore_extract:
  assumes "files_work env" "is_extract a"
  shows "\<exists>w'. restore_action env name r a s = (Some (Inr ()), s\<lparr>sv_world := w'\<rparr>)
    \<and> sw_files w' = take_back a (sw_files (sv_world s))"
proof -
  have m: "sw_files (snd (remove_file env p w)) = (case fs_remove_file p (sw_files w) of Some fs \<Rightarrow> fs | None \<Rightarrow> sw_files w)" for p w
    using assms(1) by (simp add: remove_file_def file_op_files files_work_def)
  from assms(2) obtain p b where a: "a = ExtractFile p b" by (cases a) (auto simp: is_extract_def)
  show ?thesis
  proof (cases b)
    case None
    with a m show ?thesis
      by (intro exI [of _ "snd (remove_file env p (sv_world s))"]) (simp add: restore_action_def op_act_def act_ignore_def)
  next
    case (Some t)
    with a rename_cases(2) [OF assms(1)] show ?thesis
      by (intro exI [of _ "snd (rename env t p (sv_world s))"]) (simp add: restore_action_def op_act_def act_ignore_def)
  qed
qed

lemma restore_extracts:
  assumes "files_work env" "\<forall>a \<in> set as. is_extract a"
  shows "\<exists>w'. restore_actions env name r (as @ bs) s = restore_actions env name r bs (s\<lparr>sv_world := w'\<rparr>)
    \<and> sw_files w' = fold take_back as (sw_files (sv_world s))"
  using assms(2)
proof (induction as arbitrary: s)
  case Nil
  show ?case by (intro exI [of _ "sv_world s"]) simp
next
  case (Cons a as)
  from restore_extract [OF assms(1)] Cons.prems obtain w1 where a:
    "restore_action env name r a s = (Some (Inr ()), s\<lparr>sv_world := w1\<rparr>)" "sw_files w1 = take_back a (sw_files (sv_world s))"
    by auto blast
  from Cons obtain w2 where "restore_actions env name r (as @ bs) (s\<lparr>sv_world := w1\<rparr>)
      = restore_actions env name r bs (s\<lparr>sv_world := w1, sv_world := w2\<rparr>)"
    "sw_files w2 = fold take_back as (sw_files w1)" by fastforce
  with a show ?case by (intro exI [of _ w2]) (simp add: op_then_def op_bind_def)
qed

lemma keeps_restore:
  assumes "\<forall>a \<in> set as. \<not> is_extract a"
  shows "op_keeps (restore_actions env name r as)"
  using assms
proof (induction as)
  case (Cons a as)
  have "op_keeps (restore_action env name r a)"
    using Cons.prems by (cases a) (simp_all add: restore_action_def is_extract_def ops_kept files_kept)
  with Cons show ?case by (auto intro: op_keeps_then)
qed (simp add: ops_kept)

text \<open>Further result: a deployment that fails puts the files back. When only files are extracted,
  over files or nothing, their backups are in nobody's way and the file system does as it is told,
  then every path names what it did before, whatever failed: a command, a script, the start of the
  new instance or the start of the old one on the way back.\<close>

theorem files_restored:
  assumes "deploy env name a r s = (Some (Inl e), s')" "files_work env" "files_only env a (sw_files (sv_world s))"
    and "\<And>n. se_sys env n (Log ''Deployment failed 2, Restoring state'')"
  shows "sw_files (sv_world s') = sw_files (sv_world s)"
proof -
  obtain q s1 where i: "deploy_inner env name a r (s\<lparr>sv_actions := []\<rparr>) = (q, s1)" by fastforce
  from assms(1) i obtain e1 where q: "q = Some (Inl e1)"
    by (auto simp: deploy_def op_act_def drop_backups_Inl split: option.splits sum.splits prod.splits)
  let ?s2 = "s1\<lparr>sv_world := (sv_world s1)\<lparr>sw_calls :=
    Log ''Deployment failed 2, Restoring state'' # sw_calls (sv_world s1)\<rparr>\<rparr>"
  from assms(1) i q assms(4) have d: "op_then (restore_actions env name r (rev (sv_actions s1)))
      (op_fail (Service_message ''Deployment failed, state restored'')) ?s2 = (Some (Inl e) :: (service_error + unit) option, s')"
    by (simp add: deploy_def op_then_def op_bind_def op_act_def sys_def)
  from reverts_deploy_inner [OF assms(2,3), of name r] i have
    "undone_by (sv_actions s1) (sw_files (sv_world s1)) (sw_files (sv_world s))"
    unfolding reverts_def by (auto dest!: spec [of _ "s\<lparr>sv_actions := []\<rparr>"])
  then obtain as1 as2 where as: "sv_actions s1 = as1 @ as2" "\<forall>a \<in> set as1. \<not> is_extract a" "\<forall>a \<in> set as2. is_extract a"
    "fold take_back (rev as2) (sw_files (sv_world s1)) = sw_files (sv_world s)" by (auto simp: undone_by_def)
  from restore_extracts [OF assms(2), of "rev as2" name r "rev as1" ?s2] as obtain w' where
    w': "restore_actions env name r (rev (sv_actions s1)) ?s2 = restore_actions env name r (rev as1) (?s2\<lparr>sv_world := w'\<rparr>)"
    "sw_files w' = sw_files (sv_world s)" by auto
  obtain p s3 where p: "restore_actions env name r (rev as1) (?s2\<lparr>sv_world := w'\<rparr>) = (p, s3)" by fastforce
  have "op_keeps (restore_actions env name r (rev as1))" using as(2) by (intro keeps_restore) simp
  from op_keepsD [OF this p] w'(2) have "sw_files (sv_world s3) = sw_files (sv_world s)" by simp
  with d w'(1) p show ?thesis
    by (auto simp: op_then_def op_bind_def op_fail_def split: option.splits sum.splits)
qed

definition demo_deploy :: "nat deploy_args" where
  "demo_deploy = \<lparr>da_image = Some ''img'', da_desc = demo_description\<lparr>sd_overlap := True,
       sd_extract_files := [\<lparr>ef_src = ''/a'', ef_dst = ''/etc/a'', ef_merge = False\<rparr>]\<rparr>, da_extra = [], da_user = ''me''\<rparr>"

definition demo_course :: deploy_run where
  "demo_course = \<lparr>dr_instance = 2, dr_restart = 3, dr_container = ''c'', dr_tend = Inr None, dr_now = 100\<rparr>"

definition demo_svc :: "nat svc" where
  "demo_svc = \<lparr>sv_running = True, sv_status = demo_status,
     sv_world = demo_world\<lparr>sw_files := [''/srv/www'' \<mapsto> Folder ''v1'', ''/etc/a'' \<mapsto> File ''old'']\<rparr>, sv_events = [], sv_actions = []\<rparr>"

definition demo_rm :: "string list" where
  "demo_rm = [''/usr/bin/podman'', ''rm'', ''c'']"

definition demo_no_rm :: "nat service_env" where
  "demo_no_rm = demo_env\<lparr>se_sys := \<lambda>n c. c \<noteq> Command None demo_rm, se_success := \<lambda>n c. True, se_extract := \<lambda>i p. File ''new''\<rparr>"

lemma demo_sys: "sys demo_no_rm c w = (if c = Command None demo_rm then Inl (Sys_failed c) else Inr (), w\<lparr>sw_calls := c # sw_calls w\<rparr>)"
  by (simp add: sys_def demo_no_rm_def)

lemma demo_forward: "forward_command demo_no_rm None argv w =
    (if argv = demo_rm then Inl (Sys_failed (Command None argv)) else Inr True,
     w\<lparr>sw_calls := Command None argv # Log (shown_command None (hd argv) (tl argv)) # sw_calls w\<rparr>)"
  by (simp add: forward_command_def command_def act_defs demo_sys) (simp add: demo_no_rm_def)

lemma demo_prepare: "\<exists>cs. deploy_prepare demo_no_rm demo_deploy w = (Inr (), w\<lparr>sw_calls := cs\<rparr>)"
  by (simp add: deploy_prepare_def demo_deploy_def demo_description_def check_user_def podman_user_def chown_user_def
      act_defs demo_sys pull_image_def must_succeed_def demo_forward demo_rm_def Let_def) auto

lemma demo_replace:
  assumes "sw_files (sv_world s) = sw_files (sv_world demo_svc)"
  shows "\<exists>w'. replace_entry demo_no_rm (File ''new'') ''/etc/a'' ''/etc/.sadmin_backup_a~'' s
     = (Some (Inr ()), s\<lparr>sv_actions := sv_actions s @ [ExtractFile ''/etc/a'' (Some ''/etc/.sadmin_backup_a~'')], sv_world := w'\<rparr>)"
  using assms by (auto simp: replace_entry_def op_defs act_is_ok_def rename_def file_op_def act_defs demo_sys demo_svc_def demo_world_def
      fs_rename_def fs_put_def fs_key_def names_folder_def ends_with_def strip_suffix_def)

lemma demo_extract:
  assumes "sw_files (sv_world s) = sw_files (sv_world demo_svc)"
  shows "\<exists>e s'. deploy_extract demo_no_rm demo_deploy demo_course s = (Some (Inl e), s')
    \<and> sv_actions s' = sv_actions s @ [StartPodmanImage ''c'' None, ExtractFile ''/etc/a'' (Some ''/etc/.sadmin_backup_a~'')]"
proof -
  have m: "must_succeed demo_no_rm None argv w =
      (if argv = demo_rm then Inl (Sys_failed (Command None argv)) else Inr (), snd (forward_command demo_no_rm None argv w))" for argv w
    by (simp add: must_succeed_def act_defs demo_forward)
  let ?c = "op_act (must_succeed demo_no_rm None [''/usr/bin/podman'', ''cp'', ''c:/a'', ''tempdir/a'']) :: (nat, unit) op"
  have one: "extract_one demo_no_rm None ''img'' ''c'' \<lparr>ef_src = ''/a'', ef_dst = ''/etc/a'', ef_merge = False\<rparr>
      = op_then ?c (replace_entry demo_no_rm (File ''new'') ''/etc/a'' ''/etc/.sadmin_backup_a~'')"
    by (simp add: extract_one_def strip_suffix_def rsplit_once_def backup_name_def) (simp add: demo_no_rm_def)
  have d: "sd_extract_files (da_desc demo_deploy) = [\<lparr>ef_src = ''/a'', ef_dst = ''/etc/a'', ef_merge = False\<rparr>]"
    "da_image demo_deploy = Some ''img''" "sd_user (da_desc demo_deploy) = None" "dr_container demo_course = ''c''"
    by (simp_all add: demo_deploy_def demo_course_def demo_description_def)
  let ?s = "s\<lparr>sv_actions := sv_actions s @ [StartPodmanImage ''c'' None]\<rparr>"
  have r: "\<exists>w'. op_then ?c (replace_entry demo_no_rm (File ''new'') ''/etc/a'' ''/etc/.sadmin_backup_a~'') (?s\<lparr>sv_world := w\<rparr>)
     = (Some (Inr ()), ?s\<lparr>sv_actions := sv_actions ?s @ [ExtractFile ''/etc/a'' (Some ''/etc/.sadmin_backup_a~'')], sv_world := w'\<rparr>)"
    if "sw_files w = sw_files (sv_world demo_svc)" for w
    using demo_replace [of "?s\<lparr>sv_world := snd (forward_command demo_no_rm None [''/usr/bin/podman'', ''cp'', ''c:/a'', ''tempdir/a''] w)\<rparr>"] that
    by (auto simp: op_then_def op_bind_def op_act_def m demo_rm_def demo_forward)
  let ?w = "snd (forward_command demo_no_rm None [''/usr/bin/podman'', ''create'', ''--network'', ''none'', ''--name'', ''c'',
     ''img'', ''/bin/false''] (sv_world s))"
  let ?w1 = "snd (sys demo_no_rm (Temp_dir ''extract'') ?w)"
  have w: "sw_files ?w1 = sw_files (sv_world demo_svc)" using assms by (simp add: demo_forward demo_sys)
  from r [OF w] obtain w' where w': "op_then ?c (replace_entry demo_no_rm (File ''new'') ''/etc/a'' ''/etc/.sadmin_backup_a~'') (?s\<lparr>sv_world := ?w1\<rparr>)
     = (Some (Inr ()), ?s\<lparr>sv_actions := sv_actions ?s @ [ExtractFile ''/etc/a'' (Some ''/etc/.sadmin_backup_a~'')], sv_world := w'\<rparr>)" by blast
  have t: "op_then a b s = (case a s of (None, s) \<Rightarrow> (None, s) | (Some (Inl e), s) \<Rightarrow> (Some (Inl e), s)
     | (Some (Inr v), s) \<Rightarrow> b s)" for a :: "(nat, unit) op" and b :: "(nat, unit) op" and s
    by (simp add: op_then_def op_bind_def)
  have x: "extract_files demo_no_rm None ''img'' ''c'' (sd_extract_files (da_desc demo_deploy)) (?s\<lparr>sv_world := ?w1\<rparr>)
      = (Some (Inr ()), ?s\<lparr>sv_actions := sv_actions ?s @ [ExtractFile ''/etc/a'' (Some ''/etc/.sadmin_backup_a~'')], sv_world := w'\<rparr>)"
    unfolding d extract_files.simps one t [of "op_then _ _"] w' by (simp add: op_return_def)
  obtain w'' where rm: "forward_command demo_no_rm None [''/usr/bin/podman'', ''rm'', ''c''] w' = (Inl (Sys_failed (Command None demo_rm)), w'')"
    by (simp add: demo_forward demo_rm_def)
  show ?thesis
    using x [unfolded d] by (simp add: deploy_extract_def d t push_action_def op_set_def op_act_def m demo_sys demo_rm_def Let_def
        chown_user_def act_return_def act_then_def act_bind_def rm del: extract_files.simps)
qed

theorem files_restored_witness:
  "\<exists>e s'. deploy demo_no_rm ''a'' demo_deploy demo_course demo_svc = (Some (Inl e), s')
    \<and> sw_files (sv_world s') ''/etc/a'' = Some (File ''old'')"
proof -
  have env: "se_sys demo_no_rm n c = (c \<noteq> Command None demo_rm)" "se_extract demo_no_rm i p = File ''new''" for n c i p
    by (simp_all add: demo_no_rm_def)
  obtain cs where p: "deploy_prepare demo_no_rm demo_deploy (sv_world demo_svc) = (Inr (), (sv_world demo_svc)\<lparr>sw_calls := cs\<rparr>)"
    using demo_prepare by blast
  let ?s = "demo_svc\<lparr>sv_world := (sv_world demo_svc)\<lparr>sw_calls := cs\<rparr>\<rparr>"
  have a: "demo_svc\<lparr>sv_actions := []\<rparr> = demo_svc" by (simp add: demo_svc_def)
  have "sw_files (sv_world ?s) = sw_files (sv_world demo_svc)" by simp
  from demo_extract [OF this] obtain e1 s1 where x: "deploy_extract demo_no_rm demo_deploy demo_course ?s = (Some (Inl e1), s1)"
    "sv_actions s1 = [StartPodmanImage ''c'' None, ExtractFile ''/etc/a'' (Some ''/etc/.sadmin_backup_a~'')]"
    by (auto simp: demo_svc_def)
  have st: "deploy_stop demo_no_rm ''a'' demo_deploy demo_course = op_return ()"
    "run_scripts demo_no_rm ''predeploy'' 0 (sd_pre_deploy (da_desc demo_deploy)) envs = act_return ()" for envs
    by (simp_all add: deploy_stop_def demo_deploy_def demo_description_def)
  have i: "deploy_inner demo_no_rm ''a'' demo_deploy demo_course (demo_svc\<lparr>sv_actions := []\<rparr>) = (Some (Inl e1), s1)"
    unfolding a deploy_inner_def st using x(1)
    by (simp add: op_then_def op_bind_def op_act_def p op_return_def act_return_def)
  have "\<exists>e s'. deploy demo_no_rm ''a'' demo_deploy demo_course demo_svc = (Some (Inl e), s')"
    by (simp add: deploy_def i x(2) op_then_def op_bind_def op_act_def demo_sys demo_rm_def restore_action_def
        act_ignore_def op_return_def op_fail_def)
  then obtain e s' where d: "deploy demo_no_rm ''a'' demo_deploy demo_course demo_svc = (Some (Inl e), s')" by blast
  have "sw_files (sv_world s') = sw_files (sv_world demo_svc)"
    by (rule files_restored [OF d])
       (simp_all add: files_work_def env files_only_def demo_deploy_def extract_safe_def plain_def
          names_folder_def ends_with_def strip_suffix_def demo_svc_def demo_world_def backup_of_def rsplit_once_def
          backup_name_def Let_def)
  with d show ?thesis by (simp add: demo_svc_def demo_world_def)
qed

section \<open>Directories\<close>

text \<open>Further result: a directory that was put in the place of another one is not taken back. The way
  back moves the old directory onto the new one, which the file system refuses as that is not
  empty, and what it refuses is ignored: the new directory stays, and the old one stays aside.\<close>

theorem directory_not_restored:
  assumes "files_work env" "fs (fs_key dst) = Some (Folder c1)" "c2 \<noteq> []" "fs_key tmp \<noteq> fs_key dst"
    and "fs (fs_key tmp) = None" "replaced (Folder c2) dst tmp fs = (act, fs')" "sw_files (sv_world s) = fs'"
  shows "\<exists>s'. restore_action env name r act s = (Some (Inr ()), s') \<and> sw_files (sv_world s') = fs'
    \<and> fs' (fs_key dst) = Some (Folder c2) \<and> fs' (fs_key tmp) = Some (Folder c1)"
proof -
  have f: "act = ExtractFile dst (Some tmp)" "fs' = fs(fs_key tmp \<mapsto> Folder c1, fs_key dst \<mapsto> Folder c2)"
    using assms(2-6) by (auto simp: replaced_def fs_rename_def fs_put_def fun_upd_twist)
  then have "take_back act fs' = fs'"
    using assms(3,4) by (auto simp: fs_rename_def fs_put_def split: list.splits)
  moreover have "is_extract act" using f(1) by (simp add: is_extract_def)
  ultimately show ?thesis
    using restore_extract [OF assms(1), of act name r s] f(2) assms(4,7) by auto
qed

theorem directory_not_restored_witness:
  "\<exists>s'. restore_action (demo_env :: nat service_env) ''a'' demo_course (ExtractFile ''/srv/www/'' (Some ''/srv/b~''))
      (demo_svc\<lparr>sv_world := demo_world\<lparr>sw_files := [''/srv/b~'' \<mapsto> Folder ''v1'', ''/srv/www'' \<mapsto> Folder ''v2'']\<rparr>\<rparr>)
     = (Some (Inr ()), s') \<and> sw_files (sv_world s') ''/srv/www'' = Some (Folder ''v2'')"
proof -
  have "\<exists>s'. restore_action (demo_env :: nat service_env) ''a'' demo_course (ExtractFile ''/srv/www/'' (Some ''/srv/b~''))
      (demo_svc\<lparr>sv_world := demo_world\<lparr>sw_files := [''/srv/b~'' \<mapsto> Folder ''v1'', ''/srv/www'' \<mapsto> Folder ''v2'']\<rparr>\<rparr>)
     = (Some (Inr ()), s') \<and> sw_files (sv_world s') = [''/srv/b~'' \<mapsto> Folder ''v1'', ''/srv/www'' \<mapsto> Folder ''v2'']
      \<and> [''/srv/b~'' \<mapsto> Folder ''v1'', ''/srv/www'' \<mapsto> Folder ''v2''] (fs_key ''/srv/www/'') = Some (Folder ''v2'')
      \<and> [''/srv/b~'' \<mapsto> Folder ''v1'', ''/srv/www'' \<mapsto> Folder ''v2''] (fs_key ''/srv/b~'') = Some (Folder ''v1'')"
    by (rule directory_not_restored [where fs = "[''/srv/www'' \<mapsto> Folder ''v1'']" and tmp = "''/srv/b~''" and dst = "''/srv/www/''"])
       (simp_all add: files_work_def demo_env_def fs_key_def strip_suffix_def replaced_def fs_rename_def fs_put_def
          names_folder_def ends_with_def fun_upd_twist)
  then show ?thesis by (auto simp: fs_key_def strip_suffix_def)
qed

lemma blocked_entry:
  assumes "sw_files (sv_world s) (fs_key dst) = Some (Folder c)" "c \<noteq> []"
    and "sw_files (sv_world s) (fs_key tmp) = Some (Folder c')" "c' \<noteq> []" "fs_key dst \<noteq> fs_key tmp"
  shows "\<exists>e s'. replace_entry env x dst tmp s = (Some (Inl e), s')"
proof -
  obtain r w where m: "rename env dst tmp (sv_world s) = (r, w)" by fastforce
  from assms have "fs_rename dst tmp (sw_files (sv_world s)) = None"
    by (auto simp: fs_rename_def fs_put_def split: list.splits)
  with m obtain e where r: "r = Inl e" by (cases r) (auto simp: rename_def file_op_Inr)
  with m have "sw_files w = sw_files (sv_world s)" by (auto simp: rename_def dest: file_op_Inl)
  with assms(1,2) have "fs_put x dst (sw_files w) = None"
    by (auto simp: fs_put_def split: entry.splits list.splits)
  then have "\<exists>e w'. file_op env (Rename ''extracted'' dst) (fs_put x dst) w = (Inl e, w')"
    by (auto simp: file_op_def act_defs sys_def)
  then show ?thesis
    using m r by (auto simp: replace_entry_def op_defs act_is_ok_def)
qed

text \<open>Further result: a directory that was replaced by a deployment cannot be replaced again. The
  backup of a directory is not removed, as only files are; the next deployment cannot move the
  directory onto it, takes that for there being nothing to back up, and fails to move the new
  directory into place.\<close>

theorem directory_redeploy_fails:
  assumes "sw_files (sv_world s) (fs_key dst) = Some (Folder c1)" "c1 \<noteq> []" "c2 \<noteq> []" "fs_key dst \<noteq> fs_key tmp"
    and "sv_actions s = []" "replace_entry env (Folder c2) dst tmp s = (Some (Inr u), s1)"
    and "drop_backups env (sv_actions s1) (sv_world s1) = (r, w2)"
  shows "\<exists>e s3. replace_entry env x dst tmp (s1\<lparr>sv_world := w2\<rparr>) = (Some (Inl e), s3)"
proof -
  obtain mr w where m: "rename env dst tmp (sv_world s) = (mr, w)" by fastforce
  have "\<exists>v. mr = Inr v"
  proof (rule ccontr)
    assume "\<nexists>v. mr = Inr v"
    then obtain e where e: "mr = Inl e" by (cases mr) auto
    with m have "sw_files w = sw_files (sv_world s)" by (auto simp: rename_def dest: file_op_Inl)
    with assms(1,2) have "fs_put (Folder c2) dst (sw_files w) = None"
      by (auto simp: fs_put_def split: list.splits)
    with m e assms(6) show False
      by (auto simp: replace_entry_def op_defs act_is_ok_def file_op_Inr split: prod.splits sum.splits)
  qed
  then obtain v where v: "mr = Inr v" by blast
  with m have w: "sw_files w (fs_key tmp) = Some (Folder c1)" "sw_files w (fs_key dst) = None"
    using assms(1,4) by (auto simp: rename_def file_op_Inr fs_rename_def fs_put_def
        split: option.splits entry.splits list.splits)
  from m v assms(5,6) have s1: "sv_actions s1 = [ExtractFile dst (Some tmp)]"
    "file_op env (Rename ''extracted'' dst) (fs_put (Folder c2) dst) w = (Inr u, sv_world s1)"
    by (auto simp: replace_entry_def op_defs act_is_ok_def split: prod.splits sum.splits)
  then have f: "sw_files (sv_world s1) (fs_key tmp) = Some (Folder c1)" "sw_files (sv_world s1) (fs_key dst) = Some (Folder c2)"
    using w assms(4) by (auto simp: file_op_Inr fs_put_def)
  have "sw_files w2 = sw_files (sv_world s1)"
  proof -
    obtain rr ww where d: "remove_file env tmp (sv_world s1) = (rr, ww)" by fastforce
    have "fs_remove_file tmp (sw_files (sv_world s1)) = None" using f(1) by (simp add: fs_remove_file_def)
    with d obtain e where "rr = Inl e" by (cases rr) (auto simp: remove_file_def file_op_Inr)
    with d have "sw_files ww = sw_files (sv_world s1)" by (auto simp: remove_file_def dest: file_op_Inl)
    with d assms(7) s1(1) show ?thesis by (simp add: act_defs)
  qed
  with f assms(2,3,4) show ?thesis by (intro blocked_entry [where c = c2 and c' = c1]) simp_all
qed

lemmas demo_file_simps = demo_svc_def replace_entry_def op_defs act_is_ok_def rename_def
  file_op_def act_defs sys_def demo_env_def demo_world_def fs_rename_def fs_put_def
  fs_key_def names_folder_def ends_with_def strip_suffix_def

theorem directory_redeploy_fails_witness:
  "\<exists>s1 w2. fst (replace_entry demo_env (Folder ''v2'') ''/srv/www/'' ''/srv/.b~'' demo_svc) = Some (Inr ())
    \<and> snd (drop_backups demo_env (sv_actions s1) (sv_world s1)) = w2
    \<and> (\<exists>e s3. replace_entry demo_env (Folder ''v3'') ''/srv/www/'' ''/srv/.b~'' (s1\<lparr>sv_world := w2\<rparr>) = (Some (Inl e), s3))"
proof -
  obtain u s1 where 1: "replace_entry demo_env (Folder ''v2'') ''/srv/www/'' ''/srv/.b~'' demo_svc = (Some (Inr u), s1)"
    by (simp add: demo_file_simps)
  obtain r w2 where 2: "drop_backups demo_env (sv_actions s1) (sv_world s1) = (r, w2)" by fastforce
  have "\<exists>e s3. replace_entry demo_env (Folder ''v3'') ''/srv/www/'' ''/srv/.b~'' (s1\<lparr>sv_world := w2\<rparr>) = (Some (Inl e), s3)"
    by (rule directory_redeploy_fails [where ?c1.0 = "''v1''", OF _ _ _ _ _ 1 2])
       (simp_all add: demo_svc_def fs_key_def strip_suffix_def)
  with 1 2 show ?thesis by (metis fst_conv snd_conv old.unit.exhaust)
qed

end
