(* ===== verification/Service_Run.thy ===== *)
theory Service_Run
  imports Services
begin

text \<open>
  The task that runs a service and what the client daemon loads when it starts
  (\<open>run_service\<close>, \<open>load_from_status\<close>, \<open>load_services\<close> and \<open>Service::new\<close> of
  \<open>client_daemon_service.rs\<close>). The task starts the service when there is no instance, waits for the
  instance there is, and cleans up after it; it ends when it is cancelled. \<open>rn_cancelled\<close> says that
  its token was seen to be cancelled, which is for good; \<open>ids\<close> and \<open>clock\<close> give the id of the
  instance that a round starts and the time of the round.
\<close>

record 'f run_state =
  rn_instance :: "service_instance option"
  rn_cancelled :: bool
  rn_status :: "'f service_status"
  rn_world :: "'f service_world"
  rn_events :: "(instant \<times> instance_event) list"

text \<open>How a round ends: the task goes on, leaves its loop, ends with an error, or waits.\<close>

datatype run_next = Goes_on | Leaves | Ends_with service_error | Waits

definition run_args :: wait_args where
  "run_args = \<lparr>wa_stop_ready = False, wa_with_watchdog = True, wa_timeout = None, wa_magic = None\<rparr>"

definition killed_args :: "instant \<Rightarrow> wait_args" where
  "killed_args now = \<lparr>wa_stop_ready = False, wa_with_watchdog = False, wa_timeout = Some (now + 10000), wa_magic = None\<rparr>"

text \<open>An act on the world, whose error ends the task.\<close>

definition run_act :: "('f, unit) act \<Rightarrow> run_next \<Rightarrow> 'f run_state \<Rightarrow> run_next \<times> 'f run_state" where
  "run_act m next s =
     (case m (rn_world s) of (Inl e, w) \<Rightarrow> (Ends_with e, s\<lparr>rn_world := w\<rparr>) | (Inr _, w) \<Rightarrow> (next, s\<lparr>rn_world := w\<rparr>))"

definition run_bind ::
  "('f run_state \<Rightarrow> run_next \<times> 'f run_state) \<Rightarrow> ('f run_state \<Rightarrow> run_next \<times> 'f run_state)
    \<Rightarrow> 'f run_state \<Rightarrow> run_next \<times> 'f run_state" where
  "run_bind m n s = (case m s of (Goes_on, s) \<Rightarrow> n s | r \<Rightarrow> r)"

definition save_status :: "'f service_env \<Rightarrow> string \<Rightarrow> 'f service_status \<Rightarrow> ('f, unit) act" where
  "save_status env name st = act_then (sys env (Save_status name))
     (\<lambda>w. (Inr (), w\<lparr>sw_rows := AList.update name st (sw_rows w)\<rparr>))"

section \<open>One round\<close>

text \<open>There is no instance: it is started, and after a failure again in five seconds.\<close>

definition run_start :: "'f service_env \<Rightarrow> string \<Rightarrow> nat \<Rightarrow> instant \<Rightarrow> 'f run_state \<Rightarrow> run_next \<times> 'f run_state" where
  "run_start env name i now = run_bind (run_act (log_stdout env (''Starting service'' @ [NL])) Goes_on) (\<lambda>s.
     case start_instance env name (restart_request (rn_status s)) i now (rn_status s, rn_world s, rn_events s) of
       (None, kept, w, evs) \<Rightarrow> (Waits, s\<lparr>rn_status := kept, rn_world := w, rn_events := evs\<rparr>)
     | (Some (Inl e), kept, w, evs) \<Rightarrow>
         run_bind (run_act (log_stdout env (''Failed starting service. Will retry in 5 secs'' @ [NL])) Goes_on)
           (\<lambda>s. case sys env (Sleep 5) (rn_world s) of
                  (Inl _, w) \<Rightarrow> (Leaves, s\<lparr>rn_world := w, rn_cancelled := True\<rparr>)
                | (Inr _, w) \<Rightarrow> (Goes_on, s\<lparr>rn_world := w\<rparr>))
           (s\<lparr>rn_status := kept, rn_world := w, rn_events := evs\<rparr>)
     | (Some (Inr (ins, status)), kept, w, evs) \<Rightarrow>
         (let status = status\<lparr>st_deploy_time := st_deploy_time (rn_status s)\<rparr>
          in run_bind (run_act (save_status env name status) Goes_on)
               (\<lambda>s. (Goes_on, s\<lparr>rn_instance := Some ins\<rparr>))
               (s\<lparr>rn_status := status, rn_world := w, rn_events := evs\<rparr>)))"

text \<open>The watchdog of the instance ran out: it is killed and waited for ten seconds.\<close>

definition run_kill :: "'f service_env \<Rightarrow> 'f service_status \<Rightarrow> string \<Rightarrow> ('f, unit) act" where
  "run_kill env st key =
     (case st_pod_name st of
        Some pod \<Rightarrow>
          act_then (podman_user env (sd_user (st_description st)))
            (act_bind (command env (sd_user (st_description st)) [''/usr/bin/podman'', ''kill'', pod])
               (\<lambda>(ok, _). if ok then act_return () else log_stdout env ''Failed running podman kill''))
      | None \<Rightarrow> act_bind (signal_process env key 9) (\<lambda>_. act_return ()))"

definition run_watchdog ::
  "'f service_env \<Rightarrow> string \<Rightarrow> instant \<Rightarrow> service_instance \<Rightarrow> 'f run_state \<Rightarrow> run_next \<times> 'f run_state" where
  "run_watchdog env name now i s =
     (let st = rn_status s; iid = st_instance_id st;
          finish = (\<lambda>s. run_bind (run_act (cleanup_instance env name iid) Goes_on)
            (\<lambda>s. (Goes_on, s\<lparr>rn_instance := None\<rparr>)) s)
      in run_bind (run_act (log_stdout env ''Timeout waiting for watchdog'') Goes_on)
           (case st_process_key st of
              None \<Rightarrow> finish
            | Some key \<Rightarrow> run_bind (run_act (run_kill env st key) Goes_on) (\<lambda>s.
                case process_service_instance (se_ms env) (killed_args now) (rn_events s) i (rn_status s) of
                  (None, i, kept, evs) \<Rightarrow> (Waits, s\<lparr>rn_instance := Some i, rn_status := kept, rn_events := evs\<rparr>)
                | (Some (Inl e), i, kept, evs) \<Rightarrow>
                    (Ends_with (Instance_failed e), s\<lparr>rn_instance := Some i, rn_status := kept, rn_events := evs\<rparr>)
                | (Some (Inr r), i, kept, evs) \<Rightarrow>
                    (let s = s\<lparr>rn_instance := Some i, rn_status := kept, rn_events := evs,
                             rn_cancelled := (rn_cancelled s \<or> r = Canceled)\<rparr>
                     in if r = Watchdog_timeout \<or> r = Is_ready
                        then (Ends_with (Service_message ''Result should not happen''), s)
                        else finish s))) s)"

definition run_round :: "'f service_env \<Rightarrow> string \<Rightarrow> nat \<Rightarrow> instant \<Rightarrow> 'f run_state \<Rightarrow> run_next \<times> 'f run_state" where
  "run_round env name iid now s =
     (case rn_instance s of
        None \<Rightarrow> run_start env name iid now s
      | Some i \<Rightarrow>
          (case process_service_instance (se_ms env) run_args (rn_events s) i (rn_status s) of
             (None, i, kept, evs) \<Rightarrow> (Waits, s\<lparr>rn_instance := Some i, rn_status := kept, rn_events := evs\<rparr>)
           | (Some r, i, kept, evs) \<Rightarrow>
               (let s = s\<lparr>rn_instance := Some i, rn_status := kept, rn_events := evs\<rparr>;
                    clean = (\<lambda>m. run_act (act_then m (cleanup_instance env name (st_instance_id kept))) Goes_on)
                in case r of
                     Inr Canceled \<Rightarrow> (Leaves, s\<lparr>rn_cancelled := True\<rparr>)
                   | Inr Is_ready \<Rightarrow> (Ends_with (Service_message ''Logic error''), s)
                   | Inr Timed_out \<Rightarrow> (Ends_with (Service_message ''Logic error''), s)
                   | Inr Finished \<Rightarrow>
                       clean (log_stdout env ''Serivce stop unexpectedly'') (s\<lparr>rn_instance := None\<rparr>)
                   | Inr Watchdog_timeout \<Rightarrow> run_watchdog env name now i s
                   | Inl e \<Rightarrow> clean (log_stdout env ''Service failed'') s)))"

section \<open>The task\<close>

text \<open>A token that is cancelled when a round begins is the next event. \<open>None\<close>: the task has not ended
  after \<open>n\<close> rounds.\<close>

definition token_cancelled :: "'f run_state \<Rightarrow> bool" where
  "token_cancelled s = (rn_cancelled s \<or> (case rn_events s of (_, Cancel) # _ \<Rightarrow> True | _ \<Rightarrow> False))"

fun run_service ::
  "'f service_env \<Rightarrow> string \<Rightarrow> (nat \<Rightarrow> nat) \<Rightarrow> (nat \<Rightarrow> instant) \<Rightarrow> nat \<Rightarrow> nat \<Rightarrow> 'f run_state
    \<Rightarrow> (service_error + service_instance option) option \<times> 'f run_state" where
  "run_service env name ids clock k n s =
     (if token_cancelled s then (Some (Inr (rn_instance s)), s)
      else (case n of
              0 \<Rightarrow> (None, s)
            | Suc n \<Rightarrow>
                (case run_round env name (ids k) (clock k) s of
                   (Goes_on, s) \<Rightarrow> run_service env name ids clock (Suc k) n s
                 | (Leaves, s) \<Rightarrow> (Some (Inr (rn_instance s)), s)
                 | (Ends_with e, s) \<Rightarrow> (Some (Inl e), s)
                 | (Waits, s) \<Rightarrow> (None, s))))"

declare run_service.simps [simp del]

section \<open>Loading\<close>

definition service_new_description :: "string \<Rightarrow> 'f service_description" where
  "service_new_description name = \<lparr>sd_name = name, sd_service_type = Plain, sd_project = None, sd_user = None,
     sd_enable_linger = None, sd_ssl_service = None, sd_ssl_identity = None, sd_ssl_subcert = None,
     sd_pre_deploy = [], sd_pre_start = [], sd_post_start = [], sd_max_memory = None, sd_extract_files = [],
     sd_service_executable = None, sd_args = [], sd_bind = [], sd_overlap = False,
     sd_watchdog_timeout = None, sd_start_timeout = None, sd_stop_timeout = None, sd_pod_mount = [],
     sd_pod_options = [], sd_env = [], sd_pod_env = [], sd_overlap_stop_signal = None, sd_stop_signal = None,
     sd_start_magic = None, sd_metrics = None\<rparr>"

definition service_new :: "string \<Rightarrow> instant \<Rightarrow> 'f service_status" where
  "service_new name now = \<lparr>st_status = [], st_state = New, st_description = service_new_description name, st_extra_env = [],
     st_instance_id = 0, st_enabled = True, st_stdout_key = None, st_stderr_key = None, st_notify_key = None,
     st_process_key = None, st_metrics_path = None, st_start_stop_time = now, st_deploy_time = now,
     st_deploy_user = ''unset'', st_image = None, st_pod_name = None\<rparr>"

datatype load_error = Load_message string | Load_request persist_request_error | Not_implemented

text \<open>A service in memory: its status, whether a task runs it, and the instance given to the task.\<close>

record 'f loaded_service =
  ld_status :: "'f service_status"
  ld_running :: bool
  ld_instance :: "service_instance option"

definition get_key ::
  "'f service_env \<Rightarrow> service_fd persist_state \<Rightarrow> string \<Rightarrow> string option \<Rightarrow> load_error + service_fd" where
  "get_key env p what key =
     (case key of
        None \<Rightarrow> Inl (Load_message (''Expected '' @ what @ '' key''))
      | Some k \<Rightarrow>
          (case persist_get_fd (se_os env) (se_error env) 0 k p of
             Inl e \<Rightarrow> Inl (Load_request e)
           | Inr None \<Rightarrow> Inl (Load_message (''Unable to fetch '' @ what @ '' fd''))
           | Inr (Some fd) \<Rightarrow> Inr fd))"

text \<open>The three keys are looked up before the descriptors are fetched.\<close>

definition get_keys :: "'f service_env \<Rightarrow> service_fd persist_state \<Rightarrow> 'f service_status \<Rightarrow> load_error + unit" where
  "get_keys env p st =
     (if st_stdout_key st = None then Inl (Load_message ''Expected stdout key'')
      else if st_stderr_key st = None then Inl (Load_message ''Expected stderr key'')
      else if st_notify_key st = None then Inl (Load_message ''Expected notify key'')
      else res_bind (get_key env p ''stdout'' (st_stdout_key st)) (\<lambda>_.
           res_bind (get_key env p ''stderr'' (st_stderr_key st)) (\<lambda>_.
           res_bind (get_key env p ''notify'' (st_notify_key st)) (\<lambda>_. Inr ()))))"

definition load_from_status ::
  "'f service_env \<Rightarrow> service_fd persist_state \<Rightarrow> instant \<Rightarrow> string \<Rightarrow> 'f service_status \<Rightarrow> bool
    \<Rightarrow> load_error + 'f loaded_service" where
  "load_from_status env p now name st running =
     (let fresh = \<lparr>ld_status = service_new name now, ld_running = False, ld_instance = None\<rparr>
      in if running then
           res_bind (get_keys env p st) (\<lambda>_.
             if st_enabled st then
               Inr \<lparr>ld_status = st, ld_running = True,
                 ld_instance = Some (started_instance env (st_description st) (st_instance_id st) now (st_pod_name st))\<rparr>
             else Inl Not_implemented)
         else if st_enabled st then Inr \<lparr>ld_status = st, ld_running = True, ld_instance = None\<rparr>
         else Inr fresh)"

definition service_runs :: "string list \<Rightarrow> 'f service_status \<Rightarrow> bool" where
  "service_runs keys st = (case st_process_key st of None \<Rightarrow> False | Some k \<Rightarrow> k \<in> set keys)"

text \<open>The services of the table, one after the other; one that cannot be loaded is in the map of
  services as a new one, and those after it are not there.\<close>

fun load_table ::
  "'f service_env \<Rightarrow> service_fd persist_state \<Rightarrow> string list \<Rightarrow> instant \<Rightarrow> (string \<times> 'f service_status) list
    \<Rightarrow> (string \<times> 'f loaded_service) list \<Rightarrow> (load_error + unit) \<times> (string \<times> 'f loaded_service) list" where
  "load_table env p keys now [] acc = (Inr (), acc)"
| "load_table env p keys now ((name, st) # rows) acc =
     (case load_from_status env p now name st (service_runs keys st) of
        Inl e \<Rightarrow> (Inl e, AList.update name \<lparr>ld_status = service_new name now, ld_running = False, ld_instance = None\<rparr> acc)
      | Inr l \<Rightarrow> load_table env p keys now rows (AList.update name l acc))"

definition load_services ::
  "'f service_env \<Rightarrow> instant \<Rightarrow> 'f service_world \<Rightarrow> (load_error + unit) \<times> (string \<times> 'f loaded_service) list" where
  "load_services env now w =
     (case persist_list_processes (se_os env) (se_error env) 0 (Some ''service.'') (sw_persist w) of
        Inl e \<Rightarrow> (Inl (Load_request e), [])
      | Inr keys \<Rightarrow> load_table env (sw_persist w) keys now (sw_rows w) [])"

section \<open>The deployment stays the same\<close>

text \<open>What was deployed and when; the state, the instance and its keys may change.\<close>

definition same_deployment :: "'f service_status \<Rightarrow> 'f service_status \<Rightarrow> bool" where
  "same_deployment st st' \<longleftrightarrow> st_description st' = st_description st \<and> st_extra_env st' = st_extra_env st
     \<and> st_image st' = st_image st \<and> st_deploy_user st' = st_deploy_user st \<and> st_deploy_time st' = st_deploy_time st"

lemma same_deployment_refl [simp]: "same_deployment st st"
  by (simp add: same_deployment_def)

lemma same_deployment_trans: "same_deployment a b \<Longrightarrow> same_deployment b c \<Longrightarrow> same_deployment a c"
  by (simp add: same_deployment_def)

text \<open>Only the state and its text differ.\<close>

definition only_state :: "'f service_status \<Rightarrow> 'f service_status \<Rightarrow> bool" where
  "only_state st st' \<longleftrightarrow> st'\<lparr>st_state := st_state st, st_status := st_status st\<rparr> = st"

lemma only_state_trans: "only_state a b \<Longrightarrow> only_state b c \<Longrightarrow> only_state a c"
  unfolding only_state_def by (cases a; cases b; cases c) simp

lemma only_state_basic [simp]:
  "only_state st st" "only_state st (st\<lparr>st_state := x\<rparr>)" "only_state st (st\<lparr>st_status := y\<rparr>)"
  by (simp_all add: only_state_def)

lemma only_state_same: "only_state st st' \<Longrightarrow> same_deployment st st' \<and> st_enabled st' = st_enabled st"
  unfolding only_state_def same_deployment_def by (cases st; cases st') simp

lemma step_only: "only_state (ws_status w) (ws_status (snd (instance_step ms a watchdog ev w)))"
  by (auto simp: instance_step_def on_notify_def Let_def
      split: prod.split instance_event.split pipe_read.split option.split)

lemma wait_loop_only: "only_state (ws_status w) (ws_status (fst (snd (wait_loop ms a watchdog evs w))))"
proof (induction evs arbitrary: w)
  case Nil
  show ?case by (subst wait_loop.simps) simp
next
  case (Cons ev evs)
  obtain x w1 where x: "instance_step ms a watchdog ev w = (x, w1)" by fastforce
  have s: "only_state (ws_status w) (ws_status w1)" using step_only [of w ms a watchdog ev] x by simp
  have i: "only_state (ws_status w) (ws_status (fst (snd (wait_loop ms a watchdog evs w1))))"
    using only_state_trans [OF s Cons.IH [of w1]] .
  show ?case
    using Cons.IH [of w] s i by (subst wait_loop.simps) (simp add: x split: sum.split option.split)
qed

lemma process_only: "process_service_instance ms a evs i st = (r, i', st', rest) \<Longrightarrow> only_state st st'"
  unfolding process_service_instance_def Let_def case_prod_unfold
  using wait_loop_only [of "\<lparr>ws_instance = i, ws_status = st, ws_stdout_tail = [], ws_stderr_tail = []\<rparr>"]
  by (metis prod.inject service_status.select_convs wait_state.select_convs(2))

lemma process_same: "process_service_instance ms a evs i st = (r, i', st', rest) \<Longrightarrow> same_deployment st st'"
  using process_only only_state_same by metis

lemma start_wait_only:
  assumes "start_wait env d now key inst (kept, w, evs) = (r, kept', w', evs')"
  shows "only_state kept kept'"
proof (cases "start_args (map_option (\<lambda>v. now + se_ms env v) (sd_start_timeout d)) d")
  case None
  with assms show ?thesis by (simp add: start_wait_def)
next
  case (Some a)
  obtain p i k e where p: "process_service_instance (se_ms env) a evs inst kept = (p, i, k, e)"
    using prod_cases4 by blast
  from assms p Some have "kept' = k"
    by (auto simp: start_wait_def split: option.splits sum.splits instance_result.splits prod.splits)
  with process_only [OF p] show ?thesis by simp
qed

lemma start_instance_same:
  assumes "start_instance env name rq i now (kept, w, evs) = (r, kept', w', evs')"
  shows "only_state kept kept'
    \<and> (\<forall>ins st. r = Some (Inr (ins, st)) \<longrightarrow> st_description st = sr_desc rq \<and> st_extra_env st = sr_extra rq
        \<and> st_image st = sr_image rq \<and> st_deploy_user st = sr_user rq)"
proof -
  obtain r1 keys k1 w1 e1 where s: "start_instance_inner env name rq i now (kept, w, evs) = (r1, keys, k1, w1, e1)"
    using prod_cases5 by blast
  then have "only_state kept k1 \<and> (\<forall>ins st. r1 = Some (Inr (ins, st)) \<longrightarrow> st_description st = sr_desc rq
      \<and> st_extra_env st = sr_extra rq \<and> st_image st = sr_image rq \<and> st_deploy_user st = sr_user rq)"
    by (auto simp: start_instance_inner_def Let_def started_status_def
        split: sum.splits option.splits prod.splits dest!: start_wait_only)
  moreover have "kept' = k1" "\<And>v. r = Some (Inr v) \<Longrightarrow> r1 = Some (Inr v)"
    using assms s by (auto simp: start_instance_def split: option.splits sum.splits)
  ultimately show ?thesis by metis
qed

definition run_same :: "('f run_state \<Rightarrow> run_next \<times> 'f run_state) \<Rightarrow> bool" where
  "run_same m \<longleftrightarrow> (\<forall>s. same_deployment (rn_status s) (rn_status (snd (m s))))"

lemma run_same_act: "run_same (run_act m next)"
  by (auto simp: run_same_def run_act_def split: prod.split sum.split)

lemma run_same_bind: "run_same m \<Longrightarrow> run_same n \<Longrightarrow> run_same (run_bind m n)"
  unfolding run_same_def
proof
  fix s :: "'a run_state"
  assume m: "\<forall>s. same_deployment (rn_status s) (rn_status (snd (m s)))"
    and n: "\<forall>s. same_deployment (rn_status s) (rn_status (snd (n s)))"
  obtain q s1 where q: "m s = (q, s1)" by fastforce
  from m q have "same_deployment (rn_status s) (rn_status s1)" by (metis snd_conv)
  with n q show "same_deployment (rn_status s) (rn_status (snd (run_bind m n s)))"
    by (cases q) (auto simp: run_bind_def intro: same_deployment_trans)
qed

lemma run_same_set: "(\<And>s. rn_status (f s) = rn_status s) \<Longrightarrow> run_same (\<lambda>s. (c, f s))"
  by (simp add: run_same_def)

lemma run_sameD: "run_same m \<Longrightarrow> same_deployment st (rn_status s) \<Longrightarrow> same_deployment st (rn_status (snd (m s)))"
  using same_deployment_trans by (auto simp: run_same_def)

lemma run_start_same: "run_same (run_start env name i now)"
proof -
  have r: "run_same (\<lambda>s. case sys env (Sleep 5) (rn_world s) of
      (Inl _, w) \<Rightarrow> (Leaves, s\<lparr>rn_world := w, rn_cancelled := True\<rparr>) | (Inr _, w) \<Rightarrow> (Goes_on, s\<lparr>rn_world := w\<rparr>))"
    by (auto simp: run_same_def split: prod.split sum.split)
  have st: "run_same (\<lambda>s. (Goes_on, s\<lparr>rn_instance := Some ins\<rparr>))" for ins by (simp add: run_same_def)
  show ?thesis
    unfolding run_start_def
  proof (rule run_same_bind [OF run_same_act], unfold run_same_def, rule allI)
    fix s :: "'a run_state"
    obtain q kept w evs where q: "start_instance env name (restart_request (rn_status s)) i now (rn_status s, rn_world s, rn_events s)
      = (q, kept, w, evs)" using prod_cases4 by blast
    note k = start_instance_same [OF q]
    have k1: "same_deployment (rn_status s) kept" using k only_state_same by blast
    consider "q = None" | e where "q = Some (Inl e)" | ins st' where "q = Some (Inr (ins, st'))"
      by (cases q) (auto, metis sumE surj_pair)
    then show "same_deployment (rn_status s) (rn_status (snd (case start_instance env name (restart_request (rn_status s)) i now
          (rn_status s, rn_world s, rn_events s) of
       (None, kept, w, evs) \<Rightarrow> (Waits, s\<lparr>rn_status := kept, rn_world := w, rn_events := evs\<rparr>)
     | (Some (Inl e), kept, w, evs) \<Rightarrow>
         run_bind (run_act (log_stdout env (''Failed starting service. Will retry in 5 secs'' @ [NL])) Goes_on)
           (\<lambda>s. case sys env (Sleep 5) (rn_world s) of
                  (Inl _, w) \<Rightarrow> (Leaves, s\<lparr>rn_world := w, rn_cancelled := True\<rparr>)
                | (Inr _, w) \<Rightarrow> (Goes_on, s\<lparr>rn_world := w\<rparr>))
           (s\<lparr>rn_status := kept, rn_world := w, rn_events := evs\<rparr>)
     | (Some (Inr (ins, status)), kept, w, evs) \<Rightarrow>
         (let status = status\<lparr>st_deploy_time := st_deploy_time (rn_status s)\<rparr>
          in run_bind (run_act (save_status env name status) Goes_on)
               (\<lambda>s. (Goes_on, s\<lparr>rn_instance := Some ins\<rparr>))
               (s\<lparr>rn_status := status, rn_world := w, rn_events := evs\<rparr>)))))"
    proof cases
      case 1
      with q k1 show ?thesis by simp
    next
      case 2
      with q k1 show ?thesis
        by (simp add: run_sameD [OF run_same_bind [OF run_same_act r]])
    next
      case 3
      with k have "same_deployment (rn_status s) (st'\<lparr>st_deploy_time := st_deploy_time (rn_status s)\<rparr>)"
        by (simp add: same_deployment_def restart_request_def)
      with 3 q show ?thesis
        by (simp add: Let_def run_sameD [OF run_same_bind [OF run_same_act st]])
    qed
  qed
qed

lemma run_watchdog_same: "run_same (run_watchdog env name now i)"
proof -
  have f: "run_same (run_bind (run_act m Goes_on) (\<lambda>s. (Goes_on, s\<lparr>rn_instance := None\<rparr>)))" for m :: "('a, unit) act"
    by (intro run_same_bind run_same_act run_same_set) simp
  have p: "run_same (\<lambda>s. case process_service_instance (se_ms env) (killed_args now) (rn_events s) i (rn_status s) of
       (None, i, kept, evs) \<Rightarrow> (Waits, s\<lparr>rn_instance := Some i, rn_status := kept, rn_events := evs\<rparr>)
     | (Some (Inl e), i, kept, evs) \<Rightarrow>
         (Ends_with (Instance_failed e), s\<lparr>rn_instance := Some i, rn_status := kept, rn_events := evs\<rparr>)
     | (Some (Inr r), i, kept, evs) \<Rightarrow>
         (let s = s\<lparr>rn_instance := Some i, rn_status := kept, rn_events := evs, rn_cancelled := (rn_cancelled s \<or> r = Canceled)\<rparr>
          in if r = Watchdog_timeout \<or> r = Is_ready
             then (Ends_with (Service_message ''Result should not happen''), s)
             else run_bind (run_act m Goes_on) (\<lambda>s. (Goes_on, s\<lparr>rn_instance := None\<rparr>)) s))" for m
    unfolding run_same_def
    by (auto simp: Let_def split: prod.split option.split sum.split dest!: process_same intro!: run_sameD [OF f])
  show ?thesis
    unfolding run_same_def
  proof
    fix s :: "'a run_state"
    show "same_deployment (rn_status s) (rn_status (snd (run_watchdog env name now i s)))"
    proof (cases "st_process_key (rn_status s)")
      case None
      then show ?thesis
        by (simp add: run_watchdog_def Let_def run_sameD [OF run_same_bind [OF run_same_act f]])
    next
      case (Some key)
      show ?thesis
        unfolding run_watchdog_def Let_def [of "rn_status s"] Let_def [of "st_instance_id (rn_status s)"]
          Let_def [of "\<lambda>s. run_bind (run_act (cleanup_instance env name (st_instance_id _)) Goes_on)
            (\<lambda>s. (Goes_on, s\<lparr>rn_instance := None\<rparr>)) s"] Some option.case(2)
        by (intro run_sameD [OF run_same_bind [OF run_same_act run_same_bind [OF run_same_act p]]] same_deployment_refl)
    qed
  qed
qed

lemma run_round_same: "run_same (run_round env name i now)"
  unfolding run_same_def
proof
  fix s :: "'a run_state"
  show "same_deployment (rn_status s) (rn_status (snd (run_round env name i now s)))"
  proof (cases "rn_instance s")
    case None
    then show ?thesis by (simp add: run_round_def run_sameD [OF run_start_same])
  next
    case (Some ins)
    obtain p j kept evs where p: "process_service_instance (se_ms env) run_args (rn_events s) ins (rn_status s) = (p, j, kept, evs)"
      using prod_cases4 by blast
    note k = process_same [OF p]
    show ?thesis
      using Some p k
      by (auto simp: run_round_def Let_def run_sameD [OF run_same_act] run_sameD [OF run_watchdog_same]
          split: option.split sum.split instance_result.split)
  qed
qed

text \<open>Further result: running a service never changes what is deployed. Whatever happens to its
  instances, the description, the variables, the image, and who deployed it and when stay the same.\<close>

theorem run_keeps_deployment:
  "same_deployment (rn_status s) (rn_status (snd (run_service env name ids clock k n s)))"
proof (induction env name ids clock k n s rule: run_service.induct)
  case (1 env name ids clock k n s)
  show ?case
  proof (cases "token_cancelled s \<or> n = 0")
    case True
    then show ?thesis by (auto simp: run_service.simps [of env name ids clock k _ s])
  next
    case False
    then obtain m where n: "n = Suc m" by (cases n) auto
    obtain q s1 where r: "run_round env name (ids k) (clock k) s = (q, s1)" by fastforce
    have s1: "same_deployment (rn_status s) (rn_status s1)" using run_round_same r by (metis run_same_def snd_conv)
    then show ?thesis
      using False n r same_deployment_trans [OF s1 1 [OF _ n r [symmetric]]]
      by (subst run_service.simps) (simp split: run_next.split)
  qed
qed

section \<open>An error while waiting\<close>

text \<open>Further result: an error while the task waits for its instance, such as the journal refusing a
  line, is taken for the end of the instance, but only half. The descriptors of the instance are
  closed in the persist daemon, its process is left running there, and the task goes on waiting for
  the same instance. When the client daemon starts again it finds the process running, cannot fetch
  its output, and gives up on it.\<close>

theorem failed_wait_blocks_load:
  assumes "rn_instance s = Some i"
    and "process_service_instance (se_ms env) run_args (rn_events s) i (rn_status s) = (Some (Inl e), i', kept, evs)"
    and "\<And>n. se_sys env n (Log ''Service failed'')"
    and "st_stdout_key (rn_status s) = Some (stdout_read_key name (st_instance_id (rn_status s)))"
  shows "\<exists>s'. run_round env name iid now s = (Goes_on, s') \<and> rn_instance s' = Some i'
    \<and> ps_processes (sw_persist (rn_world s')) = ps_processes (sw_persist (rn_world s))
    \<and> (\<exists>err. load_from_status env (sw_persist (rn_world s')) t name (rn_status s) True = Inl err)"
proof -
  let ?id = "st_instance_id (rn_status s)"
  let ?w = "snd (cleanup_instance env name ?id ((rn_world s)\<lparr>sw_calls := Log ''Service failed'' # sw_calls (rn_world s)\<rparr>))"
  let ?s = "s\<lparr>rn_instance := Some i', rn_status := kept, rn_events := evs, rn_world := ?w\<rparr>"
  have k: "st_instance_id kept = ?id" using process_keeps [OF assms(2)] by (simp add: same_run_def)
  have r: "run_round env name iid now s = (Goes_on, ?s)"
    using assms(1-3) k by (simp add: run_round_def Let_def run_act_def act_then_def act_bind_def sys_def cleanup_instance_state)
  have "starts_with (instance_prefix name ?id) (stdout_read_key name ?id)"
    by (simp add: stdout_read_key_def starts_with_def)
  then have "map_of (ps_fds (sw_persist ?w)) (stdout_read_key name ?id) = None"
    by (simp add: cleanup_instance_state map_of_fold_delete set_keys_with)
  then have "get_key env (sw_persist ?w) ''stdout'' (Some (stdout_read_key name ?id))
      = Inl (Load_message (''Unable to fetch '' @ ''stdout'' @ '' fd''))"
    by (simp add: get_key_def request_defs Let_def)
  then have "\<exists>err. load_from_status env (sw_persist ?w) t name (rn_status s) True = Inl err"
    using assms(4) by (simp add: load_from_status_def get_keys_def Let_def)
  moreover have "ps_processes (sw_persist ?w) = ps_processes (sw_persist (rn_world s))"
    by (simp add: cleanup_instance_state)
  ultimately show ?thesis using r by simp
qed

definition demo_waiting :: "nat run_state" where
  "demo_waiting = \<lparr>rn_instance = Some (fresh_instance 1 0 None), rn_cancelled = False,
     rn_status = demo_status\<lparr>st_stdout_key := Some ''service.a.1.stdout_read''\<rparr>, rn_world = demo_world,
     rn_events = [(5, On_stdout (Data ''x'' False))]\<rparr>"

theorem failed_wait_blocks_load_witness:
  "\<exists>s'. run_round demo_env ''a'' 2 5 demo_waiting = (Goes_on, s') \<and> rn_instance s' \<noteq> None
    \<and> map_of (ps_processes (sw_persist (rn_world s'))) ''service.a.1'' = Some 77"
proof -
  obtain i where i: "process_service_instance (se_ms (demo_env :: nat service_env)) run_args (rn_events demo_waiting)
      (fresh_instance 1 0 None) (rn_status demo_waiting) = (Some (Inl Log_failed), i, rn_status demo_waiting, [])"
    by (simp add: process_service_instance_def demo_waiting_def wait_loop.simps enabled_event_def instance_step_def
        run_args_def fresh_instance_def instance_over_def SERVICES_BUF_SIZE_def)
  have "\<exists>s'. run_round demo_env ''a'' 2 5 demo_waiting = (Goes_on, s') \<and> rn_instance s' = Some i
      \<and> ps_processes (sw_persist (rn_world s')) = ps_processes (sw_persist (rn_world demo_waiting))
      \<and> (\<exists>err. load_from_status demo_env (sw_persist (rn_world s')) 0 ''a'' (rn_status demo_waiting) True = Inl err)"
    by (rule failed_wait_blocks_load [OF _ i])
       (simp_all add: demo_waiting_def demo_env_def demo_status_def stdout_read_key_def instance_prefix_def show_nat.simps char_of_def bit_iff_odd)
  then show ?thesis by (auto simp: demo_waiting_def demo_world_def)
qed

section \<open>What is loaded\<close>

definition registered :: "service_fd persist_state \<Rightarrow> 'f service_status \<Rightarrow> bool" where
  "registered p st = (case st_process_key st of
     None \<Rightarrow> False | Some k \<Rightarrow> starts_with ''service.'' k \<and> map_of (ps_processes p) k \<noteq> None)"

definition held :: "'f service_env \<Rightarrow> service_fd persist_state \<Rightarrow> string option \<Rightarrow> bool" where
  "held env p key = (case Option.bind key (\<lambda>k. stored_fd k p) of None \<Rightarrow> False | Some fd \<Rightarrow> os_dup (se_os env) fd)"

text \<open>What loading makes of a service.\<close>

definition loaded_as :: "'f service_env \<Rightarrow> service_fd persist_state \<Rightarrow> instant \<Rightarrow> string \<Rightarrow> 'f service_status \<Rightarrow> 'f loaded_service" where
  "loaded_as env p now name st =
     (if st_enabled st then \<lparr>ld_status = st, ld_running = True,
        ld_instance = (if registered p st
          then Some (started_instance env (st_description st) (st_instance_id st) now (st_pod_name st)) else None)\<rparr>
      else \<lparr>ld_status = service_new name now, ld_running = False, ld_instance = None\<rparr>)"

definition loadable :: "'f service_env \<Rightarrow> service_fd persist_state \<Rightarrow> 'f service_status \<Rightarrow> bool" where
  "loadable env p st \<longleftrightarrow> (registered p st \<longrightarrow> st_enabled st \<and> held env p (st_stdout_key st) \<and> held env p (st_stderr_key st) \<and> held env p (st_notify_key st))"

lemma held_key: "held env p key \<Longrightarrow> \<exists>fd. get_key env p what key = Inr fd"
  by (auto simp: held_def get_key_def stored_fd_def request_defs Let_def bind_eq_Some_conv split: option.splits)

lemma load_from_status_loadable:
  assumes "loadable env p st"
  shows "load_from_status env p now name st (registered p st) = Inr (loaded_as env p now name st)"
proof (cases "registered p st")
  case True
  with assms have h: "held env p (st_stdout_key st)" "held env p (st_stderr_key st)" "held env p (st_notify_key st)" and e: "st_enabled st"
    by (simp_all add: loadable_def)
  have "get_keys env p st = Inr ()"
    using h held_key [OF h(1), of "''stdout''"] held_key [OF h(2), of "''stderr''"] held_key [OF h(3), of "''notify''"]
    by (cases "st_stdout_key st"; cases "st_stderr_key st"; cases "st_notify_key st") (auto simp: get_keys_def held_def)
  with True e show ?thesis by (simp add: load_from_status_def loaded_as_def Let_def)
next
  case False
  then show ?thesis by (simp add: load_from_status_def loaded_as_def Let_def)
qed

definition service_keys :: "service_fd persist_state \<Rightarrow> string list" where
  "service_keys p = keys_with (Some ''service.'') (ps_processes p)"

lemma service_runs_registered: "service_runs (service_keys p) st = registered p st"
  by (auto simp: service_runs_def registered_def service_keys_def set_keys_with split: option.split)

lemma load_services_table:
  "load_services env now w = load_table env (sw_persist w) (service_keys (sw_persist w)) now (sw_rows w) []"
  by (simp add: load_services_def service_keys_def request_defs Let_def)

lemma load_table_append:
  assumes "\<forall>(n, st) \<in> set pre. loadable env p st"
  shows "\<exists>acc'. load_table env p (service_keys p) now (pre @ rows) acc = load_table env p (service_keys p) now rows acc'
    \<and> (distinct (map fst pre) \<longrightarrow> (\<forall>name. map_of acc' name = (case map_of pre name of
          Some st \<Rightarrow> Some (loaded_as env p now name st) | None \<Rightarrow> map_of acc name)))
    \<and> fst ` set acc' = fst ` set acc \<union> fst ` set pre"
  using assms
proof (induction pre arbitrary: acc)
  case (Cons r pre)
  obtain n st where r: "r = (n, st)" by (cases r)
  with Cons.prems have l: "load_from_status env p now n st (service_runs (service_keys p) st) = Inr (loaded_as env p now n st)"
    by (simp add: service_runs_registered load_from_status_loadable)
  have pre: "\<forall>(n, st) \<in> set pre. loadable env p st" using Cons.prems by simp
  from Cons.IH [OF pre, of "AList.update n (loaded_as env p now n st) acc"] obtain acc' where a: "load_table env p (service_keys p) now (pre @ rows) (AList.update n (loaded_as env p now n st) acc)
      = load_table env p (service_keys p) now rows acc'"
    "distinct (map fst pre) \<longrightarrow> (\<forall>name. map_of acc' name = (case map_of pre name of
          Some st \<Rightarrow> Some (loaded_as env p now name st) | None \<Rightarrow> map_of (AList.update n (loaded_as env p now n st) acc) name))"
    "fst ` set acc' = fst ` set (AList.update n (loaded_as env p now n st) acc) \<union> fst ` set pre" by blast
  have "fst ` set (AList.update n (loaded_as env p now n st) acc) = insert n (fst ` set acc)"
    by (simp add: dom_update)
  moreover have "map_of pre n = None" if "distinct (map fst (r # pre))"
    using that r by (simp add: map_of_eq_None_iff)
  ultimately show ?case
    using a l r by (intro exI [of _ acc']) (auto simp: update_conv' split: option.split)
qed auto

text \<open>Further result: a client daemon that starts finds its services as they were. When every service
  whose process still runs is enabled and has its descriptors in the persist daemon, each service
  that is enabled has its stored status and a task, which gets an instance exactly if the process of
  the service still runs.\<close>

theorem services_loaded:
  assumes "distinct (map fst (sw_rows w))" "\<forall>(n, st) \<in> set (sw_rows w). loadable env (sw_persist w) st"
  shows "case load_services env now w of (r, services) \<Rightarrow> r = Inr ()
    \<and> (\<forall>name. map_of services name = map_option (loaded_as env (sw_persist w) now name) (map_of (sw_rows w) name))"
  using load_table_append [OF assms(2), of now "[]" "[]"] assms(1)
  by (auto simp: load_services_table split: option.split)

theorem services_loaded_witness:
  "map_of (snd (load_services demo_env 9 (demo_world\<lparr>sw_rows := [(''a'', demo_status\<lparr>st_process_key := None\<rparr>)]\<rparr>))) ''a''
     = Some \<lparr>ld_status = demo_status\<lparr>st_process_key := None\<rparr>, ld_running = True, ld_instance = None\<rparr>"
  using services_loaded [of "demo_world\<lparr>sw_rows := [(''a'', demo_status\<lparr>st_process_key := None\<rparr>)]\<rparr>" demo_env 9]
  by (simp add: loadable_def registered_def loaded_as_def demo_status_def split: prod.splits)

text \<open>Further result: one service that cannot be loaded keeps all after it in the table from being
  loaded; they are not known to the client daemon at all.\<close>

theorem load_stops_at_failure:
  assumes "sw_rows w = pre @ (n, st) # post" "distinct (map fst (sw_rows w))"
    and "\<forall>(n, st) \<in> set pre. loadable env (sw_persist w) st"
    and "load_from_status env (sw_persist w) now n st (registered (sw_persist w) st) = Inl e" "m \<in> fst ` set post"
  shows "\<exists>services. load_services env now w = (Inl e, services) \<and> map_of services m = None"
proof -
  from load_table_append [OF assms(3), of now "(n, st) # post" "[]"] obtain acc where
    "load_table env (sw_persist w) (service_keys (sw_persist w)) now (sw_rows w) []
      = load_table env (sw_persist w) (service_keys (sw_persist w)) now ((n, st) # post) acc" "fst ` set acc = fst ` set pre"
    unfolding assms(1) by auto
  moreover have "m \<noteq> n" "m \<notin> fst ` set pre" using assms(1,2,5) by auto
  moreover have "map_of (AList.update n v acc) m = None" for v
    using calculation by (simp add: update_conv' map_of_eq_None_iff)
  ultimately show ?thesis
    using assms(4) by (simp add: load_services_table service_runs_registered)
qed

theorem load_stops_at_failure_witness:
  "\<exists>services. load_services demo_env 9 (demo_world\<lparr>sw_rows := [(''a'', demo_status), (''b'', demo_status)]\<rparr>)
     = (Inl (Load_message ''Expected stdout key''), services) \<and> map_of services ''b'' = None"
  by (rule load_stops_at_failure [where pre = "[]" and n = "''a''" and st = demo_status and post = "[(''b'', demo_status)]"])
     (simp_all add: load_from_status_def registered_def get_keys_def demo_status_def demo_world_def starts_with_def)

end
