(* ===== verification/Service_Ops.thy ===== *)
theory Service_Ops
  imports Deploy_Files Service_Run
begin

text \<open>
  What the operations on a service leave of it (\<open>client_daemon_service.rs\<close>): the stored status after
  a stop and what the next start of the client daemon makes of it, the deployment after a restart,
  and the way back after a failed deployment.
\<close>

section \<open>Steps of an operation\<close>

lemma op_then_Inr:
  "op_then m n s = (Some (Inr v), s') \<longleftrightarrow> (\<exists>u s1. m s = (Some (Inr u), s1) \<and> n s1 = (Some (Inr v), s'))"
  by (auto simp: op_then_def op_bind_def split: prod.splits option.splits sum.splits)

lemma op_bind_Inr:
  "op_bind m f s = (Some (Inr v), s') \<longleftrightarrow> (\<exists>u s1. m s = (Some (Inr u), s1) \<and> f u s1 = (Some (Inr v), s'))"
  by (auto simp: op_bind_def split: prod.splits option.splits sum.splits)

lemma op_then_Inl:
  "op_then m n s = (Some (Inl e), s') \<longleftrightarrow> m s = (Some (Inl e), s')
    \<or> (\<exists>u s1. m s = (Some (Inr u), s1) \<and> n s1 = (Some (Inl e), s'))"
  by (auto simp: op_then_def op_bind_def split: prod.splits option.splits sum.splits)

lemma op_act_iff: "op_act m s = (r, s') \<longleftrightarrow> (\<exists>x w. m (sv_world s) = (x, w) \<and> r = Some x \<and> s' = s\<lparr>sv_world := w\<rparr>)"
  by (auto simp: op_act_def split: prod.splits)

text \<open>An operation that changes the status only in its state, and not whether a task runs.\<close>

definition op_same :: "('f, 'a) op \<Rightarrow> bool" where
  "op_same m \<longleftrightarrow> (\<forall>s. only_state (sv_status s) (sv_status (snd (m s))))"

named_theorems ops_same

lemma op_sameD: "op_same m \<Longrightarrow> m s = (r, s') \<Longrightarrow> only_state (sv_status s) (sv_status s')"
  by (metis op_same_def snd_conv)

lemma op_same_basic [ops_same]: "op_same (op_return v)" "op_same (op_fail e)" "op_same (op_act m)"
  by (auto simp: op_same_def op_return_def op_fail_def op_act_def split: prod.split)

lemma op_same_bind [ops_same]:
  assumes "op_same m" "\<And>v. op_same (f v)"
  shows "op_same (op_bind m f)"
  unfolding op_same_def
proof
  fix s :: "'a svc"
  obtain r s1 where m: "m s = (r, s1)" by fastforce
  from op_sameD [OF assms(1) m] assms(2) show "only_state (sv_status s) (sv_status (snd (op_bind m f s)))"
    by (auto simp: op_bind_def m op_same_def split: option.split sum.split intro: only_state_trans)
qed

lemma op_same_then [ops_same]: "op_same m \<Longrightarrow> op_same n \<Longrightarrow> op_same (op_then m n)"
  by (simp add: op_then_def op_same_bind)

lemma op_same_get [ops_same]: "(\<And>s. op_same (f s)) \<Longrightarrow> op_same (op_get f)"
  by (simp add: op_same_def op_get_def)

lemma op_same_set [ops_same]: "(\<And>s. sv_status (f s) = sv_status s) \<Longrightarrow> op_same (op_set f)"
  by (simp add: op_same_def op_set_def)

lemma op_same_if [ops_same]: "op_same m \<Longrightarrow> op_same n \<Longrightarrow> op_same (if b then m else n)"
  by simp

lemma op_same_option [ops_same]:
  "op_same a \<Longrightarrow> (\<And>x. op_same (b x)) \<Longrightarrow> op_same (case m of None \<Rightarrow> a | Some x \<Rightarrow> b x)"
  by (simp split: option.split)

lemma op_same_prod [ops_same]: "(\<And>x y. op_same (b x y)) \<Longrightarrow> op_same (case m of (x, y) \<Rightarrow> b x y)"
  by (simp split: prod.split)

lemma op_same_start [ops_same]: "op_same (op_start_instance env name rq i now)"
  by (auto simp: op_same_def op_start_instance_def split: prod.split dest: start_instance_same)

lemma stop_loop_only:
  "stop_loop env name deadline ours grace (s, status, w, evs) = (r, s', status', w', evs') \<Longrightarrow> only_state status status'"
proof (induction "length evs" arbitrary: s status w evs rule: less_induct)
  case less
  note unfold = stop_loop.simps [of env name deadline _ grace s status w evs]
  obtain p i st1 evs1 where p: "process_service_instance (se_ms env) (stop_args deadline) evs (stp_instance s) status
      = (p, i, st1, evs1)" by (metis surj_pair)
  note o1 = process_only [OF p]
  show ?case
  proof (cases "\<exists>y. p = Some (Inr y) \<and> y \<notin> {Finished, Canceled, Is_ready} \<and> \<not> ours \<and> stp_state s \<noteq> Sent9")
    case True
    then have l: "length evs1 < length evs" using process_consumes p by blast
    obtain k w1 where k: "stop_kill env st1 (stp_process_key s) w = (k, w1)" by fastforce
    show ?thesis
      using True less.prems k o1 less.hyps [OF l] by (cases k) (auto simp: unfold p Let_def intro: only_state_trans)
  next
    case False
    with less.prems o1 show ?thesis
      by (auto simp: unfold p Let_def split: option.splits sum.splits if_splits intro: only_state_trans)
  qed
qed

lemma stop_run_only:
  "stop_run env name timeout grace (s, status, w, evs) = (r, s', status', w', evs') \<Longrightarrow> only_state status status'"
  by (auto simp: stop_run_def split: option.splits if_splits dest: stop_loop_only)

lemma op_same_stop [ops_same]: "op_same (op_stop_run env name timeout grace st)"
  by (auto simp: op_same_def op_stop_run_def split: prod.split dest: stop_run_only)

lemma op_same_task [ops_same]: "op_same create_run_service_task" "op_same (op_set (end_task tend))"
  by (auto simp: create_run_service_task_def end_task_def intro!: ops_same split: sum.split)

lemma op_same_more [ops_same]: "op_same (persist_status env name)" "op_same (op_cleanup env name)"
  by (auto simp: persist_status_def op_cleanup_def intro!: ops_same)

lemma op_same_stop_inner [ops_same]: "op_same (stop_inner env name tend now)"
  unfolding stop_inner_def by (intro ops_same)

text \<open>Acts and the steps of an instance leave \<open>sv_running\<close> alone.\<close>

lemma running_act: "op_act m s = (r, s') \<Longrightarrow> sv_running s' = sv_running s"
  by (auto simp: op_act_iff)

lemma running_start: "op_start_instance env name rq i now s = (r, s') \<Longrightarrow> sv_running s' = sv_running s"
  by (auto simp: op_start_instance_def split: prod.splits)

lemma running_stop_run: "op_stop_run env name timeout grace st s = (r, s') \<Longrightarrow> sv_running s' = sv_running s"
  by (auto simp: op_stop_run_def split: prod.splits)

lemma running_persist: "persist_status env name s = (r, s') \<Longrightarrow> sv_running s' = sv_running s"
  by (auto simp: persist_status_def op_get_def dest: running_act)

lemma running_cleanup: "op_cleanup env name s = (r, s') \<Longrightarrow> sv_running s' = sv_running s"
  by (auto simp: op_cleanup_def op_get_def dest: running_act)

text \<open>A stop that succeeds takes the task off the service.\<close>

lemma stop_inner_done:
  assumes "stop_inner env name tend now s = (Some (Inr u), s')"
  shows "\<not> sv_running s'"
proof (cases "sv_running s")
  case True
  with assms obtain x where t: "tend = Inr x"
    by (cases tend) (auto simp: stop_inner_def op_get_def op_then_Inr op_bind_Inr op_set_def op_act_iff take_task_def
        stop_new_def act_fail_def)
  have "sv_running (end_task tend s) = False" by (simp add: t end_task_def)
  with assms show ?thesis
    by (auto simp: stop_inner_def op_get_def op_then_Inr op_bind_Inr op_set_def op_act_iff op_return_def
        split: option.splits dest!: running_stop_run)
next
  case False
  then have "sv_running (end_task tend s) = False" by (simp add: end_task_def split: sum.split)
  with assms show ?thesis
    by (auto simp: stop_inner_def op_get_def op_then_Inr op_bind_Inr op_set_def op_act_iff op_return_def
        split: option.splits dest!: running_stop_run)
qed

section \<open>Starting, stopping and restarting\<close>

lemma persist_status_done:
  assumes "persist_status env name s = (r, s')"
  shows "sv_status s' = sv_status s \<and> sw_persist (sv_world s') = sw_persist (sv_world s)
    \<and> (r = Some (Inr u) \<longrightarrow> map_of (sw_rows (sv_world s')) name = Some (sv_status s))"
  using assms by (auto simp: persist_status_def op_get_def op_act_iff act_defs sys_def update_conv' split: if_splits)

lemma stop_service_done:
  assumes "stop_service env name tend now s = (Some (Inr u), s')"
  shows "\<not> sv_running s' \<and> \<not> st_enabled (sv_status s') \<and> same_deployment (sv_status s) (sv_status s')
    \<and> map_of (sw_rows (sv_world s')) name = Some (sv_status s')"
proof -
  from assms obtain u1 s1 u2 s2 u3 s3 where
      1: "stop_inner env name tend now s = (Some (Inr u1), s1)"
    and 2: "s2 = s1\<lparr>sv_status := (sv_status s1)\<lparr>st_enabled := False, st_start_stop_time := now\<rparr>\<rparr>"
    and 3: "op_cleanup env name s2 = (Some (Inr u3), s3)"
    and 4: "persist_status env name s3 = (Some (Inr u), s')"
    by (auto simp: stop_service_def op_get_def op_then_Inr op_set_def op_fail_def split: if_splits)
  have "same_deployment (sv_status s) (sv_status s1)"
    using op_sameD [OF op_same_stop_inner 1] only_state_same by blast
  then have "same_deployment (sv_status s) (sv_status s2)" unfolding 2 by (simp add: same_deployment_def)
  moreover have "sv_status s3 = sv_status s2" using 3 by (auto simp: op_cleanup_def op_get_def op_act_iff)
  moreover have "\<not> sv_running s'"
    using stop_inner_done [OF 1] running_cleanup [OF 3] running_persist [OF 4] 2 by simp
  ultimately show ?thesis using persist_status_done [OF 4] 2 by auto
qed

lemma no_program:
  assumes "sd_service_executable d = None"
  shows "start_launch env name d extra None i fds w \<noteq> (Inr pod, w')"
proof -
  have "pod_args env name d extra None i w1 \<noteq> (Inr a, w2)" for w1 a w2
    by (auto simp: pod_args_def act_bind_def act_fail_def split: prod.split sum.split)
  then show ?thesis
    using assms by (auto simp: start_launch_def act_then_def act_bind_def add_handler_def split: prod.splits sum.splits)
qed

lemma new_service_never_starts:
  assumes "sv_status s = service_new name t"
  shows "fst (start_service env name i now s) \<noteq> Some (Inr ())"
proof
  assume "fst (start_service env name i now s) = Some (Inr ())"
  then obtain s' where "start_service env name i now s = (Some (Inr ()), s')" by (metis prod.collapse)
  then obtain u1 s1 r s2 where 1: "op_cleanup env name s = (Some (Inr u1), s1)"
    and 2: "op_start_instance env name (restart_request (sv_status s)) i now s1 = (Some (Inr r), s2)"
    by (auto simp: start_service_def op_get_def op_then_Inr op_bind_Inr op_fail_def split: if_splits)
  have rq: "sd_service_executable (sr_desc (restart_request (sv_status s))) = None"
    "sr_image (restart_request (sv_status s)) = None"
    by (simp_all add: assms restart_request_def service_new_def service_new_description_def)
  from 2 obtain w d extra fds pod w' where "start_launch env name d extra (sr_image (restart_request (sv_status s))) i fds w = (Inr pod, w')"
    "d = sr_desc (restart_request (sv_status s))"
    by (auto simp: op_start_instance_def start_instance_def start_instance_inner_def Let_def
        split: prod.splits option.splits sum.splits)
  with no_program rq show False by metis
qed

text \<open>Further result: a service that was stopped is forgotten when the client daemon starts again.
  Its row in the table says what is deployed, but a service that is neither enabled nor running is
  loaded as a new one, without a description, and can never be started.\<close>

theorem stopped_service_forgotten:
  assumes "stop_service env name tend now s = (Some (Inr u), s')"
  shows "\<exists>st. map_of (sw_rows (sv_world s')) name = Some st \<and> same_deployment (sv_status s) st
    \<and> load_from_status env p t name st False
        = Inr \<lparr>ld_status = service_new name t, ld_running = False, ld_instance = None\<rparr>
    \<and> (\<forall>s2 i. sv_status s2 = service_new name t \<longrightarrow> fst (start_service env name i t s2) \<noteq> Some (Inr ()))"
  using stop_service_done [OF assms]
  by (intro exI [of _ "sv_status s'"] conjI allI impI new_service_never_starts) (simp_all add: load_from_status_def Let_def)

theorem stopped_service_forgotten_witness:
  "\<exists>st. fst (stop_service demo_env ''a'' (Inr None) 5 demo_svc) = Some (Inr ())
    \<and> load_from_status demo_env persist_default 9 ''a'' st False
        = Inr \<lparr>ld_status = service_new ''a'' 9, ld_running = False, ld_instance = None\<rparr> \<and> st_description st = demo_description"
proof -
  have "\<exists>s'. stop_service demo_env ''a'' (Inr None) 5 demo_svc = (Some (Inr ()), s')"
    by (simp add: stop_service_def stop_inner_def op_defs end_task_def take_task_def stop_new_def act_defs
        op_cleanup_def cleanup_def cleanup_rest_def podman_user_def cleanup_containers_def command_def sys_def
        persist_status_def demo_svc_def demo_status_def demo_description_def demo_env_def split: prod.split)
  then obtain s' where s': "stop_service demo_env ''a'' (Inr None) 5 demo_svc = (Some (Inr ()), s')" by blast
  have "sv_status demo_svc = demo_status" "st_description demo_status = demo_description"
    by (simp_all add: demo_svc_def demo_status_def)
  with stopped_service_forgotten [OF s', of persist_default 9] s' show ?thesis
    by (auto simp: same_deployment_def)
qed

text \<open>Further result: a service whose task ended with an error can be neither stopped nor started any
  more: the task that ended stays on the service.\<close>

theorem failed_task_stuck:
  assumes "sv_running s"
  shows "stop_service env name (Inl e) now s = (Some (Inl (Service_message ''Failed to wait for task'')), s)
    \<and> restart_service env name (Inl e) i now s = (Some (Inl (Service_message ''Failed to wait for task'')), s)
    \<and> start_service env name i now s = (Some (Inl (Service_message ''Service is already running'')), s)"
  using assms by (simp add: stop_service_def restart_service_def start_service_def stop_inner_def op_defs
      end_task_def take_task_def stop_new_def act_fail_def)

theorem failed_task_stuck_witness:
  "fst (stop_service demo_env ''a'' (Inl (Service_message ''x'')) 5 demo_svc)
     = Some (Inl (Service_message ''Failed to wait for task''))"
  using failed_task_stuck [of demo_svc demo_env "''a''" "Service_message ''x''" 5] by (simp add: demo_svc_def)

lemma start_service_done:
  assumes "start_service env name i now s = (Some (Inr u), s')"
  shows "\<not> sv_running s \<and> sv_running s' \<and> st_enabled (sv_status s') \<and> same_deployment (sv_status s) (sv_status s')
    \<and> st_process_key (sv_status s') = Some (process_key_of (sd_name (st_description (sv_status s))) i)
    \<and> map_of (ps_processes (sw_persist (sv_world s'))) (process_key_of (sd_name (st_description (sv_status s))) i) \<noteq> None
    \<and> map_of (sw_rows (sv_world s')) name = Some (sv_status s')"
proof -
  from assms obtain u1 s1 ins st s2 s3 where run: "\<not> sv_running s"
    and 1: "op_cleanup env name s = (Some (Inr u1), s1)"
    and 2: "op_start_instance env name (restart_request (sv_status s)) i now s1 = (Some (Inr (ins, st)), s2)"
    and 3: "s3 = s2\<lparr>sv_status := st\<lparr>st_enabled := True, st_deploy_time := st_deploy_time (sv_status s)\<rparr>, sv_running := True\<rparr>"
    and 4: "persist_status env name s3 = (Some (Inr u), s')"
    by (auto simp: start_service_def op_get_def op_then_Inr op_bind_Inr op_set_def op_fail_def create_run_service_task_def
        op_cleanup_def op_act_iff split: if_splits)
  have s1: "sv_status s1 = sv_status s" using 1 by (auto simp: op_cleanup_def op_get_def op_act_iff)
  from 2 obtain kept w evs where q: "start_instance env name (restart_request (sv_status s)) i now
      (sv_status s1, sv_world s1, sv_events s1) = (Some (Inr (ins, st)), kept, w, evs)" and w: "sv_world s2 = w"
    by (auto simp: op_start_instance_def split: prod.splits)
  from started_service [OF q] start_instance_same [OF q] persist_status_done [OF 4] running_persist [OF 4] run 3 s1 w
  show ?thesis by (simp add: restart_request_def same_deployment_def)
qed

text \<open>Further result: a restart that succeeds leaves the service running as it was deployed: the
  description, the variables, the image, and who deployed it and when are the same, the process of
  the new instance is registered, the service is enabled, and this is what is stored.\<close>

theorem restart_same_deployment:
  assumes "restart_service env name tend i now s = (Some (Inr u), s')"
  shows "sv_running s' \<and> st_enabled (sv_status s') \<and> same_deployment (sv_status s) (sv_status s')
    \<and> map_of (ps_processes (sw_persist (sv_world s'))) (process_key_of (sd_name (st_description (sv_status s))) i) \<noteq> None
    \<and> map_of (sw_rows (sv_world s')) name = Some (sv_status s')"
proof -
  from assms obtain u1 s1 where 1: "stop_inner env name tend now s = (Some (Inr u1), s1)"
    and 2: "start_service env name i now s1 = (Some (Inr u), s')"
    by (auto simp: restart_service_def op_then_Inr)
  have k: "same_deployment (sv_status s) (sv_status s1)" using op_sameD [OF op_same_stop_inner 1] only_state_same by blast
  then have "st_description (sv_status s1) = st_description (sv_status s)" by (simp add: same_deployment_def)
  with start_service_done [OF 2] same_deployment_trans [OF k] show ?thesis by simp
qed

lemma demo_sys_ok: "se_sys demo_env n c"
  by (simp add: demo_env_def)

definition demo_stopped :: "sys_call list \<Rightarrow> deploy_action list \<Rightarrow> nat svc" where
  "demo_stopped cs as = \<lparr>sv_running = False, sv_status = demo_status, sv_world = demo_empty\<lparr>sw_calls := cs\<rparr>,
     sv_events = [], sv_actions = as\<rparr>"

lemma demo_start_service: "\<exists>s'. start_service demo_env ''a'' 2 100 (demo_stopped cs as) = (Some (Inr ()), s')"
proof -
  have "\<exists>cs'. cleanup demo_env ''a'' None (demo_empty\<lparr>sw_calls := cs\<rparr>) = (Inr (), demo_empty\<lparr>sw_calls := cs'\<rparr>)"
    by (simp add: cleanup_def cleanup_rest_def podman_user_def cleanup_containers_def command_def sys_def act_defs
        demo_env_def demo_empty_def demo_world_def persist_default_def keys_with_def)
  then obtain cs' where cs': "cleanup demo_env ''a'' None (demo_empty\<lparr>sw_calls := cs\<rparr>) = (Inr (), demo_empty\<lparr>sw_calls := cs'\<rparr>)" by blast
  have d: "sd_user (st_description demo_status) = None" "restart_request demo_status = demo_plain"
    by (simp_all add: demo_status_def demo_description_def restart_request_def demo_plain_def)
  obtain inst st kept w evs where 2: "start_instance demo_env ''a'' demo_plain 2 100 (demo_status, demo_empty\<lparr>sw_calls := cs'\<rparr>, [])
    = (Some (Inr (inst, st)), kept, w, evs)" using demo_starts [of cs'] by blast
  show ?thesis
    using cs' 2 by (simp add: op_then_def op_bind_def start_service_def op_get_def op_cleanup_def op_act_def
        op_start_instance_def d demo_stopped_def op_set_def create_run_service_task_def persist_status_def act_then_def act_bind_def
        sys_def demo_sys_ok)
qed

lemma demo_names: "process_key_of ''a'' 2 = ''service.a.2''" "st_description demo_status = demo_description" "sd_name demo_description = ''a''"
  by (simp_all add: process_key_of_def show_nat.simps char_of_def bit_iff_odd demo_status_def demo_description_def)

theorem restart_same_deployment_witness:
  "\<exists>s'. restart_service demo_env ''a'' (Inr None) 2 100 (demo_svc\<lparr>sv_world := demo_empty\<rparr>) = (Some (Inr ()), s')
    \<and> st_description (sv_status s') = demo_description \<and> map_of (ps_processes (sw_persist (sv_world s'))) ''service.a.2'' \<noteq> None"
proof -
  let ?s = "demo_svc\<lparr>sv_world := demo_empty\<rparr>"
  have 1: "stop_inner demo_env ''a'' (Inr None) 100 ?s = (Some (Inr ()), demo_stopped (sw_calls demo_empty) [])"
    by (simp add: stop_inner_def op_defs end_task_def take_task_def stop_new_def act_defs demo_svc_def demo_stopped_def)
  obtain s' where s': "restart_service demo_env ''a'' (Inr None) 2 100 ?s = (Some (Inr ()), s')"
    using demo_start_service [of "sw_calls demo_empty" "[]"]
    by (auto simp: restart_service_def op_then_def op_bind_def 1)
  have "sv_status ?s = demo_status" by (simp add: demo_svc_def)
  with restart_same_deployment [OF s'] s' demo_names show ?thesis by (auto simp: same_deployment_def)
qed

section \<open>The way back after a failed deployment\<close>

text \<open>Which actions an operation notes.\<close>

definition pushes :: "(deploy_action \<Rightarrow> bool) \<Rightarrow> ('f, 'a) op \<Rightarrow> bool" where
  "pushes P m \<longleftrightarrow> (\<forall>s. \<exists>as. sv_actions (snd (m s)) = sv_actions s @ as \<and> (\<forall>a \<in> set as. P a))"

lemma pushesD: "pushes P m \<Longrightarrow> m s = (r, s') \<Longrightarrow> \<exists>as. sv_actions s' = sv_actions s @ as \<and> (\<forall>a \<in> set as. P a)"
  unfolding pushes_def by (metis snd_conv)

lemma pushes_keeps: "op_keeps m \<Longrightarrow> pushes P m"
  by (simp add: pushes_def op_keeps_def)

lemma pushes_push: "P a \<Longrightarrow> pushes P (push_action a)"
  by (simp add: pushes_def push_action_def op_set_def)

lemma pushes_bind:
  assumes "pushes P m" "\<And>v. pushes P (f v)"
  shows "pushes P (op_bind m f)"
  unfolding pushes_def
proof
  fix s :: "'a svc"
  obtain r s1 where m: "m s = (r, s1)" by fastforce
  from pushesD [OF assms(1) m] obtain as where as: "sv_actions s1 = sv_actions s @ as" "\<forall>a \<in> set as. P a" by blast
  have "\<exists>bs. sv_actions (snd (op_bind m f s)) = sv_actions s1 @ bs \<and> (\<forall>a \<in> set bs. P a)"
    using assms(2) [unfolded pushes_def] by (auto simp: op_bind_def m split: option.split sum.split)
  then obtain bs where "sv_actions (snd (op_bind m f s)) = sv_actions s1 @ bs" "\<forall>a \<in> set bs. P a" by blast
  with as show "\<exists>as. sv_actions (snd (op_bind m f s)) = sv_actions s @ as \<and> (\<forall>a \<in> set as. P a)"
    by (intro exI [of _ "as @ bs"]) auto
qed

lemma pushes_then: "pushes P m \<Longrightarrow> pushes P n \<Longrightarrow> pushes P (op_then m n)"
  by (simp add: op_then_def pushes_bind)

definition extraction :: "deploy_action \<Rightarrow> bool" where
  "extraction a = (case a of ExtractFile _ _ \<Rightarrow> True | StartPodmanImage _ _ \<Rightarrow> True | _ \<Rightarrow> False)"

lemma keeps_file_act: "pushes P (op_act m)"
  by (auto simp: pushes_def op_act_def split: prod.split)

lemma pushes_basic: "pushes P (op_return v)" "pushes P (op_fail e)"
  by (simp_all add: pushes_keeps ops_kept)

lemma pushes_cases:
  "pushes P a \<Longrightarrow> pushes P b \<Longrightarrow> pushes P (if c then a else b)"
  "pushes P a \<Longrightarrow> (\<And>x. pushes P (g x)) \<Longrightarrow> pushes P (case m of None \<Rightarrow> a | Some x \<Rightarrow> g x)"
  "(\<And>x y. pushes P (h x y)) \<Longrightarrow> pushes P (case p of (x, y) \<Rightarrow> h x y)"
  by (simp_all split: option.split prod.split)

lemmas pushes_rules = pushes_basic pushes_cases pushes_bind pushes_then keeps_file_act

lemma pushes_replace: "pushes extraction (replace_entry env x dst tmp)"
  unfolding replace_entry_def
  by (intro pushes_rules pushes_push) (simp add: extraction_def)

lemma pushes_extract_files: "pushes extraction (extract_files env user img container fs)"
proof (induction fs)
  case (Cons f fs)
  have "pushes extraction (extract_one env user img container f)"
    unfolding extract_one_def Let_def by (intro pushes_rules pushes_replace)
  with Cons show ?case by (auto intro: pushes_then)
qed (simp add: pushes_basic)

lemma pushes_extract: "pushes extraction (deploy_extract env a r)"
proof -
  have "extraction (StartPodmanImage c u)" for c u by (simp add: extraction_def)
  then show ?thesis
    unfolding deploy_extract_def Let_def by (intro pushes_rules pushes_push pushes_extract_files)
qed

text \<open>An operation that fails has left the status, or a task runs the service, which is enabled.\<close>

definition fails_same :: "('f, 'a) op \<Rightarrow> bool" where
  "fails_same m \<longleftrightarrow> (\<forall>s e s'. m s = (Some (Inl e), s') \<longrightarrow>
     sv_running s' \<and> st_enabled (sv_status s') \<or> only_state (sv_status s) (sv_status s'))"

lemma fails_same_basic: "op_same m \<Longrightarrow> fails_same m"
  by (auto simp: fails_same_def dest: op_sameD)

lemma fails_same_then:
  assumes "op_same m" "fails_same n"
  shows "fails_same (op_then m n)"
  unfolding fails_same_def
proof (intro allI impI)
  fix s e s' assume "op_then m n s = (Some (Inl e), s')"
  then consider "m s = (Some (Inl e), s')" | u s1 where "m s = (Some (Inr u), s1)" "n s1 = (Some (Inl e), s')"
    by (auto simp: op_then_Inl)
  then show "sv_running s' \<and> st_enabled (sv_status s') \<or> only_state (sv_status s) (sv_status s')"
  proof cases
    case 1
    with op_sameD [OF assms(1)] show ?thesis by blast
  next
    case 2
    then have "sv_running s' \<and> st_enabled (sv_status s') \<or> only_state (sv_status s1) (sv_status s')"
      using assms(2) unfolding fails_same_def by blast
    with op_sameD [OF assms(1) 2(1)] only_state_trans show ?thesis by blast
  qed
qed

lemma fails_same_start: "fails_same (deploy_start env name a r)"
  unfolding fails_same_def
proof (intro allI impI)
  fix s e s' assume d: "deploy_start env name a r s = (Some (Inl e), s')"
  obtain q s1 where q: "op_start_instance env name (deploy_request a) (dr_instance r) (dr_now r) s = (q, s1)" by fastforce
  show "sv_running s' \<and> st_enabled (sv_status s') \<or> only_state (sv_status s) (sv_status s')"
  proof (cases "\<exists>v. q = Some (Inr v)")
    case False
    with d q have "s' = s1" by (auto simp: deploy_start_def op_bind_def split: option.splits sum.splits)
    with op_sameD [OF op_same_start q] show ?thesis by simp
  next
    case True
    then obtain i st where v: "q = Some (Inr (i, st))" by auto
    let ?s2 = "s1\<lparr>sv_status := st, sv_running := True\<rparr>"
    obtain p s3 where p: "persist_status env name ?s2 = (p, s3)" by fastforce
    have "st_enabled st"
      using q v started_service by (fastforce simp: op_start_instance_def split: prod.splits)
    then have s3: "sv_running s3" "st_enabled (sv_status s3)"
      using running_persist [OF p] persist_status_done [OF p] by simp_all
    have "sv_running s' \<and> st_enabled (sv_status s')"
      using d q v p s3
      by (auto simp: deploy_start_def op_bind_def op_get_def op_then_def op_set_def create_run_service_task_def op_return_def
          deploy_stop_old_def split: option.splits sum.splits if_splits prod.splits bool.splits)
    then show ?thesis by simp
  qed
qed

lemma op_same_push: "op_same (push_action a)"
  by (simp add: op_same_def push_action_def op_set_def)

lemma op_same_deploy_stop: "op_same (deploy_stop env name a r)"
proof -
  have c: "op_same (case st of Stopped \<Rightarrow> op_return () | Stopping \<Rightarrow> op_return () | New \<Rightarrow> push_action CreateService
      | _ \<Rightarrow> op_then (stop_inner env name (dr_tend r) (dr_now r)) (push_action StopService))" for st
    by (cases st) (simp_all add: ops_same op_same_push)
  show ?thesis
    unfolding deploy_stop_def by (intro ops_same c)
qed

lemma op_same_extract: "op_same (deploy_extract env a r)"
proof -
  have r: "op_same (replace_entry env x dst tmp)" for x dst tmp
    unfolding replace_entry_def by (intro ops_same op_same_push)
  have "op_same (extract_files env user img container fs)" for user img container fs
  proof (induction fs)
    case (Cons f fs)
    have "op_same (extract_one env user img container f)"
      unfolding extract_one_def Let_def by (intro ops_same r)
    with Cons show ?case by (auto intro: op_same_then)
  qed (simp add: ops_same)
  then show ?thesis unfolding deploy_extract_def Let_def by (intro ops_same op_same_push)
qed

lemma deploy_inner_fails_same: "fails_same (deploy_inner env name a r)"
  unfolding deploy_inner_def
  by (intro fails_same_then fails_same_start ops_same op_same_deploy_stop op_same_extract)

definition restart_only :: "deploy_action \<Rightarrow> bool" where
  "restart_only a = (extraction a \<or> a = StopService)"

lemma restore_step:
  assumes "extraction a" "restore_action env name r a s = (q, s')"
  shows "sv_running s' = sv_running s \<and> sv_status s' = sv_status s
    \<and> sw_persist (sv_world s') = sw_persist (sv_world s) \<and> (\<exists>u. q = Some (Inr u))"
proof -
  have k: "keeps_persist (file_op env c f)" for c f
    by (auto simp: keeps_persist_def file_op_def act_defs sys_def split: option.split)
  have f: "keeps_persist (forward_command env u argv)" for u argv
    unfolding forward_command_def by (intro persist_kept) (auto intro: persist_kept split: prod.split)
  have i: "keeps_persist m \<Longrightarrow> sw_persist (snd (act_ignore m w)) = sw_persist w" for m :: "('a, 'b) act" and w
    by (simp add: keeps_persist_def act_ignore_def)
  show ?thesis
    using assms k f by (cases a) (auto simp: restore_action_def extraction_def op_act_def act_ignore_def rename_def remove_file_def
        keeps_persist_def split: option.splits)
qed

text \<open>What a service that runs as deployed is.\<close>

definition runs_as :: "'f service_status \<Rightarrow> string \<Rightarrow> nat \<Rightarrow> 'f svc \<Rightarrow> bool" where
  "runs_as st name i s \<longleftrightarrow> sv_running s \<and> st_enabled (sv_status s) \<and> same_deployment st (sv_status s)
     \<and> st_process_key (sv_status s) = Some (process_key_of (sd_name (st_description st)) i)
     \<and> map_of (ps_processes (sw_persist (sv_world s))) (process_key_of (sd_name (st_description st)) i) \<noteq> None"

lemma restore_restarts:
  assumes "\<forall>a \<in> set as. restart_only a" "restore_actions env name r as s = (Some (Inr u), s')"
    and "if StopService \<in> set as then st_enabled (sv_status s) \<and> same_deployment st (sv_status s) else runs_as st name (dr_restart r) s"
  shows "runs_as st name (dr_restart r) s'"
  using assms
proof (induction as arbitrary: s)
  case Nil
  then show ?case by (simp add: op_return_def)
next
  case (Cons a as)
  from Cons.prems(2) obtain v s1 where 1: "restore_action env name r a s = (Some (Inr v), s1)"
    and 2: "restore_actions env name r as s1 = (Some (Inr u), s')" by (auto simp: op_then_Inr)
  have as: "\<forall>a \<in> set as. restart_only a" using Cons.prems(1) by simp
  show ?case
  proof (cases "a = StopService")
    case False
    then have "extraction a" using Cons.prems(1) by (simp add: restart_only_def)
    from restore_step [OF this 1] Cons.prems(3) False
    have "if StopService \<in> set as then st_enabled (sv_status s1) \<and> same_deployment st (sv_status s1) else runs_as st name (dr_restart r) s1"
      by (auto simp: runs_as_def)
    from Cons.IH [OF as 2 this] show ?thesis .
  next
    case True
    with 1 Cons.prems(3) have "start_service env name (dr_restart r) (dr_now r) s = (Some (Inr v), s1)"
      by (simp add: restore_action_def op_get_def)
    from start_service_done [OF this] Cons.prems(3) True have r1: "runs_as st name (dr_restart r) s1"
      by (auto simp: runs_as_def same_deployment_def)
    moreover have "StopService \<notin> set as"
    proof
      assume "StopService \<in> set as"
      then obtain bs cs where bs: "as = bs @ StopService # cs" "StopService \<notin> set bs" by (metis split_list_first)
      have "\<forall>a \<in> set bs. extraction a" using as bs by (auto simp: restart_only_def)
      then have "\<exists>s2. restore_actions env name r as s1 = restore_actions env name r (StopService # cs) s2
          \<and> sv_running s2 = sv_running s1 \<and> sv_status s2 = sv_status s1"
        unfolding bs(1)
      proof (induction bs arbitrary: s1)
        case (Cons b bs)
        obtain q t where b: "restore_action env name r b s1 = (q, t)" by fastforce
        from restore_step [OF _ b] Cons.prems obtain x where "q = Some (Inr x)" "sv_running t = sv_running s1" "sv_status t = sv_status s1"
          by auto
        with Cons.IH [of t] Cons.prems b show ?case by (auto simp: op_then_def op_bind_def)
      qed auto
      then obtain s2 where "restore_actions env name r (StopService # cs) s2 = (Some (Inr u), s')" "sv_running s2" "st_enabled (sv_status s2)"
        using 2 r1 by (auto simp: runs_as_def)
      then show False
        by (auto simp: op_then_Inr restore_action_def op_get_def start_service_def op_fail_def)
    qed
    ultimately show ?thesis using Cons.IH [OF as 2] by simp
  qed
qed

lemma deploy_inner_actions:
  assumes "deploy_inner env name a r s = (q, s')" "sv_actions s = []" "StopService \<in> set (sv_actions s')"
  shows "\<forall>a \<in> set (sv_actions s'). restart_only a"
proof -
  have stop: "\<exists>as. sv_actions s2 = sv_actions s1 @ as \<and> as \<in> {[], [CreateService], [StopService]}"
    if "deploy_stop env name a r s1 = (p, s2)" for p s1 s2
  proof -
    have k: "sv_actions t = sv_actions s1" if "stop_inner env name (dr_tend r) (dr_now r) s1 = (x, t)" for x t
      using op_keepsD [OF op_keeps_stop_inner that] by simp
    show ?thesis
      using that by (auto simp: deploy_stop_def op_return_def op_get_def push_action_def op_set_def op_then_def op_bind_def
          split: if_splits service_state.splits prod.splits option.splits sum.splits dest!: k)
  qed
  define rest where "rest = op_then (op_act (run_scripts env ''predeploy'' 0 (sd_pre_deploy (da_desc a)) (script_env (da_extra a) (da_image a))))
     (op_then (deploy_extract env a r) (deploy_start env name a r))"
  have rest: "pushes extraction rest"
    unfolding rest_def by (intro pushes_then keeps_file_act pushes_extract pushes_keeps [OF op_keeps_deploy_start])
  obtain p1 s1 where 1: "op_act (deploy_prepare env a) s = (p1, s1)" by fastforce
  have s1: "sv_actions s1 = []" using 1 assms(2) by (auto simp: op_act_iff)
  obtain p2 s2 where 2: "deploy_stop env name a r s1 = (p2, s2)" by fastforce
  from stop [OF 2] s1 obtain as where as: "sv_actions s2 = as" "as \<in> {[], [CreateService], [StopService]}" by auto
  have "s' = s1 \<or> s' = s2 \<or> s' = snd (rest s2)"
    using assms(1) 1 2 unfolding deploy_inner_def rest_def [symmetric]
    by (auto simp: op_then_def op_bind_def split: option.splits sum.splits)
  moreover from rest obtain bs where "sv_actions (snd (rest s2)) = sv_actions s2 @ bs" "\<forall>b \<in> set bs. extraction b"
    unfolding pushes_def by blast
  moreover from this(2) have "StopService \<notin> set bs" by (auto simp: extraction_def)
  ultimately show ?thesis
    using assms(3) s1 as by (auto simp: restart_only_def)
qed

definition log_restoring :: "'f svc \<Rightarrow> 'f svc" where
  "log_restoring s = s\<lparr>sv_world := (sv_world s)\<lparr>sw_calls := Log ''Deployment failed 2, Restoring state'' # sw_calls (sv_world s)\<rparr>\<rparr>"

lemma deploy_failed:
  assumes "deploy_inner env name a r (s\<lparr>sv_actions := []\<rparr>) = (Some (Inl e), s1)"
  shows "deploy env name a r s =
    (if \<not> se_sys env (length (sw_calls (sv_world s1))) (Log ''Deployment failed 2, Restoring state'')
     then (Some (Inl (Sys_failed (Log ''Deployment failed 2, Restoring state''))), log_restoring s1)
     else op_then (restore_actions env name r (rev (sv_actions s1)))
       (op_fail (Service_message ''Deployment failed, state restored'')) (log_restoring s1))"
  using assms by (simp add: deploy_def log_restoring_def op_then_def op_bind_def op_act_def sys_def)

text \<open>Further result: a service that was stopped for a deployment that fails runs again as it was
  deployed before. When the way back went through, a task runs it, its process is registered, and
  its description, variables, image, and who deployed it and when are the old ones.\<close>

theorem failed_deploy_restarts:
  assumes "deploy_inner env name a r (s\<lparr>sv_actions := []\<rparr>) = (Some (Inl e), s1)"
    and "StopService \<in> set (sv_actions s1)" "st_enabled (sv_status s)"
    and "se_sys env (length (sw_calls (sv_world s1))) (Log ''Deployment failed 2, Restoring state'')"
    and "restore_actions env name r (rev (sv_actions s1)) (log_restoring s1) = (Some (Inr u), s2)"
  shows "deploy env name a r s = (Some (Inl (Service_message ''Deployment failed, state restored'')), s2)
    \<and> runs_as (sv_status s) name (dr_restart r) s2"
proof
  show "deploy env name a r s = (Some (Inl (Service_message ''Deployment failed, state restored'')), s2)"
    using assms(4,5) by (simp add: deploy_failed [OF assms(1)] op_then_def op_bind_def op_fail_def)
  have only: "\<forall>a \<in> set (rev (sv_actions s1)). restart_only a"
    using deploy_inner_actions [OF assms(1) _ assms(2)] by simp
  have fs: "sv_running s1 \<and> st_enabled (sv_status s1) \<or> only_state (sv_status s) (sv_status s1)"
    using deploy_inner_fails_same [of env name a r] assms(1) unfolding fails_same_def by force
  have stuck: "restore_actions env name r as t \<noteq> (Some (Inr u), s2)"
    if "\<forall>a \<in> set as. restart_only a" "StopService \<in> set as" "sv_running t" "st_enabled (sv_status t)" for as t
    using that
  proof (induction as arbitrary: t)
    case (Cons b as)
    obtain q t1 where b: "restore_action env name r b t = (q, t1)" by fastforce
    show ?case
    proof (cases "b = StopService")
      case True
      with Cons.prems show ?thesis
        by (auto simp: op_then_Inr restore_action_def op_get_def start_service_def op_fail_def)
    next
      case False
      then have "extraction b" using Cons.prems(1) by (simp add: restart_only_def)
      from restore_step [OF this b] Cons.IH [of t1] Cons.prems False show ?thesis by (auto simp: op_then_Inr b)
    qed
  qed simp
  have same: "only_state (sv_status s) (sv_status s1)"
  proof (rule ccontr)
    assume "\<not> only_state (sv_status s) (sv_status s1)"
    with fs have "sv_running (log_restoring s1)" "st_enabled (sv_status (log_restoring s1))" by (simp_all add: log_restoring_def)
    with stuck [OF only] assms(2,5) show False by simp
  qed
  have o: "st_enabled (sv_status (log_restoring s1)) \<and> same_deployment (sv_status s) (sv_status (log_restoring s1))"
    using only_state_same [OF same] assms(3) by (simp add: log_restoring_def)
  show "runs_as (sv_status s) name (dr_restart r) s2"
    by (rule restore_restarts [OF only assms(5)]) (simp add: assms(2) o)
qed

text \<open>Further result: when the client that asked for the deployment is gone, so that the line that
  announces the way back cannot be written, there is no way back: the service is left as the failed
  deployment left it.\<close>

theorem restore_skipped:
  assumes "deploy_inner env name a r (s\<lparr>sv_actions := []\<rparr>) = (Some (Inl e), s1)"
    and "\<not> se_sys env (length (sw_calls (sv_world s1))) (Log ''Deployment failed 2, Restoring state'')"
  shows "\<exists>err s2. deploy env name a r s = (Some (Inl err), s2) \<and> sv_running s2 = sv_running s1
    \<and> sv_status s2 = sv_status s1 \<and> sv_actions s2 = sv_actions s1 \<and> sw_files (sv_world s2) = sw_files (sv_world s1)"
  using assms by (simp add: deploy_failed [OF assms(1)] log_restoring_def)

text \<open>Further result: a deployment whose stop of the running instance fails leaves the service
  without a task and enabled, and says that the state was restored. The signal to stop was refused
  after the task had been ended, and only a stop that succeeded is noted for the way back.\<close>

theorem failed_stop_not_restarted:
  assumes "deploy_prepare env a (sv_world s) = (Inr v, w)" "\<not> sd_overlap (da_desc a)"
    and "st_state (sv_status s) \<in> {Ready, Running, Starting, Reloading}" "dr_tend r = Inr i"
    and "stop_inner env name (dr_tend r) (dr_now r) (s\<lparr>sv_actions := [], sv_world := w\<rparr>) = (Some (Inl e), s1)"
    and "se_sys env (length (sw_calls (sv_world s1))) (Log ''Deployment failed 2, Restoring state'')"
  shows "\<exists>s2. deploy env name a r s = (Some (Inl (Service_message ''Deployment failed, state restored'')), s2)
    \<and> \<not> sv_running s2 \<and> st_enabled (sv_status s2) = st_enabled (sv_status s)"
proof -
  let ?s = "s\<lparr>sv_actions := [], sv_world := w\<rparr>"
  have "deploy_stop env name a r ?s = (Some (Inl e), s1)"
    using assms(2,3,5) by (auto simp: deploy_stop_def op_get_def op_then_def op_bind_def)
  then have i: "deploy_inner env name a r (s\<lparr>sv_actions := []\<rparr>) = (Some (Inl e), s1)"
    using assms(1) by (simp add: deploy_inner_def op_then_def op_bind_def op_act_def)
  have acts: "sv_actions s1 = []" using op_keepsD [OF op_keeps_stop_inner assms(5)] by simp
  have run: "\<not> sv_running s1"
    using assms(4,5)
    by (auto simp: stop_inner_def op_get_def op_then_Inl op_bind_def op_set_def op_act_def end_task_def op_return_def op_then_def
        split: option.splits sum.splits prod.splits dest!: running_stop_run)
  have "st_enabled (sv_status s1) = st_enabled (sv_status s)"
    using only_state_same [OF op_sameD [OF op_same_stop_inner assms(5)]] by simp
  with run acts assms(6) show ?thesis
    by (simp add: deploy_failed [OF i] op_then_def op_bind_def op_return_def op_fail_def log_restoring_def)
qed

definition demo_broken :: "nat deploy_args" where
  "demo_broken = \<lparr>da_image = None, da_desc = demo_description\<lparr>sd_pre_deploy := [''x'']\<rparr>, da_extra = [], da_user = ''me''\<rparr>"

definition demo_deploy_run :: deploy_run where
  "demo_deploy_run = \<lparr>dr_instance = 3, dr_restart = 2, dr_container = ''c'', dr_tend = Inr None, dr_now = 100\<rparr>"

lemma demo_broken_deploy:
  "\<exists>cs e. deploy_inner demo_env ''a'' demo_broken demo_deploy_run (demo_svc\<lparr>sv_world := demo_empty, sv_actions := []\<rparr>)
    = (Some (Inl e), demo_stopped cs [StopService])"
  by (intro exI [of _ "Temp_file ''docker.conf'' # Temp_dir ''docker.conf'' # sw_calls demo_empty"],
      simp add: deploy_inner_def deploy_prepare_def demo_broken_def demo_description_def check_user_def podman_user_def
      chown_user_def pull_image_def act_defs sys_def demo_sys_ok op_defs deploy_stop_def demo_svc_def demo_status_def
      stop_inner_def end_task_def take_task_def stop_new_def demo_deploy_run_def run_script_def demo_stopped_def Let_def)

theorem failed_deploy_restarts_witness:
  "\<exists>s2. deploy demo_env ''a'' demo_broken demo_deploy_run (demo_svc\<lparr>sv_world := demo_empty\<rparr>)
      = (Some (Inl (Service_message ''Deployment failed, state restored'')), s2)
    \<and> sv_running s2 \<and> st_description (sv_status s2) = demo_description
    \<and> map_of (ps_processes (sw_persist (sv_world s2))) ''service.a.2'' \<noteq> None"
proof -
  obtain cs e where i: "deploy_inner demo_env ''a'' demo_broken demo_deploy_run (demo_svc\<lparr>sv_world := demo_empty, sv_actions := []\<rparr>)
    = (Some (Inl e), demo_stopped cs [StopService])" using demo_broken_deploy by blast
  have l: "log_restoring (demo_stopped cs [StopService])
      = demo_stopped (Log ''Deployment failed 2, Restoring state'' # cs) [StopService]"
    by (simp add: log_restoring_def demo_stopped_def)
  obtain s2 where s2: "restore_actions demo_env ''a'' demo_deploy_run (rev (sv_actions (demo_stopped cs [StopService])))
      (log_restoring (demo_stopped cs [StopService])) = (Some (Inr ()), s2)"
    using demo_start_service [of "Log ''Deployment failed 2, Restoring state'' # cs" "[StopService]"] unfolding l
    by (auto simp: demo_stopped_def restore_action_def op_get_def op_then_def op_bind_def op_return_def
        demo_deploy_run_def demo_status_def)
  have "deploy demo_env ''a'' demo_broken demo_deploy_run (demo_svc\<lparr>sv_world := demo_empty\<rparr>)
      = (Some (Inl (Service_message ''Deployment failed, state restored'')), s2)
    \<and> runs_as (sv_status (demo_svc\<lparr>sv_world := demo_empty\<rparr>)) ''a'' (dr_restart demo_deploy_run) s2"
    by (rule failed_deploy_restarts [OF i _ _ _ s2]) (simp_all add: demo_stopped_def demo_svc_def demo_status_def demo_sys_ok)
  moreover have "sv_status (demo_svc\<lparr>sv_world := demo_empty\<rparr>) = demo_status" "dr_restart demo_deploy_run = 2"
    by (simp_all add: demo_svc_def demo_deploy_run_def)
  ultimately show ?thesis using demo_names by (auto simp: runs_as_def same_deployment_def)
qed

theorem failed_stop_not_restarted_witness:
  "\<exists>s2. deploy demo_env ''a'' demo_broken (demo_deploy_run\<lparr>dr_tend := Inr (Some (fresh_instance 1 0 None))\<rparr>)
       (demo_svc\<lparr>sv_status := demo_status\<lparr>st_process_key := None\<rparr>\<rparr>)
      = (Some (Inl (Service_message ''Deployment failed, state restored'')), s2) \<and> \<not> sv_running s2"
proof -
  let ?s = "demo_svc\<lparr>sv_status := demo_status\<lparr>st_process_key := None\<rparr>\<rparr>"
  let ?r = "demo_deploy_run\<lparr>dr_tend := Inr (Some (fresh_instance 1 0 None))\<rparr>"
  have "\<exists>w. deploy_prepare demo_env demo_broken (sv_world ?s) = (Inr (), w)"
    by (simp add: deploy_prepare_def demo_broken_def demo_description_def check_user_def podman_user_def
        chown_user_def pull_image_def act_defs sys_def demo_sys_ok Let_def)
  then obtain w where w: "deploy_prepare demo_env demo_broken (sv_world ?s) = (Inr (), w)" by blast
  have "\<exists>e s1. stop_inner demo_env ''a'' (dr_tend ?r) (dr_now ?r) (?s\<lparr>sv_actions := [], sv_world := w\<rparr>) = (Some (Inl e), s1)"
    by (simp add: stop_inner_def op_defs end_task_def take_task_def stop_new_def act_defs demo_svc_def)
  then obtain e s1 where s1: "stop_inner demo_env ''a'' (dr_tend ?r) (dr_now ?r) (?s\<lparr>sv_actions := [], sv_world := w\<rparr>) = (Some (Inl e), s1)"
    by blast
  have "\<exists>s2. deploy demo_env ''a'' demo_broken ?r ?s = (Some (Inl (Service_message ''Deployment failed, state restored'')), s2)
      \<and> \<not> sv_running s2 \<and> st_enabled (sv_status s2) = st_enabled (sv_status ?s)"
    by (rule failed_stop_not_restarted [OF w _ _ _ s1])
       (simp_all add: demo_broken_def demo_description_def demo_svc_def demo_status_def demo_sys_ok)
  then show ?thesis by blast
qed

end
