(* ===== verification/Script_Output.thy ===== *)
theory Script_Output
  imports Client_Message Rust_Strings
begin

text \<open>
  What the client daemon sends of the output of a script, and what it passes to its input
  (\<open>handle_script_output\<close>, \<open>handle_script_input\<close>, \<open>handle_run_script_inner\<close> and
  \<open>handle_run_instant_inner\<close> of \<open>bin/sadmin/client_daemon.rs\<close>). A pipe is the list of what its reads
  find there; an empty read is the end. Bytes are characters. The pipe of the input takes what is
  written to it. Base64, the conversion between bytes
  and text, and the parser of JSON are the fields of \<open>codec\<close>.
\<close>

record codec =
  b64_encode :: "string \<Rightarrow> string"
  b64_decode :: "string \<Rightarrow> string option"
  utf8_lossy :: "string \<Rightarrow> string"
  utf8_text :: "string \<Rightarrow> string option"
  parse_json :: "string \<Rightarrow> json option"
  json_text :: "json \<Rightarrow> string"

datatype script_error = Read_failed | Not_valid_utf8 | Not_json | Not_string | Not_base64 | Spawn_failed

text \<open>What is on the pipe: the data that reads find there, and whether it ends with a failure.\<close>

record pipe =
  pi_reads :: "string list"
  pi_fails :: bool

definition data_of :: "u64 \<Rightarrow> data_source \<Rightarrow> json \<Rightarrow> bool \<Rightarrow> data_message" where
  "data_of i src v eof = \<lparr>dm_id = i, dm_source = Some src, dm_data = v, dm_eof = Some eof\<rparr>"

section \<open>Binary output\<close>

text \<open>The buffer is cleared before each read, so its room \<open>cap\<close> stays the same.\<close>

function binary_output :: "codec \<Rightarrow> nat \<Rightarrow> (json \<Rightarrow> bool \<Rightarrow> data_message) \<Rightarrow> string list \<Rightarrow> bool
    \<Rightarrow> data_message list \<times> script_error option" where
  "binary_output cd cap msg chunks fails =
     (case chunks of
        [] \<Rightarrow> if fails then ([], Some Read_failed) else ([msg (JString (b64_encode cd [])) True], None)
      | r # rs \<Rightarrow>
          (let s = take cap r; rest = (if drop cap r = [] then rs else drop cap r # rs)
           in if s = [] then ([msg (JString (b64_encode cd [])) True], None)
              else (let (ms, e) = binary_output cd cap msg rest fails
                    in (msg (JString (b64_encode cd s)) False # ms, e))))"
  by pat_completeness auto
termination
  by (relation "measure (\<lambda>(_, _, _, rs, _). length (concat rs) + length rs)")
    (auto simp: neq_Nil_conv not_less_eq_eq take_Cons' split: if_splits)

declare binary_output.simps [simp del]

section \<open>Text output\<close>

text \<open>The bytes up to the last one below 128.\<close>

definition ascii_end :: "string \<Rightarrow> nat" where
  "ascii_end buf = length (dropWhile (\<lambda>c. 127 < (of_char c :: nat)) (rev buf))"

definition text_messages :: "codec \<Rightarrow> (json \<Rightarrow> bool \<Rightarrow> data_message) \<Rightarrow> string \<Rightarrow> bool \<Rightarrow> data_message list" where
  "text_messages cd msg buf eof =
     (if ascii_end buf = 0 then [] else [msg (JString (utf8_lossy cd (take (ascii_end buf) buf))) eof])"

text \<open>\<open>split_to\<close> takes what is sent off the buffer together with its room.\<close>

function text_output :: "codec \<Rightarrow> nat \<Rightarrow> string \<Rightarrow> (json \<Rightarrow> bool \<Rightarrow> data_message) \<Rightarrow> string list \<Rightarrow> bool
    \<Rightarrow> data_message list \<times> script_error option" where
  "text_output cd cap buf msg chunks fails =
     (case chunks of
        [] \<Rightarrow> if fails then ([], Some Read_failed) else (text_messages cd msg buf True, None)
      | r # rs \<Rightarrow>
          (let room = cap - length buf; s = take room r;
               rest = (if drop room r = [] then rs else drop room r # rs);
               buf = buf @ s; i = ascii_end buf
           in if s = [] then (text_messages cd msg buf True, None)
              else if cap - i = length buf - i then (text_messages cd msg buf False, Some Not_valid_utf8)
              else (let (ms, e) = text_output cd (cap - i) (drop i buf) msg rest fails
                    in (text_messages cd msg buf False @ ms, e))))"
  by pat_completeness auto
termination
  by (relation "measure (\<lambda>(_, _, _, _, rs, _). length (concat rs) + length rs)")
    (auto simp: neq_Nil_conv not_less_eq_eq take_Cons' split: if_splits)

declare text_output.simps [simp del]

section \<open>JSON output\<close>

text \<open>Every value ends with a zero byte. What is after the last one stays in the buffer, which grows
  as it must.\<close>

fun json_messages :: "codec \<Rightarrow> (json \<Rightarrow> bool \<Rightarrow> data_message) \<Rightarrow> string list \<Rightarrow> bool
    \<Rightarrow> data_message list \<times> script_error option" where
  "json_messages cd msg [] eof = ([], None)"
| "json_messages cd msg (v # vs) eof =
     (case parse_json cd v of
        None \<Rightarrow> ([], Some Not_json)
      | Some j \<Rightarrow> (let (ms, e) = json_messages cd msg vs eof in (msg j eof # ms, e)))"

text \<open>The values that are complete, and what is left.\<close>

fun zero_split :: "string \<Rightarrow> string list \<times> string" where
  "zero_split [] = ([], [])"
| "zero_split (c # cs) =
     (case zero_split cs of
        (vs, rest) \<Rightarrow>
          if c = CHR 0x00 then ([] # vs, rest)
          else (case vs of [] \<Rightarrow> ([], c # rest) | v # vs \<Rightarrow> ((c # v) # vs, rest)))"

fun json_output :: "codec \<Rightarrow> string \<Rightarrow> (json \<Rightarrow> bool \<Rightarrow> data_message) \<Rightarrow> string list \<Rightarrow> bool
    \<Rightarrow> data_message list \<times> script_error option" where
  "json_output cd buf msg [] fails =
     (if fails then ([], Some Read_failed) else json_messages cd msg (fst (zero_split buf)) True)"
| "json_output cd buf msg (r # rs) fails =
     (case zero_split (buf @ r) of
        (vs, rest) \<Rightarrow>
          (case json_messages cd msg vs (r = []) of
             (ms, Some e) \<Rightarrow> (ms, Some e)
           | (ms, None) \<Rightarrow>
               if r = [] then (ms, None)
               else (let (ms', e) = json_output cd rest msg rs fails in (ms @ ms', e))))"

section \<open>Output and input of a script\<close>

definition OUT_BUFFER :: nat where
  "OUT_BUFFER = 1024 * 1024"

definition handle_script_output ::
  "codec \<Rightarrow> u64 \<Rightarrow> data_source \<Rightarrow> pipe option \<Rightarrow> script_out_type option \<Rightarrow> data_message list \<times> script_error option" where
  "handle_script_output cd i src out typ =
     (case (out, typ) of
        (None, _) \<Rightarrow> ([], None)
      | (_, None) \<Rightarrow> ([], None)
      | (_, Some ScriptOutNone) \<Rightarrow> ([], None)
      | (Some p, Some ScriptOutBinary) \<Rightarrow> binary_output cd OUT_BUFFER (data_of i src) (pi_reads p) (pi_fails p)
      | (Some p, Some ScriptOutText) \<Rightarrow> text_output cd OUT_BUFFER [] (data_of i src) (pi_reads p) (pi_fails p)
      | (Some p, Some ScriptOutBlockedJson) \<Rightarrow> json_output cd [] (data_of i src) (pi_reads p) (pi_fails p))"

text \<open>The bytes written to the input, and the error that ends it; \<open>None\<close> while it waits for more.
  \<open>final\<close> says that no more messages come.\<close>

fun handle_script_input :: "codec \<Rightarrow> data_message list \<Rightarrow> bool \<Rightarrow> string \<times> (script_error option) option" where
  "handle_script_input cd [] final = ([], if final then Some None else None)"
| "handle_script_input cd (m # ms) final =
     (case dm_data m of
        JString v \<Rightarrow>
          (case b64_decode cd v of
             None \<Rightarrow> ([], Some (Some Not_base64))
           | Some bytes \<Rightarrow>
               if dm_eof m = Some True then (bytes, Some None)
               else (let (rest, r) = handle_script_input cd ms final in (bytes @ rest, r)))
      | _ \<Rightarrow> ([], Some (Some Not_string)))"

section \<open>The result of a script\<close>

text \<open>How a process ended: an exit code, or a signal.\<close>

datatype exit_status = Exited i32 | Killed_by i32

definition exit_code :: "exit_status \<Rightarrow> i32" where
  "exit_code st = (case st of Exited c \<Rightarrow> c | Killed_by s \<Rightarrow> - s)"

definition exit_success :: "exit_status \<Rightarrow> bool" where
  "exit_success st = (st = Exited 0)"

text \<open>What \<open>select!\<close> sees, in its order.\<close>

datatype script_event =
    Child_ended "script_error + exit_status"
  | Input_ended "script_error option"
  | Stdout_ended "script_error option"
  | Stderr_ended "script_error option"

record script_wait =
  sc_child :: "(script_error + exit_status) option"
  sc_stdin_done :: bool
  sc_stdout :: "script_error option option"
  sc_stderr :: "script_error option option"

definition script_wait_start :: script_wait where
  "script_wait_start = \<lparr>sc_child = None, sc_stdin_done = False, sc_stdout = None, sc_stderr = None\<rparr>"

definition script_result :: "u64 \<Rightarrow> script_error + exit_status \<Rightarrow> script_error option \<Rightarrow> script_error option
    \<Rightarrow> script_error + client_host_message" where
  "script_result i child out err =
     (case child of
        Inl e \<Rightarrow> Inl e
      | Inr st \<Rightarrow>
          if \<not> exit_success st then
            Inr (ChFailure \<lparr>fm_id = i, fm_failure_type = Some FailScript, fm_code = Some (exit_code st),
              fm_stdout = None, fm_stderr = None, fm_message = None\<rparr>)
          else (case out of
                  Some e \<Rightarrow> Inl e
                | None \<Rightarrow> (case err of
                             Some e \<Rightarrow> Inl e
                           | None \<Rightarrow> Inr (ChSuccess \<lparr>sm_id = i, sm_code = Some 0, sm_data = None\<rparr>))))"

fun run_script_loop :: "u64 \<Rightarrow> script_event list \<Rightarrow> script_wait \<Rightarrow> (script_error + client_host_message) option" where
  "run_script_loop i evs w =
     (case (sc_child w, sc_stdout w, sc_stderr w) of
        (Some c, Some out, Some err) \<Rightarrow> Some (script_result i c out err)
      | _ \<Rightarrow>
          (case evs of
             [] \<Rightarrow> None
           | Child_ended r # evs \<Rightarrow>
               run_script_loop i evs (if sc_child w = None then w\<lparr>sc_child := Some r\<rparr> else w)
           | Stdout_ended r # evs \<Rightarrow>
               run_script_loop i evs (if sc_stdout w = None then w\<lparr>sc_stdout := Some r\<rparr> else w)
           | Stderr_ended r # evs \<Rightarrow>
               run_script_loop i evs (if sc_stderr w = None then w\<lparr>sc_stderr := Some r\<rparr> else w)
           | Input_ended r # evs \<Rightarrow>
               if sc_stdin_done w then run_script_loop i evs w
               else (case r of
                       Some e \<Rightarrow> Some (Inl e)
                     | None \<Rightarrow> run_script_loop i evs (w\<lparr>sc_stdin_done := True\<rparr>))))"

declare run_script_loop.simps [simp del]

definition exception :: "u64 \<Rightarrow> string \<Rightarrow> client_host_message" where
  "exception i text = ChFailure \<lparr>fm_id = i, fm_failure_type = Some FailException, fm_code = None,
     fm_stdout = None, fm_stderr = None, fm_message = Some text\<rparr>"

text \<open>The answer of \<open>handle_run_script\<close>; \<open>spawned\<close> says whether the process could be started, and a
  cancelled run has thirty seconds: \<open>late\<close> says that they ran out before the result. \<open>show\<close> is the
  text of an error.\<close>

definition run_script_answer ::
  "(script_error \<Rightarrow> string) \<Rightarrow> u64 \<Rightarrow> bool \<Rightarrow> bool \<Rightarrow> script_event list \<Rightarrow> client_host_message option" where
  "run_script_answer show i spawned late evs =
     (if \<not> spawned then Some (exception i (show Spawn_failed))
      else (case run_script_loop i evs script_wait_start of
              Some (Inr m) \<Rightarrow> Some m
            | Some (Inl e) \<Rightarrow> Some (exception i (show e))
            | None \<Rightarrow> if late then Some (exception i ''Timeout'') else None))"

section \<open>Instant commands\<close>

definition instant_data :: "codec \<Rightarrow> instant_output_type \<Rightarrow> string \<Rightarrow> script_error + json" where
  "instant_data cd typ out =
     (case typ of
        OutText \<Rightarrow> Inr (JString (utf8_lossy cd out))
      | OutBase64 \<Rightarrow> Inr (JString (b64_encode cd out))
      | OutJson \<Rightarrow> (case parse_json cd out of None \<Rightarrow> Inl Not_json | Some j \<Rightarrow> Inr j)
      | OutUtf8 \<Rightarrow> (case utf8_text cd out of None \<Rightarrow> Inl Not_valid_utf8 | Some t \<Rightarrow> Inr (JString t)))"

text \<open>The process: it could not be run, or it ended with its output.\<close>

definition run_instant_answer ::
  "codec \<Rightarrow> (script_error \<Rightarrow> string) \<Rightarrow> run_instant_message \<Rightarrow> (exit_status \<times> string \<times> string) option \<Rightarrow> client_host_message" where
  "run_instant_answer cd show m output =
     (case output of
        None \<Rightarrow> exception (ri_id m) (show Spawn_failed)
      | Some (st, out, err) \<Rightarrow>
          if \<not> exit_success st then
            ChFailure \<lparr>fm_id = ri_id m, fm_failure_type = Some FailScript, fm_code = Some (exit_code st),
              fm_stdout = Some (utf8_lossy cd out), fm_stderr = Some (utf8_lossy cd err), fm_message = None\<rparr>
          else (case instant_data cd (ri_output_type m) out of
                  Inl e \<Rightarrow> exception (ri_id m) (show e)
                | Inr j \<Rightarrow> ChSuccess \<lparr>sm_id = ri_id m, sm_code = None, sm_data = Some j\<rparr>))"

section \<open>What is delivered of text\<close>

definition high :: "char \<Rightarrow> bool" where
  "high c \<longleftrightarrow> 127 < (of_char c :: nat)"

lemma ascii_end_high: "ascii_end buf = length (dropWhile high (rev buf))"
  by (simp add: ascii_end_def high_def [abs_def])

lemma ascii_end_le: "ascii_end buf \<le> length buf"
  using length_dropWhile_le [of high "rev buf"] by (simp add: ascii_end_high)

lemma ascii_end_rest: "list_all high (drop (ascii_end buf) buf)"
proof -
  have "rev buf = takeWhile high (rev buf) @ dropWhile high (rev buf)" by simp
  then have "buf = rev (dropWhile high (rev buf)) @ rev (takeWhile high (rev buf))"
    by (metis rev_append rev_rev_ident)
  then have "drop (ascii_end buf) buf = rev (takeWhile high (rev buf))"
    unfolding ascii_end_high by (metis append_eq_conv_conj length_rev)
  then show ?thesis by (auto simp: list_all_iff dest: set_takeWhileD)
qed

lemma ascii_end_zero: "list_all high buf \<Longrightarrow> ascii_end buf = 0"
  by (auto simp: ascii_end_high list_all_iff)

lemma dropWhile_append_split:
  "dropWhile P (xs @ ys) = (if list_all P xs then dropWhile P ys else dropWhile P xs @ ys)"
  by (induction xs) auto

lemma ascii_end_append: "ascii_end (a @ b) = (if list_all high b then ascii_end a else length a + ascii_end b)"
  by (simp add: ascii_end_high dropWhile_append_split list_all_iff)

text \<open>What was cut off does not matter for what comes.\<close>

lemma ascii_end_cut:
  "ascii_end (buf @ s) = ascii_end buf + ascii_end (drop (ascii_end buf) buf @ s)"
proof -
  have "ascii_end (drop (ascii_end buf) buf) = 0" by (rule ascii_end_zero [OF ascii_end_rest])
  then show ?thesis using ascii_end_le [of buf] by (simp add: ascii_end_append)
qed

definition pieces_as :: "codec \<Rightarrow> (json \<Rightarrow> bool \<Rightarrow> data_message) \<Rightarrow> string list \<Rightarrow> data_message list" where
  "pieces_as cd msg ps = map (\<lambda>p. msg (JString (utf8_lossy cd p)) False) ps"

lemma text_messages_pieces:
  "\<exists>ps. text_messages cd msg buf False = pieces_as cd msg ps \<and> concat ps = take (ascii_end buf) buf"
  by (cases "ascii_end buf = 0")
    (auto simp: text_messages_def pieces_as_def intro: exI [of _ "[]"] exI [of _ "[take (ascii_end buf) buf]"])

lemma text_output_step:
  fixes rs :: "string list"
  assumes "list_all high buf" "length buf < cap" "r \<noteq> []"
  defines "s \<equiv> take (cap - length buf) r" and "rest \<equiv> (if drop (cap - length buf) r = [] then rs else drop (cap - length buf) r # rs)"
    and "b \<equiv> buf @ take (cap - length buf) r"
  shows "text_output cd cap buf msg (r # rs) fails =
      (if cap - length buf = length s then (text_messages cd msg b False, Some Not_valid_utf8)
       else (let (ms, e) = text_output cd (cap - ascii_end b) (drop (ascii_end b) b) msg rest fails
             in (text_messages cd msg b False @ ms, e)))"
proof -
  have "s \<noteq> []" using assms(2,3) by (simp add: s_def)
  moreover have "ascii_end b \<le> length b" by (rule ascii_end_le)
  moreover have "length b = length buf + length s" by (simp add: b_def s_def)
  moreover have "length s \<le> cap - length buf" by (simp add: s_def)
  ultimately have "(cap - ascii_end b = length b - ascii_end b) = (cap - length buf = length s)"
    using assms(2) by auto
  with \<open>s \<noteq> []\<close> show ?thesis
    by (subst text_output.simps) (simp add: Let_def s_def rest_def b_def)
qed

lemma take_past: "i \<le> length x \<Longrightarrow> take i x @ take n (drop i x @ u) = take (i + n) (x @ u)"
  using take_add [of i n "x @ u"] by simp

lemma text_output_bound:
  assumes "list_all high buf" "length buf < cap" "[] \<notin> set chunks"
  shows "if length buf + length (concat chunks) < cap
    then \<exists>ps. text_output cd cap buf msg chunks False = (pieces_as cd msg ps, None)
      \<and> concat ps = take (ascii_end (buf @ concat chunks)) (buf @ concat chunks)
    else \<exists>ps. text_output cd cap buf msg chunks False = (pieces_as cd msg ps, Some Not_valid_utf8)
      \<and> concat ps = take (ascii_end (take cap (buf @ concat chunks))) (buf @ concat chunks)"
  using assms
proof (induction chunks arbitrary: cap buf)
  case Nil
  have "text_messages cd msg buf True = []"
    using Nil.prems(1) by (simp add: text_messages_def ascii_end_zero)
  then show ?case using Nil.prems by (subst text_output.simps) (simp add: pieces_as_def ascii_end_zero)
next
  case (Cons r rs)
  let ?room = "cap - length buf"
  have r: "r \<noteq> []" using Cons.prems(3) by auto
  let ?b = "buf @ take ?room r"
  let ?i = "ascii_end ?b"
  obtain ps where ps: "text_messages cd msg ?b False = pieces_as cd msg ps" "concat ps = take ?i ?b"
    using text_messages_pieces by blast
  show ?case
  proof (cases "?room \<le> length r")
    case True
    then have "length (take ?room r) = ?room" by simp
    then have t: "text_output cd cap buf msg (r # rs) False = (pieces_as cd msg ps, Some Not_valid_utf8)"
      using text_output_step [OF Cons.prems(1,2) r] ps by simp
    have "take cap (buf @ concat (r # rs)) = ?b" using True Cons.prems(2) by simp
    moreover have "take ?i ?b = take ?i (buf @ concat (r # rs))"
      using ascii_end_le [of ?b] True by (simp add: take_append)
    ultimately show ?thesis using t ps True Cons.prems(2) by auto
  next
    case False
    then have b: "?b = buf @ r" by simp
    let ?c = "cap - ascii_end (buf @ r)" and ?d = "drop (ascii_end (buf @ r)) (buf @ r)"
    have t: "text_output cd cap buf msg (r # rs) False =
        (let (ms, e) = text_output cd ?c ?d msg rs False in (pieces_as cd msg ps @ ms, e))"
      using text_output_step [OF Cons.prems(1,2) r, of cd msg rs False] ps False by (simp add: b)
    have le: "ascii_end (buf @ r) \<le> length (buf @ r)" by (rule ascii_end_le)
    have p: "list_all high ?d" "length ?d < ?c" "[] \<notin> set rs"
      using ascii_end_rest [of "buf @ r"] False Cons.prems(2,3) le by (simp_all del: drop_append)
    have left: "?c - length ?d = cap - length (buf @ r)"
      using le False by (simp del: drop_append)
    have len: "(length ?d + length (concat rs) < ?c) = (length buf + length (concat (r # rs)) < cap)"
      using le False by auto
    have cut: "ascii_end (buf @ r @ u) = ascii_end (buf @ r) + ascii_end (?d @ u)" for u
      using ascii_end_cut [of "buf @ r" u] by simp
    have pre: "take (ascii_end (buf @ r)) (buf @ r) @ take n (?d @ u) = take (ascii_end (buf @ r) + n) (buf @ r @ u)" for n u
      using take_past [OF le, of n u] by (simp only: append.assoc)
    show ?thesis
    proof (cases "length ?d + length (concat rs) < ?c")
      case True
      with Cons.IH [OF p] obtain qs where q: "text_output cd ?c ?d msg rs False = (pieces_as cd msg qs, None)"
        "concat qs = take (ascii_end (?d @ concat rs)) (?d @ concat rs)" by auto
      have "concat (ps @ qs) = take (ascii_end (buf @ concat (r # rs))) (buf @ concat (r # rs))"
        using ps(2) q(2) pre [of "ascii_end (?d @ concat rs)" "concat rs"] cut [of "concat rs"] by (simp add: b)
      then show ?thesis
        using t q(1) len True by (auto simp: pieces_as_def intro!: exI [of _ "ps @ qs"])
    next
      case False
      with Cons.IH [OF p] obtain qs where q: "text_output cd ?c ?d msg rs False = (pieces_as cd msg qs, Some Not_valid_utf8)"
        "concat qs = take (ascii_end (take ?c (?d @ concat rs))) (?d @ concat rs)" by auto
      have eq1: "take cap (buf @ concat (r # rs)) = buf @ r @ take (cap - length (buf @ r)) (concat rs)"
        using \<open>\<not> ?room \<le> length r\<close> Cons.prems(2) by simp
      have eq2: "take ?c (?d @ concat rs) = ?d @ take (cap - length (buf @ r)) (concat rs)"
        unfolding take_append left using p(2) by (simp only: less_imp_le take_all)
      have "concat (ps @ qs) = take (ascii_end (buf @ r)) (buf @ r)
          @ take (ascii_end (?d @ take (cap - length (buf @ r)) (concat rs))) (?d @ concat rs)"
        using ps(2) q(2) by (simp only: concat_append b eq2)
      then have "concat (ps @ qs) = take (ascii_end (take cap (buf @ concat (r # rs)))) (buf @ concat (r # rs))"
        by (simp only: pre eq1 [unfolded concat.simps] cut concat.simps)
      then show ?thesis
        using t q(1) len False by (auto simp: pieces_as_def intro!: exI [of _ "ps @ qs"])
    qed
  qed
qed

text \<open>Further result: which text of a script arrives. When its output is shorter than the buffer, the
  messages carry it up to its last byte below 128, whatever the reads were: what follows that byte
  is lost, and no message says that the output ended.\<close>

theorem text_delivered:
  assumes "[] \<notin> set chunks" "length (concat chunks) < cap"
  shows "\<exists>ps. text_output cd cap [] msg chunks False = (pieces_as cd msg ps, None)
    \<and> concat ps = take (ascii_end (concat chunks)) (concat chunks)"
  using text_output_bound [of "[]" cap chunks cd msg] assms by auto

theorem text_delivered_witness:
  "\<exists>ps. text_output cd 100 [] msg [''ab'', ''c'' @ [CHR 0xC3], [CHR 0xA9]] False = (pieces_as cd msg ps, None) \<and> concat ps = ''abc''"
  using text_delivered [of "[''ab'', ''c'' @ [CHR 0xC3], [CHR 0xA9]]" 100 cd msg] by (simp add: ascii_end_def)

text \<open>Further result: a script that writes as much text as the buffer holds, or more, has failed: what
  was sent takes its room with it, so the room for reads shrinks to nothing however fast the output
  is passed on.\<close>

theorem long_text_fails:
  assumes "[] \<notin> set chunks" "0 < cap" "cap \<le> length (concat chunks)"
  shows "\<exists>ms. text_output cd cap [] msg chunks False = (ms, Some Not_valid_utf8)"
  using text_output_bound [of "[]" cap chunks cd msg] assms by auto

theorem long_text_fails_witness:
  "\<exists>ms. text_output cd 4 [] msg [''ab'', ''cd''] False = (ms, Some Not_valid_utf8)"
  by (rule long_text_fails) simp_all

section \<open>Binary output and JSON values\<close>

text \<open>Further result: binary output arrives as it is, and the last message and no other says that it
  ended.\<close>

theorem binary_delivered:
  assumes "[] \<notin> set chunks" "0 < cap"
  shows "\<exists>ps. binary_output cd cap msg chunks False
      = (map (\<lambda>p. msg (JString (b64_encode cd p)) False) ps @ [msg (JString (b64_encode cd [])) True], None)
    \<and> concat ps = concat chunks"
  using assms
proof (induction "length (concat chunks) + length chunks" arbitrary: chunks rule: less_induct)
  case less
  show ?case
  proof (cases chunks)
    case Nil
    then have "binary_output cd cap msg chunks False = ([msg (JString (b64_encode cd [])) True], None)"
      by (simp add: binary_output.simps)
    then show ?thesis using Nil by (intro exI [of _ "[]"]) simp
  next
    case (Cons r rs)
    with less.prems have r: "r \<noteq> []" by auto
    let ?rest = "if drop cap r = [] then rs else drop cap r # rs"
    have "length (concat ?rest) + length ?rest < length (concat chunks) + length chunks"
      using r less.prems(2) Cons by (cases r) auto
    moreover have "[] \<notin> set ?rest" using less.prems(1) Cons by auto
    ultimately obtain ps where "binary_output cd cap msg ?rest False
        = (map (\<lambda>p. msg (JString (b64_encode cd p)) False) ps @ [msg (JString (b64_encode cd [])) True], None)"
      "concat ps = concat ?rest" using less.hyps less.prems(2) by blast
    note ps = this
    have "binary_output cd cap msg chunks False = (let (ms, e) = binary_output cd cap msg ?rest False
        in (msg (JString (b64_encode cd (take cap r))) False # ms, e))"
      unfolding Cons binary_output.simps [of cd cap msg "r # rs"] using r less.prems(2) by (simp add: Let_def)
    moreover have "take cap r @ concat ?rest = concat chunks" using Cons by simp
    ultimately show ?thesis
      using ps by (intro exI [of _ "take cap r # ps"]) simp
  qed
qed

theorem binary_delivered_witness:
  "\<exists>ps. binary_output cd 2 msg [''abc'', ''d''] False
      = (map (\<lambda>p. msg (JString (b64_encode cd p)) False) ps @ [msg (JString (b64_encode cd [])) True], None) \<and> concat ps = ''abcd''"
  using binary_delivered [of "[''abc'', ''d'']" 2 cd msg] by simp

lemma zero_split_append:
  "zero_split (a @ b) = (let (vs, r) = zero_split a; (ws, q) = zero_split (r @ b) in (vs @ ws, q))"
proof (induction a)
  case (Cons c a)
  obtain vs r where a: "zero_split a = (vs, r)" by fastforce
  obtain ws q where b: "zero_split (r @ b) = (ws, q)" by fastforce
  show ?case using Cons a b by (cases vs; cases ws) (simp_all add: Let_def)
qed (simp split: prod.split)

lemma zero_split_rest: "zero_split s = (vs, r) \<Longrightarrow> zero_split r = ([], r)"
proof (induction s arbitrary: vs r)
  case (Cons c s)
  obtain ws q where s: "zero_split s = (ws, q)" by fastforce
  from Cons.IH [OF s] have q: "zero_split q = ([], q)" .
  with Cons.prems s show ?case by (auto split: if_splits list.splits)
qed simp

lemma json_messages_append:
  "json_messages cd msg (vs @ ws) eof = (case json_messages cd msg vs eof of
     (ms, Some e) \<Rightarrow> (ms, Some e)
   | (ms, None) \<Rightarrow> (case json_messages cd msg ws eof of (ms', e) \<Rightarrow> (ms @ ms', e)))"
  by (induction vs) (auto split: option.split prod.split)

text \<open>Further result: the values that a script writes do not depend on how its output is read: they
  are those of the whole output, each up to a zero byte. What follows the last zero byte is dropped
  without an error, and no message says that the output ended.\<close>

theorem json_delivered:
  assumes "[] \<notin> set chunks"
  shows "json_output cd [] msg chunks False = json_messages cd msg (fst (zero_split (concat chunks))) False"
proof -
  have "json_output cd buf msg chunks False = json_messages cd msg (fst (zero_split (buf @ concat chunks))) False"
    if "zero_split buf = ([], buf)" for buf
    using assms that
  proof (induction chunks arbitrary: buf)
    case (Cons r rs)
    obtain vs q where v: "zero_split (buf @ r) = (vs, q)" by fastforce
    note q = zero_split_rest [OF v]
    have r: "r \<noteq> []" "[] \<notin> set rs" using Cons.prems(1) by auto
    note ih = Cons.IH [OF r(2) q]
    obtain ws p where w: "zero_split (q @ concat rs) = (ws, p)" by fastforce
    have z: "zero_split (buf @ concat (r # rs)) = (vs @ ws, p)"
      using zero_split_append [of "buf @ r" "concat rs"] v w by simp
    obtain ms e where m: "json_messages cd msg vs False = (ms, e)" by fastforce
    show ?case
      using ih r v w z m by (cases e) (auto simp: json_messages_append Let_def split: prod.split)
  qed simp
  from this [of "[]"] show ?thesis by simp
qed

theorem json_delivered_witness:
  "json_output cd [] msg [''1'', [CHR 0x00], ''2''] False = json_messages cd msg [''1''] False"
  using json_delivered [of "[''1'', [CHR 0x00], ''2'']" cd msg] by simp

section \<open>Input and result\<close>

text \<open>Further result: the input of a script gets what was sent for it. The messages that carry the
  encoded pieces, the last one marked as the end, write the pieces one after the other and end the
  input, and nothing after them is read.\<close>

theorem input_delivered:
  assumes "\<And>s. b64_decode cd (b64_encode cd s) = Some s" "ps \<noteq> []"
  shows "handle_script_input cd (map (\<lambda>p. \<lparr>dm_id = i, dm_source = src, dm_data = JString (b64_encode cd p), dm_eof = None\<rparr>) (butlast ps)
      @ \<lparr>dm_id = i, dm_source = src, dm_data = JString (b64_encode cd (last ps)), dm_eof = Some True\<rparr> # others) final
    = (concat ps, Some None)"
  using assms(2)
proof (induction ps)
  case (Cons p ps)
  then show ?case by (cases "ps = []") (simp_all add: assms(1))
qed simp

definition demo_codec :: codec where
  "demo_codec = \<lparr>b64_encode = (\<lambda>s. s), b64_decode = Some, utf8_lossy = (\<lambda>s. s), utf8_text = Some,
     parse_json = (\<lambda>s. Some (JString s)), json_text = (\<lambda>_. [])\<rparr>"

theorem input_delivered_witness:
  "handle_script_input demo_codec [\<lparr>dm_id = 1, dm_source = None, dm_data = JString ''ab'', dm_eof = None\<rparr>,
      \<lparr>dm_id = 1, dm_source = None, dm_data = JString ''c'', dm_eof = Some True\<rparr>] False = (''abc'', Some None)"
  using input_delivered [of demo_codec "[''ab'', ''c'']" 1 None "[]" False] by (simp add: demo_codec_def)

fun first_of :: "('a \<Rightarrow> 'b option) \<Rightarrow> 'a list \<Rightarrow> 'b option" where
  "first_of f [] = None"
| "first_of f (x # xs) = (case f x of Some y \<Rightarrow> Some y | None \<Rightarrow> first_of f xs)"

definition child_end :: "script_event \<Rightarrow> (script_error + exit_status) option" where
  "child_end ev = (case ev of Child_ended r \<Rightarrow> Some r | _ \<Rightarrow> None)"

definition stdout_end :: "script_event \<Rightarrow> script_error option option" where
  "stdout_end ev = (case ev of Stdout_ended r \<Rightarrow> Some r | _ \<Rightarrow> None)"

definition stderr_end :: "script_event \<Rightarrow> script_error option option" where
  "stderr_end ev = (case ev of Stderr_ended r \<Rightarrow> Some r | _ \<Rightarrow> None)"

definition or_first :: "'b option \<Rightarrow> ('a \<Rightarrow> 'b option) \<Rightarrow> 'a list \<Rightarrow> 'b option" where
  "or_first v f evs = (case v of Some y \<Rightarrow> Some y | None \<Rightarrow> first_of f evs)"

text \<open>Further result: the result of a script does not depend on the order in which its process, its
  output and its input end, as long as the input does not fail. The result of the process decides;
  a failure of the output counts only when the process succeeded.\<close>

theorem script_order_free:
  assumes "\<forall>e. Input_ended (Some e) \<notin> set evs" "first_of child_end evs = Some c"
    and "first_of stdout_end evs = Some out" "first_of stderr_end evs = Some err"
  shows "run_script_loop i evs script_wait_start = Some (script_result i c out err)"
proof -
  have "run_script_loop i evs w = Some (script_result i c out err)"
    if "or_first (sc_child w) child_end evs = Some c" "or_first (sc_stdout w) stdout_end evs = Some out"
      "or_first (sc_stderr w) stderr_end evs = Some err" "\<forall>e. Input_ended (Some e) \<notin> set evs" for w
    using that
  proof (induction evs arbitrary: w)
    case Nil
    then show ?case by (subst run_script_loop.simps) (simp add: or_first_def split: option.splits)
  next
    case (Cons ev evs)
    show ?case
    proof (cases "sc_child w \<noteq> None \<and> sc_stdout w \<noteq> None \<and> sc_stderr w \<noteq> None")
      case True
      with Cons.prems show ?thesis by (subst run_script_loop.simps) (auto simp: or_first_def)
    next
      case False
      have no: "\<forall>e. Input_ended (Some e) \<notin> set evs" using Cons.prems(4) by auto
      show ?thesis
      proof (cases ev)
        case (Child_ended r)
        let ?w = "if sc_child w = None then w\<lparr>sc_child := Some r\<rparr> else w"
        from False have "run_script_loop i (ev # evs) w = run_script_loop i evs ?w"
          by (subst run_script_loop.simps) (auto simp: Child_ended split: option.split)
        also have "\<dots> = Some (script_result i c out err)"
          by (rule Cons.IH [OF _ _ _ no])
            (use Cons.prems in \<open>auto simp: Child_ended or_first_def child_end_def stdout_end_def stderr_end_def split: option.splits\<close>)
        finally show ?thesis .
      next
        case (Stdout_ended r)
        let ?w = "if sc_stdout w = None then w\<lparr>sc_stdout := Some r\<rparr> else w"
        from False have "run_script_loop i (ev # evs) w = run_script_loop i evs ?w"
          by (subst run_script_loop.simps) (auto simp: Stdout_ended split: option.split)
        also have "\<dots> = Some (script_result i c out err)"
          by (rule Cons.IH [OF _ _ _ no])
            (use Cons.prems in \<open>auto simp: Stdout_ended or_first_def child_end_def stdout_end_def stderr_end_def split: option.splits\<close>)
        finally show ?thesis .
      next
        case (Stderr_ended r)
        let ?w = "if sc_stderr w = None then w\<lparr>sc_stderr := Some r\<rparr> else w"
        from False have "run_script_loop i (ev # evs) w = run_script_loop i evs ?w"
          by (subst run_script_loop.simps) (auto simp: Stderr_ended split: option.split)
        also have "\<dots> = Some (script_result i c out err)"
          by (rule Cons.IH [OF _ _ _ no])
            (use Cons.prems in \<open>auto simp: Stderr_ended or_first_def child_end_def stdout_end_def stderr_end_def split: option.splits\<close>)
        finally show ?thesis .
      next
        case (Input_ended r)
        with Cons.prems(4) have r: "r = None" by (cases r) auto
        let ?w = "if sc_stdin_done w then w else w\<lparr>sc_stdin_done := True\<rparr>"
        from False have "run_script_loop i (ev # evs) w = run_script_loop i evs ?w"
          by (subst run_script_loop.simps) (auto simp: Input_ended r split: option.split)
        also have "\<dots> = Some (script_result i c out err)"
          by (rule Cons.IH [OF _ _ _ no])
            (use Cons.prems in \<open>auto simp: Input_ended or_first_def child_end_def stdout_end_def stderr_end_def split: option.splits\<close>)
        finally show ?thesis .
      qed
    qed
  qed
  from this [of script_wait_start] assms show ?thesis by (simp add: or_first_def script_wait_start_def)
qed

theorem script_order_free_witness:
  "run_script_loop 7 [Stdout_ended (Some Not_valid_utf8), Input_ended None, Stderr_ended None, Child_ended (Inr (Exited 3))] script_wait_start
    = Some (Inr (ChFailure \<lparr>fm_id = 7, fm_failure_type = Some FailScript, fm_code = Some 3,
              fm_stdout = None, fm_stderr = None, fm_message = None\<rparr>))"
  using script_order_free [of "[Stdout_ended (Some Not_valid_utf8), Input_ended None, Stderr_ended None, Child_ended (Inr (Exited 3))]"
      "Inr (Exited 3)" "Some Not_valid_utf8" None 7]
  by (simp add: child_end_def stdout_end_def stderr_end_def script_result_def exit_success_def exit_code_def)

end
