(* ===== verification/Spec2Isabelle.thy ===== *)
theory Spec2Isabelle
  imports Broadcast Convergence Setup_Ends Crypt Objects Auth Finite_Float Messages Docker_Images Modified_Files Web_Service Host_Auth Host_Connections Host_Provision Metrics Service_Description Persist Service_Ops Script_Output
begin

text \<open>
  Verification development for simple-admin.

  The program. simple-admin keeps the configuration of a fleet of hosts as typed, versioned
  objects in an SQLite database and brings the hosts to that configuration. The server
  (\<open>src/bin/server\<close>) stores the objects, talks to browsers over a websocket, plans and carries
  out deployments on the hosts that have dialled in, collects messages, watches deployed files
  and contains a docker registry. The client \<open>sadmin\<close> (\<open>src/bin/sadmin\<close>) is the daemon on a host
  and the command line. This development models the server and, of the client, its persist
  daemon, its services and the scripts it runs; paths below are relative to \<open>src/src\<close>.

  How the parts interact. A browser logs in (\<open>Auth\<close>) and makes requests (\<open>Web_Requests\<close>), among them
  those that edit objects (\<open>Object_Requests\<close>, \<open>Objects\<close>). To deploy, the
  server loads the newest objects, walks each host's contents and dependencies and renders their
  templates (\<open>Visitor\<close>, \<open>Visit_Content\<close>, with \<open>Variables\<close> and \<open>Mustache\<close>), sorts the resulting graph
  (\<open>Topsort\<close>, \<open>Cycle_Search\<close>), compares it with the rows of what was deployed before (\<open>Host_Diff\<close>) and
  offers the plan for review (\<open>Setup\<close>, \<open>Deployment\<close>); when it is accepted the objects are deployed
  one by one and recorded (\<open>Perform_Deploy\<close>), after which the same setup plans nothing
  (\<open>Convergence\<close>). What changes is broadcast to all clients (\<open>Broadcast\<close>). Files that were deployed
  are scanned for changes (\<open>Modified_Files\<close>), and messages and images are kept beside (\<open>Messages\<close>,
  \<open>Docker_Uploads\<close>, \<open>Docker_Images\<close>). Hosts are admitted (\<open>Host_Auth\<close>) and served (\<open>Host_Clients\<close>,
  \<open>Host_Connections\<close>, \<open>Host_Provision\<close>) with the messages of \<open>Client_Message\<close>. On a host the client daemon
  runs scripts (\<open>Script_Output\<close>) and services (\<open>Services\<close> and the theories around it), whose
  descriptors and processes the persist daemon keeps (\<open>Persist\<close>).

  Theories of shared vocabulary and data.

  \<^item> \<open>SA_Prelude\<close>: results (\<open>Inl\<close> is the error), \<open>Ordering\<close>, the locales \<open>total_cmp\<close> and \<open>strict_cmp\<close> of
    the \<open>Ord\<close> implementations, \<open>sort_by\<close>, \<open>dedup_by\<close>, and an induction rule for worklist walks.
    \<open>Rust_Strings\<close>, \<open>Rust_Text\<close>: the operations of \<open>str\<close> the program uses.
  \<^item> \<open>Variables\<close> (\<open>bin/server/variabels.rs\<close>): the scoped store; a pushed scope leaves no trace.
    \<open>Mustache\<close> (\<open>bin/server/mustache.rs\<close>): rendering is substitution on plain templates and
    returns unless a template sets an empty start delimiter (\<open>starts_nonempty\<close> follows the
    delimiters of one template; \<open>safe_template\<close> says it of what the server renders).
  \<^item> \<open>Json\<close>, \<open>Ordered_Json\<close> (\<open>bin/server/ordered_json.rs\<close>), \<open>Finite_Float\<close> (\<open>finite_float.rs\<close>): JSON
    values, the order on them, which is total, and the floats that are numbers.
    \<open>Type_Types\<close> (\<open>type_types.rs\<close>): the types of objects and the iterators over their contents; the
    integer tagged serialisation round-trips. \<open>Client_Message\<close> (\<open>client_message.rs\<close>) and
    \<open>Service_Description\<close> (\<open>service_description.rs\<close>): messages, durations and sizes round-trip.

  Theories of the server.

  \<^item> \<open>Deploy_Types\<close>, \<open>Topsort\<close>, \<open>Cycle_Search\<close>, \<open>Host_Diff\<close>, \<open>Deployment\<close>, \<open>Perform_Deploy\<close>,
    \<open>Convergence\<close>, \<open>Visit_Content\<close>, \<open>Visitor\<close>, \<open>Setup\<close>, \<open>Setup_Ends\<close> (all of
    \<open>bin/server/deployment.rs\<close>): the sort is topological and takes greatest type orders first,
    what is left over contains a cycle and one is reported, the plan is exactly the difference of
    the graph and the rows, each needed trigger fires once, at most one setup or deployment works
    at a time, only successes are recorded, deployments converge, every walk and every setup ends.
  \<^item> \<open>Broadcast\<close> (\<open>broadcast\<close> of \<open>bin/server/webclient.rs\<close>): messages computed under a lock are sent after
    it is released, by tasks in any order. \<open>Deployment\<close> and \<open>Modified_Files\<close> show what a client sees
    that got all of them in order, and that it is wrong for good when two arrive swapped.
  \<^item> \<open>Objects\<close> (\<open>bin/server/db.rs\<close>): the versioned table refines a map from ids to current rows and
    loses no history. \<open>Crypt\<close> (\<open>bin/server/crypt.rs\<close>) and \<open>Auth\<close> (\<open>bin/server/get_auth.rs\<close> and the
    login of \<open>bin/server/webclient.rs\<close>): what gives rights and what a login needs, with the limits on
    attempts. \<open>Object_Requests\<close>, \<open>Web_Requests\<close>, \<open>Web_Service\<close> (\<open>handle_message\<close> of
    \<open>bin/server/webclient.rs\<close>): what saving and deleting do, who may do what, what a read only server
    still changes, where rights come from, and that every request ends.
  \<^item> \<open>Messages\<close> (\<open>bin/server/msg.rs\<close>): what is stored, listed and cut, and the cut that panics.
  \<^item> \<open>Docker_Uploads\<close>, \<open>Docker_Images\<close> (\<open>bin/server/docker_web.rs\<close>, \<open>bin/server/web_util.rs\<close>, the pruning of
    \<open>bin/server/docker.rs\<close>): uploads as a step machine whose blobs are addressed by their content,
    manifests that are put and fetched, exactly what the pruning keeps, and what it takes from an
    image that is pushed meanwhile.
  \<^item> \<open>Modified_Files\<close> (\<open>bin/server/modified_files.rs\<close>): a scan lists exactly the files that differ,
    what the clients show of that list, and what resolving an entry does.
  \<^item> \<open>Host_Auth\<close>, \<open>Host_Clients\<close>, \<open>Host_Connections\<close>, \<open>Host_Provision\<close> (\<open>bin/server/hostclient.rs\<close>) and
    \<open>Certificates\<close> (\<open>bin/server/crt.rs\<close>): which hosts are admitted, the framing of the stream, jobs
    and their messages, pings, the table of connections, the authorities of NFS groups and what
    the server runs on a host by itself.

  Theories of the client.

  \<^item> \<open>Persist\<close> (\<open>bin/sadmin/persist_daemon.rs\<close>): a table of descriptors, and processes that get theirs.
  \<^item> \<open>Metrics\<close>, \<open>Service_Instance\<close>, \<open>Service_World\<close>, \<open>Service_Stop\<close>, \<open>Service_Start\<close>, \<open>Services\<close>, \<open>Deploy_Files\<close>,
    \<open>Service_Run\<close>, \<open>Service_Ops\<close> (\<open>bin/sadmin/client_daemon_service.rs\<close>): waiting for an instance, starting
    and stopping it, what failures take back, deployments and the way back, and the loading.
  \<^item> \<open>Script_Output\<close> (\<open>bin/sadmin/client_daemon.rs\<close>): what arrives of the output and input of scripts.

  State and effects. A structure behind a lock is a record, a locked section a function from it to
  its next value; sections of concurrent requests are steps of a relation (\<open>sys_step\<close> in
  \<open>Deployment\<close>, \<open>files_step\<close> in \<open>Modified_Files\<close>) or of a run (\<open>reg_op\<close> and \<open>reg_run\<close> in \<open>Docker_Uploads\<close>).
  The broadcasts of sections and the tasks that send are steps of their own (\<open>spread\<close>). A request of a
  browser is one step in \<open>Web_Requests\<close>. A table is the
  list of its rows. A hash map is an association list, a map or a function whose order nothing
  depends on. Every \<open>?\<close> and \<open>bail!\<close> is an \<open>Inl\<close>; \<open>None\<close> where a function returns an option of a
  result is a panic or a computation without end, as each theory says.

  Interfaces. \<open>max_heap\<close> is the contract of the binary heap, interpreted on an executable one;
  \<open>mutable_map\<close> that of maps changed in place, interpreted on JSON objects and on the table of the
  persist daemon; \<open>total_cmp\<close> and \<open>strict_cmp\<close> those of the comparisons; \<open>mirrored\<close> that of an operation
  whose actions replay to it, interpreted on every operation of a deployment; \<open>followed\<close> that of a
  component whose messages follow its state, interpreted on the deployment and on the modified
  files; \<open>step_relation\<close> that of the relations the walk of the visitor keeps.

  Bounds. Loops that may run for ever are \<open>partial_function (option)\<close> and their results are proved
  to be \<open>Some\<close> where they are (\<open>render_returns\<close>, \<open>setup_deployment_ends\<close>, \<open>prune_returns\<close>,
  \<open>get_host_variables_returns\<close>); the recursion of \<open>visit\<close> counts the nested calls down, and
  \<open>n * (n + 2) + 2\<close> of them are enough for n objects (\<open>visit_top_returns\<close>), which is the number
  \<open>Setup\<close> passes. Identifiers are unbounded integers with the bounds of i64 written out where they
  matter (\<open>node_name_exact\<close>, \<open>parse_i64\<close>); ids of messages and byte comparisons are machine words.
  Times are exact rationals, milliseconds or nanoseconds.

  Parameters. The clock, the random numbers, serde's parsers and printers, the \<open>crypt\<close>, \<open>totp\<close>, hash
  and base64 libraries, the answers of hosts, the outcome of file operations and system calls and
  the connections that are up are arguments of the definitions that use them.

  Not modelled. The sockets, terminals and commands that \<open>bin/server/webclient.rs\<close> and
  \<open>bin/server/terminal.rs\<close> relay, the deployments of services from images in \<open>bin/server/docker.rs\<close>, the
  connection and commands of the client daemon (\<open>bin/sadmin/client_daemon.rs\<close>,
  \<open>bin/sadmin/connection.rs\<close>), the format strings of \<open>bin/sadmin/dyn_format.rs\<close>, the command line front
  ends, the start of the server and its configuration file (glue), the Vanta export (requests to a
  third party), the certificates openssl makes, upgrading and the terminal interface (processes
  and files of the operating system), and the browser's TypeScript.
\<close>

end
